(* ===== verification/Joedb_Prelude.thy ===== *)
theory Joedb_Prelude
  imports Main "HOL-Library.Word"
begin

text \<open>
  Shared vocabulary of the joedb development: machine types, the error values that stand for C++
  exceptions, the result type with its sequencing combinators, the standard-library vector
  operations the sources use, and the generic lemmas on lists the component theories share.
\<close>

section \<open>Types\<close>

text \<open>
  \<open>Record_Id\<close> wraps an \<open>index_t\<close> (\<open>ptrdiff_t\<close>); its values are read here as integers. The
  arithmetic the components do on record identifiers stays far from the 64-bit limits: what the
  journal stores fits in 61 bits, and every vector index is bounded by an allocated size.
\<close>

type_synonym byte = "8 word"
type_synonym Table_Id = "16 word"
type_synonym Field_Id = "16 word"
type_synonym Record_Id = int

abbreviation null_record :: Record_Id where
  "null_record \<equiv> - 1"

section \<open>Errors and results\<close>

text \<open>
  A C++ exception is a value of type \<open>error\<close>: \<open>Exception\<close> carries the message of a
  \<open>joedb::Exception\<close> (a failed \<open>JOEDB_RELEASE_ASSERT\<close> is one too), \<open>Assertion_Failure\<close> is a failed
  \<open>JOEDB_DEBUG_ASSERT\<close> of a debug build, \<open>Bad_Variant_Access\<close> is \<open>std::bad_variant_access\<close>, and
  \<open>Out_Of_Bounds\<close> marks an access outside of an allocated vector, which C++ leaves undefined.
\<close>

datatype error = Exception string | Assertion_Failure | Bad_Variant_Access | Out_Of_Bounds

type_synonym 'a result = "error + 'a"

definition bind_result :: "'a result \<Rightarrow> ('a \<Rightarrow> 'b result) \<Rightarrow> 'b result" where
  "bind_result r f = (case r of Inl e \<Rightarrow> Inl e | Inr x \<Rightarrow> f x)"

lemma bind_result_simps [simp]:
  "bind_result (Inl e) f = Inl e"
  "bind_result (Inr x) f = f x"
  by (simp_all add: bind_result_def)

lemma bind_result_cong [fundef_cong]:
  assumes "r = r'" and "\<And>x. r' = Inr x \<Longrightarrow> f x = f' x"
  shows "bind_result r f = bind_result r' f'"
  using assms by (cases r') auto

lemma bind_result_eq_Inr: "bind_result r f = Inr y \<longleftrightarrow> (\<exists>x. r = Inr x \<and> f x = Inr y)"
  by (cases r) auto

lemma bind_result_assoc: "bind_result (bind_result r f) g = bind_result r (\<lambda>x. bind_result (f x) g)"
  by (simp add: bind_result_def split: sum.splits)

lemma bind_result_InrE [elim!]:
  assumes "bind_result r f = Inr y"
  obtains x where "r = Inr x" and "f x = Inr y"
  using assms by (auto simp: bind_result_eq_Inr)

definition require :: "bool \<Rightarrow> error \<Rightarrow> unit result" where
  "require c e = (if c then Inr () else Inl e)"

lemma require_simps [simp]:
  "c \<Longrightarrow> require c e = Inr ()"
  "\<not> c \<Longrightarrow> require c e = Inl e"
  "require c e = Inr u \<longleftrightarrow> c"
  by (auto simp: require_def)

text \<open>A loop whose body may throw: the first error ends it.\<close>

fun fold_result :: "('a \<Rightarrow> 's \<Rightarrow> 's result) \<Rightarrow> 'a list \<Rightarrow> 's \<Rightarrow> 's result" where
  "fold_result f [] s = Inr s"
| "fold_result f (x # xs) s = bind_result (f x s) (fold_result f xs)"

lemma fold_result_append:
  "fold_result f (xs @ ys) s = bind_result (fold_result f xs s) (fold_result f ys)"
proof (induction xs arbitrary: s)
  case Nil
  show ?case by simp
next
  case (Cons x xs)
  then show ?case by (cases "f x s") simp_all
qed

lemma fold_result_cong [fundef_cong]:
  assumes "xs = ys" and "s = t" and "\<And>x s. x \<in> set ys \<Longrightarrow> f x s = g x s"
  shows "fold_result f xs s = fold_result g ys t"
  using assms(3) unfolding assms(1,2)
proof (induction ys arbitrary: t)
  case (Cons y ys)
  then show ?case by (cases "g y t") simp_all
qed simp

text \<open>
  A correctness triple: the result satisfies \<open>P\<close>, and an error is one the program raises on
  purpose, neither an access out of bounds nor a failed debug assertion.
\<close>

definition safe :: "('a \<Rightarrow> bool) \<Rightarrow> 'a result \<Rightarrow> bool" where
  "safe P r = (case r of Inl e \<Rightarrow> e \<noteq> Out_Of_Bounds \<and> e \<noteq> Assertion_Failure | Inr x \<Rightarrow> P x)"

lemma safe_simps [simp]:
  "safe P (Inr x) = P x"
  "safe P (Inl e) \<longleftrightarrow> e \<noteq> Out_Of_Bounds \<and> e \<noteq> Assertion_Failure"
  by (simp_all add: safe_def)

lemma safe_bind: "safe Q r \<Longrightarrow> (\<And>x. r = Inr x \<Longrightarrow> Q x \<Longrightarrow> safe P (f x)) \<Longrightarrow> safe P (bind_result r f)"
  by (cases r) auto

lemma safe_mono: "safe Q r \<Longrightarrow> (\<And>x. Q x \<Longrightarrow> P x) \<Longrightarrow> safe P r"
  by (cases r) auto

lemma safe_require: "e \<noteq> Out_Of_Bounds \<Longrightarrow> e \<noteq> Assertion_Failure \<Longrightarrow> safe (\<lambda>_. c) (require c e)"
  by (cases c) auto

lemma safe_fold:
  assumes "P s" and "\<And>x s. x \<in> set xs \<Longrightarrow> P s \<Longrightarrow> safe P (f x s)"
  shows "safe P (fold_result f xs s)"
  using assms
proof (induction xs arbitrary: s)
  case (Cons x xs)
  show ?case
    unfolding fold_result.simps by (rule safe_bind [OF Cons.prems(2)]) (use Cons in auto)
qed simp

lemma safe_Inr: "safe P r \<Longrightarrow> r = Inr x \<Longrightarrow> P x"
  by simp

section \<open>Vectors\<close>

text \<open>\<open>std::vector::resize\<close>: truncate, or pad with default-constructed elements.\<close>

definition vector_resize :: "'a \<Rightarrow> nat \<Rightarrow> 'a list \<Rightarrow> 'a list" where
  "vector_resize d n xs = take n xs @ replicate (n - length xs) d"

lemma length_vector_resize [simp]: "length (vector_resize d n xs) = n"
  by (simp add: vector_resize_def)

lemma nth_vector_resize:
  "i < n \<Longrightarrow> vector_resize d n xs ! i = (if i < length xs then xs ! i else d)"
  by (auto simp: vector_resize_def nth_append)

section \<open>Lists\<close>

lemma remove1_split:
  assumes "distinct xs" and "x \<in> set xs"
  obtains ys zs where "xs = ys @ x # zs" and "remove1 x xs = ys @ zs"
    and "x \<notin> set ys" and "x \<notin> set zs"
proof -
  from assms(2) obtain ys zs where xs: "xs = ys @ x # zs"
    by (auto dest: split_list)
  moreover from this assms(1) have "x \<notin> set ys" and "x \<notin> set zs" by auto
  ultimately show ?thesis by (intro that [of ys zs]) (simp_all add: remove1_append)
qed

lemma remove1_snoc_last: "x \<notin> set xs \<Longrightarrow> remove1 x (xs @ [x]) = xs"
  by (simp add: remove1_append)

lemma upto_snoc: "0 \<le> n \<Longrightarrow> [0..n] = [0..n - 1] @ [n]" for n :: int
  by (simp add: upto_rec2)

end
