(* ===== verification/Writable.thy ===== *)
theory Writable
  imports Joedb_Prelude
begin

text \<open>
  Model of \<open>src/src/joedb/Type.h\<close>, \<open>Blob.h\<close>, \<open>TYPE_MACRO.h\<close>, \<open>Writable.h\<close> and \<open>Writable.cpp\<close>:
  the types of fields, their values, and the interface every consumer of journal events
  implements.

  \<open>Writable\<close> is an abstract class. A call of one of its event methods is a value of the datatype
  \<open>event\<close>, and an implementation is a record of functions: the effect of an event on the
  implementation's own state, and the queries \<open>get_position\<close>, \<open>wants_blob_data\<close> and
  \<open>get_own_storage\<close>.
\<close>

section \<open>Types and values\<close>

text \<open>
  \<open>Type_Id\<close> is an enumeration over \<open>uint8_t\<close>; a byte read from a file can lie outside of it,
  which is \<open>Other_Type\<close>. The enumerators are numbered from 0 in the order of \<open>TYPE_MACRO.h\<close>.
\<close>

datatype (plugins only: code size) Type_Id = Null_Type | String_Type | Int32_Type | Int64_Type | Reference_Type | Boolean_Type
  | Float32_Type | Float64_Type | Int8_Type | Int16_Type | Blob_Type | Other_Type byte

definition type_ids :: "Type_Id list" where
  "type_ids = [Null_Type, String_Type, Int32_Type, Int64_Type, Reference_Type, Boolean_Type,
     Float32_Type, Float64_Type, Int8_Type, Int16_Type, Blob_Type]"

text \<open>The ten types of \<open>TYPE_MACRO.h\<close> proper.\<close>

definition macro_type :: "Type_Id \<Rightarrow> bool" where
  "macro_type t \<longleftrightarrow> t \<in> set (tl type_ids)"

fun byte_of_type :: "Type_Id \<Rightarrow> byte" where
  "byte_of_type Null_Type = 0"
| "byte_of_type String_Type = 1"
| "byte_of_type Int32_Type = 2"
| "byte_of_type Int64_Type = 3"
| "byte_of_type Reference_Type = 4"
| "byte_of_type Boolean_Type = 5"
| "byte_of_type Float32_Type = 6"
| "byte_of_type Float64_Type = 7"
| "byte_of_type Int8_Type = 8"
| "byte_of_type Int16_Type = 9"
| "byte_of_type Blob_Type = 10"
| "byte_of_type (Other_Type b) = b"

definition type_of_byte :: "byte \<Rightarrow> Type_Id" where
  "type_of_byte b = (if unat b < length type_ids then type_ids ! unat b else Other_Type b)"

record Type =
  type_id :: Type_Id
  type_table_id :: Table_Id

definition simple_type :: "Type_Id \<Rightarrow> Type" where
  "simple_type t = \<lparr>type_id = t, type_table_id = 0\<rparr>"

definition reference_type :: "Table_Id \<Rightarrow> Type" where
  "reference_type t = \<lparr>type_id = Reference_Type, type_table_id = t\<rparr>"

record Blob =
  blob_position :: int
  blob_size :: int

definition blob_is_null :: "Blob \<Rightarrow> bool" where
  "blob_is_null b \<longleftrightarrow> blob_position b = 0 \<and> blob_size b = 0"

text \<open>Floating-point values are kept as their bit patterns: the modelled code only moves them. A
  boolean is stored as a \<open>char\<close>.\<close>

datatype (plugins only: code size) field_value = String_Value string | Int32_Value "32 word" | Int64_Value "64 word"
  | Reference_Value Record_Id | Boolean_Value byte | Float32_Value "32 word"
  | Float64_Value "64 word" | Int8_Value "8 word" | Int16_Value "16 word" | Blob_Value Blob

fun type_of_value :: "field_value \<Rightarrow> Type_Id" where
  "type_of_value (String_Value s) = String_Type"
| "type_of_value (Int32_Value i) = Int32_Type"
| "type_of_value (Int64_Value i) = Int64_Type"
| "type_of_value (Reference_Value r) = Reference_Type"
| "type_of_value (Boolean_Value b) = Boolean_Type"
| "type_of_value (Float32_Value f) = Float32_Type"
| "type_of_value (Float64_Value f) = Float64_Type"
| "type_of_value (Int8_Value i) = Int8_Type"
| "type_of_value (Int16_Value i) = Int16_Type"
| "type_of_value (Blob_Value b) = Blob_Type"

text \<open>The value a vector of that type is filled with by \<open>std::vector::resize\<close>.\<close>

fun default_value :: "Type_Id \<Rightarrow> field_value" where
  "default_value Int32_Type = Int32_Value 0"
| "default_value Int64_Type = Int64_Value 0"
| "default_value Reference_Type = Reference_Value null_record"
| "default_value Boolean_Type = Boolean_Value 0"
| "default_value Float32_Type = Float32_Value 0"
| "default_value Float64_Type = Float64_Value 0"
| "default_value Int8_Type = Int8_Value 0"
| "default_value Int16_Type = Int16_Value 0"
| "default_value Blob_Type = Blob_Value \<lparr>blob_position = 0, blob_size = 0\<rparr>"
| "default_value _ = String_Value []"

section \<open>The Writable interface\<close>

datatype (plugins only: code size) event =
    Start_Writing int
  | End_Writing int
  | Soft_Checkpoint
  | Hard_Checkpoint
  | Create_Table string
  | Drop_Table Table_Id
  | Rename_Table Table_Id string
  | Add_Field Table_Id string Type
  | Drop_Field Table_Id Field_Id
  | Rename_Field Table_Id Field_Id string
  | Custom string
  | Comment string
  | Timestamp "64 word"
  | Valid_Data
  | Flush
  | Insert_Into Table_Id Record_Id
  | Delete_From Table_Id Record_Id
  | Insert_Vector Table_Id Record_Id nat
  | Delete_Vector Table_Id Record_Id nat
  | Update Table_Id Record_Id Field_Id field_value
  | Update_Vector Table_Id Record_Id Field_Id Type_Id "field_value list"
  | On_Blob Blob
  | Write_Blob string

record 'w Writable =
  handle :: "event \<Rightarrow> 'w \<Rightarrow> 'w result"
  get_position :: "'w \<Rightarrow> int"
  wants_blob_data :: "'w \<Rightarrow> bool"
  get_own_storage :: "'w \<Rightarrow> Table_Id \<Rightarrow> Field_Id \<Rightarrow> Type_Id \<Rightarrow> (nat option) result"

text \<open>
  \<open>get_own_storage\<close> answers with the capacity of the storage, or \<open>None\<close> for the null pointer of
  the base class.

  The default bodies of the base class \<open>Writable\<close>: empty methods, \<open>hard_checkpoint\<close> calling
  \<open>soft_checkpoint\<close>, and vectors handled one element at a time. \<open>h\<close> is the implementation's own
  \<open>handle\<close>, as the calls are virtual.
\<close>

definition writable_insert_vector :: "(event \<Rightarrow> 'w \<Rightarrow> 'w result) \<Rightarrow> Table_Id \<Rightarrow> Record_Id \<Rightarrow> nat \<Rightarrow> 'w \<Rightarrow> 'w result" where
  "writable_insert_vector h t r n = fold_result (\<lambda>i. h (Insert_Into t (r + int i))) [0..<n]"

definition writable_delete_vector :: "(event \<Rightarrow> 'w \<Rightarrow> 'w result) \<Rightarrow> Table_Id \<Rightarrow> Record_Id \<Rightarrow> nat \<Rightarrow> 'w \<Rightarrow> 'w result" where
  "writable_delete_vector h t r n = fold_result (\<lambda>i. h (Delete_From t (r + int n - 1 - int i))) [0..<n]"

definition writable_update_vector :: "(event \<Rightarrow> 'w \<Rightarrow> 'w result) \<Rightarrow> Table_Id \<Rightarrow> Record_Id \<Rightarrow> Field_Id \<Rightarrow> field_value list \<Rightarrow> 'w \<Rightarrow> 'w result" where
  "writable_update_vector h t r f vs =
     fold_result (\<lambda>i. h (Update t (r + int i) f (vs ! i))) [0..<length vs]"

text \<open>\<open>Dummy_Writable\<close> ignores every event; \<open>Loop_Writable\<close> is the base class with the loops.\<close>

definition dummy_writable :: "'w Writable" where
  "dummy_writable = \<lparr>handle = (\<lambda>e w. Inr w), get_position = (\<lambda>w. 0), wants_blob_data = (\<lambda>w. False),
     get_own_storage = (\<lambda>w t f ty. Inr None)\<rparr>"

lemma type_of_byte_of_type: "t \<in> set type_ids \<Longrightarrow> type_of_byte (byte_of_type t) = t"
  by (auto simp: type_ids_def type_of_byte_def)

lemma type_of_default: "macro_type t \<Longrightarrow> type_of_value (default_value t) = t"
  by (auto simp: macro_type_def type_ids_def)

lemma macro_type_of_value [simp]: "macro_type (type_of_value v)"
  by (cases v) (auto simp: macro_type_def type_ids_def)

end
