(* ===== verification/Byte_Codec.thy ===== *)
theory Byte_Codec
  imports Joedb_Prelude
begin

unbundle bit_operations_syntax

text \<open>
  The byte-level encodings of \<open>src/src/joedb/journal/Buffer.h\<close>: fixed-width integers, copied with
  \<open>memcpy\<close> from their little-endian representation, and the compact variable-length encoding of
  non-negative integers (three bits of length and up to 61 bits of value).
\<close>

section \<open>Fixed-width integers\<close>

primrec nat_le :: "nat \<Rightarrow> nat \<Rightarrow> byte list" where
  "nat_le 0 x = []"
| "nat_le (Suc n) x = word_of_nat (x mod 256) # nat_le n (x div 256)"

fun le_nat :: "byte list \<Rightarrow> nat" where
  "le_nat [] = 0"
| "le_nat (b # bs) = unat b + 256 * le_nat bs"

text \<open>The representation of a value of type \<open>T\<close> with \<open>sizeof(T) = n\<close>, and its inverse.\<close>

definition to_bytes :: "nat \<Rightarrow> 'a::len word \<Rightarrow> byte list" where
  "to_bytes n w = nat_le n (unat w)"

definition of_bytes :: "byte list \<Rightarrow> 'a::len word" where
  "of_bytes bs = word_of_nat (le_nat bs)"

lemma length_nat_le [simp]: "length (nat_le n x) = n"
  by (induction n arbitrary: x) auto

lemma length_to_bytes [simp]: "length (to_bytes n w) = n"
  by (simp add: to_bytes_def)

lemma le_nat_nat_le: "le_nat (nat_le n x) = x mod 256 ^ n"
proof (induction n arbitrary: x)
  case (Suc n)
  have "unat (word_of_nat (x mod 256) :: byte) = x mod 256"
    by (simp add: unat_of_nat)
  with Suc show ?case by (simp add: mod_mult2_eq)
qed simp

lemma of_to_bytes [simp]:
  fixes w :: "'a::len word"
  assumes "LENGTH('a) = 8 * n"
  shows "of_bytes (to_bytes n w) = w"
proof -
  have "unat w < 2 ^ LENGTH('a)" by (rule unsigned_less)
  also have "(2::nat) ^ LENGTH('a) = 256 ^ n" unfolding assms power_mult by simp
  finally show ?thesis by (simp add: of_bytes_def to_bytes_def le_nat_nat_le)
qed

section \<open>Compact integers\<close>

text \<open>\<open>while (extra_bytes < 7 && (value >> (8 * extra_bytes)) >= 0x20) extra_bytes++;\<close>\<close>

function extra_bytes_loop :: "64 word \<Rightarrow> nat \<Rightarrow> nat" where
  "extra_bytes_loop v e = (if e < 7 \<and> drop_bit (8 * e) v \<ge> 0x20 then extra_bytes_loop v (e + 1) else e)"
  by pat_completeness auto
termination
  by (relation "measure (\<lambda>(v, e). 7 - e)") auto

declare extra_bytes_loop.simps [simp del]

text \<open>The bytes \<open>value >> (8 * --extra_bytes)\<close>, down to the last one.\<close>

primrec low_bytes :: "64 word \<Rightarrow> nat \<Rightarrow> byte list" where
  "low_bytes v 0 = []"
| "low_bytes v (Suc e) = ucast (drop_bit (8 * e) v) # low_bytes v e"

text \<open>The sequence of bytes that \<open>compact_write(x)\<close> writes.\<close>

definition compact_bytes :: "int \<Rightarrow> byte list" where
  "compact_bytes x =
     (if x < 0x20 then (if x < 0 then [0] else [word_of_int x])
      else if x < 0x20 * 0x100 then [word_of_int (0x20 OR drop_bit 8 x), word_of_int x]
      else let v = word_of_int x :: 64 word; e = extra_bytes_loop v 2
           in ucast (push_bit 5 (word_of_nat e) OR drop_bit (8 * e) v :: 64 word) # low_bytes v e)"

text \<open>
  \<open>compact_read<T>\<close> over any source of bytes: \<open>'a\<close> is the type \<open>T\<close>, and \<open>rd\<close> is
  \<open>read<uint8_t>\<close> of the buffer at hand.
\<close>

fun compact_loop :: "('s \<Rightarrow> (byte \<times> 's) result) \<Rightarrow> nat \<Rightarrow> 'a::len word \<Rightarrow> 's \<Rightarrow> ('a word \<times> 's) result" where
  "compact_loop rd 0 r s = Inr (r, s)"
| "compact_loop rd (Suc n) r s =
     bind_result (rd s) (\<lambda>(b, s'). compact_loop rd n (push_bit 8 r OR ucast b) s')"

definition compact_read :: "('s \<Rightarrow> (byte \<times> 's) result) \<Rightarrow> 's \<Rightarrow> ('a::len word \<times> 's) result" where
  "compact_read rd s =
     bind_result (rd s) (\<lambda>(first_byte, s').
     compact_loop rd (unat (drop_bit 5 first_byte)) (ucast (first_byte AND 0x1f)) s')"

section \<open>The compact encoding round trip\<close>

lemma unat_drop_byte: "unat (drop_bit (8 * k) v) = unat v div 256 ^ k"
proof -
  have "unat (drop_bit (8 * k) v) = drop_bit (8 * k) (unat v)" by (rule unat_drop_bit_eq)
  also have "\<dots> = unat v div 256 ^ k" by (simp add: drop_bit_eq_div power_mult)
  finally show ?thesis .
qed

lemma extra_bytes_loop_spec:
  "unat v < 32 * 256 ^ 7 \<Longrightarrow> e \<le> 7 \<Longrightarrow>
     e \<le> extra_bytes_loop v e \<and> extra_bytes_loop v e \<le> 7 \<and> unat v div 256 ^ extra_bytes_loop v e < 32"
proof (induction v e rule: extra_bytes_loop.induct)
  case (1 v e)
  show ?case
  proof (cases "e < 7 \<and> drop_bit (8 * e) v \<ge> 0x20")
    case True
    with "1" show ?thesis by (simp add: extra_bytes_loop.simps [of v e])
  next
    case False
    then have "extra_bytes_loop v e = e" by (subst extra_bytes_loop.simps) auto
    moreover have "unat v div 256 ^ e < 32"
    proof (cases "e < 7")
      case True
      with False have "drop_bit (8 * e) v < 0x20" by simp
      then show ?thesis by (simp add: word_less_nat_alt unat_drop_byte)
    next
      case False
      with "1.prems" have "e = 7" by simp
      with "1.prems" show ?thesis by (simp add: less_mult_imp_div_less)
    qed
    ultimately show ?thesis using "1.prems" by simp
  qed
qed

lemma horner_step: "push_bit 8 r OR ucast b = r * 256 + (ucast b :: 'a::len word)" for b :: byte
proof -
  have "push_bit 8 r AND ucast b = (0 :: 'a word)"
    by (rule bit_eqI) (auto simp: bit_simps dest: bit_imp_le_length)
  then have "push_bit 8 r + ucast b = push_bit 8 r OR (ucast b :: 'a word)"
    by (rule disjunctive_add_eq_or)
  then show ?thesis by (simp add: push_bit_eq_mult)
qed

text \<open>A source of bytes that holds a given list next.\<close>

fun feeds :: "('s \<Rightarrow> (byte \<times> 's) result) \<Rightarrow> 's \<Rightarrow> byte list \<Rightarrow> 's \<Rightarrow> bool" where
  "feeds rd s [] t \<longleftrightarrow> s = t"
| "feeds rd s (b # bs) t \<longleftrightarrow> (\<exists>s'. rd s = Inr (b, s') \<and> feeds rd s' bs t)"

lemma feeds_append: "feeds rd s (xs @ ys) t \<longleftrightarrow> (\<exists>u. feeds rd s xs u \<and> feeds rd u ys t)"
  by (induction xs arbitrary: s) auto

lemma compact_loop_low_bytes:
  "feeds rd s (low_bytes v e) t \<Longrightarrow>
     compact_loop rd e (word_of_nat (unat v div 256 ^ e)) s = Inr (word_of_nat (unat v) :: 'a::len word, t)"
proof (induction e arbitrary: s)
  case (Suc e)
  then obtain s' where rd: "rd s = Inr (ucast (drop_bit (8 * e) v), s')" and f: "feeds rd s' (low_bytes v e) t"
    by auto
  let ?q = "unat v div 256 ^ e"
  have "unat (ucast (drop_bit (8 * e) v) :: byte) = ?q mod 256"
    by (simp add: unsigned_ucast_eq unat_drop_byte take_bit_eq_mod)
  then have "(ucast (ucast (drop_bit (8 * e) v) :: byte) :: 'a word) = word_of_nat (?q mod 256)"
    by (metis of_nat_unat)
  moreover have "unat v div 256 ^ Suc e = ?q div 256" by (simp add: div_mult2_eq mult.commute [of 256])
  ultimately have "(word_of_nat (unat v div 256 ^ Suc e) :: 'a word) * 256 + ucast (ucast (drop_bit (8 * e) v) :: byte)
      = word_of_nat (?q div 256 * 256 + ?q mod 256)"
    by (simp only: of_nat_add of_nat_mult of_nat_numeral)
  also have "\<dots> = word_of_nat ?q" by simp
  finally show ?case using rd Suc.IH [OF f] by (simp add: horner_step)
qed simp

lemma first_byte_split:
  assumes "e \<le> 7" and "q < 32" and "unat (b :: byte) = 32 * e + q"
  shows "unat (drop_bit 5 b) = e" and "(ucast (b AND 0x1f) :: 'a::len word) = word_of_nat q"
proof -
  have "unat (drop_bit 5 b) = drop_bit 5 (unat b)" by (rule unat_drop_bit_eq)
  with assms show "unat (drop_bit 5 b) = e" by (simp add: drop_bit_eq_div)
  have "b AND 0x1f = take_bit 5 b" by (simp add: take_bit_eq_mask mask_eq_exp_minus_1)
  then have "unat (b AND 0x1f) = take_bit 5 (unat b)" by (simp add: unsigned_take_bit_eq)
  also have "\<dots> = q" using assms by (simp add: take_bit_eq_mod)
  finally show "(ucast (b AND 0x1f) :: 'a word) = word_of_nat q" by (metis of_nat_unat)
qed

lemma or_length_prefix:
  fixes q :: "'b::ring_bit_operations"
  assumes "take_bit 5 q = q"
  shows "push_bit 5 n OR q = 32 * n + q"
proof -
  have "push_bit 5 n AND take_bit 5 q = 0"
    by (rule bit_eqI) (auto simp: bit_simps)
  then have "push_bit 5 n + q = push_bit 5 n OR q"
    using assms by (intro disjunctive_add_eq_or) simp
  then show ?thesis by (simp add: push_bit_eq_mult mult.commute)
qed

text \<open>Every compact encoding is a first byte, with the number of extra bytes and the leading bits,
  and the low bytes.\<close>

lemma compact_bytes_shape:
  assumes "0 \<le> x" and "x < 2 ^ 61"
  obtains b e where "compact_bytes x = b # low_bytes (word_of_int x) e" and "e \<le> 7"
    and "unat b = 32 * e + nat x div 256 ^ e" and "nat x div 256 ^ e < 32"
proof -
  let ?v = "word_of_int x :: 64 word"
  have conv: "(word_of_int x :: 'w::len word) = word_of_nat (nat x)" using assms(1) by simp
  have "nat x < 2 ^ 61" using assms by (simp add: nat_less_iff)
  then have u: "unat ?v = nat x" by (simp only: conv unat_of_nat) simp
  consider "x < 0x20" | "0x20 \<le> x" "x < 0x2000" | "0x2000 \<le> x" by linarith
  then show ?thesis
  proof cases
    case 1
    then have "unat (word_of_int x :: byte) = nat x" by (simp only: conv unat_of_nat) simp
    with 1 assms show ?thesis by (intro that [of _ 0]) (auto simp: compact_bytes_def)
  next
    case 2
    let ?q = "nat x div 256"
    have q: "?q < 32" using 2 by (simp add: less_mult_imp_div_less nat_less_iff)
    have "drop_bit 8 x = int ?q" using assms(1) by (simp add: drop_bit_eq_div zdiv_int)
    then have "0x20 OR drop_bit 8 x = push_bit 5 1 OR int ?q" by (simp add: push_bit_eq_mult)
    also have "\<dots> = int (32 + ?q)" using q by (subst or_length_prefix) (simp_all add: take_bit_eq_mod)
    finally have "(word_of_int (0x20 OR drop_bit 8 x) :: byte) = word_of_nat (32 + ?q)" by simp
    then have "unat (word_of_int (0x20 OR drop_bit 8 x) :: byte) = 32 + ?q" using q by (simp only: unat_of_nat) simp
    moreover have "low_bytes ?v 1 = [word_of_int x]"
      using assms by (simp add: unsigned_of_int take_bit_int_eq_self)
    ultimately show ?thesis using 2 q by (intro that [of _ 1]) (auto simp: compact_bytes_def)
  next
    case 3
    define e where "e = extra_bytes_loop ?v 2"
    have e: "e \<le> 7" "nat x div 256 ^ e < 32"
      using extra_bytes_loop_spec [of ?v 2] \<open>nat x < 2 ^ 61\<close> by (simp_all add: u e_def)
    let ?q = "nat x div 256 ^ e" and ?d = "drop_bit (8 * e) ?v"
    let ?b = "ucast (push_bit 5 (word_of_nat e) OR ?d :: 64 word) :: byte"
    have d: "?d = word_of_nat ?q" using unat_drop_byte [of e ?v] u by (metis of_nat_unat ucast_id)
    have "take_bit 5 (word_of_nat ?q :: 64 word) = word_of_nat ?q"
      using e(2) by (simp add: take_bit_of_nat take_bit_nat_eq_self)
    then have "push_bit 5 (word_of_nat e) OR ?d = word_of_nat (32 * e + ?q)"
      unfolding d by (subst or_length_prefix) simp_all
    then have "unat (push_bit 5 (word_of_nat e) OR ?d) = 32 * e + ?q"
      using e by (simp only: unat_of_nat) simp
    then have "unat ?b = (32 * e + ?q) mod 256"
      by (simp add: unsigned_ucast_eq take_bit_eq_mod)
    also have "\<dots> = 32 * e + ?q" using e by simp
    finally show ?thesis using 3 e by (intro that [of ?b e]) (auto simp: compact_bytes_def e_def Let_def)
  qed
qed

theorem compact_roundtrip:
  assumes "0 \<le> x" and "x < 2 ^ 61" and "feeds rd s (compact_bytes x) t"
  shows "compact_read rd s = Inr (word_of_int x :: 'a::len word, t)"
proof -
  obtain b e where sh: "compact_bytes x = b # low_bytes (word_of_int x) e" "e \<le> 7"
    "unat b = 32 * e + nat x div 256 ^ e" "nat x div 256 ^ e < 32"
    using compact_bytes_shape [OF assms(1,2)] by blast
  have "nat x < 2 ^ 61" using assms by (simp add: nat_less_iff)
  moreover have "(word_of_int x :: 64 word) = word_of_nat (nat x)" using assms(1) by simp
  ultimately have u: "unat (word_of_int x :: 64 word) = nat x"
    by (simp only: unat_of_nat) simp
  from assms(3) sh(1) obtain s' where rd: "rd s = Inr (b, s')" and f: "feeds rd s' (low_bytes (word_of_int x) e) t"
    by auto
  have "compact_read rd s = compact_loop rd e (word_of_nat (nat x div 256 ^ e) :: 'a word) s'"
  proof -
    have "(ucast (b AND 0x1f) :: 'a word) = word_of_nat (nat x div 256 ^ e)"
      by (rule first_byte_split(2) [OF sh(2,4,3)])
    then show ?thesis
      using first_byte_split(1) [OF sh(2,4,3)] by (simp add: compact_read_def rd)
  qed
  also have "\<dots> = Inr (word_of_nat (nat x), t)"
    using compact_loop_low_bytes [OF f] by (simp add: u)
  finally show ?thesis using assms(1) by simp
qed

lemma length_low_bytes [simp]: "length (low_bytes v e) = e"
  by (induction e) auto

lemma length_compact_bytes: "0 < length (compact_bytes x)" "length (compact_bytes x) \<le> 8"
proof -
  have "e \<le> 7 \<Longrightarrow> extra_bytes_loop v e \<le> 7" for v e
    by (induction v e rule: extra_bytes_loop.induct) (subst extra_bytes_loop.simps, simp)
  then show "0 < length (compact_bytes x)" "length (compact_bytes x) \<le> 8"
    by (simp_all add: compact_bytes_def Let_def)
qed

lemma sint_small:
  fixes w :: "64 word"
  assumes "unat w < 2 ^ 63"
  shows "sint w = int (unat w)"
proof -
  have u: "uint w = int (unat w)" by simp
  then have "uint w < 2 ^ 63" using assms by (simp only: u of_nat_less_numeral_power_cancel_iff)
  moreover have "- (2 ^ 63) \<le> uint w"
    by (rule order_trans [OF _ uint_nonnegative]) simp
  ultimately have "signed_take_bit 63 (uint w) = uint w" by (intro signed_take_bit_int_eq_self)
  then show ?thesis by (simp add: sint_uint)
qed

lemma sint_word_of_int: "0 \<le> x \<Longrightarrow> x < 2 ^ 63 \<Longrightarrow> sint (word_of_int x :: 64 word) = x"
  by (simp add: sint_uint uint_word_of_int_eq signed_take_bit_int_eq_self take_bit_int_eq_self)

lemma to_bytes_byte: "to_bytes (Suc 0) b = [b]" for b :: byte
  using unsigned_less [of b, where 'a = nat] by (simp add: to_bytes_def)

section \<open>Evaluation\<close>

text \<open>Code equations that do not count in unary.\<close>

primrec int_le :: "nat \<Rightarrow> int \<Rightarrow> byte list" where
  "int_le 0 x = []"
| "int_le (Suc n) x = word_of_int x # int_le n (x div 256)"

fun le_int :: "byte list \<Rightarrow> int" where
  "le_int [] = 0"
| "le_int (b # bs) = uint b + 256 * le_int bs"

lemma nat_le_int: "nat_le n x = int_le n (int x)"
proof (induction n arbitrary: x)
  case (Suc n)
  have "word_of_nat (x mod 256) = (word_of_int (int x) :: byte)"
    by transfer (simp add: take_bit_eq_mod zmod_int)
  then show ?case by (simp add: Suc zdiv_int)
qed simp

lemma to_bytes_code [code]: "to_bytes n w = int_le n (uint w)"
  by (simp add: to_bytes_def nat_le_int)

lemma of_bytes_code [code]: "of_bytes bs = word_of_int (le_int bs)"
proof -
  have "int (le_nat bs) = le_int bs" by (induction bs) simp_all
  then show ?thesis unfolding of_bytes_def by (metis of_int_of_nat_eq)
qed

end
