(* ===== verification/Abstract_File.thy ===== *)
theory Abstract_File
  imports Writable Byte_Codec
begin

text \<open>
  Model of \<open>src/src/joedb/journal/Abstract_File.h\<close>, \<open>Abstract_File.cpp\<close>, \<open>Open_Mode.h\<close>,
  \<open>Memory_File.h\<close>, \<open>Memory_File.cpp\<close> and \<open>File_Lock.h\<close>: the interface of random-access files, the
  operations built on it, and the implementation that keeps the file in memory.

  \<open>Abstract_File\<close> is an abstract class: an implementation is a record of functions on a state of
  type \<open>'f\<close>. The locale \<open>file_contract\<close> states what the rest of joedb expects from it, short reads
  included, and is interpreted on \<open>Memory_File\<close>.
\<close>

section \<open>The interface\<close>

datatype Open_Mode = Read_Existing | Write_Existing | Create_New | Write_Existing_Or_Create_New
  | Shared_Write | Write_Lock

record 'f Abstract_File =
  get_mode :: "'f \<Rightarrow> Open_Mode"
  file_get_size :: "'f \<Rightarrow> int"
  pread :: "nat \<Rightarrow> int \<Rightarrow> 'f \<Rightarrow> byte list result"
  pwrite :: "byte list \<Rightarrow> int \<Rightarrow> 'f \<Rightarrow> 'f result"
  sync :: "'f \<Rightarrow> 'f result"
  datasync :: "'f \<Rightarrow> 'f result"
  shared_lock :: "int \<Rightarrow> int \<Rightarrow> 'f \<Rightarrow> 'f result"
  exclusive_lock :: "int \<Rightarrow> int \<Rightarrow> 'f \<Rightarrow> 'f result"
  unlock :: "int \<Rightarrow> int \<Rightarrow> 'f \<Rightarrow> 'f"

definition is_shared :: "'f Abstract_File \<Rightarrow> 'f \<Rightarrow> bool" where
  "is_shared F f \<longleftrightarrow> get_mode F f = Shared_Write"

definition is_readonly :: "'f Abstract_File \<Rightarrow> 'f \<Rightarrow> bool" where
  "is_readonly F f \<longleftrightarrow> get_mode F f = Read_Existing"

definition last_position :: int where
  "last_position = 2 ^ 63 - 1"

definition exclusive_lock_tail :: "'f Abstract_File \<Rightarrow> 'f \<Rightarrow> 'f result" where
  "exclusive_lock_tail F f = exclusive_lock F last_position 1 f"

definition unlock_tail :: "'f Abstract_File \<Rightarrow> 'f \<Rightarrow> 'f" where
  "unlock_tail F f = unlock F last_position 1 f"

definition exclusive_lock_head :: "'f Abstract_File \<Rightarrow> 'f \<Rightarrow> 'f result" where
  "exclusive_lock_head F f = exclusive_lock F 0 1 f"

definition shared_lock_head :: "'f Abstract_File \<Rightarrow> 'f \<Rightarrow> 'f result" where
  "shared_lock_head F f = shared_lock F 0 1 f"

definition unlock_head :: "'f Abstract_File \<Rightarrow> 'f \<Rightarrow> 'f" where
  "unlock_head F f = unlock F 0 1 f"

abbreviation reading_past_end_of_file :: error where
  "reading_past_end_of_file \<equiv> Exception ''Trying to read past the end of file''"

text \<open>
  The caller of \<open>pread\<close> passes a buffer of \<open>size\<close> bytes; an implementation that returned more
  would have written outside of it.
\<close>

definition checked_pread :: "'f Abstract_File \<Rightarrow> nat \<Rightarrow> int \<Rightarrow> 'f \<Rightarrow> byte list result" where
  "checked_pread F sz offset f =
     bind_result (pread F sz offset f) (\<lambda>bs. if length bs \<le> sz then Inr bs else Inl Out_Of_Bounds)"

lemma checked_pread_length: "checked_pread F n off f = Inr bs \<Longrightarrow> length bs \<le> n"
  by (auto simp: checked_pread_def split: if_splits)

section \<open>Operations on any file\<close>

text \<open>The loop of \<open>full_pread\<close>; \<open>sz\<close> and \<open>offset\<close> are \<open>size - result\<close> and \<open>offset + result\<close>.\<close>

function full_pread :: "'f Abstract_File \<Rightarrow> nat \<Rightarrow> int \<Rightarrow> 'f \<Rightarrow> byte list result" where
  "full_pread F sz offset f =
     (if sz = 0 then Inr []
      else bind_result (checked_pread F sz offset f) (\<lambda>bs.
           if bs = [] then Inl reading_past_end_of_file
           else bind_result (full_pread F (sz - length bs) (offset + int (length bs)) f) (\<lambda>rest.
                Inr (bs @ rest))))"
  by pat_completeness auto
termination
  by (relation "measure (\<lambda>(F, sz, offset, f). sz)") (auto dest: checked_pread_length)

declare full_pread.simps [simp del]

text \<open>
  The loop of \<open>copy_to\<close>, which ends at the end of the source when \<open>size\<close> is negative: on a source
  that never ends it does not return, which is the value \<open>None\<close>.
\<close>

abbreviation default_buffer_size :: nat where
  "default_buffer_size \<equiv> 4096"

partial_function (option) copy_loop :: "'f Abstract_File \<Rightarrow> 'g Abstract_File \<Rightarrow> 'f \<Rightarrow> int \<Rightarrow> int \<Rightarrow> int \<Rightarrow> 'g \<Rightarrow> 'g result option" where
  "copy_loop F G f start sz copied g =
     (if sz < 0 \<or> copied < sz then
        (case checked_pread F (if sz < 0 then default_buffer_size
                               else nat (min (int default_buffer_size) (sz - copied))) (start + copied) f of
           Inl e \<Rightarrow> Some (Inl e)
         | Inr bs \<Rightarrow>
             if bs = [] then Some (if sz < 0 then Inr g else Inl reading_past_end_of_file)
             else (case pwrite G bs (start + copied) g of
                     Inl e \<Rightarrow> Some (Inl e)
                   | Inr g' \<Rightarrow> copy_loop F G f start sz (copied + int (length bs)) g'))
      else Some (Inr g))"

declare copy_loop.simps [code]

definition copy_to :: "'f Abstract_File \<Rightarrow> 'g Abstract_File \<Rightarrow> 'f \<Rightarrow> int \<Rightarrow> int \<Rightarrow> 'g \<Rightarrow> 'g result option" where
  "copy_to F G f start sz g = copy_loop F G f start sz 0 g"

text \<open>The inner loop of \<open>equal_to\<close> gathers up to \<open>n\<close> bytes of the destination.\<close>

function gather :: "'g Abstract_File \<Rightarrow> nat \<Rightarrow> int \<Rightarrow> 'g \<Rightarrow> byte list result" where
  "gather G n current g =
     (if n = 0 then Inr []
      else bind_result (checked_pread G n current g) (\<lambda>bs.
           if bs = [] then Inr []
           else bind_result (gather G (n - length bs) (current + int (length bs)) g) (\<lambda>rest.
                Inr (bs @ rest))))"
  by pat_completeness auto
termination
  by (relation "measure (\<lambda>(G, n, current, g). n)") (auto dest: checked_pread_length)

declare gather.simps [simp del]

function equal_to :: "'f Abstract_File \<Rightarrow> 'g Abstract_File \<Rightarrow> 'f \<Rightarrow> 'g \<Rightarrow> int \<Rightarrow> int \<Rightarrow> bool result" where
  "equal_to F G f g current until =
     (if current < until then
        bind_result (checked_pread F (nat (min (int default_buffer_size) (until - current))) current f) (\<lambda>b0.
        bind_result (gather G (length b0) current g) (\<lambda>b1.
        if length b1 \<noteq> length b0 then Inr False
        else if length b0 = 0 then Inl reading_past_end_of_file
        else if b0 \<noteq> b1 then Inr False
        else equal_to F G f g (current + int (length b0)) until))
      else Inr True)"
  by pat_completeness auto
termination
proof (relation "measure (\<lambda>(F, G, f, g, current, until). nat (until - current))", goal_cases)
  case (2 F G f g current until b0 b1)
  then have "0 < int (length b0)" using 2(5) by (simp only: of_nat_0_less_iff neq0_conv)
  with 2(1) show ?case unfolding in_measure prod.case by (simp only: zless_nat_conj) linarith
qed simp

declare equal_to.simps [simp del]

definition file_read_blob :: "'f Abstract_File \<Rightarrow> Blob \<Rightarrow> int \<Rightarrow> 'f \<Rightarrow> byte list result" where
  "file_read_blob F blob max_size f =
     (if blob_position blob < 0 \<or> blob_size blob < 0 \<or> blob_size blob > max_size
      then Inl reading_past_end_of_file
      else full_pread F (nat (blob_size blob)) (blob_position blob) f)"

section \<open>Memory_File\<close>

record Memory_File =
  memory_mode :: Open_Mode
  data :: "byte list"

definition memory_file_new :: "Open_Mode \<Rightarrow> Memory_File" where
  "memory_file_new mode = \<lparr>memory_mode = mode, data = []\<rparr>"

definition memory_pread :: "nat \<Rightarrow> int \<Rightarrow> Memory_File \<Rightarrow> byte list result" where
  "memory_pread sz offset f =
     (if \<not> offset \<ge> 0 then Inl Assertion_Failure
      else if nat offset \<ge> length (data f) then Inr []
      else let max_size = length (data f) - nat offset; n = min sz max_size
           in Inr (take n (drop (nat offset) (data f))))"

definition memory_pwrite :: "byte list \<Rightarrow> int \<Rightarrow> Memory_File \<Rightarrow> Memory_File result" where
  "memory_pwrite buffer offset f =
     (if \<not> offset \<ge> 0 then Inl Assertion_Failure
      else let e = nat offset + length buffer;
               d = (if e > length (data f) then vector_resize 0 e (data f) else data f)
           in Inr (f\<lparr>data := take (nat offset) d @ buffer @ drop e d\<rparr>))"

text \<open>The methods \<open>Memory_File\<close> does not override have the empty bodies of \<open>Abstract_File\<close>.\<close>

definition memory_file :: "Memory_File Abstract_File" where
  "memory_file = \<lparr>get_mode = memory_mode, file_get_size = (\<lambda>f. int (length (data f))), pread = memory_pread,
     pwrite = memory_pwrite, sync = Inr, datasync = Inr, shared_lock = (\<lambda>_ _. Inr),
     exclusive_lock = (\<lambda>_ _. Inr), unlock = (\<lambda>_ _ f. f)\<rparr>"

section \<open>The contract of files\<close>

definition patch :: "byte list \<Rightarrow> nat \<Rightarrow> byte list \<Rightarrow> byte list" where
  "patch xs off bs = take off xs @ bs @ drop (off + length bs) xs"

lemma length_patch: "off \<le> length xs \<Longrightarrow> length (patch xs off bs) = max (length xs) (off + length bs)"
  by (auto simp: patch_def)

lemma patch_Nil [simp]: "patch xs off [] = xs"
  by (simp add: patch_def)

lemma patch_end: "patch xs (length xs) bs = xs @ bs"
  by (simp add: patch_def)

lemma patch_patch:
  "off \<le> length xs \<Longrightarrow> patch (patch xs off as) (off + length as) bs = patch xs off (as @ bs)"
  by (simp add: patch_def min_def add.commute add.left_commute)

lemma take_patch: "n \<le> off \<Longrightarrow> off \<le> length xs \<Longrightarrow> take n (patch xs off bs) = take n xs"
  by (simp add: patch_def min_def)

lemma drop_patch: "off \<le> length xs \<Longrightarrow> off + length bs \<le> n \<Longrightarrow> drop n (patch xs off bs) = drop n xs"
  by (simp add: patch_def)

lemma drop_patch_same: "off \<le> length xs \<Longrightarrow> take (length bs) (drop off (patch xs off bs)) = bs"
  by (simp add: patch_def)

text \<open>What reading relies on, and what writing relies on beyond it.\<close>

locale readable_file =
  fixes F :: "'f Abstract_File" and content :: "'f \<Rightarrow> byte list"
  assumes get_size_law: "file_get_size F f = int (length (content f))"
    and pread_law: "0 \<le> off \<Longrightarrow> \<exists>bs. pread F n off f = Inr bs \<and> length bs \<le> n \<and>
          bs = take (length bs) (drop (nat off) (content f)) \<and>
          (bs = [] \<longrightarrow> n = 0 \<or> length (content f) \<le> nat off)"
begin

lemma checked_pread_law:
  assumes "0 \<le> off"
  obtains bs where "checked_pread F n off f = Inr bs" and "length bs \<le> n"
    and "bs = take (length bs) (drop (nat off) (content f))"
    and "nat off + length bs \<le> max (nat off) (length (content f))"
    and "bs = [] \<longrightarrow> n = 0 \<or> length (content f) \<le> nat off"
proof -
  from pread_law [OF assms, of n f] obtain bs where
    *: "pread F n off f = Inr bs" "length bs \<le> n" "bs = take (length bs) (drop (nat off) (content f))"
       "bs = [] \<longrightarrow> n = 0 \<or> length (content f) \<le> nat off" by blast
  moreover from *(3) have "length bs \<le> length (content f) - nat off"
    by (metis length_take length_drop min.cobounded1)
  ultimately show ?thesis by (intro that [of bs]) (auto simp: checked_pread_def)
qed

lemma full_pread_law:
  "0 \<le> off \<Longrightarrow> nat off + n \<le> length (content f) \<Longrightarrow>
     full_pread F n off f = Inr (take n (drop (nat off) (content f)))"
proof (induction n arbitrary: off rule: less_induct)
  case (less n)
  show ?case
  proof (cases "n = 0")
    case False
    obtain bs where bs: "checked_pread F n off f = Inr bs" "length bs \<le> n"
      "bs = take (length bs) (drop (nat off) (content f))"
      "nat off + length bs \<le> max (nat off) (length (content f))"
      "bs = [] \<longrightarrow> n = 0 \<or> length (content f) \<le> nat off"
      by (rule checked_pread_law [OF less.prems(1), of n f])
    then have ne: "bs \<noteq> []" using False less.prems by auto
    have "full_pread F (n - length bs) (off + int (length bs)) f
        = Inr (take (n - length bs) (drop (nat off + length bs) (content f)))"
      using less bs(2) ne False by (subst less.IH) (auto simp: nat_add_distrib)
    then have "full_pread F n off f = Inr (bs @ take (n - length bs) (drop (nat off + length bs) (content f)))"
      using bs(1) ne False by (subst full_pread.simps) simp
    also have "bs @ take (n - length bs) (drop (nat off + length bs) (content f)) = take n (drop (nat off) (content f))"
      using bs(2,3) by (metis add.commute drop_drop le_add_diff_inverse take_add)
    finally show ?thesis .
  qed (simp add: full_pread.simps)
qed

lemma full_pread_past_end:
  "0 \<le> off \<Longrightarrow> 0 < n \<Longrightarrow> nat off + n > length (content f) \<Longrightarrow>
     full_pread F n off f = Inl reading_past_end_of_file"
proof (induction n arbitrary: off rule: less_induct)
  case (less n)
  obtain bs where bs: "checked_pread F n off f = Inr bs" "length bs \<le> n"
    "bs = take (length bs) (drop (nat off) (content f))"
    "nat off + length bs \<le> max (nat off) (length (content f))"
    "bs = [] \<longrightarrow> n = 0 \<or> length (content f) \<le> nat off"
    by (rule checked_pread_law [OF less.prems(1), of n f])
  show ?case
  proof (cases "bs = []")
    case True
    with bs(1) less.prems show ?thesis by (subst full_pread.simps) simp
  next
    case False
    then have "length bs < n" using bs(2,4) less.prems by (auto simp: max_def split: if_splits)
    then have "full_pread F (n - length bs) (off + int (length bs)) f = Inl reading_past_end_of_file"
      using less False bs(2) by (intro less.IH) (auto simp: nat_add_distrib)
    then show ?thesis using bs(1) False less.prems by (subst full_pread.simps) simp
  qed
qed

lemma gather_law:
  "0 \<le> off \<Longrightarrow> gather F n off f = Inr (take n (drop (nat off) (content f)))"
proof (induction n arbitrary: off rule: less_induct)
  case (less n)
  show ?case
  proof (cases "n = 0")
    case False
    obtain bs where bs: "checked_pread F n off f = Inr bs" "length bs \<le> n"
      "bs = take (length bs) (drop (nat off) (content f))"
      "nat off + length bs \<le> max (nat off) (length (content f))"
      "bs = [] \<longrightarrow> n = 0 \<or> length (content f) \<le> nat off"
      by (rule checked_pread_law [OF less.prems, of n f])
    show ?thesis
    proof (cases "bs = []")
      case True
      with bs False show ?thesis by (subst gather.simps) simp
    next
      case ne: False
      have "gather F (n - length bs) (off + int (length bs)) f
          = Inr (take (n - length bs) (drop (nat off + length bs) (content f)))"
        using less bs(2) ne False by (subst less.IH) (auto simp: nat_add_distrib)
      then have "gather F n off f = Inr (bs @ take (n - length bs) (drop (nat off + length bs) (content f)))"
        using bs(1) ne False by (subst gather.simps) simp
      also have "bs @ take (n - length bs) (drop (nat off + length bs) (content f)) = take n (drop (nat off) (content f))"
        using bs(2,3) by (metis add.commute drop_drop le_add_diff_inverse take_add)
      finally show ?thesis .
    qed
  qed (simp add: gather.simps)
qed

end

locale file_contract = readable_file F content
  for F :: "'f Abstract_File" and content :: "'f \<Rightarrow> byte list" +
  assumes pwrite_law: "0 \<le> off \<Longrightarrow> nat off \<le> length (content f) \<Longrightarrow>
          \<exists>f'. pwrite F bs off f = Inr f' \<and> content f' = patch (content f) (nat off) bs \<and>
            get_mode F f' = get_mode F f"
    and sync_law: "\<exists>f'. sync F f = Inr f' \<and> content f' = content f \<and> get_mode F f' = get_mode F f"
    and datasync_law: "\<exists>f'. datasync F f = Inr f' \<and> content f' = content f \<and> get_mode F f' = get_mode F f"
    and shared_lock_law: "\<exists>f'. shared_lock F i k f = Inr f' \<and> content f' = content f \<and> get_mode F f' = get_mode F f"
    and exclusive_lock_law:
          "\<exists>f'. exclusive_lock F i k f = Inr f' \<and> content f' = content f \<and> get_mode F f' = get_mode F f"
    and unlock_law: "content (unlock F i k f) = content f \<and> get_mode F (unlock F i k f) = get_mode F f"

interpretation memory: file_contract memory_file data
proof (unfold_locales, goal_cases)
  case (2 off n f)
  then show ?case by (auto simp: memory_file_def memory_pread_def Let_def)
next
  case (3 off f bs)
  then show ?case
    by (auto simp: memory_file_def memory_pwrite_def Let_def patch_def vector_resize_def)
qed (simp_all add: memory_file_def)

end
