(* ===== verification/File_Buffer.thy ===== *)
theory File_Buffer
  imports Abstract_File
begin

text \<open>
  Model of \<open>src/src/joedb/journal/Buffer.h\<close>, \<open>File_Iterator.h\<close>, \<open>File_Buffer.h\<close> and
  \<open>File_Buffer.cpp\<close>: buffered sequential reading and writing at a position of a file.

  The array \<open>data[size + extra_size]\<close> starts uninitialised; \<open>buffer_data\<close> is the part of it that
  has been written, which is always a prefix. Touching a byte outside of that prefix, or outside
  of the array, is \<open>Out_Of_Bounds\<close>. The debug assertions of the source are kept.

  A string holds characters, a file holds bytes: \<open>bytes_of\<close> and \<open>string_of\<close> convert.
\<close>

definition bytes_of :: "string \<Rightarrow> byte list" where
  "bytes_of s = map (\<lambda>c. word_of_nat (of_char c)) s"

definition string_of :: "byte list \<Rightarrow> string" where
  "string_of bs = map (\<lambda>b. char_of (unat b)) bs"

section \<open>State\<close>

text \<open>\<open>Buffer<12>\<close>, the \<open>File_Iterator\<close> and the file it refers to.\<close>

record 'f File_Buffer =
  fb_file :: 'f
  position :: int
  buffer_data :: "byte list"
  buffer_index :: nat
  read_buffer_size :: nat

abbreviation buffer_size :: nat where
  "buffer_size \<equiv> 4096"

abbreviation extra_size :: nat where
  "extra_size \<equiv> 8"

definition file_buffer_new :: "'f \<Rightarrow> 'f File_Buffer" where
  "file_buffer_new f = \<lparr>fb_file = f, position = 0, buffer_data = [], buffer_index = 0, read_buffer_size = 0\<rparr>"

section \<open>Buffer\<close>

text \<open>The two directions of \<open>memcpy\<close> between \<open>data + index\<close> and the caller, with \<open>index += n\<close>.\<close>

definition buffer_store :: "byte list \<Rightarrow> 'f File_Buffer \<Rightarrow> 'f File_Buffer result" where
  "buffer_store bs b =
     (if buffer_index b > length (buffer_data b) \<or> buffer_index b + length bs > buffer_size + extra_size
      then Inl Out_Of_Bounds
      else Inr (b\<lparr>buffer_data := patch (buffer_data b) (buffer_index b) bs,
                  buffer_index := buffer_index b + length bs\<rparr>))"

definition buffer_fetch :: "nat \<Rightarrow> 'f File_Buffer \<Rightarrow> (byte list \<times> 'f File_Buffer) result" where
  "buffer_fetch n b =
     (if buffer_index b + n > length (buffer_data b) then Inl Out_Of_Bounds
      else Inr (take n (drop (buffer_index b) (buffer_data b)), b\<lparr>buffer_index := buffer_index b + n\<rparr>))"

text \<open>\<open>Buffer::write<T>\<close> and \<open>Buffer::read<T>\<close>; a value is the sequence of its bytes.\<close>

definition buffer_write :: "byte list \<Rightarrow> 'f File_Buffer \<Rightarrow> 'f File_Buffer result" where
  "buffer_write bs b =
     bind_result (require (buffer_index b + length bs < buffer_size + extra_size) Assertion_Failure) (\<lambda>_.
     buffer_store bs b)"

definition buffer_read :: "nat \<Rightarrow> 'f File_Buffer \<Rightarrow> (byte list \<times> 'f File_Buffer) result" where
  "buffer_read n b =
     bind_result (require (buffer_index b + n < buffer_size + extra_size) Assertion_Failure) (\<lambda>_.
     buffer_fetch n b)"

definition one_byte :: "('s \<Rightarrow> (byte list \<times> 's) result) \<Rightarrow> 's \<Rightarrow> (byte \<times> 's) result" where
  "one_byte rd s = bind_result (rd s) (\<lambda>(bs, s'). Inr (hd bs, s'))"

definition buffer_compact_write :: "int \<Rightarrow> 'f File_Buffer \<Rightarrow> 'f File_Buffer result" where
  "buffer_compact_write x b =
     bind_result (require (x \<ge> 0) Assertion_Failure) (\<lambda>_.
     fold_result (\<lambda>c. buffer_write [c]) (compact_bytes x) b)"

definition buffer_compact_read :: "'f File_Buffer \<Rightarrow> ('a::len word \<times> 'f File_Buffer) result" where
  "buffer_compact_read b = compact_read (one_byte (buffer_read 1)) b"

section \<open>File_Iterator\<close>

definition fi_seek :: "int \<Rightarrow> 'f File_Buffer \<Rightarrow> 'f File_Buffer" where
  "fi_seek p b = b\<lparr>position := p\<rparr>"

definition fi_read :: "'f Abstract_File \<Rightarrow> nat \<Rightarrow> 'f File_Buffer \<Rightarrow> (byte list \<times> 'f File_Buffer) result" where
  "fi_read F n b =
     bind_result (checked_pread F n (position b) (fb_file b)) (\<lambda>bs.
     Inr (bs, b\<lparr>position := position b + int (length bs)\<rparr>))"

definition fi_full_read :: "'f Abstract_File \<Rightarrow> nat \<Rightarrow> 'f File_Buffer \<Rightarrow> (byte list \<times> 'f File_Buffer) result" where
  "fi_full_read F n b =
     bind_result (full_pread F n (position b) (fb_file b)) (\<lambda>bs.
     Inr (bs, b\<lparr>position := position b + int n\<rparr>))"

definition fi_write :: "'f Abstract_File \<Rightarrow> byte list \<Rightarrow> 'f File_Buffer \<Rightarrow> 'f File_Buffer result" where
  "fi_write F bs b =
     bind_result (pwrite F bs (position b) (fb_file b)) (\<lambda>f.
     Inr (b\<lparr>fb_file := f, position := position b + int (length bs)\<rparr>))"

section \<open>File_Buffer\<close>

definition buffer_has_write_data :: "'f File_Buffer \<Rightarrow> bool" where
  "buffer_has_write_data b \<longleftrightarrow> buffer_index b > 0 \<and> read_buffer_size b = 0"

definition buffer_has_read_data :: "'f File_Buffer \<Rightarrow> bool" where
  "buffer_has_read_data b \<longleftrightarrow> read_buffer_size b \<noteq> 0"

definition read_buffer :: "'f Abstract_File \<Rightarrow> 'f File_Buffer \<Rightarrow> 'f File_Buffer result" where
  "read_buffer F b =
     bind_result (require (\<not> buffer_has_write_data b) Assertion_Failure) (\<lambda>_.
     bind_result (require (buffer_index b \<le> read_buffer_size b) Assertion_Failure) (\<lambda>_.
     bind_result (fi_read F buffer_size (b\<lparr>buffer_index := 0\<rparr>)) (\<lambda>(bs, b').
     if length bs = 0 then Inl reading_past_end_of_file
     else Inr (b'\<lparr>buffer_data := bs @ drop (length bs) (buffer_data b'), read_buffer_size := length bs\<rparr>))))"

definition write_buffer :: "'f Abstract_File \<Rightarrow> 'f File_Buffer \<Rightarrow> 'f File_Buffer result" where
  "write_buffer F b =
     bind_result (require (\<not> buffer_has_read_data b) Assertion_Failure) (\<lambda>_.
     bind_result (require (buffer_index b \<le> length (buffer_data b)) Out_Of_Bounds) (\<lambda>_.
     bind_result (fi_write F (take (buffer_index b) (buffer_data b)) b) (\<lambda>b'.
     Inr (b'\<lparr>buffer_index := 0\<rparr>))))"

definition check_write_buffer :: "'f Abstract_File \<Rightarrow> 'f File_Buffer \<Rightarrow> 'f File_Buffer result" where
  "check_write_buffer F b =
     bind_result (require (\<not> buffer_has_read_data b) Assertion_Failure) (\<lambda>_.
     if buffer_index b \<ge> buffer_size then write_buffer F b else Inr b)"

definition fb_get_position :: "'f File_Buffer \<Rightarrow> int" where
  "fb_get_position b = position b - int (read_buffer_size b) + int (buffer_index b)"

definition flush :: "'f Abstract_File \<Rightarrow> 'f File_Buffer \<Rightarrow> 'f File_Buffer result" where
  "flush F b =
     bind_result
       (if buffer_has_write_data b then write_buffer F b
        else Inr ((fi_seek (fb_get_position b) b)\<lparr>read_buffer_size := 0\<rparr>))
       (\<lambda>b'. Inr (b'\<lparr>buffer_index := 0\<rparr>))"

definition set_position :: "'f Abstract_File \<Rightarrow> int \<Rightarrow> 'f File_Buffer \<Rightarrow> 'f File_Buffer result" where
  "set_position F p b = bind_result (flush F b) (\<lambda>b'. Inr (fi_seek p b'))"

definition fb_write :: "'f Abstract_File \<Rightarrow> byte list \<Rightarrow> 'f File_Buffer \<Rightarrow> 'f File_Buffer result" where
  "fb_write F bs b = bind_result (buffer_write bs b) (check_write_buffer F)"

definition fb_compact_write :: "'f Abstract_File \<Rightarrow> int \<Rightarrow> 'f File_Buffer \<Rightarrow> 'f File_Buffer result" where
  "fb_compact_write F x b = bind_result (buffer_compact_write x b) (check_write_buffer F)"

definition write_data :: "'f Abstract_File \<Rightarrow> byte list \<Rightarrow> 'f File_Buffer \<Rightarrow> 'f File_Buffer result" where
  "write_data F bs b =
     bind_result (require (\<not> buffer_has_read_data b) Assertion_Failure) (\<lambda>_.
     if length bs \<le> extra_size \<or> length bs < buffer_size + extra_size - buffer_index b
     then bind_result (buffer_store bs b) (check_write_buffer F)
     else bind_result (flush F b) (fi_write F bs))"

definition read_data :: "'f Abstract_File \<Rightarrow> nat \<Rightarrow> 'f File_Buffer \<Rightarrow> (byte list \<times> 'f File_Buffer) result" where
  "read_data F n b =
     bind_result (require (\<not> buffer_has_write_data b) Assertion_Failure) (\<lambda>_.
     bind_result (require (buffer_index b \<le> read_buffer_size b) Assertion_Failure) (\<lambda>_.
     if buffer_index b + n \<le> read_buffer_size b then buffer_fetch n b
     else
       bind_result (buffer_fetch (read_buffer_size b - buffer_index b) b) (\<lambda>(bs0, b0).
       bind_result
         (if n \<le> buffer_size
          then bind_result (read_buffer F b0) (\<lambda>b1.
               buffer_fetch (min (n - length bs0) (read_buffer_size b1 - buffer_index b1)) b1)
          else Inr ([], b0))
         (\<lambda>(bs1, b2).
       bind_result (fi_full_read F (n - (length bs0 + length bs1)) b2) (\<lambda>(bs2, b3).
       Inr (bs0 @ bs1 @ bs2, b3))))))"

text \<open>\<open>read<T>\<close> for the types of one byte, two bytes and so on.\<close>

definition fb_read :: "'f Abstract_File \<Rightarrow> nat \<Rightarrow> 'f File_Buffer \<Rightarrow> ('a::len word \<times> 'f File_Buffer) result" where
  "fb_read F n b = bind_result (read_data F n b) (\<lambda>(bs, b'). Inr (of_bytes bs, b'))"

definition fb_compact_read :: "'f Abstract_File \<Rightarrow> 'f File_Buffer \<Rightarrow> ('a::len word \<times> 'f File_Buffer) result" where
  "fb_compact_read F b =
     (if buffer_index b + 8 \<le> read_buffer_size b then buffer_compact_read b
      else compact_read (one_byte (read_data F 1)) b)"

definition write_reference :: "'f Abstract_File \<Rightarrow> Record_Id \<Rightarrow> 'f File_Buffer \<Rightarrow> 'f File_Buffer result" where
  "write_reference F r b = fb_compact_write F (r + 1) b"

definition read_reference :: "'f Abstract_File \<Rightarrow> 'f File_Buffer \<Rightarrow> (Record_Id \<times> 'f File_Buffer) result" where
  "read_reference F b = bind_result (fb_compact_read F b) (\<lambda>(w :: 64 word, b'). Inr (sint w - 1, b'))"

definition write_string :: "'f Abstract_File \<Rightarrow> string \<Rightarrow> 'f File_Buffer \<Rightarrow> 'f File_Buffer result" where
  "write_string F s b = bind_result (fb_compact_write F (int (length s)) b) (write_data F (bytes_of s))"

definition read_string :: "'f Abstract_File \<Rightarrow> 'f File_Buffer \<Rightarrow> (string \<times> 'f File_Buffer) result" where
  "read_string F b =
     bind_result (fb_compact_read F b) (\<lambda>(w :: 64 word, b').
     bind_result (read_data F (unat w) b') (\<lambda>(bs, b''). Inr (string_of bs, b'')))"

definition fb_safe_read_string :: "'f Abstract_File \<Rightarrow> int \<Rightarrow> 'f File_Buffer \<Rightarrow> (string \<times> 'f File_Buffer) result" where
  "fb_safe_read_string F max_size b =
     bind_result (fb_compact_read F b) (\<lambda>(w :: 64 word, b').
     if sint w > 0 \<and> sint w < max_size
     then bind_result (read_data F (nat (sint w)) b') (\<lambda>(bs, b''). Inr (string_of bs, b''))
     else Inr ([], b'))"

definition fb_write_blob :: "'f Abstract_File \<Rightarrow> Blob \<Rightarrow> 'f File_Buffer \<Rightarrow> 'f File_Buffer result" where
  "fb_write_blob F x b =
     bind_result (fb_compact_write F (blob_position x) b) (fb_compact_write F (blob_size x))"

definition fb_read_blob :: "'f Abstract_File \<Rightarrow> 'f File_Buffer \<Rightarrow> (Blob \<times> 'f File_Buffer) result" where
  "fb_read_blob F b =
     bind_result (fb_compact_read F b) (\<lambda>(p :: 64 word, b').
     bind_result (fb_compact_read F b') (\<lambda>(n :: 64 word, b'').
     Inr (\<lparr>blob_position = sint p, blob_size = sint n\<rparr>, b'')))"

text \<open>
  \<open>buffer.index + n\<close> is computed in \<open>size_t\<close>: a negative sum is a huge number. A sum of \<open>2 ^ 64\<close> or more
  does not occur, as the index is at most 4104 and \<open>n\<close> is a 64-bit signed integer.
\<close>

definition ignore :: "'f Abstract_File \<Rightarrow> int \<Rightarrow> 'f File_Buffer \<Rightarrow> 'f File_Buffer result" where
  "ignore F n b =
     (if 0 \<le> int (buffer_index b) + n \<and> int (buffer_index b) + n \<le> int (read_buffer_size b)
      then Inr (b\<lparr>buffer_index := nat (int (buffer_index b) + n)\<rparr>)
      else set_position F (fb_get_position b + n) b)"

end
