(* ===== verification/Std_Map.thy ===== *)
theory Std_Map
  imports Joedb_Prelude
begin

text \<open>
  \<open>std::map\<close> as an association list with increasing keys, and the contract its clients (the schema
  of the interpreted database) rely on.
\<close>

type_synonym ('k, 'v) std_map = "('k \<times> 'v) list"

abbreviation keys :: "('k, 'v) std_map \<Rightarrow> 'k list" where
  "keys m \<equiv> map fst m"

definition map_ok :: "('k::linorder, 'v) std_map \<Rightarrow> bool" where
  "map_ok m \<longleftrightarrow> sorted_wrt (<) (keys m)"

text \<open>\<open>m[k] = v\<close>, \<open>m.try_emplace(k, v)\<close> and \<open>m.erase(k)\<close>.\<close>

fun map_assign :: "'k::linorder \<Rightarrow> 'v \<Rightarrow> ('k, 'v) std_map \<Rightarrow> ('k, 'v) std_map" where
  "map_assign k v [] = [(k, v)]"
| "map_assign k v (e # m) =
     (if fst e < k then e # map_assign k v m
      else if fst e = k then (k, v) # m
      else (k, v) # e # m)"

definition map_try_emplace :: "'k::linorder \<Rightarrow> 'v \<Rightarrow> ('k, 'v) std_map \<Rightarrow> ('k, 'v) std_map" where
  "map_try_emplace k v m = (case map_of m k of None \<Rightarrow> map_assign k v m | Some _ \<Rightarrow> m)"

definition map_erase :: "'k::linorder \<Rightarrow> ('k, 'v) std_map \<Rightarrow> ('k, 'v) std_map" where
  "map_erase k m = filter (\<lambda>e. fst e \<noteq> k) m"

text \<open>A loop over the map that returns the key of the first value equal to \<open>name\<close>, and 0 if
  there is none: the body of \<open>Readable::find_table\<close> and \<open>Table::find_field\<close>.\<close>

fun find_key :: "('k::zero, string) std_map \<Rightarrow> string \<Rightarrow> 'k" where
  "find_key [] name = 0"
| "find_key (e # m) name = (if snd e = name then fst e else find_key m name)"

section \<open>The contract\<close>

locale std_map_contract =
  fixes ok :: "'m \<Rightarrow> bool"
    and lookup :: "'m \<Rightarrow> 'k \<Rightarrow> 'v option"
    and assign :: "'k \<Rightarrow> 'v \<Rightarrow> 'm \<Rightarrow> 'm"
    and try_emplace :: "'k \<Rightarrow> 'v \<Rightarrow> 'm \<Rightarrow> 'm"
    and erase :: "'k \<Rightarrow> 'm \<Rightarrow> 'm"
  assumes ok_assign: "ok m \<Longrightarrow> ok (assign k v m)"
    and ok_try_emplace: "ok m \<Longrightarrow> ok (try_emplace k v m)"
    and ok_erase: "ok m \<Longrightarrow> ok (erase k m)"
    and lookup_assign: "lookup (assign k v m) = (lookup m)(k \<mapsto> v)"
    and lookup_try_emplace: "lookup (try_emplace k v m) = (if k \<in> dom (lookup m) then lookup m else (lookup m)(k \<mapsto> v))"
    and lookup_erase: "lookup (erase k m) = (lookup m)(k := None)"
begin

lemma dom_assign_same: "lookup m k = Some w \<Longrightarrow> dom (lookup (assign k v m)) = dom (lookup m)"
  by (auto simp: lookup_assign)

lemma emplace_new: "lookup m k = None \<Longrightarrow> lookup (try_emplace k v m) = (lookup m)(k \<mapsto> v)"
  by (auto simp: lookup_try_emplace)

lemma all_assign:
  "\<lbrakk>\<forall>j w. lookup m j = Some w \<longrightarrow> P j w; P k v; lookup (assign k v m) j = Some w\<rbrakk> \<Longrightarrow> P j w"
  by (auto simp: lookup_assign split: if_splits)

end

lemma set_keys_assign: "set (keys (map_assign k v m)) = insert k (set (keys m))"
  by (induction m) auto

lemma map_ok_assign: "map_ok m \<Longrightarrow> map_ok (map_assign k v m)"
proof (induction m)
  case (Cons e m)
  then show ?case
    using set_keys_assign [of k v m] by (auto simp: map_ok_def)
qed (simp add: map_ok_def)

lemma map_of_assign: "map_of (map_assign k v m) = (map_of m)(k \<mapsto> v)"
  by (induction m) auto

interpretation smap: std_map_contract map_ok map_of map_assign map_try_emplace map_erase
proof (unfold_locales, goal_cases)
  case (1 m k v)
  then show ?case by (rule map_ok_assign)
next
  case (2 m k v)
  then show ?case by (auto simp: map_try_emplace_def map_ok_assign split: option.split)
next
  case (3 m k)
  have "keys (map_erase k m) = filter (\<lambda>j. j \<noteq> k) (keys m)"
    by (simp add: map_erase_def filter_map comp_def)
  with 3 show ?case by (simp add: map_ok_def sorted_wrt_filter)
next
  case (4 k v m)
  show ?case by (rule map_of_assign)
next
  case (5 k v m)
  show ?case by (auto simp: map_try_emplace_def map_of_assign split: option.split)
next
  case (6 k m)
  show ?case by (induction m) (auto simp: map_erase_def)
qed

lemma map_ok_distinct: "map_ok m \<Longrightarrow> distinct (keys m)"
  by (auto simp: map_ok_def strict_sorted_iff)

section \<open>Searching by name\<close>

lemma find_key_zero_iff: "0 \<notin> set (keys m) \<Longrightarrow> find_key m name = 0 \<longleftrightarrow> name \<notin> snd ` set m"
  by (induction m) auto

lemma find_key_lookup: "distinct (keys m) \<Longrightarrow> find_key m name = k \<Longrightarrow> k \<noteq> 0 \<Longrightarrow> map_of m k = Some name"
proof (induction m)
  case (Cons e m)
  show ?case
  proof (cases "snd e = name")
    case True
    with Cons.prems show ?thesis by (cases e) auto
  next
    case False
    with Cons have "map_of m k = Some name" by simp
    then have "k \<in> set (keys m)" by (force dest: map_of_SomeD)
    with Cons.prems(1) \<open>map_of m k = Some name\<close> show ?thesis by (cases e) auto
  qed
qed simp

end
