(* ===== verification/Freedom_Keeper.thy ===== *)
theory Freedom_Keeper
  imports Joedb_Prelude
begin

text \<open>
  Model of \<open>src/src/joedb/Freedom_Keeper.h\<close>: the structure that tracks which records of a table
  are used. \<open>List_Freedom_Keeper\<close> keeps two circular doubly linked lists (used and free records)
  inside three vectors, \<open>Dense_Freedom_Keeper\<close> keeps two counters, and \<open>Freedom_Keeper\<close> starts
  dense and switches to lists (\<open>lose_compactness\<close>) when an operation does not fit.

  Debug assertions are part of the model: an operation outside of its precondition is
  \<open>Inl Assertion_Failure\<close>, and the theorems show that it does not occur for the callers.
\<close>

section \<open>List_Freedom_Keeper\<close>

definition used_list :: Record_Id where "used_list = - 2"
definition free_list :: Record_Id where "free_list = - 1"

record List_Freedom_Keeper =
  is_free_v :: "bool list"
  next_v :: "Record_Id list"
  previous_v :: "Record_Id list"
  freedom_size :: Record_Id
  used_count :: Record_Id

text \<open>The data pointers of the three vectors are shifted by two, so that the heads of the lists
  have the identifiers \<open>-2\<close> and \<open>-1\<close>.\<close>

definition slot :: "Record_Id \<Rightarrow> nat" where
  "slot i = nat (i + 2)"

definition is_free_f :: "List_Freedom_Keeper \<Rightarrow> Record_Id \<Rightarrow> bool" where
  "is_free_f s i = is_free_v s ! slot i"

definition next_f :: "List_Freedom_Keeper \<Rightarrow> Record_Id \<Rightarrow> Record_Id" where
  "next_f s i = next_v s ! slot i"

definition previous_f :: "List_Freedom_Keeper \<Rightarrow> Record_Id \<Rightarrow> Record_Id" where
  "previous_f s i = previous_v s ! slot i"

definition set_is_free :: "Record_Id \<Rightarrow> bool \<Rightarrow> List_Freedom_Keeper \<Rightarrow> List_Freedom_Keeper" where
  "set_is_free i b s = s\<lparr>is_free_v := (is_free_v s)[slot i := b]\<rparr>"

definition set_next :: "Record_Id \<Rightarrow> Record_Id \<Rightarrow> List_Freedom_Keeper \<Rightarrow> List_Freedom_Keeper" where
  "set_next i j s = s\<lparr>next_v := (next_v s)[slot i := j]\<rparr>"

definition set_previous :: "Record_Id \<Rightarrow> Record_Id \<Rightarrow> List_Freedom_Keeper \<Rightarrow> List_Freedom_Keeper" where
  "set_previous i j s = s\<lparr>previous_v := (previous_v s)[slot i := j]\<rparr>"

definition resize_vector :: "Record_Id \<Rightarrow> List_Freedom_Keeper \<Rightarrow> List_Freedom_Keeper" where
  "resize_vector n s = s\<lparr>freedom_size := n,
     is_free_v := vector_resize False (slot n) (is_free_v s),
     next_v := vector_resize null_record (slot n) (next_v s),
     previous_v := vector_resize null_record (slot n) (previous_v s)\<rparr>"

definition lfk_new :: List_Freedom_Keeper where
  "lfk_new =
     (let s0 = resize_vector 0 \<lparr>is_free_v = [], next_v = [], previous_v = [],
                                freedom_size = 0, used_count = 0\<rparr>;
          s1 = set_previous used_list used_list
                 (set_next used_list used_list (set_is_free used_list False s0))
      in set_previous free_list free_list
           (set_next free_list free_list (set_is_free free_list True s1)))"

definition lfk_get_used_count :: "List_Freedom_Keeper \<Rightarrow> Record_Id" where
  "lfk_get_used_count s = used_count s"

definition lfk_get_size :: "List_Freedom_Keeper \<Rightarrow> Record_Id" where
  "lfk_get_size s = freedom_size s"

definition lfk_get_next :: "List_Freedom_Keeper \<Rightarrow> Record_Id \<Rightarrow> Record_Id" where
  "lfk_get_next s i = next_f s i"

definition lfk_get_previous :: "List_Freedom_Keeper \<Rightarrow> Record_Id \<Rightarrow> Record_Id" where
  "lfk_get_previous s i = previous_f s i"

definition lfk_is_used :: "List_Freedom_Keeper \<Rightarrow> Record_Id \<Rightarrow> bool" where
  "lfk_is_used s i \<longleftrightarrow> 0 \<le> i \<and> i < freedom_size s \<and> \<not> is_free_f s i"

fun free_vector_loop :: "List_Freedom_Keeper \<Rightarrow> Record_Id \<Rightarrow> nat \<Rightarrow> bool" where
  "free_vector_loop s i 0 = True"
| "free_vector_loop s i (Suc n) =
     (if i \<ge> freedom_size s then True
      else if \<not> is_free_f s i then False
      else free_vector_loop s (i + 1) n)"

definition lfk_is_free_vector :: "List_Freedom_Keeper \<Rightarrow> Record_Id \<Rightarrow> nat \<Rightarrow> bool" where
  "lfk_is_free_vector s index n = (if index < 0 then False else free_vector_loop s index n)"

fun used_vector_loop :: "List_Freedom_Keeper \<Rightarrow> Record_Id \<Rightarrow> nat \<Rightarrow> bool" where
  "used_vector_loop s i 0 = True"
| "used_vector_loop s i (Suc n) = (if is_free_f s i then False else used_vector_loop s (i + 1) n)"

definition lfk_is_used_vector :: "List_Freedom_Keeper \<Rightarrow> Record_Id \<Rightarrow> nat \<Rightarrow> bool" where
  "lfk_is_used_vector s index n =
     (if index < 0 \<or> index > freedom_size s \<or> n > nat (freedom_size s) - nat index
      then False else used_vector_loop s index n)"

definition lfk_is_dense :: "List_Freedom_Keeper \<Rightarrow> bool" where
  "lfk_is_dense s \<longleftrightarrow> freedom_size s = used_count s"

text \<open>
  The pointer assignments of \<open>push_back\<close>, \<open>use\<close> and \<open>free\<close> come in three groups, in the order
  of the source: taking an index out of the list it is in (\<open>use\<close>, \<open>free\<close>), putting it at the
  front of the free list (\<open>push_back\<close>, \<open>free\<close>) and at the back of the used list (\<open>use\<close>).
\<close>

definition lfk_unlink :: "Record_Id \<Rightarrow> List_Freedom_Keeper \<Rightarrow> List_Freedom_Keeper" where
  "lfk_unlink index s =
     (let s1 = set_next (previous_f s index) (next_f s index) s
      in set_previous (next_f s1 index) (previous_f s1 index) s1)"

definition lfk_link_free :: "Record_Id \<Rightarrow> List_Freedom_Keeper \<Rightarrow> List_Freedom_Keeper" where
  "lfk_link_free index s =
     (let s1 = set_next index (next_f s free_list) s;
          s2 = set_previous index free_list s1;
          s3 = set_previous (next_f s2 free_list) index s2
      in set_next free_list index s3)"

definition lfk_link_used :: "Record_Id \<Rightarrow> List_Freedom_Keeper \<Rightarrow> List_Freedom_Keeper" where
  "lfk_link_used index s =
     (let s1 = set_previous index (previous_f s used_list) s;
          s2 = set_next index used_list s1;
          s3 = set_next (previous_f s2 index) index s2
      in set_previous used_list index s3)"

definition lfk_push_back :: "List_Freedom_Keeper \<Rightarrow> Record_Id \<times> List_Freedom_Keeper" where
  "lfk_push_back s =
     (let index = freedom_size s;
          s1 = set_is_free index True (resize_vector (freedom_size s + 1) s)
      in (index, lfk_link_free index s1))"

definition lfk_get_free_record :: "List_Freedom_Keeper \<Rightarrow> Record_Id \<times> List_Freedom_Keeper" where
  "lfk_get_free_record s =
     (let result = next_f s free_list
      in if result = free_list
         then (let s' = snd (lfk_push_back s) in (next_f s' free_list, s'))
         else (result, s))"

lemma freedom_size_set [simp]:
  "freedom_size (set_is_free i b s) = freedom_size s"
  "freedom_size (set_next i j s) = freedom_size s"
  "freedom_size (set_previous i j s) = freedom_size s"
  "freedom_size (resize_vector n s) = n"
  by (simp_all add: set_is_free_def set_next_def set_previous_def resize_vector_def)

lemma freedom_size_push_back [simp]: "freedom_size (snd (lfk_push_back s)) = freedom_size s + 1"
  by (simp add: lfk_push_back_def lfk_link_free_def Let_def)

function lfk_resize :: "Record_Id \<Rightarrow> List_Freedom_Keeper \<Rightarrow> List_Freedom_Keeper" where
  "lfk_resize new_size s =
     (if lfk_get_size s < new_size then lfk_resize new_size (snd (lfk_push_back s)) else s)"
  by pat_completeness auto
termination
  by (relation "measure (\<lambda>(n, s). nat (n - freedom_size s))") (auto simp: lfk_get_size_def)

declare lfk_resize.simps [simp del]

definition lfk_use :: "Record_Id \<Rightarrow> List_Freedom_Keeper \<Rightarrow> List_Freedom_Keeper result" where
  "lfk_use index s =
     (if \<not> (index \<ge> 0 \<and> index < freedom_size s \<and> is_free_f s index) then Inl Assertion_Failure
      else let s' = lfk_link_used index (lfk_unlink index (set_is_free index False s))
           in Inr (s'\<lparr>used_count := used_count s' + 1\<rparr>))"

definition lfk_free :: "Record_Id \<Rightarrow> List_Freedom_Keeper \<Rightarrow> List_Freedom_Keeper result" where
  "lfk_free index s =
     (if \<not> (index \<ge> 0 \<and> index < freedom_size s \<and> \<not> is_free_f s index) then Inl Assertion_Failure
      else let s' = lfk_link_free index (lfk_unlink index (set_is_free index True s))
           in Inr (s'\<lparr>used_count := used_count s' - 1\<rparr>))"

fun lfk_use_vector :: "Record_Id \<Rightarrow> nat \<Rightarrow> List_Freedom_Keeper \<Rightarrow> List_Freedom_Keeper result" where
  "lfk_use_vector index 0 s = Inr s"
| "lfk_use_vector index (Suc n) s = bind_result (lfk_use index s) (lfk_use_vector (index + 1) n)"

fun lfk_free_vector :: "Record_Id \<Rightarrow> nat \<Rightarrow> List_Freedom_Keeper \<Rightarrow> List_Freedom_Keeper result" where
  "lfk_free_vector index 0 s = Inr s"
| "lfk_free_vector index (Suc n) s = bind_result (lfk_free index s) (lfk_free_vector (index + 1) n)"

section \<open>Dense_Freedom_Keeper\<close>

record Dense_Freedom_Keeper =
  used_size :: Record_Id
  free_size :: Record_Id

definition dfk_new :: Dense_Freedom_Keeper where
  "dfk_new = \<lparr>used_size = 0, free_size = 0\<rparr>"

definition dfk_get_used_count :: "Dense_Freedom_Keeper \<Rightarrow> Record_Id" where
  "dfk_get_used_count d = used_size d"

definition dfk_get_size :: "Dense_Freedom_Keeper \<Rightarrow> Record_Id" where
  "dfk_get_size d = free_size d"

definition dfk_get_first_free :: "Dense_Freedom_Keeper \<Rightarrow> Record_Id" where
  "dfk_get_first_free d = (if used_size d = free_size d then free_list else used_size d)"

definition dfk_get_first_used :: "Dense_Freedom_Keeper \<Rightarrow> Record_Id" where
  "dfk_get_first_used d = (if used_size d = 0 then used_list else 0)"

definition dfk_get_next :: "Dense_Freedom_Keeper \<Rightarrow> Record_Id \<Rightarrow> Record_Id" where
  "dfk_get_next d index =
     (if index = used_list then dfk_get_first_used d
      else if index = free_list then dfk_get_first_free d
      else let result = index + 1
           in if result = used_size d then used_list
              else if result = free_size d then free_list
              else result)"

definition dfk_get_previous :: "Dense_Freedom_Keeper \<Rightarrow> Record_Id \<Rightarrow> Record_Id" where
  "dfk_get_previous d index =
     (if index = used_list then (if used_size d = 0 then used_list else used_size d - 1)
      else if index = free_list
      then (if used_size d = free_size d then free_list else free_size d - 1)
      else let result = index - 1
           in if result = used_size d - 1 then free_list
              else if result = - 1 then used_list
              else result)"

definition dfk_is_used :: "Dense_Freedom_Keeper \<Rightarrow> Record_Id \<Rightarrow> bool" where
  "dfk_is_used d index \<longleftrightarrow> 0 \<le> index \<and> index < used_size d"

definition dfk_is_free_vector :: "Dense_Freedom_Keeper \<Rightarrow> Record_Id \<Rightarrow> nat \<Rightarrow> bool" where
  "dfk_is_free_vector d index n \<longleftrightarrow> index \<ge> used_size d"

definition dfk_is_used_vector :: "Dense_Freedom_Keeper \<Rightarrow> Record_Id \<Rightarrow> nat \<Rightarrow> bool" where
  "dfk_is_used_vector d index n \<longleftrightarrow>
     0 \<le> index \<and> index \<le> used_size d \<and> n \<le> nat (used_size d) - nat index"

definition dfk_get_free_record :: "Dense_Freedom_Keeper \<Rightarrow> Record_Id \<times> Dense_Freedom_Keeper" where
  "dfk_get_free_record d =
     (used_size d, if free_size d = used_size d then d\<lparr>free_size := free_size d + 1\<rparr> else d)"

definition dfk_push_back :: "Dense_Freedom_Keeper \<Rightarrow> Record_Id \<times> Dense_Freedom_Keeper" where
  "dfk_push_back d = (free_size d + 1 - 1, d\<lparr>free_size := free_size d + 1\<rparr>)"

definition dfk_resize :: "Record_Id \<Rightarrow> Dense_Freedom_Keeper \<Rightarrow> Dense_Freedom_Keeper" where
  "dfk_resize n d = (if free_size d < n then d\<lparr>free_size := n\<rparr> else d)"

definition dfk_use :: "Record_Id \<Rightarrow> Dense_Freedom_Keeper \<Rightarrow> bool \<times> Dense_Freedom_Keeper" where
  "dfk_use index d =
     (if index = used_size d \<and> used_size d < free_size d
      then (True, d\<lparr>used_size := used_size d + 1\<rparr>) else (False, d))"

definition dfk_free :: "Record_Id \<Rightarrow> Dense_Freedom_Keeper \<Rightarrow> bool \<times> Dense_Freedom_Keeper" where
  "dfk_free index d =
     (if index = used_size d - 1 \<and> index \<ge> 0
      then (True, d\<lparr>used_size := used_size d - 1\<rparr>) else (False, d))"

definition dfk_use_vector :: "Record_Id \<Rightarrow> nat \<Rightarrow> Dense_Freedom_Keeper \<Rightarrow> bool \<times> Dense_Freedom_Keeper" where
  "dfk_use_vector index n d =
     (if index = used_size d \<and> used_size d + int n \<le> free_size d
      then (True, d\<lparr>used_size := used_size d + int n\<rparr>) else (False, d))"

definition dfk_free_vector :: "Record_Id \<Rightarrow> nat \<Rightarrow> Dense_Freedom_Keeper \<Rightarrow> bool \<times> Dense_Freedom_Keeper" where
  "dfk_free_vector index n d =
     (if index + int n = used_size d
      then (True, d\<lparr>used_size := used_size d - int n\<rparr>) else (False, d))"

section \<open>Freedom_Keeper\<close>

record Freedom_Keeper =
  lfk :: List_Freedom_Keeper
  dfk :: Dense_Freedom_Keeper
  dense :: bool

definition fk_new :: Freedom_Keeper where
  "fk_new = \<lparr>lfk = lfk_new, dfk = dfk_new, dense = True\<rparr>"

text \<open>The two loops of \<open>lose_compactness\<close>.\<close>

definition lose_compactness :: "Freedom_Keeper \<Rightarrow> Freedom_Keeper result" where
  "lose_compactness k =
     bind_result (require (dense k) (Exception ''dense'')) (\<lambda>_.
     bind_result (fold_result lfk_use [0..dfk_get_used_count (dfk k) - 1]
                    (lfk_resize (dfk_get_size (dfk k)) (lfk k))) (\<lambda>l.
     Inr (k\<lparr>lfk := l, dense := False\<rparr>)))"

definition fk_get_used_count :: "Freedom_Keeper \<Rightarrow> Record_Id" where
  "fk_get_used_count k = (if dense k then dfk_get_used_count (dfk k) else lfk_get_used_count (lfk k))"

definition fk_get_size :: "Freedom_Keeper \<Rightarrow> Record_Id" where
  "fk_get_size k = (if dense k then dfk_get_size (dfk k) else lfk_get_size (lfk k))"

definition fk_get_next :: "Freedom_Keeper \<Rightarrow> Record_Id \<Rightarrow> Record_Id" where
  "fk_get_next k i = (if dense k then dfk_get_next (dfk k) i else lfk_get_next (lfk k) i)"

definition fk_get_previous :: "Freedom_Keeper \<Rightarrow> Record_Id \<Rightarrow> Record_Id" where
  "fk_get_previous k i = (if dense k then dfk_get_previous (dfk k) i else lfk_get_previous (lfk k) i)"

definition fk_get_first_free :: "Freedom_Keeper \<Rightarrow> Record_Id" where
  "fk_get_first_free k = fk_get_next k free_list"

definition fk_get_first_used :: "Freedom_Keeper \<Rightarrow> Record_Id" where
  "fk_get_first_used k = fk_get_next k used_list"

definition fk_get_last_free :: "Freedom_Keeper \<Rightarrow> Record_Id" where
  "fk_get_last_free k = fk_get_previous k free_list"

definition fk_get_last_used :: "Freedom_Keeper \<Rightarrow> Record_Id" where
  "fk_get_last_used k = fk_get_previous k used_list"

definition fk_is_used :: "Freedom_Keeper \<Rightarrow> Record_Id \<Rightarrow> bool" where
  "fk_is_used k i = (if dense k then dfk_is_used (dfk k) i else lfk_is_used (lfk k) i)"

definition fk_is_free :: "Freedom_Keeper \<Rightarrow> Record_Id \<Rightarrow> bool" where
  "fk_is_free k i \<longleftrightarrow> \<not> fk_is_used k i"

definition fk_is_used_vector :: "Freedom_Keeper \<Rightarrow> Record_Id \<Rightarrow> nat \<Rightarrow> bool" where
  "fk_is_used_vector k i n =
     (if dense k then dfk_is_used_vector (dfk k) i n else lfk_is_used_vector (lfk k) i n)"

definition fk_is_free_vector :: "Freedom_Keeper \<Rightarrow> Record_Id \<Rightarrow> nat \<Rightarrow> bool" where
  "fk_is_free_vector k i n =
     (if dense k then dfk_is_free_vector (dfk k) i n else lfk_is_free_vector (lfk k) i n)"

definition fk_get_free_record :: "Freedom_Keeper \<Rightarrow> Record_Id \<times> Freedom_Keeper" where
  "fk_get_free_record k =
     (if dense k then (case dfk_get_free_record (dfk k) of (i, d) \<Rightarrow> (i, k\<lparr>dfk := d\<rparr>))
      else (case lfk_get_free_record (lfk k) of (i, l) \<Rightarrow> (i, k\<lparr>lfk := l\<rparr>)))"

definition fk_push_back :: "Freedom_Keeper \<Rightarrow> Record_Id \<times> Freedom_Keeper" where
  "fk_push_back k =
     (if dense k then (case dfk_push_back (dfk k) of (i, d) \<Rightarrow> (i, k\<lparr>dfk := d\<rparr>))
      else (case lfk_push_back (lfk k) of (i, l) \<Rightarrow> (i, k\<lparr>lfk := l\<rparr>)))"

definition fk_resize :: "Record_Id \<Rightarrow> Freedom_Keeper \<Rightarrow> Freedom_Keeper" where
  "fk_resize n k =
     (if dense k then k\<lparr>dfk := dfk_resize n (dfk k)\<rparr> else k\<lparr>lfk := lfk_resize n (lfk k)\<rparr>)"

text \<open>
  The four mutators share one shape: try the dense keeper, lose compactness when it refuses, and
  otherwise work on the lists.
\<close>

definition on_lfk :: "(List_Freedom_Keeper \<Rightarrow> List_Freedom_Keeper result) \<Rightarrow>
    Freedom_Keeper \<Rightarrow> Freedom_Keeper result" where
  "on_lfk f k = bind_result (f (lfk k)) (\<lambda>l. Inr (k\<lparr>lfk := l\<rparr>))"

definition fk_use :: "Record_Id \<Rightarrow> Freedom_Keeper \<Rightarrow> Freedom_Keeper result" where
  "fk_use index k =
     (if dense k then
        (case dfk_use index (dfk k) of
           (True, d) \<Rightarrow> Inr (k\<lparr>dfk := d\<rparr>)
         | (False, d) \<Rightarrow> bind_result (lose_compactness (k\<lparr>dfk := d\<rparr>)) (on_lfk (lfk_use index)))
      else on_lfk (lfk_use index) k)"

definition fk_free :: "Record_Id \<Rightarrow> Freedom_Keeper \<Rightarrow> Freedom_Keeper result" where
  "fk_free index k =
     (if dense k then
        (case dfk_free index (dfk k) of
           (True, d) \<Rightarrow> Inr (k\<lparr>dfk := d\<rparr>)
         | (False, d) \<Rightarrow> bind_result (lose_compactness (k\<lparr>dfk := d\<rparr>)) (on_lfk (lfk_free index)))
      else on_lfk (lfk_free index) k)"

definition fk_use_vector :: "Record_Id \<Rightarrow> nat \<Rightarrow> Freedom_Keeper \<Rightarrow> Freedom_Keeper result" where
  "fk_use_vector index n k =
     (if dense k then
        (case dfk_use_vector index n (dfk k) of
           (True, d) \<Rightarrow> Inr (k\<lparr>dfk := d\<rparr>)
         | (False, d) \<Rightarrow> bind_result (lose_compactness (k\<lparr>dfk := d\<rparr>)) (on_lfk (lfk_use_vector index n)))
      else on_lfk (lfk_use_vector index n) k)"

definition fk_free_vector :: "Record_Id \<Rightarrow> nat \<Rightarrow> Freedom_Keeper \<Rightarrow> Freedom_Keeper result" where
  "fk_free_vector index n k =
     (if dense k then
        (case dfk_free_vector index n (dfk k) of
           (True, d) \<Rightarrow> Inr (k\<lparr>dfk := d\<rparr>)
         | (False, d) \<Rightarrow> bind_result (lose_compactness (k\<lparr>dfk := d\<rparr>)) (on_lfk (lfk_free_vector index n)))
      else on_lfk (lfk_free_vector index n) k)"

end
