(* ===== verification/Interpreted_Database.thy ===== *)
theory Interpreted_Database
  imports Writable Std_Map Freedom_Keeper "HOL-Library.Char_ord"
begin

text \<open>
  Model of \<open>src/src/joedb/interpreted/\<close> (\<open>Field.h\<close>, \<open>Table.h\<close>, \<open>Table.cpp\<close>, \<open>Database_Schema.cpp\<close>,
  \<open>Database.cpp\<close>), of \<open>is_identifier.cpp\<close> and of the schema queries of \<open>Readable.cpp\<close>: the
  in-memory tables that the journal is replayed into.

  An exception is thrown before the tables are changed, so that an error value need not carry
  the state. Accesses outside of a column are \<open>Out_Of_Bounds\<close>.
\<close>

section \<open>Identifiers\<close>

definition is_letter :: "char \<Rightarrow> bool" where
  "is_letter c \<longleftrightarrow> (CHR ''a'' \<le> c \<and> c \<le> CHR ''z'') \<or> (CHR ''A'' \<le> c \<and> c \<le> CHR ''Z'')"

definition is_number :: "char \<Rightarrow> bool" where
  "is_number c \<longleftrightarrow> CHR ''0'' \<le> c \<and> c \<le> CHR ''9''"

fun identifier_loop :: "char \<Rightarrow> string \<Rightarrow> bool" where
  "identifier_loop previous [] = True"
| "identifier_loop previous (c # s) =
     (if c \<noteq> CHR ''_'' \<and> \<not> is_letter c \<and> \<not> is_number c then False
      else if c = CHR ''_'' \<and> previous = CHR ''_'' then False
      else identifier_loop c s)"

definition is_identifier :: "string \<Rightarrow> bool" where
  "is_identifier s =
     (case s of [] \<Rightarrow> False
      | c # _ \<Rightarrow> if is_number c then False else identifier_loop (CHR 0x00) s)"

section \<open>Field\<close>

text \<open>
  The variant \<open>column\<close> is \<open>monostate\<close> (\<open>None\<close>) for a field that has none of the macro types, and
  otherwise the vector of its (constant) type, so that its alternative is \<open>type_id (field_type f)\<close>.
\<close>

record Field =
  field_type :: Type
  column :: "field_value list option"

definition field_new :: "Type \<Rightarrow> nat \<Rightarrow> Field" where
  "field_new ty n = \<lparr>field_type = ty,
     column = (if macro_type (type_id ty) then Some (replicate n (default_value (type_id ty))) else None)\<rparr>"

definition field_resize :: "nat \<Rightarrow> Field \<Rightarrow> Field" where
  "field_resize n f = f\<lparr>column := map_option (vector_resize (default_value (type_id (field_type f))) n) (column f)\<rparr>"

text \<open>\<open>std::get<std::vector<cpp_type>>(column)\<close>.\<close>

definition std_get :: "Type_Id \<Rightarrow> Field \<Rightarrow> field_value list result" where
  "std_get t f =
     (case column f of None \<Rightarrow> Inl Bad_Variant_Access
      | Some xs \<Rightarrow> if type_id (field_type f) = t then Inr xs else Inl Bad_Variant_Access)"

definition field_get :: "Type_Id \<Rightarrow> Record_Id \<Rightarrow> Field \<Rightarrow> field_value result" where
  "field_get t r f =
     bind_result (std_get t f) (\<lambda>xs.
     if 0 \<le> r \<and> nat r < length xs then Inr (xs ! nat r) else Inl Out_Of_Bounds)"

definition field_set :: "Record_Id \<Rightarrow> field_value \<Rightarrow> Field \<Rightarrow> Field result" where
  "field_set r v f =
     bind_result (std_get (type_of_value v) f) (\<lambda>xs.
     if 0 \<le> r \<and> nat r < length xs then Inr (f\<lparr>column := Some (xs[nat r := v])\<rparr>) else Inl Out_Of_Bounds)"

text \<open>\<open>set_vector\<close> copies \<open>size\<close> elements to the records from \<open>r\<close> on.\<close>

definition field_set_vector :: "Type_Id \<Rightarrow> Record_Id \<Rightarrow> field_value list \<Rightarrow> Field \<Rightarrow> Field result" where
  "field_set_vector t r vs f =
     bind_result (std_get t f) (\<lambda>xs.
     if 0 \<le> r \<and> nat r + length vs \<le> length xs
     then Inr (f\<lparr>column := Some (take (nat r) xs @ vs @ drop (nat r + length vs) xs)\<rparr>)
     else Inl Out_Of_Bounds)"

section \<open>Table\<close>

record Table =
  table_fields :: "(Field_Id, Field) std_map"
  field_names :: "(Field_Id, string) std_map"
  current_field_id :: Field_Id
  freedom :: Freedom_Keeper

definition table_new :: Table where
  "table_new = \<lparr>table_fields = [], field_names = [], current_field_id = 0, freedom = fk_new\<rparr>"

definition find_field_from_id :: "Field_Id \<Rightarrow> Table \<Rightarrow> Field result" where
  "find_field_from_id f t =
     (case map_of (table_fields t) f of None \<Rightarrow> Inl (Exception ''invalid field_id'') | Some x \<Rightarrow> Inr x)"

definition check_record_id :: "Record_Id \<Rightarrow> Table \<Rightarrow> unit result" where
  "check_record_id r t = require (fk_is_used (freedom t) r) (Exception ''update: invalid record_id'')"

definition table_find_field :: "Table \<Rightarrow> string \<Rightarrow> Field_Id" where
  "table_find_field t name = find_key (field_names t) name"

definition table_storage_capacity :: "Table \<Rightarrow> nat" where
  "table_storage_capacity t = nat (fk_get_size (freedom t))"

definition table_add_field :: "string \<Rightarrow> Type \<Rightarrow> Table \<Rightarrow> Table result" where
  "table_add_field name ty t =
     (if table_find_field t name \<noteq> 0 then Inl (Exception ''add_field: name already used'')
      else if current_field_id t = 65535 then Inl (Exception ''add_field: reached maximum field count'')
      else let i = current_field_id t + 1
           in Inr (t\<lparr>current_field_id := i,
                     table_fields := map_try_emplace i (field_new ty (nat (fk_get_size (freedom t)))) (table_fields t),
                     field_names := map_try_emplace i name (field_names t)\<rparr>))"

definition table_drop_field :: "Field_Id \<Rightarrow> Table \<Rightarrow> Table result" where
  "table_drop_field f t =
     (case map_of (table_fields t) f of
        None \<Rightarrow> Inl (Exception ''drop_field: invalid field_id'')
      | Some _ \<Rightarrow> Inr (t\<lparr>field_names := map_erase f (field_names t), table_fields := map_erase f (table_fields t)\<rparr>))"

definition resize_fields :: "nat \<Rightarrow> (Field_Id, Field) std_map \<Rightarrow> (Field_Id, Field) std_map" where
  "resize_fields n m = map (\<lambda>(i, f). (i, field_resize n f)) m"

lemma fk_get_size_push_back [simp]: "fk_get_size (snd (fk_push_back k)) = fk_get_size k + 1"
  by (simp add: fk_get_size_def fk_push_back_def dfk_push_back_def dfk_get_size_def lfk_get_size_def
      split: prod.split) (metis freedom_size_push_back snd_conv)

text \<open>\<open>while (freedom.get_size() <= record_id) freedom.push_back();\<close>\<close>

function push_back_until :: "Record_Id \<Rightarrow> Freedom_Keeper \<Rightarrow> Freedom_Keeper" where
  "push_back_until r k = (if fk_get_size k \<le> r then push_back_until r (snd (fk_push_back k)) else k)"
  by pat_completeness auto
termination
  by (relation "measure (\<lambda>(r, k). nat (r + 1 - fk_get_size k))") auto

declare push_back_until.simps [simp del]

definition table_insert_record :: "Record_Id \<Rightarrow> Table \<Rightarrow> Table result" where
  "table_insert_record r t =
     bind_result
       (if r \<ge> fk_get_size (freedom t)
        then Inr (t\<lparr>table_fields := resize_fields (nat (r + 1)) (table_fields t),
                    freedom := push_back_until r (freedom t)\<rparr>)
        else if \<not> fk_is_free (freedom t) r then Inl (Exception ''insert: record_id already in use'')
        else Inr t)
       (\<lambda>t'. bind_result (fk_use r (freedom t')) (\<lambda>k. Inr (t'\<lparr>freedom := k\<rparr>)))"

definition table_delete_record :: "Record_Id \<Rightarrow> Table \<Rightarrow> Table result" where
  "table_delete_record r t =
     bind_result (require (fk_is_used (freedom t) r) (Exception ''freedom.is_used(record_id)'')) (\<lambda>_.
     bind_result (fk_free r (freedom t)) (\<lambda>k. Inr (t\<lparr>freedom := k\<rparr>)))"

definition table_insert_vector :: "Record_Id \<Rightarrow> nat \<Rightarrow> Table \<Rightarrow> Table result" where
  "table_insert_vector r n t =
     bind_result (require (fk_is_free_vector (freedom t) r n)
                    (Exception ''freedom.is_free_vector(record_id, size)'')) (\<lambda>_.
     if r = fk_get_size (freedom t)
     then let k = fk_resize (fk_get_size (freedom t) + int n) (freedom t);
              t' = t\<lparr>freedom := k, table_fields := resize_fields (nat (fk_get_size k)) (table_fields t)\<rparr>
          in bind_result (fk_use_vector r n k) (\<lambda>k'. Inr (t'\<lparr>freedom := k'\<rparr>))
     else fold_result (\<lambda>i. table_insert_record (r + int i)) [0..<n] t)"

definition table_delete_vector :: "Record_Id \<Rightarrow> nat \<Rightarrow> Table \<Rightarrow> Table result" where
  "table_delete_vector r n t =
     bind_result (require (fk_is_used_vector (freedom t) r n)
                    (Exception ''freedom.is_used_vector(record_id, size)'')) (\<lambda>_.
     bind_result (fk_free_vector r n (freedom t)) (\<lambda>k. Inr (t\<lparr>freedom := k\<rparr>)))"

definition table_get :: "Type_Id \<Rightarrow> Record_Id \<Rightarrow> Field_Id \<Rightarrow> Table \<Rightarrow> field_value result" where
  "table_get ty r f t = bind_result (find_field_from_id f t) (field_get ty r)"

text \<open>\<open>update_##type_id\<close>; the type is the one of the value.\<close>

definition table_update :: "Record_Id \<Rightarrow> Field_Id \<Rightarrow> field_value \<Rightarrow> Table \<Rightarrow> Table result" where
  "table_update r f v t =
     bind_result (find_field_from_id f t) (\<lambda>x.
     bind_result (check_record_id r t) (\<lambda>_.
     bind_result (field_set r v x) (\<lambda>x'.
     Inr (t\<lparr>table_fields := map_assign f x' (table_fields t)\<rparr>))))"

definition table_update_vector :: "Record_Id \<Rightarrow> Field_Id \<Rightarrow> Type_Id \<Rightarrow> field_value list \<Rightarrow> Table \<Rightarrow> Table result" where
  "table_update_vector r f ty vs t =
     bind_result (find_field_from_id f t) (\<lambda>x.
     if length vs = 0 then Inr t
     else
       bind_result (check_record_id r t) (\<lambda>_.
       bind_result (check_record_id (r + int (length vs) - 1) t) (\<lambda>_.
       bind_result (field_set_vector ty r vs x) (\<lambda>x'.
       Inr (t\<lparr>table_fields := map_assign f x' (table_fields t)\<rparr>)))))"

section \<open>Database_Schema and Database\<close>

record Database =
  tables :: "(Table_Id, Table) std_map"
  table_names :: "(Table_Id, string) std_map"
  current_table_id :: Table_Id
  max_record_id :: Record_Id

definition db_new :: "Record_Id \<Rightarrow> Database" where
  "db_new m = \<lparr>tables = [], table_names = [], current_table_id = 0, max_record_id = m\<rparr>"

text \<open>\<open>std::to_string\<close> on natural numbers.\<close>

fun to_string :: "nat \<Rightarrow> string" where
  "to_string n = (if n < 10 then [char_of (48 + n)] else to_string (n div 10) @ [char_of (48 + n mod 10)])"

declare to_string.simps [simp del]

definition check_identifier :: "string \<Rightarrow> string \<Rightarrow> unit result" where
  "check_identifier message name =
     require (is_identifier name) (Exception (message @ '': invalid identifier: '' @ name))"

definition get_table :: "Table_Id \<Rightarrow> Database \<Rightarrow> Table result" where
  "get_table i db =
     (case map_of (tables db) i of
        None \<Rightarrow> Inl (Exception (''get_table: invalid table_id: '' @ to_string (unat i)))
      | Some t \<Rightarrow> Inr t)"

definition get_fields :: "Table_Id \<Rightarrow> Database \<Rightarrow> (Field_Id, string) std_map result" where
  "get_fields i db = bind_result (get_table i db) (\<lambda>t. Inr (field_names t))"

definition get_field_type :: "Table_Id \<Rightarrow> Field_Id \<Rightarrow> Database \<Rightarrow> Type" where
  "get_field_type i f db =
     (case map_of (tables db) i of None \<Rightarrow> simple_type Null_Type
      | Some t \<Rightarrow> (case map_of (table_fields t) f of None \<Rightarrow> simple_type Null_Type | Some x \<Rightarrow> field_type x))"

definition get_freedom :: "Table_Id \<Rightarrow> Database \<Rightarrow> Freedom_Keeper result" where
  "get_freedom i db = bind_result (get_table i db) (\<lambda>t. Inr (freedom t))"

definition db_get :: "Type_Id \<Rightarrow> Table_Id \<Rightarrow> Record_Id \<Rightarrow> Field_Id \<Rightarrow> Database \<Rightarrow> field_value result" where
  "db_get ty i r f db = bind_result (get_table i db) (table_get ty r f)"

definition find_table :: "Database \<Rightarrow> string \<Rightarrow> Table_Id" where
  "find_table db name = find_key (table_names db) name"

definition find_field :: "Database \<Rightarrow> Table_Id \<Rightarrow> string \<Rightarrow> Field_Id" where
  "find_field db i name = (case get_fields i db of Inl e \<Rightarrow> 0 | Inr m \<Rightarrow> find_key m name)"

definition get_table_name :: "Database \<Rightarrow> Table_Id \<Rightarrow> string" where
  "get_table_name db i = (case map_of (table_names db) i of None \<Rightarrow> ''__unknown_table__'' | Some s \<Rightarrow> s)"

definition get_field_name :: "Database \<Rightarrow> Table_Id \<Rightarrow> Field_Id \<Rightarrow> string" where
  "get_field_name db i f =
     (case get_fields i db of Inl e \<Rightarrow> ''__unknown_field__''
      | Inr m \<Rightarrow> (case map_of m f of None \<Rightarrow> ''__unknown_field__'' | Some s \<Rightarrow> s))"

definition readable_get_size :: "Table_Id \<Rightarrow> Database \<Rightarrow> Record_Id result" where
  "readable_get_size i db = bind_result (get_freedom i db) (\<lambda>k. Inr (fk_get_size k))"

definition readable_is_used :: "Table_Id \<Rightarrow> Record_Id \<Rightarrow> Database \<Rightarrow> bool result" where
  "readable_is_used i r db = bind_result (get_freedom i db) (\<lambda>k. Inr (fk_is_used k r))"

text \<open>A method called on the table with a given identifier, in place.\<close>

definition on_table :: "Table_Id \<Rightarrow> (Table \<Rightarrow> Table result) \<Rightarrow> Database \<Rightarrow> Database result" where
  "on_table i f db =
     bind_result (get_table i db) (\<lambda>t.
     bind_result (f t) (\<lambda>t'. Inr (db\<lparr>tables := map_assign i t' (tables db)\<rparr>)))"

definition create_table :: "string \<Rightarrow> Database \<Rightarrow> Database result" where
  "create_table name db =
     bind_result (check_identifier ''create_table'' name) (\<lambda>_.
     if find_table db name \<noteq> 0 then Inl (Exception (''create_table: name already used: '' @ name))
     else if current_table_id db = 65535 then Inl (Exception ''create_table: reached maximum table count'')
     else let i = current_table_id db + 1
          in Inr (db\<lparr>current_table_id := i, tables := map_try_emplace i table_new (tables db),
                     table_names := map_try_emplace i name (table_names db)\<rparr>))"

definition drop_table :: "Table_Id \<Rightarrow> Database \<Rightarrow> Database result" where
  "drop_table i db =
     (case map_of (tables db) i of
        None \<Rightarrow> Inl (Exception ''drop_table: invalid table_id'')
      | Some _ \<Rightarrow> Inr (db\<lparr>table_names := map_erase i (table_names db), tables := map_erase i (tables db)\<rparr>))"

definition rename_table :: "Table_Id \<Rightarrow> string \<Rightarrow> Database \<Rightarrow> Database result" where
  "rename_table i name db =
     bind_result (check_identifier ''rename_table'' name) (\<lambda>_.
     if find_table db name \<noteq> 0 then Inl (Exception (''rename_table: name already used: '' @ name))
     else bind_result (get_table i db) (\<lambda>_.
          Inr (db\<lparr>table_names := map_assign i name (table_names db)\<rparr>)))"

definition add_field :: "Table_Id \<Rightarrow> string \<Rightarrow> Type \<Rightarrow> Database \<Rightarrow> Database result" where
  "add_field i name ty db =
     bind_result (check_identifier ''add_field'' name) (\<lambda>_. on_table i (table_add_field name ty) db)"

definition drop_field :: "Table_Id \<Rightarrow> Field_Id \<Rightarrow> Database \<Rightarrow> Database result" where
  "drop_field i f db = on_table i (table_drop_field f) db"

definition rename_field :: "Table_Id \<Rightarrow> Field_Id \<Rightarrow> string \<Rightarrow> Database \<Rightarrow> Database result" where
  "rename_field i f name db =
     bind_result (check_identifier ''rename_field'' name) (\<lambda>_.
     on_table i (\<lambda>t.
       case map_of (field_names t) f of
         None \<Rightarrow> Inl (Exception ''rename_field: invalid field_id'')
       | Some _ \<Rightarrow>
           if table_find_field t name \<noteq> 0 then Inl (Exception (''rename_field: name already used: '' @ name))
           else Inr (t\<lparr>field_names := map_assign f name (field_names t)\<rparr>)) db)"

definition insert_into :: "Table_Id \<Rightarrow> Record_Id \<Rightarrow> Database \<Rightarrow> Database result" where
  "insert_into i r db =
     (if r < 0 \<or> (max_record_id db \<ge> 0 \<and> r > max_record_id db)
      then Inl (Exception ''insert_into: too big'')
      else on_table i (table_insert_record r) db)"

definition insert_vector :: "Table_Id \<Rightarrow> Record_Id \<Rightarrow> nat \<Rightarrow> Database \<Rightarrow> Database result" where
  "insert_vector i r n db =
     bind_result
       (if max_record_id db \<ge> 0
        then require (r < max_record_id db \<and> int n < max_record_id db)
               (Exception ''record_id < max_record_id && size < size_t(max_record_id)'')
        else Inr ())
       (\<lambda>_. on_table i (table_insert_vector r n) db)"

definition delete_from :: "Table_Id \<Rightarrow> Record_Id \<Rightarrow> Database \<Rightarrow> Database result" where
  "delete_from i r db = on_table i (table_delete_record r) db"

definition delete_vector :: "Table_Id \<Rightarrow> Record_Id \<Rightarrow> nat \<Rightarrow> Database \<Rightarrow> Database result" where
  "delete_vector i r n db = on_table i (table_delete_vector r n) db"

definition db_update :: "Table_Id \<Rightarrow> Record_Id \<Rightarrow> Field_Id \<Rightarrow> field_value \<Rightarrow> Database \<Rightarrow> Database result" where
  "db_update i r f v db = on_table i (table_update r f v) db"

definition db_update_vector :: "Table_Id \<Rightarrow> Record_Id \<Rightarrow> Field_Id \<Rightarrow> Type_Id \<Rightarrow> field_value list \<Rightarrow> Database \<Rightarrow> Database result" where
  "db_update_vector i r f ty vs db = on_table i (table_update_vector r f ty vs) db"

text \<open>
  \<open>get_own_storage\<close> at record 0 returns the pointer \<open>data()\<close> of the column and the capacity. The
  pointer of an empty vector may be null; it is taken to be null here.
\<close>

definition db_get_own_storage :: "Database \<Rightarrow> Table_Id \<Rightarrow> Field_Id \<Rightarrow> Type_Id \<Rightarrow> (nat option) result" where
  "db_get_own_storage db i f ty =
     bind_result (get_table i db) (\<lambda>t.
     bind_result (find_field_from_id f t) (\<lambda>x.
     bind_result (std_get ty x) (\<lambda>xs.
     Inr (if xs = [] then None else Some (table_storage_capacity t)))))"

text \<open>The events \<open>Database\<close> overrides; the others have the empty bodies of \<open>Writable\<close>.\<close>

fun db_handle :: "event \<Rightarrow> Database \<Rightarrow> Database result" where
  "db_handle (Create_Table name) db = create_table name db"
| "db_handle (Drop_Table i) db = drop_table i db"
| "db_handle (Rename_Table i name) db = rename_table i name db"
| "db_handle (Add_Field i name ty) db = add_field i name ty db"
| "db_handle (Drop_Field i f) db = drop_field i f db"
| "db_handle (Rename_Field i f name) db = rename_field i f name db"
| "db_handle (Insert_Into i r) db = insert_into i r db"
| "db_handle (Delete_From i r) db = delete_from i r db"
| "db_handle (Insert_Vector i r n) db = insert_vector i r n db"
| "db_handle (Delete_Vector i r n) db = delete_vector i r n db"
| "db_handle (Update i r f v) db = db_update i r f v db"
| "db_handle (Update_Vector i r f ty vs) db = db_update_vector i r f ty vs db"
| "db_handle _ db = Inr db"

definition database_writable :: "Database Writable" where
  "database_writable = \<lparr>handle = db_handle, get_position = (\<lambda>db. 0), wants_blob_data = (\<lambda>db. False),
     get_own_storage = db_get_own_storage\<rparr>"

end
