(* ===== verification/Journal.thy ===== *)
theory Journal
  imports File_Buffer Interpreted_Database
begin

unbundle bit_operations_syntax

text \<open>
  Model of \<open>src/src/joedb/journal/Header.h\<close>, \<open>Journal_Construction_Lock.h/.cpp\<close>,
  \<open>Readonly_Journal.h/.cpp\<close> and \<open>Writable_Journal.h/.cpp\<close>: the append-only log of events that a
  joedb file consists of, with its checkpoints.

  \<open>Writable_Journal\<close> derives from \<open>Readonly_Journal\<close> and adds no data, so that both are the record
  \<open>Journal\<close>. The file is owned by the file buffer. Positions are 64-bit integers in the source and
  integers here; they are converted where they are stored.
\<close>

section \<open>Header\<close>

record Header =
  checkpoint :: "64 word list"
  version :: "32 word"
  signature :: "byte list"

abbreviation header_size :: nat where
  "header_size \<equiv> 41"

definition format_version :: "32 word" where
  "format_version = 5"

definition joedb_signature :: "byte list" where
  "joedb_signature = bytes_of ''joedb''"

definition header_bytes :: "Header \<Rightarrow> byte list" where
  "header_bytes h = concat (map (to_bytes 8) (checkpoint h)) @ to_bytes 4 (version h) @ signature h"

text \<open>The array of four checkpoints at the start of the file, and the whole header.\<close>

definition checkpoints_of_bytes :: "byte list \<Rightarrow> 64 word list" where
  "checkpoints_of_bytes bs = map (\<lambda>i. of_bytes (take 8 (drop (8 * i) bs))) [0..<4]"

definition header_of_bytes :: "byte list \<Rightarrow> Header" where
  "header_of_bytes bs =
     \<lparr>checkpoint = checkpoints_of_bytes bs, version = of_bytes (take 4 (drop 32 bs)), signature = drop 36 bs\<rparr>"

definition neg :: "int \<Rightarrow> int" where
  "neg x = sint (- (word_of_int x :: 64 word))"

section \<open>State\<close>

record 'f Journal =
  file_buffer :: "'f File_Buffer"
  hard_index :: nat
  soft_index :: nat
  checkpoint_position :: int
  hard_checkpoint_position :: int
  table_of_last_operation :: Table_Id
  record_of_last_operation :: Record_Id
  field_of_last_update :: Field_Id

abbreviation journal_file :: "'f Journal \<Rightarrow> 'f" where
  "journal_file j \<equiv> fb_file (file_buffer j)"

definition journal_get_position :: "'f Journal \<Rightarrow> int" where
  "journal_get_position j = fb_get_position (file_buffer j)"

definition flip :: "nat \<Rightarrow> nat" where
  "flip i = i XOR 1"

definition reset_context :: "'f Journal \<Rightarrow> 'f Journal" where
  "reset_context j =
     j\<lparr>table_of_last_operation := 0, record_of_last_operation := - 1, field_of_last_update := 0\<rparr>"

text \<open>An operation of the file buffer inside of the journal: one that reads, and one that writes.\<close>

definition jread :: "('f File_Buffer \<Rightarrow> ('a \<times> 'f File_Buffer) result) \<Rightarrow> 'f Journal \<Rightarrow> ('a \<times> 'f Journal) result" where
  "jread rd j = bind_result (rd (file_buffer j)) (\<lambda>(x, b). Inr (x, j\<lparr>file_buffer := b\<rparr>))"

definition jwrite :: "('f File_Buffer \<Rightarrow> 'f File_Buffer result) \<Rightarrow> 'f Journal \<Rightarrow> 'f Journal result" where
  "jwrite wr j = bind_result (wr (file_buffer j)) (\<lambda>b. Inr (j\<lparr>file_buffer := b\<rparr>))"

section \<open>Checkpoints\<close>

definition read_soft_checkpoint :: "int list \<Rightarrow> int \<Rightarrow> nat \<Rightarrow> nat \<Rightarrow> 'f Journal \<Rightarrow> 'f Journal" where
  "read_soft_checkpoint pos file_size i k j =
     (let soft = neg (pos ! (2 * i + k))
      in if soft \<ge> checkpoint_position j \<and> (file_size < 0 \<or> soft \<le> file_size)
         then j\<lparr>checkpoint_position := soft, hard_index := flip i, soft_index := k\<rparr> else j)"

definition read_hard_checkpoint :: "int list \<Rightarrow> nat \<Rightarrow> 'f Journal \<Rightarrow> 'f Journal" where
  "read_hard_checkpoint pos i j =
     (if pos ! (2 * i) = pos ! (2 * i + 1) \<and> pos ! (2 * i) \<ge> hard_checkpoint_position j
      then j\<lparr>hard_checkpoint_position := pos ! (2 * i), hard_index := i\<rparr> else j)"

definition read_checkpoint :: "int list \<Rightarrow> int \<Rightarrow> 'f Journal \<Rightarrow> 'f Journal" where
  "read_checkpoint pos file_size j =
     (let j' = fold (\<lambda>i j. fold (read_soft_checkpoint pos file_size i) [0, 1] (read_hard_checkpoint pos i j)) [0, 1] j
      in if hard_checkpoint_position j' > checkpoint_position j'
         then j'\<lparr>checkpoint_position := hard_checkpoint_position j'\<rparr> else j')"

definition pull_without_locking :: "'f Abstract_File \<Rightarrow> 'f Journal \<Rightarrow> 'f Journal result" where
  "pull_without_locking F j =
     bind_result (full_pread F 32 0 (journal_file j)) (\<lambda>bs.
     Inr (read_checkpoint (map sint (checkpoints_of_bytes bs)) (- 1) j))"

text \<open>The file of a journal replaced by another state of it.\<close>

definition set_file :: "'f \<Rightarrow> 'f Journal \<Rightarrow> 'f Journal" where
  "set_file f j = j\<lparr>file_buffer := (file_buffer j)\<lparr>fb_file := f\<rparr>\<rparr>"

definition pull :: "'f Abstract_File \<Rightarrow> 'f Journal \<Rightarrow> (int \<times> 'f Journal) result" where
  "pull F j =
     bind_result (shared_lock_head F (journal_file j)) (\<lambda>f.
     bind_result (pull_without_locking F (set_file f j)) (\<lambda>j'.
     Inr (checkpoint_position j' - checkpoint_position j, set_file (unlock_head F (journal_file j')) j')))"

definition soft_checkpoint_at :: "'f Abstract_File \<Rightarrow> int \<Rightarrow> 'f Journal \<Rightarrow> 'f Journal result" where
  "soft_checkpoint_at F p j =
     (if checkpoint_position j \<ge> p then Inr j
      else
        bind_result (jwrite (flush F) j) (\<lambda>j1.
        bind_result (require (file_get_size F (journal_file j1) < 0 \<or> p \<le> file_get_size F (journal_file j1))
                       Assertion_Failure) (\<lambda>_.
        let j2 = j1\<lparr>soft_index := flip (soft_index j1), checkpoint_position := p\<rparr> in
        bind_result (exclusive_lock_head F (journal_file j2)) (\<lambda>f1.
        bind_result (pwrite F (to_bytes 8 (word_of_int (neg (checkpoint_position j2)) :: 64 word))
                       (8 * int (2 * flip (hard_index j2) + soft_index j2)) f1) (\<lambda>f2.
        Inr (set_file (unlock_head F f2) j2))))))"

definition hard_checkpoint_at :: "'f Abstract_File \<Rightarrow> int \<Rightarrow> 'f Journal \<Rightarrow> 'f Journal result" where
  "hard_checkpoint_at F p j =
     (if hard_checkpoint_position j \<ge> p then Inr j
      else
        bind_result (jwrite (flush F) j) (\<lambda>j1.
        let j2 = j1\<lparr>hard_index := flip (hard_index j1), checkpoint_position := p, hard_checkpoint_position := p\<rparr>;
            bs = to_bytes 8 (word_of_int (checkpoint_position j2) :: 64 word) in
        bind_result (exclusive_lock_head F (journal_file j2)) (\<lambda>f1.
        bind_result (pwrite F bs (8 * int (2 * hard_index j2)) f1) (\<lambda>f2.
        bind_result (sync F f2) (\<lambda>f3.
        bind_result (pwrite F bs (8 * int (2 * hard_index j2 + 1)) f3) (\<lambda>f4.
        bind_result (datasync F f4) (\<lambda>f5.
        Inr (set_file (unlock_head F f5) j2))))))))"

definition soft_checkpoint :: "'f Abstract_File \<Rightarrow> 'f Journal \<Rightarrow> 'f Journal result" where
  "soft_checkpoint F j = soft_checkpoint_at F (journal_get_position j) j"

definition hard_checkpoint :: "'f Abstract_File \<Rightarrow> 'f Journal \<Rightarrow> 'f Journal result" where
  "hard_checkpoint F j = hard_checkpoint_at F (journal_get_position j) j"

section \<open>Construction\<close>

datatype Recovery = Recovery_None | Ignore_Header | Overwrite

record 'f Construction_Lock =
  lock_file :: 'f
  recovery :: Recovery
  lock_size :: int

definition construction_lock :: "'f Abstract_File \<Rightarrow> Recovery \<Rightarrow> 'f \<Rightarrow> 'f Construction_Lock result" where
  "construction_lock F r f =
     bind_result (if is_shared F f then exclusive_lock_tail F f else Inr f) (\<lambda>f1.
     bind_result (if is_readonly F f1 then shared_lock_head F f1 else exclusive_lock_head F f1) (\<lambda>f2.
     Inr \<lparr>lock_file = f2, recovery = r, lock_size = file_get_size F f2\<rparr>))"

text \<open>The destructors of the head lock and of the tail lock.\<close>

definition release_construction_lock :: "'f Abstract_File \<Rightarrow> 'f \<Rightarrow> 'f" where
  "release_construction_lock F f =
     (let f1 = unlock_head F f in if is_shared F f1 then unlock_tail F f1 else f1)"

definition journal_new :: "'f \<Rightarrow> 'f Journal" where
  "journal_new f =
     \<lparr>file_buffer = file_buffer_new f, hard_index = 0, soft_index = 0,
      checkpoint_position = int header_size, hard_checkpoint_position = int header_size,
      table_of_last_operation = 0, record_of_last_operation = - 1, field_of_last_update = 0\<rparr>"

text \<open>
  The constructor of \<open>Readonly_Journal\<close>, with the header it leaves in the lock (\<open>None\<close> when the file
  is empty and no header is read).
\<close>

definition readonly_journal ::
    "'f Abstract_File \<Rightarrow> 'f Construction_Lock \<Rightarrow> bool \<Rightarrow> (Header option \<times> 'f Journal) result" where
  "readonly_journal F lock for_writable =
     (let j = journal_new (lock_file lock) in
      if lock_size lock \<noteq> 0 then
        bind_result (full_pread F header_size 0 (lock_file lock)) (\<lambda>bs.
        bind_result (jwrite (set_position F (int header_size)) j) (\<lambda>j1.
        let h = header_of_bytes bs in
        bind_result
          (if recovery lock = Ignore_Header
           then Inr (if lock_size lock > checkpoint_position j1 then j1\<lparr>checkpoint_position := lock_size lock\<rparr> else j1)
           else if signature h \<noteq> joedb_signature then Inl (Exception ''missing joedb signature'')
           else if version h \<noteq> format_version then Inl (Exception ''unsupported file format version'')
           else let j2 = read_checkpoint (map sint (checkpoint h)) (lock_size lock) j1
                in if lock_size lock > 0 \<and> lock_size lock < checkpoint_position j2
                   then Inl (Exception ''Checkpoint is bigger than file size'') else Inr j2)
          (\<lambda>j3. Inr (Some h, reset_context j3))))
      else if \<not> for_writable then Inl (Exception ''file is empty'')
      else Inr (None, reset_context j))"

definition open_readonly_journal :: "'f Abstract_File \<Rightarrow> Recovery \<Rightarrow> 'f \<Rightarrow> 'f Journal result" where
  "open_readonly_journal F r f =
     bind_result (construction_lock F r f) (\<lambda>lock.
     bind_result (readonly_journal F lock False) (\<lambda>(h, j).
     Inr (set_file (release_construction_lock F (journal_file j)) j)))"

definition new_header :: Header where
  "new_header = \<lparr>checkpoint = replicate 4 (word_of_nat header_size), version = format_version, signature = joedb_signature\<rparr>"

text \<open>The loop that removes soft checkpoints bigger than the size of the file.\<close>

definition fix_checkpoint :: "'f Abstract_File \<Rightarrow> int \<Rightarrow> Header \<Rightarrow> nat \<Rightarrow> 'f Journal \<Rightarrow> 'f Journal result" where
  "fix_checkpoint F sz h i j =
     (if neg (sint (checkpoint h ! i)) > sz
      then bind_result (pwrite F (to_bytes 8 (word_of_int (neg (checkpoint_position j)) :: 64 word)) (8 * int i) (journal_file j)) (\<lambda>f1.
           bind_result (datasync F f1) (\<lambda>f2. Inr (set_file f2 j)))
      else Inr j)"

definition aborted_transaction :: "int \<Rightarrow> int \<Rightarrow> string" where
  "aborted_transaction c sz =
     ''Checkpoint ('' @ to_string (nat c) @ '') is smaller than file size ('' @ to_string (nat sz)
       @ ''). This file may contain an aborted transaction. ''
       @ [CHR 0x27] @ ''joedb_push file.joedb file fixed.joedb'' @ [CHR 0x27] @ '' can be used to truncate it.''"

definition writable_journal :: "'f Abstract_File \<Rightarrow> 'f Construction_Lock \<Rightarrow> 'f Journal result" where
  "writable_journal F lock =
     bind_result (readonly_journal F lock True) (\<lambda>(h, j).
     if is_readonly F (journal_file j) then Inl (Exception ''Cannot create Writable_Journal with read-only file'')
     else if lock_size lock = 0 then jwrite (fi_write F (header_bytes new_header)) j
     else if lock_size lock > 0 then
       bind_result (require (\<not> (lock_size lock > checkpoint_position j \<and> recovery lock \<noteq> Overwrite))
                      (Exception (aborted_transaction (checkpoint_position j) (lock_size lock)))) (\<lambda>_.
       case h of None \<Rightarrow> Inr j
       | Some header \<Rightarrow> fold_result (fix_checkpoint F (lock_size lock) header) [0..<length (checkpoint header)] j)
     else Inr j)"

definition open_writable_journal :: "'f Abstract_File \<Rightarrow> Recovery \<Rightarrow> 'f \<Rightarrow> 'f Journal result" where
  "open_writable_journal F r f =
     bind_result (construction_lock F r f) (\<lambda>lock.
     bind_result (writable_journal F lock) (\<lambda>j.
     Inr (set_file (release_construction_lock F (journal_file j)) j)))"

section \<open>Operation codes\<close>

datatype update_kind = Update_This | Update_Last | Update_Next | Update_Many

datatype (plugins only: code size) operation_t = Create_Table_Op | Drop_Table_Op | Add_Field_Op | Drop_Field_Op
  | Insert_Into_Op | Delete_From_Op | Append_Op | Comment_Op | Timestamp_Op | Rename_Table_Op | Rename_Field_Op
  | Valid_Data_Op | Insert_Vector_Op | Custom_Op | Blob_Op | Delete_Vector_Op | Update_Op Type_Id update_kind

fun kind_code :: "update_kind \<Rightarrow> byte" where
  "kind_code Update_This = 0"
| "kind_code Update_Last = 1"
| "kind_code Update_Next = 2"
| "kind_code Update_Many = 3"

text \<open>The values of the enumeration: four enumerators per type follow \<open>updates = 0x80\<close>.\<close>

fun operation_code :: "operation_t \<Rightarrow> byte" where
  "operation_code Create_Table_Op = 0x01"
| "operation_code Drop_Table_Op = 0x02"
| "operation_code Add_Field_Op = 0x03"
| "operation_code Drop_Field_Op = 0x04"
| "operation_code Insert_Into_Op = 0x05"
| "operation_code Delete_From_Op = 0x06"
| "operation_code Append_Op = 0x08"
| "operation_code Comment_Op = 0x0a"
| "operation_code Timestamp_Op = 0x0b"
| "operation_code Rename_Table_Op = 0x0c"
| "operation_code Rename_Field_Op = 0x0d"
| "operation_code Valid_Data_Op = 0x0e"
| "operation_code Insert_Vector_Op = 0x0f"
| "operation_code Custom_Op = 0x10"
| "operation_code Blob_Op = 0x13"
| "operation_code Delete_Vector_Op = 0x14"
| "operation_code (Update_Op t k) = 0x81 + 4 * (byte_of_type t - 1) + kind_code k"

text \<open>The labels of the \<open>switch\<close> in \<open>one_step\<close>; deprecated codes have none.\<close>

definition operations :: "operation_t list" where
  "operations =
     [Create_Table_Op, Drop_Table_Op, Rename_Table_Op, Add_Field_Op, Drop_Field_Op, Rename_Field_Op,
      Insert_Into_Op, Delete_From_Op, Insert_Vector_Op, Delete_Vector_Op, Append_Op,
      Custom_Op, Comment_Op, Timestamp_Op, Valid_Data_Op, Blob_Op]
     @ concat (map (\<lambda>t. map (Update_Op t) [Update_This, Update_Last, Update_Next, Update_Many]) (tl type_ids))"

definition operation_of_code :: "byte \<Rightarrow> operation_t option" where
  "operation_of_code b = find (\<lambda>x. operation_code x = b) operations"

end
