(* ===== verification/Journal_Writer.thy ===== *)
theory Journal_Writer
  imports Journal
begin

text \<open>
  Model of the event methods of \<open>src/src/joedb/journal/Writable_Journal.cpp\<close>: how every event is
  appended to the file. The record, table and field of the last operation allow short codes for
  consecutive insertions and updates (\<open>append\<close>, \<open>update_last\<close>, \<open>update_next\<close>).
\<close>

section \<open>Values\<close>

text \<open>
  The in-memory representation of the fixed-width types, \<open>sizeof(type)\<close> bytes; the other types
  have width 0 and are written with a method of their own.
\<close>

fun type_width :: "Type_Id \<Rightarrow> nat" where
  "type_width Int32_Type = 4"
| "type_width Int64_Type = 8"
| "type_width Boolean_Type = 1"
| "type_width Float32_Type = 4"
| "type_width Float64_Type = 8"
| "type_width Int8_Type = 1"
| "type_width Int16_Type = 2"
| "type_width _ = 0"

fun fixed_bytes :: "field_value \<Rightarrow> byte list" where
  "fixed_bytes (Int32_Value i) = to_bytes 4 i"
| "fixed_bytes (Int64_Value i) = to_bytes 8 i"
| "fixed_bytes (Boolean_Value b) = to_bytes 1 b"
| "fixed_bytes (Float32_Value f) = to_bytes 4 f"
| "fixed_bytes (Float64_Value f) = to_bytes 8 f"
| "fixed_bytes (Int8_Value i) = to_bytes 1 i"
| "fixed_bytes (Int16_Value i) = to_bytes 2 i"
| "fixed_bytes _ = []"

text \<open>The parameter of \<open>update_boolean\<close> has type \<open>bool\<close>, so that its only values are 0 and 1.\<close>

fun as_argument :: "field_value \<Rightarrow> field_value" where
  "as_argument (Boolean_Value b) = Boolean_Value (if b = 0 then 0 else 1)"
| "as_argument v = v"

text \<open>\<open>file_buffer.write_method(value)\<close>, with the methods of \<open>TYPE_MACRO.h\<close>.\<close>

fun write_value :: "'f Abstract_File \<Rightarrow> field_value \<Rightarrow> 'f File_Buffer \<Rightarrow> 'f File_Buffer result" where
  "write_value F (String_Value s) b = write_string F s b"
| "write_value F (Reference_Value r) b = write_reference F r b"
| "write_value F (Blob_Value x) b = fb_write_blob F x b"
| "write_value F v b = fb_write F (fixed_bytes v) b"

definition write_vector :: "'f Abstract_File \<Rightarrow> Type_Id \<Rightarrow> field_value list \<Rightarrow> 'f File_Buffer \<Rightarrow> 'f File_Buffer result" where
  "write_vector F ty vs b =
     (if ty = Blob_Type \<or> ty = String_Type \<or> ty = Reference_Type
      then fold_result (write_value F) vs b
      else write_data F (concat (map fixed_bytes vs)) b)"

section \<open>Events\<close>

definition write_operation :: "'f Abstract_File \<Rightarrow> operation_t \<Rightarrow> 'f Journal \<Rightarrow> 'f Journal result" where
  "write_operation F x = jwrite (fb_write F [operation_code x])"

definition write_id :: "'f Abstract_File \<Rightarrow> 16 word \<Rightarrow> 'f Journal \<Rightarrow> 'f Journal result" where
  "write_id F i = jwrite (fb_compact_write F (uint i))"

definition journal_start_writing :: "int \<Rightarrow> 'f Journal \<Rightarrow> 'f Journal result" where
  "journal_start_writing p j =
     (if p \<noteq> checkpoint_position j then Inl (Exception ''writing must start at checkpoint position'') else Inr j)"

definition journal_end_writing :: "int \<Rightarrow> 'f Journal \<Rightarrow> 'f Journal result" where
  "journal_end_writing p j =
     (if p \<noteq> journal_get_position j then Inl (Exception ''end_writing position is not matching file position'')
      else Inr j)"

definition journal_create_table :: "'f Abstract_File \<Rightarrow> string \<Rightarrow> 'f Journal \<Rightarrow> 'f Journal result" where
  "journal_create_table F name j =
     bind_result (write_operation F Create_Table_Op j) (jwrite (write_string F name))"

definition journal_drop_table :: "'f Abstract_File \<Rightarrow> Table_Id \<Rightarrow> 'f Journal \<Rightarrow> 'f Journal result" where
  "journal_drop_table F t j = bind_result (write_operation F Drop_Table_Op j) (write_id F t)"

definition journal_rename_table :: "'f Abstract_File \<Rightarrow> Table_Id \<Rightarrow> string \<Rightarrow> 'f Journal \<Rightarrow> 'f Journal result" where
  "journal_rename_table F t name j =
     bind_result (write_operation F Rename_Table_Op j) (\<lambda>j.
     bind_result (write_id F t j) (jwrite (write_string F name)))"

definition journal_add_field :: "'f Abstract_File \<Rightarrow> Table_Id \<Rightarrow> string \<Rightarrow> Type \<Rightarrow> 'f Journal \<Rightarrow> 'f Journal result" where
  "journal_add_field F t name ty j =
     bind_result (write_operation F Add_Field_Op j) (\<lambda>j.
     bind_result (write_id F t j) (\<lambda>j.
     bind_result (jwrite (write_string F name) j) (\<lambda>j.
     bind_result (jwrite (fb_write F [byte_of_type (type_id ty)]) j) (\<lambda>j.
     if type_id ty = Reference_Type then write_id F (type_table_id ty) j else Inr j))))"

definition journal_drop_field :: "'f Abstract_File \<Rightarrow> Table_Id \<Rightarrow> Field_Id \<Rightarrow> 'f Journal \<Rightarrow> 'f Journal result" where
  "journal_drop_field F t f j =
     bind_result (write_operation F Drop_Field_Op j) (\<lambda>j.
     bind_result (write_id F t j) (write_id F f))"

definition journal_rename_field :: "'f Abstract_File \<Rightarrow> Table_Id \<Rightarrow> Field_Id \<Rightarrow> string \<Rightarrow> 'f Journal \<Rightarrow> 'f Journal result" where
  "journal_rename_field F t f name j =
     bind_result (write_operation F Rename_Field_Op j) (\<lambda>j.
     bind_result (write_id F t j) (\<lambda>j.
     bind_result (write_id F f j) (jwrite (write_string F name))))"

definition journal_custom :: "'f Abstract_File \<Rightarrow> string \<Rightarrow> 'f Journal \<Rightarrow> 'f Journal result" where
  "journal_custom F name j = bind_result (write_operation F Custom_Op j) (jwrite (write_string F name))"

definition journal_comment :: "'f Abstract_File \<Rightarrow> string \<Rightarrow> 'f Journal \<Rightarrow> 'f Journal result" where
  "journal_comment F s j = bind_result (write_operation F Comment_Op j) (jwrite (write_string F s))"

definition journal_timestamp :: "'f Abstract_File \<Rightarrow> 64 word \<Rightarrow> 'f Journal \<Rightarrow> 'f Journal result" where
  "journal_timestamp F x j = bind_result (write_operation F Timestamp_Op j) (jwrite (fb_write F (to_bytes 8 x)))"

definition journal_valid_data :: "'f Abstract_File \<Rightarrow> 'f Journal \<Rightarrow> 'f Journal result" where
  "journal_valid_data F j = write_operation F Valid_Data_Op j"

definition set_last_record :: "Table_Id \<Rightarrow> Record_Id \<Rightarrow> 'f Journal \<Rightarrow> 'f Journal" where
  "set_last_record t r j = j\<lparr>table_of_last_operation := t, record_of_last_operation := r\<rparr>"

definition journal_insert_into :: "'f Abstract_File \<Rightarrow> Table_Id \<Rightarrow> Record_Id \<Rightarrow> 'f Journal \<Rightarrow> 'f Journal result" where
  "journal_insert_into F t r j =
     bind_result
       (if t = table_of_last_operation j \<and> r = record_of_last_operation j + 1
        then write_operation F Append_Op j
        else bind_result (write_operation F Insert_Into_Op j) (\<lambda>j.
             bind_result (write_id F t j) (jwrite (write_reference F r))))
       (\<lambda>j. Inr (set_last_record t r j))"

definition journal_delete_from :: "'f Abstract_File \<Rightarrow> Table_Id \<Rightarrow> Record_Id \<Rightarrow> 'f Journal \<Rightarrow> 'f Journal result" where
  "journal_delete_from F t r j =
     bind_result (write_operation F Delete_From_Op j) (\<lambda>j.
     bind_result (write_id F t j) (jwrite (write_reference F r)))"

definition journal_insert_vector :: "'f Abstract_File \<Rightarrow> Table_Id \<Rightarrow> Record_Id \<Rightarrow> nat \<Rightarrow> 'f Journal \<Rightarrow> 'f Journal result" where
  "journal_insert_vector F t r n j =
     bind_result (write_operation F Insert_Vector_Op j) (\<lambda>j.
     bind_result (write_id F t j) (\<lambda>j.
     bind_result (jwrite (write_reference F r) j) (\<lambda>j.
     bind_result (jwrite (fb_compact_write F (int n)) j) (\<lambda>j.
     Inr (set_last_record t r j)))))"

definition journal_delete_vector :: "'f Abstract_File \<Rightarrow> Table_Id \<Rightarrow> Record_Id \<Rightarrow> nat \<Rightarrow> 'f Journal \<Rightarrow> 'f Journal result" where
  "journal_delete_vector F t r n j =
     bind_result (write_operation F Delete_Vector_Op j) (\<lambda>j.
     bind_result (write_id F t j) (\<lambda>j.
     bind_result (jwrite (write_reference F r) j) (jwrite (fb_compact_write F (int n)))))"

definition generic_update :: "'f Abstract_File \<Rightarrow> Table_Id \<Rightarrow> Record_Id \<Rightarrow> Field_Id \<Rightarrow> Type_Id \<Rightarrow> 'f Journal \<Rightarrow> 'f Journal result" where
  "generic_update F t r f ty j =
     (if t = table_of_last_operation j \<and> r = record_of_last_operation j then
        bind_result (write_operation F (Update_Op ty Update_Last) j) (\<lambda>j.
        bind_result (write_id F f j) (\<lambda>j.
        Inr (j\<lparr>field_of_last_update := f\<rparr>)))
      else if t = table_of_last_operation j \<and> r = record_of_last_operation j + 1 \<and> f = field_of_last_update j then
        bind_result (write_operation F (Update_Op ty Update_Next) j) (\<lambda>j.
        Inr (j\<lparr>record_of_last_operation := record_of_last_operation j + 1\<rparr>))
      else
        bind_result (write_operation F (Update_Op ty Update_This) j) (\<lambda>j.
        bind_result (write_id F t j) (\<lambda>j.
        bind_result (jwrite (write_reference F r) j) (\<lambda>j.
        bind_result (write_id F f j) (\<lambda>j.
        Inr ((set_last_record t r j)\<lparr>field_of_last_update := f\<rparr>))))))"

definition journal_update :: "'f Abstract_File \<Rightarrow> Table_Id \<Rightarrow> Record_Id \<Rightarrow> Field_Id \<Rightarrow> field_value \<Rightarrow> 'f Journal \<Rightarrow> 'f Journal result" where
  "journal_update F t r f v j =
     bind_result (generic_update F t r f (type_of_value v) j) (jwrite (write_value F (as_argument v)))"

definition journal_update_vector :: "'f Abstract_File \<Rightarrow> Table_Id \<Rightarrow> Record_Id \<Rightarrow> Field_Id \<Rightarrow> Type_Id \<Rightarrow> field_value list \<Rightarrow>
    'f Journal \<Rightarrow> 'f Journal result" where
  "journal_update_vector F t r f ty vs j =
     bind_result (write_operation F (Update_Op ty Update_Many) j) (\<lambda>j.
     bind_result (write_id F t j) (\<lambda>j.
     bind_result (jwrite (write_reference F r) j) (\<lambda>j.
     bind_result (write_id F f j) (\<lambda>j.
     bind_result (jwrite (fb_compact_write F (int (length vs))) j) (\<lambda>j.
     jwrite (write_vector F ty vs) ((set_last_record t r j)\<lparr>field_of_last_update := f\<rparr>))))))"

definition journal_write_blob :: "'f Abstract_File \<Rightarrow> string \<Rightarrow> 'f Journal \<Rightarrow> (Blob \<times> 'f Journal) result" where
  "journal_write_blob F s j =
     bind_result (write_operation F Blob_Op j) (\<lambda>j.
     bind_result (jwrite (fb_compact_write F (int (length s))) j) (\<lambda>j.
     let blob_pos = journal_get_position j in
     bind_result (jwrite (flush F) j) (\<lambda>j.
     bind_result (jwrite (fi_write F (bytes_of s)) j) (\<lambda>j.
     Inr (\<lparr>blob_position = blob_pos, blob_size = int (length s)\<rparr>, j)))))"

fun journal_handle :: "'f Abstract_File \<Rightarrow> event \<Rightarrow> 'f Journal \<Rightarrow> 'f Journal result" where
  "journal_handle F (Start_Writing p) j = journal_start_writing p j"
| "journal_handle F (End_Writing p) j = journal_end_writing p j"
| "journal_handle F Soft_Checkpoint j = soft_checkpoint F j"
| "journal_handle F Hard_Checkpoint j = hard_checkpoint F j"
| "journal_handle F (Create_Table name) j = journal_create_table F name j"
| "journal_handle F (Drop_Table t) j = journal_drop_table F t j"
| "journal_handle F (Rename_Table t name) j = journal_rename_table F t name j"
| "journal_handle F (Add_Field t name ty) j = journal_add_field F t name ty j"
| "journal_handle F (Drop_Field t f) j = journal_drop_field F t f j"
| "journal_handle F (Rename_Field t f name) j = journal_rename_field F t f name j"
| "journal_handle F (Custom name) j = journal_custom F name j"
| "journal_handle F (Comment s) j = journal_comment F s j"
| "journal_handle F (Timestamp x) j = journal_timestamp F x j"
| "journal_handle F Valid_Data j = journal_valid_data F j"
| "journal_handle F Flush j = jwrite (flush F) j"
| "journal_handle F (Insert_Into t r) j = journal_insert_into F t r j"
| "journal_handle F (Delete_From t r) j = journal_delete_from F t r j"
| "journal_handle F (Insert_Vector t r n) j = journal_insert_vector F t r n j"
| "journal_handle F (Delete_Vector t r n) j = journal_delete_vector F t r n j"
| "journal_handle F (Update t r f v) j = journal_update F t r f v j"
| "journal_handle F (Update_Vector t r f ty vs) j = journal_update_vector F t r f ty vs j"
| "journal_handle F (On_Blob x) j = Inr j"
| "journal_handle F (Write_Blob s) j = bind_result (journal_write_blob F s j) (\<lambda>(x, j). Inr j)"

definition journal_writable :: "'f Abstract_File \<Rightarrow> 'f Journal Writable" where
  "journal_writable F = \<lparr>handle = journal_handle F, get_position = journal_get_position,
     wants_blob_data = (\<lambda>j. True), get_own_storage = (\<lambda>j t f ty. Inr None)\<rparr>"

section \<open>Copying and locking\<close>

text \<open>\<open>pull_from\<close> copies the part of another journal that this one does not have.\<close>

definition pull_from :: "'g Abstract_File \<Rightarrow> 'f Abstract_File \<Rightarrow> 'g Journal \<Rightarrow> int \<Rightarrow> 'f Journal \<Rightarrow> (int \<times> 'f Journal) result option" where
  "pull_from G F other until j =
     (if checkpoint_position j < until then
        (case copy_to G F (journal_file other) (checkpoint_position j) (until - checkpoint_position j) (journal_file j) of
           None \<Rightarrow> None
         | Some r \<Rightarrow> Some (
             bind_result r (\<lambda>f.
             bind_result (soft_checkpoint_at F until (set_file f j)) (\<lambda>j'.
             Inr (checkpoint_position j', j')))))
      else Some (Inr (checkpoint_position j, j)))"

definition ahead_of_checkpoint :: "'f Journal \<Rightarrow> int" where
  "ahead_of_checkpoint j = journal_get_position j - checkpoint_position j"

definition lock_pull :: "'f Abstract_File \<Rightarrow> 'f Journal \<Rightarrow> 'f Journal result" where
  "lock_pull F j =
     (if is_shared F (journal_file j)
      then bind_result (exclusive_lock_tail F (journal_file j)) (\<lambda>f. pull_without_locking F (set_file f j))
      else Inr j)"

definition journal_unlock :: "'f Abstract_File \<Rightarrow> 'f Journal \<Rightarrow> 'f Journal" where
  "journal_unlock F j =
     (if is_shared F (journal_file j) then set_file (unlock_tail F (journal_file j)) j else j)"

definition touch :: "'f Abstract_File \<Rightarrow> 'f Journal \<Rightarrow> 'f Journal result" where
  "touch F j = bind_result (pwrite F joedb_signature 36 (journal_file j)) (\<lambda>f. Inr (set_file f j))"

definition tail_exclusive_lock :: "'f Abstract_File \<Rightarrow> 'f Journal \<Rightarrow> 'f Journal result" where
  "tail_exclusive_lock F j =
     (if journal_get_position j > checkpoint_position j
      then Inl (Exception ''locking journal with uncheckpointed data (try rollback?)'')
      else lock_pull F j)"

end
