(* ===== verification/Connection.thy ===== *)
theory Connection
  imports Journal_Writer
begin

text \<open>
  Model of \<open>src/src/joedb/concurrency/Connection.h/.cpp\<close> and \<open>File_Connection.h/.cpp\<close>: what a client
  talks to when it shares its journal.

  \<open>Connection\<close> is a class with virtual methods: an implementation is a record of functions on a state
  of type \<open>'c\<close>, for clients whose file is of type \<open>'f\<close>. A method that copies a file may not return, in
  which case its value is \<open>None\<close>. The argument \<open>wait\<close> of \<open>pull\<close>, which every connection below ignores,
  is left out.
\<close>

section \<open>Computations that may not return\<close>

definition bind_outcome :: "'a result option \<Rightarrow> ('a \<Rightarrow> 'b result option) \<Rightarrow> 'b result option" where
  "bind_outcome x f = (case x of None \<Rightarrow> None | Some (Inl e) \<Rightarrow> Some (Inl e) | Some (Inr y) \<Rightarrow> f y)"

lemma bind_outcome_simps [simp]:
  "bind_outcome None f = None"
  "bind_outcome (Some (Inl e)) f = Some (Inl e)"
  "bind_outcome (Some (Inr y)) f = f y"
  by (simp_all add: bind_outcome_def)

section \<open>The interface\<close>

datatype Content_Check = Check_None | Check_Fast | Check_Full

datatype Data_Transfer = Without_Data | With_Data

datatype Lock_Action = No_Locking | Lock_Before

datatype Unlock_Action = Keep_Locked | Unlock_After

record ('c, 'f) Connection =
  handshake :: "'f Journal \<Rightarrow> Content_Check \<Rightarrow> 'c \<Rightarrow> (int \<times> 'c) result"
  check_matching_content :: "'f Journal \<Rightarrow> Content_Check \<Rightarrow> int \<Rightarrow> int \<Rightarrow> 'c \<Rightarrow> 'c result"
  connection_pull :: "Lock_Action \<Rightarrow> Data_Transfer \<Rightarrow> 'f Journal \<Rightarrow> 'c \<Rightarrow> (int \<times> 'f Journal \<times> 'c) result option"
  connection_push :: "'f Journal \<Rightarrow> int \<Rightarrow> int \<Rightarrow> Unlock_Action \<Rightarrow> 'c \<Rightarrow> (int \<times> 'c) result option"
  connection_unlock :: "'c \<Rightarrow> 'c result"
  is_pullonly :: bool

definition content_mismatch :: error where
  "content_mismatch = Exception ''Content mismatch''"

text \<open>The base class, used through \<open>Connection::dummy\<close> when there is no server.\<close>

definition dummy_connection :: "(unit, 'f) Connection" where
  "dummy_connection =
     \<lparr>handshake = (\<lambda>j check c. Inr (checkpoint_position j, c)),
      check_matching_content = (\<lambda>j check from until c. Inr c),
      connection_pull = (\<lambda>lock transfer j c. Some (Inr (checkpoint_position j, j, c))),
      connection_push = (\<lambda>j from until action c. Some (Inr (checkpoint_position j, c))),
      connection_unlock = (\<lambda>c. Inr c),
      is_pullonly = False\<rparr>"

section \<open>Connection to a journal of the same process\<close>

text \<open>The state of these connections is the journal of the server.\<close>

abbreviation fast_size :: int where
  "fast_size \<equiv> 2 ^ 11"

definition pullonly_check_matching_content ::
    "'f Abstract_File \<Rightarrow> 'g Abstract_File \<Rightarrow> 'f Journal \<Rightarrow> Content_Check \<Rightarrow> int \<Rightarrow> int \<Rightarrow> 'g Journal \<Rightarrow> 'g Journal result" where
  "pullonly_check_matching_content F G j check from until s =
     (if check = Check_None \<or> from \<ge> until then Inr s
      else if check = Check_Full \<or> until - from \<le> 2 * fast_size then
        bind_result (equal_to F G (journal_file j) (journal_file s) from until) (\<lambda>eq.
        if eq then Inr s else Inl content_mismatch)
      else
        bind_result (equal_to F G (journal_file j) (journal_file s) from (from + fast_size)) (\<lambda>eq.
        if \<not> eq then Inl content_mismatch
        else bind_result (equal_to F G (journal_file j) (journal_file s) (until - fast_size) until) (\<lambda>eq.
             if eq then Inr s else Inl content_mismatch)))"

definition pullonly_handshake ::
    "'f Abstract_File \<Rightarrow> 'g Abstract_File \<Rightarrow> 'f Journal \<Rightarrow> Content_Check \<Rightarrow> 'g Journal \<Rightarrow> (int \<times> 'g Journal) result" where
  "pullonly_handshake F G j check s =
     bind_result (pullonly_check_matching_content F G j check (int header_size)
                    (min (checkpoint_position s) (checkpoint_position j)) s) (\<lambda>s'.
     Inr (checkpoint_position s', s'))"

text \<open>The data transfer at the end of both \<open>pull\<close> methods.\<close>

definition transfer :: "'f Abstract_File \<Rightarrow> 'g Abstract_File \<Rightarrow> Data_Transfer \<Rightarrow> 'f Journal \<Rightarrow> 'g Journal \<Rightarrow>
    (int \<times> 'f Journal \<times> 'g Journal) result option" where
  "transfer F G dt j s =
     bind_outcome (if dt = With_Data then pull_from G F s (checkpoint_position s) j
                   else Some (Inr (checkpoint_position j, j))) (\<lambda>(p, j').
     Some (Inr (checkpoint_position s, j', s)))"

definition pullonly_pull :: "'f Abstract_File \<Rightarrow> 'g Abstract_File \<Rightarrow> Lock_Action \<Rightarrow> Data_Transfer \<Rightarrow> 'f Journal \<Rightarrow> 'g Journal \<Rightarrow>
    (int \<times> 'f Journal \<times> 'g Journal) result option" where
  "pullonly_pull F G lock dt j s =
     (if lock = Lock_Before then Some (Inl (Exception (''Connected to a read-only journal: can'' @ [CHR 0x27] @ ''t lock'')))
      else bind_outcome (Some (pull G s)) (\<lambda>(n, s'). transfer F G dt j s'))"

definition pullonly_push :: "'f Journal \<Rightarrow> int \<Rightarrow> int \<Rightarrow> Unlock_Action \<Rightarrow> 'g Journal \<Rightarrow> (int \<times> 'g Journal) result option" where
  "pullonly_push j from until action s = Some (Inl (Exception (''Connected to a read-only journal: can'' @ [CHR 0x27] @ ''t push'')))"

definition pullonly_journal_connection :: "'f Abstract_File \<Rightarrow> 'g Abstract_File \<Rightarrow> ('g Journal, 'f) Connection" where
  "pullonly_journal_connection F G =
     \<lparr>handshake = pullonly_handshake F G, check_matching_content = pullonly_check_matching_content F G,
      connection_pull = pullonly_pull F G, connection_push = pullonly_push,
      connection_unlock = (\<lambda>s. Inr s), is_pullonly = True\<rparr>"

text \<open>The constructor of \<open>Journal_Connection\<close> refuses a shared file (the message of the assertion is shortened to its condition).\<close>

definition journal_connection_new :: "'g Abstract_File \<Rightarrow> 'g Journal \<Rightarrow> 'g Journal result" where
  "journal_connection_new G s =
     bind_result (require (\<not> is_shared G (journal_file s)) (Exception ''!server_journal.is_shared()'')) (\<lambda>_. Inr s)"

definition journal_connection_pull :: "'f Abstract_File \<Rightarrow> 'g Abstract_File \<Rightarrow> Lock_Action \<Rightarrow> Data_Transfer \<Rightarrow> 'f Journal \<Rightarrow> 'g Journal \<Rightarrow>
    (int \<times> 'f Journal \<times> 'g Journal) result option" where
  "journal_connection_pull F G lock dt j s =
     bind_outcome (Some (if lock = Lock_Before then lock_pull G s
                         else bind_result (pull G s) (\<lambda>(n, s'). Inr s'))) (\<lambda>s'.
     transfer F G dt j s')"

definition push_conflict :: error where
  "push_conflict = Exception ''push error: conflict''"

definition journal_connection_push :: "'f Abstract_File \<Rightarrow> 'g Abstract_File \<Rightarrow> 'f Journal \<Rightarrow> int \<Rightarrow> int \<Rightarrow> Unlock_Action \<Rightarrow> 'g Journal \<Rightarrow>
    (int \<times> 'g Journal) result option" where
  "journal_connection_push F G j from until action s =
     (if from \<noteq> checkpoint_position s then Some (Inl push_conflict)
      else bind_outcome (pull_from F G j until s) (\<lambda>(p, s'). Some (Inr (checkpoint_position s', s'))))"

definition journal_connection :: "'f Abstract_File \<Rightarrow> 'g Abstract_File \<Rightarrow> ('g Journal, 'f) Connection" where
  "journal_connection F G =
     \<lparr>handshake = pullonly_handshake F G, check_matching_content = pullonly_check_matching_content F G,
      connection_pull = journal_connection_pull F G, connection_push = journal_connection_push F G,
      connection_unlock = (\<lambda>s. Inr (journal_unlock G s)), is_pullonly = False\<rparr>"

text \<open>\<open>File_Connection\<close> opens the journal of the server itself.\<close>

definition file_connection_new :: "'g Abstract_File \<Rightarrow> 'g \<Rightarrow> 'g Journal result" where
  "file_connection_new G f = bind_result (open_writable_journal G Recovery_None f) (journal_connection_new G)"

end
