(* ===== verification/Multiplexer.thy ===== *)
theory Multiplexer
  imports Writable
begin

unbundle bit_operations_syntax

text \<open>
  Model of \<open>src/src/joedb/Multiplexer.h/.cpp\<close> and \<open>Selective_Writable.h/.cpp\<close>: a writable that
  forwards its events to several writables, and one that forwards a selection of them.

  The writables behind the references of a \<open>Multiplexer\<close> may be of different classes; a common type of
  their states is obtained with a sum type (\<open>left_writable\<close>, \<open>right_writable\<close>). The blob that \<open>write_blob\<close>
  returns is not part of the model of events.
\<close>

section \<open>Multiplexer\<close>

record 's Multiplexer =
  writables :: "('s Writable \<times> 's) list"
  start_index :: nat

definition multiplexer_new :: "('s Writable \<times> 's) list \<Rightarrow> 's Multiplexer" where
  "multiplexer_new ws = \<lparr>writables = ws, start_index = 0\<rparr>"

definition set_start_index :: "nat \<Rightarrow> 's Multiplexer \<Rightarrow> 's Multiplexer" where
  "set_start_index i m = m\<lparr>start_index := i\<rparr>"

text \<open>The loop of the macro \<open>MULTIPLEX\<close> over the writables that are left.\<close>

fun multiplex_loop :: "event \<Rightarrow> ('s Writable \<times> 's) list \<Rightarrow> ('s Writable \<times> 's) list result" where
  "multiplex_loop e [] = Inr []"
| "multiplex_loop e ((W, s) # ws) =
     bind_result (handle W e s) (\<lambda>s'.
     bind_result (multiplex_loop e ws) (\<lambda>ws'. Inr ((W, s') # ws')))"

definition multiplex :: "event \<Rightarrow> 's Multiplexer \<Rightarrow> 's Multiplexer result" where
  "multiplex e m =
     bind_result (multiplex_loop e (drop (start_index m) (writables m))) (\<lambda>ws.
     Inr (m\<lparr>writables := take (start_index m) (writables m) @ ws\<rparr>))"

fun position_loop :: "int \<Rightarrow> ('s Writable \<times> 's) list \<Rightarrow> int" where
  "position_loop result [] = result"
| "position_loop result ((W, s) # ws) =
     (let result' = get_position W s in if result' > 0 then result' else position_loop result' ws)"

definition multiplexer_get_position :: "'s Multiplexer \<Rightarrow> int" where
  "multiplexer_get_position m = position_loop 0 (writables m)"

fun storage_loop :: "Table_Id \<Rightarrow> Field_Id \<Rightarrow> Type_Id \<Rightarrow> ('s Writable \<times> 's) list \<Rightarrow> (nat option) result" where
  "storage_loop t f ty [] = Inr None"
| "storage_loop t f ty ((W, s) # ws) =
     bind_result (get_own_storage W s t f ty) (\<lambda>storage.
     case storage of Some capacity \<Rightarrow> Inr (Some capacity) | None \<Rightarrow> storage_loop t f ty ws)"

definition multiplexer_get_own_storage :: "'s Multiplexer \<Rightarrow> Table_Id \<Rightarrow> Field_Id \<Rightarrow> Type_Id \<Rightarrow> (nat option) result" where
  "multiplexer_get_own_storage m t f ty = storage_loop t f ty (writables m)"

fun wants_loop :: "('s Writable \<times> 's) list \<Rightarrow> bool" where
  "wants_loop [] = False"
| "wants_loop ((W, s) # ws) = (if wants_blob_data W s then True else wants_loop ws)"

definition multiplexer_wants_blob_data :: "'s Multiplexer \<Rightarrow> bool" where
  "multiplexer_wants_blob_data m = wants_loop (writables m)"

text \<open>\<open>write_blob\<close> visits every writable, whatever \<open>start_index\<close> is, and calls those that want blobs.\<close>

fun write_blob_loop :: "string \<Rightarrow> ('s Writable \<times> 's) list \<Rightarrow> ('s Writable \<times> 's) list result" where
  "write_blob_loop x [] = Inr []"
| "write_blob_loop x ((W, s) # ws) =
     bind_result (if wants_blob_data W s then handle W (Write_Blob x) s else Inr s) (\<lambda>s'.
     bind_result (write_blob_loop x ws) (\<lambda>ws'. Inr ((W, s') # ws')))"

definition multiplexer_write_blob :: "string \<Rightarrow> 's Multiplexer \<Rightarrow> 's Multiplexer result" where
  "multiplexer_write_blob x m =
     bind_result (write_blob_loop x (writables m)) (\<lambda>ws. Inr (m\<lparr>writables := ws\<rparr>))"

fun multiplexer_handle :: "event \<Rightarrow> 's Multiplexer \<Rightarrow> 's Multiplexer result" where
  "multiplexer_handle (Write_Blob x) m = multiplexer_write_blob x m"
| "multiplexer_handle e m = multiplex e m"

definition multiplexer_writable :: "'s Multiplexer Writable" where
  "multiplexer_writable = \<lparr>handle = multiplexer_handle, get_position = multiplexer_get_position,
     wants_blob_data = multiplexer_wants_blob_data, get_own_storage = multiplexer_get_own_storage\<rparr>"

text \<open>A writable seen as one of two classes.\<close>

definition left_writable :: "'a Writable \<Rightarrow> ('a + 'b) Writable" where
  "left_writable W =
     \<lparr>handle = (\<lambda>e s. case s of Inl a \<Rightarrow> bind_result (handle W e a) (\<lambda>a'. Inr (Inl a')) | Inr b \<Rightarrow> Inr (Inr b)),
      get_position = (\<lambda>s. case s of Inl a \<Rightarrow> get_position W a | Inr b \<Rightarrow> 0),
      wants_blob_data = (\<lambda>s. case s of Inl a \<Rightarrow> wants_blob_data W a | Inr b \<Rightarrow> False),
      get_own_storage = (\<lambda>s t f ty. case s of Inl a \<Rightarrow> get_own_storage W a t f ty | Inr b \<Rightarrow> Inr None)\<rparr>"

definition right_writable :: "'b Writable \<Rightarrow> ('a + 'b) Writable" where
  "right_writable W =
     \<lparr>handle = (\<lambda>e s. case s of Inr b \<Rightarrow> bind_result (handle W e b) (\<lambda>b'. Inr (Inr b')) | Inl a \<Rightarrow> Inr (Inl a)),
      get_position = (\<lambda>s. case s of Inr b \<Rightarrow> get_position W b | Inl a \<Rightarrow> 0),
      wants_blob_data = (\<lambda>s. case s of Inr b \<Rightarrow> wants_blob_data W b | Inl a \<Rightarrow> False),
      get_own_storage = (\<lambda>s t f ty. case s of Inr b \<Rightarrow> get_own_storage W b t f ty | Inl a \<Rightarrow> Inr None)\<rparr>"

section \<open>Selective_Writable\<close>

datatype Selective_Mode = Schema_Mode | Data_Mode | Information_Mode | Data_And_Schema_Mode
  | Data_And_Information_Mode | All_Mode

fun mode_code :: "Selective_Mode \<Rightarrow> nat" where
  "mode_code Schema_Mode = 1"
| "mode_code Data_Mode = 2"
| "mode_code Information_Mode = 4"
| "mode_code Data_And_Schema_Mode = 3"
| "mode_code Data_And_Information_Mode = 6"
| "mode_code All_Mode = 7"

definition mode_has :: "Selective_Mode \<Rightarrow> Selective_Mode \<Rightarrow> bool" where
  "mode_has mode flag \<longleftrightarrow> mode_code mode AND mode_code flag \<noteq> 0"

record 'w Selective_Writable =
  selected :: 'w
  blob_found :: bool

definition selective_new :: "'w \<Rightarrow> 'w Selective_Writable" where
  "selective_new w = \<lparr>selected = w, blob_found = False\<rparr>"

text \<open>An event passed on to the writable, under a condition on the mode.\<close>

definition forward_if :: "bool \<Rightarrow> 'w Writable \<Rightarrow> event \<Rightarrow> 'w Selective_Writable \<Rightarrow> 'w Selective_Writable result" where
  "forward_if c W e s = (if c then bind_result (handle W e (selected s)) (\<lambda>w. Inr (s\<lparr>selected := w\<rparr>)) else Inr s)"

text \<open>
  The methods of \<open>Selective_Writable\<close>. It does not override \<open>update_vector\<close>, so that the loop of the base
  class calls its own \<open>update\<close> for every element, nor \<open>flush\<close> and \<open>write_blob\<close>, which do nothing.
\<close>

fun selective_handle :: "Selective_Mode \<Rightarrow> 'w Writable \<Rightarrow> event \<Rightarrow> 'w Selective_Writable \<Rightarrow> 'w Selective_Writable result" where
  "selective_handle mode W (Create_Table name) s = forward_if (mode_has mode Schema_Mode) W (Create_Table name) s"
| "selective_handle mode W (Drop_Table t) s = forward_if (mode_has mode Schema_Mode) W (Drop_Table t) s"
| "selective_handle mode W (Rename_Table t name) s = forward_if (mode_has mode Schema_Mode) W (Rename_Table t name) s"
| "selective_handle mode W (Add_Field t name ty) s = forward_if (mode_has mode Schema_Mode) W (Add_Field t name ty) s"
| "selective_handle mode W (Drop_Field t f) s = forward_if (mode_has mode Schema_Mode) W (Drop_Field t f) s"
| "selective_handle mode W (Rename_Field t f name) s = forward_if (mode_has mode Schema_Mode) W (Rename_Field t f name) s"
| "selective_handle mode W (Custom name) s = forward_if (mode_has mode Schema_Mode) W (Custom name) s"
| "selective_handle mode W (Comment x) s = forward_if (mode_has mode Information_Mode) W (Comment x) s"
| "selective_handle mode W (Timestamp x) s = forward_if (mode_has mode Information_Mode) W (Timestamp x) s"
| "selective_handle mode W Valid_Data s = forward_if (mode_has mode Information_Mode) W Valid_Data s"
| "selective_handle mode W (Start_Writing p) s = forward_if True W (Start_Writing p) s"
| "selective_handle mode W (End_Writing p) s = forward_if True W (End_Writing p) s"
| "selective_handle mode W Soft_Checkpoint s = forward_if True W Soft_Checkpoint s"
| "selective_handle mode W Hard_Checkpoint s = forward_if True W Hard_Checkpoint s"
| "selective_handle mode W (Insert_Into t r) s = forward_if (mode_has mode Data_Mode) W (Insert_Into t r) s"
| "selective_handle mode W (Delete_From t r) s = forward_if (mode_has mode Data_Mode) W (Delete_From t r) s"
| "selective_handle mode W (Insert_Vector t r n) s = forward_if (mode_has mode Data_Mode) W (Insert_Vector t r n) s"
| "selective_handle mode W (Delete_Vector t r n) s = forward_if (mode_has mode Data_Mode) W (Delete_Vector t r n) s"
| "selective_handle mode W (Update t r f v) s = forward_if (mode_has mode Data_Mode) W (Update t r f v) s"
| "selective_handle mode W (Update_Vector t r f ty vs) s =
     writable_update_vector (forward_if (mode_has mode Data_Mode) W) t r f vs s"
| "selective_handle mode W (On_Blob x) s = Inr (s\<lparr>blob_found := True\<rparr>)"
| "selective_handle mode W Flush s = Inr s"
| "selective_handle mode W (Write_Blob x) s = Inr s"

definition selective_writable :: "Selective_Mode \<Rightarrow> 'w Writable \<Rightarrow> 'w Selective_Writable Writable" where
  "selective_writable mode W =
     \<lparr>handle = selective_handle mode W, get_position = (\<lambda>s. get_position W (selected s)),
      wants_blob_data = (\<lambda>s. False), get_own_storage = (\<lambda>s t f ty. Inr None)\<rparr>"

end
