(* ===== verification/Journal_Reader.thy ===== *)
theory Journal_Reader
  imports Journal_Writer
begin

text \<open>
  Model of the reading side of \<open>src/src/joedb/journal/Readonly_Journal.cpp\<close>: \<open>one_step\<close> decodes one
  event and passes it to a \<open>Writable\<close>, and the replay functions run it up to a position. The loops
  are shown to end for every file and every writable, whatever bytes the file contains.
\<close>

section \<open>Reading values\<close>

fun fixed_value :: "Type_Id \<Rightarrow> byte list \<Rightarrow> field_value" where
  "fixed_value Int32_Type bs = Int32_Value (of_bytes bs)"
| "fixed_value Int64_Type bs = Int64_Value (of_bytes bs)"
| "fixed_value Boolean_Type bs = Boolean_Value (of_bytes bs)"
| "fixed_value Float32_Type bs = Float32_Value (of_bytes bs)"
| "fixed_value Float64_Type bs = Float64_Value (of_bytes bs)"
| "fixed_value Int8_Type bs = Int8_Value (of_bytes bs)"
| "fixed_value Int16_Type bs = Int16_Value (of_bytes bs)"
| "fixed_value _ bs = String_Value []"

definition journal_safe_read_string :: "'f Abstract_File \<Rightarrow> 'f Journal \<Rightarrow> (string \<times> 'f Journal) result" where
  "journal_safe_read_string F j = jread (fb_safe_read_string F (checkpoint_position j)) j"

text \<open>The \<open>read_method\<close> of a type.\<close>

definition read_value :: "'f Abstract_File \<Rightarrow> Type_Id \<Rightarrow> 'f Journal \<Rightarrow> (field_value \<times> 'f Journal) result" where
  "read_value F ty j =
     (if ty = String_Type then bind_result (journal_safe_read_string F j) (\<lambda>(s, j'). Inr (String_Value s, j'))
      else if ty = Reference_Type then bind_result (jread (read_reference F) j) (\<lambda>(r, j'). Inr (Reference_Value r, j'))
      else if ty = Blob_Type then bind_result (jread (fb_read_blob F) j) (\<lambda>(x, j'). Inr (Blob_Value x, j'))
      else bind_result (jread (read_data F (type_width ty)) j) (\<lambda>(bs, j'). Inr (fixed_value ty bs, j')))"

fun read_values :: "'f Abstract_File \<Rightarrow> Type_Id \<Rightarrow> nat \<Rightarrow> 'f Journal \<Rightarrow> (field_value list \<times> 'f Journal) result" where
  "read_values F ty 0 j = Inr ([], j)"
| "read_values F ty (Suc n) j =
     bind_result (read_value F ty j) (\<lambda>(v, j').
     bind_result (read_values F ty n j') (\<lambda>(vs, j''). Inr (v # vs, j'')))"

text \<open>The elements of an array of \<open>n\<close> values of \<open>w\<close> bytes each.\<close>

fun chunks :: "nat \<Rightarrow> nat \<Rightarrow> byte list \<Rightarrow> byte list list" where
  "chunks w 0 bs = []"
| "chunks w (Suc n) bs = take w bs # chunks w n (drop w bs)"

definition read_vector :: "'f Abstract_File \<Rightarrow> Type_Id \<Rightarrow> nat \<Rightarrow> 'f Journal \<Rightarrow> (field_value list \<times> 'f Journal) result" where
  "read_vector F ty n j =
     (if ty = Blob_Type \<or> ty = String_Type \<or> ty = Reference_Type then read_values F ty n j
      else bind_result (jread (read_data F (n * type_width ty)) j) (\<lambda>(bs, j').
           Inr (map (fixed_value ty) (chunks (type_width ty) n bs), j')))"

definition read_id :: "'f Abstract_File \<Rightarrow> 'f Journal \<Rightarrow> (16 word \<times> 'f Journal) result" where
  "read_id F = jread (fb_compact_read F)"

definition read_type :: "'f Abstract_File \<Rightarrow> 'f Journal \<Rightarrow> (Type \<times> 'f Journal) result" where
  "read_type F j =
     bind_result (jread (fb_read F 1) j) (\<lambda>(b, j').
     let t = type_of_byte b in
     if t = Reference_Type then bind_result (read_id F j') (\<lambda>(i, j''). Inr (reference_type i, j''))
     else Inr (simple_type t, j'))"

section \<open>One step\<close>

definition call :: "'w Writable \<Rightarrow> event \<Rightarrow> 'f Journal \<Rightarrow> 'w \<Rightarrow> ('f Journal \<times> 'w) result" where
  "call W e j w = bind_result (handle W e w) (\<lambda>w'. Inr (j, w'))"

definition perform_update :: "'f Abstract_File \<Rightarrow> 'w Writable \<Rightarrow> Type_Id \<Rightarrow> 'f Journal \<Rightarrow> 'w \<Rightarrow> ('f Journal \<times> 'w) result" where
  "perform_update F W ty j w =
     bind_result (read_value F ty j) (\<lambda>(v, j').
     call W (Update (table_of_last_operation j') (record_of_last_operation j') (field_of_last_update j') (as_argument v)) j' w)"

text \<open>
  The body of \<open>update_vector_##type_id\<close> after the table, record and field have been read. The
  values are decoded into the storage of the writable when it offers one, and into a temporary
  vector otherwise; the writable then receives them in both cases.
\<close>

definition storage_in_range :: "Record_Id \<Rightarrow> nat \<Rightarrow> nat option \<Rightarrow> bool" where
  "storage_in_range r n storage \<longleftrightarrow>
     \<not> (r < 0 \<or> (case storage of None \<Rightarrow> False | Some capacity \<Rightarrow> nat r > capacity \<or> n > capacity - nat r))"

text \<open>Decoding \<open>n\<close> values at \<open>data + start\<close> stays inside of the storage, or is an access out of bounds.\<close>

definition into_storage :: "Record_Id \<Rightarrow> nat \<Rightarrow> nat option \<Rightarrow> unit result" where
  "into_storage r n storage = require (case storage of None \<Rightarrow> True | Some capacity \<Rightarrow> nat r + n \<le> capacity) Out_Of_Bounds"

lemma into_storage_in_range [simp]: "storage_in_range r n storage \<Longrightarrow> into_storage r n storage = Inr ()"
  by (auto simp: storage_in_range_def into_storage_def split: option.splits)

definition perform_update_vector :: "'f Abstract_File \<Rightarrow> 'w Writable \<Rightarrow> Type_Id \<Rightarrow> 'f Journal \<Rightarrow> 'w \<Rightarrow> ('f Journal \<times> 'w) result" where
  "perform_update_vector F W ty j w =
     bind_result (jread (fb_compact_read F) j) (\<lambda>(n :: 64 word, j').
     if n = 0 then Inr (j', w)
     else if sint n > checkpoint_position j' then Inl (Exception ''update_vector too big'')
     else
       let t = table_of_last_operation j'; r = record_of_last_operation j'; f = field_of_last_update j' in
       bind_result (get_own_storage W w t f ty) (\<lambda>storage.
       if \<not> storage_in_range r (unat n) storage then Inl (Exception ''update_vector out of range'')
       else
         bind_result (into_storage r (unat n) storage) (\<lambda>_.
         bind_result (read_vector F ty (unat n) j') (\<lambda>(vs, j'').
         call W (Update_Vector t r f ty vs) j'' w))))"

lemma perform_update_vector_guarded:
  "perform_update_vector F W ty j w =
     bind_result (jread (fb_compact_read F) j) (\<lambda>(n :: 64 word, j').
     if n = 0 then Inr (j', w)
     else if sint n > checkpoint_position j' then Inl (Exception ''update_vector too big'')
     else
       let t = table_of_last_operation j'; r = record_of_last_operation j'; f = field_of_last_update j' in
       bind_result (get_own_storage W w t f ty) (\<lambda>storage.
       if \<not> storage_in_range r (unat n) storage then Inl (Exception ''update_vector out of range'')
       else
         bind_result (read_vector F ty (unat n) j') (\<lambda>(vs, j'').
         call W (Update_Vector t r f ty vs) j'' w)))"
  unfolding perform_update_vector_def Let_def by (intro bind_result_cong) (auto intro!: bind_result_cong)

fun perform :: "'f Abstract_File \<Rightarrow> 'w Writable \<Rightarrow> operation_t \<Rightarrow> 'f Journal \<Rightarrow> 'w \<Rightarrow> ('f Journal \<times> 'w) result" where
  "perform F W Create_Table_Op j w =
     bind_result (journal_safe_read_string F j) (\<lambda>(name, j). call W (Create_Table name) j w)"
| "perform F W Drop_Table_Op j w =
     bind_result (read_id F j) (\<lambda>(t, j). call W (Drop_Table t) j w)"
| "perform F W Rename_Table_Op j w =
     bind_result (read_id F j) (\<lambda>(t, j).
     bind_result (journal_safe_read_string F j) (\<lambda>(name, j). call W (Rename_Table t name) j w))"
| "perform F W Add_Field_Op j w =
     bind_result (read_id F j) (\<lambda>(t, j).
     bind_result (journal_safe_read_string F j) (\<lambda>(name, j).
     bind_result (read_type F j) (\<lambda>(ty, j). call W (Add_Field t name ty) j w)))"
| "perform F W Drop_Field_Op j w =
     bind_result (read_id F j) (\<lambda>(t, j).
     bind_result (read_id F j) (\<lambda>(f, j). call W (Drop_Field t f) j w))"
| "perform F W Rename_Field_Op j w =
     bind_result (read_id F j) (\<lambda>(t, j).
     bind_result (read_id F j) (\<lambda>(f, j).
     bind_result (journal_safe_read_string F j) (\<lambda>(name, j). call W (Rename_Field t f name) j w)))"
| "perform F W Insert_Into_Op j w =
     bind_result (read_id F j) (\<lambda>(t, j).
     bind_result (jread (read_reference F) j) (\<lambda>(r, j).
     bind_result (call W (Insert_Into t r) j w) (\<lambda>(j, w). Inr (set_last_record t r j, w))))"
| "perform F W Delete_From_Op j w =
     bind_result (read_id F j) (\<lambda>(t, j).
     bind_result (jread (read_reference F) j) (\<lambda>(r, j). call W (Delete_From t r) j w))"
| "perform F W Insert_Vector_Op j w =
     bind_result (read_id F j) (\<lambda>(t, j).
     bind_result (jread (read_reference F) j) (\<lambda>(r, j).
     bind_result (jread (fb_compact_read F) j) (\<lambda>(n :: 64 word, j).
     bind_result (call W (Insert_Vector t r (unat n)) j w) (\<lambda>(j, w). Inr (set_last_record t r j, w)))))"
| "perform F W Delete_Vector_Op j w =
     bind_result (read_id F j) (\<lambda>(t, j).
     bind_result (jread (read_reference F) j) (\<lambda>(r, j).
     bind_result (jread (fb_compact_read F) j) (\<lambda>(n :: 64 word, j).
     call W (Delete_Vector t r (unat n)) j w)))"
| "perform F W Append_Op j w =
     (let j = j\<lparr>record_of_last_operation := record_of_last_operation j + 1\<rparr> in
      call W (Insert_Into (table_of_last_operation j) (record_of_last_operation j)) j w)"
| "perform F W (Update_Op ty Update_This) j w =
     bind_result (read_id F j) (\<lambda>(t, j).
     bind_result (jread (read_reference F) j) (\<lambda>(r, j).
     bind_result (read_id F j) (\<lambda>(f, j).
     perform_update F W ty ((set_last_record t r j)\<lparr>field_of_last_update := f\<rparr>) w)))"
| "perform F W (Update_Op ty Update_Last) j w =
     bind_result (read_id F j) (\<lambda>(f, j). perform_update F W ty (j\<lparr>field_of_last_update := f\<rparr>) w)"
| "perform F W (Update_Op ty Update_Next) j w =
     perform_update F W ty (j\<lparr>record_of_last_operation := record_of_last_operation j + 1\<rparr>) w"
| "perform F W (Update_Op ty Update_Many) j w =
     bind_result (read_id F j) (\<lambda>(t, j).
     bind_result (jread (read_reference F) j) (\<lambda>(r, j).
     bind_result (read_id F j) (\<lambda>(f, j).
     perform_update_vector F W ty ((set_last_record t r j)\<lparr>field_of_last_update := f\<rparr>) w)))"
| "perform F W Custom_Op j w =
     bind_result (journal_safe_read_string F j) (\<lambda>(name, j). call W (Custom name) j w)"
| "perform F W Comment_Op j w =
     bind_result (journal_safe_read_string F j) (\<lambda>(s, j). call W (Comment s) j w)"
| "perform F W Timestamp_Op j w =
     bind_result (jread (fb_read F 8) j) (\<lambda>(x, j). call W (Timestamp x) j w)"
| "perform F W Valid_Data_Op j w = call W Valid_Data j w"
| "perform F W Blob_Op j w =
     bind_result (jread (fb_compact_read F) j) (\<lambda>(n :: 64 word, j).
     bind_result (call W (On_Blob \<lparr>blob_position = journal_get_position j, blob_size = sint n\<rparr>) j w) (\<lambda>(j, w).
     if wants_blob_data W w \<and> sint n < checkpoint_position j
     then bind_result (if sint n > 0 then jread (read_data F (nat (sint n))) j else Inr ([], j)) (\<lambda>(bs, j).
          call W (Write_Blob (string_of bs)) j w)
     else bind_result (jwrite (ignore F (sint n)) j) (\<lambda>j. Inr (j, w))))"

definition one_step :: "'f Abstract_File \<Rightarrow> 'w Writable \<Rightarrow> 'f Journal \<Rightarrow> 'w \<Rightarrow> ('f Journal \<times> 'w) result" where
  "one_step F W j w =
     bind_result (jread (fb_read F 1) j) (\<lambda>(b, j').
     case operation_of_code b of
       None \<Rightarrow> Inl (Exception (''Unexpected operation: get_position() = '' @ to_string (nat (journal_get_position j'))))
     | Some x \<Rightarrow> perform F W x j' w)"

section \<open>Progress\<close>

text \<open>Reading never moves backwards, and every step reads at least the byte of its operation.\<close>

lemma buffer_fetch_position:
  "buffer_fetch n b = Inr (bs, b') \<Longrightarrow> fb_get_position b' = fb_get_position b + int n \<and> length bs = n"
  by (auto simp: buffer_fetch_def fb_get_position_def split: if_splits)

lemma read_data_position:
  assumes "read_data F n b = Inr (bs, b')"
  shows "fb_get_position b' = fb_get_position b + int n"
proof (cases "buffer_index b + n \<le> read_buffer_size b")
  case True
  with assms show ?thesis by (auto simp: read_data_def dest: buffer_fetch_position)
next
  case False
  let ?k = "read_buffer_size b - buffer_index b"
  from assms False have le: "buffer_index b \<le> read_buffer_size b" by (auto simp: read_data_def)
  from assms False obtain bs0 b0 bs1 b2 bs2 where
    f0: "buffer_fetch ?k b = Inr (bs0, b0)" and
    f1: "(if n \<le> buffer_size then bind_result (read_buffer F b0) (\<lambda>b1.
            buffer_fetch (min (n - length bs0) (read_buffer_size b1 - buffer_index b1)) b1)
          else Inr ([], b0)) = Inr (bs1, b2)" and
    f2: "fi_full_read F (n - (length bs0 + length bs1)) b2 = Inr (bs2, b')"
    by (auto simp: read_data_def)
  have l0: "length bs0 = ?k" and p0: "fb_get_position b0 = fb_get_position b + int ?k"
    and e0: "buffer_index b0 = read_buffer_size b0"
    using f0 le by (auto simp: buffer_fetch_def fb_get_position_def split: if_splits)
  have "fb_get_position b1 = fb_get_position b0" if "read_buffer F b0 = Inr b1" for b1
    using that e0 by (auto simp: read_buffer_def fi_read_def fb_get_position_def split: if_splits)
  then have p2: "fb_get_position b2 = fb_get_position b0 + int (length bs1)" and l1: "length bs0 + length bs1 \<le> n"
    using f1 l0 False le by (auto simp: min_def split: if_splits dest!: buffer_fetch_position)
  have "fb_get_position b' = fb_get_position b2 + int (n - (length bs0 + length bs1))"
    using f2 by (auto simp: fi_full_read_def fb_get_position_def)
  with p0 p2 l0 l1 show ?thesis by simp
qed

lemma flush_position: "flush F b = Inr b' \<Longrightarrow> fb_get_position b' = fb_get_position b"
  by (auto simp: flush_def write_buffer_def fi_write_def fi_seek_def fb_get_position_def
      buffer_has_write_data_def buffer_has_read_data_def split: if_splits)

lemma flush_idle: "flush F b = Inr b' \<Longrightarrow> buffer_index b' = 0 \<and> read_buffer_size b' = 0"
  by (auto simp: flush_def write_buffer_def fi_write_def fi_seek_def
      buffer_has_write_data_def buffer_has_read_data_def split: if_splits)

lemma compact_loop_mono:
  assumes "\<And>s x t. rd s = Inr (x, t) \<Longrightarrow> pos s \<le> (pos t :: int)"
  shows "compact_loop rd n r s = Inr (w, t) \<Longrightarrow> pos s \<le> pos t"
proof (induction n arbitrary: r s)
  case (Suc n)
  then obtain x s' where "rd s = Inr (x, s')" "compact_loop rd n (push_bit 8 r OR ucast x) s' = Inr (w, t)" by auto
  then show ?case using assms Suc.IH by (meson order_trans)
qed simp

lemma compact_loop_bound:
  "compact_loop rd n r s = Inr (w, t) \<Longrightarrow> unat (r :: 64 word) < 2 ^ k \<Longrightarrow> k + 8 * n \<le> 64 \<Longrightarrow> unat w < 2 ^ (k + 8 * n)"
proof (induction n arbitrary: r s k)
  case (Suc n)
  then obtain x :: byte and s' where *: "compact_loop rd n (push_bit 8 r OR ucast x) s' = Inr (w, t)" by auto
  have "unat r * 256 + 255 < 2 ^ (k + 8)" using Suc.prems(2) by (simp add: power_add)
  moreover have "(2::nat) ^ (k + 8) \<le> 2 ^ 64" using Suc.prems(3) by (intro power_increasing) auto
  moreover have "unat (ucast x :: 64 word) \<le> 255" using unsigned_less [of x, where 'a = nat]
    by (simp add: unsigned_ucast_eq take_bit_nat_eq_self)
  ultimately have "unat (r * 256 + ucast x) < 2 ^ (k + 8)"
    by (simp add: unat_word_ariths take_bit_nat_eq_self take_bit_eq_mod)
  then have "unat (push_bit 8 r OR ucast x) < 2 ^ (k + 8)" by (simp add: horner_step)
  from Suc.IH [OF * this] Suc.prems(3) show ?case by (simp add: add.assoc)
qed simp

lemma compact_read_bound:
  assumes "compact_read rd s = Inr (w :: 64 word, t)"
  shows "unat w < 2 ^ 61" and "0 \<le> sint w" and "sint w = int (unat w)"
proof -
  from assms obtain x :: byte and s' where *: "compact_loop rd (unat (drop_bit 5 x)) (ucast (x AND 0x1f)) s' = Inr (w, t)"
    by (auto simp: compact_read_def)
  have "x AND 0x1f = take_bit 5 x" by (simp add: take_bit_eq_mask mask_eq_exp_minus_1)
  then have "unat (x AND 0x1f) < 32" by (simp add: take_bit_eq_mod unat_mod)
  then have "unat (ucast (x AND 0x1f) :: 64 word) < 2 ^ 5"
    by (simp add: unsigned_ucast_eq take_bit_nat_eq_self)
  moreover have "unat (drop_bit 5 x) \<le> 7"
    using unsigned_less [of x, where 'a = nat] by (simp add: drop_bit_eq_div unat_div)
  ultimately have "unat w < 2 ^ (5 + 8 * unat (drop_bit 5 x))" using compact_loop_bound [OF *] by simp
  also have "(2::nat) ^ (5 + 8 * unat (drop_bit 5 x)) \<le> 2 ^ 61"
    using \<open>unat (drop_bit 5 x) \<le> 7\<close> by (intro power_increasing) auto
  finally show u: "unat w < 2 ^ 61" .
  then show "sint w = int (unat w)" by (intro sint_small) simp
  then show "0 \<le> sint w" by simp
qed

text \<open>A reader of the journal leaves everything but the file buffer alone.\<close>

definition forward :: "'f Journal \<Rightarrow> 'f Journal \<Rightarrow> bool" where
  "forward j j' \<longleftrightarrow> journal_get_position j \<le> journal_get_position j'"

lemma forward_refl [simp]: "forward j j"
  and forward_trans [trans]: "forward i j \<Longrightarrow> forward j k \<Longrightarrow> forward i k"
  by (auto simp: forward_def)

lemma position_context [simp]:
  "journal_get_position (set_last_record t r j) = journal_get_position j"
  "journal_get_position (j\<lparr>field_of_last_update := f\<rparr>) = journal_get_position j"
  "journal_get_position (j\<lparr>record_of_last_operation := r\<rparr>) = journal_get_position j"
  by (simp_all add: set_last_record_def journal_get_position_def)

lemma one_byte_read_position: "one_byte (read_data F 1) b = Inr (x, b') \<Longrightarrow> fb_get_position b \<le> fb_get_position b'"
  by (auto simp: one_byte_def dest: read_data_position)

lemma one_byte_buffer_position: "one_byte (buffer_read 1) b = Inr (x, b') \<Longrightarrow> fb_get_position b \<le> fb_get_position b'"
  by (auto simp: one_byte_def buffer_read_def dest: buffer_fetch_position)

lemma compact_read_mono:
  assumes "\<And>s x t. rd s = Inr (x, t) \<Longrightarrow> pos s \<le> (pos t :: int)" and "compact_read rd s = Inr (w, t)"
  shows "pos s \<le> pos t"
proof -
  from assms(2) obtain x s' where *: "rd s = Inr (x, s')"
    "compact_loop rd (unat (drop_bit 5 x)) (ucast (x AND 0x1f)) s' = Inr (w, t)"
    by (auto simp: compact_read_def)
  have "pos s \<le> pos s'" by (rule assms(1) [OF *(1)])
  also have "pos s' \<le> pos t" by (rule compact_loop_mono [of rd pos, OF assms(1) *(2)])
  finally show ?thesis .
qed

lemma fb_compact_read_position:
  assumes "fb_compact_read F b = Inr (w, b')"
  shows "fb_get_position b \<le> fb_get_position b'"
proof (cases "buffer_index b + 8 \<le> read_buffer_size b")
  case True
  with assms have "compact_read (one_byte (buffer_read 1)) b = Inr (w, b')"
    by (simp add: fb_compact_read_def buffer_compact_read_def)
  then show ?thesis
    by (rule compact_read_mono [of "one_byte (buffer_read 1)" fb_get_position, rotated]) (rule one_byte_buffer_position)
next
  case False
  with assms have "compact_read (one_byte (read_data F 1)) b = Inr (w, b')"
    by (simp add: fb_compact_read_def)
  then show ?thesis
    by (rule compact_read_mono [of "one_byte (read_data F 1)" fb_get_position, rotated]) (rule one_byte_read_position)
qed

lemma fb_compact_read_bound: "fb_compact_read F b = Inr (w :: 64 word, b') \<Longrightarrow> 0 \<le> sint w"
  by (auto simp: fb_compact_read_def buffer_compact_read_def dest: compact_read_bound split: if_splits)

lemma jread_forward:
  assumes "\<And>b x b'. rd b = Inr (x, b') \<Longrightarrow> fb_get_position b \<le> fb_get_position b'"
  shows "jread rd j = Inr (x, j') \<Longrightarrow> forward j j'"
  using assms by (auto simp: jread_def forward_def journal_get_position_def)

lemma compact_forward: "jread (fb_compact_read F) j = Inr (w, j') \<Longrightarrow> forward j j'"
  by (rule jread_forward [OF fb_compact_read_position])

lemma id_forward: "read_id F j = Inr (i, j') \<Longrightarrow> forward j j'"
  unfolding read_id_def by (rule compact_forward)

lemma data_forward: "jread (read_data F n) j = Inr (bs, j') \<Longrightarrow> forward j j'"
  by (rule jread_forward) (auto dest: read_data_position)

lemma reference_forward: "jread (read_reference F) j = Inr (r, j') \<Longrightarrow> forward j j'"
  by (rule jread_forward) (auto simp: read_reference_def dest: fb_compact_read_position)

lemma blob_forward: "jread (fb_read_blob F) j = Inr (r, j') \<Longrightarrow> forward j j'"
  by (rule jread_forward) (auto simp: fb_read_blob_def dest!: fb_compact_read_position)

lemma fixed_forward: "jread (fb_read F n) j = Inr (x, j') \<Longrightarrow> journal_get_position j' = journal_get_position j + int n"
  by (auto simp: jread_def fb_read_def journal_get_position_def dest: read_data_position)

lemma string_forward: "journal_safe_read_string F j = Inr (s, j') \<Longrightarrow> forward j j'"
  unfolding journal_safe_read_string_def
  by (rule jread_forward)
    (auto simp: fb_safe_read_string_def dest!: fb_compact_read_position read_data_position split: if_splits)

lemma ignore_forward: "jwrite (ignore F n) j = Inr j' \<Longrightarrow> 0 \<le> n \<Longrightarrow> forward j j'"
  by (auto simp: jwrite_def ignore_def set_position_def fi_seek_def forward_def journal_get_position_def
      fb_get_position_def split: if_splits dest!: flush_idle)

lemma value_forward: "read_value F ty j = Inr (v, j') \<Longrightarrow> forward j j'"
  by (auto simp: read_value_def split: if_splits
      dest: string_forward reference_forward blob_forward data_forward)

lemma values_forward: "read_values F ty n j = Inr (vs, j') \<Longrightarrow> forward j j'"
  by (induction n arbitrary: j vs j') (auto dest!: value_forward, meson forward_trans)

lemma vector_forward: "read_vector F ty n j = Inr (vs, j') \<Longrightarrow> forward j j'"
  by (auto simp: read_vector_def split: if_splits dest: values_forward data_forward)

lemma type_forward: "read_type F j = Inr (ty, j') \<Longrightarrow> forward j j'"
  by (auto simp: read_type_def Let_def forward_def split: if_splits dest!: fixed_forward id_forward)

lemma call_forward: "call W e j w = Inr (j', w') \<Longrightarrow> j' = j"
  by (auto simp: call_def)

lemma perform_update_forward: "perform_update F W ty j w = Inr (j', w') \<Longrightarrow> forward j j'"
  by (auto simp: perform_update_def dest!: call_forward value_forward)

lemma perform_update_vector_forward: "perform_update_vector F W ty j w = Inr (j', w') \<Longrightarrow> forward j j'"
  by (auto simp: perform_update_vector_guarded Let_def forward_def split: if_splits
      dest!: call_forward compact_forward vector_forward)

lemmas readers_forward = call_forward compact_forward id_forward data_forward reference_forward
  string_forward type_forward perform_update_forward perform_update_vector_forward

lemma perform_blob_forward:
  assumes "perform F W Blob_Op j w = Inr (j', w')"
  shows "forward j j'"
proof -
  from assms obtain n :: "64 word" and j1 w1 where
    1: "jread (fb_compact_read F) j = Inr (n, j1)" and
    2: "(if wants_blob_data W w1 \<and> sint n < checkpoint_position j1
         then bind_result (if sint n > 0 then jread (read_data F (nat (sint n))) j1 else Inr ([], j1)) (\<lambda>(bs, j).
              call W (Write_Blob (string_of bs)) j w1)
         else bind_result (jwrite (ignore F (sint n)) j1) (\<lambda>j. Inr (j, w1))) = Inr (j', w')"
    by (auto dest!: call_forward)
  have "0 \<le> sint n" using 1 by (auto simp: jread_def dest: fb_compact_read_bound)
  then have "forward j1 j'"
    using 2 by (auto split: if_splits dest!: call_forward data_forward dest: ignore_forward)
  with compact_forward [OF 1] show ?thesis by (rule forward_trans)
qed

lemma perform_forward: "perform F W x j w = Inr (j', w') \<Longrightarrow> forward j j'"
proof (induction F W x j w rule: perform.induct)
  case (20 F W j w)
  then show ?case by (rule perform_blob_forward)
qed (auto simp: Let_def forward_def dest!: readers_forward fixed_forward)

lemma one_step_position:
  assumes "one_step F W j w = Inr (j', w')"
  shows "journal_get_position j < journal_get_position j'"
proof -
  from assms obtain b :: byte and j1 x where 1: "jread (fb_read F 1) j = Inr (b, j1)" "perform F W x j1 w = Inr (j', w')"
    by (auto simp: one_step_def split: option.splits)
  from fixed_forward [OF 1(1)] perform_forward [OF 1(2)] show ?thesis by (simp add: forward_def)
qed

section \<open>Replay\<close>

function raw_play_until :: "'f Abstract_File \<Rightarrow> 'w Writable \<Rightarrow> int \<Rightarrow> 'f Journal \<Rightarrow> 'w \<Rightarrow> ('f Journal \<times> 'w) result" where
  "raw_play_until F W limit j w =
     (if journal_get_position j < limit
      then bind_result (one_step F W j w) (\<lambda>(j', w'). raw_play_until F W limit j' w')
      else Inr (j, w))"
  by pat_completeness auto
termination
  by (relation "measure (\<lambda>(F, W, limit, j, w). nat (limit - journal_get_position j))")
    (auto dest: one_step_position)

declare raw_play_until.simps [simp del]

definition play_until :: "'f Abstract_File \<Rightarrow> 'w Writable \<Rightarrow> int \<Rightarrow> 'f Journal \<Rightarrow> 'w \<Rightarrow> ('f Journal \<times> 'w) result" where
  "play_until F W limit j w =
     bind_result
       (if journal_get_position j < limit then
          bind_result
            (if journal_get_position j < get_position W w
             then bind_result (raw_play_until F (dummy_writable :: unit Writable) (get_position W w) j ()) (\<lambda>(j', u). Inr j')
             else Inr j) (\<lambda>j1.
          bind_result (handle W (Start_Writing (journal_get_position j1)) w) (\<lambda>w1.
          bind_result (raw_play_until F W limit j1 w1) (\<lambda>(j2, w2).
          bind_result (handle W (End_Writing (journal_get_position j2)) w2) (\<lambda>w3.
          bind_result (handle W Soft_Checkpoint w3) (\<lambda>w4. Inr (j2, w4))))))
        else Inr (j, w))
       (\<lambda>(j', w'). bind_result (jwrite (flush F) j') (\<lambda>j''. Inr (j'', w')))"

definition play_until_checkpoint :: "'f Abstract_File \<Rightarrow> 'w Writable \<Rightarrow> 'f Journal \<Rightarrow> 'w \<Rightarrow> ('f Journal \<times> 'w) result" where
  "play_until_checkpoint F W j w = play_until F W (checkpoint_position j) j w"

definition rewind :: "'f Abstract_File \<Rightarrow> 'f Journal \<Rightarrow> 'f Journal result" where
  "rewind F j = bind_result (jwrite (set_position F (int header_size)) j) (\<lambda>j'. Inr (reset_context j'))"

definition replay_log :: "'f Abstract_File \<Rightarrow> 'w Writable \<Rightarrow> 'f Journal \<Rightarrow> 'w \<Rightarrow> ('f Journal \<times> 'w) result" where
  "replay_log F W j w = bind_result (rewind F j) (\<lambda>j'. play_until_checkpoint F W j' w)"

function play_with_comments :: "'f Abstract_File \<Rightarrow> 'w Writable \<Rightarrow> 'f Journal \<Rightarrow> 'w \<Rightarrow> int \<Rightarrow> ('f Journal \<times> 'w) result" where
  "play_with_comments F W j w limit =
     (if journal_get_position j < limit
      then bind_result (one_step F W j w) (\<lambda>(j', w').
           bind_result (handle W (Comment (to_string (nat (journal_get_position j')))) w') (\<lambda>w''.
           play_with_comments F W j' w'' limit))
      else Inr (j, w))"
  by pat_completeness auto
termination
  by (relation "measure (\<lambda>(F, W, j, w, limit). nat (limit - journal_get_position j))")
    (auto dest: one_step_position)

declare play_with_comments.simps [simp del]

definition replay_with_checkpoint_comments :: "'f Abstract_File \<Rightarrow> 'w Writable \<Rightarrow> 'f Journal \<Rightarrow> 'w \<Rightarrow> ('f Journal \<times> 'w) result" where
  "replay_with_checkpoint_comments F W j w =
     bind_result (rewind F j) (\<lambda>j1.
     bind_result (handle W (Start_Writing (journal_get_position j1)) w) (\<lambda>w1.
     bind_result (play_with_comments F W j1 w1 (checkpoint_position j1)) (\<lambda>(j2, w2).
     bind_result (handle W (End_Writing (journal_get_position j2)) w2) (\<lambda>w3.
     bind_result (jwrite (flush F) j2) (\<lambda>j3. Inr (j3, w3))))))"

definition skip_directly_to :: "'f Abstract_File \<Rightarrow> int \<Rightarrow> 'f Journal \<Rightarrow> 'f Journal result" where
  "skip_directly_to F p j = jwrite (set_position F p) j"

end
