(* ===== verification/Client.thy ===== *)
theory Client
  imports Connection Multiplexer Journal_Reader
begin

text \<open>
  Model of \<open>src/src/joedb/concurrency/Client.h\<close>, \<open>Writable_Client.h\<close>, \<open>Writable_Journal_Client.h\<close>,
  \<open>Writable_Database_Client.h\<close>, \<open>Readonly_Client.h\<close> and \<open>Readonly_Database_Client.h\<close>: a journal, with
  the data that is built from it, kept in agreement with a connection.

  A client holds references to its journal and to its connection: here the journal is a field of the
  client, and the state of the connection is passed beside it, as several clients may share one
  connection. The virtual method \<open>read_journal\<close> is an argument of the operations that call it.
\<close>

type_synonym ('f, 'd) read_journal = "'f Journal \<Rightarrow> 'd \<Rightarrow> ('f Journal \<times> 'd) result"

record ('f, 'd) Client =
  client_journal :: "'f Journal"
  client_data :: 'd
  connection_checkpoint :: int
  content_check :: Content_Check
  use_valid_data :: bool
  use_timestamp :: bool
  use_hard_checkpoint :: bool

abbreviation get_journal_checkpoint :: "('f, 'd) Client \<Rightarrow> int" where
  "get_journal_checkpoint c \<equiv> checkpoint_position (client_journal c)"

definition client_new :: "('c, 'f) Connection \<Rightarrow> Content_Check \<Rightarrow> 'f Journal \<Rightarrow> 'd \<Rightarrow> 'c \<Rightarrow> (('f, 'd) Client \<times> 'c) result" where
  "client_new K check j d s =
     bind_result (handshake K j check s) (\<lambda>(p, s').
     Inr (\<lparr>client_journal = j, client_data = d, connection_checkpoint = p, content_check = check,
           use_valid_data = False, use_timestamp = False, use_hard_checkpoint = False\<rparr>, s'))"

definition get_checkpoint_difference :: "('f, 'd) Client \<Rightarrow> int" where
  "get_checkpoint_difference c = get_journal_checkpoint c - connection_checkpoint c"

definition client_push :: "('c, 'f) Connection \<Rightarrow> int \<Rightarrow> Unlock_Action \<Rightarrow> ('f, 'd) Client \<Rightarrow> 'c \<Rightarrow>
    (int \<times> ('f, 'd) Client \<times> 'c) result option" where
  "client_push K until action c s =
     bind_outcome (connection_push K (client_journal c) (connection_checkpoint c)
                     (min until (get_journal_checkpoint c)) action s) (\<lambda>(p, s').
     Some (Inr (p, c\<lparr>connection_checkpoint := p\<rparr>, s')))"

definition client_push_all :: "('c, 'f) Connection \<Rightarrow> Unlock_Action \<Rightarrow> ('f, 'd) Client \<Rightarrow> 'c \<Rightarrow>
    (int \<times> ('f, 'd) Client \<times> 'c) result option" where
  "client_push_all K action c s = client_push K (get_journal_checkpoint c) action c s"

section \<open>Writable clients\<close>

text \<open>
  How an operation on a client ends, besides an error inside of the connection: with a value, or with
  an exception after \<open>emergency_unlock\<close>. The state of the client is then known when the exception
  comes from the function the user passed to \<open>transaction\<close>, and not when it comes from the middle of an
  operation of the journal.
\<close>

datatype ('a, 's, 'c) Ending = Done 'a 's 'c | Thrown error "'s option" 'c

definition emergency_unlock :: "('c, 'f) Connection \<Rightarrow> 'c \<Rightarrow> 'c" where
  "emergency_unlock K s = (case connection_unlock K s of Inl e \<Rightarrow> s | Inr s' \<Rightarrow> s')"

text \<open>The time that \<open>std::time\<close> returns is an argument.\<close>

definition do_checkpoint :: "'f Abstract_File \<Rightarrow> 64 word \<Rightarrow> ('f, 'd) Client \<Rightarrow> ('f, 'd) Client result" where
  "do_checkpoint F now c =
     bind_result (if use_valid_data c then journal_valid_data F (client_journal c) else Inr (client_journal c)) (\<lambda>j.
     bind_result (if use_timestamp c then journal_timestamp F now j else Inr j) (\<lambda>j.
     bind_result (soft_checkpoint F j) (\<lambda>j.
     bind_result (if use_hard_checkpoint c then hard_checkpoint F j else Inr j) (\<lambda>j.
     Inr (c\<lparr>client_journal := j\<rparr>)))))"

definition ahead_of_connection :: error where
  "ahead_of_connection = Exception ''pulling when ahead of connection''"

definition get_tail_lock :: "'f Abstract_File \<Rightarrow> ('c, 'f) Connection \<Rightarrow> ('f, 'd) Client \<Rightarrow> 'c \<Rightarrow> (('f, 'd) Client \<times> 'c) result" where
  "get_tail_lock F K c s =
     (if get_journal_checkpoint c > connection_checkpoint c then Inl ahead_of_connection
      else
        bind_result (tail_exclusive_lock F (client_journal c)) (\<lambda>j.
        bind_result (check_matching_content K j (content_check c) (connection_checkpoint c) (checkpoint_position j) s) (\<lambda>s'.
        Inr (c\<lparr>client_journal := j\<rparr>, s'))))"

text \<open>The destructor of the tail lock.\<close>

definition release_tail :: "'f Abstract_File \<Rightarrow> ('f, 'd) Client \<Rightarrow> ('f, 'd) Client" where
  "release_tail F c = c\<lparr>client_journal := journal_unlock F (client_journal c)\<rparr>"

definition start_transaction :: "('f, 'd) read_journal \<Rightarrow> ('c, 'f) Connection \<Rightarrow> ('f, 'd) Client \<Rightarrow> 'c \<Rightarrow>
    (unit, ('f, 'd) Client, 'c) Ending result option" where
  "start_transaction rj K c s =
     bind_outcome (connection_pull K Lock_Before With_Data (client_journal c) s) (\<lambda>(p, j, s').
     Some (Inr (case rj j (client_data c) of
       Inl e \<Rightarrow> Thrown e None (emergency_unlock K s')
     | Inr (j', d') \<Rightarrow> Done () (c\<lparr>client_journal := j', client_data := d', connection_checkpoint := p\<rparr>) s')))"

definition transaction :: "'f Abstract_File \<Rightarrow> ('f, 'd) read_journal \<Rightarrow> ('c, 'f) Connection \<Rightarrow> 64 word \<Rightarrow>
    (('f, 'd) Client \<Rightarrow> 'a result \<times> ('f, 'd) Client) \<Rightarrow> ('f, 'd) Client \<Rightarrow> 'c \<Rightarrow> ('a, ('f, 'd) Client, 'c) Ending result option" where
  "transaction F rj K now f c s =
     bind_outcome (Some (get_tail_lock F K c s)) (\<lambda>(c1, s1).
     bind_outcome (start_transaction rj K c1 s1) (\<lambda>started.
     case started of
       Thrown e st s2 \<Rightarrow> Some (Inr (Thrown e (map_option (release_tail F) st) s2))
     | Done u c2 s2 \<Rightarrow>
         (case f c2 of
            (Inl e, c3) \<Rightarrow> Some (Inr (Thrown e (Some (release_tail F c3)) (emergency_unlock K s2)))
          | (Inr x, c3) \<Rightarrow>
              (case do_checkpoint F now c3 of
                 Inl e \<Rightarrow> Some (Inr (Thrown e None (emergency_unlock K s2)))
               | Inr c4 \<Rightarrow>
                   bind_outcome (client_push_all K Unlock_After c4 s2) (\<lambda>(p, c5, s3).
                   Some (Inr (Done x (release_tail F c5) s3)))))))"

definition writable_client_pull :: "'f Abstract_File \<Rightarrow> ('f, 'd) read_journal \<Rightarrow> ('c, 'f) Connection \<Rightarrow> ('f, 'd) Client \<Rightarrow> 'c \<Rightarrow>
    (int \<times> ('f, 'd) Client \<times> 'c) result option" where
  "writable_client_pull F rj K c s =
     bind_outcome (Some (get_tail_lock F K c s)) (\<lambda>(c1, s1).
     bind_outcome (connection_pull K No_Locking With_Data (client_journal c1) s1) (\<lambda>(p, j, s2).
     bind_outcome (Some (rj j (client_data c1))) (\<lambda>(j', d').
     let c2 = c1\<lparr>client_journal := j', client_data := d', connection_checkpoint := p\<rparr> in
     Some (Inr (get_journal_checkpoint c2 - get_journal_checkpoint c, release_tail F c2, s2)))))"

definition writable_push_if_ahead :: "('c, 'f) Connection \<Rightarrow> int \<Rightarrow> ('f, 'd) Client \<Rightarrow> 'c \<Rightarrow>
    (int \<times> ('f, 'd) Client \<times> 'c) result option" where
  "writable_push_if_ahead K until c s =
     (if get_journal_checkpoint c > connection_checkpoint c then client_push K until Unlock_After c s
      else Some (Inr (connection_checkpoint c, c, s)))"

definition set_valid_data :: "bool \<Rightarrow> ('f, 'd) Client \<Rightarrow> ('f, 'd) Client" where
  "set_valid_data b c = c\<lparr>use_valid_data := b\<rparr>"

definition set_timestamp :: "bool \<Rightarrow> ('f, 'd) Client \<Rightarrow> ('f, 'd) Client" where
  "set_timestamp b c = c\<lparr>use_timestamp := b\<rparr>"

definition set_hard_checkpoint :: "bool \<Rightarrow> ('f, 'd) Client \<Rightarrow> ('f, 'd) Client" where
  "set_hard_checkpoint b c = c\<lparr>use_hard_checkpoint := b\<rparr>"

definition client_touch :: "'f Abstract_File \<Rightarrow> ('f, 'd) Client \<Rightarrow> ('f, 'd) Client result" where
  "client_touch F c = bind_result (touch F (client_journal c)) (\<lambda>j. Inr (c\<lparr>client_journal := j\<rparr>))"

section \<open>Client_Lock\<close>

record ('f, 'd) Client_Lock =
  locked_client :: "('f, 'd) Client"
  locked :: bool

definition client_lock_new :: "'f Abstract_File \<Rightarrow> ('f, 'd) read_journal \<Rightarrow> ('c, 'f) Connection \<Rightarrow> ('f, 'd) Client \<Rightarrow> 'c \<Rightarrow>
    (unit, ('f, 'd) Client_Lock, 'c) Ending result option" where
  "client_lock_new F rj K c s =
     bind_outcome (Some (get_tail_lock F K c s)) (\<lambda>(c1, s1).
     bind_outcome (start_transaction rj K c1 s1) (\<lambda>started.
     Some (Inr (case started of
       Thrown e st s2 \<Rightarrow> Thrown e None s2
     | Done u c2 s2 \<Rightarrow> Done () \<lparr>locked_client = c2, locked = True\<rparr> s2))))"

definition lock_do_checkpoint :: "'f Abstract_File \<Rightarrow> 64 word \<Rightarrow> ('f, 'd) Client_Lock \<Rightarrow> ('f, 'd) Client_Lock result" where
  "lock_do_checkpoint F now l =
     bind_result (require (locked l) Assertion_Failure) (\<lambda>_.
     bind_result (do_checkpoint F now (locked_client l)) (\<lambda>c.
     Inr (l\<lparr>locked_client := c\<rparr>)))"

definition lock_push :: "('c, 'f) Connection \<Rightarrow> Unlock_Action \<Rightarrow> ('f, 'd) Client_Lock \<Rightarrow> 'c \<Rightarrow>
    (('f, 'd) Client_Lock \<times> 'c) result option" where
  "lock_push K action l s =
     bind_outcome (client_push_all K action (locked_client l) s) (\<lambda>(p, c, s').
     Some (Inr (l\<lparr>locked_client := c\<rparr>, s')))"

definition lock_push_if_ahead :: "('c, 'f) Connection \<Rightarrow> ('f, 'd) Client_Lock \<Rightarrow> 'c \<Rightarrow> (('f, 'd) Client_Lock \<times> 'c) result option" where
  "lock_push_if_ahead K l s =
     bind_outcome (Some (require (locked l) Assertion_Failure)) (\<lambda>_.
     if get_journal_checkpoint (locked_client l) > connection_checkpoint (locked_client l)
     then lock_push K Keep_Locked l s else Some (Inr (l, s)))"

definition checkpoint_and_push :: "'f Abstract_File \<Rightarrow> ('c, 'f) Connection \<Rightarrow> 64 word \<Rightarrow> ('f, 'd) Client_Lock \<Rightarrow> 'c \<Rightarrow>
    (('f, 'd) Client_Lock \<times> 'c) result option" where
  "checkpoint_and_push F K now l s =
     bind_outcome (Some (lock_do_checkpoint F now l)) (\<lambda>l'. lock_push K Keep_Locked l' s)"

definition checkpoint_and_push_unlock :: "'f Abstract_File \<Rightarrow> ('c, 'f) Connection \<Rightarrow> 64 word \<Rightarrow> ('f, 'd) Client_Lock \<Rightarrow> 'c \<Rightarrow>
    (('f, 'd) Client_Lock \<times> 'c) result option" where
  "checkpoint_and_push_unlock F K now l s =
     bind_outcome (Some (lock_do_checkpoint F now l)) (\<lambda>l'.
     bind_outcome (lock_push K Unlock_After l' s) (\<lambda>(l'', s').
     Some (Inr (l''\<lparr>locked := False\<rparr>, s'))))"

definition lock_unlock :: "('c, 'f) Connection \<Rightarrow> ('f, 'd) Client_Lock \<Rightarrow> 'c \<Rightarrow> (('f, 'd) Client_Lock \<times> 'c) result" where
  "lock_unlock K l s =
     bind_result (require (locked l) Assertion_Failure) (\<lambda>_.
     bind_result (connection_unlock K s) (\<lambda>s'.
     Inr (l\<lparr>locked := False\<rparr>, s')))"

text \<open>The destructor, followed by that of the tail lock: what is left is the client.\<close>

definition client_lock_destroy :: "'f Abstract_File \<Rightarrow> ('c, 'f) Connection \<Rightarrow> ('f, 'd) Client_Lock \<Rightarrow> 'c \<Rightarrow> ('f, 'd) Client \<times> 'c" where
  "client_lock_destroy F K l s = (release_tail F (locked_client l), if locked l then emergency_unlock K s else s)"

section \<open>Writable_Journal_Client\<close>

definition journal_client_read :: "'f Abstract_File \<Rightarrow> ('f, unit) read_journal" where
  "journal_client_read F j d = bind_result (skip_directly_to F (checkpoint_position j) j) (\<lambda>j'. Inr (j', d))"

text \<open>The two steps of a constructor: the journal is opened, and the client reads it after the handshake.\<close>

definition open_client :: "('f, 'd) read_journal \<Rightarrow> ('c, 'f) Connection \<Rightarrow> Content_Check \<Rightarrow> 'f Journal \<Rightarrow> 'd \<Rightarrow> 'c \<Rightarrow>
    (('f, 'd) Client \<times> 'c) result" where
  "open_client rj K check j d s =
     bind_result (client_new K check j d s) (\<lambda>(c, s').
     bind_result (rj (client_journal c) (client_data c)) (\<lambda>(j', d').
     Inr (c\<lparr>client_journal := j', client_data := d'\<rparr>, s')))"

definition writable_journal_client :: "'f Abstract_File \<Rightarrow> ('c, 'f) Connection \<Rightarrow> Content_Check \<Rightarrow> Recovery \<Rightarrow> 'f \<Rightarrow> 'c \<Rightarrow>
    (('f, unit) Client \<times> 'c) result" where
  "writable_journal_client F K check r f s =
     bind_result (open_writable_journal F r f) (\<lambda>j. open_client (journal_client_read F) K check j () s)"

section \<open>Writable_Database_Client\<close>

definition database_client_read :: "'f Abstract_File \<Rightarrow> ('f, Database) read_journal" where
  "database_client_read F j db = play_until_checkpoint F database_writable j db"

definition writable_database_client :: "'f Abstract_File \<Rightarrow> ('c, 'f) Connection \<Rightarrow> Content_Check \<Rightarrow> Record_Id \<Rightarrow> Recovery \<Rightarrow> 'f \<Rightarrow> 'c \<Rightarrow>
    (('f, Database) Client \<times> 'c) result" where
  "writable_database_client F K check max_id r f s =
     bind_result (open_writable_journal F r f) (\<lambda>j. open_client (database_client_read F) K check j (db_new max_id) s)"

text \<open>The multiplexer of the client: the database first, then the journal.\<close>

definition database_and_journal :: "'f Abstract_File \<Rightarrow> Database \<Rightarrow> 'f Journal \<Rightarrow> (Database + 'f Journal) Multiplexer" where
  "database_and_journal F db j =
     multiplexer_new [(left_writable database_writable, Inl db), (right_writable (journal_writable F), Inr j)]"

definition multiplexed_parts :: "(Database + 'f Journal) Multiplexer \<Rightarrow> (Database \<times> 'f Journal) option" where
  "multiplexed_parts m = (case map snd (writables m) of [Inl db, Inr j] \<Rightarrow> Some (db, j) | _ \<Rightarrow> None)"

text \<open>An event sent to the multiplexer inside of a transaction.\<close>

definition client_handle :: "'f Abstract_File \<Rightarrow> event \<Rightarrow> ('f, Database) Client \<Rightarrow> ('f, Database) Client result" where
  "client_handle F e c =
     bind_result (multiplexer_handle e (database_and_journal F (client_data c) (client_journal c))) (\<lambda>m.
     case multiplexed_parts m of
       Some (db, j) \<Rightarrow> Inr (c\<lparr>client_data := db, client_journal := j\<rparr>)
     | None \<Rightarrow> Inl Assertion_Failure)"

section \<open>Readonly clients\<close>

definition readonly_client :: "'f Abstract_File \<Rightarrow> ('c, 'f) Connection \<Rightarrow> Content_Check \<Rightarrow> Recovery \<Rightarrow> 'd \<Rightarrow> 'f \<Rightarrow> 'c \<Rightarrow>
    (('f, 'd) Client \<times> 'c) result option" where
  "readonly_client F K check r d f s =
     bind_outcome (Some (open_readonly_journal F r f)) (\<lambda>j.
     bind_outcome (Some (client_new K check j d s)) (\<lambda>(c, s1).
     bind_outcome (client_push K (connection_checkpoint c) Keep_Locked c s1) (\<lambda>(p, c', s2).
     Some (Inr (c', s2)))))"

definition readonly_client_pull :: "'f Abstract_File \<Rightarrow> ('f, 'd) read_journal \<Rightarrow> ('f, 'd) Client \<Rightarrow> (int \<times> ('f, 'd) Client) result" where
  "readonly_client_pull F rj c =
     bind_result (pull F (client_journal c)) (\<lambda>(n, j).
     bind_result (if n \<noteq> 0 then rj j (client_data c) else Inr (j, client_data c)) (\<lambda>(j', d').
     Inr (n, c\<lparr>client_journal := j', client_data := d'\<rparr>)))"

definition readonly_push_if_ahead :: "'f Abstract_File \<Rightarrow> ('f, 'd) read_journal \<Rightarrow> ('c, 'f) Connection \<Rightarrow> int \<Rightarrow> ('f, 'd) Client \<Rightarrow> 'c \<Rightarrow>
    (int \<times> ('f, 'd) Client \<times> 'c) result option" where
  "readonly_push_if_ahead F rj K until c s =
     bind_outcome (Some (readonly_client_pull F rj c)) (\<lambda>(n, c').
     if get_journal_checkpoint c' > connection_checkpoint c' then client_push K until Keep_Locked c' s
     else Some (Inr (connection_checkpoint c', c', s)))"

definition readonly_client_destroy :: "('c, 'f) Connection \<Rightarrow> 'c \<Rightarrow> 'c" where
  "readonly_client_destroy K s = emergency_unlock K s"

definition readonly_database_client :: "'f Abstract_File \<Rightarrow> ('c, 'f) Connection \<Rightarrow> Content_Check \<Rightarrow> Recovery \<Rightarrow> 'f \<Rightarrow> 'c \<Rightarrow>
    (('f, Database) Client \<times> 'c) result option" where
  "readonly_database_client F K check r f s =
     bind_outcome (readonly_client F K check r (db_new null_record) f s) (\<lambda>(c, s').
     bind_outcome (Some (database_client_read F (client_journal c) (client_data c))) (\<lambda>(j, db).
     Some (Inr (c\<lparr>client_journal := j, client_data := db\<rparr>, s'))))"

end
