(* ===== verification/Async_IO.thy ===== *)
theory Async_IO
  imports Abstract_File
begin

text \<open>
  Model of \<open>src/src/joedb/journal/Async_Reader.h/.cpp\<close> and \<open>Async_Writer.h\<close>: reading and writing a
  range of a file piece by piece. Both hold a reference to the file, which is here an argument of
  their methods.
\<close>

record Async_Reader =
  reader_end :: int
  reader_current :: int
  end_of_file :: bool

definition async_reader_new :: "int \<Rightarrow> int \<Rightarrow> Async_Reader" where
  "async_reader_new start stop = \<lparr>reader_end = stop, reader_current = (if start > stop then stop else start), end_of_file = False\<rparr>"

definition get_remaining :: "Async_Reader \<Rightarrow> int" where
  "get_remaining r = reader_end r - reader_current r"

text \<open>The loop of \<open>read\<close>; \<open>sz\<close> is what is left to read, at most the capacity of the buffer.\<close>

function async_read_loop :: "'f Abstract_File \<Rightarrow> 'f \<Rightarrow> nat \<Rightarrow> Async_Reader \<Rightarrow> (byte list \<times> Async_Reader) result" where
  "async_read_loop F f sz r =
     (if sz = 0 then Inr ([], r)
      else bind_result (checked_pread F sz (reader_current r) f) (\<lambda>bs.
           if bs = [] then Inr ([], r\<lparr>end_of_file := True\<rparr>)
           else bind_result (async_read_loop F f (sz - length bs)
                  (r\<lparr>end_of_file := False, reader_current := reader_current r + int (length bs)\<rparr>)) (\<lambda>(rest, r').
                Inr (bs @ rest, r'))))"
  by pat_completeness auto
termination
  by (relation "measure (\<lambda>(F, f, sz, r). sz)") (auto dest: checked_pread_length)

declare async_read_loop.simps [simp del]

definition async_read :: "'f Abstract_File \<Rightarrow> 'f \<Rightarrow> nat \<Rightarrow> Async_Reader \<Rightarrow> (byte list \<times> Async_Reader) result" where
  "async_read F f capacity r = async_read_loop F f (min capacity (nat (get_remaining r))) r"

text \<open>\<open>Async_Writer\<close> is a position; writing returns the file and the next position.\<close>

definition async_write :: "'f Abstract_File \<Rightarrow> byte list \<Rightarrow> 'f \<Rightarrow> int \<Rightarrow> ('f \<times> int) result" where
  "async_write F bs f current = bind_result (pwrite F bs current f) (\<lambda>f'. Inr (f', current + int (length bs)))"

context readable_file
begin

lemma async_read_loop_law:
  assumes "0 \<le> reader_current r" and "nat (reader_current r) + sz \<le> length (content f)" and "\<not> end_of_file r"
  shows "async_read_loop F f sz r =
     Inr (take sz (drop (nat (reader_current r)) (content f)), r\<lparr>reader_current := reader_current r + int sz\<rparr>)"
  using assms
proof (induction sz arbitrary: r rule: less_induct)
  case (less sz)
  show ?case
  proof (cases "sz = 0")
    case False
    obtain bs where bs: "checked_pread F sz (reader_current r) f = Inr bs" "length bs \<le> sz"
      "bs = take (length bs) (drop (nat (reader_current r)) (content f))"
      "bs = [] \<longrightarrow> sz = 0 \<or> length (content f) \<le> nat (reader_current r)"
      by (rule checked_pread_law [OF less.prems(1), of sz f])
    have ne: "bs \<noteq> []" using bs(4) False less.prems(2) by auto
    let ?r = "r\<lparr>end_of_file := False, reader_current := reader_current r + int (length bs)\<rparr>"
    have "async_read_loop F f (sz - length bs) ?r =
        Inr (take (sz - length bs) (drop (nat (reader_current ?r)) (content f)), ?r\<lparr>reader_current := reader_current ?r + int (sz - length bs)\<rparr>)"
      using less.prems bs(2) ne False by (intro less.IH) (auto simp: nat_add_distrib)
    moreover have "bs @ take (sz - length bs) (drop (nat (reader_current r) + length bs) (content f)) = take sz (drop (nat (reader_current r)) (content f))"
      using bs(2,3) by (metis add.commute drop_drop le_add_diff_inverse take_add)
    moreover have "r\<lparr>end_of_file := False\<rparr> = r" using less.prems(3) by simp
    ultimately show ?thesis
      using bs(1,2) ne less.prems(1) False by (subst async_read_loop.simps) (simp add: nat_add_distrib)
  qed (simp add: async_read_loop.simps)
qed

text \<open>On a file that holds the range, a read returns as much of it as the buffer can take.\<close>

lemma async_read_law:
  assumes "0 \<le> reader_current r" and "reader_end r \<le> int (length (content f))" and "reader_current r \<le> reader_end r" and "\<not> end_of_file r"
  shows "async_read F f capacity r =
     (let n = min capacity (nat (get_remaining r))
      in Inr (take n (drop (nat (reader_current r)) (content f)), r\<lparr>reader_current := reader_current r + int n\<rparr>))"
  unfolding async_read_def Let_def
  by (rule async_read_loop_law) (use assms in \<open>auto simp: get_remaining_def\<close>)

end

end
