(* ===== verification/SHA_256.thy ===== *)
theory SHA_256
  imports File_Buffer "HOL-Library.Signed_Division"
begin

unbundle bit_operations_syntax

text \<open>
  Model of \<open>src/src/joedb/journal/SHA_256.h\<close>, \<open>get_hash.cpp\<close> and \<open>Readonly_Memory_File.h\<close>: the hash
  codes by which a client and a server compare parts of their journals, computed by blocks.
\<close>

section \<open>The hash function\<close>

type_synonym Hash = "32 word list"

definition rotr :: "32 word \<Rightarrow> nat \<Rightarrow> 32 word" where
  "rotr x n = (drop_bit n x OR push_bit (nat ((- int n) AND 31)) x)"

definition hash_init :: Hash where
  "hash_init =
     [0x6a09e667, 0xbb67ae85, 0x3c6ef372, 0xa54ff53a, 0x510e527f, 0x9b05688c, 0x1f83d9ab, 0x5be0cd19]"

definition sha_k :: "32 word list" where
  "sha_k =
     concat
      [[0x428a2f98, 0x71374491, 0xb5c0fbcf, 0xe9b5dba5],
       [0x3956c25b, 0x59f111f1, 0x923f82a4, 0xab1c5ed5],
       [0xd807aa98, 0x12835b01, 0x243185be, 0x550c7dc3],
       [0x72be5d74, 0x80deb1fe, 0x9bdc06a7, 0xc19bf174],
       [0xe49b69c1, 0xefbe4786, 0x0fc19dc6, 0x240ca1cc],
       [0x2de92c6f, 0x4a7484aa, 0x5cb0a9dc, 0x76f988da],
       [0x983e5152, 0xa831c66d, 0xb00327c8, 0xbf597fc7],
       [0xc6e00bf3, 0xd5a79147, 0x06ca6351, 0x14292967],
       [0x27b70a85, 0x2e1b2138, 0x4d2c6dfc, 0x53380d13],
       [0x650a7354, 0x766a0abb, 0x81c2c92e, 0x92722c85],
       [0xa2bfe8a1, 0xa81a664b, 0xc24b8b70, 0xc76c51a3],
       [0xd192e819, 0xd6990624, 0xf40e3585, 0x106aa070],
       [0x19a4c116, 0x1e376c08, 0x2748774c, 0x34b0bcb5],
       [0x391c0cb3, 0x4ed8aa4a, 0x5b9cca4f, 0x682e6ff3],
       [0x748f82ee, 0x78a5636f, 0x84c87814, 0x8cc70208],
       [0x90befffa, 0xa4506ceb, 0xbef9a3f7, 0xc67178f2]]"

abbreviation chunk_size :: nat where
  "chunk_size \<equiv> 64"

text \<open>The sixteen words of a chunk, in big-endian order.\<close>

definition big_endian_word :: "byte list \<Rightarrow> nat \<Rightarrow> 32 word" where
  "big_endian_word u8_data i =
     push_bit 24 (ucast (u8_data ! (4 * i))) OR push_bit 16 (ucast (u8_data ! (4 * i + 1))) OR
     push_bit 8 (ucast (u8_data ! (4 * i + 2))) OR ucast (u8_data ! (4 * i + 3))"

text \<open>One iteration of the loop that fills \<open>w[16]\<close> to \<open>w[63]\<close>.\<close>

definition extend_schedule :: "nat \<Rightarrow> 32 word list \<Rightarrow> 32 word list" where
  "extend_schedule i w =
     (let w0 = w ! (i - 15);
          s0 = rotr w0 7 XOR rotr w0 18 XOR drop_bit 3 w0;
          w1 = w ! (i - 2);
          s1 = rotr w1 17 XOR rotr w1 19 XOR drop_bit 10 w1
      in w @ [w ! (i - 16) + s0 + w ! (i - 7) + s1])"

definition schedule :: "byte list \<Rightarrow> 32 word list" where
  "schedule u8_data = fold extend_schedule [16..<64] (map (big_endian_word u8_data) [0..<16])"

text \<open>One iteration of the loop on the eight words of the state.\<close>

definition sha_round :: "32 word list \<Rightarrow> nat \<Rightarrow> Hash \<Rightarrow> Hash" where
  "sha_round w i x =
     (let S1 = rotr (x ! 4) 6 XOR rotr (x ! 4) 11 XOR rotr (x ! 4) 25;
          ch = (x ! 4 AND x ! 5) XOR (NOT (x ! 4) AND x ! 6);
          temp1 = x ! 7 + S1 + ch + sha_k ! i + w ! i;
          S0 = rotr (x ! 0) 2 XOR rotr (x ! 0) 13 XOR rotr (x ! 0) 22;
          maj = (x ! 0 AND x ! 1) XOR (x ! 0 AND x ! 2) XOR (x ! 1 AND x ! 2);
          temp2 = S0 + maj
      in [temp1 + temp2, x ! 0, x ! 1, x ! 2, x ! 3 + temp1, x ! 4, x ! 5, x ! 6])"

definition process_chunk :: "byte list \<Rightarrow> Hash \<Rightarrow> Hash" where
  "process_chunk u8_data h = map2 (+) h (fold (sha_round (schedule u8_data)) [0..<64] h)"

text \<open>
  The loop that writes the length before \<open>index\<close>, its last byte first; \<open>i\<close> is the number of bytes
  left.
\<close>

fun length_loop :: "nat \<Rightarrow> nat \<Rightarrow> 64 word \<Rightarrow> byte list \<Rightarrow> byte list" where
  "length_loop 0 index length_in_bits byte_buffer = byte_buffer"
| "length_loop (Suc i) index length_in_bits byte_buffer =
     length_loop i (index - 1) (drop_bit 8 length_in_bits) (byte_buffer[index - 1 := ucast length_in_bits])"

definition process_final_chunk :: "byte list \<Rightarrow> 64 word \<Rightarrow> Hash \<Rightarrow> Hash" where
  "process_final_chunk u8_data total_length_in_bytes h =
     (let n = unat (total_length_in_bytes AND 0x3f);
          byte_buffer = (take n u8_data @ replicate (128 - n) 0)[n := 0x80];
          chunk_count = (if n + 9 \<le> 64 then 1 else 2);
          byte_buffer = length_loop 8 (chunk_count * 64) (total_length_in_bytes * 8) byte_buffer
      in fold (\<lambda>i. process_chunk (take 64 (drop (64 * i) byte_buffer))) [0..<chunk_count] h)"

section \<open>The hash code of a part of a file\<close>

abbreviation hash_block_size :: nat where
  "hash_block_size \<equiv> 64 * 2048"

text \<open>
  The hashing buffer has room for one block: a larger read, which happens when \<open>until\<close> is less than
  \<open>from\<close>, would write outside of it.
\<close>

definition next_block_size :: "int \<Rightarrow> int \<Rightarrow> nat" where
  "next_block_size current until =
     (if current + int hash_block_size > until then unat (word_of_int (until - current) :: 64 word)
      else hash_block_size)"

definition process_block :: "byte list \<Rightarrow> Hash \<Rightarrow> Hash" where
  "process_block bs h = fold (\<lambda>i. process_chunk (take 64 (drop (64 * i) bs))) [0..<length bs div 64] h"

lemma unat_word_of_int: "unat (word_of_int x :: 'a::len word) = nat (x mod 2 ^ LENGTH('a))"
  by (metis nat_uint_eq uint_word_of_int)

lemma next_block_size_nat:
  assumes "current \<le> until"
  shows "next_block_size current until = min hash_block_size (nat (until - current))"
proof (cases "current + int hash_block_size > until")
  case True
  then have "(until - current) mod 2 ^ 64 = until - current" using assms by (intro mod_pos_pos_trivial) simp_all
  then have "unat (word_of_int (until - current) :: 64 word) = nat (until - current)" by (simp only: unat_word_of_int) simp
  then show ?thesis using True assms unfolding next_block_size_def by simp
qed (simp add: next_block_size_def)

lemma next_block_size_pos: "current < until \<Longrightarrow> 0 < next_block_size current until"
  by (simp add: next_block_size_nat)

function full_hash_loop :: "'f Abstract_File \<Rightarrow> 'f \<Rightarrow> int \<Rightarrow> int \<Rightarrow> int \<Rightarrow> Hash \<Rightarrow> Hash result" where
  "full_hash_loop F f from until current h =
     (let block_size = next_block_size current until in
      if block_size > hash_block_size then Inl Out_Of_Bounds
      else
        bind_result (full_pread F block_size current f) (\<lambda>hashing_buffer.
        let current' = current + int block_size;
            h' = process_block (take block_size hashing_buffer) h
        in if block_size mod 64 \<noteq> 0 \<or> current' \<ge> until
           then Inr (process_final_chunk (drop (64 * (block_size div 64)) hashing_buffer) (word_of_int (current' - from)) h')
           else full_hash_loop F f from until current' h'))"
  by pat_completeness auto
termination
proof (relation "measure (\<lambda>(F, f, from, until, current, h). nat (until - current))", goal_cases)
  case (2 F f "from" until current h bs)
  then have "0 < next_block_size current until" by (intro next_block_size_pos) auto
  with 2 show ?case by auto
qed simp

declare full_hash_loop.simps [simp del]

definition get_full_hash :: "'f Abstract_File \<Rightarrow> 'f \<Rightarrow> int \<Rightarrow> int \<Rightarrow> Hash result" where
  "get_full_hash F f from until = full_hash_loop F f from until from hash_init"

definition get_file_hash :: "'f Abstract_File \<Rightarrow> 'f \<Rightarrow> Hash result" where
  "get_file_hash F f = get_full_hash F f 0 (file_get_size F f)"

text \<open>The position of the \<open>i\<close>-th sample, with the division of C++, which rounds towards zero.\<close>

definition fast_position :: "int \<Rightarrow> int \<Rightarrow> nat \<Rightarrow> int" where
  "fast_position from until i =
     (if i = 0 then from
      else if i = 255 then until - 4096
      else 4096 * ((from + (int i * (until - from)) sdiv 255) sdiv 4096))"

definition get_fast_hash :: "'f Abstract_File \<Rightarrow> 'f \<Rightarrow> int \<Rightarrow> int \<Rightarrow> Hash result" where
  "get_fast_hash F f from until =
     (if until - from < 4 * 4096 * 256 then get_full_hash F f from until
      else fold_result (\<lambda>i h.
             bind_result (full_pread F 4096 (fast_position from until i) f) (\<lambda>buffer.
             Inr (process_block buffer h))) [0..<256] hash_init)"

section \<open>Readonly_Memory_File\<close>

text \<open>
  A file over memory that it does not own; the methods that write are the empty ones of
  \<open>Abstract_File\<close>. The conversion of a negative 64-bit offset to \<open>size_t\<close> adds \<open>2 ^ 64\<close>.
\<close>

definition readonly_pread :: "nat \<Rightarrow> int \<Rightarrow> byte list \<Rightarrow> byte list result" where
  "readonly_pread sz offset m =
     (let off = nat (if offset < 0 then offset + 2 ^ 64 else offset) in
      if off \<ge> length m then Inr []
      else let max_size = length m - off; n = min sz max_size
           in Inr (take n (drop off m)))"

definition readonly_memory_file :: "byte list Abstract_File" where
  "readonly_memory_file = \<lparr>get_mode = (\<lambda>m. Read_Existing), file_get_size = (\<lambda>m. int (length m)), pread = readonly_pread,
     pwrite = (\<lambda>bs offset m. Inr m), sync = Inr, datasync = Inr, shared_lock = (\<lambda>_ _. Inr),
     exclusive_lock = (\<lambda>_ _. Inr), unlock = (\<lambda>_ _ m. m)\<rparr>"

definition get_string_hash :: "string \<Rightarrow> Hash result" where
  "get_string_hash s = get_file_hash readonly_memory_file (bytes_of s)"

end
