(* ===== verification/Server.thy ===== *)
theory Server
  imports Client Async_IO SHA_256
begin

unbundle bit_operations_syntax

text \<open>
  Model of \<open>src/src/joedb/concurrency/Server.h/.cpp\<close> and of the sessions of
  \<open>src/src/joedb/asio/Server.h/.cpp\<close>: a server that shares the journal of a client between network
  sessions, with a lock that the sessions pass on.

  A session is a coroutine. What it does between two suspensions is one step of the model, which ends
  with the bytes it passes to \<open>async_write\<close>, if any, and the point where it is suspended, its
  \<open>phase\<close>. A step starts when an asynchronous operation of the session completes. The constructor of
  the server requires a single thread, so that steps do not overlap.
\<close>

section \<open>State\<close>

datatype session_phase =
    Handshaking
  | Idle
  | Hashing
  | Reading
  | Pulling bool bool
  | Pushing bool
  | Waiting_Data bool bool int
  | Waiting_Lock bool int
  | Sending Async_Reader
  | Replying
  | Receiving bool int int int
  | Running

text \<open>
  A session that is not suspended is \<open>Running\<close>.
  \<open>Pulling lock_before send_data\<close> and \<open>Pushing unlock_after\<close> wait for the arguments of a request,
  \<open>Waiting_Data lock_before send_data pull_checkpoint\<close> and \<open>Waiting_Lock send_data pull_checkpoint\<close> for
  the timer of the session, \<open>Sending\<close> and \<open>Replying\<close> for the end of a write, and
  \<open>Receiving unlock_after from until remaining_size\<close> for pushed data.

  \<open>first_byte\<close> is \<open>buffer.data[0]\<close>, the only part of the buffer that survives a suspension. \<open>woken\<close>
  tells that the timer was cancelled since the session waits for it. The lock timeout has no state:
  asio runs the handler of a timer that had expired even when it is cancelled or restarted
  afterwards, so that \<open>on_timeout\<close> below may run at any time while the session exists. A handler
  that is still queued when its session is destroyed is outside of the model.
\<close>

record Session =
  session_locking :: bool
  push_status :: byte
  push_writer :: "int option"
  first_byte :: byte
  phase :: session_phase
  woken :: bool

record ('f, 'd, 'c) Server =
  server_client :: "('f, 'd) Client"
  server_connection :: 'c
  is_writable :: bool
  client_lock :: "bool option"
  lock_timeout :: int
  is_locked :: bool
  lock_waiters :: "nat list"
  pull_waiters :: "nat list"
  sessions :: "nat \<rightharpoonup> Session"
  session_id :: nat

text \<open>
  \<open>is_writable\<close> tells that \<open>writable_journal_client\<close> is not null, and \<open>client_lock\<close> is the member
  \<open>locked\<close> of the lock of the client, if the server holds one. What a server is built on: the methods
  of the file and of the connection of its client, its method \<open>read_journal\<close>, and the clock.
\<close>

record ('f, 'd, 'c) Server_Env =
  env_file :: "'f Abstract_File"
  env_connection :: "('c, 'f) Connection"
  env_read :: "('f, 'd) read_journal"
  env_time :: "64 word"

text \<open>
  How a step ends: with the bytes to write and the next state; with an exception of the session, which
  leaves a known state; with an exception from inside of an operation of the client or of its file,
  whose state is then not known; with the use of a pointer to a session that no longer exists, or the
  removal of the front of an empty queue; or not at all.
\<close>

datatype 's served = Next "byte list" 's | Throw error 's | Failed error | Undefined | Never

definition and_then :: "'s served \<Rightarrow> ('s \<Rightarrow> 's served) \<Rightarrow> 's served" where
  "and_then x g =
     (case x of
        Next bs s \<Rightarrow> (case g s of Next bs' s' \<Rightarrow> Next (bs @ bs') s' | y \<Rightarrow> y)
      | y \<Rightarrow> y)"

definition from_outcome :: "'a result option \<Rightarrow> ('a \<Rightarrow> 's served) \<Rightarrow> 's served" where
  "from_outcome r g = (case r of None \<Rightarrow> Never | Some (Inl e) \<Rightarrow> Failed e | Some (Inr x) \<Rightarrow> g x)"

definition put_session :: "nat \<Rightarrow> Session \<Rightarrow> ('f, 'd, 'c) Server \<Rightarrow> ('f, 'd, 'c) Server" where
  "put_session i s v = v\<lparr>sessions := (sessions v)(i \<mapsto> s)\<rparr>"

abbreviation server_journal :: "('f, 'd, 'c) Server \<Rightarrow> 'f Journal" where
  "server_journal v \<equiv> client_journal (server_client v)"

abbreviation server_checkpoint_position :: "('f, 'd, 'c) Server \<Rightarrow> int" where
  "server_checkpoint_position v \<equiv> checkpoint_position (server_journal v)"

definition client_is_shared :: "('f, 'd, 'c) Server_Env \<Rightarrow> ('f, 'd, 'c) Server \<Rightarrow> bool" where
  "client_is_shared E v = is_shared (env_file E) (journal_file (server_journal v))"

text \<open>A method called on the session \<open>i\<close>.\<close>

definition with_session :: "nat \<Rightarrow> ('f, 'd, 'c) Server \<Rightarrow> (Session \<Rightarrow> ('f, 'd, 'c) Server served) \<Rightarrow> ('f, 'd, 'c) Server served" where
  "with_session i v g = (case sessions v i of None \<Rightarrow> Undefined | Some s \<Rightarrow> g s)"

section \<open>The lock\<close>

text \<open>\<open>timer.cancel()\<close> has an effect on a session that waits for its timer.\<close>

definition cancel_timer :: "nat \<Rightarrow> ('f, 'd, 'c) Server \<Rightarrow> ('f, 'd, 'c) Server served" where
  "cancel_timer i v =
     with_session i v (\<lambda>s.
     Next [] (case phase s of
        Waiting_Data lk dt p \<Rightarrow> put_session i (s\<lparr>woken := True\<rparr>) v
      | Waiting_Lock dt p \<Rightarrow> put_session i (s\<lparr>woken := True\<rparr>) v
      | _ \<Rightarrow> v))"

text \<open>\<open>client_lock->unlock(); client_lock.reset();\<close>\<close>

definition unlock_client :: "('f, 'd, 'c) Server_Env \<Rightarrow> bool \<Rightarrow> ('f, 'd, 'c) Server \<Rightarrow> ('f, 'd, 'c) Server served" where
  "unlock_client E b v =
     from_outcome (Some (lock_unlock (env_connection E) \<lparr>locked_client = server_client v, locked = b\<rparr> (server_connection v))) (\<lambda>(l, c).
     case client_lock_destroy (env_file E) (env_connection E) l c of
       (cl, c') \<Rightarrow> Next [] (v\<lparr>server_client := cl, server_connection := c', client_lock := None\<rparr>))"

definition session_unlock :: "('f, 'd, 'c) Server_Env \<Rightarrow> nat \<Rightarrow> ('f, 'd, 'c) Server \<Rightarrow> ('f, 'd, 'c) Server served" where
  "session_unlock E i v =
     with_session i v (\<lambda>s.
     if session_locking s then
       let v1 = put_session i (s\<lparr>session_locking := False\<rparr>) v in
       (case lock_waiters v1 of
          [] \<Rightarrow>
            let v2 = v1\<lparr>is_locked := False\<rparr> in
            (case client_lock v2 of
               Some b \<Rightarrow> if client_is_shared E v2 then unlock_client E b v2 else Next [] v2
             | None \<Rightarrow> Next [] v2)
        | w # ws \<Rightarrow> cancel_timer w v1)
     else Next [] v)"

text \<open>\<open>lock()\<close> from \<open>get_server().locked = true\<close> on.\<close>

definition take_lock :: "('f, 'd, 'c) Server_Env \<Rightarrow> nat \<Rightarrow> ('f, 'd, 'c) Server \<Rightarrow> ('f, 'd, 'c) Server served" where
  "take_lock E i v =
     with_session i v (\<lambda>s.
     let v1 = put_session i (s\<lparr>session_locking := True\<rparr>) (v\<lparr>is_locked := True\<rparr>) in
     if client_lock v1 \<noteq> None then Next [] v1
     else if \<not> is_writable v1 then Next [] (put_session i (s\<lparr>session_locking := True, first_byte := 82\<rparr>) v1)
     else
       from_outcome (client_lock_new (env_file E) (env_read E) (env_connection E) (server_client v1) (server_connection v1)) (\<lambda>ending.
       case ending of
         Thrown e st c \<Rightarrow> Failed e
       | Done u l c \<Rightarrow> Next [] (v1\<lparr>server_client := locked_client l, server_connection := c, client_lock := Some (locked l)\<rparr>)))"

definition already_locked :: error where
  "already_locked = Exception ''error: locking an already locked session''"

definition on_timeout :: "('f, 'd, 'c) Server_Env \<Rightarrow> nat \<Rightarrow> ('f, 'd, 'c) Server \<Rightarrow> ('f, 'd, 'c) Server served" where
  "on_timeout E i v =
     with_session i v (\<lambda>s.
     session_unlock E i
       (if push_writer s \<noteq> None then put_session i (s\<lparr>push_writer := None, push_status := 116\<rparr>) v else v))"

definition remove_from_queue :: "nat \<Rightarrow> nat list \<Rightarrow> nat list" where
  "remove_from_queue i q = remove1 i q"

text \<open>\<open>cleanup()\<close>, after which the session is destroyed.\<close>

definition end_session :: "('f, 'd, 'c) Server_Env \<Rightarrow> nat \<Rightarrow> ('f, 'd, 'c) Server \<Rightarrow> ('f, 'd, 'c) Server served" where
  "end_session E i v =
     and_then (session_unlock E i v) (\<lambda>v.
     Next [] (v\<lparr>lock_waiters := remove_from_queue i (lock_waiters v), pull_waiters := remove_from_queue i (pull_waiters v),
                sessions := (sessions v)(i := None)\<rparr>))"

section \<open>Requests\<close>

abbreviation session_buffer_size :: nat where
  "session_buffer_size \<equiv> 8192"

definition set_phase :: "nat \<Rightarrow> session_phase \<Rightarrow> ('f, 'd, 'c) Server \<Rightarrow> ('f, 'd, 'c) Server served" where
  "set_phase i ph v = with_session i v (\<lambda>s. Next [] (put_session i (s\<lparr>phase := ph, woken := False\<rparr>) v))"

text \<open>\<open>write_buffer()\<close>: the session is suspended until the bytes are written.\<close>

definition reply :: "nat \<Rightarrow> byte list \<Rightarrow> ('f, 'd, 'c) Server \<Rightarrow> ('f, 'd, 'c) Server served" where
  "reply i bs v = and_then (set_phase i Replying v) (Next bs)"

text \<open>
  One iteration of the loop of \<open>send\<close>, up to \<open>write_buffer\<close>; \<open>prefix\<close> is what the buffer holds at its
  start, the header of the reply in the first iteration.
\<close>

definition send_some :: "('f, 'd, 'c) Server_Env \<Rightarrow> nat \<Rightarrow> byte list \<Rightarrow> Async_Reader \<Rightarrow> ('f, 'd, 'c) Server \<Rightarrow> ('f, 'd, 'c) Server served" where
  "send_some E i prefix r v =
     (if int (length prefix) + get_remaining r > 0 then
        (case async_read (env_file E) (journal_file (server_journal v)) (session_buffer_size - length prefix) r of
           Inl e \<Rightarrow> Throw e v
         | Inr (bs, r') \<Rightarrow>
             if end_of_file r' then Throw (Exception ''unexpected end of file'') v
             else and_then (set_phase i (Sending r') v) (Next (prefix @ bs)))
      else set_phase i Idle v)"

definition send :: "('f, 'd, 'c) Server_Env \<Rightarrow> nat \<Rightarrow> Async_Reader \<Rightarrow> ('f, 'd, 'c) Server \<Rightarrow> ('f, 'd, 'c) Server served" where
  "send E i r v =
     with_session i v (\<lambda>s.
     send_some E i (first_byte s # to_bytes 8 (word_of_int (reader_end r) :: 64 word)) r v)"

text \<open>The arguments of a request, \<open>buffer.read<int64_t>()\<close> at byte \<open>k\<close>.\<close>

definition read_int64 :: "nat \<Rightarrow> byte list \<Rightarrow> int" where
  "read_int64 k bs = sint (of_bytes (take 8 (drop k bs)) :: 64 word)"

definition read_hash :: "nat \<Rightarrow> byte list \<Rightarrow> Hash" where
  "read_hash k bs = map (\<lambda>n. of_bytes (take 4 (drop (k + 4 * n) bs))) [0..<8]"

definition check_hash :: "('f, 'd, 'c) Server_Env \<Rightarrow> nat \<Rightarrow> byte list \<Rightarrow> ('f, 'd, 'c) Server \<Rightarrow> ('f, 'd, 'c) Server served" where
  "check_hash E i bs v =
     with_session i v (\<lambda>s.
     let from = read_int64 0 bs; until = read_int64 8 bs; hash = read_hash 16 bs; f = journal_file (server_journal v) in
     if from < 0 \<or> until < 0 \<or> from > until \<or> until > server_checkpoint_position v
     then reply i [104] (put_session i (s\<lparr>first_byte := 104\<rparr>) v)
     else
       (case (if first_byte s = 72 then get_fast_hash (env_file E) f from until else get_full_hash (env_file E) f from until) of
          Inl e \<Rightarrow> Throw e v
        | Inr h \<Rightarrow>
            if hash \<noteq> h then reply i [104] (put_session i (s\<lparr>first_byte := 104\<rparr>) v)
            else reply i [first_byte s] v))"

abbreviation protocol_version :: int where
  "protocol_version \<equiv> 20"

definition handshake_reply :: "('f, 'd, 'c) Server_Env \<Rightarrow> nat \<Rightarrow> byte list \<Rightarrow> ('f, 'd, 'c) Server \<Rightarrow> ('f, 'd, 'c) Server served" where
  "handshake_reply E i bs v =
     with_session i v (\<lambda>s.
     let v1 = put_session i (s\<lparr>first_byte := bs ! 0\<rparr>) v in
     if take 5 bs \<noteq> joedb_signature then Throw (Exception ''handshake does not start by joedb'') v1
     else
       let version = (if read_int64 5 bs < protocol_version then 0 else protocol_version);
           writable = (is_writable v1 \<and> \<not> is_pullonly (env_connection E))
       in reply i (take 5 bs @ to_bytes 8 (word_of_int version :: 64 word) @ to_bytes 8 (word_of_nat i :: 64 word) @
            to_bytes 8 (word_of_int (server_checkpoint_position v1) :: 64 word) @ [if writable then 87 else 82]) v1)"

definition read_request :: "('f, 'd, 'c) Server_Env \<Rightarrow> nat \<Rightarrow> byte list \<Rightarrow> ('f, 'd, 'c) Server \<Rightarrow> ('f, 'd, 'c) Server served" where
  "read_request E i bs v =
     (let until = min (read_int64 8 bs) (server_checkpoint_position v); from = min (read_int64 0 bs) until
      in send E i (async_reader_new from until) v)"

text \<open>\<open>client.pull()\<close>, a virtual method.\<close>

definition pull_client :: "('f, 'd, 'c) Server_Env \<Rightarrow> ('f, 'd, 'c) Server \<Rightarrow> ('f, 'd, 'c) Server served" where
  "pull_client E v =
     (if is_writable v then
        from_outcome (writable_client_pull (env_file E) (env_read E) (env_connection E) (server_client v) (server_connection v)) (\<lambda>(n, cl, c).
        Next [] (v\<lparr>server_client := cl, server_connection := c\<rparr>))
      else
        from_outcome (Some (readonly_client_pull (env_file E) (env_read E) (server_client v))) (\<lambda>(n, cl).
        Next [] (v\<lparr>server_client := cl\<rparr>)))"

text \<open>The end of \<open>pull\<close>, once the lock is obtained when there is to be one.\<close>

definition pull_send :: "('f, 'd, 'c) Server_Env \<Rightarrow> nat \<Rightarrow> bool \<Rightarrow> int \<Rightarrow> ('f, 'd, 'c) Server \<Rightarrow> ('f, 'd, 'c) Server served" where
  "pull_send E i send_data pull_checkpoint v =
     (let p = (if send_data then pull_checkpoint else server_checkpoint_position v)
      in send E i (async_reader_new p (server_checkpoint_position v)) v)"

definition pull_lock :: "('f, 'd, 'c) Server_Env \<Rightarrow> nat \<Rightarrow> bool \<Rightarrow> bool \<Rightarrow> int \<Rightarrow> ('f, 'd, 'c) Server \<Rightarrow> ('f, 'd, 'c) Server served" where
  "pull_lock E i lock_before send_data pull_checkpoint v =
     with_session i v (\<lambda>s.
     if \<not> lock_before then pull_send E i send_data pull_checkpoint v
     else if session_locking s then Throw already_locked v
     else if \<not> is_locked v then and_then (take_lock E i v) (pull_send E i send_data pull_checkpoint)
     else set_phase i (Waiting_Lock send_data pull_checkpoint) (v\<lparr>lock_waiters := lock_waiters v @ [i]\<rparr>))"

definition pull_request :: "('f, 'd, 'c) Server_Env \<Rightarrow> nat \<Rightarrow> bool \<Rightarrow> bool \<Rightarrow> byte list \<Rightarrow> ('f, 'd, 'c) Server \<Rightarrow> ('f, 'd, 'c) Server served" where
  "pull_request E i lock_before send_data bs v =
     (let wait = read_int64 0 bs; pull_checkpoint = read_int64 8 bs in
      and_then (if client_lock v = None then pull_client E v else Next [] v) (\<lambda>v.
      if wait > 0 \<and> pull_checkpoint = server_checkpoint_position v
      then set_phase i (Waiting_Data lock_before send_data pull_checkpoint) (v\<lparr>pull_waiters := pull_waiters v @ [i]\<rparr>)
      else pull_lock E i lock_before send_data pull_checkpoint v))"

text \<open>The continuations of \<open>pull\<close> after its two timers.\<close>

definition data_waited :: "('f, 'd, 'c) Server_Env \<Rightarrow> nat \<Rightarrow> bool \<Rightarrow> bool \<Rightarrow> int \<Rightarrow> ('f, 'd, 'c) Server \<Rightarrow> ('f, 'd, 'c) Server served" where
  "data_waited E i lock_before send_data pull_checkpoint v =
     pull_lock E i lock_before send_data pull_checkpoint (v\<lparr>pull_waiters := remove_from_queue i (pull_waiters v)\<rparr>)"

definition lock_waited :: "('f, 'd, 'c) Server_Env \<Rightarrow> nat \<Rightarrow> bool \<Rightarrow> int \<Rightarrow> ('f, 'd, 'c) Server \<Rightarrow> ('f, 'd, 'c) Server served" where
  "lock_waited E i send_data pull_checkpoint v =
     (case lock_waiters v of
        [] \<Rightarrow> Undefined
      | w # ws \<Rightarrow> and_then (take_lock E i (v\<lparr>lock_waiters := ws\<rparr>)) (pull_send E i send_data pull_checkpoint))"

section \<open>Push\<close>

definition pushed_while_locked :: error where
  "pushed_while_locked = Exception ''trying to push while someone else is locking''"

text \<open>\<open>for (auto *waiter: pull_waiters) waiter->timer.cancel();\<close>\<close>

fun cancel_timers :: "nat list \<Rightarrow> ('f, 'd, 'c) Server \<Rightarrow> ('f, 'd, 'c) Server served" where
  "cancel_timers [] v = Next [] v"
| "cancel_timers (w # ws) v = and_then (cancel_timer w v) (cancel_timers ws)"

text \<open>What \<open>push\<close> does with the data it has received: a checkpoint, and a push to the connection of the client.\<close>

definition commit_push :: "('f, 'd, 'c) Server_Env \<Rightarrow> bool \<Rightarrow> int \<Rightarrow> bool \<Rightarrow> ('f, 'd, 'c) Server \<Rightarrow> ('f, 'd, 'c) Server served" where
  "commit_push E b p unlock_after v =
     from_outcome (Some (require b Assertion_Failure)) (\<lambda>_.
     from_outcome (Some (soft_checkpoint_at (env_file E) p (server_journal v))) (\<lambda>j.
     let l = \<lparr>locked_client = (server_client v)\<lparr>client_journal := j\<rparr>, locked = b\<rparr> in
     if client_is_shared E v \<and> unlock_after then
       from_outcome (checkpoint_and_push_unlock (env_file E) (env_connection E) (env_time E) l (server_connection v)) (\<lambda>(l', c).
       case client_lock_destroy (env_file E) (env_connection E) l' c of
         (cl, c') \<Rightarrow> Next [] (v\<lparr>server_client := cl, server_connection := c', client_lock := None\<rparr>))
     else
       from_outcome (checkpoint_and_push (env_file E) (env_connection E) (env_time E) l (server_connection v)) (\<lambda>(l', c).
       Next [] (v\<lparr>server_client := locked_client l', server_connection := c\<rparr>))))"

text \<open>\<open>push\<close> after its loop.\<close>

definition push_finish :: "('f, 'd, 'c) Server_Env \<Rightarrow> nat \<Rightarrow> bool \<Rightarrow> int \<Rightarrow> int \<Rightarrow> ('f, 'd, 'c) Server \<Rightarrow> ('f, 'd, 'c) Server served" where
  "push_finish E i unlock_after from until v =
     with_session i v (\<lambda>s.
     and_then
       (case (push_writer s, client_lock v) of
          (Some p, Some b) \<Rightarrow> if until > from then commit_push E b p unlock_after v else Next [] v
        | _ \<Rightarrow> Next [] v) (\<lambda>v.
     and_then (Next [] (put_session i (s\<lparr>push_writer := None\<rparr>) v)) (\<lambda>v.
     and_then (if unlock_after then session_unlock E i v else Next [] v) (\<lambda>v.
     and_then (cancel_timers (pull_waiters v) v) (\<lambda>v.
     let v' = v\<lparr>pull_waiters := []\<rparr> in
     with_session i v' (\<lambda>s'.
     reply i [push_status s'] (put_session i (s'\<lparr>first_byte := push_status s'\<rparr>) v')))))))"

text \<open>The test of the loop: either more data is expected, or the push ends.\<close>

definition push_loop :: "('f, 'd, 'c) Server_Env \<Rightarrow> nat \<Rightarrow> bool \<Rightarrow> int \<Rightarrow> int \<Rightarrow> int \<Rightarrow> ('f, 'd, 'c) Server \<Rightarrow> ('f, 'd, 'c) Server served" where
  "push_loop E i unlock_after from until remaining_size v =
     (if remaining_size > 0 then set_phase i (Receiving unlock_after from until remaining_size) v
      else push_finish E i unlock_after from until v)"

text \<open>
  \<open>until - from\<close> may overflow for values that a client made up; the result is the one of two's
  complement arithmetic.
\<close>

definition push_request :: "('f, 'd, 'c) Server_Env \<Rightarrow> nat \<Rightarrow> bool \<Rightarrow> byte list \<Rightarrow> ('f, 'd, 'c) Server \<Rightarrow> ('f, 'd, 'c) Server served" where
  "push_request E i unlock_after bs v =
     with_session i v (\<lambda>s.
     let from = read_int64 0 bs; until = read_int64 8 bs in
     if is_locked v \<and> \<not> session_locking s then Throw pushed_while_locked v
     else
       and_then (if is_locked v then Next [] v else if session_locking s then Throw already_locked v else take_lock E i v) (\<lambda>v.
       with_session i v (\<lambda>s.
       let conflict = (\<not> session_locking s \<or> from \<noteq> server_checkpoint_position v);
           status = (if \<not> is_writable v then 82 else if conflict then 67 else first_byte s);
           writer = (if is_writable v \<and> \<not> conflict \<and> client_lock v \<noteq> None then Some (server_checkpoint_position v) else None)
       in if writer \<noteq> None \<and> client_lock v = Some False then Failed Assertion_Failure
          else push_loop E i unlock_after from until (sint (word_of_int (until - from) :: 64 word))
                 (put_session i (s\<lparr>push_status := status, push_writer := writer\<rparr>) v))))"

definition push_receive :: "('f, 'd, 'c) Server_Env \<Rightarrow> nat \<Rightarrow> bool \<Rightarrow> int \<Rightarrow> int \<Rightarrow> int \<Rightarrow> byte list \<Rightarrow> ('f, 'd, 'c) Server \<Rightarrow>
    ('f, 'd, 'c) Server served" where
  "push_receive E i unlock_after from until remaining_size bs v =
     with_session i v (\<lambda>s.
     and_then
       (case push_writer s of
          None \<Rightarrow> Next [] v
        | Some p \<Rightarrow>
            from_outcome (Some (async_write (env_file E) bs (journal_file (server_journal v)) p)) (\<lambda>(f, p').
            Next [] (put_session i (s\<lparr>push_writer := Some p'\<rparr>)
              (v\<lparr>server_client := (server_client v)\<lparr>client_journal := set_file f (server_journal v)\<rparr>\<rparr>))))
       (push_loop E i unlock_after from until (remaining_size - int (length bs))))"

section \<open>Sessions\<close>

text \<open>The loop of \<open>run\<close>, on the code of a request.\<close>

definition dispatch :: "('f, 'd, 'c) Server_Env \<Rightarrow> nat \<Rightarrow> byte \<Rightarrow> ('f, 'd, 'c) Server \<Rightarrow> ('f, 'd, 'c) Server served" where
  "dispatch E i code v =
     with_session i v (\<lambda>s.
     let v1 = put_session i (s\<lparr>first_byte := code\<rparr>) v in
     if code = 72 \<or> code = 73 then set_phase i Hashing v1
     else if code = 114 then set_phase i Reading v1
     else if code = 68 \<or> code = 69 \<or> code = 70 \<or> code = 71
       then set_phase i (Pulling (code AND 1 \<noteq> 0) (code AND 2 \<noteq> 0)) v1
     else if code = 77 then and_then (session_unlock E i v1) (reply i [code])
     else if code = 78 \<or> code = 79 then set_phase i (Pushing (code = 79)) v1
     else end_session E i v1)"

datatype completion = Received "byte list" | Written | Timer | Timeout | Socket_Error

text \<open>How many bytes a session waits for.\<close>

definition expected :: "session_phase \<Rightarrow> nat option" where
  "expected ph =
     (case ph of
        Handshaking \<Rightarrow> Some 13
      | Idle \<Rightarrow> Some 1
      | Hashing \<Rightarrow> Some 48
      | Reading \<Rightarrow> Some 16
      | Pulling lk dt \<Rightarrow> Some 16
      | Pushing ua \<Rightarrow> Some 16
      | Receiving ua p q n \<Rightarrow> Some (nat (min n (int session_buffer_size)))
      | _ \<Rightarrow> None)"

text \<open>The completions a session may get where it is suspended.\<close>

definition enabled :: "completion \<Rightarrow> ('f, 'd, 'c) Server \<Rightarrow> Session \<Rightarrow> bool" where
  "enabled x v s \<longleftrightarrow>
     (case x of
        Received bs \<Rightarrow> expected (phase s) = Some (length bs)
      | Written \<Rightarrow> (case phase s of Sending r \<Rightarrow> True | Replying \<Rightarrow> True | _ \<Rightarrow> False)
      | Timer \<Rightarrow> (case phase s of Waiting_Data lk dt p \<Rightarrow> True | Waiting_Lock dt p \<Rightarrow> woken s | _ \<Rightarrow> False)
      | Timeout \<Rightarrow> lock_timeout v > 0
      | Socket_Error \<Rightarrow> (case phase s of Waiting_Data lk dt p \<Rightarrow> False | Waiting_Lock dt p \<Rightarrow> False | Running \<Rightarrow> False | _ \<Rightarrow> True))"

definition complete :: "('f, 'd, 'c) Server_Env \<Rightarrow> nat \<Rightarrow> completion \<Rightarrow> ('f, 'd, 'c) Server \<Rightarrow> ('f, 'd, 'c) Server served" where
  "complete E i x v =
     with_session i v (\<lambda>s.
     let v1 = put_session i (s\<lparr>phase := Running\<rparr>) v in
     case (x, phase s) of
       (Timeout, _) \<Rightarrow> on_timeout E i v
     | (Socket_Error, _) \<Rightarrow> end_session E i v1
     | (Received bs, Handshaking) \<Rightarrow> handshake_reply E i bs v1
     | (Received bs, Idle) \<Rightarrow> dispatch E i (bs ! 0) v1
     | (Received bs, Hashing) \<Rightarrow> check_hash E i bs v1
     | (Received bs, Reading) \<Rightarrow> read_request E i bs v1
     | (Received bs, Pulling lk dt) \<Rightarrow> pull_request E i lk dt bs v1
     | (Received bs, Pushing ua) \<Rightarrow> push_request E i ua bs v1
     | (Received bs, Receiving ua p q n) \<Rightarrow> push_receive E i ua p q n bs v1
     | (Written, Sending r) \<Rightarrow> send_some E i [] r v1
     | (Written, Replying) \<Rightarrow> set_phase i Idle v1
     | (Timer, Waiting_Data lk dt p) \<Rightarrow> data_waited E i lk dt p v1
     | (Timer, Waiting_Lock dt p) \<Rightarrow> lock_waited E i dt p v1
     | _ \<Rightarrow> Next [] v)"

text \<open>An exception ends the session.\<close>

definition server_step :: "('f, 'd, 'c) Server_Env \<Rightarrow> nat \<Rightarrow> completion \<Rightarrow> ('f, 'd, 'c) Server \<Rightarrow> ('f, 'd, 'c) Server served" where
  "server_step E i x v = (case complete E i x v of Throw e v' \<Rightarrow> end_session E i v' | r \<Rightarrow> r)"

text \<open>\<open>listener()\<close> accepts a connection.\<close>

definition new_session :: "('f, 'd, 'c) Server \<Rightarrow> ('f, 'd, 'c) Server" where
  "new_session v =
     put_session (session_id v)
       \<lparr>session_locking = False, push_status = 0, push_writer = None, first_byte = 0, phase = Handshaking, woken = False\<rparr>
       (v\<lparr>session_id := session_id v + 1\<rparr>)"

section \<open>Construction\<close>

definition server_start :: "('f, 'd, 'c) Server_Env \<Rightarrow> int \<Rightarrow> bool \<Rightarrow> ('f, 'd) Client \<Rightarrow> 'c \<Rightarrow> ('f, 'd, 'c) Server served" where
  "server_start E timeout writable cl c =
     (let v = \<lparr>server_client = cl, server_connection = c, is_writable = writable, client_lock = None, lock_timeout = timeout,
               is_locked = False, lock_waiters = [], pull_waiters = [], sessions = Map.empty, session_id = 0\<rparr> in
      if writable then
        from_outcome (writable_push_if_ahead (env_connection E) (get_journal_checkpoint cl) cl c) (\<lambda>(p, cl', c').
        let v1 = v\<lparr>server_client := cl', server_connection := c'\<rparr> in
        if client_is_shared E v1 then Next [] v1
        else
          from_outcome (client_lock_new (env_file E) (env_read E) (env_connection E) cl' c') (\<lambda>ending.
          case ending of
            Thrown e st c'' \<Rightarrow> Failed e
          | Done u l c'' \<Rightarrow> Next [] (v1\<lparr>server_client := locked_client l, server_connection := c'', client_lock := Some (locked l)\<rparr>)))
      else Next [] v)"

definition cleanup_after_join :: "('f, 'd, 'c) Server_Env \<Rightarrow> ('f, 'd, 'c) Server \<Rightarrow> ('f, 'd, 'c) Server served" where
  "cleanup_after_join E v =
     (case client_lock v of
        None \<Rightarrow> Next [] v
      | Some b \<Rightarrow>
          from_outcome (Some (lock_unlock (env_connection E) \<lparr>locked_client = server_client v, locked = b\<rparr> (server_connection v))) (\<lambda>(l, c).
          Next [] (v\<lparr>server_connection := c, client_lock := Some (locked l)\<rparr>)))"

end
