(* ===== verification/Server_Connection.thy ===== *)
theory Server_Connection
  imports Server
begin

text \<open>
  Model of \<open>src/src/joedb/concurrency/Channel.h/.cpp\<close>, \<open>Server_Client.h/.cpp\<close> and
  \<open>Server_Connection.h/.cpp\<close>: the client side of the network protocol.

  A channel is a parameter: its two virtual methods are functions on a state of type \<open>'n\<close>, which may
  throw. They are calls of a socket library that return once they have transferred at least one byte,
  and their types say so: \<open>write_some\<close> returns the number of bytes written beyond the first one,
  \<open>read_some\<close> the first byte read and the following ones. Bytes beyond the size of the request are
  dropped. A call that blocks for ever has no result.

  A \<open>Disconnection\<close> is an exception; the difference matters to \<open>Robust_Connection\<close> only.
\<close>

section \<open>Channel\<close>

record 'n Channel =
  write_some :: "byte list \<Rightarrow> 'n \<Rightarrow> (nat \<times> 'n) result"
  read_some :: "nat \<Rightarrow> 'n \<Rightarrow> ((byte \<times> byte list) \<times> 'n) result"

function channel_write :: "'n Channel \<Rightarrow> byte list \<Rightarrow> 'n \<Rightarrow> 'n result" where
  "channel_write C bs n =
     (if bs = [] then Inr n
      else bind_result (write_some C bs n) (\<lambda>(k, n'). channel_write C (drop (Suc k) bs) n'))"
  by pat_completeness auto
termination
  by (relation "measure (\<lambda>(C, bs, n). length bs)") auto

definition read_some_bytes :: "'n Channel \<Rightarrow> nat \<Rightarrow> 'n \<Rightarrow> (byte list \<times> 'n) result" where
  "read_some_bytes C sz n = bind_result (read_some C sz n) (\<lambda>((b, bs), n'). Inr (take sz (b # bs), n'))"

lemma read_some_bytes_length: "read_some_bytes C sz n = Inr (bs, n') \<Longrightarrow> length bs \<le> sz \<and> (sz > 0 \<longrightarrow> bs \<noteq> [])"
  by (cases sz) (auto simp: read_some_bytes_def)

function channel_read :: "'n Channel \<Rightarrow> nat \<Rightarrow> 'n \<Rightarrow> (byte list \<times> 'n) result" where
  "channel_read C sz n =
     (if sz = 0 then Inr ([], n)
      else bind_result (read_some_bytes C sz n) (\<lambda>(bs, n').
           bind_result (channel_read C (sz - length bs) n') (\<lambda>(rest, n'').
           Inr (bs @ rest, n''))))"
  by pat_completeness auto
termination
  by (relation "measure (\<lambda>(C, sz, n). sz)") (auto dest: read_some_bytes_length)

declare channel_write.simps [simp del] channel_read.simps [simp del]

section \<open>Server_Client\<close>

text \<open>
  The buffer has no state of its own: every method fills it before it uses it. The keep-alive thread
  takes the lock of the channel for each ping, so that it is one more call between two others.
\<close>

record 'n Server_Client =
  client_channel :: 'n
  client_session_id :: int
  pullonly_server :: bool
  server_checkpoint :: int

definition int64_bytes :: "int \<Rightarrow> byte list" where
  "int64_bytes x = to_bytes 8 (word_of_int x :: 64 word)"

definition locked_ping :: "'n Channel \<Rightarrow> 'n Server_Client \<Rightarrow> 'n Server_Client result" where
  "locked_ping C s =
     bind_result (channel_write C (68 # replicate 16 0) (client_channel s)) (\<lambda>n.
     bind_result (channel_read C 9 n) (\<lambda>(bs, n').
     Inr (s\<lparr>client_channel := n'\<rparr>)))"

definition connect :: "'n Channel \<Rightarrow> 'n \<Rightarrow> 'n Server_Client result" where
  "connect C n =
     bind_result (channel_write C (joedb_signature @ int64_bytes protocol_version) n) (\<lambda>n1.
     bind_result (channel_read C (5 + 8 + 8 + 8 + 1) n1) (\<lambda>(bs, n2).
     if take 5 bs \<noteq> joedb_signature then Inl (Exception ''Did not receive joedb from server'')
     else if read_int64 5 bs = 0 then Inl (Exception ''Client version rejected by server'')
     else if read_int64 5 bs < protocol_version then Inl (Exception ''Unsupported server version'')
     else if bs ! 29 = 82 \<or> bs ! 29 = 87
     then Inr \<lparr>client_channel = n2, client_session_id = read_int64 13 bs, pullonly_server = (bs ! 29 = 82), server_checkpoint = read_int64 21 bs\<rparr>
     else Inl (Exception ''Unexpected server mode'')))"

text \<open>The loop of \<open>download\<close>; \<open>p\<close> is the position of the writer.\<close>

function download :: "'f Abstract_File \<Rightarrow> 'n Channel \<Rightarrow> int \<Rightarrow> int \<Rightarrow> 'f \<Rightarrow> int \<Rightarrow> 'n \<Rightarrow> ('f \<times> int \<times> 'n) result" where
  "download F C sz read f p n =
     (if read < sz then
        bind_result (read_some_bytes C (nat (min (int session_buffer_size) (sz - read))) n) (\<lambda>(bs, n').
        bind_result (async_write F bs f p) (\<lambda>(f', p').
        download F C sz (read + int (length bs)) f' p' n'))
      else Inr (f, p, n))"
  by pat_completeness auto
termination
  by (relation "measure (\<lambda>(F, C, sz, read, f, p, n). nat (sz - read))") (auto dest!: read_some_bytes_length simp: neq_Nil_conv)

declare download.simps [simp del]

text \<open>The exceptions of \<open>disconnect\<close> are ignored by the destructor, which is its only caller.\<close>

definition disconnect :: "'n Channel \<Rightarrow> 'n Server_Client \<Rightarrow> 'n result" where
  "disconnect C s = channel_write C [81] (client_channel s)"

section \<open>Server_Connection\<close>

definition server_pread :: "'n Channel \<Rightarrow> nat \<Rightarrow> int \<Rightarrow> 'n Server_Client \<Rightarrow> (byte list \<times> 'n Server_Client) result" where
  "server_pread C sz offset s =
     bind_result (channel_write C (114 # int64_bytes offset @ int64_bytes (offset + int sz)) (client_channel s)) (\<lambda>n1.
     bind_result (channel_read C 9 n1) (\<lambda>(bs, n2).
     if bs ! 0 \<noteq> 114 then Inl (Exception ''pread error: unexpected server reply'')
     else
       let until = read_int64 1 bs in
       if until < offset \<or> until > offset + int sz then Inl (Exception ''bad pread size from server'')
       else bind_result (channel_read C (nat (until - offset)) n2) (\<lambda>(bytes, n3). Inr (bytes, s\<lparr>client_channel := n3\<rparr>))))"

definition hash_bytes :: "Hash \<Rightarrow> byte list" where
  "hash_bytes h = concat (map (to_bytes 4) h)"

definition server_check_matching_content :: "'f Abstract_File \<Rightarrow> 'n Channel \<Rightarrow> 'f Journal \<Rightarrow> Content_Check \<Rightarrow> int \<Rightarrow> int \<Rightarrow>
    'n Server_Client \<Rightarrow> 'n Server_Client result" where
  "server_check_matching_content F C j check from until s =
     (if check = Check_None \<or> from \<ge> until then Inr s
      else
        bind_result (if check = Check_Fast then get_fast_hash F (journal_file j) from until
                     else get_full_hash F (journal_file j) from until) (\<lambda>h.
        bind_result (channel_write C ((if check = Check_Fast then 72 else 73) # int64_bytes from @ int64_bytes until @ hash_bytes h)
                       (client_channel s)) (\<lambda>n1.
        bind_result (channel_read C 1 n1) (\<lambda>(bs, n2).
        if bs ! 0 = 104 then Inl content_mismatch else Inr (s\<lparr>client_channel := n2\<rparr>)))))"

definition server_handshake :: "'f Abstract_File \<Rightarrow> 'n Channel \<Rightarrow> 'f Journal \<Rightarrow> Content_Check \<Rightarrow> 'n Server_Client \<Rightarrow>
    (int \<times> 'n Server_Client) result" where
  "server_handshake F C j check s =
     bind_result (server_check_matching_content F C j check (int header_size) (min (server_checkpoint s) (checkpoint_position j)) s) (\<lambda>s'.
     Inr (server_checkpoint s', s'))"

definition pull_type :: "Lock_Action \<Rightarrow> Data_Transfer \<Rightarrow> byte" where
  "pull_type lock dt = 68 + (if lock = Lock_Before then 1 else 0) + 2 * (if dt = With_Data then 1 else 0)"

text \<open>The last argument of \<open>pull\<close> is \<open>wait\<close>, in milliseconds.\<close>

definition server_pull :: "'f Abstract_File \<Rightarrow> 'n Channel \<Rightarrow> Lock_Action \<Rightarrow> Data_Transfer \<Rightarrow> 'f Journal \<Rightarrow> int \<Rightarrow> 'n Server_Client \<Rightarrow>
    (int \<times> 'f Journal \<times> 'n Server_Client) result" where
  "server_pull F C lock dt j wait s =
     bind_result (channel_write C (pull_type lock dt # int64_bytes wait @ int64_bytes (checkpoint_position j)) (client_channel s)) (\<lambda>n1.
     bind_result (channel_read C 9 n1) (\<lambda>(bs, n2).
     if bs ! 0 = 82 then Inl (Exception ''pull error: server is pull-only, cannot lock'')
     else if bs ! 0 \<noteq> pull_type lock dt then Inl (Exception ''pull error: unexpected server reply'')
     else
       let p = read_int64 1 bs in
       if dt = With_Data then
         bind_result (download F C (p - checkpoint_position j) 0 (journal_file j) (checkpoint_position j) n2) (\<lambda>(f, position, n3).
         bind_result (soft_checkpoint_at F position (set_file f j)) (\<lambda>j'.
         Inr (p, j', s\<lparr>client_channel := n3, server_checkpoint := p\<rparr>)))
       else Inr (p, j, s\<lparr>client_channel := n2, server_checkpoint := p\<rparr>)))"

text \<open>The loop of \<open>push\<close>; \<open>prefix\<close> is what the buffer holds at first, the request.\<close>

lemma async_read_loop_current:
  "async_read_loop F f sz r = Inr (bs, r') \<Longrightarrow> reader_end r' = reader_end r \<and> reader_current r' = reader_current r + int (length bs) \<and>
     length bs \<le> sz \<and> (sz > 0 \<and> \<not> end_of_file r' \<longrightarrow> bs \<noteq> [])"
proof (induction F f sz r arbitrary: bs r' rule: async_read_loop.induct)
  case (1 F f sz r)
  show ?case
  proof (cases "sz = 0")
    case True
    then show ?thesis using 1(2) by (simp add: async_read_loop.simps)
  next
    case False
    then obtain xs where xs: "checked_pread F sz (reader_current r) f = Inr xs" using 1(2) by (auto simp: async_read_loop.simps [of F f sz])
    have len: "length xs \<le> sz" using checked_pread_length [OF xs] .
    show ?thesis
    proof (cases "xs = []")
      case True
      then show ?thesis using 1(2) False xs by (auto simp: async_read_loop.simps [of F f sz])
    next
      case ne: False
      then obtain rest where "async_read_loop F f (sz - length xs)
          (r\<lparr>end_of_file := False, reader_current := reader_current r + int (length xs)\<rparr>) = Inr (rest, r')" "bs = xs @ rest"
        using 1(2) False xs by (auto simp: async_read_loop.simps [of F f sz])
      with 1(1) [OF False xs ne, of rest r'] len ne show ?thesis by auto
    qed
  qed
qed

function push_data :: "'f Abstract_File \<Rightarrow> 'n Channel \<Rightarrow> 'f \<Rightarrow> byte list \<Rightarrow> Async_Reader \<Rightarrow> 'n \<Rightarrow> 'n result" where
  "push_data F C f prefix r n =
     (if int (length prefix) + get_remaining r > 0 then
        bind_result (async_read F f (session_buffer_size - length prefix) r) (\<lambda>(bs, r').
        if end_of_file r' then Inl (Exception ''push error: unexpected end of file'')
        else bind_result (channel_write C (prefix @ bs) n) (push_data F C f [] r'))
      else Inr n)"
  by pat_completeness auto
termination
proof (relation "measure (\<lambda>(F, C, f, prefix, r, n). length prefix + nat (get_remaining r))")
  fix F :: "'f Abstract_File" and C :: "'n Channel" and f prefix r n x bs r' n'
  assume pos: "int (length prefix) + get_remaining r > 0" and r: "async_read F f (session_buffer_size - length prefix) r = Inr x"
    and x: "(bs, r') = x" and eof: "\<not> end_of_file r'"
  have "get_remaining r' = get_remaining r - int (length bs)" "length bs \<le> nat (get_remaining r)"
    "prefix = [] \<longrightarrow> get_remaining r > 0 \<longrightarrow> bs \<noteq> []"
    using async_read_loop_current [of F f _ r bs r'] r x eof by (fastforce simp: async_read_def get_remaining_def)+
  then show "((F, C, f, [], r', n'), F, C, f, prefix, r, n) \<in> measure (\<lambda>(F, C, f, prefix, r, n). length prefix + nat (get_remaining r))"
    using pos by (cases prefix; cases bs) auto
qed simp

declare push_data.simps [simp del]

definition push_type :: "Unlock_Action \<Rightarrow> byte" where
  "push_type action = 78 + (if action = Unlock_After then 1 else 0)"

definition server_push :: "'f Abstract_File \<Rightarrow> 'n Channel \<Rightarrow> 'f Journal \<Rightarrow> int \<Rightarrow> int \<Rightarrow> Unlock_Action \<Rightarrow> 'n Server_Client \<Rightarrow>
    (int \<times> 'n Server_Client) result" where
  "server_push F C j from until action s =
     bind_result (push_data F C (journal_file j) (push_type action # int64_bytes from @ int64_bytes until)
                    (async_reader_new from until) (client_channel s)) (\<lambda>n1.
     bind_result (channel_read C 1 n1) (\<lambda>(bs, n2).
     if bs ! 0 = 82 then Inl (Exception ''push error: server is pull-only'')
     else if bs ! 0 = 67 then Inl (Exception ''push error: conflict'')
     else if bs ! 0 = 116 then Inl (Exception ''push error: time out'')
     else if bs ! 0 \<noteq> push_type action then Inl (Exception ''push error: unexpected reply'')
     else Inr (until, s\<lparr>client_channel := n2, server_checkpoint := until\<rparr>)))"

definition server_unlock :: "'n Channel \<Rightarrow> 'n Server_Client \<Rightarrow> 'n Server_Client result" where
  "server_unlock C s =
     bind_result (channel_write C [77] (client_channel s)) (\<lambda>n1.
     bind_result (channel_read C 1 n1) (\<lambda>(bs, n2).
     if bs ! 0 \<noteq> 77 then Inl (Exception ''unlock error: unexpected reply'') else Inr (s\<lparr>client_channel := n2\<rparr>)))"

text \<open>The connection as clients see it; \<open>pull\<close> is called without \<open>wait\<close>.\<close>

definition remote_connection :: "'f Abstract_File \<Rightarrow> 'n Channel \<Rightarrow> bool \<Rightarrow> ('n Server_Client, 'f) Connection" where
  "remote_connection F C pullonly =
     \<lparr>handshake = server_handshake F C,
      check_matching_content = server_check_matching_content F C,
      connection_pull = (\<lambda>lock dt j s. Some (server_pull F C lock dt j 0 s)),
      connection_push = (\<lambda>j from until action s. Some (server_push F C j from until action s)),
      connection_unlock = server_unlock C,
      is_pullonly = pullonly\<rparr>"

end
