(* ===== verification/Server_Proofs.thy ===== *)
theory Server_Proofs
  imports Server
begin

text \<open>
  The invariant of the lock of a server: at most one session holds it, the sessions that wait for it
  are those of the queue, and when nobody holds it the front of the queue has been woken. It is
  preserved by every step, for any file and any connection of the client of the server.
\<close>

section \<open>How steps end\<close>

text \<open>
  \<open>served P T r\<close>: the step makes no use of a dangling pointer; it ends in a state with \<open>P\<close>, or throws an
  exception of the session in a state with \<open>T\<close>.
\<close>

definition served :: "('s \<Rightarrow> bool) \<Rightarrow> ('s \<Rightarrow> bool) \<Rightarrow> 's served \<Rightarrow> bool" where
  "served P T r = (case r of Next bs v \<Rightarrow> P v | Throw e v \<Rightarrow> T v | Undefined \<Rightarrow> False | _ \<Rightarrow> True)"

lemma served_simps [simp]:
  "served P T (Next bs v) = P v"
  "served P T (Throw e v) = T v"
  "served P T (Failed e)"
  "served P T Never"
  "\<not> served P T Undefined"
  by (simp_all add: served_def)

lemma and_then_Next [simp]:
  "and_then (Next [] v) g = g v"
  "and_then (Throw e v) g = Throw e v"
  "and_then (Failed e) g = Failed e"
  "and_then Undefined g = Undefined"
  "and_then Never g = Never"
  by (auto simp: and_then_def split: served.split)

lemma served_and_then:
  "served P T x \<Longrightarrow> (\<And>v. P v \<Longrightarrow> served Q T (g v)) \<Longrightarrow> served Q T (and_then x g)"
proof (cases x)
  case (Next bs v)
  assume "served P T x" and g: "\<And>v. P v \<Longrightarrow> served Q T (g v)"
  then have "served Q T (g v)" using Next by simp
  then show ?thesis using Next by (cases "g v") (simp_all add: and_then_def)
qed simp_all

lemma served_from_outcome: "(\<And>x. r = Some (Inr x) \<Longrightarrow> served P T (g x)) \<Longrightarrow> served P T (from_outcome r g)"
  by (auto simp: from_outcome_def split: option.split sum.split)

lemma served_with_session:
  "sessions v i = Some s \<Longrightarrow> served P T (g s) \<Longrightarrow> served P T (with_session i v g)"
  by (simp add: with_session_def)

lemma served_mono: "served P T r \<Longrightarrow> (\<And>v. P v \<Longrightarrow> Q v) \<Longrightarrow> (\<And>v. T v \<Longrightarrow> U v) \<Longrightarrow> served Q U r"
  by (cases r) auto

section \<open>The invariant\<close>

fun waits_lock :: "session_phase \<Rightarrow> bool" where
  "waits_lock (Waiting_Lock dt p) = True"
| "waits_lock _ = False"

fun waits_data :: "session_phase \<Rightarrow> bool" where
  "waits_data (Waiting_Data lk dt p) = True"
| "waits_data _ = False"

definition lock_inv :: "nat option \<Rightarrow> ('f, 'd, 'c) Server \<Rightarrow> bool" where
  "lock_inv h v \<longleftrightarrow>
     (\<forall>i. h = Some i \<longrightarrow> sessions v i \<noteq> None) \<and>
     (\<forall>i s. sessions v i = Some s \<longrightarrow> session_locking s = (h = Some i) \<and> i < session_id v \<and>
        (waits_lock (phase s) \<longrightarrow> h \<noteq> Some i \<and> woken s = (h = None \<and> hd (lock_waiters v) = i))) \<and>
     is_locked v = (h \<noteq> None \<or> lock_waiters v \<noteq> []) \<and>
     distinct (lock_waiters v) \<and> distinct (pull_waiters v) \<and>
     (\<forall>i. i \<in> set (lock_waiters v) \<longleftrightarrow> (\<exists>s. sessions v i = Some s \<and> waits_lock (phase s))) \<and>
     (\<forall>i\<in>set (pull_waiters v). \<exists>s. sessions v i = Some s \<and> waits_data (phase s))"

text \<open>While session \<open>i\<close> runs.\<close>

definition runs :: "nat \<Rightarrow> nat option \<Rightarrow> ('f, 'd, 'c) Server \<Rightarrow> bool" where
  "runs i h v \<longleftrightarrow> lock_inv h v \<and> (\<exists>s. sessions v i = Some s \<and> phase s = Running)"

text \<open>When all sessions are suspended, and when the running one is about to be destroyed by an exception.\<close>

definition idle :: "('f, 'd, 'c) Server \<Rightarrow> bool" where
  "idle v \<longleftrightarrow> (\<exists>h. lock_inv h v)"

definition thrown :: "nat \<Rightarrow> ('f, 'd, 'c) Server \<Rightarrow> bool" where
  "thrown i v \<longleftrightarrow> (\<exists>h. runs i h v)"

lemma lock_inv_client [simp]:
  "lock_inv h (v\<lparr>server_client := cl\<rparr>) = lock_inv h v"
  "lock_inv h (v\<lparr>server_connection := c\<rparr>) = lock_inv h v"
  "lock_inv h (v\<lparr>client_lock := b\<rparr>) = lock_inv h v"
  by (simp_all add: lock_inv_def)

lemma runs_client [simp]:
  "runs i h (v\<lparr>server_client := cl\<rparr>) = runs i h v"
  "runs i h (v\<lparr>server_connection := c\<rparr>) = runs i h v"
  "runs i h (v\<lparr>client_lock := b\<rparr>) = runs i h v"
  by (simp_all add: runs_def)

lemma put_session_simps [simp]:
  "sessions (put_session i s v) = (sessions v)(i \<mapsto> s)"
  "lock_waiters (put_session i s v) = lock_waiters v"
  "pull_waiters (put_session i s v) = pull_waiters v"
  "is_locked (put_session i s v) = is_locked v"
  "session_id (put_session i s v) = session_id v"
  "server_client (put_session i s v) = server_client v"
  "server_connection (put_session i s v) = server_connection v"
  "client_lock (put_session i s v) = client_lock v"
  "is_writable (put_session i s v) = is_writable v"
  "lock_timeout (put_session i s v) = lock_timeout v"
  by (simp_all add: put_session_def)

text \<open>A change of a session that neither waits before nor after.\<close>

lemma lock_inv_put:
  assumes "lock_inv h v" and "sessions v i = Some s" and "session_locking s' = session_locking s"
    and "\<not> waits_lock (phase s)" and "\<not> waits_lock (phase s')" and "waits_data (phase s) \<longrightarrow> waits_data (phase s')"
  shows "lock_inv h (put_session i s' v)"
  using assms unfolding lock_inv_def put_session_simps by (auto 4 3)

lemma runs_put:
  assumes "runs i h v" and "sessions v i = Some s" and "session_locking s' = session_locking s" and "phase s' = Running"
  shows "runs i h (put_session i s' v)"
  using assms lock_inv_put [of h v i s s'] by (auto simp: runs_def)

lemma runsE:
  assumes "runs i h v"
  obtains s where "sessions v i = Some s" and "phase s = Running" and "session_locking s = (h = Some i)"
  using assms by (auto simp: runs_def lock_inv_def)

lemma runs_locked: "runs i h v \<Longrightarrow> is_locked v = (h \<noteq> None \<or> lock_waiters v \<noteq> [])"
  by (simp add: runs_def lock_inv_def)

text \<open>A running session does not wait for data, so that waking those that do does not change it.\<close>

lemma runs_pull_waiters: "runs i h v \<Longrightarrow> i \<notin> set (pull_waiters v)"
  by (auto simp: runs_def lock_inv_def)

section \<open>Operations\<close>

text \<open>Waking the sessions that wait for data.\<close>

lemma cancel_data_timer:
  assumes "lock_inv h v" and "sessions v w = Some s" and "waits_data (phase s)"
  shows "cancel_timer w v = Next [] (put_session w (s\<lparr>woken := True\<rparr>) v)"
    and "lock_inv h (put_session w (s\<lparr>woken := True\<rparr>) v)"
proof -
  obtain lk dt p where "phase s = Waiting_Data lk dt p" using assms(3) by (cases "phase s") auto
  then show "cancel_timer w v = Next [] (put_session w (s\<lparr>woken := True\<rparr>) v)"
    using assms(2) by (simp add: cancel_timer_def with_session_def)
  show "lock_inv h (put_session w (s\<lparr>woken := True\<rparr>) v)"
    by (rule lock_inv_put [OF assms(1,2)]) (use assms(3) in \<open>cases "phase s"; simp\<close>)+
qed

lemma cancel_timers_runs:
  assumes "runs i h v" and "\<forall>w\<in>set ws. \<exists>s. sessions v w = Some s \<and> waits_data (phase s)"
  shows "\<exists>v'. cancel_timers ws v = Next [] v' \<and> runs i h v' \<and> pull_waiters v' = pull_waiters v"
  using assms
proof (induction ws arbitrary: v)
  case (Cons w ws)
  obtain s where s: "sessions v w = Some s" "waits_data (phase s)" using Cons.prems(2) by auto
  let ?v = "put_session w (s\<lparr>woken := True\<rparr>) v"
  have inv: "lock_inv h v" using Cons.prems(1) by (simp add: runs_def)
  have "i \<noteq> w" using Cons.prems(1) s by (auto simp: runs_def)
  then have "runs i h ?v" using cancel_data_timer(2) [OF inv s] Cons.prems(1) by (auto simp: runs_def)
  moreover have "\<forall>x\<in>set ws. \<exists>t. sessions ?v x = Some t \<and> waits_data (phase t)" using Cons.prems(2) s(2) by simp
  ultimately show ?case using Cons.IH [of ?v] cancel_data_timer(1) [OF inv s] by simp
qed simp

text \<open>The lock is released, or passed on to the front of the queue.\<close>

lemma lock_inv_release:
  assumes "lock_inv (Some i) v" and "sessions v i = Some s" and "lock_waiters v = []"
  shows "lock_inv None ((put_session i (s\<lparr>session_locking := False\<rparr>) v)\<lparr>is_locked := False\<rparr>)"
  using assms unfolding lock_inv_def by (auto 4 3)

lemma lock_inv_pass:
  assumes "lock_inv (Some i) v" and "sessions v i = Some s" and "lock_waiters v = w # ws"
  obtains t where "sessions v w = Some t" and "waits_lock (phase t)" and "w \<noteq> i"
    and "lock_inv None (put_session w (t\<lparr>woken := True\<rparr>) (put_session i (s\<lparr>session_locking := False\<rparr>) v))"
proof -
  have "w \<in> set (lock_waiters v)" using assms(3) by simp
  then obtain t where t: "sessions v w = Some t" "waits_lock (phase t)" using assms(1) by (auto simp: lock_inv_def)
  moreover from this have "w \<noteq> i" using assms(1) by (auto simp: lock_inv_def)
  moreover have "lock_inv None (put_session w (t\<lparr>woken := True\<rparr>) (put_session i (s\<lparr>session_locking := False\<rparr>) v))"
    using assms t \<open>w \<noteq> i\<close> unfolding lock_inv_def put_session_simps by (auto 4 3)
  ultimately show ?thesis using that by blast
qed

definition released :: "nat \<Rightarrow> nat option \<Rightarrow> nat option" where
  "released i h = (if h = Some i then None else h)"

lemma session_unlock_served:
  assumes "lock_inv h v" and "sessions v i = Some s"
  shows "served (\<lambda>v'. lock_inv (released i h) v' \<and> sessions v' i = Some (s\<lparr>session_locking := False\<rparr>)) T (session_unlock E i v)"
proof (cases "h = Some i")
  case True
  then have lk: "session_locking s" using assms by (simp add: lock_inv_def)
  show ?thesis
  proof (cases "lock_waiters v")
    case Nil
    let ?v = "(put_session i (s\<lparr>session_locking := False\<rparr>) v)\<lparr>is_locked := False\<rparr>"
    have "lock_inv None ?v" by (rule lock_inv_release) (use assms True Nil in simp_all)
    then show ?thesis
      using True Nil lk assms(2)
      by (auto simp: session_unlock_def with_session_def released_def unlock_client_def Let_def
          intro!: served_from_outcome split: option.split prod.split)
  next
    case (Cons w ws)
    obtain t where t: "sessions v w = Some t" "waits_lock (phase t)" "w \<noteq> i"
      "lock_inv None (put_session w (t\<lparr>woken := True\<rparr>) (put_session i (s\<lparr>session_locking := False\<rparr>) v))"
      by (rule lock_inv_pass [OF _ assms(2) Cons]) (use assms(1) True in simp)
    obtain dt p where "phase t = Waiting_Lock dt p" using t(2) by (cases "phase t") auto
    then show ?thesis
      using True Cons lk assms(2) t by (simp add: session_unlock_def with_session_def cancel_timer_def released_def)
  qed
next
  case False
  then have "\<not> session_locking s" using assms by (simp add: lock_inv_def)
  then show ?thesis using False assms by (simp add: session_unlock_def with_session_def released_def)
qed

lemma set_phase_holds:
  assumes "runs i h v" and "\<not> waits_lock ph"
  shows "served (lock_inv h) T (set_phase i ph v)"
proof -
  obtain s where s: "sessions v i = Some s" "phase s = Running" by (rule runsE [OF assms(1)])
  have "lock_inv h (put_session i (s\<lparr>phase := ph, woken := False\<rparr>) v)"
    by (rule lock_inv_put [OF _ s(1)]) (use assms s(2) in \<open>simp_all add: runs_def\<close>)
  then show ?thesis using s(1) by (simp add: set_phase_def with_session_def)
qed

lemma set_phase_served: "runs i h v \<Longrightarrow> \<not> waits_lock ph \<Longrightarrow> served idle T (set_phase i ph v)"
  by (rule served_mono [OF set_phase_holds]) (auto simp: idle_def)

lemma reply_served: "runs i h v \<Longrightarrow> served idle T (reply i bs v)"
  unfolding reply_def by (rule served_and_then, rule set_phase_served) simp_all

text \<open>Entering the queues.\<close>

lemma wait_lock_served:
  assumes "runs i h v" and "is_locked v" and "h \<noteq> Some i"
  shows "served idle T (set_phase i (Waiting_Lock dt p) (v\<lparr>lock_waiters := lock_waiters v @ [i]\<rparr>))"
proof -
  obtain s where s: "sessions v i = Some s" "phase s = Running" by (rule runsE [OF assms(1)])
  have inv: "lock_inv h v" using assms(1) by (simp add: runs_def)
  have "i \<notin> set (lock_waiters v)" using inv s by (auto simp: lock_inv_def)
  moreover have "h = None \<Longrightarrow> lock_waiters v \<noteq> []" using inv assms(2) by (auto simp: lock_inv_def)
  moreover from this have "h = None \<Longrightarrow> hd (lock_waiters v @ [i]) = hd (lock_waiters v)" by simp
  moreover have "h = None \<Longrightarrow> hd (lock_waiters v) \<noteq> i" using calculation by (metis hd_in_set)
  ultimately have "lock_inv h (put_session i (s\<lparr>phase := Waiting_Lock dt p, woken := False\<rparr>) (v\<lparr>lock_waiters := lock_waiters v @ [i]\<rparr>))"
    using inv s assms(2,3) unfolding lock_inv_def put_session_simps by (auto 4 3)
  then show ?thesis using s(1) by (auto simp: set_phase_def with_session_def idle_def)
qed

lemma wait_data_served:
  assumes "runs i h v"
  shows "served idle T (set_phase i (Waiting_Data lk dt p) (v\<lparr>pull_waiters := pull_waiters v @ [i]\<rparr>))"
proof -
  obtain s where s: "sessions v i = Some s" "phase s = Running" by (rule runsE [OF assms(1)])
  have inv: "lock_inv h v" using assms(1) by (simp add: runs_def)
  have "lock_inv h (put_session i (s\<lparr>phase := Waiting_Data lk dt p, woken := False\<rparr>) (v\<lparr>pull_waiters := pull_waiters v @ [i]\<rparr>))"
    using inv s runs_pull_waiters [OF assms] unfolding lock_inv_def put_session_simps by (auto 4 3)
  then show ?thesis using s(1) by (auto simp: set_phase_def with_session_def idle_def)
qed

lemma send_some_holds:
  assumes "runs i h v"
  shows "served (lock_inv h) (runs i h) (send_some E i prefix r v)"
  using assms set_phase_holds [OF assms]
  by (auto simp: send_some_def intro!: served_and_then [where P = "lock_inv h"] split: sum.split prod.split)

lemma send_some_served: "runs i h v \<Longrightarrow> served idle (thrown i) (send_some E i prefix r v)"
  by (rule served_mono [OF send_some_holds]) (auto simp: idle_def thrown_def)

lemma send_holds: "runs i h v \<Longrightarrow> served (lock_inv h) (runs i h) (send E i r v)"
  using runsE by (metis send_def send_some_holds served_with_session)

lemma send_served: "runs i h v \<Longrightarrow> served idle (thrown i) (send E i r v)"
  by (rule served_mono [OF send_holds]) (auto simp: idle_def thrown_def)

text \<open>Taking the lock.\<close>

lemma take_lock_served:
  assumes "lock_inv (Some i) (put_session i (s\<lparr>session_locking := True\<rparr>) (v\<lparr>is_locked := True\<rparr>))"
    and "sessions v i = Some s" and "phase s = Running"
  shows "served (runs i (Some i)) T (take_lock E i v)"
proof -
  let ?v = "put_session i (s\<lparr>session_locking := True\<rparr>) (v\<lparr>is_locked := True\<rparr>)"
  have r: "runs i (Some i) ?v" using assms by (simp add: runs_def)
  then have "runs i (Some i) (put_session i (s\<lparr>session_locking := True, first_byte := x\<rparr>) ?v)" for x
    by (rule runs_put [where s = "s\<lparr>session_locking := True\<rparr>"]) (use assms(3) in simp_all)
  then show ?thesis
    using r assms(2)
    by (auto simp: take_lock_def with_session_def Let_def intro!: served_from_outcome split: Ending.split)
qed

lemma take_free_lock:
  assumes "runs i h v" and "\<not> is_locked v"
  shows "served (runs i (Some i)) T (take_lock E i v)"
proof -
  obtain s where s: "sessions v i = Some s" "phase s = Running" by (rule runsE [OF assms(1)])
  have inv: "lock_inv h v" using assms(1) by (simp add: runs_def)
  then have "h = None" "lock_waiters v = []" using assms(2) by (auto simp: lock_inv_def)
  then have "lock_inv (Some i) (put_session i (s\<lparr>session_locking := True\<rparr>) (v\<lparr>is_locked := True\<rparr>))"
    using inv s unfolding lock_inv_def put_session_simps by (auto 4 3)
  then show ?thesis by (rule take_lock_served [OF _ s])
qed

lemma pull_send_holds: "runs i h v \<Longrightarrow> served (lock_inv h) (runs i h) (pull_send E i dt p v)"
  by (simp add: pull_send_def send_holds Let_def)

lemma pull_send_served: "runs i h v \<Longrightarrow> served idle (thrown i) (pull_send E i dt p v)"
  by (simp add: pull_send_def send_served Let_def)

lemma pull_lock_served:
  assumes "runs i h v"
  shows "served idle (thrown i) (pull_lock E i lk dt p v)"
proof -
  obtain s where s: "sessions v i = Some s" "session_locking s = (h = Some i)" by (rule runsE [OF assms])
  show ?thesis
    unfolding pull_lock_def
  proof (rule served_with_session [OF s(1)])
    show "served idle (thrown i)
      (if \<not> lk then pull_send E i dt p v else if session_locking s then Throw already_locked v
       else if \<not> is_locked v then and_then (take_lock E i v) (pull_send E i dt p)
       else set_phase i (Waiting_Lock dt p) (v\<lparr>lock_waiters := lock_waiters v @ [i]\<rparr>))"
      using assms s(2) pull_send_served [OF assms] wait_lock_served [OF assms]
        served_and_then [OF take_free_lock [OF assms] pull_send_served]
      by (auto simp: thrown_def)
  qed
qed

lemma pull_client_served: "runs i h v \<Longrightarrow> served (runs i h) T (pull_client E v)"
  by (auto simp: pull_client_def intro!: served_from_outcome split: prod.split)

lemma pull_request_served:
  assumes "runs i h v"
  shows "served idle (thrown i) (pull_request E i lk dt bs v)"
  unfolding pull_request_def Let_def
  by (rule served_and_then [where P = "runs i h"])
    (use assms in \<open>auto intro: pull_client_served pull_lock_served wait_data_served\<close>)

text \<open>Leaving the queues.\<close>

lemma data_waited_served:
  assumes "lock_inv h v" and "sessions v i = Some s" and "waits_data (phase s)"
  shows "served idle (thrown i) (data_waited E i lk dt p (put_session i (s\<lparr>phase := Running\<rparr>) v))"
proof -
  have "\<not> waits_lock (phase s)" using assms(3) by (cases "phase s") simp_all
  then have "runs i h ((put_session i (s\<lparr>phase := Running\<rparr>) v)\<lparr>pull_waiters := remove1 i (pull_waiters v)\<rparr>)"
    using assms unfolding runs_def lock_inv_def put_session_simps by (auto 4 3)
  then show ?thesis unfolding data_waited_def by (intro pull_lock_served) (simp add: remove_from_queue_def)
qed

lemma lock_waited_holds:
  assumes "lock_inv h v" and "sessions v i = Some s" and "waits_lock (phase s)" and "woken s"
  shows "served (lock_inv (Some i)) (runs i (Some i)) (lock_waited E i dt p (put_session i (s\<lparr>phase := Running\<rparr>) v))"
proof -
  let ?s = "s\<lparr>phase := Running\<rparr>"
  have front: "h = None" "hd (lock_waiters v) = i" "i \<in> set (lock_waiters v)" using assms by (auto simp: lock_inv_def)
  then obtain ws where ws: "lock_waiters v = i # ws" by (cases "lock_waiters v") auto
  have "\<not> waits_data (phase s)" using assms(3) by (cases "phase s") simp_all
  then have "i \<notin> set (pull_waiters v)" using assms(1,2) by (auto simp: lock_inv_def)
  let ?v = "(put_session i ?s v)\<lparr>lock_waiters := ws\<rparr>"
  have "lock_inv (Some i) (put_session i (?s\<lparr>session_locking := True\<rparr>) (?v\<lparr>is_locked := True\<rparr>))"
    using assms front ws \<open>i \<notin> set (pull_waiters v)\<close> unfolding lock_inv_def put_session_simps by (auto 4 3)
  then have "served (runs i (Some i)) (runs i (Some i)) (take_lock E i ?v)" by (rule take_lock_served) simp_all
  then show ?thesis
    unfolding lock_waited_def put_session_simps ws by (simp add: served_and_then [OF _ pull_send_holds])
qed

lemma lock_waited_served:
  assumes "lock_inv h v" and "sessions v i = Some s" and "waits_lock (phase s)" and "woken s"
  shows "served idle (thrown i) (lock_waited E i dt p (put_session i (s\<lparr>phase := Running\<rparr>) v))"
  by (rule served_mono [OF lock_waited_holds [OF assms]]) (auto simp: idle_def thrown_def)

section \<open>Push\<close>

lemma session_unlock_runs:
  assumes "runs i h v"
  shows "served (runs i (released i h)) T (session_unlock E i v)"
proof -
  obtain s where s: "sessions v i = Some s" "phase s = Running" by (rule runsE [OF assms])
  from assms have "lock_inv h v" by (simp add: runs_def)
  from session_unlock_served [OF this s(1)] show ?thesis by (rule served_mono) (use s(2) in \<open>simp_all add: runs_def\<close>)
qed

lemma commit_push_served: "runs i h v \<Longrightarrow> served (runs i h) T (commit_push E b p ua v)"
  by (auto simp: commit_push_def Let_def intro!: served_from_outcome split: prod.split)

lemma runs_clear_pull_waiters: "runs i h v \<Longrightarrow> runs i h (v\<lparr>pull_waiters := []\<rparr>)"
  by (simp add: runs_def lock_inv_def)

lemma wake_and_reply_served:
  assumes "runs i h v"
  shows "served idle T (and_then (cancel_timers (pull_waiters v) v) (\<lambda>v.
     let v' = v\<lparr>pull_waiters := []\<rparr> in
     with_session i v' (\<lambda>s'. reply i [push_status s'] (put_session i (s'\<lparr>first_byte := push_status s'\<rparr>) v'))))"
proof -
  have "\<forall>w\<in>set (pull_waiters v). \<exists>s. sessions v w = Some s \<and> waits_data (phase s)" using assms by (simp add: runs_def lock_inv_def)
  then obtain v' where v': "cancel_timers (pull_waiters v) v = Next [] v'" "runs i h v'" using cancel_timers_runs [OF assms] by blast
  have r: "runs i h (v'\<lparr>pull_waiters := []\<rparr>)" by (rule runs_clear_pull_waiters [OF v'(2)])
  obtain s where s: "sessions (v'\<lparr>pull_waiters := []\<rparr>) i = Some s" "phase s = Running" by (rule runsE [OF r])
  have "runs i h (put_session i (s\<lparr>first_byte := push_status s\<rparr>) (v'\<lparr>pull_waiters := []\<rparr>))"
    by (rule runs_put [OF r s(1)]) (use s(2) in simp_all)
  then show ?thesis using s(1) unfolding v'(1) by (simp add: with_session_def reply_served)
qed

lemma push_finish_served:
  assumes "runs i h v"
  shows "served idle T (push_finish E i ua p q v)"
proof -
  obtain s where s: "sessions v i = Some s" "phase s = Running" "session_locking s = (h = Some i)" by (rule runsE [OF assms])
  have reset: "runs i h (put_session i (s\<lparr>push_writer := None\<rparr>) v')" if r: "runs i h v'" for v' :: "('a, 'b, 'c) Server"
  proof -
    obtain s' where "sessions v' i = Some s'" "session_locking s' = (h = Some i)" by (rule runsE [OF r])
    then show ?thesis using runs_put [OF r] s(2,3) by simp
  qed
  have fin: "served idle T (and_then (if ua then session_unlock E i v' else Next [] v') (\<lambda>v.
      and_then (cancel_timers (pull_waiters v) v) (\<lambda>v. let v' = v\<lparr>pull_waiters := []\<rparr> in
      with_session i v' (\<lambda>s'. reply i [push_status s'] (put_session i (s'\<lparr>first_byte := push_status s'\<rparr>) v')))))"
    if "runs i h v'" for v' :: "('a, 'b, 'c) Server"
    by (rule served_and_then [where P = "\<lambda>v. \<exists>h. runs i h v"])
      (use that session_unlock_runs [OF that] wake_and_reply_served in \<open>auto intro: served_mono\<close>)
  show ?thesis
    unfolding push_finish_def
  proof (rule served_with_session [OF s(1)], rule served_and_then [where P = "runs i h"])
    show "served (runs i h) T (case (push_writer s, client_lock v) of
        (Some p', Some b) \<Rightarrow> if q > p then commit_push E b p' ua v else Next [] v | _ \<Rightarrow> Next [] v)"
      using assms by (auto intro: commit_push_served split: option.split)
  qed (simp add: fin reset)
qed

lemma push_loop_served:
  "runs i h v \<Longrightarrow> served idle (thrown i) (push_loop E i ua p q n v)"
  by (simp add: push_loop_def set_phase_served push_finish_served)

lemma push_request_served:
  assumes "runs i h v"
  shows "served idle (thrown i) (push_request E i ua bs v)"
proof -
  obtain s where s: "sessions v i = Some s" "session_locking s = (h = Some i)" by (rule runsE [OF assms])
  have loop: "served idle (thrown i) (with_session i v' (\<lambda>s.
       let conflict = (\<not> session_locking s \<or> p \<noteq> server_checkpoint_position v');
           status = (if \<not> is_writable v' then 82 else if conflict then 67 else first_byte s);
           writer = (if is_writable v' \<and> \<not> conflict \<and> client_lock v' \<noteq> None then Some (server_checkpoint_position v') else None)
       in if writer \<noteq> None \<and> client_lock v' = Some False then Failed Assertion_Failure
          else push_loop E i ua p q n (put_session i (s\<lparr>push_status := status, push_writer := writer\<rparr>) v')))"
    if r: "runs i h' v'" for v' :: "('a, 'b, 'c) Server" and h' p q n
  proof -
    obtain s' where s': "sessions v' i = Some s'" "phase s' = Running" by (rule runsE [OF r])
    have "runs i h' (put_session i (s'\<lparr>push_status := x, push_writer := y\<rparr>) v')" for x y
      by (rule runs_put [OF r s'(1)]) (use s'(2) in simp_all)
    then have "served idle (thrown i) (push_loop E i ua p' q n (put_session i (s'\<lparr>push_status := x, push_writer := y\<rparr>) v'))" for x y p'
      by (rule push_loop_served)
    then show ?thesis using s'(1) by (simp add: with_session_def Let_def)
  qed
  show ?thesis
    unfolding push_request_def Let_def [of "read_int64 _ _"]
  proof (rule served_with_session [OF s(1)], unfold if_split, intro conjI impI, goal_cases)
    case 1 then show ?case using assms by (auto simp: thrown_def)
  next
    case 2
    show ?case
      by (rule served_and_then [where P = "\<lambda>v. \<exists>h. runs i h v"])
        (use assms take_free_lock [OF assms] loop in \<open>auto simp: thrown_def intro: served_mono\<close>)
  qed
qed

lemma push_receive_served:
  assumes "runs i h v"
  shows "served idle (thrown i) (push_receive E i ua p q n bs v)"
proof -
  obtain s where s: "sessions v i = Some s" "phase s = Running" by (rule runsE [OF assms])
  have "runs i h (put_session i (s\<lparr>push_writer := w\<rparr>) (v\<lparr>server_client := cl\<rparr>))" for w cl
    by (rule runs_put [where s = s]) (use assms s in simp_all)
  then have "served (runs i h) (thrown i) (case push_writer s of
       None \<Rightarrow> Next [] v
     | Some p \<Rightarrow>
         from_outcome (Some (async_write (env_file E) bs (journal_file (server_journal v)) p)) (\<lambda>(f, p').
         Next [] (put_session i (s\<lparr>push_writer := Some p'\<rparr>)
           (v\<lparr>server_client := (server_client v)\<lparr>client_journal := set_file f (server_journal v)\<rparr>\<rparr>))))"
    using assms by (auto intro!: served_from_outcome split: option.split prod.split)
  from served_and_then [OF this push_loop_served] show ?thesis
    unfolding push_receive_def by (rule served_with_session [OF s(1)])
qed

section \<open>Steps\<close>

lemma handshake_reply_served:
  assumes "runs i h v"
  shows "served idle (thrown i) (handshake_reply E i bs v)"
proof -
  obtain s where s: "sessions v i = Some s" "phase s = Running" by (rule runsE [OF assms])
  have "runs i h (put_session i (s\<lparr>first_byte := bs ! 0\<rparr>) v)" by (rule runs_put [OF assms s(1)]) (use s(2) in simp_all)
  then show ?thesis using s(1) by (auto simp: handshake_reply_def with_session_def Let_def thrown_def intro: reply_served)
qed

lemma check_hash_served:
  assumes "runs i h v"
  shows "served idle (thrown i) (check_hash E i bs v)"
proof -
  obtain s where s: "sessions v i = Some s" "phase s = Running" by (rule runsE [OF assms])
  have "runs i h (put_session i (s\<lparr>first_byte := x\<rparr>) v)" for x by (rule runs_put [OF assms s(1)]) (use s(2) in simp_all)
  then show ?thesis
    using s(1) assms by (auto simp: check_hash_def with_session_def Let_def thrown_def intro: reply_served split: sum.split)
qed

lemma lock_inv_remove:
  assumes "lock_inv h v" and "h \<noteq> Some i" and "sessions v i = Some s" and "phase s = Running"
  shows "lock_inv h (v\<lparr>lock_waiters := remove_from_queue i (lock_waiters v), pull_waiters := remove_from_queue i (pull_waiters v),
           sessions := (sessions v)(i := None)\<rparr>)"
proof -
  have "i \<notin> set (lock_waiters v)" "i \<notin> set (pull_waiters v)" using assms by (auto simp: lock_inv_def)
  then show ?thesis using assms unfolding lock_inv_def remove_from_queue_def by (auto simp: remove1_idem)
qed

lemma end_session_served:
  assumes "runs i h v"
  shows "served idle T (end_session E i v)"
  unfolding end_session_def
proof (rule served_and_then [OF session_unlock_runs [OF assms]], unfold served_simps)
  fix v' :: "('a, 'b, 'c) Server" assume r: "runs i (released i h) v'"
  obtain s where "sessions v' i = Some s" "phase s = Running" by (rule runsE [OF r])
  then have "lock_inv (released i h) (v'\<lparr>lock_waiters := remove_from_queue i (lock_waiters v'),
      pull_waiters := remove_from_queue i (pull_waiters v'), sessions := (sessions v')(i := None)\<rparr>)"
    using r by (intro lock_inv_remove) (simp_all add: runs_def released_def)
  then show "idle (v'\<lparr>lock_waiters := remove_from_queue i (lock_waiters v'),
      pull_waiters := remove_from_queue i (pull_waiters v'), sessions := (sessions v')(i := None)\<rparr>)"
    by (auto simp: idle_def)
qed

lemma dispatch_served:
  assumes "runs i h v"
  shows "served idle (thrown i) (dispatch E i code v)"
proof -
  obtain s where s: "sessions v i = Some s" "phase s = Running" by (rule runsE [OF assms])
  have r: "runs i h (put_session i (s\<lparr>first_byte := code\<rparr>) v)" by (rule runs_put [OF assms s(1)]) (use s(2) in simp_all)
  have "served idle (thrown i) (and_then (session_unlock E i (put_session i (s\<lparr>first_byte := code\<rparr>) v)) (reply i [code]))"
    by (rule served_and_then [OF session_unlock_runs [OF r] reply_served])
  then show ?thesis
    using s(1) end_session_served [OF r] set_phase_served [OF r] by (auto simp: dispatch_def with_session_def Let_def)
qed

lemma session_unlock_idle:
  "lock_inv h v \<Longrightarrow> sessions v i = Some s \<Longrightarrow> served idle T (session_unlock E i v)"
  by (erule (1) served_mono [OF session_unlock_served]) (auto simp: idle_def)

lemma on_timeout_served:
  assumes "lock_inv h v" and "sessions v i = Some s"
  shows "served idle T (on_timeout E i v)"
proof -
  let ?s = "s\<lparr>push_writer := None, push_status := 116\<rparr>"
  have "lock_inv h (put_session i ?s v)" using assms unfolding lock_inv_def put_session_simps by (auto 4 3)
  then have "served idle T (session_unlock E i (put_session i ?s v))" by (rule session_unlock_idle) simp
  then show ?thesis using assms session_unlock_idle by (auto simp: on_timeout_def with_session_def)
qed

lemma lock_inv_resume:
  assumes "lock_inv h v" and "sessions v i = Some s" and "\<not> waits_lock (phase s)" and "\<not> waits_data (phase s)"
  shows "runs i h (put_session i (s\<lparr>phase := Running\<rparr>) v)"
  using lock_inv_put [OF assms(1,2)] assms(3,4) by (simp add: runs_def)

lemma complete_served:
  assumes "lock_inv h v" and "sessions v i = Some s" and "enabled x v s"
  shows "served idle (thrown i) (complete E i x v)"
proof -
  let ?v = "put_session i (s\<lparr>phase := Running\<rparr>) v"
  note run = lock_inv_resume [OF assms(1,2)] and defs = complete_def with_session_def assms(2) Let_def enabled_def expected_def
  have read: "served idle (thrown i) (read_request E i bs ?v)" if "runs i h ?v" for bs
    using that by (simp add: read_request_def Let_def send_served)
  show ?thesis
  proof (cases x)
    case (Received bs)
    with assms(3) have "\<not> waits_lock (phase s)" "\<not> waits_data (phase s)"
      by (cases "phase s"; simp add: enabled_def expected_def)+
    note r = run [OF this]
    show ?thesis
      using assms(3) Received
      by (cases "phase s") (simp_all add: defs handshake_reply_served [OF r] dispatch_served [OF r] check_hash_served [OF r]
          pull_request_served [OF r] push_request_served [OF r] push_receive_served [OF r] read [OF r])
  next
    case Written
    with assms(3) have "\<not> waits_lock (phase s)" "\<not> waits_data (phase s)"
      by (cases "phase s"; simp add: enabled_def)+
    note r = run [OF this]
    show ?thesis
      using assms(3) Written by (cases "phase s") (simp_all add: defs send_some_served [OF r] set_phase_served [OF r])
  next
    case Timer
    then show ?thesis
      using assms(3) data_waited_served [OF assms(1,2)] lock_waited_served [OF assms(1,2)]
      by (cases "phase s") (simp_all add: defs)
  next
    case Timeout
    then show ?thesis using on_timeout_served [OF assms(1,2)] by (simp add: complete_def with_session_def assms(2))
  next
    case Socket_Error
    with assms(3) have "\<not> waits_lock (phase s)" "\<not> waits_data (phase s)"
      by (cases "phase s"; simp add: enabled_def)+
    note r = run [OF this]
    show ?thesis using Socket_Error end_session_served [OF r] by (simp add: complete_def with_session_def assms(2))
  qed
qed

lemma server_step_served:
  assumes "lock_inv h v" and "sessions v i = Some s" and "enabled x v s"
  shows "served idle T (server_step E i x v)"
proof (cases "complete E i x v")
  case (Throw e v')
  then obtain h' where "runs i h' v'" using complete_served [OF assms, of E] by (auto simp: thrown_def)
  from end_session_served [OF this] show ?thesis using Throw by (simp add: server_step_def)
qed (use complete_served [OF assms, of E] in \<open>simp_all add: server_step_def\<close>)

section \<open>Reachable states\<close>

inductive reachable :: "('f, 'd, 'c) Server_Env \<Rightarrow> ('f, 'd, 'c) Server \<Rightarrow> bool" for E where
  start: "server_start E timeout writable cl c = Next [] v \<Longrightarrow> reachable E v"
| accept: "reachable E v \<Longrightarrow> reachable E (new_session v)"
| step: "reachable E v \<Longrightarrow> sessions v i = Some s \<Longrightarrow> enabled x v s \<Longrightarrow> server_step E i x v = Next bs v' \<Longrightarrow> reachable E v'"

lemma lock_inv_new_session: "lock_inv h v \<Longrightarrow> lock_inv h (new_session v)"
proof -
  assume inv: "lock_inv h v"
  then have "sessions v (session_id v) = None" by (cases "sessions v (session_id v)") (auto simp: lock_inv_def)
  with inv show ?thesis unfolding new_session_def lock_inv_def put_session_simps by (auto 4 3 simp: less_SucI)
qed

lemma server_start_served: "served idle T (server_start E timeout writable cl c)"
  by (auto simp: server_start_def Let_def idle_def lock_inv_def intro!: served_from_outcome split: Ending.split prod.split)

lemma reachable_idle: "reachable E v \<Longrightarrow> idle v"
proof (induction rule: reachable.induct)
  case (start timeout writable cl c v)
  then show ?case using server_start_served [of idle E timeout writable cl c] by simp
next
  case (accept v)
  then show ?case using lock_inv_new_session by (auto simp: idle_def)
next
  case (step v i s x bs v')
  then show ?case using server_step_served [of _ v i s x idle E] by (auto simp: idle_def)
qed

section \<open>What steps leave unchanged\<close>

definition keeps :: "('s \<Rightarrow> 'a) \<Rightarrow> 'a \<Rightarrow> 's served \<Rightarrow> bool" where
  "keeps view x r = (case r of Next bs v \<Rightarrow> view v = x | Throw e v \<Rightarrow> view v = x | _ \<Rightarrow> True)"

lemma keeps_simps [simp]:
  "keeps view x (Next bs v) = (view v = x)"
  "keeps view x (Throw e v) = (view v = x)"
  "keeps view x (Failed e)"
  "keeps view x Never"
  "keeps view x Undefined"
  by (simp_all add: keeps_def)

lemma keeps_and_then [intro!]:
  "keeps view x r \<Longrightarrow> (\<And>v. view v = x \<Longrightarrow> keeps view x (g v)) \<Longrightarrow> keeps view x (and_then r g)"
proof (cases r)
  case (Next bs v)
  assume "keeps view x r" and g: "\<And>v. view v = x \<Longrightarrow> keeps view x (g v)"
  then have "keeps view x (g v)" using Next by simp
  then show ?thesis using Next by (cases "g v") (simp_all add: and_then_def)
qed simp_all

lemma keeps_from_outcome [intro!]: "(\<And>y. r = Some (Inr y) \<Longrightarrow> keeps view x (g y)) \<Longrightarrow> keeps view x (from_outcome r g)"
  by (auto simp: from_outcome_def split: option.split sum.split)

lemma keeps_with_session [intro!]: "(\<And>s. sessions v i = Some s \<Longrightarrow> keeps view x (g s)) \<Longrightarrow> keeps view x (with_session i v g)"
  by (auto simp: with_session_def split: option.split)

text \<open>The queue of the lock changes only where a session enters or leaves it.\<close>

abbreviation same_queue :: "nat list \<Rightarrow> ('f, 'd, 'c) Server served \<Rightarrow> bool" where
  "same_queue q r \<equiv> keeps lock_waiters q r"

lemma queue_set_phase [intro!]: "lock_waiters v = q \<Longrightarrow> same_queue q (set_phase i ph v)"
  by (auto simp: set_phase_def)

lemma queue_reply [intro!]: "lock_waiters v = q \<Longrightarrow> same_queue q (reply i bs v)"
  by (auto simp: reply_def)

lemma queue_cancel_timer [intro!]: "lock_waiters v = q \<Longrightarrow> same_queue q (cancel_timer i v)"
  by (auto simp: cancel_timer_def split: session_phase.split)

lemma queue_cancel_timers [intro!]: "lock_waiters v = q \<Longrightarrow> same_queue q (cancel_timers ws v)"
  by (induction ws arbitrary: v) auto

lemma queue_session_unlock [intro!]: "lock_waiters v = q \<Longrightarrow> same_queue q (session_unlock E i v)"
  by (auto simp: session_unlock_def unlock_client_def Let_def split: list.split option.split prod.split)

lemma queue_take_lock [intro!]: "lock_waiters v = q \<Longrightarrow> same_queue q (take_lock E i v)"
  by (auto simp: take_lock_def Let_def split: Ending.split)

lemma queue_send_some [intro!]: "lock_waiters v = q \<Longrightarrow> same_queue q (send_some E i prefix r v)"
  by (auto simp: send_some_def split: sum.split prod.split)

lemma queue_send [intro!]: "lock_waiters v = q \<Longrightarrow> same_queue q (send E i r v)"
  by (auto simp: send_def)

lemma queue_pull_send [intro!]: "lock_waiters v = q \<Longrightarrow> same_queue q (pull_send E i dt p v)"
  by (auto simp: pull_send_def Let_def)

lemma queue_push_finish [intro!]: "lock_waiters v = q \<Longrightarrow> same_queue q (push_finish E i ua p p' v)"
  unfolding push_finish_def commit_push_def Let_def
  by (intro keeps_with_session keeps_and_then) (auto split: option.split prod.split)

lemma queue_push_loop [intro!]: "lock_waiters v = q \<Longrightarrow> same_queue q (push_loop E i ua p p' n v)"
  by (auto simp: push_loop_def)

lemma queue_push_request [intro!]: "lock_waiters v = q \<Longrightarrow> same_queue q (push_request E i ua bs v)"
  unfolding push_request_def Let_def by (intro keeps_with_session) auto

lemma queue_push_receive [intro!]: "lock_waiters v = q \<Longrightarrow> same_queue q (push_receive E i ua p p' n bs v)"
  unfolding push_receive_def by (intro keeps_with_session keeps_and_then) (auto split: option.split prod.split)

lemma queue_end_session:
  assumes "lock_waiters v = q" and "i \<notin> set q"
  shows "same_queue q (end_session E i v)"
  unfolding end_session_def using assms by (intro keeps_and_then) (auto simp: remove_from_queue_def remove1_idem)

text \<open>A session enters the queue at its end.\<close>

definition queue_step :: "nat \<Rightarrow> nat list \<Rightarrow> ('f, 'd, 'c) Server served \<Rightarrow> bool" where
  "queue_step i q r =
     (case r of Next bs v \<Rightarrow> lock_waiters v = q \<or> lock_waiters v = q @ [i] | Throw e v \<Rightarrow> lock_waiters v = q | _ \<Rightarrow> True)"

lemma queue_step_simps [simp]:
  "queue_step i q (Next bs v) \<longleftrightarrow> lock_waiters v = q \<or> lock_waiters v = q @ [i]"
  "queue_step i q (Throw e v) \<longleftrightarrow> lock_waiters v = q"
  "queue_step i q (Failed e)" "queue_step i q Never" "queue_step i q Undefined"
  by (simp_all add: queue_step_def)

lemma queue_step_and_then:
  assumes "same_queue q r" and "\<And>v. lock_waiters v = q \<Longrightarrow> queue_step i q (g v)"
  shows "queue_step i q (and_then r g)"
proof (cases r)
  case (Next bs v)
  then have "queue_step i q (g v)" using assms by simp
  then show ?thesis using Next by (cases "g v") (simp_all add: and_then_def)
qed (use assms(1) in simp_all)

lemma queue_step_keeps: "same_queue q r \<Longrightarrow> queue_step i q r"
  by (cases r) simp_all

lemma queue_pull_lock: "lock_waiters v = q \<Longrightarrow> queue_step i q (pull_lock E i lk dt p v)"
proof -
  assume q: "lock_waiters v = q"
  have "same_queue (q @ [i]) (set_phase i (Waiting_Lock dt p) (v\<lparr>lock_waiters := q @ [i]\<rparr>))" by auto
  then have "queue_step i q (set_phase i (Waiting_Lock dt p) (v\<lparr>lock_waiters := q @ [i]\<rparr>))"
    by (auto simp: set_phase_def with_session_def split: option.splits)
  moreover have "same_queue q (and_then (take_lock E i v) (pull_send E i dt p))" using q by auto
  ultimately show ?thesis
    using q queue_pull_send [OF q, of E i dt p]
    by (auto simp: pull_lock_def with_session_def queue_step_keeps split: option.split)
qed

lemma queue_pull_request: "lock_waiters v = q \<Longrightarrow> queue_step i q (pull_request E i lk dt bs v)"
proof -
  assume q: "lock_waiters v = q"
  have pc: "same_queue q (if client_lock v = None then pull_client E v else Next [] v)"
    using q by (auto simp: pull_client_def split: prod.split)
  have "queue_step i q (if wait > 0 \<and> p = server_checkpoint_position v' then set_phase i (Waiting_Data lk dt p) (v'\<lparr>pull_waiters := pull_waiters v' @ [i]\<rparr>)
      else pull_lock E i lk dt p v')" if "lock_waiters v' = q" for v' :: "('a, 'b, 'c) Server" and p wait :: int
    using that queue_pull_lock [OF that] by (auto intro!: queue_step_keeps)
  with pc show ?thesis unfolding pull_request_def Let_def by (rule queue_step_and_then)
qed

lemma complete_queue:
  assumes "lock_inv h v" and "sessions v i = Some s" and "enabled x v s" and "\<not> (x = Timer \<and> waits_lock (phase s))"
  shows "queue_step i (lock_waiters v) (complete E i x v)"
proof -
  let ?v = "put_session i (s\<lparr>phase := Running\<rparr>) v" and ?q = "lock_waiters v"
  note defs = complete_def with_session_def assms(2) Let_def enabled_def expected_def
  have out: "i \<notin> set ?q" if "\<not> waits_lock (phase s)" using assms(1,2) that by (auto simp: lock_inv_def)
  have q: "lock_waiters ?v = ?q" by simp
  note data = queue_pull_lock [of "?v\<lparr>pull_waiters := _\<rparr>" ?q i, simplified]
  show ?thesis
  proof (cases x)
    case (Received bs)
    have "same_queue ?q (handshake_reply E i bs ?v)" "same_queue ?q (check_hash E i bs ?v)" "same_queue ?q (read_request E i bs ?v)"
      by (auto simp: handshake_reply_def check_hash_def read_request_def Let_def split: sum.split)
    moreover have "same_queue ?q (dispatch E i (bs ! 0) ?v)" if "\<not> waits_lock (phase s)"
      by (auto simp: dispatch_def Let_def intro!: queue_end_session [OF _ out [OF that]])
    moreover have "same_queue ?q (push_request E i ua bs ?v)" "same_queue ?q (push_receive E i ua p p' n bs ?v)" for ua p p' n by auto
    ultimately show ?thesis
      using assms(3) Received queue_pull_request [OF q]
      by (cases "phase s") (auto simp: defs intro: queue_step_keeps)
  next
    case Written
    have "same_queue ?q (send_some E i [] r ?v)" "same_queue ?q (set_phase i Idle ?v)" for r by auto
    then show ?thesis using assms(3) Written by (cases "phase s") (auto simp: defs intro: queue_step_keeps)
  next
    case Timer
    then show ?thesis using assms(3,4) data by (cases "phase s") (simp_all add: defs data_waited_def)
  next
    case Timeout
    have "same_queue ?q (on_timeout E i v)" by (auto simp: on_timeout_def)
    then show ?thesis using Timeout by (auto simp: defs intro: queue_step_keeps)
  next
    case Socket_Error
    then have "\<not> waits_lock (phase s)" using assms(3) by (cases "phase s") (simp_all add: enabled_def)
    from queue_end_session [OF q out [OF this]] show ?thesis using Socket_Error by (auto simp: defs intro: queue_step_keeps)
  qed
qed

lemma server_step_queue:
  assumes "lock_inv h v" and "sessions v i = Some s" and "enabled x v s" and "server_step E i x v = Next bs v'"
  shows "if x = Timer \<and> waits_lock (phase s) then lock_waiters v = i # lock_waiters v'
    else lock_waiters v' = lock_waiters v \<or> lock_waiters v' = lock_waiters v @ [i]"
proof -
  have removed: "lock_waiters v' = q" if t: "complete E i x v = Throw e v''" "lock_waiters v'' = q" for e v'' q
  proof -
    obtain h' where r: "runs i h' v''" using complete_served [OF assms(1-3), of E] t(1) by (auto simp: thrown_def)
    obtain t where "sessions v'' i = Some t" "phase t = Running" by (rule runsE [OF r])
    then have "i \<notin> set q" using r t(2) by (auto simp: runs_def lock_inv_def)
    from queue_end_session [OF t(2) this, of E] show ?thesis using t(1) assms(4) by (simp add: server_step_def)
  qed
  show ?thesis
  proof (cases "x = Timer \<and> waits_lock (phase s)")
    case True
    then obtain dt p where ph: "phase s = Waiting_Lock dt p" by (cases "phase s") simp_all
    then have woken: "woken s" using True assms(3) by (simp add: enabled_def)
    have "hd (lock_waiters v) = i" "i \<in> set (lock_waiters v)" using assms(1,2) True woken by (auto simp: lock_inv_def)
    then obtain ws where ws: "lock_waiters v = i # ws" by (cases "lock_waiters v") auto
    have "same_queue ws (complete E i x v)"
      using True ph ws by (auto simp: complete_def lock_waited_def assms(2) Let_def)
    then have "lock_waiters v' = ws" using assms(4) removed by (cases "complete E i x v") (simp_all add: server_step_def)
    then show ?thesis using True ws by simp
  next
    case False
    from complete_queue [OF assms(1-3) False, of E] show ?thesis
      using assms(4) removed False by (cases "complete E i x v") (auto simp: server_step_def)
  qed
qed

section \<open>Passing the lock on\<close>

lemma waits_lock_iff: "waits_lock ph \<longleftrightarrow> (\<exists>dt p. ph = Waiting_Lock dt p)"
  by (cases ph) simp_all

lemma lock_inv_holder: "lock_inv h v \<Longrightarrow> (\<exists>s. sessions v i = Some s \<and> session_locking s) \<longleftrightarrow> h = Some i"
  by (auto simp: lock_inv_def)

lemma lock_inv_queue: "lock_inv h v \<Longrightarrow> i \<in> set (lock_waiters v) \<longleftrightarrow> (\<exists>s dt p. sessions v i = Some s \<and> phase s = Waiting_Lock dt p)"
  unfolding lock_inv_def waits_lock_iff by blast

lemma front_woken:
  assumes "lock_inv None v" and "lock_waiters v = w # ws"
  obtains s where "sessions v w = Some s" and "waits_lock (phase s)" and "woken s"
proof -
  have "w \<in> set (lock_waiters v)" using assms(2) by simp
  then obtain s where s: "sessions v w = Some s" "waits_lock (phase s)" using assms(1) by (auto simp: lock_inv_def)
  then have "woken s" using assms by (auto simp: lock_inv_def)
  with s that show ?thesis by blast
qed

lemma end_session_gone: "end_session E i v = Next bs v' \<Longrightarrow> sessions v' i = None"
  by (auto simp: end_session_def and_then_def split: served.splits)

lemma lock_passed:
  assumes "lock_inv h v" and "sessions v i = Some s" and "waits_lock (phase s)" and "woken s"
    and "server_step E i Timer v = Next bs v'" and "sessions v' i = Some t"
  shows "session_locking t"
proof -
  obtain dt p where ph: "phase s = Waiting_Lock dt p" using assms(3) by (auto simp: waits_lock_iff)
  let ?r = "lock_waited E i dt p (put_session i (s\<lparr>phase := Running\<rparr>) v)"
  have c: "complete E i Timer v = ?r" using assms(2) ph by (simp add: complete_def with_session_def)
  have "served (lock_inv (Some i)) (runs i (Some i)) ?r" by (rule lock_waited_holds [OF assms(1-4)])
  then show ?thesis
    using assms(5,6) by (cases ?r) (auto simp: server_step_def c lock_inv_def dest: end_session_gone)
qed

end
