(* ===== verification/Server_Properties.thy ===== *)
theory Server_Properties
  imports Server_Proofs
begin

text \<open>
  Properties of the lock of a server, for any file, any client and any behaviour of the sessions:
  arbitrary bytes, disconnections and timeouts, in any order.
\<close>

section \<open>A concrete server\<close>

text \<open>A server on a new journal in memory, with no other server behind it, on which two sessions ask for the lock.\<close>

definition memory_env :: "(Memory_File, unit, unit) Server_Env" where
  "memory_env = \<lparr>env_file = memory_file, env_connection = dummy_connection, env_read = journal_client_read memory_file, env_time = 0\<rparr>"

definition run_steps :: "('f, 'd, 'c) Server_Env \<Rightarrow> (nat \<times> completion) list \<Rightarrow> ('f, 'd, 'c) Server \<Rightarrow> (byte list list \<times> ('f, 'd, 'c) Server) option" where
  "run_steps E xs v =
     fold (\<lambda>(i, x) acc. case acc of None \<Rightarrow> None | Some (out, v) \<Rightarrow>
        (case sessions v i of None \<Rightarrow> None | Some s \<Rightarrow>
           if enabled x v s then (case server_step E i x v of Next bs v' \<Rightarrow> Some (out @ [bs], v') | _ \<Rightarrow> None) else None)) xs (Some ([], v))"

lemma run_steps_snoc:
  "run_steps E (xs @ [(i, x)]) v =
     (case run_steps E xs v of None \<Rightarrow> None | Some (out, v) \<Rightarrow>
        (case sessions v i of None \<Rightarrow> None | Some s \<Rightarrow>
           if enabled x v s then (case server_step E i x v of Next bs v' \<Rightarrow> Some (out @ [bs], v') | _ \<Rightarrow> None) else None))"
  by (simp add: run_steps_def)

lemma run_steps_reachable: "run_steps E xs v = Some (out, v') \<Longrightarrow> reachable E v \<Longrightarrow> reachable E v'"
proof (induction xs arbitrary: out v' rule: rev_induct)
  case Nil
  then show ?case by (simp add: run_steps_def)
next
  case (snoc x xs)
  obtain i c where x: "x = (i, c)" by (cases x)
  from snoc show ?case
    by (auto simp: x run_steps_snoc split: option.splits served.splits if_splits intro: reachable.step)
qed

definition example_server :: "(Memory_File, unit, unit) Server served" where
  "example_server =
     (case writable_journal_client memory_file dummy_connection Check_None Recovery_None (memory_file_new Create_New) () of
        Inl e \<Rightarrow> Failed e
      | Inr (cl, c) \<Rightarrow> server_start memory_env 1000 True cl c)"

definition hello :: "byte list" where
  "hello = joedb_signature @ to_bytes 8 (20 :: 64 word)"

definition int64_args :: "int \<Rightarrow> int \<Rightarrow> byte list" where
  "int64_args a b = to_bytes 8 (word_of_int a :: 64 word) @ to_bytes 8 (word_of_int b :: 64 word)"

text \<open>Session 0 gets the lock with a request \<open>G\<close>, session 1 waits for it.\<close>

definition example_steps :: "(nat \<times> completion) list" where
  "example_steps =
     [(0, Received hello), (0, Written), (1, Received hello), (1, Written),
      (0, Received [71]), (0, Received (int64_args 0 41)), (0, Written), (1, Received [71]), (1, Received (int64_args 0 41))]"

definition example_run :: "(nat \<times> completion) list \<Rightarrow> (byte list list \<times> (Memory_File, unit, unit) Server) option" where
  "example_run xs = (case example_server of Next [] v \<Rightarrow> run_steps memory_env xs (new_session (new_session v)) | _ \<Rightarrow> None)"

lemma example_run_reachable: "example_run xs = Some (out, v) \<Longrightarrow> reachable memory_env v"
  by (auto simp: example_run_def example_server_def split: served.splits list.splits sum.splits prod.splits
      elim!: run_steps_reachable intro!: reachable.accept intro: reachable.start)

definition lock_summary :: "('f, 'd, 'c) Server \<Rightarrow> nat \<times> bool \<times> nat list \<times> bool option \<times> bool option" where
  "lock_summary v = (session_id v, is_locked v, lock_waiters v, map_option session_locking (sessions v 0), map_option session_locking (sessions v 1))"

lemma example_waiting: "map_option (\<lambda>(out, v). lock_summary v) (example_run example_steps) = Some (2, True, [1], Some True, Some False)"
  by code_simp

lemma example_passed:
  "map_option (\<lambda>(out, v). lock_summary v) (example_run (example_steps @ [(0, Received [77])])) = Some (2, True, [1], Some False, Some False)"
  by code_simp

section \<open>Properties\<close>

text \<open>
  C7. In every state a server can reach, at most one session holds the lock; the lock is taken
  exactly when a session holds it or waits for it; the queue holds each session that waits for the
  lock once, and no other; and no step follows the pointer of a queue to a
  session that was destroyed, or pops an empty queue.
\<close>

theorem server_lock_safe:
  assumes "reachable E v"
  shows "(\<forall>i j s t. sessions v i = Some s \<and> session_locking s \<and> sessions v j = Some t \<and> session_locking t \<longrightarrow> i = j) \<and>
    (is_locked v \<longleftrightarrow> (\<exists>i s. sessions v i = Some s \<and> session_locking s) \<or> lock_waiters v \<noteq> []) \<and>
    distinct (lock_waiters v) \<and>
    (\<forall>i. i \<in> set (lock_waiters v) \<longleftrightarrow> (\<exists>s dt p. sessions v i = Some s \<and> phase s = Waiting_Lock dt p)) \<and>
    (\<forall>i s x. sessions v i = Some s \<and> enabled x v s \<longrightarrow> server_step E i x v \<noteq> Undefined)"
proof (intro conjI allI impI, goal_cases)
  obtain h where inv: "lock_inv h v" using reachable_idle [OF assms] by (auto simp: idle_def)
  note holder = lock_inv_holder [OF inv]
  {
    case (1 i j s t)
    then show ?case using holder [of i] holder [of j] by auto
  next
    case 2
    have "(\<exists>i s. sessions v i = Some s \<and> session_locking s) \<longleftrightarrow> h \<noteq> None" using holder by blast
    then show ?case using inv by (simp add: lock_inv_def)
  next
    case 3
    then show ?case using inv by (simp add: lock_inv_def)
  next
    case (4 i)
    then show ?case by (rule lock_inv_queue [OF inv])
  next
    case (5 i s x)
    then show ?case using server_step_served [OF inv, of i s x idle E] by auto
  }
qed

theorem server_lock_safe_witness:
  "\<exists>v s. reachable memory_env v \<and> sessions v 0 = Some s \<and> session_locking s \<and> lock_waiters v = [1] \<and> is_locked v \<and>
     (\<forall>j t. sessions v j = Some t \<and> session_locking t \<longrightarrow> j = 0)"
proof -
  obtain out v where v: "example_run example_steps = Some (out, v)" "lock_summary v = (2, True, [1], Some True, Some False)"
    using example_waiting by auto
  from v(1) have r: "reachable memory_env v" by (rule example_run_reachable)
  show ?thesis using server_lock_safe [OF r] r v(2) by (auto simp: lock_summary_def)
qed

text \<open>
  C14. The lock is never lost and is passed on in the order of the requests. When no session holds it
  and some wait for it, the timer of the front of the queue has been cancelled, so that its session
  can proceed, and then holds the lock unless it ends. No step changes the queue but by adding the session that runs at its
  end, or removing the session that runs from its front.
\<close>

theorem server_lock_fair:
  assumes "reachable E v"
  shows "(\<forall>w ws. lock_waiters v = w # ws \<and> (\<forall>j t. sessions v j = Some t \<longrightarrow> \<not> session_locking t) \<longrightarrow>
      (\<exists>s. sessions v w = Some s \<and> enabled Timer v s) \<and>
      (\<forall>bs v'. server_step E w Timer v = Next bs v' \<longrightarrow>
         lock_waiters v' = ws \<and> (\<forall>t. sessions v' w = Some t \<longrightarrow> session_locking t))) \<and>
    (\<forall>i s x bs v'. sessions v i = Some s \<and> enabled x v s \<and> server_step E i x v = Next bs v' \<longrightarrow>
      lock_waiters v' = lock_waiters v \<or> lock_waiters v' = lock_waiters v @ [i] \<or> lock_waiters v = i # lock_waiters v')"
proof -
  obtain h where inv: "lock_inv h v" using reachable_idle [OF assms] by (auto simp: idle_def)
  have free: "lock_inv None v" if "\<forall>j t. sessions v j = Some t \<longrightarrow> \<not> session_locking t"
    using inv lock_inv_holder [OF inv] that by (cases h) auto
  show ?thesis
  proof (intro conjI allI impI, goal_cases)
    case (1 w ws)
    obtain s where s: "sessions v w = Some s" "waits_lock (phase s)" "woken s"
      by (rule front_woken [OF free [OF conjunct2 [OF 1]]]) (use 1 in auto)
    then show ?case by (auto simp: enabled_def waits_lock_iff)
  next
    case (2 w ws bs v')
    obtain s where s: "sessions v w = Some s" "waits_lock (phase s)" "woken s"
      by (rule front_woken [OF free [OF conjunct2 [OF 2(1)]]]) (use 2(1) in auto)
    then have "enabled Timer v s" by (auto simp: enabled_def waits_lock_iff)
    from server_step_queue [OF inv s(1) this 2(2)] show ?case using 2(1) s(2) by simp
  next
    case (3 w ws bs v' t)
    obtain s where s: "sessions v w = Some s" "waits_lock (phase s)" "woken s"
      by (rule front_woken [OF free [OF conjunct2 [OF 3(1)]]]) (use 3(1) in auto)
    show ?case by (rule lock_passed [OF inv s 3(2,3)])
  next
    case (4 i s x bs v')
    then show ?case using server_step_queue [OF inv, of i s x E bs v'] by (auto split: if_splits)
  qed
qed

theorem server_lock_fair_witness:
  "\<exists>v s. reachable memory_env v \<and> lock_waiters v = [1] \<and> sessions v 1 = Some s \<and> enabled Timer v s \<and>
     (\<forall>bs v' t. server_step memory_env 1 Timer v = Next bs v' \<and> sessions v' 1 = Some t \<longrightarrow> session_locking t)"
proof -
  obtain out v where v: "example_run (example_steps @ [(0, Received [77])]) = Some (out, v)"
    "lock_summary v = (2, True, [1], Some False, Some False)"
    using example_passed by auto
  from v(1) have r: "reachable memory_env v" by (rule example_run_reachable)
  have "\<not> session_locking t" if t: "sessions v j = Some t" for j t
  proof -
    have "j < 2" using reachable_idle [OF r] t v(2) by (auto simp: idle_def lock_inv_def lock_summary_def)
    then have "j = 0 \<or> j = 1" by auto
    then show ?thesis using t v(2) by (auto simp: lock_summary_def)
  qed
  moreover have "lock_waiters v = [1]" using v(2) by (simp add: lock_summary_def)
  ultimately have free: "lock_waiters v = 1 # [] \<and> (\<forall>j t. sessions v j = Some t \<longrightarrow> \<not> session_locking t)" by blast
  from conjunct1 [OF server_lock_fair [OF r], rule_format, OF free] show ?thesis using r free by blast
qed

end
