(* ===== verification/Network.thy ===== *)
theory Network
  imports Server_Connection Server_Properties
begin

text \<open>
  A network between one server and its clients: what is in transit between session \<open>i\<close> and its client
  is a sequence of bytes in each direction. It is the channel on which the two sides of the protocol,
  \<open>Server_Connection\<close> and \<open>Server\<close>, are put together.

  Writing to the channel appends to what the session has to read, and the session runs until it has
  to wait for more. \<open>grain\<close> bounds how many bytes go through one call of \<open>write_some\<close> or \<open>read_some\<close>,
  so that the loops of \<open>Channel\<close> matter.
\<close>

section \<open>The network\<close>

record Network =
  net_server :: "(Memory_File, unit, unit) Server"
  to_server :: "nat \<Rightarrow> byte list"
  to_client :: "nat \<Rightarrow> byte list"

definition feed :: "nat \<Rightarrow> byte list \<Rightarrow> Network \<Rightarrow> Network" where
  "feed i bs n = n\<lparr>to_server := (to_server n)(i := to_server n i @ bs)\<rparr>"

definition drain :: "nat \<Rightarrow> nat \<Rightarrow> Network \<Rightarrow> Network" where
  "drain i k n = n\<lparr>to_client := (to_client n)(i := drop k (to_client n i))\<rparr>"

definition next_completion :: "nat \<Rightarrow> Network \<Rightarrow> completion option" where
  "next_completion i n =
     (case sessions (net_server n) i of
        None \<Rightarrow> None
      | Some s \<Rightarrow>
          (case expected (phase s) of
             Some k \<Rightarrow> if 0 < k \<and> k \<le> length (to_server n i) then Some (Received (take k (to_server n i))) else None
           | None \<Rightarrow> (case phase s of Sending r \<Rightarrow> Some Written | Replying \<Rightarrow> Some Written | _ \<Rightarrow> None)))"

definition bytes_consumed :: "completion \<Rightarrow> nat" where
  "bytes_consumed x = (case x of Received bs \<Rightarrow> length bs | _ \<Rightarrow> 0)"

definition net_step :: "nat \<Rightarrow> Network \<Rightarrow> Network option" where
  "net_step i n =
     (case next_completion i n of
        None \<Rightarrow> None
      | Some x \<Rightarrow>
          (case server_step memory_env i x (net_server n) of
             Next bs v \<Rightarrow> Some \<lparr>net_server = v, to_server = (to_server n)(i := drop (bytes_consumed x) (to_server n i)),
                             to_client = (to_client n)(i := to_client n i @ bs)\<rparr>
           | _ \<Rightarrow> None))"

partial_function (option) net_settle :: "nat \<Rightarrow> Network \<Rightarrow> Network option" where
  "net_settle i n = (case net_step i n of None \<Rightarrow> Some n | Some n' \<Rightarrow> net_settle i n')"

definition net_channel :: "nat \<Rightarrow> nat \<Rightarrow> Network Channel" where
  "net_channel grain i =
     \<lparr>write_some = (\<lambda>bs n.
        let k = min (Suc grain) (length bs) in
        case net_settle i (feed i (take k bs) n) of
          None \<Rightarrow> Inl (Exception ''broken pipe'')
        | Some n' \<Rightarrow> Inr (k - 1, n')),
      read_some = (\<lambda>sz n.
        case take (min (Suc grain) sz) (to_client n i) of
          [] \<Rightarrow> Inl (Exception ''end of file'')
        | b # bs \<Rightarrow> Inr ((b, bs), drain i (Suc (length bs)) n))\<rparr>"

declare net_settle.simps [code]

section \<open>Running a session\<close>

definition leads :: "nat \<Rightarrow> Network \<Rightarrow> Network \<Rightarrow> bool" where
  "leads i = (\<lambda>a b. net_step i a = Some b)\<^sup>*\<^sup>*"

lemma leads_refl [simp]: "leads i n n"
  by (simp add: leads_def)

lemma leads_step: "net_step i n = Some n1 \<Longrightarrow> leads i n1 n2 \<Longrightarrow> leads i n n2"
  unfolding leads_def by (rule converse_rtranclp_into_rtranclp)

lemma leads_induct [consumes 1, case_names refl step]:
  assumes "leads i n n'" and "P n'" and "\<And>a b. net_step i a = Some b \<Longrightarrow> leads i b n' \<Longrightarrow> P b \<Longrightarrow> P a"
  shows "P n"
  using assms unfolding leads_def by (induction rule: converse_rtranclp_induct) blast+

lemma settle_leads:
  assumes "leads i n n'" and "net_step i n' = None"
  shows "net_settle i n = Some n'"
  using assms
proof (induction rule: leads_induct)
  case refl
  then show ?case by (subst net_settle.simps) simp
next
  case (step a b)
  then show ?case by (subst net_settle.simps) simp
qed

text \<open>Bytes that arrive later do not change the steps that the session makes before.\<close>

lemma feed_simps [simp]:
  "net_server (feed i bs n) = net_server n" "to_client (feed i bs n) = to_client n"
  "to_server (feed i bs n) = (to_server n)(i := to_server n i @ bs)"
  "feed i [] n = n" "feed i bs (feed i as n) = feed i (as @ bs) n"
  by (simp_all add: feed_def)

lemma next_completion_feed: "next_completion i n = Some x \<Longrightarrow> next_completion i (feed i bs n) = Some x"
  by (auto simp: next_completion_def split: option.splits if_splits)

lemma bytes_consumed_length: "next_completion i n = Some x \<Longrightarrow> bytes_consumed x \<le> length (to_server n i)"
  by (auto simp: next_completion_def bytes_consumed_def split: option.splits if_splits session_phase.splits)

lemma net_step_feed:
  assumes "net_step i n = Some n'"
  shows "net_step i (feed i bs n) = Some (feed i bs n')"
proof -
  obtain x where x: "next_completion i n = Some x" using assms by (auto simp: net_step_def split: option.splits)
  show ?thesis
    using assms x next_completion_feed [OF x, of bs] bytes_consumed_length [OF x]
    by (auto simp: net_step_def feed_def split: served.splits)
qed

lemma leads_feed: "leads i n n' \<Longrightarrow> leads i (feed i bs n) (feed i bs n')"
  by (induction rule: leads_induct) (auto intro: leads_step net_step_feed)

lemma leads_split:
  assumes "leads i n n'" and "n = feed i bs m" and "net_step i n' = None"
  shows "\<exists>m'. leads i m m' \<and> net_step i m' = None \<and> leads i (feed i bs m') n'"
  using assms
proof (induction arbitrary: m rule: leads_induct)
  case refl
  then have "net_step i m = None" using net_step_feed [of i m _ bs] by (cases "net_step i m") auto
  with refl show ?case by (intro exI [of _ m]) simp
next
  case (step a b)
  show ?case
  proof (cases "net_step i m")
    case None
    then show ?thesis using step leads_step [of i a b n'] by (intro exI [of _ m]) simp
  next
    case (Some m1)
    then have "b = feed i bs m1" using net_step_feed [OF Some, of bs] step by simp
    from step(3) [OF this step(5)] show ?thesis using leads_step [OF Some] by blast
  qed
qed

section \<open>The channel\<close>

lemma channel_write_net:
  assumes "leads i (feed i bs n) n'" and "net_step i n = None" and "net_step i n' = None"
  shows "channel_write (net_channel grain i) bs n = Inr n'"
  using assms
proof (induction "length bs" arbitrary: bs n rule: less_induct)
  case less
  show ?case
  proof (cases "bs = []")
    case True
    then have "net_settle i n = Some n'" using settle_leads [of i n n'] less.prems by simp
    moreover have "net_settle i n = Some n" using less.prems(2) by (subst net_settle.simps) simp
    ultimately show ?thesis using True by (simp add: channel_write.simps)
  next
    case False
    define k where "k = min (Suc grain) (length bs)"
    have k: "0 < k" "k \<le> length bs" using False by (auto simp: k_def min_def)
    have "feed i bs n = feed i (drop k bs) (feed i (take k bs) n)" by simp
    from leads_split [OF less.prems(1) this less.prems(3)] obtain m where
      m: "leads i (feed i (take k bs) n) m" "net_step i m = None" "leads i (feed i (drop k bs) m) n'" by blast
    have "channel_write (net_channel grain i) (drop k bs) m = Inr n'"
      using less.hyps [of "drop k bs" m] k m less.prems(3) False by simp
    moreover have "write_some (net_channel grain i) bs n = Inr (k - 1, m)"
      using settle_leads [OF m(1,2)] by (simp add: net_channel_def k_def Let_def)
    ultimately show ?thesis using False k(1) by (subst channel_write.simps) simp
  qed
qed

lemma drain_simps [simp]:
  "to_client (drain i k n) = (to_client n)(i := drop k (to_client n i))" "net_server (drain i k n) = net_server n"
  "to_server (drain i k n) = to_server n" "drain i 0 n = n" "drain i l (drain i k n) = drain i (k + l) n"
  by (simp_all add: drain_def add.commute)

lemma read_some_net:
  assumes "0 < sz" and "to_client n i \<noteq> []"
  shows "\<exists>k. 0 < k \<and> k \<le> sz \<and> k \<le> length (to_client n i) \<and>
    read_some_bytes (net_channel grain i) sz n = Inr (take k (to_client n i), drain i k n)"
proof -
  define k where "k = min (min (Suc grain) sz) (length (to_client n i))"
  have k: "0 < k" "k \<le> sz" "k \<le> length (to_client n i)" using assms by (auto simp: k_def min_def)
  have t: "take (min (Suc grain) sz) (to_client n i) = take k (to_client n i)" by (simp add: k_def min_def)
  obtain b bs where b: "take k (to_client n i) = b # bs" using k assms(2) by (cases "take k (to_client n i)") auto
  then have len: "Suc (length bs) = k" using k(3) by (metis length_Cons length_take min.absorb2)
  have "read_some (net_channel grain i) sz n = Inr ((b, bs), drain i k n)" 
    unfolding net_channel_def by (simp only: Channel.select_convs t b list.case len)
  then have "read_some_bytes (net_channel grain i) sz n = Inr (take sz (b # bs), drain i k n)"
    by (simp add: read_some_bytes_def)
  moreover have "take sz (b # bs) = take k (to_client n i)" unfolding b by (rule take_all) (use len k(2) in simp)
  ultimately show ?thesis using k by (intro exI [of _ k]) simp
qed

lemma channel_read_net:
  "sz \<le> length (to_client n i) \<Longrightarrow> channel_read (net_channel grain i) sz n = Inr (take sz (to_client n i), drain i sz n)"
proof (induction sz arbitrary: n rule: less_induct)
  case (less sz)
  show ?case
  proof (cases "sz = 0")
    case False
    then have "to_client n i \<noteq> []" using less.prems by auto
    then obtain k where k: "0 < k" "k \<le> sz" "k \<le> length (to_client n i)"
      "read_some_bytes (net_channel grain i) sz n = Inr (take k (to_client n i), drain i k n)"
      using read_some_net [of sz n i grain] False by auto
    have "channel_read (net_channel grain i) (sz - k) (drain i k n) = Inr (take (sz - k) (drop k (to_client n i)), drain i sz n)"
      using less.IH [of "sz - k" "drain i k n"] k less.prems False by simp
    moreover have "take k (to_client n i) @ take (sz - k) (drop k (to_client n i)) = take sz (to_client n i)"
      using take_add [of k "sz - k" "to_client n i"] k(2) by simp
    ultimately show ?thesis using k False by (subst channel_read.simps) simp
  qed (simp add: channel_read.simps)
qed

end
