(* ===== verification/File_Buffer_Proofs.thy ===== *)
theory File_Buffer_Proofs
  imports File_Buffer
begin

text \<open>
  Correctness of buffered access to a file. The buffer has two modes. In writing mode the file it
  stands for is the underlying file with the pending bytes patched in at the position of the
  iterator; in reading mode the buffered bytes are the bytes of the file at the current position.
  Every operation is shown to act on that abstract pair of content and position, without access
  outside of the buffer and without failed assertion.
\<close>

section \<open>Strings and bytes\<close>

lemma length_bytes_of [simp]: "length (bytes_of s) = length s"
  by (simp add: bytes_of_def)

lemma string_of_bytes_of [simp]: "string_of (bytes_of s) = s"
proof -
  have "char_of (unat (word_of_nat (of_char c) :: byte)) = c" for c :: char
  proof -
    have "(of_char c :: nat) < 256" by (rule nat_of_char_less_256)
    then have "unat (word_of_nat (of_char c) :: byte) = of_char c" by (simp add: unat_of_nat)
    then show ?thesis by simp
  qed
  then show ?thesis by (simp add: bytes_of_def string_of_def o_def)
qed

section \<open>The two modes\<close>

definition writing :: "'f Abstract_File \<Rightarrow> ('f \<Rightarrow> byte list) \<Rightarrow> Open_Mode \<Rightarrow> 'f File_Buffer \<Rightarrow> byte list \<Rightarrow> nat \<Rightarrow> bool" where
  "writing F content m b c p \<longleftrightarrow>
     get_mode F (fb_file b) = m \<and> read_buffer_size b = 0 \<and> buffer_index b < buffer_size \<and>
     buffer_index b \<le> length (buffer_data b) \<and> length (buffer_data b) \<le> buffer_size + extra_size \<and>
     0 \<le> position b \<and> nat (position b) \<le> length (content (fb_file b)) \<and>
     p = nat (position b) + buffer_index b \<and>
     c = patch (content (fb_file b)) (nat (position b)) (take (buffer_index b) (buffer_data b))"

definition reading :: "'f Abstract_File \<Rightarrow> ('f \<Rightarrow> byte list) \<Rightarrow> Open_Mode \<Rightarrow> 'f File_Buffer \<Rightarrow> byte list \<Rightarrow> nat \<Rightarrow> bool" where
  "reading F content m b c p \<longleftrightarrow>
     get_mode F (fb_file b) = m \<and> content (fb_file b) = c \<and>
     buffer_index b \<le> read_buffer_size b \<and> read_buffer_size b \<le> buffer_size \<and>
     read_buffer_size b \<le> length (buffer_data b) \<and> length (buffer_data b) \<le> buffer_size + extra_size \<and>
     position b = int p + int (read_buffer_size b - buffer_index b) \<and>
     take (read_buffer_size b - buffer_index b) (drop (buffer_index b) (buffer_data b))
       = take (read_buffer_size b - buffer_index b) (drop p c)"

lemma writing_position: "writing F content m b c p \<Longrightarrow> fb_get_position b = int p"
  by (auto simp: writing_def fb_get_position_def)

lemma reading_position: "reading F content m b c p \<Longrightarrow> fb_get_position b = int p"
  by (auto simp: reading_def fb_get_position_def)

lemma writing_bound: "writing F content m b c p \<Longrightarrow> p \<le> length c"
  by (auto simp: writing_def length_patch)

text \<open>An empty buffer is in both modes.\<close>

lemma idle_both:
  assumes "buffer_index b = 0" and "read_buffer_size b = 0" and "length (buffer_data b) \<le> buffer_size + extra_size"
    and "position b = int p" and "get_mode F (fb_file b) = m" and "content (fb_file b) = c"
  shows "reading F content m b c p" and "p \<le> length c \<Longrightarrow> writing F content m b c p"
  using assms by (auto simp: reading_def writing_def)

lemma reading_new: "reading F content (get_mode F f) (file_buffer_new f) (content f) 0"
  and writing_new: "writing F content (get_mode F f) (file_buffer_new f) (content f) 0"
  by (auto simp: reading_def writing_def file_buffer_new_def)

section \<open>Writing\<close>

text \<open>
  Between \<open>buffer.write\<close> and \<open>check_write_buffer\<close> the index may exceed \<open>size\<close>, by at most
  \<open>extra_size - 1\<close>.
\<close>

definition filling :: "'f Abstract_File \<Rightarrow> ('f \<Rightarrow> byte list) \<Rightarrow> Open_Mode \<Rightarrow> 'f File_Buffer \<Rightarrow> byte list \<Rightarrow> nat \<Rightarrow> bool" where
  "filling F content m b c p \<longleftrightarrow>
     get_mode F (fb_file b) = m \<and> read_buffer_size b = 0 \<and>
     buffer_index b \<le> length (buffer_data b) \<and> length (buffer_data b) \<le> buffer_size + extra_size \<and>
     0 \<le> position b \<and> nat (position b) \<le> length (content (fb_file b)) \<and>
     p = nat (position b) + buffer_index b \<and>
     c = patch (content (fb_file b)) (nat (position b)) (take (buffer_index b) (buffer_data b))"

lemma writing_filling: "writing F content m b c p \<longleftrightarrow> filling F content m b c p \<and> buffer_index b < buffer_size"
  by (auto simp: writing_def filling_def)

lemma store_filling:
  assumes "filling F content m b c p" and "buffer_index b + length bs \<le> buffer_size + extra_size"
  shows "\<exists>b'. buffer_store bs b = Inr b' \<and> filling F content m b' (patch c p bs) (p + length bs) \<and>
    buffer_index b' = buffer_index b + length bs"
proof -
  let ?i = "buffer_index b" and ?q = "nat (position b)" and ?x = "content (fb_file b)"
  let ?b = "b\<lparr>buffer_data := patch (buffer_data b) ?i bs, buffer_index := ?i + length bs\<rparr>"
  from assms(1) have *: "?i \<le> length (buffer_data b)" "?q \<le> length ?x" "p = ?q + ?i"
    "c = patch ?x ?q (take ?i (buffer_data b))" by (auto simp: filling_def)
  have "take (?i + length bs) (patch (buffer_data b) ?i bs) = take ?i (buffer_data b) @ bs"
    using *(1) by (simp add: patch_def)
  moreover have "patch c p bs = patch ?x ?q (take ?i (buffer_data b) @ bs)"
    using *(1,2) patch_patch [OF *(2), of "take ?i (buffer_data b)" bs] by (simp add: *(3,4) min.absorb2)
  ultimately have "filling F content m ?b (patch c p bs) (p + length bs)"
    using assms *(1,2,3) by (auto simp: filling_def length_patch)
  then show ?thesis using assms *(1) by (auto simp: buffer_store_def)
qed

context file_contract
begin

lemma fi_write_law:
  assumes "filling F content m b c p" and "buffer_index b = 0"
  obtains b' where "fi_write F bs b = Inr b'" and "writing F content m b' (patch c p bs) (p + length bs)"
    and "buffer_index b' = 0"
proof -
  from assms have *: "0 \<le> position b" "nat (position b) \<le> length (content (fb_file b))" "p = nat (position b)"
    "c = content (fb_file b)" by (auto simp: filling_def)
  from pwrite_law [OF *(1,2), of bs] obtain f' where f': "pwrite F bs (position b) (fb_file b) = Inr f'"
    "content f' = patch c p bs" "get_mode F f' = get_mode F (fb_file b)"
    using * by auto
  let ?b = "b\<lparr>fb_file := f', position := position b + int (length bs)\<rparr>"
  have "writing F content m ?b (patch c p bs) (p + length bs)"
    using assms f' * by (auto simp: writing_def filling_def length_patch nat_add_distrib)
  with f' assms(2) show ?thesis by (intro that [of ?b]) (simp_all add: fi_write_def)
qed

lemma write_buffer_law:
  assumes "filling F content m b c p"
  obtains b' where "write_buffer F b = Inr b'" and "writing F content m b' c p" and "buffer_index b' = 0"
proof -
  let ?i = "buffer_index b" and ?q = "nat (position b)" and ?x = "content (fb_file b)"
  from assms have *: "read_buffer_size b = 0" "?i \<le> length (buffer_data b)" "0 \<le> position b" "?q \<le> length ?x"
    "p = ?q + ?i" "c = patch ?x ?q (take ?i (buffer_data b))" by (auto simp: filling_def)
  from pwrite_law [OF *(3,4), of "take ?i (buffer_data b)"] obtain f' where
    f': "pwrite F (take ?i (buffer_data b)) (position b) (fb_file b) = Inr f'"
    "content f' = c" "get_mode F f' = get_mode F (fb_file b)" using * by auto
  let ?b = "b\<lparr>fb_file := f', position := position b + int ?i, buffer_index := 0\<rparr>"
  have "write_buffer F b = Inr ?b"
    using * f' by (simp add: write_buffer_def fi_write_def buffer_has_read_data_def min_def)
  moreover have "writing F content m ?b c p"
    using assms f' * by (auto simp: writing_def filling_def length_patch nat_add_distrib min_def)
  ultimately show ?thesis using that [of ?b] by simp
qed

lemma check_write_buffer_law:
  assumes "filling F content m b c p"
  obtains b' where "check_write_buffer F b = Inr b'" and "writing F content m b' c p"
proof (cases "buffer_size \<le> buffer_index b")
  case True
  obtain b' where "write_buffer F b = Inr b'" "writing F content m b' c p"
    by (rule write_buffer_law [OF assms]) 
  with True assms show ?thesis
    by (intro that [of b']) (auto simp: check_write_buffer_def filling_def buffer_has_read_data_def)
next
  case False
  with assms show ?thesis
    by (intro that [of b]) (auto simp: check_write_buffer_def writing_def filling_def buffer_has_read_data_def)
qed

lemma fb_write_law:
  assumes "writing F content m b c p" and "length bs \<le> extra_size"
  shows "\<exists>b'. fb_write F bs b = Inr b' \<and> writing F content m b' (patch c p bs) (p + length bs)"
proof -
  from assms have f: "filling F content m b c p" and i: "buffer_index b + length bs < buffer_size + extra_size"
    by (auto simp: writing_filling)
  obtain b1 where b1: "buffer_store bs b = Inr b1" "filling F content m b1 (patch c p bs) (p + length bs)"
    "buffer_index b1 = buffer_index b + length bs"
    using store_filling [OF f, of bs] i by auto
  obtain b2 where "check_write_buffer F b1 = Inr b2" "writing F content m b2 (patch c p bs) (p + length bs)"
    by (rule check_write_buffer_law [OF b1(2)])
  with b1 i show ?thesis by (simp add: fb_write_def buffer_write_def)
qed

lemma buffer_writes:
  assumes "filling F content m b c p" and "buffer_index b + length bs < buffer_size + extra_size"
  shows "\<exists>b'. fold_result (\<lambda>x. buffer_write [x]) bs b = Inr b' \<and>
    filling F content m b' (patch c p bs) (p + length bs)"
  using assms
proof (induction bs arbitrary: b c p)
  case (Cons x bs)
  obtain b1 where b1: "buffer_store [x] b = Inr b1" "filling F content m b1 (patch c p [x]) (p + 1)"
    "buffer_index b1 = buffer_index b + 1"
    using store_filling [OF Cons.prems(1), of "[x]"] Cons.prems(2) by auto
  have "p \<le> length c" using Cons.prems(1) by (auto simp: filling_def length_patch)
  then have "patch (patch c p [x]) (p + 1) bs = patch c p (x # bs)" using patch_patch [of p c "[x]" bs] by simp
  with Cons.IH [OF b1(2)] b1 Cons.prems(2) show ?case by (auto simp: buffer_write_def)
qed simp

lemma compact_write_law:
  assumes "writing F content m b c p" and "0 \<le> x"
  shows "\<exists>b'. fb_compact_write F x b = Inr b' \<and>
    writing F content m b' (patch c p (compact_bytes x)) (p + length (compact_bytes x))"
proof -
  have "filling F content m b c p" "buffer_index b + length (compact_bytes x) < buffer_size + extra_size"
    using assms(1) length_compact_bytes(2) [of x] by (auto simp: writing_filling)
  from buffer_writes [OF this] obtain b1 where
    b1: "fold_result (\<lambda>y. buffer_write [y]) (compact_bytes x) b = Inr b1"
    "filling F content m b1 (patch c p (compact_bytes x)) (p + length (compact_bytes x))" by blast
  obtain b2 where "check_write_buffer F b1 = Inr b2"
    "writing F content m b2 (patch c p (compact_bytes x)) (p + length (compact_bytes x))"
    by (rule check_write_buffer_law [OF b1(2)])
  with b1(1) assms(2) show ?thesis by (simp add: fb_compact_write_def buffer_compact_write_def)
qed

lemma flush_writing:
  assumes "writing F content m b c p"
  shows "\<exists>b'. flush F b = Inr b' \<and> writing F content m b' c p \<and> reading F content m b' c p \<and> buffer_index b' = 0 \<and>
    content (fb_file b') = c"
proof (cases "buffer_index b = 0")
  case True
  let ?b = "b\<lparr>position := fb_get_position b, read_buffer_size := 0, buffer_index := 0\<rparr>"
  have "flush F b = Inr ?b" using True by (simp add: flush_def buffer_has_write_data_def fi_seek_def)
  then show ?thesis using assms True by (auto simp: writing_def reading_def fb_get_position_def)
next
  case False
  from assms have f: "filling F content m b c p" and r: "read_buffer_size b = 0"
    by (auto simp: writing_def filling_def)
  obtain b1 where b1: "write_buffer F b = Inr b1" "writing F content m b1 c p" "buffer_index b1 = 0"
    by (rule write_buffer_law [OF f])
  then have "b1\<lparr>buffer_index := 0\<rparr> = b1" by simp
  with b1 False r have "flush F b = Inr b1" by (simp add: flush_def buffer_has_write_data_def)
  with b1 show ?thesis by (auto simp: writing_def reading_def)
qed

lemma write_data_law:
  assumes "writing F content m b c p"
  shows "\<exists>b'. write_data F bs b = Inr b' \<and> writing F content m b' (patch c p bs) (p + length bs)"
proof (cases "length bs \<le> extra_size \<or> length bs < buffer_size + extra_size - buffer_index b")
  case True
  from assms have f: "filling F content m b c p" and "buffer_index b < buffer_size" by (auto simp: writing_filling)
  with True have i: "buffer_index b + length bs \<le> buffer_size + extra_size" by linarith
  obtain b1 where b1: "buffer_store bs b = Inr b1" "filling F content m b1 (patch c p bs) (p + length bs)"
    "buffer_index b1 = buffer_index b + length bs"
    using store_filling [OF f i] by auto
  obtain b2 where "check_write_buffer F b1 = Inr b2" "writing F content m b2 (patch c p bs) (p + length bs)"
    by (rule check_write_buffer_law [OF b1(2)])
  with b1 f True show ?thesis by (simp add: write_data_def buffer_has_read_data_def filling_def)
next
  case False
  obtain b1 where b1: "flush F b = Inr b1" "writing F content m b1 c p" "buffer_index b1 = 0"
    using flush_writing [OF assms] by auto
  then have "filling F content m b1 c p" by (simp add: writing_filling)
  then obtain b2 where "fi_write F bs b1 = Inr b2" "writing F content m b2 (patch c p bs) (p + length bs)"
    using b1(3) by (rule fi_write_law [where bs = bs])
  with b1 False assms show ?thesis by (auto simp: write_data_def buffer_has_read_data_def writing_def)
qed

end

section \<open>Reading\<close>

lemma slice_Cons:
  assumes "take (Suc n) (drop p c) = x # bs"
  shows "p < length c \<and> c ! p = x \<and> take n (drop (p + 1) c) = bs"
proof -
  have "p < length c" using assms by (cases "p < length c") auto
  then show ?thesis using assms by (simp add: Cons_nth_drop_Suc [symmetric])
qed

lemma fetch_reading:
  assumes "reading F content m b c p" and "n \<le> read_buffer_size b - buffer_index b"
  shows "\<exists>b'. buffer_fetch n b = Inr (take n (drop p c), b') \<and> reading F content m b' c (p + n) \<and>
    buffer_index b' = buffer_index b + n \<and> read_buffer_size b' = read_buffer_size b \<and>
    n \<le> length c - p"
proof -
  let ?i = "buffer_index b" and ?r = "read_buffer_size b" and ?d = "buffer_data b"
  let ?b = "b\<lparr>buffer_index := ?i + n\<rparr>"
  from assms have *: "?i \<le> ?r" "?r \<le> length ?d" "take (?r - ?i) (drop ?i ?d) = take (?r - ?i) (drop p c)"
    by (auto simp: reading_def)
  have "take n (drop ?i ?d) = take n (take (?r - ?i) (drop ?i ?d))" using assms(2) by (simp add: min_def)
  also have "\<dots> = take n (drop p c)" using assms(2) by (simp add: *(3) min_def)
  finally have t: "take n (drop ?i ?d) = take n (drop p c)" .
  then have n: "n \<le> length c - p" using * assms(2) by (metis (no_types, lifting) diff_le_mono
    le_trans length_drop length_take min.absorb_iff1 min.cobounded1 min_def)
  have "take (?r - (?i + n)) (drop (?i + n) ?d) = drop n (take (?r - ?i) (drop ?i ?d))"
    using assms(2) by (simp add: drop_take add.commute)
  also have "\<dots> = take (?r - (?i + n)) (drop (p + n) c)"
    using assms(2) by (simp add: *(3) drop_take add.commute)
  finally have "reading F content m ?b c (p + n)" using assms * by (auto simp: reading_def)
  with * t n assms(2) show ?thesis by (auto simp: buffer_fetch_def)
qed

context file_contract
begin

lemma flush_reading:
  assumes "reading F content m b c p"
  shows "\<exists>b'. flush F b = Inr b' \<and> reading F content m b' c p \<and> buffer_index b' = 0 \<and> read_buffer_size b' = 0"
proof -
  have "\<not> buffer_has_write_data b" using assms by (auto simp: reading_def buffer_has_write_data_def)
  then show ?thesis using assms by (auto simp: flush_def fi_seek_def reading_def fb_get_position_def)
qed

lemma set_position_reading:
  assumes "reading F content m b c p"
  shows "\<exists>b'. set_position F (int q) b = Inr b' \<and> reading F content m b' c q \<and> buffer_index b' = 0 \<and>
    read_buffer_size b' = 0"
  using flush_reading [OF assms] by (auto simp: set_position_def fi_seek_def reading_def)

lemma set_position_writing:
  assumes "writing F content m b c p"
  shows "\<exists>b'. set_position F (int q) b = Inr b' \<and> reading F content m b' c q \<and> buffer_index b' = 0 \<and>
    read_buffer_size b' = 0"
  using flush_writing [OF assms] by (auto simp: set_position_def fi_seek_def reading_def writing_def)

lemma reading_to_writing:
  assumes "reading F content m b c p" and "buffer_index b = 0" and "read_buffer_size b = 0" and "p \<le> length c"
  shows "writing F content m b c p"
  using assms by (auto simp: reading_def writing_def)

lemma reading_idle: "reading F content m b c p \<Longrightarrow> \<not> buffer_has_write_data b"
  by (auto simp: reading_def buffer_has_write_data_def)

lemma read_buffer_law:
  assumes "reading F content m b c p" and "buffer_index b = read_buffer_size b" and "p < length c"
  shows "\<exists>b'. read_buffer F b = Inr b' \<and> reading F content m b' c p \<and> buffer_index b' = 0 \<and> 0 < read_buffer_size b'"
proof -
  from assms have *: "position b = int p" "content (fb_file b) = c" by (auto simp: reading_def)
  obtain bs where bs: "checked_pread F buffer_size (int p) (fb_file b) = Inr bs" "length bs \<le> buffer_size"
    "bs = take (length bs) (drop (nat (int p)) (content (fb_file b)))"
    "nat (int p) + length bs \<le> max (nat (int p)) (length (content (fb_file b)))"
    "bs = [] \<longrightarrow> buffer_size = 0 \<or> length (content (fb_file b)) \<le> nat (int p)"
    by (rule checked_pread_law [of "int p" buffer_size "fb_file b"]) simp
  then have ne: "bs \<noteq> []" using assms(3) *(2) by auto
  let ?b = "b\<lparr>position := int p + int (length bs), buffer_data := bs @ drop (length bs) (buffer_data b),
    buffer_index := 0, read_buffer_size := length bs\<rparr>"
  have "read_buffer F b = Inr ?b"
    using assms(2) bs(1) ne *(1) reading_idle [OF assms(1)] by (simp add: read_buffer_def fi_read_def)
  moreover have "reading F content m ?b c p"
    using assms(1) bs(2,3) *(2) by (auto simp: reading_def)
  ultimately show ?thesis using ne by auto
qed

lemma read_buffer_eof:
  assumes "reading F content m b c p" and "buffer_index b = read_buffer_size b" and "length c \<le> p"
  shows "read_buffer F b = Inl reading_past_end_of_file"
proof -
  from assms have *: "position b = int p" "content (fb_file b) = c" by (auto simp: reading_def)
  obtain bs where bs: "checked_pread F buffer_size (int p) (fb_file b) = Inr bs" "length bs \<le> buffer_size"
    "bs = take (length bs) (drop (nat (int p)) (content (fb_file b)))"
    "nat (int p) + length bs \<le> max (nat (int p)) (length (content (fb_file b)))"
    "bs = [] \<longrightarrow> buffer_size = 0 \<or> length (content (fb_file b)) \<le> nat (int p)"
    by (rule checked_pread_law [of "int p" buffer_size "fb_file b"]) simp
  then have "bs = []" using assms(3) *(2) by auto
  with assms(2) bs(1) *(1) reading_idle [OF assms(1)] show ?thesis by (simp add: read_buffer_def fi_read_def)
qed

lemma fi_full_read_law:
  assumes "reading F content m b c p" and "buffer_index b = read_buffer_size b \<or> n = 0" and "n \<le> length c - p"
    and "p \<le> length c"
  shows "\<exists>b'. fi_full_read F n b = Inr (take n (drop p c), b') \<and> reading F content m b' c (p + n)"
proof (cases "n = 0")
  case True
  then show ?thesis using assms by (auto simp: fi_full_read_def full_pread.simps)
next
  case False
  with assms have "position b = int p" "content (fb_file b) = c" by (auto simp: reading_def)
  then have "full_pread F n (position b) (fb_file b) = Inr (take n (drop p c))"
    using assms(3,4) full_pread_law [of "position b" n "fb_file b"] by simp
  then show ?thesis using assms False by (auto simp: fi_full_read_def reading_def)
qed

lemma fi_full_read_eof:
  assumes "reading F content m b c p" and "buffer_index b = read_buffer_size b" and "length c < p + n" and "0 < n"
  shows "fi_full_read F n b = Inl reading_past_end_of_file"
proof -
  have "position b = int p" "content (fb_file b) = c" using assms by (auto simp: reading_def)
  then show ?thesis using assms full_pread_past_end [of "position b" n "fb_file b"] by (simp add: fi_full_read_def)
qed

text \<open>The second half of \<open>read_data\<close>: the buffer has been emptied and \<open>k\<close> bytes are still wanted.\<close>

lemma read_data_refill:
  assumes "reading F content m b c p" and "buffer_index b = read_buffer_size b" and "0 < k"
  shows "bind_result (bind_result (read_buffer F b) (\<lambda>b1. buffer_fetch (min k (read_buffer_size b1 - buffer_index b1)) b1))
           (\<lambda>(bs1, b2). bind_result (fi_full_read F (k - length bs1) b2) (\<lambda>(bs2, b3). Inr (bs1 @ bs2, b3))) = r \<Longrightarrow>
    (if p + k \<le> length c then \<exists>b'. r = Inr (take k (drop p c), b') \<and> reading F content m b' c (p + k)
     else r = Inl reading_past_end_of_file)"
proof -
  assume r: "bind_result (bind_result (read_buffer F b) (\<lambda>b1. buffer_fetch (min k (read_buffer_size b1 - buffer_index b1)) b1))
           (\<lambda>(bs1, b2). bind_result (fi_full_read F (k - length bs1) b2) (\<lambda>(bs2, b3). Inr (bs1 @ bs2, b3))) = r"
  show ?thesis
  proof (cases "p < length c")
    case False
    then show ?thesis using read_buffer_eof [OF assms(1,2)] assms(3) r by auto
  next
    case True
    obtain b1 where b1: "read_buffer F b = Inr b1" "reading F content m b1 c p" "buffer_index b1 = 0"
      using read_buffer_law [OF assms(1,2) True] by auto
    let ?n = "min k (read_buffer_size b1)"
    obtain b2 where b2: "buffer_fetch ?n b1 = Inr (take ?n (drop p c), b2)" "reading F content m b2 c (p + ?n)"
      "buffer_index b2 = ?n" "read_buffer_size b2 = read_buffer_size b1" "?n \<le> length c - p"
      using fetch_reading [OF b1(2), of ?n] b1(3) by auto
    have l: "length (take ?n (drop p c)) = ?n" using b2(5) by simp
    have full: "buffer_index b2 = read_buffer_size b2 \<or> k - ?n = 0" using b2(3,4) by (auto simp: min_def)
    from r b1 b2(1) have r': "bind_result (fi_full_read F (k - ?n) b2)
        (\<lambda>(bs2, b3). Inr (take ?n (drop p c) @ bs2, b3)) = r" using l by simp
    show ?thesis
    proof (cases "p + k \<le> length c")
      case True
      obtain b3 where b3: "fi_full_read F (k - ?n) b2 = Inr (take (k - ?n) (drop (p + ?n) c), b3)"
        "reading F content m b3 c (p + ?n + (k - ?n))"
        using fi_full_read_law [OF b2(2) full] True b2(5) \<open>p < length c\<close> by (auto simp: le_diff_conv2)
      have "take ?n (drop p c) @ take (k - ?n) (drop (p + ?n) c) = take k (drop p c)"
        by (metis add.commute drop_drop le_add_diff_inverse min.cobounded1 take_add)
      with b3 r' True show ?thesis by auto
    next
      case False
      then have "k - ?n \<noteq> 0" using b2(5) \<open>p < length c\<close> by auto
      then have "fi_full_read F (k - ?n) b2 = Inl reading_past_end_of_file"
        using full False by (intro fi_full_read_eof [OF b2(2)]) auto
      with r' False show ?thesis by auto
    qed
  qed
qed

lemma read_data_cases:
  assumes "reading F content m b c p" and "p \<le> length c"
  shows "if p + n \<le> length c then \<exists>b'. read_data F n b = Inr (take n (drop p c), b') \<and> reading F content m b' c (p + n)
     else read_data F n b = Inl reading_past_end_of_file"
proof -
  let ?i = "buffer_index b" and ?r = "read_buffer_size b"
  have ok: "\<not> buffer_has_write_data b" "?i \<le> ?r" using assms by (auto simp: reading_def buffer_has_write_data_def)
  show ?thesis
  proof (cases "?i + n \<le> ?r")
    case True
    then have "n \<le> ?r - ?i" by linarith
    from fetch_reading [OF assms(1) this] True ok assms(2) show ?thesis by (auto simp: read_data_def)
  next
    case False
    let ?k = "?r - ?i"
    obtain b0 where b0: "buffer_fetch ?k b = Inr (take ?k (drop p c), b0)" "reading F content m b0 c (p + ?k)"
      "buffer_index b0 = read_buffer_size b0" "?k \<le> length c - p"
      using fetch_reading [OF assms(1), of ?k] ok(2) by auto
    have l: "length (take ?k (drop p c)) = ?k" using b0(4) by simp
    have split: "take ?k (drop p c) @ take (n - ?k) (drop (p + ?k) c) = take n (drop p c)"
      using False ok(2) by (metis add.commute drop_drop le_add_diff_inverse le_diff_conv nat_le_linear take_add)
    show ?thesis
    proof (cases "n \<le> buffer_size")
      case small: True
      define r where "r = bind_result (bind_result (read_buffer F b0)
          (\<lambda>b1. buffer_fetch (min (n - ?k) (read_buffer_size b1 - buffer_index b1)) b1))
          (\<lambda>(bs1, b2). bind_result (fi_full_read F (n - ?k - length bs1) b2) (\<lambda>(bs2, b3). Inr (bs1 @ bs2, b3)))"
      have "read_data F n b = bind_result r (\<lambda>(bs, b'). Inr (take ?k (drop p c) @ bs, b'))"
        using False ok b0(1) l small
        by (simp add: read_data_def r_def bind_result_def split: sum.splits prod.splits)
      moreover have "if p + ?k + (n - ?k) \<le> length c
          then \<exists>b'. r = Inr (take (n - ?k) (drop (p + ?k) c), b') \<and> reading F content m b' c (p + ?k + (n - ?k))
          else r = Inl reading_past_end_of_file"
        by (rule read_data_refill [OF b0(2,3)]) (use False ok in \<open>auto simp: r_def\<close>)
      ultimately show ?thesis using split False ok by (auto split: if_splits)
    next
      case large: False
      have "read_data F n b = bind_result (fi_full_read F (n - ?k) b0)
          (\<lambda>(bs, b'). Inr (take ?k (drop p c) @ bs, b'))"
        using False ok b0(1) l large by (simp add: read_data_def)
      moreover have "n - ?k \<noteq> 0" using False ok(2) by linarith
      moreover have "n = ?k + (n - ?k)" using False ok(2) by linarith
      moreover have "n - ?k \<le> length c - (p + ?k) \<longleftrightarrow> p + n \<le> length c" "p + ?k \<le> length c"
        using b0(4) assms(2) \<open>n = ?k + (n - ?k)\<close> by linarith+
      ultimately show ?thesis
        using fi_full_read_law [OF b0(2), of "n - ?k"] fi_full_read_eof [OF b0(2,3), of "n - ?k"]
          b0(3) split by (cases "p + n \<le> length c") (auto simp: add.assoc)
    qed
  qed
qed

lemma read_data_law:
  "reading F content m b c p \<Longrightarrow> p + n \<le> length c \<Longrightarrow>
     \<exists>b'. read_data F n b = Inr (take n (drop p c), b') \<and> reading F content m b' c (p + n)"
  using read_data_cases [of m b c p n] by auto

lemma read_data_eof:
  "reading F content m b c p \<Longrightarrow> p \<le> length c \<Longrightarrow> length c < p + n \<Longrightarrow>
     read_data F n b = Inl reading_past_end_of_file"
  using read_data_cases [of m b c p n] by auto

lemma one_byte_read:
  assumes "reading F content m b c p" and "p < length c"
  shows "\<exists>b'. one_byte (read_data F 1) b = Inr (c ! p, b') \<and> reading F content m b' c (p + 1)"
  using read_data_law [OF assms(1), of 1] assms(2) by (auto simp: one_byte_def hd_take hd_drop_conv_nth)

text \<open>Both ways of reading bytes one at a time feed the bytes of the file.\<close>

lemma feeds_read_data:
  assumes "reading F content m b c p" and "take (length bs) (drop p c) = bs"
  shows "\<exists>b'. feeds (one_byte (read_data F 1)) b bs b' \<and> reading F content m b' c (p + length bs)"
  using assms
proof (induction bs arbitrary: b p)
  case (Cons x bs)
  then have p: "p < length c" and x: "c ! p = x" and bs: "take (length bs) (drop (p + 1) c) = bs"
    using slice_Cons [of "length bs" p c x bs] by auto
  obtain b1 where b1: "one_byte (read_data F 1) b = Inr (x, b1)" "reading F content m b1 c (p + 1)"
    using one_byte_read [OF Cons.prems(1) p] x by auto
  from Cons.IH [OF b1(2) bs] b1(1) show ?case by auto
qed auto

lemma feeds_buffer_read:
  assumes "reading F content m b c p" and "take (length bs) (drop p c) = bs"
    and "buffer_index b + length bs \<le> read_buffer_size b"
  shows "\<exists>b'. feeds (one_byte (buffer_read 1)) b bs b' \<and> reading F content m b' c (p + length bs)"
  using assms
proof (induction bs arbitrary: b p)
  case (Cons x bs)
  then have p: "p < length c" and x: "c ! p = x" and bs: "take (length bs) (drop (p + 1) c) = bs"
    using slice_Cons [of "length bs" p c x bs] by auto
  have one: "1 \<le> read_buffer_size b - buffer_index b" using Cons.prems(3) by simp
  obtain b1 where b1: "buffer_fetch 1 b = Inr (take 1 (drop p c), b1)" "reading F content m b1 c (p + 1)"
    "buffer_index b1 = buffer_index b + 1" "read_buffer_size b1 = read_buffer_size b"
    using fetch_reading [OF Cons.prems(1), of 1] one by auto
  then have "one_byte (buffer_read 1) b = Inr (x, b1)"
    using Cons.prems p x by (simp add: one_byte_def buffer_read_def reading_def hd_take hd_drop_conv_nth)
  moreover obtain b2 where "feeds (one_byte (buffer_read 1)) b1 bs b2" "reading F content m b2 c (p + 1 + length bs)"
    using Cons.IH [OF b1(2) bs] b1(3,4) Cons.prems(3) by auto
  ultimately show ?case by auto
qed auto

lemma compact_read_law:
  assumes "reading F content m b c p" and "take (length (compact_bytes x)) (drop p c) = compact_bytes x"
    and "0 \<le> x" and "x < 2 ^ 61"
  shows "\<exists>b'. fb_compact_read F b = Inr (word_of_int x :: 'a::len word, b') \<and>
    reading F content m b' c (p + length (compact_bytes x))"
proof (cases "buffer_index b + 8 \<le> read_buffer_size b")
  case True
  then have "buffer_index b + length (compact_bytes x) \<le> read_buffer_size b"
    using length_compact_bytes(2) [of x] by linarith
  from feeds_buffer_read [OF assms(1,2) this] obtain b' where
    b': "feeds (one_byte (buffer_read 1)) b (compact_bytes x) b'"
    "reading F content m b' c (p + length (compact_bytes x))" by blast
  then show ?thesis
    using compact_roundtrip [OF assms(3,4) b'(1)] True
    by (auto simp: fb_compact_read_def buffer_compact_read_def)
next
  case False
  from feeds_read_data [OF assms(1,2)] obtain b' where
    b': "feeds (one_byte (read_data F 1)) b (compact_bytes x) b'"
    "reading F content m b' c (p + length (compact_bytes x))" by blast
  then show ?thesis using compact_roundtrip [OF assms(3,4) b'(1)] False by (auto simp: fb_compact_read_def)
qed

lemma ignore_law:
  assumes "reading F content m b c p"
  shows "\<exists>b'. ignore F (int n) b = Inr b' \<and> reading F content m b' c (p + n)"
proof (cases "buffer_index b + n \<le> read_buffer_size b")
  case True
  then have "n \<le> read_buffer_size b - buffer_index b" by linarith
  from fetch_reading [OF assms this] obtain b' where
    "buffer_fetch n b = Inr (take n (drop p c), b')" "reading F content m b' c (p + n)" by auto
  then show ?thesis using True by (auto simp: ignore_def buffer_fetch_def nat_add_distrib split: if_splits)
next
  case False
  then have "\<not> int (buffer_index b) + int n \<le> int (read_buffer_size b)" by linarith
  then have "ignore F (int n) b = set_position F (int (p + n)) b"
    using reading_position [OF assms] by (simp add: ignore_def)
  then show ?thesis using set_position_reading [OF assms, of "p + n"] by auto
qed

end

end
