(* ===== verification/Journal_Format.thy ===== *)
theory Journal_Format
  imports Journal_Reader File_Buffer_Proofs
begin

text \<open>
  The file format as a specification: the bytes of one event in a given context, the context after
  it, and what a \<open>Writable\<close> receives when the event is replayed. The writer is shown to append
  exactly these bytes; the reader is treated in \<open>Journal_Roundtrip\<close>.
\<close>

declare operation_code.simps [simp del]

section \<open>The bytes of an event\<close>

type_synonym context_t = "Table_Id \<times> Record_Id \<times> Field_Id"

definition initial_context :: context_t where
  "initial_context = (0, - 1, 0)"

definition id_bytes :: "16 word \<Rightarrow> byte list" where
  "id_bytes i = compact_bytes (uint i)"

definition reference_bytes :: "Record_Id \<Rightarrow> byte list" where
  "reference_bytes r = compact_bytes (r + 1)"

definition string_bytes :: "string \<Rightarrow> byte list" where
  "string_bytes s = compact_bytes (int (length s)) @ bytes_of s"

fun value_bytes :: "field_value \<Rightarrow> byte list" where
  "value_bytes (String_Value s) = string_bytes s"
| "value_bytes (Reference_Value r) = reference_bytes r"
| "value_bytes (Blob_Value x) = compact_bytes (blob_position x) @ compact_bytes (blob_size x)"
| "value_bytes v = fixed_bytes v"

definition type_bytes :: "Type \<Rightarrow> byte list" where
  "type_bytes ty = [byte_of_type (type_id ty)] @ (if type_id ty = Reference_Type then id_bytes (type_table_id ty) else [])"

fun choose_kind :: "context_t \<Rightarrow> Table_Id \<Rightarrow> Record_Id \<Rightarrow> Field_Id \<Rightarrow> update_kind" where
  "choose_kind (t', r', f') t r f =
     (if t = t' \<and> r = r' then Update_Last
      else if t = t' \<and> r = r' + 1 \<and> f = f' then Update_Next
      else Update_This)"

fun target_bytes :: "update_kind \<Rightarrow> Table_Id \<Rightarrow> Record_Id \<Rightarrow> Field_Id \<Rightarrow> byte list" where
  "target_bytes Update_Last t r f = id_bytes f"
| "target_bytes Update_Next t r f = []"
| "target_bytes _ t r f = id_bytes t @ reference_bytes r @ id_bytes f"

fun appending :: "context_t \<Rightarrow> Table_Id \<Rightarrow> Record_Id \<Rightarrow> bool" where
  "appending (t', r', f') t r \<longleftrightarrow> t = t' \<and> r = r' + 1"

fun event_bytes :: "context_t \<Rightarrow> event \<Rightarrow> byte list" where
  "event_bytes c (Create_Table name) = [operation_code Create_Table_Op] @ string_bytes name"
| "event_bytes c (Drop_Table t) = [operation_code Drop_Table_Op] @ id_bytes t"
| "event_bytes c (Rename_Table t name) = [operation_code Rename_Table_Op] @ id_bytes t @ string_bytes name"
| "event_bytes c (Add_Field t name ty) =
     [operation_code Add_Field_Op] @ id_bytes t @ string_bytes name @ type_bytes ty"
| "event_bytes c (Drop_Field t f) = [operation_code Drop_Field_Op] @ id_bytes t @ id_bytes f"
| "event_bytes c (Rename_Field t f name) =
     [operation_code Rename_Field_Op] @ id_bytes t @ id_bytes f @ string_bytes name"
| "event_bytes c (Custom name) = [operation_code Custom_Op] @ string_bytes name"
| "event_bytes c (Comment s) = [operation_code Comment_Op] @ string_bytes s"
| "event_bytes c (Timestamp x) = [operation_code Timestamp_Op] @ to_bytes 8 x"
| "event_bytes c Valid_Data = [operation_code Valid_Data_Op]"
| "event_bytes c (Insert_Into t r) =
     (if appending c t r then [operation_code Append_Op]
      else [operation_code Insert_Into_Op] @ id_bytes t @ reference_bytes r)"
| "event_bytes c (Delete_From t r) = [operation_code Delete_From_Op] @ id_bytes t @ reference_bytes r"
| "event_bytes c (Insert_Vector t r n) =
     [operation_code Insert_Vector_Op] @ id_bytes t @ reference_bytes r @ compact_bytes (int n)"
| "event_bytes c (Delete_Vector t r n) =
     [operation_code Delete_Vector_Op] @ id_bytes t @ reference_bytes r @ compact_bytes (int n)"
| "event_bytes c (Update t r f v) =
     ([operation_code (Update_Op (type_of_value v) (choose_kind c t r f))] @ target_bytes (choose_kind c t r f) t r f)
     @ value_bytes (as_argument v)"
| "event_bytes c (Update_Vector t r f ty vs) =
     [operation_code (Update_Op ty Update_Many)] @ id_bytes t @ reference_bytes r @ id_bytes f
     @ compact_bytes (int (length vs)) @ concat (map value_bytes vs)"
| "event_bytes c (Write_Blob s) = [operation_code Blob_Op] @ compact_bytes (int (length s)) @ bytes_of s"
| "event_bytes c _ = []"

fun event_context :: "context_t \<Rightarrow> event \<Rightarrow> context_t" where
  "event_context (t', r', f') (Insert_Into t r) = (t, r, f')"
| "event_context (t', r', f') (Insert_Vector t r n) = (t, r, f')"
| "event_context c (Update t r f v) = (t, r, f)"
| "event_context c (Update_Vector t r f ty vs) = (t, r, f)"
| "event_context c e = c"

lemma event_context_insert:
  "event_context ctx (Insert_Into t r) = (t, r, snd (snd ctx))"
  "event_context ctx (Insert_Vector t r n) = (t, r, snd (snd ctx))"
  by (cases ctx; simp)+

section \<open>Events that fit the format\<close>

text \<open>Compact integers have 61 bits, and record identifiers are stored plus one.\<close>

definition size_fits :: "int \<Rightarrow> bool" where
  "size_fits x \<longleftrightarrow> 0 \<le> x \<and> x < 2 ^ 61"

definition record_fits :: "Record_Id \<Rightarrow> bool" where
  "record_fits r \<longleftrightarrow> size_fits (r + 1)"

fun value_fits :: "field_value \<Rightarrow> bool" where
  "value_fits (String_Value s) = size_fits (int (length s))"
| "value_fits (Reference_Value r) = record_fits r"
| "value_fits (Blob_Value x) = (size_fits (blob_position x) \<and> size_fits (blob_size x))"
| "value_fits v = True"

definition type_fits :: "Type \<Rightarrow> bool" where
  "type_fits ty \<longleftrightarrow> type_id ty \<in> set type_ids \<and> (type_id ty \<noteq> Reference_Type \<longrightarrow> type_table_id ty = 0)"

text \<open>The events that are stored in the file and that fit.\<close>

fun event_fits :: "event \<Rightarrow> bool" where
  "event_fits (Create_Table name) = size_fits (int (length name))"
| "event_fits (Drop_Table t) = True"
| "event_fits (Rename_Table t name) = size_fits (int (length name))"
| "event_fits (Add_Field t name ty) = (size_fits (int (length name)) \<and> type_fits ty)"
| "event_fits (Drop_Field t f) = True"
| "event_fits (Rename_Field t f name) = size_fits (int (length name))"
| "event_fits (Custom name) = size_fits (int (length name))"
| "event_fits (Comment s) = size_fits (int (length s))"
| "event_fits (Timestamp x) = True"
| "event_fits Valid_Data = True"
| "event_fits (Insert_Into t r) = record_fits r"
| "event_fits (Delete_From t r) = record_fits r"
| "event_fits (Insert_Vector t r n) = (record_fits r \<and> size_fits (int n))"
| "event_fits (Delete_Vector t r n) = (record_fits r \<and> size_fits (int n))"
| "event_fits (Update t r f v) = (record_fits r \<and> value_fits v)"
| "event_fits (Update_Vector t r f ty vs) =
     (record_fits r \<and> size_fits (int (length vs)) \<and> macro_type ty \<and> list_all (\<lambda>v. type_of_value v = ty \<and> value_fits v) vs)"
| "event_fits (Write_Blob s) = size_fits (int (length s))"
| "event_fits _ = False"

lemma uint_16_bound: "0 \<le> uint (i :: 16 word)" "uint (i :: 16 word) < 2 ^ 61"
  using unsigned_less [of i, where 'a = int] by simp_all

lemma value_fits_as_argument [simp]: "value_fits (as_argument v) = value_fits v"
  by (cases v) auto

lemma type_of_as_argument [simp]: "type_of_value (as_argument v) = type_of_value v"
  by (cases v) auto

lemma value_bytes_fixed:
  "type_width (type_of_value v) \<noteq> 0 \<Longrightarrow> value_bytes v = fixed_bytes v \<and> length (fixed_bytes v) = type_width (type_of_value v)"
  by (cases v) auto

section \<open>Writing\<close>

definition writes :: "'f Abstract_File \<Rightarrow> ('f \<Rightarrow> byte list) \<Rightarrow> ('f File_Buffer \<Rightarrow> 'f File_Buffer result) \<Rightarrow> byte list \<Rightarrow> bool" where
  "writes F content wr bs \<longleftrightarrow>
     (\<forall>m b c p. writing F content m b c p \<longrightarrow>
       (\<exists>b'. wr b = Inr b' \<and> writing F content m b' (patch c p bs) (p + length bs)))"

lemma writes_bind:
  assumes "writes F content f xs" and "writes F content g ys"
  shows "writes F content (\<lambda>b. bind_result (f b) g) (xs @ ys)"
  unfolding writes_def
proof (intro allI impI)
  fix m b c p
  assume w: "writing F content m b c p"
  then obtain b1 where b1: "f b = Inr b1" "writing F content m b1 (patch c p xs) (p + length xs)"
    using assms(1) unfolding writes_def by blast
  then obtain b2 where "g b1 = Inr b2"
    "writing F content m b2 (patch (patch c p xs) (p + length xs) ys) (p + length xs + length ys)"
    using assms(2) unfolding writes_def by blast
  with b1 patch_patch [OF writing_bound [OF w], of xs ys]
  show "\<exists>b'. bind_result (f b) g = Inr b' \<and> writing F content m b' (patch c p (xs @ ys)) (p + length (xs @ ys))"
    by (simp add: add.assoc)
qed

lemma writes_fold:
  assumes "\<And>x. x \<in> set xs \<Longrightarrow> writes F content (f x) (g x)"
  shows "writes F content (fold_result f xs) (concat (map g xs))"
  using assms
proof (induction xs)
  case Nil
  then show ?case by (simp add: writes_def)
next
  case (Cons x xs)
  then have "writes F content (\<lambda>b. bind_result (f x b) (fold_result f xs)) (g x @ concat (map g xs))"
    by (intro writes_bind) auto
  then show ?case by (simp add: fold_result.simps(2) [abs_def])
qed

context file_contract
begin

lemma writes_fixed: "length bs \<le> extra_size \<Longrightarrow> writes F content (fb_write F bs) bs"
  using fb_write_law by (auto simp: writes_def)

lemma writes_compact: "0 \<le> x \<Longrightarrow> writes F content (fb_compact_write F x) (compact_bytes x)"
  using compact_write_law by (auto simp: writes_def)

lemma writes_data: "writes F content (write_data F bs) bs"
  using write_data_law by (auto simp: writes_def)

lemma writes_string: "writes F content (write_string F s) (string_bytes s)"
  unfolding write_string_def [abs_def] string_bytes_def
  by (rule writes_bind [OF writes_compact writes_data]) simp

lemma writes_reference: "record_fits r \<Longrightarrow> writes F content (write_reference F r) (reference_bytes r)"
  unfolding write_reference_def [abs_def] reference_bytes_def
  by (rule writes_compact) (simp add: record_fits_def size_fits_def)

lemma writes_blob:
  assumes "0 \<le> blob_position x" and "0 \<le> blob_size x"
  shows "writes F content (fb_write_blob F x) (compact_bytes (blob_position x) @ compact_bytes (blob_size x))"
  unfolding fb_write_blob_def [abs_def]
  by (rule writes_bind [OF writes_compact writes_compact]) (use assms in auto)

lemma writes_value: "value_fits v \<Longrightarrow> writes F content (write_value F v) (value_bytes v)"
  using writes_string writes_reference writes_blob writes_fixed
  by (cases v) (simp_all add: write_value.simps [abs_def] size_fits_def)

lemma writes_vector:
  assumes "list_all (\<lambda>v. type_of_value v = ty \<and> value_fits v) vs" and "macro_type ty"
  shows "writes F content (write_vector F ty vs) (concat (map value_bytes vs))"
proof (cases "ty = Blob_Type \<or> ty = String_Type \<or> ty = Reference_Type")
  case True
  then have "write_vector F ty vs = fold_result (write_value F) vs" by (auto simp: write_vector_def)
  then show ?thesis using assms writes_fold [of vs F content "write_value F" value_bytes] writes_value
    by (auto simp: list_all_iff)
next
  case False
  then have "type_width ty \<noteq> 0" using assms(2) by (auto simp: macro_type_def type_ids_def)
  then have "map value_bytes vs = map fixed_bytes vs" using assms(1) value_bytes_fixed by (auto simp: list_all_iff)
  moreover have "write_vector F ty vs = write_data F (concat (map fixed_bytes vs))"
    using False by (auto simp: write_vector_def)
  ultimately show ?thesis using writes_data by (simp only:)
qed

end

text \<open>Everything in a journal but its file buffer.\<close>

definition journal_context :: "'f Journal \<Rightarrow> context_t" where
  "journal_context j = (table_of_last_operation j, record_of_last_operation j, field_of_last_update j)"

definition journal_marks :: "'f Journal \<Rightarrow> nat \<times> nat \<times> int \<times> int" where
  "journal_marks j = (hard_index j, soft_index j, checkpoint_position j, hard_checkpoint_position j)"

lemma last_record_simps [simp]:
  "file_buffer (set_last_record t r j) = file_buffer j"
  "journal_marks (set_last_record t r j) = journal_marks j"
  "journal_context (set_last_record t r j) = (t, r, snd (snd (journal_context j)))"
  "journal_marks (j\<lparr>field_of_last_update := f\<rparr>) = journal_marks j"
  "journal_context (j\<lparr>field_of_last_update := f\<rparr>) = (fst (journal_context j), fst (snd (journal_context j)), f)"
  "journal_marks (j\<lparr>record_of_last_operation := r\<rparr>) = journal_marks j"
  "journal_context (j\<lparr>record_of_last_operation := r\<rparr>) = (fst (journal_context j), r, snd (snd (journal_context j)))"
  by (simp_all add: set_last_record_def journal_marks_def journal_context_def)

lemma context_fields:
  assumes "journal_context j = (t, r, f)"
  shows "table_of_last_operation j = t" "record_of_last_operation j = r" "field_of_last_update j = f"
  using assms by (simp_all add: journal_context_def)

definition appended :: "'f Abstract_File \<Rightarrow> ('f \<Rightarrow> byte list) \<Rightarrow> Open_Mode \<Rightarrow> byte list \<Rightarrow> nat \<Rightarrow> byte list \<Rightarrow>
    nat \<times> nat \<times> int \<times> int \<Rightarrow> context_t \<Rightarrow> 'f Journal result \<Rightarrow> bool" where
  "appended F content m c p bs marks ctx r \<longleftrightarrow>
     (\<exists>j. r = Inr j \<and> writing F content m (file_buffer j) (patch c p bs) (p + length bs) \<and>
          journal_marks j = marks \<and> journal_context j = ctx)"

lemma appended_write:
  assumes "writes F content wr bs" and "writing F content m (file_buffer j) c p"
    and "journal_marks j = marks" and "journal_context j = ctx"
  shows "appended F content m c p bs marks ctx (jwrite wr j)"
proof -
  obtain b where "wr (file_buffer j) = Inr b" "writing F content m b (patch c p bs) (p + length bs)"
    using assms(1,2) unfolding writes_def by blast
  then show ?thesis using assms(3,4) by (simp add: appended_def jwrite_def journal_marks_def journal_context_def)
qed

lemma appended_bind:
  assumes "appended F content m c p xs marks1 ctx1 r" and "p \<le> length c"
    and "\<And>j. writing F content m (file_buffer j) (patch c p xs) (p + length xs) \<Longrightarrow>
      journal_marks j = marks1 \<Longrightarrow> journal_context j = ctx1 \<Longrightarrow>
      appended F content m (patch c p xs) (p + length xs) ys marks ctx (k j)"
  shows "appended F content m c p (xs @ ys) marks ctx (bind_result r k)"
proof -
  from assms(1) obtain j where j: "r = Inr j" "writing F content m (file_buffer j) (patch c p xs) (p + length xs)"
    "journal_marks j = marks1" "journal_context j = ctx1" by (auto simp: appended_def)
  from assms(3) [OF j(2-4)] j(1) patch_patch [OF assms(2), of xs ys] show ?thesis
    by (auto simp: appended_def add.assoc)
qed

lemma appended_return:
  assumes "writing F content m (file_buffer j) c p" and "journal_marks j = marks" and "journal_context j = ctx"
  shows "appended F content m c p [] marks ctx (Inr j)"
  using assms by (auto simp: appended_def)

text \<open>A step followed by an update of the context.\<close>

lemma appended_then:
  assumes "appended F content m c p xs marks ctx1 r"
    and "\<And>j. journal_marks j = marks \<Longrightarrow> journal_context j = ctx1 \<Longrightarrow>
      file_buffer (g j) = file_buffer j \<and> journal_marks (g j) = marks \<and> journal_context (g j) = ctx"
  shows "appended F content m c p xs marks ctx (bind_result r (\<lambda>j. Inr (g j)))"
  using assms unfolding appended_def by fastforce

context file_contract
begin

lemma appended_operation:
  assumes "writing F content m (file_buffer j) c p" and "journal_marks j = marks" and "journal_context j = ctx"
  shows "appended F content m c p [operation_code x] marks ctx (write_operation F x j)"
  unfolding write_operation_def by (rule appended_write [OF writes_fixed]) (use assms in simp_all)

lemma appended_id:
  assumes "writing F content m (file_buffer j) c p" and "journal_marks j = marks" and "journal_context j = ctx"
  shows "appended F content m c p (id_bytes i) marks ctx (write_id F i j)"
  unfolding write_id_def id_bytes_def by (rule appended_write [OF writes_compact]) (use assms in simp_all)

lemmas appended_string = appended_write [OF writes_string]
lemmas appended_reference = appended_write [OF writes_reference]
lemmas appended_compact = appended_write [OF writes_compact]
lemmas appended_fixed = appended_write [OF writes_fixed]

lemmas appending_rules = appended_bind appended_operation appended_id appended_string appended_reference
  appended_compact appended_fixed

lemma appended_insert_into:
  assumes "writing F content m (file_buffer j) c p" and "record_fits r" and "journal_context j = ctx"
  shows "appended F content m c p (event_bytes ctx (Insert_Into t r)) (journal_marks j)
    (event_context ctx (Insert_Into t r)) (journal_insert_into F t r j)"
proof -
  obtain t' r' f' where ctx: "ctx = (t', r', f')" by (cases ctx)
  note fields = context_fields [OF assms(3) [unfolded ctx]]
  have "appended F content m c p (event_bytes ctx (Insert_Into t r)) (journal_marks j) ctx
     (if t = table_of_last_operation j \<and> r = record_of_last_operation j + 1
      then write_operation F Append_Op j
      else bind_result (write_operation F Insert_Into_Op j) (\<lambda>j.
           bind_result (write_id F t j) (jwrite (write_reference F r))))"
  proof (cases "t = t' \<and> r = r' + 1")
    case True
    then show ?thesis using assms by (simp add: ctx fields) (intro appending_rules, simp_all add: ctx)
  next
    case False
    have "appended F content m c p ([operation_code Insert_Into_Op] @ id_bytes t @ reference_bytes r) (journal_marks j)
        ctx (bind_result (write_operation F Insert_Into_Op j) (\<lambda>j.
             bind_result (write_id F t j) (jwrite (write_reference F r))))"
      using assms writing_bound by (intro appending_rules) auto
    with False show ?thesis by (auto simp: ctx fields)
  qed
  then show ?thesis unfolding journal_insert_into_def by (rule appended_then) (simp add: ctx)
qed

lemma appended_generic_update:
  assumes "writing F content m (file_buffer j) c p" and "record_fits r" and "journal_context j = ctx"
  shows "appended F content m c p
    ([operation_code (Update_Op ty (choose_kind ctx t r f))] @ target_bytes (choose_kind ctx t r f) t r f)
    (journal_marks j) (t, r, f) (generic_update F t r f ty j)"
proof -
  obtain t' r' f' where ctx: "ctx = (t', r', f')" by (cases ctx)
  note fields = context_fields [OF assms(3) [unfolded ctx]]
  consider (last) "t = t' \<and> r = r'" | (nxt) "\<not> (t = t' \<and> r = r')" "t = t' \<and> r = r' + 1 \<and> f = f'"
    | (full) "\<not> (t = t' \<and> r = r')" "\<not> (t = t' \<and> r = r' + 1 \<and> f = f')" by blast
  then show ?thesis
  proof cases
    case last
    have "appended F content m c p ([operation_code (Update_Op ty Update_Last)] @ id_bytes f) (journal_marks j) (t', r', f)
        (bind_result (write_operation F (Update_Op ty Update_Last) j) (\<lambda>j.
         bind_result (write_id F f j) (\<lambda>j. Inr (j\<lparr>field_of_last_update := f\<rparr>))))"
      using assms writing_bound
      by (intro appended_bind [OF appended_operation] appended_then [OF appended_id]) (auto simp: ctx)
    with last show ?thesis by (simp add: generic_update_def ctx fields)
  next
    case nxt
    have "appended F content m c p [operation_code (Update_Op ty Update_Next)] (journal_marks j) (t', r' + 1, f')
        (bind_result (write_operation F (Update_Op ty Update_Next) j) (\<lambda>j.
         Inr (j\<lparr>record_of_last_operation := record_of_last_operation j + 1\<rparr>)))"
      using assms by (intro appended_then [OF appended_operation]) (auto simp: ctx dest: context_fields)
    with nxt show ?thesis by (simp add: generic_update_def ctx fields)
  next
    case full
    have "appended F content m c p ([operation_code (Update_Op ty Update_This)] @ id_bytes t @ reference_bytes r @ id_bytes f)
        (journal_marks j) (t, r, f)
        (bind_result (write_operation F (Update_Op ty Update_This) j) (\<lambda>j.
         bind_result (write_id F t j) (\<lambda>j.
         bind_result (jwrite (write_reference F r) j) (\<lambda>j.
         bind_result (write_id F f j) (\<lambda>j.
         Inr ((set_last_record t r j)\<lparr>field_of_last_update := f\<rparr>))))))"
      using assms writing_bound
      by (intro appended_bind [OF appended_operation] appended_bind [OF appended_id] appended_bind [OF appended_reference]
          appended_then [OF appended_id]) auto
    with full show ?thesis by (auto simp: generic_update_def ctx fields)
  qed
qed

lemma appended_update:
  assumes "writing F content m (file_buffer j) c p" and "record_fits r" and "value_fits v" and "journal_context j = ctx"
  shows "appended F content m c p (event_bytes ctx (Update t r f v)) (journal_marks j)
    (t, r, f) (journal_update F t r f v j)"
  unfolding journal_update_def event_bytes.simps
  by (intro appended_bind [OF appended_generic_update] appended_write [OF writes_value])
    (use assms writing_bound in auto)

lemma appended_update_vector:
  assumes "writing F content m (file_buffer j) c p" and "event_fits (Update_Vector t r f ty vs)" and "journal_context j = ctx"
  shows "appended F content m c p (event_bytes ctx (Update_Vector t r f ty vs)) (journal_marks j)
    (t, r, f) (journal_update_vector F t r f ty vs j)"
  unfolding journal_update_vector_def event_bytes.simps
  by (intro appended_bind [OF appended_operation] appended_bind [OF appended_id] appended_bind [OF appended_reference]
      appended_bind [OF appended_compact] appended_write [OF writes_vector])
    (use assms writing_bound in auto)

lemma appended_insert_vector:
  assumes "writing F content m (file_buffer j) c p" and "record_fits r" and "journal_context j = ctx"
  shows "appended F content m c p (event_bytes ctx (Insert_Vector t r n)) (journal_marks j)
    (event_context ctx (Insert_Vector t r n)) (journal_insert_vector F t r n j)"
  unfolding journal_insert_vector_def event_bytes.simps
  by (intro appended_bind [OF appended_operation] appended_bind [OF appended_id] appended_bind [OF appended_reference]
      appended_then [OF appended_compact]) (use assms writing_bound in \<open>auto simp: event_context_insert\<close>)

lemma appended_add_field:
  assumes "writing F content m (file_buffer j) c p" and "journal_context j = ctx"
  shows "appended F content m c p (event_bytes ctx (Add_Field t name ty)) (journal_marks j) ctx
    (journal_add_field F t name ty j)"
  unfolding journal_add_field_def event_bytes.simps type_bytes_def
  by (intro appended_bind [OF appended_operation] appended_bind [OF appended_id] appended_bind [OF appended_string]
      appended_bind [OF appended_fixed])
    (use assms writing_bound in \<open>auto intro: appended_id appended_return\<close>)

lemma appended_write_blob:
  assumes "writing F content m (file_buffer j) c p" and "journal_context j = ctx"
  obtains j' where "journal_write_blob F s j =
      Inr (\<lparr>blob_position = int (p + 1 + length (compact_bytes (int (length s)))), blob_size = int (length s)\<rparr>, j')"
    and "appended F content m c p (event_bytes ctx (Write_Blob s)) (journal_marks j) ctx (Inr j')"
proof -
  let ?hd = "[operation_code Blob_Op] @ compact_bytes (int (length s))"
  have "appended F content m c p ?hd (journal_marks j) ctx
      (bind_result (write_operation F Blob_Op j) (jwrite (fb_compact_write F (int (length s)))))"
    using assms writing_bound by (intro appended_bind [OF appended_operation] appended_compact) auto
  then obtain j1 where j1: "bind_result (write_operation F Blob_Op j) (jwrite (fb_compact_write F (int (length s)))) = Inr j1"
    "writing F content m (file_buffer j1) (patch c p ?hd) (p + length ?hd)"
    "journal_marks j1 = journal_marks j" "journal_context j1 = ctx"
    by (auto simp: appended_def)
  obtain b2 where b2: "flush F (file_buffer j1) = Inr b2" "writing F content m b2 (patch c p ?hd) (p + length ?hd)"
    "buffer_index b2 = 0" using flush_writing [OF j1(2)] by auto
  then have "filling F content m b2 (patch c p ?hd) (p + length ?hd)" by (simp add: writing_filling)
  then obtain b3 where b3: "fi_write F (bytes_of s) b2 = Inr b3"
    "writing F content m b3 (patch (patch c p ?hd) (p + length ?hd) (bytes_of s)) (p + length ?hd + length (bytes_of s))"
    using b2(3) by (rule fi_write_law [where bs = "bytes_of s"])
  have "appended F content m c p (event_bytes ctx (Write_Blob s)) (journal_marks j) ctx (Inr (j1\<lparr>file_buffer := b3\<rparr>))"
    using b3(2) j1(3,4) patch_patch [OF writing_bound [OF assms(1)], of ?hd "bytes_of s"]
    by (simp add: appended_def journal_marks_def journal_context_def add.assoc)
  moreover have "journal_get_position j1 = int (p + length ?hd)"
    using writing_position [OF j1(2)] by (simp add: journal_get_position_def)
  then have "journal_write_blob F s j =
      Inr (\<lparr>blob_position = int (p + length ?hd), blob_size = int (length s)\<rparr>, j1\<lparr>file_buffer := b3\<rparr>)"
    using j1(1) b2(1) b3(1) by (auto simp: journal_write_blob_def Let_def jwrite_def [of "flush F"] jwrite_def [of "fi_write F _"])
  ultimately show ?thesis using that by simp
qed

lemmas simple_events = journal_create_table_def journal_drop_table_def journal_rename_table_def journal_drop_field_def
  journal_rename_field_def journal_custom_def journal_comment_def journal_timestamp_def journal_valid_data_def
  journal_delete_from_def journal_delete_vector_def

theorem append_event:
  assumes "writing F content m (file_buffer j) c p" and "event_fits e" and "journal_context j = ctx"
  shows "appended F content m c p (event_bytes ctx e) (journal_marks j) (event_context ctx e) (journal_handle F e j)"
proof (cases e)
  case (Insert_Into t r)
  then show ?thesis using appended_insert_into [OF assms(1) _ assms(3)] assms(2) by simp
next
  case (Insert_Vector t r n)
  then show ?thesis using appended_insert_vector [OF assms(1) _ assms(3)] assms(2) by simp
next
  case (Update t r f v)
  then show ?thesis using appended_update [OF assms(1) _ _ assms(3)] assms(2) by simp
next
  case (Update_Vector t r f ty vs)
  then show ?thesis using appended_update_vector [OF assms(1) _ assms(3)] assms(2) by simp
next
  case (Add_Field t name ty)
  then show ?thesis using appended_add_field [OF assms(1,3)] by simp
next
  case (Write_Blob s)
  obtain j' where "journal_write_blob F s j =
      Inr (\<lparr>blob_position = int (p + 1 + length (compact_bytes (int (length s)))), blob_size = int (length s)\<rparr>, j')"
    "appended F content m c p (event_bytes ctx (Write_Blob s)) (journal_marks j) ctx (Inr j')"
    by (rule appended_write_blob [OF assms(1,3)])
  then show ?thesis by (simp add: Write_Blob)
qed (use assms writing_bound in
     \<open>auto simp: simple_events simp del: append_Cons append_Nil intro!: appending_rules\<close>)

end

end
