(* ===== verification/Journal_Roundtrip.thy ===== *)
theory Journal_Roundtrip
  imports Journal_Format
begin

text \<open>
  The reader against the file format: on the bytes of an event, \<open>one_step\<close> passes that event to the
  writable and leaves the journal in the context the writer had, so that a sequence of events
  written to a journal is delivered unchanged, and in order, by a replay.
\<close>

section \<open>Delivery\<close>

text \<open>
  What the writable receives for an event of the file. The blob of \<open>Write_Blob\<close> is announced with
  its position \<open>q\<close> in the file; a vector of size zero is not delivered; a vector is compared with
  the capacity of the storage the writable offers.
\<close>

fun deliver :: "'w Writable \<Rightarrow> nat \<Rightarrow> event \<Rightarrow> 'w \<Rightarrow> 'w result" where
  "deliver W q (Update t r f v) w = handle W (Update t r f (as_argument v)) w"
| "deliver W q (Update_Vector t r f ty vs) w =
     (if vs = [] then Inr w
      else bind_result (get_own_storage W w t f ty) (\<lambda>storage.
           if \<not> storage_in_range r (length vs) storage then Inl (Exception ''update_vector out of range'')
           else handle W (Update_Vector t r f ty vs) w))"
| "deliver W q (Write_Blob s) w =
     bind_result (handle W (On_Blob \<lparr>blob_position = int q, blob_size = int (length s)\<rparr>) w) (\<lambda>w'.
     if wants_blob_data W w' then handle W (Write_Blob s) w' else Inr w')"
| "deliver W q e w = handle W e w"

fun blob_offset :: "event \<Rightarrow> nat" where
  "blob_offset (Write_Blob s) = 1 + length (compact_bytes (int (length s)))"
| "blob_offset e = 0"

text \<open>The events that are delivered as they are and leave the context alone.\<close>

fun simple_event :: "event \<Rightarrow> bool" where
  "simple_event (Create_Table name) = True"
| "simple_event (Drop_Table t) = True"
| "simple_event (Rename_Table t name) = True"
| "simple_event (Add_Field t name ty) = True"
| "simple_event (Drop_Field t f) = True"
| "simple_event (Rename_Field t f name) = True"
| "simple_event (Custom name) = True"
| "simple_event (Comment s) = True"
| "simple_event (Timestamp x) = True"
| "simple_event Valid_Data = True"
| "simple_event (Delete_From t r) = True"
| "simple_event _ = False"

lemma deliver_simple: "simple_event e \<Longrightarrow> deliver W q e w = handle W e w \<and> event_context ctx e = ctx"
  by (cases e) auto

section \<open>Reading primitives\<close>

definition holds_at :: "byte list \<Rightarrow> nat \<Rightarrow> byte list \<Rightarrow> bool" where
  "holds_at c p bs \<longleftrightarrow> take (length bs) (drop p c) = bs"

lemma holds_at_append: "holds_at c p (xs @ ys) \<longleftrightarrow> holds_at c p xs \<and> holds_at c (p + length xs) ys"
proof
  assume *: "holds_at c p (xs @ ys)"
  have "take (length xs) (drop p c) = take (length xs) (take (length (xs @ ys)) (drop p c))" by simp
  also have "\<dots> = xs" using * by (simp add: holds_at_def)
  finally have "holds_at c p xs" by (simp add: holds_at_def)
  moreover have "take (length ys) (drop (p + length xs) c) = drop (length xs) (take (length (xs @ ys)) (drop p c))"
    by (simp add: drop_take add.commute)
  then have "holds_at c (p + length xs) ys" using * by (simp add: holds_at_def)
  ultimately show "holds_at c p xs \<and> holds_at c (p + length xs) ys" by simp
next
  assume "holds_at c p xs \<and> holds_at c (p + length xs) ys"
  then show "holds_at c p (xs @ ys)" by (simp add: holds_at_def take_add add.commute [of p])
qed

lemma holds_at_Nil [simp]: "holds_at c p []"
  by (simp add: holds_at_def)

lemma holds_at_length: "holds_at c p bs \<Longrightarrow> bs \<noteq> [] \<Longrightarrow> p + length bs \<le> length c"
proof -
  assume "holds_at c p bs" "bs \<noteq> []"
  then have "length bs \<le> length c - p" "0 < length bs"
    by (metis holds_at_def length_drop length_take min.cobounded1, simp)
  then show ?thesis by linarith
qed

definition reads :: "'f Abstract_File \<Rightarrow> ('f \<Rightarrow> byte list) \<Rightarrow> ('f File_Buffer \<Rightarrow> ('a \<times> 'f File_Buffer) result) \<Rightarrow>
    byte list \<Rightarrow> 'a \<Rightarrow> bool" where
  "reads F content rd bs x \<longleftrightarrow>
     (\<forall>m b c p. reading F content m b c p \<longrightarrow> holds_at c p bs \<longrightarrow>
       (\<exists>b'. rd b = Inr (x, b') \<and> reading F content m b' c (p + length bs)))"

lemma reads_bind:
  assumes "reads F content f xs x" and "reads F content (g x) ys y"
  shows "reads F content (\<lambda>b. bind_result (f b) (\<lambda>(x, b'). g x b')) (xs @ ys) y"
  unfolding reads_def
proof (intro allI impI)
  fix m b c p
  assume "reading F content m b c p" and h: "holds_at c p (xs @ ys)"
  then obtain b1 where b1: "f b = Inr (x, b1)" "reading F content m b1 c (p + length xs)"
    using assms(1) unfolding reads_def holds_at_append by blast
  then obtain b2 where "g x b1 = Inr (y, b2)" "reading F content m b2 c (p + length xs + length ys)"
    using assms(2) h unfolding reads_def holds_at_append by blast
  with b1 show "\<exists>b'. bind_result (f b) (\<lambda>(x, b'). g x b') = Inr (y, b') \<and> reading F content m b' c (p + length (xs @ ys))"
    by (simp add: add.assoc)
qed

lemma reads_return: "reads F content (\<lambda>b. Inr (x, b)) [] x"
  by (simp add: reads_def)

lemma reads_map:
  assumes "reads F content f xs x"
  shows "reads F content (\<lambda>b. bind_result (f b) (\<lambda>(x, b'). Inr (g x, b'))) xs (g x)"
  using reads_bind [OF assms, of "\<lambda>x b'. Inr (g x, b')" "[]" "g x"] by (simp add: reads_return)

lemma size_fits_word:
  assumes "size_fits x"
  shows "unat (word_of_int x :: 64 word) = nat x" and "sint (word_of_int x :: 64 word) = x"
proof -
  show "sint (word_of_int x :: 64 word) = x" using assms by (intro sint_word_of_int) (auto simp: size_fits_def)
  have "(word_of_int x :: 64 word) = word_of_nat (nat x)" "nat x < 2 ^ 64"
    using assms by (auto simp: size_fits_def nat_less_iff)
  then show "unat (word_of_int x :: 64 word) = nat x" by (simp add: unat_of_nat)
qed

context file_contract
begin

lemma reads_data:
  assumes "length bs = n"
  shows "reads F content (read_data F n) bs bs"
  unfolding reads_def
proof (intro allI impI)
  fix m b c p
  assume r: "reading F content m b c p" and h: "holds_at c p bs"
  show "\<exists>b'. read_data F n b = Inr (bs, b') \<and> reading F content m b' c (p + length bs)"
  proof (cases "bs = []")
    case True
    moreover have "buffer_index b \<le> read_buffer_size b" "buffer_index b \<le> length (buffer_data b)"
      using r by (auto simp: reading_def)
    ultimately show ?thesis using r assms reading_idle [OF r] by (simp add: read_data_def buffer_fetch_def)
  next
    case False
    from read_data_law [OF r, of n] holds_at_length [OF h False] h assms show ?thesis
      by (auto simp: holds_at_def)
  qed
qed

lemma reads_compact: "size_fits x \<Longrightarrow> reads F content (fb_compact_read F) (compact_bytes x) (word_of_int x :: 'a::len word)"
  using compact_read_law by (auto simp: reads_def holds_at_def size_fits_def)

lemma reads_fixed:
  fixes w :: "'a::len word"
  assumes "LENGTH('a) = 8 * n"
  shows "reads F content (fb_read F n) (to_bytes n w) w"
  using reads_map [OF reads_data, of "to_bytes n w" n "of_bytes :: byte list \<Rightarrow> 'a word"] of_to_bytes [OF assms]
  by (simp add: fb_read_def [abs_def])

lemma reads_byte: "reads F content (fb_read F 1) [b] (b :: byte)"
  using reads_fixed [of 1 b] by (simp add: to_bytes_byte)

lemma reads_reference: "record_fits r \<Longrightarrow> reads F content (read_reference F) (reference_bytes r) r"
  using reads_map [OF reads_compact, of "r + 1" "\<lambda>w :: 64 word. sint w - 1"] size_fits_word(2) [of "r + 1"]
  by (simp add: read_reference_def [abs_def] reference_bytes_def record_fits_def)

lemma reads_string:
  assumes "size_fits (int (length s))" and "int (length s) < max_size"
  shows "reads F content (fb_safe_read_string F max_size) (string_bytes s) s"
proof -
  let ?g = "\<lambda>(w :: 64 word) b'. if sint w > 0 \<and> sint w < max_size
     then bind_result (read_data F (nat (sint w)) b') (\<lambda>(bs, b''). Inr (string_of bs, b'')) else Inr ([], b')"
  have "reads F content (?g (word_of_int (int (length s)))) (bytes_of s) s"
  proof (cases "s = []")
    case True
    then show ?thesis using reads_return by (simp add: bytes_of_def)
  next
    case False
    then show ?thesis
      using reads_map [OF reads_data, of "bytes_of s" "length s" string_of] assms size_fits_word(2) [OF assms(1)]
      by (simp del: of_int_of_nat_eq)
  qed
  from reads_bind [OF reads_compact [OF assms(1)], where g = ?g, OF this] show ?thesis
    unfolding fb_safe_read_string_def [abs_def] string_bytes_def .
qed

lemma reads_blob:
  assumes "size_fits (blob_position x)" and "size_fits (blob_size x)"
  shows "reads F content (fb_read_blob F) (compact_bytes (blob_position x) @ compact_bytes (blob_size x)) x"
  unfolding fb_read_blob_def [abs_def]
  by (rule reads_bind [OF reads_compact [OF assms(1)]])
    (use reads_map [OF reads_compact [OF assms(2)], of "\<lambda>n :: 64 word. \<lparr>blob_position = blob_position x, blob_size = sint n\<rparr>"]
       size_fits_word(2) [OF assms(1)] size_fits_word(2) [OF assms(2)] in \<open>cases x; simp\<close>)

end

section \<open>Reading in a journal\<close>

definition consumed :: "'f Abstract_File \<Rightarrow> ('f \<Rightarrow> byte list) \<Rightarrow> Open_Mode \<Rightarrow> byte list \<Rightarrow> nat \<Rightarrow>
    nat \<times> nat \<times> int \<times> int \<Rightarrow> context_t \<Rightarrow> 'a \<Rightarrow> ('a \<times> 'f Journal) result \<Rightarrow> bool" where
  "consumed F content m c p marks ctx x r \<longleftrightarrow>
     (\<exists>j. r = Inr (x, j) \<and> reading F content m (file_buffer j) c p \<and> journal_marks j = marks \<and> journal_context j = ctx)"

definition stepped :: "'f Abstract_File \<Rightarrow> ('f \<Rightarrow> byte list) \<Rightarrow> Open_Mode \<Rightarrow> byte list \<Rightarrow> nat \<Rightarrow>
    nat \<times> nat \<times> int \<times> int \<Rightarrow> context_t \<Rightarrow> 'w result \<Rightarrow> ('f Journal \<times> 'w) result \<Rightarrow> bool" where
  "stepped F content m c p marks ctx wr r \<longleftrightarrow>
     (\<exists>j. r = bind_result wr (\<lambda>w. Inr (j, w)) \<and> reading F content m (file_buffer j) c p \<and>
          journal_marks j = marks \<and> journal_context j = ctx)"

lemma consumed_jread:
  assumes "reads F content rd bs x" and "reading F content m (file_buffer j) c p" and "holds_at c p bs"
    and "journal_marks j = marks" and "journal_context j = ctx"
  shows "consumed F content m c (p + length bs) marks ctx x (jread rd j)"
proof -
  obtain b where "rd (file_buffer j) = Inr (x, b)" "reading F content m b c (p + length bs)"
    using assms(1-3) unfolding reads_def by blast
  then show ?thesis using assms(4,5) by (simp add: consumed_def jread_def journal_marks_def journal_context_def)
qed

lemma consumed_bind:
  assumes "consumed F content m c q marks1 ctx1 x r"
    and "\<And>j. reading F content m (file_buffer j) c q \<Longrightarrow> journal_marks j = marks1 \<Longrightarrow> journal_context j = ctx1 \<Longrightarrow>
      consumed F content m c p marks ctx y (k x j)"
  shows "consumed F content m c p marks ctx y (bind_result r (\<lambda>(x, j). k x j))"
  using assms by (auto simp: consumed_def)

lemma consumed_return:
  "reading F content m (file_buffer j) c p \<Longrightarrow> journal_marks j = marks \<Longrightarrow> journal_context j = ctx \<Longrightarrow> x = y \<Longrightarrow>
     consumed F content m c p marks ctx y (Inr (x, j))"
  by (auto simp: consumed_def)

lemma stepped_bind:
  assumes "consumed F content m c q marks1 ctx1 x r"
    and "\<And>j. reading F content m (file_buffer j) c q \<Longrightarrow> journal_marks j = marks1 \<Longrightarrow> journal_context j = ctx1 \<Longrightarrow>
      stepped F content m c p marks ctx wr (k x j)"
  shows "stepped F content m c p marks ctx wr (bind_result r (\<lambda>(x, j). k x j))"
  using assms by (auto simp: consumed_def)

lemma stepped_call:
  assumes "reading F content m (file_buffer j) c q" and "q = p" and "journal_marks j = marks" and "journal_context j = ctx"
  shows "stepped F content m c p marks ctx (handle W e w) (call W e j w)"
  using assms unfolding stepped_def call_def by blast

text \<open>A call followed by an update of the context.\<close>

lemma stepped_call_then:
  assumes "reading F content m (file_buffer j) c q" and "q = p" and "file_buffer (g j) = file_buffer j"
    and "journal_marks (g j) = marks" and "journal_context (g j) = ctx"
  shows "stepped F content m c p marks ctx (handle W e w) (bind_result (call W e j w) (\<lambda>(j, w). Inr (g j, w)))"
  unfolding stepped_def call_def using assms by (intro exI [of _ "g j"]) (cases "handle W e w", auto)

lemma operation_of_code_inverse: "x \<in> set operations \<Longrightarrow> operation_of_code (operation_code x) = Some x"
proof -
  have "list_all (\<lambda>x. operation_of_code (operation_code x) = Some x) operations" by code_simp
  then show "x \<in> set operations \<Longrightarrow> operation_of_code (operation_code x) = Some x" by (simp add: list_all_iff)
qed

lemma update_operations: "macro_type ty \<Longrightarrow> Update_Op ty k \<in> set operations"
  by (cases k) (auto simp: operations_def macro_type_def)

lemma simple_operations:
  "Create_Table_Op \<in> set operations" "Drop_Table_Op \<in> set operations" "Rename_Table_Op \<in> set operations"
  "Add_Field_Op \<in> set operations" "Drop_Field_Op \<in> set operations" "Rename_Field_Op \<in> set operations"
  "Insert_Into_Op \<in> set operations" "Delete_From_Op \<in> set operations" "Insert_Vector_Op \<in> set operations"
  "Delete_Vector_Op \<in> set operations" "Append_Op \<in> set operations" "Custom_Op \<in> set operations"
  "Comment_Op \<in> set operations" "Timestamp_Op \<in> set operations" "Valid_Data_Op \<in> set operations"
  "Blob_Op \<in> set operations"
  by (simp_all add: operations_def)

lemma fixed_value_bytes: "type_width (type_of_value v) \<noteq> 0 \<Longrightarrow> fixed_value (type_of_value v) (fixed_bytes v) = v"
  by (cases v) auto

lemma chunks_fixed:
  "list_all (\<lambda>v. type_of_value v = ty) vs \<Longrightarrow> type_width ty \<noteq> 0 \<Longrightarrow>
     map (fixed_value ty) (chunks (type_width ty) (length vs) (concat (map fixed_bytes vs))) = vs"
  using value_bytes_fixed fixed_value_bytes by (induction vs) auto

lemma length_fixed_vector:
  "list_all (\<lambda>v. type_of_value v = ty) vs \<Longrightarrow> type_width ty \<noteq> 0 \<Longrightarrow>
     length (concat (map fixed_bytes vs)) = length vs * type_width ty"
  using value_bytes_fixed by (induction vs) auto

lemma length_value_bytes: "0 < length (value_bytes v)"
  using length_compact_bytes(1) by (cases v) (auto simp: string_bytes_def reference_bytes_def)

lemma length_vector_bytes: "length vs \<le> length (concat (map value_bytes vs))"
proof (induction vs)
  case (Cons v vs)
  moreover have "1 \<le> length (value_bytes v)" using length_value_bytes [of v] by linarith
  ultimately show ?case by simp
qed simp

lemma marks_checkpoint: "journal_marks j = marks \<Longrightarrow> checkpoint_position j = fst (snd (snd marks))"
  by (auto simp: journal_marks_def)

lemma length_strings:
  "value_fits (String_Value s) \<Longrightarrow> length s < length (value_bytes (String_Value s))"
  using length_compact_bytes(1) [of "int (length s)"] by (simp add: string_bytes_def)

context file_contract
begin

lemma consumed_id:
  assumes "reading F content m (file_buffer j) c p" and "holds_at c p (id_bytes i)"
    and "journal_marks j = marks" and "journal_context j = ctx"
  shows "consumed F content m c (p + length (id_bytes i)) marks ctx i (read_id F j)"
proof -
  have "size_fits (uint i)" using uint_16_bound [of i] by (simp add: size_fits_def)
  from reads_compact [OF this, where 'a = 16] have "reads F content (fb_compact_read F) (id_bytes i) i"
    by (simp add: id_bytes_def)
  then show ?thesis unfolding read_id_def by (rule consumed_jread) (use assms in auto)
qed

lemma consumed_string:
  assumes "reading F content m (file_buffer j) c p" and "holds_at c p (string_bytes s)" and "size_fits (int (length s))"
    and "int (length s) < checkpoint_position j" and "journal_marks j = marks" and "journal_context j = ctx"
  shows "consumed F content m c (p + length (string_bytes s)) marks ctx s (journal_safe_read_string F j)"
  unfolding journal_safe_read_string_def by (rule consumed_jread [OF reads_string]) (use assms in auto)

lemma consumed_value:
  assumes "reading F content m (file_buffer j) c p" and "holds_at c p (value_bytes v)" and "value_fits v"
    and "int (p + length (value_bytes v)) \<le> checkpoint_position j"
    and "journal_marks j = marks" and "journal_context j = ctx"
  shows "consumed F content m c (p + length (value_bytes v)) marks ctx v (read_value F (type_of_value v) j)"
proof -
  have fixed: ?thesis if "type_width (type_of_value v) \<noteq> 0"
  proof -
    note v = value_bytes_fixed [OF that]
    have "consumed F content m c (p + length (value_bytes v)) marks ctx (fixed_bytes v)
        (jread (read_data F (type_width (type_of_value v))) j)"
      using v assms consumed_jread [OF reads_data, of "fixed_bytes v" "type_width (type_of_value v)" m j c p marks ctx]
      by simp
    then show ?thesis
      using that fixed_value_bytes [OF that] by (auto simp: read_value_def intro!: consumed_bind consumed_return)
  qed
  show ?thesis
  proof (cases v)
    case (String_Value s)
    then have "int (length s) < checkpoint_position j" using assms(3,4) length_strings [of s] by simp
    then show ?thesis using assms String_Value
      by (auto simp: read_value_def intro!: consumed_bind [OF consumed_string] consumed_return)
  next
    case (Reference_Value r)
    then show ?thesis using assms
      by (auto simp: read_value_def intro!: consumed_bind [OF consumed_jread [OF reads_reference]] consumed_return)
  next
    case (Blob_Value x)
    then show ?thesis using assms
      by (auto simp: read_value_def intro!: consumed_bind [OF consumed_jread [OF reads_blob]] consumed_return)
  qed (use fixed in auto)
qed

lemma consumed_values:
  assumes "reading F content m (file_buffer j) c p" and "holds_at c p (concat (map value_bytes vs))"
    and "list_all (\<lambda>v. type_of_value v = ty \<and> value_fits v) vs"
    and "int (p + length (concat (map value_bytes vs))) \<le> checkpoint_position j"
    and "journal_marks j = marks" and "journal_context j = ctx"
  shows "consumed F content m c (p + length (concat (map value_bytes vs))) marks ctx vs (read_values F ty (length vs) j)"
  using assms
proof (induction vs arbitrary: j p)
  case (Cons v vs)
  let ?q = "p + length (value_bytes v)"
  have "consumed F content m c ?q marks ctx v (read_value F (type_of_value v) j)"
    using Cons.prems by (intro consumed_value) (auto simp: holds_at_append)
  moreover have "consumed F content m c (?q + length (concat (map value_bytes vs))) marks ctx (v # vs)
      (bind_result (read_values F ty (length vs) j') (\<lambda>(vs, j''). Inr (v # vs, j'')))"
    if "reading F content m (file_buffer j') c ?q" "journal_marks j' = marks" "journal_context j' = ctx" for j'
    using Cons.prems that marks_checkpoint [OF Cons.prems(5)] marks_checkpoint [OF that(2)]
    by (intro consumed_bind [OF Cons.IH] consumed_return) (auto simp: holds_at_append)
  ultimately have "consumed F content m c (?q + length (concat (map value_bytes vs))) marks ctx (v # vs)
      (bind_result (read_value F (type_of_value v) j) (\<lambda>(v, j').
       bind_result (read_values F ty (length vs) j') (\<lambda>(vs, j''). Inr (v # vs, j''))))"
    by (rule consumed_bind)
  with Cons.prems(3) show ?case by (simp add: add.assoc)
qed (simp add: consumed_return)

lemma consumed_vector:
  assumes "reading F content m (file_buffer j) c p" and "holds_at c p (concat (map value_bytes vs))"
    and "list_all (\<lambda>v. type_of_value v = ty \<and> value_fits v) vs" and "macro_type ty"
    and "int (p + length (concat (map value_bytes vs))) \<le> checkpoint_position j"
    and "journal_marks j = marks" and "journal_context j = ctx"
  shows "consumed F content m c (p + length (concat (map value_bytes vs))) marks ctx vs (read_vector F ty (length vs) j)"
proof (cases "ty = Blob_Type \<or> ty = String_Type \<or> ty = Reference_Type")
  case True
  then show ?thesis using consumed_values [OF assms(1-3,5-7)] by (auto simp: read_vector_def)
next
  case False
  then have w: "type_width ty \<noteq> 0" using assms(4) by (auto simp: macro_type_def type_ids_def)
  have t: "list_all (\<lambda>v. type_of_value v = ty) vs" using assms(3) by (auto simp: list_all_iff)
  have e: "map value_bytes vs = map fixed_bytes vs" using t w value_bytes_fixed by (auto simp: list_all_iff)
  have "consumed F content m c (p + length (concat (map value_bytes vs))) marks ctx (concat (map fixed_bytes vs))
      (jread (read_data F (length vs * type_width ty)) j)"
    using assms unfolding e by (intro consumed_jread [OF reads_data]) (auto simp: length_fixed_vector [OF t w])
  then show ?thesis using False chunks_fixed [OF t w]
    by (auto simp: read_vector_def intro!: consumed_bind consumed_return)
qed

lemma consumed_type:
  assumes "reading F content m (file_buffer j) c p" and "holds_at c p (type_bytes ty)" and "type_fits ty"
    and "journal_marks j = marks" and "journal_context j = ctx"
  shows "consumed F content m c (p + length (type_bytes ty)) marks ctx ty (read_type F j)"
proof -
  have b: "type_of_byte (byte_of_type (type_id ty)) = type_id ty"
    using assms(3) by (intro type_of_byte_of_type) (simp add: type_fits_def)
  have r: "reads F content (fb_read F 1) [byte_of_type (type_id ty)] (byte_of_type (type_id ty))"
    using reads_byte .
  have h: "holds_at c p [byte_of_type (type_id ty)]"
    "type_id ty = Reference_Type \<Longrightarrow> holds_at c (p + 1) (id_bytes (type_table_id ty))"
    using assms(2) unfolding type_bytes_def holds_at_append by (auto split: if_splits)
  show ?thesis
  proof (cases "type_id ty = Reference_Type")
    case True
    then have "reference_type (type_table_id ty) = ty" by (cases ty) (simp add: reference_type_def)
    moreover have "consumed F content m c (p + 1 + length (id_bytes (type_table_id ty))) marks ctx (reference_type (type_table_id ty))
        (bind_result (read_id F j') (\<lambda>(i, j''). Inr (reference_type i, j'')))"
      if "reading F content m (file_buffer j') c (p + 1)" "journal_marks j' = marks" "journal_context j' = ctx" for j'
      using that h(2) True by (intro consumed_bind [OF consumed_id] consumed_return) auto
    ultimately show ?thesis using True b unfolding read_type_def type_bytes_def
      by (intro consumed_bind [OF consumed_jread [OF r assms(1) h(1) assms(4,5)]]) (simp add: Let_def)
  next
    case False
    then have "simple_type (type_id ty) = ty" using assms(3) by (cases ty) (simp add: simple_type_def type_fits_def)
    then show ?thesis using False b unfolding read_type_def type_bytes_def
      by (intro consumed_bind [OF consumed_jread [OF r assms(1) h(1) assms(4,5)]])
        (simp add: Let_def consumed_return)
  qed
qed

section \<open>One step\<close>

lemma one_step_operation:
  assumes "reading F content m (file_buffer j) c p" and "holds_at c p [operation_code x]" and "x \<in> set operations"
    and "journal_marks j = marks1" and "journal_context j = ctx1"
    and "\<And>j. reading F content m (file_buffer j) c (p + length [operation_code x]) \<Longrightarrow> journal_marks j = marks1 \<Longrightarrow>
      journal_context j = ctx1 \<Longrightarrow> stepped F content m c q marks ctx wr (perform F W x j w)"
  shows "stepped F content m c q marks ctx wr (one_step F W j w)"
  unfolding one_step_def
  by (rule stepped_bind [OF consumed_jread [OF reads_byte assms(1,2,4,5)]])
    (use assms(6) operation_of_code_inverse [OF assms(3)] in simp)

lemma stepped_update:
  assumes "reading F content m (file_buffer j) c p" and "holds_at c p (value_bytes (as_argument v))" and "value_fits v"
    and "int (p + length (value_bytes (as_argument v))) \<le> checkpoint_position j"
    and "journal_marks j = marks" and "journal_context j = (t, r, f)"
  shows "stepped F content m c (p + length (value_bytes (as_argument v))) marks (t, r, f)
    (handle W (Update t r f (as_argument v)) w) (perform_update F W (type_of_value v) j w)"
proof -
  have "as_argument (as_argument v) = as_argument v" by (cases v) auto
  moreover have "consumed F content m c (p + length (value_bytes (as_argument v))) marks (t, r, f) (as_argument v)
      (read_value F (type_of_value v) j)"
    using consumed_value [OF assms(1,2) _ assms(4-6)] assms(3) by simp
  ultimately show ?thesis unfolding perform_update_def
    by (intro stepped_bind) (auto simp: journal_context_def intro!: stepped_call)
qed

lemma stepped_update_vector:
  assumes "reading F content m (file_buffer j) c p"
    and "holds_at c p bs" and "bs = compact_bytes (int (length vs)) @ concat (map value_bytes vs)"
    and "size_fits (int (length vs))" and "macro_type ty"
    and "list_all (\<lambda>v. type_of_value v = ty \<and> value_fits v) vs"
    and "int (p + length bs) \<le> checkpoint_position j"
    and "journal_marks j = marks" and "journal_context j = (t, r, f)"
  shows "stepped F content m c (p + length bs) marks (t, r, f)
    (deliver W x (Update_Vector t r f ty vs) w) (perform_update_vector F W ty j w)"
proof -
  let ?q = "p + length (compact_bytes (int (length vs)))"
  define n where "n = (word_of_int (int (length vs)) :: 64 word)"
  have n: "unat n = length vs" "sint n = int (length vs)"
    using size_fits_word [OF assms(4)] by (simp_all add: n_def)
  then have z: "n = 0 \<longleftrightarrow> vs = []" by (metis length_0_conv unat_eq_zero)
  have le: "sint n \<le> checkpoint_position j"
    using n(2) length_vector_bytes [of vs] assms(3,7) by simp
  have "stepped F content m c (p + length bs) marks (t, r, f) (deliver W x (Update_Vector t r f ty vs) w)
     (if n = 0 then Inr (j', w)
      else if sint n > checkpoint_position j' then Inl (Exception ''update_vector too big'')
      else
        let t = table_of_last_operation j'; r = record_of_last_operation j'; f = field_of_last_update j' in
        bind_result (get_own_storage W w t f ty) (\<lambda>storage.
        if \<not> storage_in_range r (unat n) storage then Inl (Exception ''update_vector out of range'')
        else
          bind_result (read_vector F ty (unat n) j') (\<lambda>(vs, j'').
          call W (Update_Vector t r f ty vs) j'' w)))"
    if j': "reading F content m (file_buffer j') c ?q" "journal_marks j' = marks" "journal_context j' = (t, r, f)" for j'
  proof -
    note ck = marks_checkpoint [OF assms(8)] marks_checkpoint [OF j'(2)]
    show ?thesis
    proof (cases "vs = []")
      case True
      then show ?thesis using z j' assms(3) by (auto simp: stepped_def)
    next
      case False
      have "consumed F content m c (?q + length (concat (map value_bytes vs))) marks (t, r, f) vs (read_vector F ty (length vs) j')"
        using j' assms ck by (intro consumed_vector) (auto simp: holds_at_append)
      then obtain j'' where j'': "read_vector F ty (length vs) j' = Inr (vs, j'')"
        "reading F content m (file_buffer j'') c (p + length bs)" "journal_marks j'' = marks" "journal_context j'' = (t, r, f)"
        by (auto simp: consumed_def add.assoc assms(3))
      show ?thesis unfolding stepped_def
        using False z n le ck j'' context_fields [OF j'(3)]
        by (intro exI [of _ j'']) (auto simp: call_def bind_result_def Let_def split: sum.splits)
    qed
  qed
  note step = this
  have h: "holds_at c p (compact_bytes (int (length vs)))" using assms(2,3) by (simp add: holds_at_append)
  show ?thesis unfolding perform_update_vector_guarded
    by (rule stepped_bind [OF consumed_jread [OF reads_compact [OF assms(4), where 'a = 64, folded n_def] assms(1) h assms(8,9)]])
      (rule step)
qed

lemma stepped_blob:
  assumes "reading F content m (file_buffer j) c p" and "holds_at c p bs"
    and "bs = compact_bytes (int (length s)) @ bytes_of s"
    and "size_fits (int (length s))" and "int (p + length bs) \<le> checkpoint_position j"
    and "journal_marks j = marks" and "journal_context j = ctx"
  shows "stepped F content m c (p + length bs) marks ctx
    (deliver W (p + length (compact_bytes (int (length s)))) (Write_Blob s) w) (perform F W Blob_Op j w)"
proof -
  let ?q = "p + length (compact_bytes (int (length s)))"
  define n where "n = (word_of_int (int (length s)) :: 64 word)"
  have n: "sint n = int (length s)" using size_fits_word [OF assms(4)] by (simp add: n_def)
  obtain j1 where j1: "jread (fb_compact_read F) j = Inr (n, j1)" "reading F content m (file_buffer j1) c ?q"
    "journal_marks j1 = marks" "journal_context j1 = ctx"
    using consumed_jread [OF reads_compact [OF assms(4), where 'a = 64, folded n_def] assms(1) _ assms(6,7)] assms(2)
    by (auto simp: assms(3) holds_at_append consumed_def)
  have lt: "int (length s) < checkpoint_position j1"
    using assms(5) marks_checkpoint [OF assms(6)] marks_checkpoint [OF j1(3)] length_compact_bytes(1) [of "int (length s)"]
    unfolding assms(3) length_append length_bytes_of by linarith
  have pos: "journal_get_position j1 = int ?q" using reading_position [OF j1(2)] by (simp add: journal_get_position_def)
  have "consumed F content m c (?q + length (bytes_of s)) marks ctx (bytes_of s)
      (if sint n > 0 then jread (read_data F (nat (sint n))) j1 else Inr ([], j1))"
  proof (cases "s = []")
    case True
    then show ?thesis using j1 n by (auto simp: bytes_of_def intro!: consumed_return)
  next
    case False
    then have "consumed F content m c (?q + length (bytes_of s)) marks ctx (bytes_of s) (jread (read_data F (length s)) j1)"
      using j1 assms(2) by (intro consumed_jread [OF reads_data]) (auto simp: assms(3) holds_at_append)
    then show ?thesis using False n by simp
  qed
  then obtain j2 where j2: "(if sint n > 0 then jread (read_data F (nat (sint n))) j1 else Inr ([], j1)) = Inr (bytes_of s, j2)"
    "reading F content m (file_buffer j2) c (p + length bs)" "journal_marks j2 = marks" "journal_context j2 = ctx"
    by (auto simp: consumed_def assms(3) add.assoc)
  obtain b3 where b3: "ignore F (int (length s)) (file_buffer j1) = Inr b3" "reading F content m b3 c (p + length bs)"
    using ignore_law [OF j1(2), of "length s"] by (auto simp: assms(3) add.assoc)
  define j3 where "j3 = j1\<lparr>file_buffer := b3\<rparr>"
  have j3: "jwrite (ignore F (int (length s))) j1 = Inr j3" "reading F content m (file_buffer j3) c (p + length bs)"
    "journal_marks j3 = marks" "journal_context j3 = ctx"
    using b3 j1(3,4) by (simp_all add: j3_def jwrite_def journal_marks_def journal_context_def)
  have r: "perform F W Blob_Op j w = bind_result (call W (On_Blob \<lparr>blob_position = int ?q, blob_size = int (length s)\<rparr>) j1 w) (\<lambda>(j, w).
     if wants_blob_data W w \<and> int (length s) < checkpoint_position j
     then bind_result (if sint n > 0 then jread (read_data F (nat (sint n))) j else Inr ([], j)) (\<lambda>(bs, j).
          call W (Write_Blob (string_of bs)) j w)
     else bind_result (jwrite (ignore F (int (length s))) j) (\<lambda>j. Inr (j, w)))"
    unfolding perform.simps j1(1) bind_result_simps prod.case pos n ..
  show ?thesis
  proof (cases "handle W (On_Blob \<lparr>blob_position = int ?q, blob_size = int (length s)\<rparr>) w")
    case (Inl e)
    then show ?thesis using j2 unfolding r stepped_def by (intro exI [of _ j2]) (simp add: call_def)
  next
    case (Inr w1)
    show ?thesis
    proof (cases "wants_blob_data W w1")
      case True
      then show ?thesis using Inr j2(2-4) lt unfolding r stepped_def
        by (intro exI [of _ j2]) (simp add: call_def j2(1))
    next
      case False
      then show ?thesis using Inr j3(2-4) unfolding r stepped_def
        by (intro exI [of _ j3]) (simp add: call_def j3(1))
    qed
  qed
qed

lemma consumed_name:
  assumes "reading F content m (file_buffer j) c p" and "holds_at c p (string_bytes s)" and "size_fits (int (length s))"
    and "journal_marks j = marks" and "journal_context j = ctx" and "int (length s) < fst (snd (snd marks))"
  shows "consumed F content m c (p + length (string_bytes s)) marks ctx s (journal_safe_read_string F j)"
  using assms marks_checkpoint [OF assms(4)] by (intro consumed_string) auto

lemma consumed_reference:
  assumes "reading F content m (file_buffer j) c p" and "holds_at c p (reference_bytes r)" and "record_fits r"
    and "journal_marks j = marks" and "journal_context j = ctx"
  shows "consumed F content m c (p + length (reference_bytes r)) marks ctx r (jread (read_reference F) j)"
  using assms by (intro consumed_jread [OF reads_reference])

lemma consumed_size:
  assumes "reading F content m (file_buffer j) c p" and "holds_at c p (compact_bytes (int (unat n)))"
    and "size_fits (int (unat n))" and "journal_marks j = marks" and "journal_context j = ctx"
  shows "consumed F content m c (p + length (compact_bytes (int (unat n)))) marks ctx (n :: 64 word) (jread (fb_compact_read F) j)"
  using assms consumed_jread [OF reads_compact [OF assms(3), where 'a = 64]] by simp

lemma consumed_int64:
  assumes "reading F content m (file_buffer j) c p" and "holds_at c p (to_bytes 8 x)"
    and "journal_marks j = marks" and "journal_context j = ctx"
  shows "consumed F content m c (p + length (to_bytes 8 x)) marks ctx (x :: 64 word) (jread (fb_read F 8) j)"
  using assms by (intro consumed_jread [OF reads_fixed]) auto

text \<open>The rules that decode one event; \<open>stepped_bind\<close> is resolved before its reader.\<close>

lemmas decoding = stepped_bind consumed_id consumed_name consumed_reference consumed_size consumed_int64 consumed_type
  stepped_call

lemma one_step_simple:
  assumes "reading F content m (file_buffer j) c p" and "holds_at c p (event_bytes ctx e)" and "event_fits e"
    and "int (p + length (event_bytes ctx e)) \<le> checkpoint_position j" and "journal_context j = ctx" and "simple_event e"
  shows "stepped F content m c (p + length (event_bytes ctx e)) (journal_marks j) ctx (handle W e w) (one_step F W j w)"
proof -
  have ck: "int (length s) < fst (snd (snd (journal_marks j)))" if "length s < length (event_bytes ctx e)" for s :: string
    using that assms(4) by (simp add: journal_marks_def)
  note start = one_step_operation [OF assms(1) _ _ refl assms(5)]
  show ?thesis
    using assms(6)
    apply (cases e)
    apply (insert assms(2,3) ck)
    apply (simp_all only: simple_event.simps event_bytes.simps event_fits.simps holds_at_append)
    apply ((elim conjE)?, rule start, assumption, rule simple_operations, unfold perform.simps,
      (rule decoding | assumption | simp add: string_bytes_def)+)+
    done
qed

lemma one_step_insert_into:
  assumes "reading F content m (file_buffer j) c p" and "holds_at c p (event_bytes ctx (Insert_Into t r))" and "record_fits r"
    and "journal_context j = ctx"
  shows "stepped F content m c (p + length (event_bytes ctx (Insert_Into t r))) (journal_marks j)
    (event_context ctx (Insert_Into t r)) (handle W (Insert_Into t r) w) (one_step F W j w)"
proof -
  obtain t' r' f' where ctx: "ctx = (t', r', f')" by (cases ctx)
  note start = one_step_operation [OF assms(1) _ _ refl assms(4)]
  show ?thesis
  proof (cases "t = t' \<and> r = r' + 1")
    case True
    then have "holds_at c p [operation_code Append_Op]" using assms(2) by (simp add: ctx)
    then show ?thesis
      by (rule start [OF _ simple_operations(11)])
        (use True in \<open>auto simp: ctx Let_def journal_context_def intro!: stepped_call\<close>)
  next
    case False
    then have eb: "event_bytes ctx (Insert_Into t r) = [operation_code Insert_Into_Op] @ id_bytes t @ reference_bytes r"
      by (auto simp: ctx)
    show ?thesis using assms(2,3) unfolding eb holds_at_append event_context_insert
      by (elim conjE)
        (rule start, assumption, rule simple_operations, unfold perform.simps,
          (rule decoding stepped_call_then | assumption | simp)+)
  qed
qed

lemma one_step_vectors:
  assumes "reading F content m (file_buffer j) c p" and "holds_at c p (event_bytes ctx e)" and "event_fits e"
    and "journal_context j = ctx" and "e = Insert_Vector t r n \<or> e = Delete_Vector t r n"
  shows "stepped F content m c (p + length (event_bytes ctx e)) (journal_marks j) (event_context ctx e)
    (handle W e w) (one_step F W j w)"
proof -
  note start = one_step_operation [OF assms(1) _ _ refl assms(4)]
  have "size_fits (int n)" using assms(3,5) by auto
  then obtain k :: "64 word" where "n = unat k"
    using size_fits_word(1) [of "int n"] by (metis nat_int)
  show ?thesis
    using assms(2,3,5) unfolding \<open>n = unat k\<close>
    apply (elim disjE)
    apply (simp_all only: event_bytes.simps event_fits.simps holds_at_append event_context_insert event_context.simps)
    apply ((elim conjE)?, rule start, assumption, rule simple_operations, unfold perform.simps,
      (rule decoding stepped_call_then | assumption | simp)+)+
    done
qed

lemma one_step_update:
  assumes "reading F content m (file_buffer j) c p" and "holds_at c p (event_bytes ctx (Update t r f v))"
    and "record_fits r" and "value_fits v" and "int (p + length (event_bytes ctx (Update t r f v))) \<le> checkpoint_position j"
    and "journal_context j = ctx"
  shows "stepped F content m c (p + length (event_bytes ctx (Update t r f v))) (journal_marks j) (t, r, f)
    (handle W (Update t r f (as_argument v)) w) (one_step F W j w)"
proof -
  obtain t' r' f' where ctx: "ctx = (t', r', f')" by (cases ctx)
  define k where "k = choose_kind ctx t r f"
  let ?vb = "value_bytes (as_argument v)" and ?q = "p + 1 + length (target_bytes k t r f)"
  have h: "holds_at c p [operation_code (Update_Op (type_of_value v) k)]"
    "holds_at c (p + 1) (target_bytes k t r f)" "holds_at c ?q ?vb"
    using assms(2) unfolding event_bytes.simps holds_at_append k_def by (simp_all add: add.assoc)
  have q: "p + length (event_bytes ctx (Update t r f v)) = ?q + length ?vb"
    by (simp add: k_def)
  have upd: "stepped F content m c z (journal_marks j) (t, r, f)
      (handle W (Update t r f (as_argument v)) w) (perform_update F W (type_of_value v) j' w)"
    if "reading F content m (file_buffer j') c q'" "q' = ?q" "z = ?q + length ?vb"
      "journal_marks j' = journal_marks j" "journal_context j' = (t, r, f)" for j' q' z
    using that h(3) assms(4,5) q marks_checkpoint [OF that(4)] marks_checkpoint [OF refl, of j]
    unfolding that(2,3) by (intro stepped_update) auto
  show ?thesis unfolding q
  proof (rule one_step_operation [OF assms(1) h(1) update_operations refl assms(6)])
    fix j1
    assume j1: "reading F content m (file_buffer j1) c (p + length [operation_code (Update_Op (type_of_value v) k)])"
      "journal_marks j1 = journal_marks j" "journal_context j1 = ctx"
    note fields = context_fields [OF j1(3) [unfolded ctx]]
    consider (Last) "k = Update_Last" "t = t'" "r = r'" | (Next) "k = Update_Next" "t = t'" "r = r' + 1" "f = f'"
      | (Full) "k = Update_This" unfolding k_def ctx
      by (cases "choose_kind (t', r', f') t r f") (auto split: if_splits)
    then show "stepped F content m c (?q + length ?vb) (journal_marks j) (t, r, f)
      (handle W (Update t r f (as_argument v)) w) (perform F W (Update_Op (type_of_value v) k) j1 w)"
    proof cases
      case Last
      show ?thesis unfolding Last(1) perform.simps
        by (intro stepped_bind [OF consumed_id [where i = f]] upd) (use Last j1 h(2) in \<open>auto simp: ctx\<close>)
    next
      case Next
      show ?thesis unfolding Next(1) perform.simps by (intro upd) (use Next j1 fields in \<open>auto simp: ctx\<close>)
    next
      case Full
      have h': "holds_at c (p + 1) (id_bytes t)" "holds_at c (p + 1 + length (id_bytes t)) (reference_bytes r)"
        "holds_at c (p + 1 + length (id_bytes t) + length (reference_bytes r)) (id_bytes f)"
        using h(2) Full by (simp_all add: holds_at_append add.assoc)
      from j1 have "reading F content m (file_buffer j1) c (p + 1)" by simp
      with j1(2,3) show ?thesis unfolding Full perform.simps
        by - (rule decoding upd h' assms(3) | assumption | simp add: Full)+
    qed
  qed simp
qed

lemma one_step_update_vector:
  assumes "reading F content m (file_buffer j) c p" and "holds_at c p (event_bytes ctx (Update_Vector t r f ty vs))"
    and "event_fits (Update_Vector t r f ty vs)"
    and "int (p + length (event_bytes ctx (Update_Vector t r f ty vs))) \<le> checkpoint_position j"
    and "journal_context j = ctx"
  shows "stepped F content m c (p + length (event_bytes ctx (Update_Vector t r f ty vs))) (journal_marks j) (t, r, f)
    (deliver W x (Update_Vector t r f ty vs) w) (one_step F W j w)"
proof -
  let ?vb = "compact_bytes (int (length vs)) @ concat (map value_bytes vs)"
  let ?q = "p + 1 + length (id_bytes t) + length (reference_bytes r) + length (id_bytes f)"
  have h: "holds_at c p [operation_code (Update_Op ty Update_Many)]"
    "holds_at c (p + 1) (id_bytes t)" "holds_at c (p + 1 + length (id_bytes t)) (reference_bytes r)"
    "holds_at c (p + 1 + length (id_bytes t) + length (reference_bytes r)) (id_bytes f)" "holds_at c ?q ?vb"
    using assms(2) unfolding event_bytes.simps holds_at_append by (simp_all add: holds_at_append add.assoc)
  have q: "p + length (event_bytes ctx (Update_Vector t r f ty vs)) = ?q + length ?vb" by simp
  have upd: "stepped F content m c (?q + length ?vb) (journal_marks j) (t, r, f)
      (deliver W x (Update_Vector t r f ty vs) w) (perform_update_vector F W ty j' w)"
    if "reading F content m (file_buffer j') c ?q" "journal_marks j' = journal_marks j" "journal_context j' = (t, r, f)" for j'
    using that h(5) assms(3,4) q marks_checkpoint [OF that(2)] marks_checkpoint [OF refl, of j]
    by (intro stepped_update_vector) auto
  have o: "Update_Op ty Update_Many \<in> set operations" using assms(3) by (intro update_operations) simp
  have r: "record_fits r" using assms(3) by simp
  show ?thesis unfolding q
  proof (rule one_step_operation [OF assms(1) h(1) o refl assms(5)])
    fix j1
    assume "reading F content m (file_buffer j1) c (p + length [operation_code (Update_Op ty Update_Many)])"
      and j1: "journal_marks j1 = journal_marks j" "journal_context j1 = ctx"
    then have "reading F content m (file_buffer j1) c (p + 1)" by simp
    with j1 show "stepped F content m c (?q + length ?vb) (journal_marks j) (t, r, f)
        (deliver W x (Update_Vector t r f ty vs) w) (perform F W (Update_Op ty Update_Many) j1 w)"
      unfolding perform.simps by - (rule decoding upd h r | assumption | simp)+
  qed
qed

theorem one_step_event:
  assumes "reading F content m (file_buffer j) c p" and "holds_at c p (event_bytes ctx e)" and "event_fits e"
    and "int (p + length (event_bytes ctx e)) \<le> checkpoint_position j" and "journal_context j = ctx"
  shows "stepped F content m c (p + length (event_bytes ctx e)) (journal_marks j) (event_context ctx e)
    (deliver W (p + blob_offset e) e w) (one_step F W j w)"
proof -
  have simple: ?thesis if "simple_event e"
    using one_step_simple [OF assms that, of W w] unfolding deliver_simple [OF that, THEN conjunct1]
      deliver_simple [OF that, THEN conjunct2] .
  show ?thesis
  proof (cases e)
    case (Insert_Into t r)
    then show ?thesis using one_step_insert_into [OF assms(1) _ _ assms(5)] assms(2,3) by (simp del: event_bytes.simps event_context.simps)
  next
    case (Insert_Vector t r n)
    then show ?thesis using one_step_vectors [OF assms(1,2,3,5), of t r n] by (simp del: event_bytes.simps event_context.simps)
  next
    case (Delete_Vector t r n)
    then show ?thesis using one_step_vectors [OF assms(1,2,3,5), of t r n] by (simp del: event_bytes.simps event_context.simps)
  next
    case (Update t r f v)
    then show ?thesis using one_step_update [OF assms(1) _ _ _ _ assms(5), of t r f v] assms(2,3,4)
      by (simp del: event_bytes.simps)
  next
    case (Update_Vector t r f ty vs)
    then show ?thesis using one_step_update_vector [OF assms(1) _ _ _ assms(5), of t r f ty vs] assms(2,3,4)
      by (simp del: event_bytes.simps deliver.simps)
  next
    case (Write_Blob s)
    let ?bs = "compact_bytes (int (length s)) @ bytes_of s"
    have h: "holds_at c p [operation_code Blob_Op]" "holds_at c (p + 1) ?bs"
      using assms(2) unfolding Write_Blob event_bytes.simps holds_at_append by simp_all
    have "stepped F content m c (p + 1 + length ?bs) (journal_marks j) ctx
        (deliver W (p + 1 + length (compact_bytes (int (length s)))) (Write_Blob s) w) (one_step F W j w)"
      by (rule one_step_operation [OF assms(1) h(1) simple_operations(16) refl assms(5)])
        (rule stepped_blob [OF _ h(2) refl], use assms(3,4) Write_Blob in \<open>auto simp: journal_marks_def\<close>)
    then show ?thesis by (simp add: Write_Blob)
  qed (use simple assms(3) in auto)
qed

end

end
