(* ===== verification/Checkpoint_Protocol.thy ===== *)
theory Checkpoint_Protocol
  imports Journal_Format
begin

text \<open>
  The checkpoint protocol of \<open>Writable_Journal.cpp\<close> and \<open>Readonly_Journal.cpp\<close>. The header has two
  pairs of slots. A hard checkpoint is a pair of equal slots; soft checkpoints are written, negated,
  into the pair that does not hold the current hard checkpoint. The invariant \<open>slots_ok\<close> relates the
  slots to the state of the writer, and makes every reader find the writer's checkpoints.
\<close>

section \<open>Slots\<close>

definition slots :: "byte list \<Rightarrow> int list" where
  "slots c = map sint (checkpoints_of_bytes c)"

definition int64_range :: "int \<Rightarrow> bool" where
  "int64_range x \<longleftrightarrow> - (2 ^ 63) < x \<and> x < 2 ^ 63"

lemma sint_of_int64: "int64_range x \<Longrightarrow> sint (word_of_int x :: 64 word) = x"
  by (simp add: int64_range_def sint_uint uint_word_of_int_eq signed_take_bit_take_bit signed_take_bit_int_eq_self)

lemma neg_int64: "int64_range x \<Longrightarrow> neg x = - x"
  using sint_of_int64 [of "- x"] by (simp add: neg_def int64_range_def)

lemma neg_neg: "int64_range x \<Longrightarrow> neg (neg x) = x"
  using neg_int64 [of x] neg_int64 [of "- x"] by (simp add: int64_range_def)

lemma length_slots [simp]: "length (slots c) = 4"
  by (simp add: slots_def checkpoints_of_bytes_def)

lemma nth_slots: "i < 4 \<Longrightarrow> slots c ! i = sint (of_bytes (take 8 (drop (8 * i) c)) :: 64 word)"
  by (simp add: slots_def checkpoints_of_bytes_def)

lemma slots_take: "32 \<le> n \<Longrightarrow> slots (take n c) = slots c"
proof (rule nth_equalityI)
  fix i assume n: "32 \<le> n" and "i < length (slots (take n c))"
  then have "i < 4" by simp
  moreover from this n have "take 8 (drop (8 * i) (take n c)) = take 8 (drop (8 * i) c)"
    by (simp add: drop_take)
  ultimately show "slots (take n c) ! i = slots c ! i" by (simp add: nth_slots)
qed simp

lemma slots_patch:
  assumes "i < 4" and "32 \<le> length c"
  shows "slots (patch c (8 * i) (to_bytes 8 (w :: 64 word))) = (slots c)[i := sint w]"
proof (rule nth_equalityI)
  fix k assume "k < length (slots (patch c (8 * i) (to_bytes 8 w)))"
  then have k: "k < 4" by simp
  have off: "8 * i \<le> length c" using assms by simp
  consider "k < i" | "k = i" | "i < k" by linarith
  then have "take 8 (drop (8 * k) (patch c (8 * i) (to_bytes 8 w))) =
      (if k = i then to_bytes 8 w else take 8 (drop (8 * k) c))"
  proof cases
    case 1
    then have "take 8 (drop (8 * k) (patch c (8 * i) (to_bytes 8 w)))
        = drop (8 * k) (take (8 * k + 8) (patch c (8 * i) (to_bytes 8 w)))" by (simp add: drop_take)
    also have "\<dots> = drop (8 * k) (take (8 * k + 8) c)" using 1 off by (subst take_patch) auto
    finally show ?thesis using 1 by (simp add: drop_take)
  next
    case 2
    then show ?thesis using drop_patch_same [OF off, of "to_bytes 8 w"] by simp
  next
    case 3
    then show ?thesis using off by (simp add: drop_patch)
  qed
  then show "slots (patch c (8 * i) (to_bytes 8 w)) ! k = (slots c)[i := sint w] ! k"
    using k assms(1) by (cases "k = i") (simp_all add: nth_slots)
qed simp

lemma slots_patch_after: "32 \<le> off \<Longrightarrow> off \<le> length c \<Longrightarrow> slots (patch c off bs) = slots c"
  using slots_take [of off "patch c off bs"] slots_take [of off c] by (simp add: take_patch)

section \<open>The invariant\<close>

definition slots_ok :: "int list \<Rightarrow> nat \<times> nat \<times> int \<times> int \<Rightarrow> bool" where
  "slots_ok pos = (\<lambda>(hard, soft, ck, hck).
     hard \<in> {0, 1} \<and> soft \<in> {0, 1} \<and> int header_size \<le> hck \<and> hck \<le> ck \<and> ck < 2 ^ 63 \<and>
     length pos = 4 \<and> list_all int64_range pos \<and>
     pos ! (2 * hard) = hck \<and> pos ! (2 * hard + 1) = hck \<and>
     - pos ! (2 * flip hard) \<le> ck \<and> - pos ! (2 * flip hard + 1) \<le> ck \<and>
     pos ! (2 * flip hard) \<le> hck \<and> pos ! (2 * flip hard + 1) \<le> hck \<and>
     (hck < ck \<longrightarrow> pos ! (2 * flip hard + soft) = - ck))"

lemma flip_simps [simp]: "flip 0 = 1" "flip (Suc 0) = 0"
  by (simp_all add: flip_def)

lemma slots_ok_new: "slots_ok (replicate 4 41) (0, 0, 41, 41)"
  by (simp add: slots_ok_def int64_range_def list_all_length)

lemma slots_ok_soft:
  assumes "slots_ok pos (hard, soft, ck, hck)" and "ck < p" and "p < 2 ^ 63"
  shows "slots_ok (pos[2 * flip hard + flip soft := - p]) (hard, flip soft, p, hck)"
  using assms by (auto simp: slots_ok_def int64_range_def nth_list_update list_all_length)

lemma slots_ok_hard:
  assumes "slots_ok pos (hard, soft, ck, hck)" and "hck < p" and "p < 2 ^ 63"
  shows "slots_ok (pos[2 * flip hard := p, 2 * flip hard + 1 := p]) (flip hard, soft, p, p)"
  using assms by (auto simp: slots_ok_def int64_range_def nth_list_update list_all_length)

section \<open>Reading the checkpoints\<close>

definition read_pair :: "int list \<Rightarrow> int \<Rightarrow> nat \<Rightarrow> 'f Journal \<Rightarrow> 'f Journal" where
  "read_pair pos sz i j = fold (read_soft_checkpoint pos sz i) [0, 1] (read_hard_checkpoint pos i j)"

lemma read_checkpoint_pairs:
  "read_checkpoint pos sz j =
     (let j' = read_pair pos sz 1 (read_pair pos sz 0 j)
      in if hard_checkpoint_position j' > checkpoint_position j'
         then j'\<lparr>checkpoint_position := hard_checkpoint_position j'\<rparr> else j')"
  by (simp add: read_checkpoint_def read_pair_def)

text \<open>The pair of the hard checkpoint is recognised as such.\<close>

lemma read_pair_hard:
  assumes "pos ! (2 * i) = hck" and "pos ! (2 * i + 1) = hck" and "int64_range hck" and "- hck < checkpoint_position j"
    and "hard_checkpoint_position j \<le> hck"
  shows "read_pair pos sz i j = j\<lparr>hard_checkpoint_position := hck, hard_index := i\<rparr>"
  using assms neg_int64 [OF assms(3)] by (simp add: read_pair_def read_hard_checkpoint_def read_soft_checkpoint_def Let_def)

text \<open>The other pair contributes the last soft checkpoint, or an older hard checkpoint.\<close>

lemma read_softs:
  assumes "int64_range (pos ! (2 * i))" and "int64_range (pos ! (2 * i + 1))"
    and "- pos ! (2 * i) \<le> ck" and "- pos ! (2 * i + 1) \<le> ck" and "checkpoint_position j \<le> ck" and "sz < 0 \<or> ck \<le> sz"
    and "journal_marks (fold (read_soft_checkpoint pos sz i) [0, 1] j) = (h, s, k, hk)"
  shows "hk = hard_checkpoint_position j" and "checkpoint_position j \<le> k" and "k \<le> ck"
    and "k = checkpoint_position j \<and> h = hard_index j \<and> s = soft_index j \<and>
        - pos ! (2 * i) < k \<and> - pos ! (2 * i + 1) < k \<or> h = flip i \<and> s \<in> {0, 1} \<and> pos ! (2 * i + s) = - k"
    and "- pos ! (2 * i) \<le> k" and "- pos ! (2 * i + 1) \<le> k"
  using assms neg_int64 [OF assms(1)] neg_int64 [OF assms(2)]
  by (auto simp: read_soft_checkpoint_def Let_def journal_marks_def split: if_splits)

lemma read_checkpoint_ok:
  assumes "slots_ok pos (hard, soft, ck, hck)" and "sz < 0 \<or> ck \<le> sz"
    and "int header_size \<le> checkpoint_position j" and "checkpoint_position j \<le> ck" and "hard_checkpoint_position j \<le> hck"
    and "soft_index j \<in> {0, 1}"
  shows "\<exists>h s. journal_marks (read_checkpoint pos sz j) = (h, s, ck, hck) \<and> slots_ok pos (h, s, ck, hck)"
proof -
  have r: "int64_range (pos ! i)" if "i < 4" for i using assms(1) that by (auto simp: slots_ok_def list_all_length)
  have sl: "hard = 0 \<or> hard = 1" "soft = 0 \<or> soft = 1" "int header_size \<le> hck" "hck \<le> ck"
    "pos ! (2 * hard) = hck" "pos ! (2 * hard + 1) = hck" "- pos ! (2 * flip hard) \<le> ck" "- pos ! (2 * flip hard + 1) \<le> ck"
    "pos ! (2 * flip hard) \<le> hck" "pos ! (2 * flip hard + 1) \<le> hck" "hck < ck \<Longrightarrow> pos ! (2 * flip hard + soft) = - ck"
    using assms(1) by (auto simp: slots_ok_def)
  have ok: "slots_ok pos (h, s, ck, hck)"
    if "s \<in> {0, 1}" "h = hard \<or> h = flip hard \<and> pos ! (2 * flip hard) = hck \<and> pos ! (2 * flip hard + 1) = hck"
      "hck < ck \<Longrightarrow> h = hard \<and> pos ! (2 * flip hard + s) = - ck" for h s
    using that assms(1) by (auto simp: slots_ok_def)
  have range: "int64_range hck" "int64_range (pos ! (2 * flip hard))" "int64_range (pos ! (2 * flip hard + 1))"
    using r [of "2 * hard"] r [of "2 * flip hard"] r [of "2 * flip hard + 1"] sl(1,5) by auto
  have last: "k = ck" if "hck < ck" "- pos ! (2 * flip hard) \<le> k" "- pos ! (2 * flip hard + 1) \<le> k" "k \<le> ck" for k
    using sl(2,11) that by auto
  have slot: "hck < ck \<Longrightarrow> pos ! (2 * flip hard) = - ck \<or> pos ! (2 * flip hard + 1) = - ck"
    using sl(2,11) by auto
  show ?thesis
  proof (cases "hard = 0")
    case True
    define j1 where "j1 = j\<lparr>hard_checkpoint_position := hck, hard_index := 0\<rparr>"
    define j2 where "j2 = read_hard_checkpoint pos 1 j1"
    define j3 where "j3 = fold (read_soft_checkpoint pos sz 1) [0, 1] j2"
    have "read_pair pos sz 0 j = j1"
      unfolding j1_def by (rule read_pair_hard) (use sl True assms range(1) in auto)
    then have rc: "read_checkpoint pos sz j = (if hard_checkpoint_position j3 > checkpoint_position j3
         then j3\<lparr>checkpoint_position := hard_checkpoint_position j3\<rparr> else j3)"
      by (simp add: read_checkpoint_pairs read_pair_def Let_def j2_def j3_def)
    have j2: "hard_checkpoint_position j2 = hck" "checkpoint_position j2 = checkpoint_position j" "soft_index j2 = soft_index j"
      "hard_index j2 = 0 \<or> hard_index j2 = 1 \<and> pos ! 2 = hck \<and> pos ! 3 = hck"
      using sl(9,10) True by (auto simp: j1_def j2_def read_hard_checkpoint_def)
    obtain h s k hk where m: "journal_marks j3 = (h, s, k, hk)" by (cases "journal_marks j3") auto
    note soft = read_softs [where i = 1 and j = j2 and ck = ck, OF _ _ _ _ _ assms(2) m [unfolded j3_def]]
    have soft: "hk = hck" "k \<le> ck" "- pos ! 2 \<le> k" "- pos ! 3 \<le> k"
      "k = checkpoint_position j \<and> h = hard_index j2 \<and> s = soft_index j \<and> - pos ! 2 < k \<and> - pos ! 3 < k
       \<or> h = 0 \<and> s \<in> {0, 1} \<and> pos ! (2 + s) = - k"
      using soft range sl(7,8) assms(4) j2(1-3) True by (simp_all add: eval_nat_numeral)
    have "(if hck > k then hck else k) = ck"
      using last [of k] soft(2-4) sl(4) True by (cases "hck < ck") auto
    then have "journal_marks (read_checkpoint pos sz j) = (h, s, ck, hck)"
      using m soft(1) by (auto simp: rc journal_marks_def split: if_splits)
    moreover have "slots_ok pos (h, s, ck, hck)"
      using soft(5) j2(4) assms(6) last [of k] slot soft(2-4) True
      by (intro ok) (auto simp: eval_nat_numeral)
    ultimately show ?thesis by blast
  next
    case False
    then have True: "hard = 1" using sl(1) by simp
    define j2 where "j2 = read_hard_checkpoint pos 0 j"
    define j3 where "j3 = fold (read_soft_checkpoint pos sz 0) [0, 1] j2"
    have j2: "hard_checkpoint_position j2 \<le> hck" "checkpoint_position j2 = checkpoint_position j" "soft_index j2 = soft_index j"
      using sl(9,10) True assms(5) by (auto simp: j2_def read_hard_checkpoint_def)
    obtain h s k hk where m: "journal_marks j3 = (h, s, k, hk)" by (cases "journal_marks j3") auto
    note soft = read_softs [where i = 0 and j = j2 and ck = ck, OF _ _ _ _ _ assms(2) m [unfolded j3_def]]
    have soft: "hk \<le> hck" "k \<le> ck" "int header_size \<le> k" "- pos ! 0 \<le> k" "- pos ! 1 \<le> k"
      "k = checkpoint_position j \<and> s = soft_index j \<and> - pos ! 0 < k \<and> - pos ! 1 < k \<or> s \<in> {0, 1} \<and> pos ! s = - k"
      using soft range sl(7,8) assms(3,4) j2(1-3) True by auto
    have "read_pair pos sz 1 (read_pair pos sz 0 j) = j3\<lparr>hard_checkpoint_position := hck, hard_index := 1\<rparr>"
      unfolding read_pair_def [of pos sz 0] j2_def [symmetric] j3_def [symmetric]
      by (rule read_pair_hard) (use sl True m soft(1,3) range(1) in \<open>auto simp: journal_marks_def\<close>)
    moreover have "(if hck > k then hck else k) = ck"
      using last [of k] soft(2,4,5) sl(4) True by (cases "hck < ck") auto
    ultimately have "journal_marks (read_checkpoint pos sz j) = (1, s, ck, hck)"
      using m by (auto simp: read_checkpoint_pairs Let_def journal_marks_def split: if_splits)
    moreover have "slots_ok pos (1, s, ck, hck)"
      using soft(6) assms(6) last [of k] slot soft(2,4,5) True by (intro ok) auto
    ultimately show ?thesis by blast
  qed
qed

end
