(* ===== verification/Journal_Replay.thy ===== *)
theory Journal_Replay
  imports Journal_Roundtrip Checkpoint_Protocol
begin

text \<open>
  Whole journals. A history is the list of events a journal holds; the theory relates the state of a
  writer to its history, shows that every write extends the history, that checkpoints of the writer
  are the checkpoints a reader finds, and that a replay delivers the history up to the checkpoint.
\<close>

section \<open>Histories\<close>

primrec history_bytes :: "context_t \<Rightarrow> event list \<Rightarrow> byte list" where
  "history_bytes ctx [] = []"
| "history_bytes ctx (e # es) = event_bytes ctx e @ history_bytes (event_context ctx e) es"

primrec history_context :: "context_t \<Rightarrow> event list \<Rightarrow> context_t" where
  "history_context ctx [] = ctx"
| "history_context ctx (e # es) = history_context (event_context ctx e) es"

text \<open>What a writable receives for a history that starts at position \<open>p\<close> of the file.\<close>

primrec deliver_all :: "'w Writable \<Rightarrow> nat \<Rightarrow> context_t \<Rightarrow> event list \<Rightarrow> 'w \<Rightarrow> 'w result" where
  "deliver_all W p ctx [] w = Inr w"
| "deliver_all W p ctx (e # es) w =
     bind_result (deliver W (p + blob_offset e) e w)
       (deliver_all W (p + length (event_bytes ctx e)) (event_context ctx e) es)"

text \<open>The transaction a replay delivers when it starts at the position of the writable or after it.\<close>

definition play_events :: "'w Writable \<Rightarrow> nat \<Rightarrow> nat \<Rightarrow> context_t \<Rightarrow> event list \<Rightarrow> 'w \<Rightarrow> 'w result" where
  "play_events W p q ctx es w =
     (if es = [] then Inr w
      else bind_result (handle W (Start_Writing (int p)) w) (\<lambda>w1.
           bind_result (deliver_all W p ctx es w1) (\<lambda>w2.
           bind_result (handle W (End_Writing (int q)) w2) (handle W Soft_Checkpoint))))"

lemma history_append:
  "history_bytes ctx (xs @ ys) = history_bytes ctx xs @ history_bytes (history_context ctx xs) ys"
  "history_context ctx (xs @ ys) = history_context (history_context ctx xs) ys"
  by (induction xs arbitrary: ctx) simp_all

lemma event_bytes_nonempty: "event_fits e \<Longrightarrow> event_bytes ctx e \<noteq> []"
  by (cases e) auto

lemma history_bytes_Nil_iff: "list_all event_fits es \<Longrightarrow> history_bytes ctx es = [] \<longleftrightarrow> es = []"
  by (cases es) (auto simp: event_bytes_nonempty)

text \<open>The outcome of playing: the error of the writable, or its state and the reader at the end.\<close>

definition played :: "'f Abstract_File \<Rightarrow> ('f \<Rightarrow> byte list) \<Rightarrow> Open_Mode \<Rightarrow> byte list \<Rightarrow> nat \<Rightarrow>
    nat \<times> nat \<times> int \<times> int \<Rightarrow> context_t \<Rightarrow> 'w result \<Rightarrow> ('f Journal \<times> 'w) result \<Rightarrow> bool" where
  "played F content m c q marks ctx wr r \<longleftrightarrow>
     (case wr of Inl e \<Rightarrow> r = Inl e
      | Inr w \<Rightarrow> \<exists>j. r = Inr (j, w) \<and> reading F content m (file_buffer j) c q \<and>
          journal_marks j = marks \<and> journal_context j = ctx)"

lemma stepped_played: "stepped F content m c q marks ctx wr r \<Longrightarrow> played F content m c q marks ctx wr r"
  by (cases wr) (auto simp: stepped_def played_def)

lemma played_bind:
  assumes "played F content m c q marks1 ctx1 wr r"
    and "\<And>j w. reading F content m (file_buffer j) c q \<Longrightarrow> journal_marks j = marks1 \<Longrightarrow> journal_context j = ctx1 \<Longrightarrow>
      played F content m c p marks ctx (g w) (k j w)"
  shows "played F content m c p marks ctx (bind_result wr g) (bind_result r (\<lambda>(j, w). k j w))"
proof (cases wr)
  case (Inr w)
  with assms(1) obtain j where "r = Inr (j, w)" "reading F content m (file_buffer j) c q"
    "journal_marks j = marks1" "journal_context j = ctx1" by (auto simp: played_def)
  with assms(2) [of j w] Inr show ?thesis by simp
qed (use assms(1) in \<open>simp add: played_def\<close>)

lemma played_return:
  "reading F content m (file_buffer j) c p \<Longrightarrow> journal_marks j = marks \<Longrightarrow> journal_context j = ctx \<Longrightarrow>
     played F content m c p marks ctx (Inr w) (Inr (j, w))"
  by (auto simp: played_def)

lemma played_handle:
  assumes "\<And>w. played F content m c p marks ctx (g w) (k w)"
  shows "played F content m c p marks ctx (bind_result wr g) (bind_result wr k)"
  using assms by (cases wr) (auto simp: played_def)

context file_contract
begin

lemma raw_play_history:
  assumes "reading F content m (file_buffer j) c p" and "holds_at c p (history_bytes ctx es)" and "list_all event_fits es"
    and "q = p + length (history_bytes ctx es)" and "int q \<le> checkpoint_position j" and "journal_context j = ctx"
    and "journal_marks j = marks"
  shows "played F content m c q marks (history_context ctx es) (deliver_all W p ctx es w) (raw_play_until F W (int q) j w)"
  using assms
proof (induction es arbitrary: j p ctx w)
  case Nil
  then show ?case
    using reading_position [OF Nil.prems(1)]
    by (subst raw_play_until.simps) (auto simp: journal_get_position_def intro: played_return)
next
  case (Cons e es)
  let ?n = "length (event_bytes ctx e)"
  have fits: "event_fits e" and rest: "list_all event_fits es" using Cons.prems(3) by simp_all
  have h: "holds_at c p (event_bytes ctx e)" "holds_at c (p + ?n) (history_bytes (event_context ctx e) es)"
    using Cons.prems(2) by (simp_all add: holds_at_append)
  have q: "q = p + ?n + length (history_bytes (event_context ctx e) es)" using Cons.prems(4) by simp
  have "journal_get_position j < int q"
    using reading_position [OF Cons.prems(1)] event_bytes_nonempty [OF fits, of ctx] q
    by (cases "event_bytes ctx e") (simp_all add: journal_get_position_def)
  then have "raw_play_until F W (int q) j w = bind_result (one_step F W j w) (\<lambda>(j', w'). raw_play_until F W (int q) j' w')"
    by (subst raw_play_until.simps) simp
  moreover have "played F content m c (p + ?n) marks (event_context ctx e) (deliver W (p + blob_offset e) e w) (one_step F W j w)"
    using one_step_event [OF Cons.prems(1) h(1) fits _ Cons.prems(6), of W w] Cons.prems(5,7) q
    by (auto intro!: stepped_played)
  then have "played F content m c q marks (history_context (event_context ctx e) es)
      (bind_result (deliver W (p + blob_offset e) e w) (deliver_all W (p + ?n) (event_context ctx e) es))
      (bind_result (one_step F W j w) (\<lambda>(j', w'). raw_play_until F W (int q) j' w'))"
    by (rule played_bind) (use Cons.IH [OF _ h(2) rest q] Cons.prems(5,7) in \<open>auto simp: journal_marks_def\<close>)
  ultimately show ?case by simp
qed

lemma played_flush:
  assumes "played F content m c q marks ctx wr r"
  shows "played F content m c q marks ctx wr (bind_result r (\<lambda>(j, w). bind_result (jwrite (flush F) j) (\<lambda>j'. Inr (j', w))))"
proof (cases wr)
  case (Inr w)
  with assms obtain j where j: "r = Inr (j, w)" "reading F content m (file_buffer j) c q"
    "journal_marks j = marks" "journal_context j = ctx" by (auto simp: played_def)
  with flush_reading [OF j(2)] Inr show ?thesis
    by (auto simp: played_def jwrite_def journal_marks_def journal_context_def)
qed (use assms in \<open>simp add: played_def\<close>)

lemma play_until_idle:
  assumes "play_until F W l j w = Inr (j', w')"
  shows "buffer_index (file_buffer j') = 0" and "read_buffer_size (file_buffer j') = 0"
  using assms by (auto simp: play_until_def jwrite_def dest: flush_idle split: if_splits)

text \<open>\<open>play_until\<close> delivers the same, between the calls that open and close the transaction.\<close>

lemma play_history:
  assumes "reading F content m (file_buffer j) c p" and "holds_at c p (history_bytes ctx es)" and "list_all event_fits es"
    and "q = p + length (history_bytes ctx es)" and "int q \<le> checkpoint_position j" and "journal_context j = ctx"
    and "journal_marks j = marks" and "get_position W w \<le> int p"
  shows "played F content m c q marks (history_context ctx es) (play_events W p q ctx es w) (play_until F W (int q) j w)"
proof -
  have pos: "journal_get_position j = int p" using reading_position [OF assms(1)] by (simp add: journal_get_position_def)
  show ?thesis
  proof (cases "es = []")
    case True
    with assms have "played F content m c q marks (history_context ctx es) (play_events W p q ctx es w) (Inr (j, w))"
      by (auto simp: play_events_def intro: played_return)
    from played_flush [OF this] show ?thesis using True assms(4) pos by (simp add: play_until_def)
  next
    case False
    then have less: "int p < int q" using assms(3,4) history_bytes_Nil_iff [of es ctx] by simp
      have "played F content m c q marks (history_context ctx es)
        (bind_result (handle W (End_Writing (int q)) w2) (handle W Soft_Checkpoint))
        (bind_result (handle W (End_Writing (journal_get_position j2)) w2) (\<lambda>w3.
          bind_result (handle W Soft_Checkpoint w3) (\<lambda>w4. Inr (j2, w4))))"
        if "reading F content m (file_buffer j2) c q" "journal_marks j2 = marks" "journal_context j2 = history_context ctx es" for j2 w2
        using that reading_position [OF that(1)]
        by (cases "handle W (End_Writing (int q)) w2") (auto simp: journal_get_position_def played_def split: sum.split)
      then have "played F content m c q marks (history_context ctx es) (play_events W p q ctx es w)
        (bind_result (handle W (Start_Writing (int p)) w) (\<lambda>w1.
          bind_result (raw_play_until F W (int q) j w1) (\<lambda>(j2, w2).
          bind_result (handle W (End_Writing (journal_get_position j2)) w2) (\<lambda>w3.
          bind_result (handle W Soft_Checkpoint w3) (\<lambda>w4. Inr (j2, w4))))))"
        unfolding play_events_def if_not_P [OF False]
        by (intro played_handle played_bind [OF raw_play_history [OF assms(1-7)]]) auto
      from played_flush [OF this] show ?thesis using less assms(8) by (simp add: play_until_def pos)
  qed
qed

end

section \<open>The state of a writer\<close>

definition header_ok :: "byte list \<Rightarrow> bool" where
  "header_ok c \<longleftrightarrow> header_size \<le> length c \<and> take 9 (drop 32 c) = to_bytes 4 format_version @ joedb_signature"

text \<open>
  A writer has a history in three parts: the events before its hard checkpoint, the events between
  its hard and its soft checkpoint, and the events after its checkpoints. \<open>c\<close> is the content of the
  file once the buffer is flushed.
\<close>

definition marks_history :: "nat \<times> nat \<times> int \<times> int \<Rightarrow> event list \<Rightarrow> event list \<Rightarrow> bool" where
  "marks_history = (\<lambda>(h, s, ck, hck) hs ss.
     hck = int (header_size + length (history_bytes initial_context hs)) \<and>
     ck = int (header_size + length (history_bytes initial_context (hs @ ss))))"

definition writer :: "'f Abstract_File \<Rightarrow> ('f \<Rightarrow> byte list) \<Rightarrow> Open_Mode \<Rightarrow> event list \<Rightarrow> event list \<Rightarrow> event list \<Rightarrow>
    byte list \<Rightarrow> 'f Journal \<Rightarrow> bool" where
  "writer F content m hs ss us c j \<longleftrightarrow>
     writing F content m (file_buffer j) c (length c) \<and> header_ok c \<and> slots_ok (slots c) (journal_marks j) \<and>
     drop header_size c = history_bytes initial_context (hs @ ss @ us) \<and> list_all event_fits (hs @ ss @ us) \<and>
     journal_context j = history_context initial_context (hs @ ss @ us) \<and> marks_history (journal_marks j) hs ss"

lemma header_ok_patch_slot:
  assumes "header_ok c" and "i < 4" and "length bs = 8"
  shows "header_ok (patch c (8 * i) bs)" and "length (patch c (8 * i) bs) = length c"
    and "drop header_size (patch c (8 * i) bs) = drop header_size c"
  using assms by (auto simp: header_ok_def length_patch drop_patch)

lemma header_ok_append: "header_ok c \<Longrightarrow> header_ok (c @ bs)"
  by (simp add: header_ok_def)

lemma slots_append: "32 \<le> length c \<Longrightarrow> slots (c @ bs) = slots c"
  using slots_patch_after [of "length c" c bs] by (simp add: patch_end)

lemma length_header_history:
  assumes "header_ok c" and "drop header_size c = history_bytes initial_context es"
  shows "length c = header_size + length (history_bytes initial_context es)"
proof -
  have "length c - header_size = length (history_bytes initial_context es)"
    using arg_cong [OF assms(2), of length] by simp
  moreover have "header_size \<le> length c" using assms(1) by (simp add: header_ok_def)
  ultimately show ?thesis by linarith
qed

lemma writer_length: "writer F content m hs ss us c j \<Longrightarrow>
    length c = header_size + length (history_bytes initial_context (hs @ ss @ us))"
  unfolding writer_def by (blast intro: length_header_history)

text \<open>The checkpoints of a writer do not pass the end of its history, and reach it when they cover it.\<close>

lemma writer_end:
  assumes "writer F content m hs ss us c j"
  shows "checkpoint_position j \<le> int (length c)"
    and "int (length c) \<le> checkpoint_position j \<Longrightarrow> us = []"
    and "int (length c) \<le> hard_checkpoint_position j \<Longrightarrow> ss = [] \<and> us = []"
    and "hard_checkpoint_position j \<le> checkpoint_position j"
proof -
  have fits: "list_all event_fits us" "list_all event_fits (ss @ us)" using assms by (simp_all add: writer_def)
  have ck: "checkpoint_position j = int (header_size + length (history_bytes initial_context (hs @ ss)))"
    and hck: "hard_checkpoint_position j = int (header_size + length (history_bytes initial_context hs))"
    using assms by (auto simp: writer_def marks_history_def journal_marks_def)
  show "checkpoint_position j \<le> int (length c)" "hard_checkpoint_position j \<le> checkpoint_position j"
    unfolding writer_length [OF assms] ck hck by (simp_all add: history_append)
  show "us = []" if "int (length c) \<le> checkpoint_position j"
    using that history_bytes_Nil_iff [OF fits(1), of "history_context initial_context (hs @ ss)"]
    unfolding writer_length [OF assms] ck by (simp add: history_append)
  show "ss = [] \<and> us = []" if "int (length c) \<le> hard_checkpoint_position j"
    using that history_bytes_Nil_iff [OF fits(2), of "history_context initial_context hs"]
    unfolding writer_length [OF assms] hck history_append(1) [of _ hs] by simp
qed

context file_contract
begin

lemma writer_event:
  assumes "writer F content m hs ss us c j" and "event_fits e"
  obtains j' where "journal_handle F e j = Inr j'"
    and "writer F content m hs ss (us @ [e]) (c @ event_bytes (journal_context j) e) j'"
    and "journal_marks j' = journal_marks j"
proof -
  have w: "writing F content m (file_buffer j) c (length c)" "header_ok c" "slots_ok (slots c) (journal_marks j)"
    "drop header_size c = history_bytes initial_context (hs @ ss @ us)" "list_all event_fits (hs @ ss @ us)"
    "journal_context j = history_context initial_context (hs @ ss @ us)" "marks_history (journal_marks j) hs ss"
    using assms(1) by (auto simp: writer_def)
  obtain j' where j': "journal_handle F e j = Inr j'" "journal_marks j' = journal_marks j"
    "writing F content m (file_buffer j') (c @ event_bytes (journal_context j) e) (length c + length (event_bytes (journal_context j) e))"
    "journal_context j' = event_context (journal_context j) e"
    using append_event [OF w(1) assms(2) refl] unfolding appended_def patch_end by blast
  have "writer F content m hs ss (us @ [e]) (c @ event_bytes (journal_context j) e) j'"
    using w j' assms(2) header_ok_append [OF w(2)] slots_append [of c]
    by (auto simp: writer_def history_append header_ok_def)
  then show ?thesis using that j' by blast
qed

text \<open>One of the four slots of the header, written through the file.\<close>

lemma slot_law:
  assumes "content f = c" and "header_ok c" and "i < 4"
  obtains f' where "pwrite F (to_bytes 8 (w :: 64 word)) (8 * int i) f = Inr f'"
    and "content f' = patch c (8 * i) (to_bytes 8 w)" and "get_mode F f' = get_mode F f"
proof -
  have "nat (8 * int i) = 8 * i" by simp
  moreover have "8 * i \<le> length (content f)" using assms by (auto simp: header_ok_def)
  ultimately show ?thesis using pwrite_law [of "8 * int i" f "to_bytes 8 w"] assms(1) that by auto
qed

text \<open>Locks keep the content and the mode of a file.\<close>

lemma lock_head_law:
  obtains f' where "exclusive_lock_head F f = Inr f'" and "content f' = content f" and "get_mode F f' = get_mode F f"
  using exclusive_lock_law [of 0 1 f] that by (auto simp: exclusive_lock_head_def)

lemma unlock_head_law [simp]: "content (unlock_head F f) = content f" "get_mode F (unlock_head F f) = get_mode F f"
  using unlock_law [of 0 1 f] by (simp_all add: unlock_head_def)

text \<open>The file of a flushed journal replaced by one with another content of the same length.\<close>

lemma writing_set_file:
  assumes "writing F content m b c p" and "buffer_index b = 0" and "get_mode F f = m" and "content f = c'"
    and "length c' = length c"
  shows "writing F content m (b\<lparr>fb_file := f\<rparr>) c' p"
  using assms by (auto simp: writing_def)

lemma writer_flush:
  assumes "writer F content m hs ss us c j"
  obtains j' where "jwrite (flush F) j = Inr j'" and "writer F content m hs ss us c j'" and "buffer_index (file_buffer j') = 0"
    and "content (journal_file j') = c" and "journal_marks j' = journal_marks j"
proof -
  have "writing F content m (file_buffer j) c (length c)" using assms by (simp add: writer_def)
  from flush_writing [OF this] obtain b where b: "flush F (file_buffer j) = Inr b" "writing F content m b c (length c)"
    "buffer_index b = 0" "content (fb_file b) = c" by blast
  then have "jwrite (flush F) j = Inr (j\<lparr>file_buffer := b\<rparr>)" by (simp add: jwrite_def)
  moreover have "writer F content m hs ss us c (j\<lparr>file_buffer := b\<rparr>)"
    using assms b(2) by (simp add: writer_def journal_marks_def journal_context_def)
  ultimately show ?thesis using that b(3,4) by (simp add: journal_marks_def)
qed

lemma journal_position_writer: "writer F content m hs ss us c j \<Longrightarrow> journal_get_position j = int (length c)"
  by (auto simp: writer_def journal_get_position_def dest: writing_position)

text \<open>Setting the marks and the file of a flushed writer.\<close>

lemma writer_marks:
  assumes "writer F content m hs ss us c j" and "buffer_index (file_buffer j) = 0"
    and "get_mode F f = m" and "content f = c'" and "header_ok c'" and "length c' = length c"
    and "drop header_size c' = drop header_size c" and "slots_ok (slots c') marks" and "marks_history marks hs' ss'"
    and "hs' @ ss' @ us' = hs @ ss @ us" and "marks = (h, s, ck, hck)"
  shows "writer F content m hs' ss' us' c'
    (set_file f (j\<lparr>hard_index := h, soft_index := s, checkpoint_position := ck, hard_checkpoint_position := hck\<rparr>))"
  using assms writing_set_file [OF _ assms(2-4)] unfolding writer_def
  by (auto simp: set_file_def journal_marks_def journal_context_def)

text \<open>
  A soft checkpoint at \<open>p\<close>, once the buffer is flushed: one slot of the header is written, and the
  rest of the file is left alone.
\<close>

lemma soft_checkpoint_at_law:
  assumes "jwrite (flush F) j = Inr j1" and "content (journal_file j1) = c" and "journal_marks j1 = (hard, soft, ck, hck)"
    and "header_ok c" and "slots_ok (slots c) (hard, soft, ck, hck)" and "checkpoint_position j = ck"
    and "ck < int p" and "p \<le> length c" and "p < 2 ^ 63"
  obtains f c' where "soft_checkpoint_at F (int p) j = Inr (set_file f
      (j1\<lparr>hard_index := hard, soft_index := flip soft, checkpoint_position := int p, hard_checkpoint_position := hck\<rparr>))"
    and "content f = c'" and "get_mode F f = get_mode F (journal_file j1)" and "header_ok c'" and "length c' = length c"
    and "drop header_size c' = drop header_size c" and "slots_ok (slots c') (hard, flip soft, int p, hck)"
proof -
  let ?i = "2 * flip hard + flip soft"
  let ?w = "word_of_int (neg (int p)) :: 64 word"
  let ?c = "patch c (8 * ?i) (to_bytes 8 ?w)"
  have m1: "hard_index j1 = hard" "soft_index j1 = soft" "hard_checkpoint_position j1 = hck"
    using assms(3) by (auto simp: journal_marks_def)
  have i: "?i < 4" using assms(5) by (auto simp: slots_ok_def)
  have range: "int64_range (int p)" "int64_range (- int p)" using assms(9) by (auto simp: int64_range_def)
  have sint: "sint ?w = - int p" using neg_int64 [OF range(1)] sint_of_int64 [OF range(2)] by simp
  obtain f1 where f1: "exclusive_lock_head F (journal_file j1) = Inr f1" "content f1 = c" "get_mode F f1 = get_mode F (journal_file j1)"
    by (rule lock_head_law [of "journal_file j1"]) (use assms(2) in simp)
  obtain f2 where f2: "pwrite F (to_bytes 8 ?w) (8 * int ?i) f1 = Inr f2" "content f2 = ?c" "get_mode F f2 = get_mode F f1"
    by (rule slot_law [OF f1(2) assms(4) i])
  have upd: "j1\<lparr>soft_index := flip soft, checkpoint_position := int p\<rparr>
      = j1\<lparr>hard_index := hard, soft_index := flip soft, checkpoint_position := int p, hard_checkpoint_position := hck\<rparr>"
    using m1 by simp
  have "soft_checkpoint_at F (int p) j = Inr (set_file (unlock_head F f2)
      (j1\<lparr>hard_index := hard, soft_index := flip soft, checkpoint_position := int p, hard_checkpoint_position := hck\<rparr>))"
    using assms(1,2,6-8) f1(1) f2(1) m1 get_size_law [of "journal_file j1"]
    by (simp add: soft_checkpoint_at_def require_def Let_def upd)
  moreover have "slots_ok (slots ?c) (hard, flip soft, int p, hck)"
    using slots_ok_soft [OF assms(5,7)] assms(9) slots_patch [OF i, of c ?w] assms(4) sint by (simp add: header_ok_def)
  ultimately show ?thesis
    using that [of "unlock_head F f2" ?c] header_ok_patch_slot [OF assms(4) i] f1 f2 by simp
qed

lemma writer_soft_checkpoint:
  assumes "writer F content m hs ss us c j" and "length c < 2 ^ 63"
  obtains j' c' where "soft_checkpoint F j = Inr j'" and "writer F content m hs (ss @ us) [] c' j'" and "length c' = length c"
    and "us \<noteq> [] \<Longrightarrow> content (journal_file j') = c' \<and> buffer_index (file_buffer j') = 0"
    and "hard_checkpoint_position j' = hard_checkpoint_position j" and "checkpoint_position j' = int (length c)"
proof (cases "checkpoint_position j \<ge> int (length c)")
  case True
  note e = writer_end [OF assms(1)]
  have "soft_checkpoint F j = Inr j"
    using True by (simp add: soft_checkpoint_def soft_checkpoint_at_def journal_position_writer [OF assms(1)])
  with e(2) [OF True] show ?thesis using that assms(1) e(1) True by simp
next
  case False
  obtain j1 where j1: "jwrite (flush F) j = Inr j1" "writer F content m hs ss us c j1" "buffer_index (file_buffer j1) = 0"
    "content (journal_file j1) = c" "journal_marks j1 = journal_marks j" by (rule writer_flush [OF assms(1)])
  obtain hard soft ck hck where marks: "journal_marks j = (hard, soft, ck, hck)" by (cases "journal_marks j")
  let ?p = "int (length c)"
  have w: "header_ok c" "slots_ok (slots c) (hard, soft, ck, hck)" "marks_history (hard, soft, ck, hck) hs ss"
    using j1(2,5) marks by (simp_all add: writer_def)
  have mode: "get_mode F (journal_file j1) = m" using j1(2) by (simp add: writer_def writing_def)
  have ck: "checkpoint_position j = ck" "ck < ?p" "hard_checkpoint_position j = hck" using marks False by (auto simp: journal_marks_def)
  obtain f c' where f: "soft_checkpoint_at F ?p j = Inr (set_file f
      (j1\<lparr>hard_index := hard, soft_index := flip soft, checkpoint_position := ?p, hard_checkpoint_position := hck\<rparr>))"
    "content f = c'" "get_mode F f = get_mode F (journal_file j1)" "header_ok c'" "length c' = length c"
    "drop header_size c' = drop header_size c" "slots_ok (slots c') (hard, flip soft, ?p, hck)"
    by (rule soft_checkpoint_at_law [OF j1(1,4) _ w(1,2) ck(1,2) order_refl assms(2)]) (use j1(5) marks in simp)
  let ?j = "set_file f (j1\<lparr>hard_index := hard, soft_index := flip soft, checkpoint_position := ?p, hard_checkpoint_position := hck\<rparr>)"
  have "writer F content m hs (ss @ us) [] c' ?j"
  proof (rule writer_marks [OF j1(2,3), where marks = "(hard, flip soft, ?p, hck)"])
    show "marks_history (hard, flip soft, ?p, hck) hs (ss @ us)"
      using w(3) writer_length [OF assms(1)] by (simp add: marks_history_def)
  qed (use f mode in simp_all)
  moreover have "content (journal_file ?j) = c'" "buffer_index (file_buffer ?j) = 0" using f(2) j1(3) by (simp_all add: set_file_def)
  ultimately show ?thesis
    using that [of ?j c'] f(1,5) ck(3) by (simp add: soft_checkpoint_def journal_position_writer [OF assms(1)] set_file_def)
qed

lemma sync_laws:
  obtains f' where "sync F f = Inr f'" and "content f' = content f" and "get_mode F f' = get_mode F f"
  using sync_law [of f] that by blast

lemma datasync_laws:
  obtains f' where "datasync F f = Inr f'" and "content f' = content f" and "get_mode F f' = get_mode F f"
  using datasync_law [of f] that by blast

lemma writer_hard_checkpoint:
  assumes "writer F content m hs ss us c j" and "length c < 2 ^ 63"
  obtains j' c' where "hard_checkpoint F j = Inr j'" and "writer F content m (hs @ ss @ us) [] [] c' j'" and "length c' = length c"
    and "ss @ us \<noteq> [] \<Longrightarrow> content (journal_file j') = c' \<and> buffer_index (file_buffer j') = 0"
    and "hard_checkpoint_position j' = int (length c)" and "checkpoint_position j' = int (length c)"
proof (cases "hard_checkpoint_position j \<ge> int (length c)")
  case True
  note e = writer_end [OF assms(1)]
  have "hard_checkpoint F j = Inr j"
    using True by (simp add: hard_checkpoint_def hard_checkpoint_at_def journal_position_writer [OF assms(1)])
  with e(3) [OF True] show ?thesis using that assms(1) e(1,4) True by simp
next
  case False
  obtain j1 where j1: "jwrite (flush F) j = Inr j1" "writer F content m hs ss us c j1" "buffer_index (file_buffer j1) = 0"
    "content (journal_file j1) = c" "journal_marks j1 = journal_marks j" by (rule writer_flush [OF assms(1)])
  obtain hard soft ck hck where marks: "journal_marks j = (hard, soft, ck, hck)" by (cases "journal_marks j")
  let ?p = "int (length c)" and ?i = "2 * flip hard"
  let ?w = "word_of_int ?p :: 64 word"
  let ?c1 = "patch c (8 * ?i) (to_bytes 8 ?w)"
  let ?c = "patch ?c1 (8 * (?i + 1)) (to_bytes 8 ?w)"
  have m1: "hard_index j1 = hard" "soft_index j1 = soft" and hck: "hck < ?p"
    using marks j1(5) False by (auto simp: journal_marks_def)
  have w: "header_ok c" "slots_ok (slots c) (hard, soft, ck, hck)" using j1(2,5) marks by (auto simp: writer_def)
  then have i: "?i < 4" "?i + 1 < 4" by (auto simp: slots_ok_def)
  have sint: "sint ?w = ?p" using sint_of_int64 [of ?p] assms(2) by (simp add: int64_range_def)
  note p1 = header_ok_patch_slot [OF w(1) i(1) length_to_bytes [of 8 ?w]]
  note p2 = header_ok_patch_slot [OF p1(1) i(2) length_to_bytes [of 8 ?w]]
  obtain f1 where f1: "exclusive_lock_head F (journal_file j1) = Inr f1" "content f1 = c" "get_mode F f1 = get_mode F (journal_file j1)"
    by (rule lock_head_law [of "journal_file j1"]) (use j1(4) in simp)
  obtain f2 where f2: "pwrite F (to_bytes 8 ?w) (8 * int ?i) f1 = Inr f2" "content f2 = ?c1" "get_mode F f2 = get_mode F f1"
    by (rule slot_law [OF f1(2) w(1) i(1)])
  obtain f3 where f3: "sync F f2 = Inr f3" "content f3 = ?c1" "get_mode F f3 = get_mode F f2"
    by (rule sync_laws [of f2]) (use f2(2) in simp)
  obtain f4 where f4: "pwrite F (to_bytes 8 ?w) (8 * int (?i + 1)) f3 = Inr f4" "content f4 = ?c" "get_mode F f4 = get_mode F f3"
    by (rule slot_law [OF f3(2) p1(1) i(2)])
  obtain f5 where f5: "datasync F f4 = Inr f5" "content f5 = ?c" "get_mode F f5 = get_mode F f4"
    by (rule datasync_laws [of f4]) (use f4(2) in simp)
  let ?j = "set_file (unlock_head F f5) (j1\<lparr>hard_index := flip hard, soft_index := soft, checkpoint_position := ?p, hard_checkpoint_position := ?p\<rparr>)"
  have upd: "j1\<lparr>hard_index := flip hard, checkpoint_position := ?p, hard_checkpoint_position := ?p\<rparr>
      = j1\<lparr>hard_index := flip hard, soft_index := soft, checkpoint_position := ?p, hard_checkpoint_position := ?p\<rparr>"
    using m1 by simp
  have "hard_checkpoint F j = Inr ?j"
    using False j1(1) f1(1) f2(1) f3(1) f4(1) f5(1) m1
    by (simp add: hard_checkpoint_def hard_checkpoint_at_def journal_position_writer [OF assms(1)] Let_def upd)
  moreover have "writer F content m (hs @ ss @ us) [] [] ?c ?j"
  proof (rule writer_marks [OF j1(2,3), where marks = "(flip hard, soft, ?p, ?p)"])
    show "slots_ok (slots ?c) (flip hard, soft, ?p, ?p)"
      using slots_ok_hard [OF w(2) hck] assms(2) slots_patch [OF i(1), of c ?w] slots_patch [OF i(2), of ?c1 ?w] w(1) p1(1) sint
      by (simp add: header_ok_def)
    show "marks_history (flip hard, soft, ?p, ?p) (hs @ ss @ us) []"
      using writer_length [OF assms(1)] by (simp add: marks_history_def)
    show "get_mode F (unlock_head F f5) = m" using f1 f2 f3 f4 f5 j1(2) by (simp add: writer_def writing_def)
  qed (use p1 p2 f5 in simp_all)
  moreover have "content (journal_file ?j) = ?c" "buffer_index (file_buffer ?j) = 0" using f5(2) j1(3) by (simp_all add: set_file_def)
  ultimately show ?thesis using that [of ?j ?c] p1(2) p2(2) by (simp add: set_file_def)
qed

end

section \<open>Opening a journal\<close>

text \<open>A file that holds a journal, with its history divided as for a writer.\<close>

definition stored :: "event list \<Rightarrow> event list \<Rightarrow> event list \<Rightarrow> byte list \<Rightarrow> bool" where
  "stored hs ss us c \<longleftrightarrow>
     header_ok c \<and> drop header_size c = history_bytes initial_context (hs @ ss @ us) \<and> list_all event_fits (hs @ ss @ us) \<and>
     (\<exists>marks. slots_ok (slots c) marks \<and> marks_history marks hs ss)"

lemma writer_stored: "writer F content m hs ss us c j \<Longrightarrow> stored hs ss us c"
  unfolding writer_def stored_def by blast

lemma stored_length: "stored hs ss us c \<Longrightarrow> length c = header_size + length (history_bytes initial_context (hs @ ss @ us))"
  unfolding stored_def by (blast intro: length_header_history)

lemma stored_holds: "stored hs ss us c \<Longrightarrow> holds_at c header_size (history_bytes initial_context (hs @ ss))"
  by (simp add: stored_def holds_at_def history_append)

lemma header_of_ok:
  assumes "header_ok c"
  shows "signature (header_of_bytes (take header_size c)) = joedb_signature"
    and "version (header_of_bytes (take header_size c)) = format_version"
    and "map sint (checkpoint (header_of_bytes (take header_size c))) = slots c"
proof -
  have *: "take 9 (drop 32 c) = to_bytes 4 format_version @ joedb_signature" using assms by (simp add: header_ok_def)
  have "drop 36 (take header_size c) = drop 4 (take 9 (drop 32 c))" by (simp add: drop_take)
  then show "signature (header_of_bytes (take header_size c)) = joedb_signature" by (simp add: header_of_bytes_def *)
  have "take 4 (drop 32 (take header_size c)) = take 4 (take 9 (drop 32 c))" by (simp add: drop_take)
  then show "version (header_of_bytes (take header_size c)) = format_version"
    by (simp add: header_of_bytes_def *)
  show "map sint (checkpoint (header_of_bytes (take header_size c))) = slots c"
    using slots_take [of header_size c] by (simp add: header_of_bytes_def slots_def)
qed

lemma read_slot_frame [simp]:
  "file_buffer (read_hard_checkpoint pos i j) = file_buffer j"
  "journal_context (read_hard_checkpoint pos i j) = journal_context j"
  "file_buffer (read_soft_checkpoint pos sz i k j) = file_buffer j"
  "journal_context (read_soft_checkpoint pos sz i k j) = journal_context j"
  by (simp_all add: read_hard_checkpoint_def read_soft_checkpoint_def Let_def journal_context_def)

lemma read_checkpoint_frame [simp]:
  "file_buffer (read_checkpoint pos sz j) = file_buffer j"
  "journal_context (read_checkpoint pos sz j) = journal_context j"
proof -
  define j' where "j' = read_pair pos sz 1 (read_pair pos sz 0 j)"
  have "file_buffer j' = file_buffer j" "journal_context j' = journal_context j" by (simp_all add: j'_def read_pair_def)
  then show "file_buffer (read_checkpoint pos sz j) = file_buffer j"
    "journal_context (read_checkpoint pos sz j) = journal_context j"
    unfolding read_checkpoint_pairs Let_def j'_def [symmetric] by (simp_all add: journal_context_def)
qed

lemma reset_context_frame [simp]:
  "file_buffer (reset_context j) = file_buffer j" "journal_marks (reset_context j) = journal_marks j"
  "journal_context (reset_context j) = initial_context"
  by (simp_all add: reset_context_def journal_marks_def journal_context_def initial_context_def)

lemma set_file_frame [simp]:
  "journal_marks (set_file f j) = journal_marks j" "journal_context (set_file f j) = journal_context j"
  by (simp_all add: set_file_def journal_marks_def journal_context_def)

text \<open>A reader at the start of a stored journal.\<close>

definition reader :: "'f Abstract_File \<Rightarrow> ('f \<Rightarrow> byte list) \<Rightarrow> Open_Mode \<Rightarrow> event list \<Rightarrow> event list \<Rightarrow> byte list \<Rightarrow> nat \<Rightarrow>
    'f Journal \<Rightarrow> bool" where
  "reader F content m hs ss c p j \<longleftrightarrow>
     reading F content m (file_buffer j) c p \<and> slots_ok (slots c) (journal_marks j) \<and> marks_history (journal_marks j) hs ss"

context file_contract
begin

lemma reading_set_file:
  assumes "reading F content m b c p" and "get_mode F f = m" and "content f = c"
  shows "reading F content m (b\<lparr>fb_file := f\<rparr>) c p"
  using assms by (auto simp: reading_def)

lemma construction_lock_law:
  obtains lock where "construction_lock F r f = Inr lock" and "content (lock_file lock) = content f"
    and "get_mode F (lock_file lock) = get_mode F f" and "recovery lock = r" and "lock_size lock = int (length (content f))"
proof -
  obtain f1 where f1: "(if is_shared F f then exclusive_lock_tail F f else Inr f) = Inr f1" "content f1 = content f"
    "get_mode F f1 = get_mode F f"
    using exclusive_lock_law [of last_position 1 f] by (cases "is_shared F f") (auto simp: exclusive_lock_tail_def)
  obtain f2 where "(if is_readonly F f1 then shared_lock_head F f1 else exclusive_lock_head F f1) = Inr f2" "content f2 = content f1"
    "get_mode F f2 = get_mode F f1"
    using exclusive_lock_law [of 0 1 f1] shared_lock_law [of 0 1 f1]
    by (cases "is_readonly F f1") (auto simp: exclusive_lock_head_def shared_lock_head_def)
  with f1 show ?thesis by (intro that) (auto simp: construction_lock_def get_size_law)
qed

lemma release_law [simp]:
  "content (release_construction_lock F f) = content f" "get_mode F (release_construction_lock F f) = get_mode F f"
  using unlock_law [of last_position 1] by (simp_all add: release_construction_lock_def unlock_tail_def Let_def)

lemma reader_checkpoints:
  assumes "stored hs ss us c" and "marks_history (hh, hs', ck, hck) hs ss" and "sz < 0 \<or> int (length c) \<le> sz"
    and "int header_size \<le> checkpoint_position j" and "checkpoint_position j \<le> ck" and "hard_checkpoint_position j \<le> hck"
    and "soft_index j \<in> {0, 1}"
  shows "slots_ok (slots c) (journal_marks (read_checkpoint (slots c) sz j)) \<and>
    marks_history (journal_marks (read_checkpoint (slots c) sz j)) hs ss"
proof -
  from assms(1,2) obtain h s where ok: "slots_ok (slots c) (h, s, ck, hck)"
    by (auto simp: stored_def marks_history_def)
  have "ck \<le> int (length c)"
    using assms(2) by (simp add: stored_length [OF assms(1)] marks_history_def history_append)
  then have "sz < 0 \<or> ck \<le> sz" using assms(3) by auto
  from read_checkpoint_ok [OF ok this assms(4-7)] show ?thesis
    using assms(2) by (auto simp: marks_history_def)
qed

lemma readonly_journal_law:
  assumes "content (lock_file lock) = c" and "lock_size lock = int (length c)" and "recovery lock \<noteq> Ignore_Header"
    and "stored hs ss us c"
  obtains j where "readonly_journal F lock wr = Inr (Some (header_of_bytes (take header_size c)), j)"
    and "reader F content (get_mode F (lock_file lock)) hs ss c header_size j" and "journal_context j = initial_context"
    and "buffer_index (file_buffer j) = 0" and "read_buffer_size (file_buffer j) = 0"
proof -
  have ok: "header_ok c" using assms(4) by (simp add: stored_def)
  then have len: "header_size \<le> length c" by (simp add: header_ok_def)
  let ?f = "lock_file lock"
  obtain b where b: "set_position F (int header_size) (file_buffer_new ?f) = Inr b"
    "reading F content (get_mode F ?f) b c header_size" "buffer_index b = 0" "read_buffer_size b = 0"
    using set_position_reading [OF reading_new, of header_size ?f] assms(1) by auto
  let ?j1 = "(journal_new ?f)\<lparr>file_buffer := b\<rparr>"
  let ?j2 = "read_checkpoint (slots c) (int (length c)) ?j1"
  obtain hck ck where mh: "marks_history (0, 0, ck, hck) hs ss" "int header_size \<le> ck" "int header_size \<le> hck" "ck \<le> int (length c)"
    by (auto simp: marks_history_def stored_length [OF assms(4)] history_append)
  have ck: "slots_ok (slots c) (journal_marks ?j2) \<and> marks_history (journal_marks ?j2) hs ss"
    by (rule reader_checkpoints [OF assms(4) mh(1)]) (use mh in \<open>auto simp: journal_new_def\<close>)
  then have "checkpoint_position ?j2 \<le> int (length c)"
    using mh(1,4) by (auto simp: marks_history_def journal_marks_def)
  moreover have "full_pread F header_size 0 ?f = Inr (take header_size c)"
    using full_pread_law [of 0 header_size ?f] assms(1) len by simp
  moreover have "jwrite (set_position F (int header_size)) (journal_new ?f) = Inr ?j1"
    using b(1) by (simp add: jwrite_def journal_new_def)
  ultimately have "readonly_journal F lock wr = Inr (Some (header_of_bytes (take header_size c)), reset_context ?j2)"
    using assms(2,3) len header_of_ok [OF ok] by (auto simp: readonly_journal_def Let_def)
  then show ?thesis using that b ck by (simp add: reader_def)
qed

lemma open_readonly_law:
  assumes "stored hs ss us (content f)" and "r \<noteq> Ignore_Header"
  obtains j where "open_readonly_journal F r f = Inr j"
    and "reader F content (get_mode F f) hs ss (content f) header_size j" and "journal_context j = initial_context"
proof -
  obtain lock where lock: "construction_lock F r f = Inr lock" "content (lock_file lock) = content f"
    "get_mode F (lock_file lock) = get_mode F f" "recovery lock = r" "lock_size lock = int (length (content f))"
    by (rule construction_lock_law)
  obtain j where j: "readonly_journal F lock False = Inr (Some (header_of_bytes (take header_size (content f))), j)"
    "reader F content (get_mode F (lock_file lock)) hs ss (content f) header_size j" "journal_context j = initial_context"
    by (rule readonly_journal_law [OF lock(2,5) _ assms(1)]) (use assms(2) lock(4) in auto)
  let ?f = "release_construction_lock F (journal_file j)"
  have "reading F content (get_mode F f) (file_buffer j) (content f) header_size" using j(2) lock(3) by (simp add: reader_def)
  then have "reading F content (get_mode F f) ((file_buffer j)\<lparr>fb_file := ?f\<rparr>) (content f) header_size"
    by (rule reading_set_file) (use j(2) lock(3) in \<open>simp_all add: reader_def reading_def\<close>)
  then show ?thesis using that [of "set_file ?f j"] j lock(1)
    by (simp add: open_readonly_journal_def reader_def set_file_def journal_context_def journal_marks_def)
qed

end

section \<open>Replaying and resuming\<close>

abbreviation history_end :: "event list \<Rightarrow> nat" where
  "history_end es \<equiv> header_size + length (history_bytes initial_context es)"

lemma marks_history_positions:
  assumes "marks_history (journal_marks j) hs ss"
  shows "checkpoint_position j = int (history_end (hs @ ss))" and "hard_checkpoint_position j = int (history_end hs)"
  using assms by (auto simp: marks_history_def journal_marks_def)

lemma new_header_ok:
  "header_ok (header_bytes new_header)" "length (header_bytes new_header) = header_size"
  "slots (header_bytes new_header) = replicate 4 41"
proof -
  have len: "length joedb_signature = 5" by (simp add: joedb_signature_def bytes_of_def)
  show l: "length (header_bytes new_header) = header_size"
    by (simp add: header_bytes_def new_header_def len eval_nat_numeral)
  show "header_ok (header_bytes new_header)"
    by (simp add: header_ok_def header_bytes_def new_header_def len eval_nat_numeral)
  show "slots (header_bytes new_header) = replicate 4 41"
  proof (rule nth_equalityI)
    fix i assume "i < length (slots (header_bytes new_header))"
    then have "i = 0 \<or> i = 1 \<or> i = 2 \<or> i = 3" by auto
    moreover have "take 8 (drop (8 * i) (header_bytes new_header)) = to_bytes 8 (word_of_nat header_size :: 64 word)"
      using \<open>i = 0 \<or> i = 1 \<or> i = 2 \<or> i = 3\<close> by (auto simp: header_bytes_def new_header_def eval_nat_numeral)
    ultimately show "slots (header_bytes new_header) ! i = replicate 4 41 ! i"
      by (auto simp: nth_slots)
  qed simp
qed

context file_contract
begin

lemma replay_log_law:
  assumes "stored hs ss us c" and "reader F content m hs ss c p j" and "get_position W w \<le> int header_size"
  shows "played F content m c (history_end (hs @ ss)) (journal_marks j) (history_context initial_context (hs @ ss))
    (play_events W header_size (history_end (hs @ ss)) initial_context (hs @ ss) w) (replay_log F W j w)"
proof -
  from assms(2) have r: "reading F content m (file_buffer j) c p" "marks_history (journal_marks j) hs ss"
    by (auto simp: reader_def)
  obtain b where b: "set_position F (int header_size) (file_buffer j) = Inr b" "reading F content m b c header_size"
    using set_position_reading [OF r(1)] by blast
  let ?j = "reset_context (j\<lparr>file_buffer := b\<rparr>)"
  have j: "file_buffer ?j = b" "journal_marks ?j = journal_marks j" "journal_context ?j = initial_context"
    by simp_all (simp add: journal_marks_def)
  have ck: "checkpoint_position ?j = int (history_end (hs @ ss))"
    using r(2) j(2) by (intro marks_history_positions(1)) simp
  have fits: "list_all event_fits (hs @ ss)" using assms(1) by (simp add: stored_def)
  have "rewind F j = Inr ?j" using b(1) by (simp add: rewind_def jwrite_def)
  then have "replay_log F W j w = play_until F W (int (history_end (hs @ ss))) ?j w"
    using ck by (simp add: replay_log_def play_until_checkpoint_def)
  then show ?thesis
    using play_history [of m ?j c header_size initial_context "hs @ ss" _ "journal_marks j" W w] b(2) j stored_holds [OF assms(1)]
      fits ck assms(3) by simp
qed

lemma open_writable_new:
  assumes "content f = []" and "get_mode F f \<noteq> Read_Existing"
  obtains j where "open_writable_journal F r f = Inr j" and "writer F content (get_mode F f) [] [] [] (header_bytes new_header) j"
    and "content (journal_file j) = header_bytes new_header" and "buffer_index (file_buffer j) = 0"
proof -
  obtain lock where lock: "construction_lock F r f = Inr lock" "content (lock_file lock) = content f"
    "get_mode F (lock_file lock) = get_mode F f" "recovery lock = r" "lock_size lock = int (length (content f))"
    by (rule construction_lock_law)
  let ?b = "file_buffer_new (lock_file lock)"
  have "filling F content (get_mode F f) ?b [] 0" "buffer_index ?b = 0"
    using lock(2,3) assms(1) by (simp_all add: filling_def file_buffer_new_def)
  then obtain b where b: "fi_write F (header_bytes new_header) ?b = Inr b"
    "writing F content (get_mode F f) b (header_bytes new_header) header_size" "buffer_index b = 0"
    by (rule fi_write_law [where bs = "header_bytes new_header"]) (simp add: patch_def new_header_ok(2))
  let ?j = "(journal_new (lock_file lock))\<lparr>file_buffer := b\<rparr>"
  have r: "reset_context (journal_new x) = journal_new x" for x :: 'f by (simp add: reset_context_def journal_new_def)
  have "writable_journal F lock = Inr ?j"
    using assms lock b(1) by (simp add: writable_journal_def readonly_journal_def Let_def r is_readonly_def jwrite_def
        journal_new_def reset_context_def file_buffer_new_def)
  let ?f = "release_construction_lock F (journal_file ?j)"
  have c: "content (fb_file b) = header_bytes new_header" "get_mode F (fb_file b) = get_mode F f"
    using b(2,3) by (auto simp: writing_def)
  have "writing F content (get_mode F f) (b\<lparr>fb_file := ?f\<rparr>) (header_bytes new_header) header_size"
    by (rule writing_set_file [OF b(2,3)]) (use c in simp_all)
  then have "writer F content (get_mode F f) [] [] [] (header_bytes new_header) (set_file ?f ?j)"
    using new_header_ok slots_ok_new
    by (simp add: writer_def set_file_def journal_new_def journal_marks_def journal_context_def initial_context_def marks_history_def)
  then show ?thesis
    using that [of "set_file ?f ?j"] lock(1) \<open>writable_journal F lock = Inr ?j\<close> c b(3)
    by (simp add: open_writable_journal_def set_file_def journal_new_def)
qed

end

context file_contract
begin

lemma fix_checkpoint_none:
  assumes "slots_ok (map sint (checkpoint h)) (hard, soft, ck, hck)" and "ck \<le> sz"
  shows "fold_result (fix_checkpoint F sz h) [0..<length (checkpoint h)] j = Inr j"
proof -
  have len: "length (checkpoint h) = 4" using assms(1) by (auto simp: slots_ok_def)
  have "neg (sint (checkpoint h ! i)) \<le> sz" if "i < 4" for i
  proof -
    have s: "map sint (checkpoint h) ! i = sint (checkpoint h ! i)" using that len by simp
    have "int64_range (sint (checkpoint h ! i))"
      using assms(1) that len unfolding slots_ok_def by (auto simp: list_all_length)
    moreover have "- map sint (checkpoint h) ! i \<le> ck"
      using assms(1) that unfolding slots_ok_def by (auto simp: numeral_eq_Suc less_Suc_eq)
    ultimately show ?thesis using neg_int64 s assms(2) by auto
  qed
  then have "fix_checkpoint F sz h i = Inr" if "i < 4" for i
    using that by (intro ext) (auto simp: fix_checkpoint_def leD)
  then have "fold_result (fix_checkpoint F sz h) xs j = Inr j" if "set xs \<subseteq> {..<4}" for xs
    using that by (induction xs) auto
  from this [of "[0..<4]"] show ?thesis using len by (simp add: atLeast0LessThan)
qed

lemma open_writable_existing:
  assumes "stored hs ss [] (content f)" and "get_mode F f \<noteq> Read_Existing" and "r \<noteq> Ignore_Header"
  obtains j where "open_writable_journal F r f = Inr j"
    and "reader F content (get_mode F f) hs ss (content f) header_size j" and "journal_context j = initial_context"
proof -
  obtain lock where lock: "construction_lock F r f = Inr lock" "content (lock_file lock) = content f"
    "get_mode F (lock_file lock) = get_mode F f" "recovery lock = r" "lock_size lock = int (length (content f))"
    by (rule construction_lock_law)
  let ?h = "header_of_bytes (take header_size (content f))"
  obtain j where j: "readonly_journal F lock True = Inr (Some ?h, j)"
    "reader F content (get_mode F (lock_file lock)) hs ss (content f) header_size j" "journal_context j = initial_context"
    by (rule readonly_journal_law [OF lock(2,5) _ assms(1)]) (use assms(3) lock(4) in auto)
  have len: "length (content f) = history_end (hs @ ss)" using stored_length [OF assms(1)] by simp
  have ck: "checkpoint_position j = int (length (content f))"
    using j(2) len marks_history_positions(1) [of j hs ss] by (simp add: reader_def)
  obtain hard soft hck where "journal_marks j = (hard, soft, int (length (content f)), hck)"
    using ck by (simp add: journal_marks_def)
  moreover have "map sint (checkpoint ?h) = slots (content f)"
    using assms(1) header_of_ok(3) by (simp add: stored_def)
  ultimately have "fold_result (fix_checkpoint F (lock_size lock) ?h) [0..<length (checkpoint ?h)] j = Inr j"
    using j(2) lock(5) by (intro fix_checkpoint_none [of _ hard soft "int (length (content f))" hck]) (simp_all add: reader_def)
  moreover have mode: "get_mode F (journal_file j) = get_mode F f" "content (journal_file j) = content f"
    using j(2) lock(3) by (simp_all add: reader_def reading_def)
  ultimately have "writable_journal F lock = Inr j"
    using j(1) lock(5) ck len assms(2) by (simp add: writable_journal_def is_readonly_def require_def)
  moreover have "reading F content (get_mode F f) ((file_buffer j)\<lparr>fb_file := release_construction_lock F (journal_file j)\<rparr>)
      (content f) header_size"
    by (rule reading_set_file) (use j(2) lock(3) mode in \<open>simp_all add: reader_def\<close>)
  ultimately show ?thesis
    using that [of "set_file (release_construction_lock F (journal_file j)) j"] j lock(1)
    by (simp add: open_writable_journal_def reader_def set_file_def journal_context_def journal_marks_def)
qed

text \<open>After a replay up to the end of the file, a reader can write.\<close>

lemma reader_resumes:
  assumes "stored hs ss [] c" and "reader F content m hs ss c header_size j" and "journal_context j = initial_context"
    and "get_position W w \<le> int header_size"
    and "play_events W header_size (length c) initial_context (hs @ ss) w = Inr w'"
  obtains j' where "play_until_checkpoint F W j w = Inr (j', w')" and "writer F content m hs ss [] c j'"
    and "content (journal_file j') = c"
proof -
  have len: "length c = history_end (hs @ ss)" using stored_length [OF assms(1)] by simp
  have fits: "list_all event_fits (hs @ ss)" using assms(1) by (simp add: stored_def)
  from assms(2) have r: "reading F content m (file_buffer j) c header_size" "marks_history (journal_marks j) hs ss"
    "slots_ok (slots c) (journal_marks j)" by (auto simp: reader_def)
  have ck: "checkpoint_position j = int (length c)" using marks_history_positions(1) [OF r(2)] len by simp
  then have "played F content m c (length c) (journal_marks j) (history_context initial_context (hs @ ss)) (Inr w')
      (play_until F W (int (length c)) j w)"
    using play_history [OF r(1) stored_holds [OF assms(1)] fits len _ assms(3) refl assms(4)] assms(5) by simp
  then obtain j' where j': "play_until F W (int (length c)) j w = Inr (j', w')" "reading F content m (file_buffer j') c (length c)"
    "journal_marks j' = journal_marks j" "journal_context j' = history_context initial_context (hs @ ss)"
    by (auto simp: played_def)
  have "writing F content m (file_buffer j') c (length c)"
    using play_until_idle [OF j'(1)] by (intro reading_to_writing [OF j'(2)]) simp_all
  then have "writer F content m hs ss [] c j'"
    using assms(1) r(2,3) j'(3,4) by (simp add: writer_def stored_def)
  then show ?thesis using that [of j'] j'(1,2) ck by (simp add: play_until_checkpoint_def reading_def)
qed

end

end
