(* ===== verification/Linked_Ring.thy ===== *)
theory Linked_Ring
  imports Joedb_Prelude
begin

text \<open>
  Circular doubly linked lists, as two successor functions: the lemmas the freedom keeper's lists
  need. A ring is a head with the list of the elements met from it along \<open>nx\<close>, and along \<open>pv\<close>
  in reverse.
\<close>

fun dseg :: "('a \<Rightarrow> 'a) \<Rightarrow> ('a \<Rightarrow> 'a) \<Rightarrow> 'a \<Rightarrow> 'a list \<Rightarrow> 'a \<Rightarrow> bool" where
  "dseg nx pv a [] b \<longleftrightarrow> nx a = b \<and> pv b = a"
| "dseg nx pv a (x # xs) b \<longleftrightarrow> nx a = x \<and> pv x = a \<and> dseg nx pv x xs b"

abbreviation ring :: "('a \<Rightarrow> 'a) \<Rightarrow> ('a \<Rightarrow> 'a) \<Rightarrow> 'a \<Rightarrow> 'a list \<Rightarrow> bool" where
  "ring nx pv h xs \<equiv> dseg nx pv h xs h"

lemma dseg_append [simp]:
  "dseg nx pv a (xs @ x # ys) b \<longleftrightarrow> dseg nx pv a xs x \<and> dseg nx pv x ys b"
  by (induction xs arbitrary: a) auto

lemma dseg_cong:
  assumes "\<And>x. x = a \<or> x \<in> set xs \<Longrightarrow> nx x = nx' x"
    and "\<And>x. x \<in> set xs \<or> x = b \<Longrightarrow> pv x = pv' x"
  shows "dseg nx pv a xs b \<longleftrightarrow> dseg nx' pv' a xs b"
  using assms by (induction xs arbitrary: a) auto

lemma dseg_upd_nx: "u \<noteq> a \<Longrightarrow> u \<notin> set xs \<Longrightarrow> dseg (nx(u := v)) pv a xs b = dseg nx pv a xs b"
  by (rule dseg_cong) auto

lemma dseg_upd_pv: "u \<noteq> b \<Longrightarrow> u \<notin> set xs \<Longrightarrow> dseg nx (pv(u := v)) a xs b = dseg nx pv a xs b"
  by (rule dseg_cong) auto

lemma dseg_nx_first: "dseg nx pv a xs b \<Longrightarrow> nx a = hd (xs @ [b])"
  by (cases xs) auto

lemma dseg_pv_last: "dseg nx pv a xs b \<Longrightarrow> pv b = last (a # xs)"
  by (induction xs arbitrary: a) auto

lemma ring_unlink:
  assumes "ring nx pv h (xs @ x # ys)" and "distinct (h # xs @ x # ys)"
  shows "ring (nx(pv x := nx x)) (pv(nx x := pv x)) h (xs @ ys)"
proof (cases ys)
  case ys: Nil
  show ?thesis
  proof (cases xs rule: rev_cases)
    case Nil
    with ys assms show ?thesis by auto
  next
    case (snoc us u)
    with ys assms show ?thesis by (auto simp: dseg_upd_nx dseg_upd_pv)
  qed
next
  case ys: (Cons v vs)
  show ?thesis
  proof (cases xs rule: rev_cases)
    case Nil
    with ys assms show ?thesis by (auto simp: dseg_upd_nx dseg_upd_pv)
  next
    case (snoc us u)
    with ys assms show ?thesis by (auto simp: dseg_upd_nx dseg_upd_pv)
  qed
qed

lemma ring_insert_front:
  assumes "ring nx pv h xs" and "distinct (h # i # xs)"
  shows "ring ((nx(i := nx h))(h := i)) ((pv(i := h))(nx h := i)) h (i # xs)"
  using assms by (cases xs) (auto simp: dseg_upd_nx dseg_upd_pv)

lemma ring_insert_back:
  assumes "ring nx pv h xs" and "distinct (h # i # xs)"
  shows "ring ((nx(i := h))(pv h := i)) ((pv(i := pv h))(h := i)) h (xs @ [i])"
proof (cases xs rule: rev_cases)
  case Nil
  with assms show ?thesis by auto
next
  case (snoc us u)
  with assms show ?thesis by (auto simp: dseg_upd_nx dseg_upd_pv)
qed

text \<open>The updates above leave a ring with other elements alone.\<close>

lemma ring_frame:
  assumes "ring nx pv h xs"
    and "\<And>x. x = h \<or> x \<in> set xs \<Longrightarrow> nx' x = nx x"
    and "\<And>x. x = h \<or> x \<in> set xs \<Longrightarrow> pv' x = pv x"
  shows "ring nx' pv' h xs"
  using assms(1) by (subst dseg_cong [where nx' = nx and pv' = pv]) (auto simp: assms(2,3))

text \<open>Elements of a ring have their neighbours in the ring.\<close>

lemma ring_neighbours:
  assumes "ring nx pv h xs" and "x = h \<or> x \<in> set xs"
  shows "nx x = h \<or> nx x \<in> set xs" and "pv x = h \<or> pv x \<in> set xs"
proof -
  have "(nx x = h \<or> nx x \<in> set xs) \<and> (pv x = h \<or> pv x \<in> set xs)"
  proof (cases "x = h")
    case True
    with assms(1) show ?thesis
      using dseg_nx_first [OF assms(1)] dseg_pv_last [OF assms(1)]
      by (cases xs rule: rev_cases) (auto simp: hd_append)
  next
    case False
    with assms(2) obtain us vs where xs: "xs = us @ x # vs" by (auto dest: split_list)
    with assms(1) have "dseg nx pv h us x" and "dseg nx pv x vs h" by auto
    then show ?thesis
      using dseg_nx_first [of nx pv x vs h] dseg_pv_last [of nx pv h us x] xs
      by (cases vs) (auto simp: last_ConsR split: if_splits)
  qed
  then show "nx x = h \<or> nx x \<in> set xs" and "pv x = h \<or> pv x \<in> set xs" by auto
qed

text \<open>Walking along \<open>nx\<close> until the head comes back.\<close>

fun ring_walk :: "('a \<Rightarrow> 'a) \<Rightarrow> 'a \<Rightarrow> nat \<Rightarrow> 'a \<Rightarrow> 'a list" where
  "ring_walk nx h 0 x = []"
| "ring_walk nx h (Suc n) x = (if x = h then [] else x # ring_walk nx h n (nx x))"

lemma dseg_walk:
  "dseg nx pv a xs h \<Longrightarrow> h \<notin> set xs \<Longrightarrow> length xs \<le> n \<Longrightarrow> ring_walk nx h n (nx a) = xs"
proof (induction xs arbitrary: a n)
  case Nil
  then show ?case by (cases n) auto
next
  case (Cons x xs)
  then show ?case by (cases n) auto
qed

text \<open>Consecutive integers as a segment.\<close>

lemma dseg_upto:
  fixes m n :: int
  assumes "m \<le> n" and "nx a = m" and "pv m = a" and "nx n = b" and "pv b = n"
    and "\<And>i. m \<le> i \<Longrightarrow> i < n \<Longrightarrow> nx i = i + 1 \<and> pv (i + 1) = i"
  shows "dseg nx pv a [m..n] b"
  using assms
proof (induction "nat (n - m)" arbitrary: a m)
  case 0
  then show ?case by (simp add: upto_rec1)
next
  case (Suc k)
  then have "dseg nx pv m [m + 1..n] b" by (intro Suc.hyps(1)) auto
  with Suc.prems show ?case by (simp add: upto_rec1)
qed

end
