(* ===== verification/Freedom_Contract.thy ===== *)
theory Freedom_Contract
  imports Linked_Ring Freedom_Keeper
begin

text \<open>
  What a freedom keeper promises to its clients (the tables of the interpreted and of the compiled
  databases), as a locale: the used records form one sequence in the order of their insertion,
  \<open>get_next\<close> and \<open>get_previous\<close> walk along it, and \<open>use\<close> and \<open>free\<close> append to and remove from it.
\<close>

locale freedom_contract =
  fixes inv :: "'k \<Rightarrow> bool"
    and used :: "'k \<Rightarrow> Record_Id list"
    and get_size :: "'k \<Rightarrow> Record_Id"
    and get_used_count :: "'k \<Rightarrow> Record_Id"
    and get_next :: "'k \<Rightarrow> Record_Id \<Rightarrow> Record_Id"
    and get_previous :: "'k \<Rightarrow> Record_Id \<Rightarrow> Record_Id"
    and is_used :: "'k \<Rightarrow> Record_Id \<Rightarrow> bool"
    and push_back :: "'k \<Rightarrow> Record_Id \<times> 'k"
    and use_record :: "Record_Id \<Rightarrow> 'k \<Rightarrow> 'k result"
    and free_record :: "Record_Id \<Rightarrow> 'k \<Rightarrow> 'k result"
  assumes size_nonneg: "inv k \<Longrightarrow> 0 \<le> get_size k"
    and used_distinct: "inv k \<Longrightarrow> distinct (used k)"
    and used_bounds: "inv k \<Longrightarrow> set (used k) \<subseteq> {0..<get_size k}"
    and used_count_eq: "inv k \<Longrightarrow> get_used_count k = int (length (used k))"
    and is_used_iff: "inv k \<Longrightarrow> is_used k i \<longleftrightarrow> i \<in> set (used k)"
    and used_ring: "inv k \<Longrightarrow> ring (get_next k) (get_previous k) used_list (used k)"
    and free_ring: "inv k \<Longrightarrow> \<exists>fs. ring (get_next k) (get_previous k) free_list fs
      \<and> distinct fs \<and> set fs = {0..<get_size k} - set (used k)"
    and push_back_law: "inv k \<Longrightarrow> push_back k = (i, k') \<Longrightarrow>
      inv k' \<and> i = get_size k \<and> get_size k' = get_size k + 1 \<and> used k' = used k"
    and use_law: "inv k \<Longrightarrow> 0 \<le> i \<Longrightarrow> i < get_size k \<Longrightarrow> i \<notin> set (used k) \<Longrightarrow>
      \<exists>k'. use_record i k = Inr k' \<and> inv k' \<and> used k' = used k @ [i] \<and> get_size k' = get_size k"
    and free_law: "inv k \<Longrightarrow> i \<in> set (used k) \<Longrightarrow>
      \<exists>k'. free_record i k = Inr k' \<and> inv k' \<and> used k' = remove1 i (used k) \<and> get_size k' = get_size k"
begin

lemma use_list:
  assumes "inv k" and "distinct xs" and "set xs \<subseteq> {0..<get_size k} - set (used k)"
  shows "\<exists>k'. fold_result use_record xs k = Inr k' \<and> inv k' \<and> used k' = used k @ xs
    \<and> get_size k' = get_size k"
  using assms
proof (induction xs arbitrary: k)
  case Nil
  then show ?case by simp
next
  case (Cons x xs)
  then obtain k1 where k1: "use_record x k = Inr k1" "inv k1" "used k1 = used k @ [x]"
    "get_size k1 = get_size k"
    using use_law [of k x] by auto
  with Cons.prems have "set xs \<subseteq> {0..<get_size k1} - set (used k1)" by auto
  with Cons.IH [of k1] k1 Cons.prems(2) show ?case by auto
qed

lemma free_list_of:
  assumes "inv k" and "distinct xs" and "set xs \<subseteq> set (used k)"
  shows "\<exists>k'. fold_result free_record xs k = Inr k' \<and> inv k'
    \<and> used k' = filter (\<lambda>i. i \<notin> set xs) (used k) \<and> get_size k' = get_size k"
  using assms
proof (induction xs arbitrary: k)
  case Nil
  then show ?case by simp
next
  case (Cons x xs)
  then obtain k1 where k1: "free_record x k = Inr k1" "inv k1" "used k1 = remove1 x (used k)"
    "get_size k1 = get_size k"
    using free_law [of k x] by auto
  have rem: "used k1 = filter (\<lambda>i. x \<noteq> i) (used k)"
    using k1(3) used_distinct [OF Cons.prems(1)] by (simp add: distinct_remove1_removeAll removeAll_filter_not_eq)
  with Cons.prems have "set xs \<subseteq> set (used k1)" by auto
  with Cons.IH [of k1] k1(2,4) Cons.prems(2) obtain k2 where
    k2: "fold_result free_record xs k1 = Inr k2" "inv k2" "get_size k2 = get_size k"
      "used k2 = filter (\<lambda>i. i \<notin> set xs) (used k1)"
    by auto
  have "used k2 = filter (\<lambda>i. i \<notin> set (x # xs)) (used k)"
    unfolding k2(4) rem by (auto intro: filter_cong)
  with k1(1) k2 show ?case by simp
qed

lemma walk_used:
  assumes "inv k" and "length (used k) \<le> n"
  shows "ring_walk (get_next k) used_list n (get_next k used_list) = used k"
proof (rule dseg_walk [OF used_ring [OF assms(1)] _ assms(2)])
  show "used_list \<notin> set (used k)"
    using used_bounds [OF assms(1)] by (auto simp: used_list_def)
qed

lemma use_then_free:
  assumes "inv k" and "0 \<le> i" and "i < get_size k" and "i \<notin> set (used k)"
  shows "\<exists>k1 k2. use_record i k = Inr k1 \<and> free_record i k1 = Inr k2 \<and> inv k2 \<and> used k2 = used k"
proof -
  obtain k1 where k1: "use_record i k = Inr k1" "inv k1" "used k1 = used k @ [i]"
    using use_law [OF assms] by blast
  then obtain k2 where "free_record i k1 = Inr k2" "inv k2" "used k2 = remove1 i (used k1)"
    using free_law [of k1 i] by auto
  with k1 assms(4) show ?thesis by (auto simp: remove1_snoc_last)
qed

end

end
