(* ===== verification/Freedom_Proofs.thy ===== *)
theory Freedom_Proofs
  imports Freedom_Contract
begin

text \<open>
  The three freedom keepers meet the contract of \<open>Freedom_Contract\<close>: representation invariants,
  their preservation by every operation, and the interpretations of the locale.
\<close>

section \<open>The linked lists\<close>

definition lfk_wf :: "List_Freedom_Keeper \<Rightarrow> bool" where
  "lfk_wf s \<longleftrightarrow> 0 \<le> freedom_size s \<and> length (is_free_v s) = slot (freedom_size s)
     \<and> length (next_v s) = slot (freedom_size s) \<and> length (previous_v s) = slot (freedom_size s)"

definition valid_slot :: "List_Freedom_Keeper \<Rightarrow> Record_Id \<Rightarrow> bool" where
  "valid_slot s i \<longleftrightarrow> - 2 \<le> i \<and> i < freedom_size s"

text \<open>\<open>views s nx pv fr\<close>: on the slots of \<open>s\<close>, the three vectors are the given functions.\<close>

definition views :: "List_Freedom_Keeper \<Rightarrow> (Record_Id \<Rightarrow> Record_Id) \<Rightarrow> (Record_Id \<Rightarrow> Record_Id) \<Rightarrow>
    (Record_Id \<Rightarrow> bool) \<Rightarrow> bool" where
  "views s nx pv fr \<longleftrightarrow> lfk_wf s \<and>
     (\<forall>i. valid_slot s i \<longrightarrow> next_f s i = nx i \<and> previous_f s i = pv i \<and> is_free_f s i = fr i)"

lemma slot_inject: "- 2 \<le> i \<Longrightarrow> - 2 \<le> j \<Longrightarrow> slot i = slot j \<longleftrightarrow> i = j"
  by (auto simp: slot_def)

lemma heads_distinct: "used_list \<noteq> free_list"
  by (simp add: used_list_def free_list_def)

lemma valid_slot_set [simp]:
  "valid_slot (set_is_free i b s) j = valid_slot s j"
  "valid_slot (set_next i k s) j = valid_slot s j"
  "valid_slot (set_previous i k s) j = valid_slot s j"
  "valid_slot (s\<lparr>used_count := c\<rparr>) j = valid_slot s j"
  by (simp_all add: valid_slot_def)

lemma used_count_set [simp]:
  "used_count (set_is_free i b s) = used_count s"
  "used_count (set_next i k s) = used_count s"
  "used_count (set_previous i k s) = used_count s"
  "used_count (resize_vector n s) = used_count s"
  by (simp_all add: set_is_free_def set_next_def set_previous_def resize_vector_def)

lemma slot_less: "valid_slot s i \<Longrightarrow> slot i < slot (freedom_size s)"
  by (auto simp: valid_slot_def slot_def)

lemma views_refl: "lfk_wf s \<Longrightarrow> views s (next_f s) (previous_f s) (is_free_f s)"
  by (simp add: views_def)

lemma views_next: "views s nx pv fr \<Longrightarrow> valid_slot s i \<Longrightarrow> next_f s i = nx i"
  and views_previous: "views s nx pv fr \<Longrightarrow> valid_slot s i \<Longrightarrow> previous_f s i = pv i"
  and views_free: "views s nx pv fr \<Longrightarrow> valid_slot s i \<Longrightarrow> is_free_f s i = fr i"
  by (simp_all add: views_def)

lemma views_set_is_free:
  "views s nx pv fr \<Longrightarrow> valid_slot s i \<Longrightarrow> views (set_is_free i b s) nx pv (fr(i := b))"
  by (auto simp: views_def lfk_wf_def set_is_free_def is_free_f_def next_f_def previous_f_def
      nth_list_update slot_inject valid_slot_def slot_less dest: slot_less)

lemma views_set_next:
  "views s nx pv fr \<Longrightarrow> valid_slot s i \<Longrightarrow> views (set_next i j s) (nx(i := j)) pv fr"
  by (auto simp: views_def lfk_wf_def set_next_def is_free_f_def next_f_def previous_f_def
      nth_list_update slot_inject valid_slot_def slot_less dest: slot_less)

lemma views_set_previous:
  "views s nx pv fr \<Longrightarrow> valid_slot s i \<Longrightarrow> views (set_previous i j s) nx (pv(i := j)) fr"
  by (auto simp: views_def lfk_wf_def set_previous_def is_free_f_def next_f_def previous_f_def
      nth_list_update slot_inject valid_slot_def slot_less dest: slot_less)

lemma views_used_count: "views s nx pv fr \<Longrightarrow> views (s\<lparr>used_count := c\<rparr>) nx pv fr"
  by (simp add: views_def lfk_wf_def next_f_def previous_f_def is_free_f_def)

text \<open>\<open>lfk_rep s us fs\<close>: the used list of \<open>s\<close> is \<open>us\<close> and its free list is \<open>fs\<close>.\<close>

definition lfk_rep :: "List_Freedom_Keeper \<Rightarrow> Record_Id list \<Rightarrow> Record_Id list \<Rightarrow> bool" where
  "lfk_rep s us fs \<longleftrightarrow> lfk_wf s
     \<and> ring (next_f s) (previous_f s) used_list us
     \<and> ring (next_f s) (previous_f s) free_list fs
     \<and> distinct (us @ fs) \<and> set (us @ fs) = {0..<freedom_size s}
     \<and> (\<forall>i\<in>{0..<freedom_size s}. is_free_f s i \<longleftrightarrow> i \<in> set fs)
     \<and> used_count s = int (length us)"

text \<open>Enough to establish \<open>lfk_rep\<close>: rings in the view, and the bookkeeping.\<close>

lemma lfk_repI:
  assumes v: "views s nx pv fr"
    and "ring nx pv used_list us" and "ring nx pv free_list fs"
    and d: "distinct (us @ fs)" and set: "set (us @ fs) = {0..<freedom_size s}"
    and fr: "\<And>i. i \<in> set (us @ fs) \<Longrightarrow> fr i \<longleftrightarrow> i \<in> set fs"
    and "used_count s = int (length us)"
  shows "lfk_rep s us fs"
proof -
  have wf: "lfk_wf s" using v by (simp add: views_def)
  then have ok: "valid_slot s i" if "i \<in> set (us @ fs) \<or> i = used_list \<or> i = free_list" for i
    using that set [THEN equalityD1, THEN subsetD, of i]
    by (auto simp: valid_slot_def used_list_def free_list_def lfk_wf_def)
  have "ring (next_f s) (previous_f s) used_list us"
    by (rule ring_frame [OF assms(2)]) (auto intro!: views_next [OF v] views_previous [OF v] ok)
  moreover have "ring (next_f s) (previous_f s) free_list fs"
    by (rule ring_frame [OF assms(3)]) (auto intro!: views_next [OF v] views_previous [OF v] ok)
  moreover have "is_free_f s i \<longleftrightarrow> i \<in> set fs" if "i \<in> {0..<freedom_size s}" for i
  proof -
    have "i \<in> set (us @ fs)" unfolding set by (rule that)
    then show ?thesis using views_free [OF v ok, of i] fr [of i] by blast
  qed
  ultimately show ?thesis using wf d set assms(7) by (simp add: lfk_rep_def)
qed

lemma lfk_repD:
  assumes "lfk_rep s us fs"
  shows "lfk_wf s" and "ring (next_f s) (previous_f s) used_list us"
    and "ring (next_f s) (previous_f s) free_list fs"
    and "distinct (used_list # us)" and "distinct (free_list # fs)"
    and "set us \<inter> set fs = {}" and "set us \<union> set fs = {0..<freedom_size s}"
    and "\<And>i. i \<in> set us \<union> set fs \<Longrightarrow> is_free_f s i \<longleftrightarrow> i \<in> set fs"
    and "used_count s = int (length us)"
    and "used_list \<notin> set fs" and "free_list \<notin> set us"
    and "\<And>i. i \<in> set us \<union> set fs \<Longrightarrow> valid_slot s i"
    and "valid_slot s used_list" and "valid_slot s free_list"
    and "views s (next_f s) (previous_f s) (is_free_f s)"
proof -
  have set: "set us \<union> set fs = {0..<freedom_size s}" and wf: "lfk_wf s"
    using assms by (simp_all add: lfk_rep_def)
  have neg: "used_list \<notin> {0..<freedom_size s}" "free_list \<notin> {0..<freedom_size s}"
    by (simp_all add: used_list_def free_list_def)
  show "lfk_wf s" "set us \<union> set fs = {0..<freedom_size s}" by fact+
  show "ring (next_f s) (previous_f s) used_list us" "ring (next_f s) (previous_f s) free_list fs"
    "set us \<inter> set fs = {}" "used_count s = int (length us)"
    using assms by (simp_all add: lfk_rep_def)
  show "is_free_f s i \<longleftrightarrow> i \<in> set fs" if "i \<in> set us \<union> set fs" for i
    using assms that set by (simp add: lfk_rep_def)
  show "distinct (used_list # us)" "distinct (free_list # fs)" "used_list \<notin> set fs" "free_list \<notin> set us"
    using assms neg set by (auto simp: lfk_rep_def)
  show "valid_slot s i" if "i \<in> set us \<union> set fs" for i
    using that set by (simp add: valid_slot_def)
  show "valid_slot s used_list" "valid_slot s free_list"
    using wf by (simp_all add: valid_slot_def lfk_wf_def used_list_def free_list_def)
  show "views s (next_f s) (previous_f s) (is_free_f s)" using wf by (rule views_refl)
qed

lemma lfk_rep_apart:
  assumes "lfk_rep s us fs" and "x = used_list \<or> x \<in> set us" and "y = free_list \<or> y \<in> set fs"
  shows "x \<noteq> y"
  using assms(2,3) lfk_repD(6,10,11) [OF assms(1)] heads_distinct by auto

lemma lfk_rep_new: "lfk_rep lfk_new [] []"
  by (simp add: lfk_rep_def lfk_wf_def lfk_new_def Let_def resize_vector_def set_next_def set_previous_def
      set_is_free_def next_f_def previous_f_def used_list_def free_list_def slot_def vector_resize_def)

lemma lfk_wf_resize:
  assumes "lfk_wf s" and "freedom_size s \<le> n"
  shows "views (resize_vector n s)
    (\<lambda>i. if i < freedom_size s then next_f s i else null_record)
    (\<lambda>i. if i < freedom_size s then previous_f s i else null_record)
    (\<lambda>i. if i < freedom_size s then is_free_f s i else False)"
  using assms
  by (auto simp: views_def lfk_wf_def resize_vector_def next_f_def previous_f_def is_free_f_def
      nth_vector_resize valid_slot_def slot_def nat_less_iff nat_le_iff)

text \<open>The three groups of pointer assignments, on the views of two rings.\<close>

lemma lfk_link_frame [simp]:
  "freedom_size (lfk_unlink i s) = freedom_size s"
  "freedom_size (lfk_link_free i s) = freedom_size s"
  "freedom_size (lfk_link_used i s) = freedom_size s"
  "used_count (lfk_unlink i s) = used_count s"
  "used_count (lfk_link_free i s) = used_count s"
  "used_count (lfk_link_used i s) = used_count s"
  "valid_slot (lfk_unlink i s) j = valid_slot s j"
  by (simp_all add: lfk_unlink_def lfk_link_free_def lfk_link_used_def Let_def)

lemma ring_neighbours_neq:
  assumes "ring nx pv h xs" and "distinct (h # xs)" and "x \<in> set xs"
  shows "nx x \<noteq> x" and "pv x \<noteq> x"
proof -
  obtain us vs where xs: "xs = us @ x # vs" using assms(3) by (auto dest: split_list)
  with assms(1) have "dseg nx pv h us x" and "dseg nx pv x vs h" by auto
  then have "nx x = hd (vs @ [h])" and "pv x = last (h # us)"
    by (auto dest: dseg_nx_first dseg_pv_last)
  with assms(2) xs show "nx x \<noteq> x" and "pv x \<noteq> x"
    by (auto simp: hd_append last_ConsR split: if_splits dest: last_in_set)
qed

definition apart :: "Record_Id list \<Rightarrow> Record_Id list \<Rightarrow> bool" where
  "apart xs ys \<longleftrightarrow> distinct xs \<and> distinct ys \<and> set xs \<inter> set ys = {}"

lemma views_unlink:
  assumes v: "views s nx pv fr" and h: "ring nx pv h hs" and g: "ring nx pv g gs"
    and ap: "apart (h # hs) (g # gs)" and val: "\<And>x. x \<in> set (h # hs) \<Longrightarrow> valid_slot s x"
    and i: "i \<in> set hs"
  shows "\<exists>nx' pv'. views (lfk_unlink i s) nx' pv' fr \<and> ring nx' pv' h (remove1 i hs) \<and> ring nx' pv' g gs"
proof (intro exI conjI)
  let ?nx' = "nx(pv i := nx i)" and ?pv' = "pv(nx i := pv i)" and ?s1 = "set_next (pv i) (nx i) s"
  have nb: "nx i \<in> set (h # hs)" "pv i \<in> set (h # hs)"
    using ring_neighbours [OF h, of i] i by auto
  have vi: "valid_slot s i" "valid_slot s (nx i)" "valid_slot s (pv i)"
    using val [of i] val nb i by auto
  have neq: "nx i \<noteq> i" "pv i \<noteq> i" using ring_neighbours_neq [OF h _ i] ap by (auto simp: apart_def)
  have v1: "views ?s1 ?nx' pv fr" by (rule views_set_next [OF v vi(3)])
  then have "next_f ?s1 i = nx i" "previous_f ?s1 i = pv i"
    using views_next [OF v1, of i] views_previous [OF v1, of i] vi neq by auto
  moreover have "views (set_previous (nx i) (pv i) ?s1) ?nx' ?pv' fr"
    by (rule views_set_previous [OF v1]) (simp add: vi)
  ultimately show "views (lfk_unlink i s) ?nx' ?pv' fr"
    unfolding lfk_unlink_def Let_def views_next [OF v vi(1)] views_previous [OF v vi(1)] by simp
  obtain xs ys where "hs = xs @ i # ys" "remove1 i hs = xs @ ys"
    using i ap by (auto simp: apart_def elim: remove1_split)
  then show "ring ?nx' ?pv' h (remove1 i hs)"
    using ring_unlink [of nx pv h xs i ys] h ap by (simp add: apart_def)
  have "x \<noteq> nx i \<and> x \<noteq> pv i" if "x = g \<or> x \<in> set gs" for x
    using nb ap that unfolding apart_def by auto
  then show "ring ?nx' ?pv' g gs" by (intro ring_frame [OF g]) simp_all
qed

lemma views_link_free:
  assumes v: "views s nx pv fr" and h: "ring nx pv free_list hs" and g: "ring nx pv g gs"
    and ap: "apart (free_list # i # hs) (g # gs)"
    and val: "\<And>x. x \<in> set (free_list # i # hs) \<Longrightarrow> valid_slot s x"
  shows "\<exists>nx' pv'. views (lfk_link_free i s) nx' pv' fr \<and> ring nx' pv' free_list (i # hs) \<and> ring nx' pv' g gs"
proof (intro exI conjI)
  let ?n = "nx free_list"
  let ?nx' = "(nx(i := ?n))(free_list := i)" and ?pv' = "(pv(i := free_list))(?n := i)"
  let ?s2 = "set_previous i free_list (set_next i ?n s)"
  have n: "?n \<in> set (free_list # hs)" using ring_neighbours [OF h, of free_list] by auto
  have ne: "free_list \<noteq> i" using ap by (auto simp: apart_def)
  have vs: "valid_slot s i" "valid_slot s free_list" "valid_slot s ?n"
    using val n by auto
  have v2: "views ?s2 (nx(i := ?n)) (pv(i := free_list)) fr"
    by (intro views_set_next views_set_previous v) (simp_all add: vs)
  have "next_f ?s2 free_list = ?n" using views_next [OF v2, of free_list] vs ne by simp
  moreover have "views (set_next free_list i (set_previous ?n i ?s2)) ?nx' ?pv' fr"
    by (intro views_set_next views_set_previous v2) (simp_all add: vs)
  ultimately show "views (lfk_link_free i s) ?nx' ?pv' fr"
    unfolding lfk_link_free_def Let_def views_next [OF v vs(2)] by simp
  show "ring ?nx' ?pv' free_list (i # hs)"
    using ring_insert_front [OF h] ap by (simp add: apart_def)
  have "x \<noteq> i \<and> x \<noteq> free_list \<and> x \<noteq> ?n" if "x = g \<or> x \<in> set gs" for x
    using n ap that unfolding apart_def by auto
  then show "ring ?nx' ?pv' g gs" by (intro ring_frame [OF g]) simp_all
qed

lemma views_link_used:
  assumes v: "views s nx pv fr" and h: "ring nx pv used_list hs" and g: "ring nx pv g gs"
    and ap: "apart (used_list # i # hs) (g # gs)"
    and val: "\<And>x. x \<in> set (used_list # i # hs) \<Longrightarrow> valid_slot s x"
  shows "\<exists>nx' pv'. views (lfk_link_used i s) nx' pv' fr \<and> ring nx' pv' used_list (hs @ [i]) \<and> ring nx' pv' g gs"
proof (intro exI conjI)
  let ?q = "pv used_list"
  let ?nx' = "(nx(i := used_list))(?q := i)" and ?pv' = "(pv(i := ?q))(used_list := i)"
  let ?s2 = "set_next i used_list (set_previous i ?q s)"
  have q: "?q \<in> set (used_list # hs)" using ring_neighbours [OF h, of used_list] by auto
  have vs: "valid_slot s i" "valid_slot s used_list" "valid_slot s ?q"
    using val q by auto
  have v2: "views ?s2 (nx(i := used_list)) (pv(i := ?q)) fr"
    by (intro views_set_next views_set_previous v) (simp_all add: vs)
  have "previous_f ?s2 i = ?q" using views_previous [OF v2, of i] vs by simp
  moreover have "views (set_previous used_list i (set_next ?q i ?s2)) ?nx' ?pv' fr"
    by (intro views_set_next views_set_previous v2) (simp_all add: vs)
  ultimately show "views (lfk_link_used i s) ?nx' ?pv' fr"
    unfolding lfk_link_used_def Let_def views_previous [OF v vs(2)] by simp
  show "ring ?nx' ?pv' used_list (hs @ [i])"
    using ring_insert_back [OF h] ap by (simp add: apart_def)
  have "x \<noteq> i \<and> x \<noteq> used_list \<and> x \<noteq> ?q" if "x = g \<or> x \<in> set gs" for x
    using q ap that unfolding apart_def by auto
  then show "ring ?nx' ?pv' g gs" by (intro ring_frame [OF g]) simp_all
qed

lemma lfk_rep_partition:
  assumes "lfk_rep s us fs"
  shows "apart (used_list # us) (free_list # fs)" and "apart (free_list # fs) (used_list # us)"
    and "\<And>x. x \<in> set (used_list # us) \<or> x \<in> set (free_list # fs) \<Longrightarrow> valid_slot s x"
    and "i \<in> set us \<union> set fs \<longleftrightarrow> 0 \<le> i \<and> i < freedom_size s"
proof -
  note D = lfk_repD [OF assms]
  show "apart (used_list # us) (free_list # fs)" and "apart (free_list # fs) (used_list # us)"
    using D(4,5,6,10,11) heads_distinct by (auto simp: apart_def)
  show "valid_slot s x" if "x \<in> set (used_list # us) \<or> x \<in> set (free_list # fs)" for x
    using that D(12) [of x] D(13,14) by auto
  show "i \<in> set us \<union> set fs \<longleftrightarrow> 0 \<le> i \<and> i < freedom_size s"
    unfolding D(7) by simp
qed

lemma lfk_rep_push_back:
  assumes "lfk_rep s us fs"
  shows "lfk_rep (snd (lfk_push_back s)) us (freedom_size s # fs)"
    and "fst (lfk_push_back s) = freedom_size s"
proof -
  note D = lfk_repD [OF assms] and P = lfk_rep_partition [OF assms]
  let ?n = "freedom_size s" and ?s0 = "resize_vector (freedom_size s + 1) s"
  obtain nx pv fr where v0: "views ?s0 nx pv fr"
    and eq: "\<And>i. i < ?n \<Longrightarrow> nx i = next_f s i \<and> pv i = previous_f s i \<and> fr i = is_free_f s i"
    by (rule that [OF lfk_wf_resize [OF D(1), of "?n + 1"]]) auto
  have n: "0 \<le> ?n" using D(1) by (simp add: lfk_wf_def)
  have lt: "x < ?n" if "x \<in> set (used_list # us) \<or> x \<in> set (free_list # fs)" for x
    using P(3) [OF that] by (simp add: valid_slot_def)
  have val: "valid_slot ?s0 x" if "x \<in> set (free_list # ?n # fs)" for x
    using that P(3) [of x] n by (auto simp: valid_slot_def)
  have rings: "ring nx pv used_list us" "ring nx pv free_list fs"
    by (rule ring_frame [OF D(2)] ring_frame [OF D(3)]; use eq lt in auto)+
  have ap: "apart (free_list # ?n # fs) (used_list # us)"
    using P(2) lt [of ?n] by (auto simp: apart_def)
  have v1: "views (set_is_free ?n True ?s0) nx pv (fr(?n := True))"
    using views_set_is_free [OF v0] val by simp
  have pb: "snd (lfk_push_back s) = lfk_link_free ?n (set_is_free ?n True ?s0)"
    by (simp add: lfk_push_back_def Let_def)
  obtain nx' pv' where V: "views (snd (lfk_push_back s)) nx' pv' (fr(?n := True))"
    "ring nx' pv' free_list (?n # fs)" "ring nx' pv' used_list us"
    using views_link_free [OF v1 rings(2,1) ap] val unfolding pb valid_slot_set by blast
  show "lfk_rep (snd (lfk_push_back s)) us (?n # fs)"
  proof (rule lfk_repI [OF V(1,3,2)])
    show "distinct (us @ ?n # fs)"
      using D(4,5,6) lt [of ?n] by auto
    have "set (us @ ?n # fs) = insert ?n (set us \<union> set fs)" by auto
    also have "\<dots> = {0..<freedom_size (snd (lfk_push_back s))}" unfolding D(7) using n by auto
    finally show "set (us @ ?n # fs) = {0..<freedom_size (snd (lfk_push_back s))}" .
    show "(fr(?n := True)) i \<longleftrightarrow> i \<in> set (?n # fs)" if "i \<in> set (us @ ?n # fs)" for i
      using that lt [of i] eq [of i] D(8) [of i] D(6) by auto
    show "used_count (snd (lfk_push_back s)) = int (length us)"
      using D(9) by (simp add: lfk_push_back_def Let_def)
  qed
  show "fst (lfk_push_back s) = freedom_size s" by (simp add: lfk_push_back_def Let_def)
qed

lemma lfk_rep_use:
  assumes rep: "lfk_rep s us fs" and i: "i \<in> set fs"
  shows "\<exists>s'. lfk_use i s = Inr s' \<and> lfk_rep s' (us @ [i]) (remove1 i fs) \<and> freedom_size s' = freedom_size s"
proof -
  note D = lfk_repD [OF rep] and P = lfk_rep_partition [OF rep]
  let ?fr = "(is_free_f s)(i := False)" and ?s1 = "set_is_free i False s"
  let ?s' = "lfk_link_used i (lfk_unlink i ?s1)"
  have bounds: "0 \<le> i \<and> i < freedom_size s" and free: "is_free_f s i"
    using P(4) [of i] D(8) [of i] i by auto
  have v1: "views ?s1 (next_f s) (previous_f s) ?fr"
    by (rule views_set_is_free [OF D(15)]) (use i P(3) in simp)
  obtain nx pv where V: "views (lfk_unlink i ?s1) nx pv ?fr" "ring nx pv free_list (remove1 i fs)"
    "ring nx pv used_list us"
    using views_unlink [OF v1 D(3,2) P(2) _ i] P(3) by auto
  have "apart (used_list # i # us) (free_list # remove1 i fs)"
    using P(1) i by (auto simp: apart_def dest: notin_set_remove1)
  then obtain nx' pv' where W: "views ?s' nx' pv' ?fr" "ring nx' pv' used_list (us @ [i])"
    "ring nx' pv' free_list (remove1 i fs)"
    using views_link_used [OF V(1,3,2), of i] P(3) i by auto
  have "lfk_rep (?s'\<lparr>used_count := used_count ?s' + 1\<rparr>) (us @ [i]) (remove1 i fs)"
  proof (rule lfk_repI [OF views_used_count [OF W(1)] W(2,3)])
    show "distinct ((us @ [i]) @ remove1 i fs)"
      using P(1) i by (auto simp: apart_def dest: notin_set_remove1)
    have "set ((us @ [i]) @ remove1 i fs) = set us \<union> set fs"
      using P(1) i by (auto simp: apart_def)
    then show "set ((us @ [i]) @ remove1 i fs) = {0..<freedom_size (?s'\<lparr>used_count := used_count ?s' + 1\<rparr>)}"
      using D(7) by simp
    show "?fr j \<longleftrightarrow> j \<in> set (remove1 i fs)" if "j \<in> set ((us @ [i]) @ remove1 i fs)" for j
      using that D(8) [of j] D(5,6) i by (auto dest: notin_set_remove1)
    show "used_count (?s'\<lparr>used_count := used_count ?s' + 1\<rparr>) = int (length (us @ [i]))"
      using D(9) by simp
  qed
  with bounds free show ?thesis by (simp add: lfk_use_def Let_def)
qed

lemma lfk_rep_free:
  assumes rep: "lfk_rep s us fs" and i: "i \<in> set us"
  shows "\<exists>s'. lfk_free i s = Inr s' \<and> lfk_rep s' (remove1 i us) (i # fs) \<and> freedom_size s' = freedom_size s"
proof -
  note D = lfk_repD [OF rep] and P = lfk_rep_partition [OF rep]
  let ?fr = "(is_free_f s)(i := True)" and ?s1 = "set_is_free i True s"
  let ?s' = "lfk_link_free i (lfk_unlink i ?s1)"
  have bounds: "0 \<le> i \<and> i < freedom_size s" and used: "\<not> is_free_f s i"
    using P(4) [of i] D(8) [of i] D(6) i by auto
  have v1: "views ?s1 (next_f s) (previous_f s) ?fr"
    by (rule views_set_is_free [OF D(15)]) (use i P(3) in simp)
  obtain nx pv where V: "views (lfk_unlink i ?s1) nx pv ?fr" "ring nx pv used_list (remove1 i us)"
    "ring nx pv free_list fs"
    using views_unlink [OF v1 D(2,3) P(1) _ i] P(3) by auto
  have "apart (free_list # i # fs) (used_list # remove1 i us)"
    using P(2) i by (auto simp: apart_def dest: notin_set_remove1)
  then obtain nx' pv' where W: "views ?s' nx' pv' ?fr" "ring nx' pv' free_list (i # fs)"
    "ring nx' pv' used_list (remove1 i us)"
    using views_link_free [OF V(1,3,2), of i] P(3) i by auto
  have "lfk_rep (?s'\<lparr>used_count := used_count ?s' - 1\<rparr>) (remove1 i us) (i # fs)"
  proof (rule lfk_repI [OF views_used_count [OF W(1)] W(3,2)])
    show "distinct (remove1 i us @ i # fs)"
      using P(1) i by (auto simp: apart_def dest: notin_set_remove1)
    have "set (remove1 i us @ i # fs) = set us \<union> set fs"
      using P(1) i by (auto simp: apart_def)
    then show "set (remove1 i us @ i # fs) = {0..<freedom_size (?s'\<lparr>used_count := used_count ?s' - 1\<rparr>)}"
      using D(7) by simp
    show "?fr j \<longleftrightarrow> j \<in> set (i # fs)" if "j \<in> set (remove1 i us @ i # fs)" for j
      using that D(8) [of j] D(4,6) i by (auto dest: notin_set_remove1)
    have "us \<noteq> []" using i by auto
    then show "used_count (?s'\<lparr>used_count := used_count ?s' - 1\<rparr>) = int (length (remove1 i us))"
      using D(9) i by (auto simp: length_remove1 Suc_leI of_nat_diff)
  qed
  with bounds used show ?thesis by (simp add: lfk_free_def Let_def)
qed

section \<open>List_Freedom_Keeper meets the contract\<close>

definition lfk_inv :: "List_Freedom_Keeper \<Rightarrow> bool" where
  "lfk_inv s \<longleftrightarrow> (\<exists>us fs. lfk_rep s us fs)"

text \<open>The used records, as a walk of the code's own kind collects them.\<close>

definition lfk_used :: "List_Freedom_Keeper \<Rightarrow> Record_Id list" where
  "lfk_used s = ring_walk (lfk_get_next s) used_list (nat (freedom_size s)) (lfk_get_next s used_list)"

lemma lfk_used_eq:
  assumes "lfk_rep s us fs"
  shows "lfk_used s = us"
proof -
  note D = lfk_repD [OF assms]
  have "length us = card (set us)" using D(4) by (simp add: distinct_card)
  also have "\<dots> \<le> card {0..<freedom_size s}" by (rule card_mono) (use D(7) in auto)
  finally show ?thesis
    unfolding lfk_used_def using D(2,4) by (auto simp: lfk_get_next_def [abs_def] intro!: dseg_walk)
qed

lemma lfk_invE:
  assumes "lfk_inv s"
  obtains fs where "lfk_rep s (lfk_used s) fs"
  using assms lfk_used_eq by (auto simp: lfk_inv_def)

lemma lfk_repI_inv: "lfk_rep s us fs \<Longrightarrow> lfk_inv s"
  by (auto simp: lfk_inv_def)

interpretation lists: freedom_contract lfk_inv lfk_used lfk_get_size lfk_get_used_count
  lfk_get_next lfk_get_previous lfk_is_used lfk_push_back lfk_use lfk_free
proof (unfold_locales, goal_cases)
  case (1 k)
  then show ?case by (auto simp: lfk_inv_def lfk_rep_def lfk_wf_def lfk_get_size_def)
next
  case (2 k)
  then show ?case by (auto elim!: lfk_invE simp: lfk_rep_def)
next
  case (3 k)
  then obtain fs where "lfk_rep k (lfk_used k) fs" by (rule lfk_invE)
  from lfk_repD(7) [OF this, symmetric] show ?case by (simp add: lfk_get_size_def)
next
  case (4 k)
  then show ?case by (auto elim!: lfk_invE simp: lfk_rep_def lfk_get_used_count_def)
next
  case (5 k i)
  then obtain fs where rep: "lfk_rep k (lfk_used k) fs" by (rule lfk_invE)
  have "i \<in> set (lfk_used k) \<Longrightarrow> i \<notin> set fs" using lfk_repD(6) [OF rep] by auto
  then show ?case
    using lfk_rep_partition(4) [OF rep, of i] lfk_repD(8) [OF rep, of i] by (auto simp: lfk_is_used_def)
next
  case (6 k)
  then show ?case
    by (auto elim!: lfk_invE dest: lfk_repD(2) simp: lfk_get_next_def [abs_def] lfk_get_previous_def [abs_def])
next
  case (7 k)
  then obtain fs where rep: "lfk_rep k (lfk_used k) fs" by (rule lfk_invE)
  note D = lfk_repD [OF rep]
  have "set fs = {0..<lfk_get_size k} - set (lfk_used k)"
    unfolding lfk_get_size_def D(7) [symmetric] using D(6) by auto
  with D(3,5) show ?case by (auto simp: lfk_get_next_def [abs_def] lfk_get_previous_def [abs_def])
next
  case (8 k i k')
  then obtain fs where rep: "lfk_rep k (lfk_used k) fs" by (auto elim: lfk_invE)
  from 8(2) have "k' = snd (lfk_push_back k)" "i = fst (lfk_push_back k)" by simp_all
  with lfk_rep_push_back [OF rep] show ?case by (auto simp: lfk_get_size_def dest: lfk_used_eq intro: lfk_repI_inv)
next
  case (9 k i)
  then obtain fs where rep: "lfk_rep k (lfk_used k) fs" by (auto elim: lfk_invE)
  with 9 have "i \<in> set fs"
    using lfk_rep_partition(4) [OF rep, of i] by (simp add: lfk_get_size_def)
  from lfk_rep_use [OF rep this] show ?case by (auto simp: lfk_get_size_def dest: lfk_used_eq intro: lfk_repI_inv)
next
  case (10 k i)
  then obtain fs where rep: "lfk_rep k (lfk_used k) fs" by (auto elim: lfk_invE)
  from lfk_rep_free [OF rep 10(2)] show ?case by (auto simp: lfk_get_size_def dest: lfk_used_eq intro: lfk_repI_inv)
qed

lemma lfk_inv_new [simp]: "lfk_inv lfk_new" and lfk_used_new [simp]: "lfk_used lfk_new = []"
  using lfk_rep_new lfk_used_eq by (auto intro: lfk_repI_inv)

lemma freedom_size_new [simp]: "freedom_size lfk_new = 0"
  by (simp add: lfk_new_def Let_def)

lemma lfk_resize_law:
  "lfk_inv s \<Longrightarrow> lfk_inv (lfk_resize n s) \<and> lfk_used (lfk_resize n s) = lfk_used s
     \<and> freedom_size (lfk_resize n s) = max n (freedom_size s)"
proof (induction n s rule: lfk_resize.induct)
  case (1 n s)
  show ?case
  proof (cases "lfk_get_size s < n")
    case True
    obtain i s' where pb: "lfk_push_back s = (i, s')" by force
    with lists.push_back_law [OF "1.prems" pb] have "lfk_inv s'" "lfk_used s' = lfk_used s"
      "freedom_size s' = freedom_size s + 1"
      by (simp_all add: lfk_get_size_def)
    with "1.IH" [OF True] True pb show ?thesis
      by (subst (1 2 3) lfk_resize.simps) (simp add: lfk_get_size_def)
  next
    case False
    with "1.prems" show ?thesis by (simp add: lfk_resize.simps [of n s] lfk_get_size_def)
  qed
qed

lemma lfk_use_vector_fold: "lfk_use_vector i n s = fold_result lfk_use [i..i + int n - 1] s"
proof (induction n arbitrary: i s)
  case (Suc n)
  have "[i..i + int (Suc n) - 1] = i # [i + 1..(i + 1) + int n - 1]"
    by (subst upto_rec1) (simp_all add: algebra_simps)
  then show ?case by (simp only: lfk_use_vector.simps fold_result.simps Suc.IH [abs_def])
qed simp

lemma lfk_free_vector_fold: "lfk_free_vector i n s = fold_result lfk_free [i..i + int n - 1] s"
proof (induction n arbitrary: i s)
  case (Suc n)
  have "[i..i + int (Suc n) - 1] = i # [i + 1..(i + 1) + int n - 1]"
    by (subst upto_rec1) (simp_all add: algebra_simps)
  then show ?case by (simp only: lfk_free_vector.simps fold_result.simps Suc.IH [abs_def])
qed simp

lemma used_vector_loop_iff: "used_vector_loop s i n \<longleftrightarrow> (\<forall>j\<in>{i..<i + int n}. \<not> is_free_f s j)"
proof (induction n arbitrary: i)
  case (Suc n)
  have "{i..<i + int (Suc n)} = insert i {i + 1..<(i + 1) + int n}" by auto
  with Suc show ?case by simp
qed simp

lemma free_vector_loop_iff:
  "0 \<le> i \<Longrightarrow> free_vector_loop s i n \<longleftrightarrow> (\<forall>j\<in>{i..<i + int n}. \<not> lfk_is_used s j)"
proof (induction n arbitrary: i)
  case (Suc n)
  have "{i..<i + int (Suc n)} = insert i {i + 1..<(i + 1) + int n}" by auto
  with Suc.IH [of "i + 1"] Suc.prems show ?case by (auto simp: lfk_is_used_def)
qed simp

lemma lfk_is_free_vector_iff:
  "lfk_is_free_vector s i n \<longleftrightarrow> 0 \<le> i \<and> (\<forall>j\<in>{i..<i + int n}. \<not> lfk_is_used s j)"
  using free_vector_loop_iff [of i s n] by (auto simp: lfk_is_free_vector_def)

lemma lfk_is_used_vector_iff:
  assumes "0 \<le> freedom_size s"
  shows "lfk_is_used_vector s i n \<longleftrightarrow>
    0 \<le> i \<and> i \<le> freedom_size s \<and> (\<forall>j\<in>{i..<i + int n}. lfk_is_used s j)"
proof (cases "0 \<le> i \<and> i \<le> freedom_size s")
  case True
  show ?thesis
  proof (cases "i + int n \<le> freedom_size s")
    case fits: True
    with True have "n \<le> nat (freedom_size s) - nat i" by simp
    with True fits show ?thesis by (auto simp: lfk_is_used_vector_def used_vector_loop_iff lfk_is_used_def)
  next
    case False
    with True have "nat (freedom_size s) - nat i < n" by linarith
    moreover have "freedom_size s \<in> {i..<i + int n}" "\<not> lfk_is_used s (freedom_size s)"
      using True False by (auto simp: lfk_is_used_def)
    then have "\<not> (\<forall>j\<in>{i..<i + int n}. lfk_is_used s j)" by blast
    ultimately show ?thesis by (simp add: lfk_is_used_vector_def)
  qed
qed (auto simp: lfk_is_used_vector_def)

section \<open>Freedom_Keeper meets the contract\<close>

definition dfk_inv :: "Dense_Freedom_Keeper \<Rightarrow> bool" where
  "dfk_inv d \<longleftrightarrow> 0 \<le> used_size d \<and> used_size d \<le> free_size d"

definition dfk_used :: "Dense_Freedom_Keeper \<Rightarrow> Record_Id list" where
  "dfk_used d = [0..used_size d - 1]"

definition fk_inv :: "Freedom_Keeper \<Rightarrow> bool" where
  "fk_inv k = (if dense k then lfk k = lfk_new \<and> dfk_inv (dfk k) else lfk_inv (lfk k))"

definition fk_used :: "Freedom_Keeper \<Rightarrow> Record_Id list" where
  "fk_used k = (if dense k then dfk_used (dfk k) else lfk_used (lfk k))"

lemma dfk_used_ring:
  assumes "dfk_inv d"
  shows "ring (dfk_get_next d) (dfk_get_previous d) used_list (dfk_used d)"
proof (cases "used_size d = 0")
  case True
  then show ?thesis
    by (simp add: dfk_used_def dfk_get_next_def dfk_get_previous_def dfk_get_first_used_def)
next
  case False
  with assms show ?thesis unfolding dfk_used_def
    by (intro dseg_upto) (auto simp: dfk_inv_def dfk_get_next_def dfk_get_previous_def
        dfk_get_first_used_def used_list_def free_list_def Let_def)
qed

lemma dfk_free_ring:
  assumes "dfk_inv d"
  shows "ring (dfk_get_next d) (dfk_get_previous d) free_list [used_size d..free_size d - 1]"
proof (cases "used_size d = free_size d")
  case True
  then show ?thesis
    by (simp add: dfk_get_next_def dfk_get_previous_def dfk_get_first_free_def used_list_def free_list_def)
next
  case False
  with assms show ?thesis
    by (intro dseg_upto) (auto simp: dfk_inv_def dfk_get_next_def dfk_get_previous_def
        dfk_get_first_free_def used_list_def free_list_def Let_def)
qed

lemma lose_compactness_law:
  assumes inv: "fk_inv k" and d: "dense k"
  shows "\<exists>k'. lose_compactness k = Inr k' \<and> fk_inv k' \<and> \<not> dense k' \<and> fk_used k' = fk_used k
    \<and> fk_get_size k' = fk_get_size k"
proof -
  let ?u = "used_size (dfk k)" and ?l = "lfk_resize (free_size (dfk k)) lfk_new"
  have u: "0 \<le> ?u" "?u \<le> free_size (dfk k)" and new: "lfk k = lfk_new"
    using inv d by (simp_all add: fk_inv_def dfk_inv_def)
  have l: "lfk_inv ?l" "lfk_used ?l = []" "freedom_size ?l = free_size (dfk k)"
    using lfk_resize_law [of lfk_new "free_size (dfk k)"] u by auto
  moreover have "set [0..?u - 1] \<subseteq> {0..<lfk_get_size ?l} - set (lfk_used ?l)"
    using u l by (auto simp: lfk_get_size_def)
  ultimately obtain l' where "fold_result lfk_use [0..?u - 1] ?l = Inr l'" "lfk_inv l'"
    "lfk_used l' = [0..?u - 1]" "lfk_get_size l' = free_size (dfk k)"
    using lists.use_list [of ?l "[0..?u - 1]"] by (auto simp: lfk_get_size_def)
  then show ?thesis
    using d new by (simp add: lose_compactness_def fk_inv_def fk_used_def dfk_used_def fk_get_size_def
        dfk_get_size_def dfk_get_used_count_def lfk_get_size_def)
qed

text \<open>Every mutator is the list keeper's, on whatever representation the keeper has.\<close>

lemma on_lfk_lift:
  assumes "fk_inv k" and "\<not> dense k"
    and "\<exists>l'. f (lfk k) = Inr l' \<and> lfk_inv l' \<and> lfk_used l' = us \<and> lfk_get_size l' = lfk_get_size (lfk k)"
  shows "\<exists>k'. on_lfk f k = Inr k' \<and> fk_inv k' \<and> fk_used k' = us \<and> fk_get_size k' = fk_get_size k"
proof -
  obtain l' where "f (lfk k) = Inr l'" "lfk_inv l'" "lfk_used l' = us" "lfk_get_size l' = lfk_get_size (lfk k)"
    using assms(3) by blast
  with assms(2) show ?thesis by (simp add: on_lfk_def fk_inv_def fk_used_def fk_get_size_def)
qed

lemma lose_compactness_lift:
  assumes inv: "fk_inv k" and d: "dense k"
    and f: "\<And>l. lfk_inv l \<Longrightarrow> lfk_used l = fk_used k \<Longrightarrow> lfk_get_size l = fk_get_size k \<Longrightarrow>
      \<exists>l'. f l = Inr l' \<and> lfk_inv l' \<and> lfk_used l' = us \<and> lfk_get_size l' = lfk_get_size l"
  shows "\<exists>k'. bind_result (lose_compactness k) (on_lfk f) = Inr k' \<and> fk_inv k' \<and> fk_used k' = us
    \<and> fk_get_size k' = fk_get_size k"
proof -
  obtain k1 where k1: "lose_compactness k = Inr k1" "fk_inv k1" "\<not> dense k1" "fk_used k1 = fk_used k"
    "fk_get_size k1 = fk_get_size k"
    using lose_compactness_law [OF inv d] by blast
  with on_lfk_lift [OF k1(2,3), of f us] f [of "lfk k1"] show ?thesis
    by (simp add: fk_inv_def fk_used_def fk_get_size_def)
qed

lemmas fk_bookkeeping = fk_inv_def fk_used_def fk_get_size_def dfk_inv_def dfk_used_def dfk_get_size_def

lemma fk_use_law:
  assumes inv: "fk_inv k" and i: "0 \<le> i" "i < fk_get_size k" "i \<notin> set (fk_used k)"
  shows "\<exists>k'. fk_use i k = Inr k' \<and> fk_inv k' \<and> fk_used k' = fk_used k @ [i] \<and> fk_get_size k' = fk_get_size k"
proof (cases "dense k")
  case d: True
  show ?thesis
  proof (cases "i = used_size (dfk k) \<and> used_size (dfk k) < free_size (dfk k)")
    case True
    with d inv show ?thesis by (simp add: fk_use_def dfk_use_def fk_bookkeeping upto_rec2)
  next
    case False
    then have "dfk_use i (dfk k) = (False, dfk k)" by (auto simp: dfk_use_def)
    then have "fk_use i k = bind_result (lose_compactness k) (on_lfk (lfk_use i))"
      using d by (simp add: fk_use_def)
    moreover have "\<exists>k'. bind_result (lose_compactness k) (on_lfk (lfk_use i)) = Inr k' \<and> fk_inv k'
      \<and> fk_used k' = fk_used k @ [i] \<and> fk_get_size k' = fk_get_size k"
      by (rule lose_compactness_lift [OF inv d]) (metis lists.use_law i)
    ultimately show ?thesis by simp
  qed
next
  case False
  then have "fk_use i k = on_lfk (lfk_use i) k" by (simp add: fk_use_def)
  with on_lfk_lift [OF inv False] lists.use_law [of "lfk k" i] inv i False show ?thesis
    by (simp add: fk_bookkeeping)
qed

lemma fk_free_law:
  assumes inv: "fk_inv k" and i: "i \<in> set (fk_used k)"
  shows "\<exists>k'. fk_free i k = Inr k' \<and> fk_inv k' \<and> fk_used k' = remove1 i (fk_used k) \<and> fk_get_size k' = fk_get_size k"
proof (cases "dense k")
  case d: True
  show ?thesis
  proof (cases "i = used_size (dfk k) - 1 \<and> i \<ge> 0")
    case True
    then have "dfk_used (dfk k) = [0..i - 1] @ [i]" by (simp add: dfk_used_def upto_rec2)
    then have "remove1 i (fk_used k) = [0..i - 1]" using d by (simp add: fk_used_def remove1_append)
    with True d inv show ?thesis by (simp add: fk_free_def dfk_free_def fk_bookkeeping)
  next
    case False
    then have "dfk_free i (dfk k) = (False, dfk k)" by (auto simp: dfk_free_def)
    then have "fk_free i k = bind_result (lose_compactness k) (on_lfk (lfk_free i))"
      using d by (simp add: fk_free_def)
    moreover have "\<exists>k'. bind_result (lose_compactness k) (on_lfk (lfk_free i)) = Inr k' \<and> fk_inv k'
      \<and> fk_used k' = remove1 i (fk_used k) \<and> fk_get_size k' = fk_get_size k"
      by (rule lose_compactness_lift [OF inv d]) (metis lists.free_law i)
    ultimately show ?thesis by simp
  qed
next
  case False
  then have "fk_free i k = on_lfk (lfk_free i) k" by (simp add: fk_free_def)
  with on_lfk_lift [OF inv False] lists.free_law [of "lfk k" i] inv i False show ?thesis
    by (simp add: fk_bookkeeping)
qed

interpretation keeper: freedom_contract fk_inv fk_used fk_get_size fk_get_used_count
  fk_get_next fk_get_previous fk_is_used fk_push_back fk_use fk_free
proof (unfold_locales, goal_cases)
  case (1 k)
  then show ?case
    using lists.size_nonneg by (auto simp: fk_bookkeeping split: if_splits)
next
  case (2 k)
  then show ?case
    using lists.used_distinct by (auto simp: fk_bookkeeping split: if_splits)
next
  case (3 k)
  then show ?case
    using lists.used_bounds [of "lfk k"] by (auto simp: fk_bookkeeping split: if_splits)
next
  case (4 k)
  then show ?case
    using lists.used_count_eq
    by (auto simp: fk_bookkeeping fk_get_used_count_def dfk_get_used_count_def split: if_splits)
next
  case (5 k i)
  then show ?case
    using lists.is_used_iff by (auto simp: fk_bookkeeping fk_is_used_def dfk_is_used_def split: if_splits)
next
  case (6 k)
  then show ?case
    using lists.used_ring dfk_used_ring
    by (auto simp: fk_inv_def fk_used_def fk_get_next_def [abs_def] fk_get_previous_def [abs_def] split: if_splits)
next
  case (7 k)
  show ?case
  proof (cases "dense k")
    case True
    with 7 have "ring (fk_get_next k) (fk_get_previous k) free_list [used_size (dfk k)..free_size (dfk k) - 1]"
      using dfk_free_ring by (simp add: fk_inv_def fk_get_next_def [abs_def] fk_get_previous_def [abs_def])
    moreover have "set [used_size (dfk k)..free_size (dfk k) - 1] = {0..<fk_get_size k} - set (fk_used k)"
      using True 7 by (auto simp: fk_bookkeeping)
    ultimately show ?thesis using distinct_upto by blast
  next
    case False
    with 7 lists.free_ring [of "lfk k"] show ?thesis
      by (simp add: fk_inv_def fk_used_def fk_get_size_def fk_get_next_def [abs_def] fk_get_previous_def [abs_def])
  qed
next
  case (8 k i k')
  show ?case
  proof (cases "dense k")
    case True
    with 8 show ?thesis by (auto simp: fk_push_back_def dfk_push_back_def fk_bookkeeping)
  next
    case False
    then obtain l where l: "lfk_push_back (lfk k) = (i, l)" "k' = k\<lparr>lfk := l\<rparr>"
      using 8(2) by (auto simp: fk_push_back_def split: prod.splits)
    have "lfk_inv (lfk k)" using False 8(1) by (simp add: fk_inv_def)
    from lists.push_back_law [OF this l(1)] False l(2) show ?thesis
      by (simp add: fk_inv_def fk_used_def fk_get_size_def)
  qed
next
  case (9 k i)
  then show ?case by (rule fk_use_law)
next
  case (10 k i)
  then show ?case by (rule fk_free_law)
qed

lemma fk_inv_new [simp]: "fk_inv fk_new" and fk_used_new [simp]: "fk_used fk_new = []"
  and fk_get_size_new [simp]: "fk_get_size fk_new = 0"
  by (simp_all add: fk_new_def dfk_new_def fk_bookkeeping)

lemma fk_resize_law:
  assumes "fk_inv k"
  shows "fk_inv (fk_resize n k)" and "fk_used (fk_resize n k) = fk_used k"
    and "fk_get_size (fk_resize n k) = max n (fk_get_size k)"
  using assms lfk_resize_law [of "lfk k" n]
  by (auto simp: fk_resize_def dfk_resize_def lfk_get_size_def fk_bookkeeping split: if_splits)

lemma fk_use_vector_law:
  assumes inv: "fk_inv k" and i: "0 \<le> i" "i + int n \<le> fk_get_size k" "{i..<i + int n} \<inter> set (fk_used k) = {}"
  shows "\<exists>k'. fk_use_vector i n k = Inr k' \<and> fk_inv k' \<and> fk_used k' = fk_used k @ [i..i + int n - 1]
    \<and> fk_get_size k' = fk_get_size k"
proof -
  let ?xs = "[i..i + int n - 1]"
  have f: "\<exists>l'. lfk_use_vector i n l = Inr l' \<and> lfk_inv l' \<and> lfk_used l' = fk_used k @ ?xs
      \<and> lfk_get_size l' = lfk_get_size l"
    if "lfk_inv l" "lfk_used l = fk_used k" "lfk_get_size l = fk_get_size k" for l
  proof -
    have "set ?xs \<subseteq> {0..<lfk_get_size l} - set (lfk_used l)" unfolding that(2,3) using i by auto
    from lists.use_list [OF that(1) _ this] show ?thesis by (simp add: lfk_use_vector_fold that(2))
  qed
  show ?thesis
  proof (cases "dense k")
    case d: True
    show ?thesis
    proof (cases "i = used_size (dfk k) \<and> used_size (dfk k) + int n \<le> free_size (dfk k)")
      case True
      then have "[0..i + int n - 1] = [0..i - 1] @ ?xs"
        using i(1) upto_split1 [of 0 i "i + int n - 1"] by (cases n) auto
      with True d inv show ?thesis by (simp add: fk_use_vector_def dfk_use_vector_def fk_bookkeeping)
    next
      case False
      then have "dfk_use_vector i n (dfk k) = (False, dfk k)" by (auto simp: dfk_use_vector_def)
      then have eq: "fk_use_vector i n k = bind_result (lose_compactness k) (on_lfk (lfk_use_vector i n))"
        using d by (simp add: fk_use_vector_def)
      show ?thesis unfolding eq by (rule lose_compactness_lift [OF inv d f])
    qed
  next
    case False
    then have l: "lfk_inv (lfk k)" "lfk_used (lfk k) = fk_used k" "lfk_get_size (lfk k) = fk_get_size k"
      using inv by (simp_all add: fk_inv_def fk_used_def fk_get_size_def)
    have eq: "fk_use_vector i n k = on_lfk (lfk_use_vector i n) k" using False by (simp add: fk_use_vector_def)
    show ?thesis unfolding eq by (rule on_lfk_lift [OF inv False]) (rule f [OF l])
  qed
qed

lemma fk_free_vector_law:
  assumes inv: "fk_inv k" and i: "{i..<i + int n} \<subseteq> set (fk_used k)"
  shows "\<exists>k'. fk_free_vector i n k = Inr k' \<and> fk_inv k'
    \<and> fk_used k' = filter (\<lambda>j. j \<notin> {i..<i + int n}) (fk_used k) \<and> fk_get_size k' = fk_get_size k"
proof -
  let ?us = "filter (\<lambda>j. j \<notin> {i..<i + int n}) (fk_used k)"
  have f: "\<exists>l'. lfk_free_vector i n l = Inr l' \<and> lfk_inv l' \<and> lfk_used l' = ?us
      \<and> lfk_get_size l' = lfk_get_size l"
    if "lfk_inv l" "lfk_used l = fk_used k" "lfk_get_size l = fk_get_size k" for l
  proof -
    have set: "set [i..i + int n - 1] = {i..<i + int n}" by auto
    then have "set [i..i + int n - 1] \<subseteq> set (lfk_used l)" using i that(2) by simp
    from lists.free_list_of [OF that(1) distinct_upto this] show ?thesis
      unfolding set by (simp add: lfk_free_vector_fold that(2))
  qed
  show ?thesis
  proof (cases "dense k")
    case d: True
    show ?thesis
    proof (cases "i + int n = used_size (dfk k)")
      case True
      have "0 \<le> used_size (dfk k)" using inv d by (simp add: fk_bookkeeping)
      moreover have "0 \<le> i" if "n \<noteq> 0" using i that d by (force simp: fk_bookkeeping)
      ultimately have "0 \<le> i" using True by (cases "n = 0") auto
      moreover from this have "[0..i + int n - 1] = [0..i - 1] @ [i..i + int n - 1]"
        using upto_split1 [of 0 i "i + int n - 1"] by (cases n) auto
      then have "?us = [0..i - 1]" using True d by (simp add: fk_bookkeeping filter_id_conv)
      moreover have "fk_free_vector i n k = Inr (k\<lparr>dfk := (dfk k)\<lparr>used_size := i\<rparr>\<rparr>)"
        using True [symmetric] d by (simp add: fk_free_vector_def dfk_free_vector_def)
      ultimately show ?thesis using True [symmetric] d inv by (simp add: fk_bookkeeping)
    next
      case False
      then have "dfk_free_vector i n (dfk k) = (False, dfk k)" by (auto simp: dfk_free_vector_def)
      then have eq: "fk_free_vector i n k = bind_result (lose_compactness k) (on_lfk (lfk_free_vector i n))"
        using d by (simp add: fk_free_vector_def)
      show ?thesis unfolding eq by (rule lose_compactness_lift [OF inv d f])
    qed
  next
    case False
    then have l: "lfk_inv (lfk k)" "lfk_used (lfk k) = fk_used k" "lfk_get_size (lfk k) = fk_get_size k"
      using inv by (simp_all add: fk_inv_def fk_used_def fk_get_size_def)
    have eq: "fk_free_vector i n k = on_lfk (lfk_free_vector i n) k" using False by (simp add: fk_free_vector_def)
    show ?thesis unfolding eq by (rule on_lfk_lift [OF inv False]) (rule f [OF l])
  qed
qed

lemma fk_is_free_vector_iff:
  assumes "fk_inv k" and "0 < n"
  shows "fk_is_free_vector k i n \<longleftrightarrow> 0 \<le> i \<and> {i..<i + int n} \<inter> set (fk_used k) = {}"
proof (cases "dense k")
  case True
  have "i \<in> {i..<i + int n}" using assms(2) by simp
  then show ?thesis
    using True assms by (auto simp: fk_is_free_vector_def dfk_is_free_vector_def fk_bookkeeping disjoint_iff)
next
  case False
  then show ?thesis
    using assms(1) lists.is_used_iff [of "lfk k"]
    by (auto simp: fk_is_free_vector_def lfk_is_free_vector_iff fk_inv_def fk_used_def disjoint_iff)
qed

lemma fk_is_used_vector_iff:
  assumes "fk_inv k" and "0 < n"
  shows "fk_is_used_vector k i n \<longleftrightarrow> {i..<i + int n} \<subseteq> set (fk_used k)"
proof (cases "dense k")
  case True
  then have "set (fk_used k) = {0..<used_size (dfk k)}" by (auto simp: fk_used_def dfk_used_def)
  then have "{i..<i + int n} \<subseteq> set (fk_used k) \<longleftrightarrow> 0 \<le> i \<and> i + int n \<le> used_size (dfk k)"
    using assms(2) by (simp add: ivl_subset)
  also have "\<dots> \<longleftrightarrow> fk_is_used_vector k i n"
    using True assms by (auto simp: fk_is_used_vector_def dfk_is_used_vector_def)
  finally show ?thesis by simp
next
  case False
  have "i \<in> {i..<i + int n}" using assms(2) by simp
  moreover have "0 \<le> freedom_size (lfk k)"
    using lists.size_nonneg [of "lfk k"] False assms(1) by (simp add: fk_inv_def lfk_get_size_def)
  moreover have "(\<forall>j\<in>{i..<i + int n}. lfk_is_used (lfk k) j) \<longleftrightarrow> {i..<i + int n} \<subseteq> set (fk_used k)"
    using False assms(1) lists.is_used_iff [of "lfk k"] by (auto simp: fk_inv_def fk_used_def)
  moreover have "0 \<le> i \<and> i \<le> freedom_size (lfk k)" if "lfk_is_used (lfk k) i"
    using that by (simp add: lfk_is_used_def)
  ultimately show ?thesis using False by (auto simp: fk_is_used_vector_def lfk_is_used_vector_iff)
qed

lemma fk_get_free_record_law:
  assumes inv: "fk_inv k" and gfr: "fk_get_free_record k = (i, k')"
  shows "fk_inv k' \<and> fk_used k' = fk_used k \<and> 0 \<le> i \<and> i < fk_get_size k' \<and> i \<notin> set (fk_used k)"
proof (cases "dense k")
  case True
  with assms show ?thesis
    by (auto simp: fk_get_free_record_def dfk_get_free_record_def fk_bookkeeping)
next
  case False
  let ?l = "lfk k"
  have linv: "lfk_inv ?l" using inv False by (simp add: fk_inv_def)
  obtain l where l: "lfk_get_free_record ?l = (i, l)" "k' = k\<lparr>lfk := l\<rparr>"
    using False gfr by (auto simp: fk_get_free_record_def split: prod.splits)
  obtain fs where rep: "lfk_rep ?l (lfk_used ?l) fs" using linv by (rule lfk_invE)
  have first: "next_f s free_list = hd (xs @ [free_list])" if "lfk_rep s us xs" for s us xs
    using dseg_nx_first [OF lfk_repD(3) [OF that]] .
  have "\<exists>fs'. lfk_rep l (lfk_used ?l) fs' \<and> i \<in> set fs'"
  proof (cases fs)
    case Nil
    with first [OF rep] have "next_f ?l free_list = free_list" by simp
    with l(1) lfk_rep_push_back(1) [OF rep] first [OF lfk_rep_push_back(1) [OF rep]]
    show ?thesis by (auto simp: lfk_get_free_record_def Let_def)
  next
    case (Cons x xs)
    with first [OF rep] lfk_repD(5) [OF rep] have "next_f ?l free_list = x" "x \<noteq> free_list" by auto
    with l(1) rep Cons show ?thesis by (auto simp: lfk_get_free_record_def Let_def)
  qed
  then obtain fs' where rep': "lfk_rep l (lfk_used ?l) fs'" and i: "i \<in> set fs'" by blast
  have "i \<notin> set (lfk_used ?l)" using lfk_repD(6) [OF rep'] i by auto
  with lfk_rep_partition(4) [OF rep', of i] i rep' False l(2) show ?thesis
    by (simp add: fk_inv_def fk_used_def fk_get_size_def lfk_get_size_def lfk_used_eq [OF rep'] lfk_repI_inv)
qed

end
