(* ===== verification/Database_Proofs.thy ===== *)
theory Database_Proofs
  imports Interpreted_Database Freedom_Proofs
begin

text \<open>
  The well-formedness invariant of the interpreted database, its preservation by every event, and
  the absence of out-of-bounds accesses and of failed assertions.
\<close>

section \<open>Well-formed fields and tables\<close>

definition field_ok :: "nat \<Rightarrow> Field \<Rightarrow> bool" where
  "field_ok n f =
     (case column f of
        None \<Rightarrow> \<not> macro_type (type_id (field_type f))
      | Some xs \<Rightarrow> macro_type (type_id (field_type f)) \<and> length xs = n
          \<and> (\<forall>v\<in>set xs. type_of_value v = type_id (field_type f)))"

text \<open>The maps of a schema object: same keys, positive keys up to the last identifier given out,
  and unique valid names.\<close>

definition schema_ok :: "(16 word, 'a) std_map \<Rightarrow> (16 word, string) std_map \<Rightarrow> 16 word \<Rightarrow> bool" where
  "schema_ok m names c \<longleftrightarrow> map_ok m \<and> map_ok names \<and> dom (map_of m) = dom (map_of names)
     \<and> (\<forall>k\<in>dom (map_of m). 0 < k \<and> k \<le> c)
     \<and> inj_on (map_of names) (dom (map_of names)) \<and> (\<forall>s\<in>ran (map_of names). is_identifier s)"

definition table_ok :: "Table \<Rightarrow> bool" where
  "table_ok t \<longleftrightarrow> fk_inv (freedom t)
     \<and> schema_ok (table_fields t) (field_names t) (current_field_id t)
     \<and> (\<forall>x\<in>ran (map_of (table_fields t)). field_ok (nat (fk_get_size (freedom t))) x)"

definition db_ok :: "Database \<Rightarrow> bool" where
  "db_ok db \<longleftrightarrow> schema_ok (tables db) (table_names db) (current_table_id db)
     \<and> (\<forall>t\<in>ran (map_of (tables db)). table_ok t)"

section \<open>Schema maps\<close>

lemma find_key_fresh:
  assumes "schema_ok m names c" and "find_key names s = 0"
  shows "s \<notin> ran (map_of names)"
proof -
  have "0 \<notin> set (keys names)"
  proof
    assume "0 \<in> set (keys names)"
    then have "0 \<in> dom (map_of m)" using assms(1) by (simp add: schema_ok_def dom_map_of_conv_image_fst)
    with assms(1) have "(0 :: 16 word) < 0" unfolding schema_ok_def by blast
    then show False by simp
  qed
  with assms(2) have "s \<notin> snd ` set names" by (simp add: find_key_zero_iff)
  then show ?thesis by (force simp: ran_def dest: map_of_SomeD)
qed

lemma schema_ok_new: "schema_ok [] [] 0"
  by (simp add: schema_ok_def map_ok_def)

lemma next_id:
  fixes c :: "16 word"
  assumes "c \<noteq> 65535"
  shows "c < c + 1" and "0 < c + 1" and "k \<le> c \<Longrightarrow> k \<le> c + 1" and "k \<le> c \<Longrightarrow> k \<noteq> c + 1"
proof -
  have "unat c \<noteq> 65535"
  proof
    assume "unat c = 65535"
    then have "word_of_nat (unat c) = (word_of_nat 65535 :: 16 word)" by simp
    with assms show False by simp
  qed
  moreover have "unat c < 2 ^ LENGTH(16)" by (rule unsigned_less)
  ultimately have "unat c + 1 < 2 ^ 16" by simp
  then have u: "unat (c + 1) = unat c + 1"
    by (subst unat_add_lem [THEN iffD1]) simp_all
  then show "c < c + 1" by (simp add: word_less_nat_alt)
  then show "0 < c + 1" by (simp add: word_less_nat_alt)
  show "k \<le> c \<Longrightarrow> k \<le> c + 1" "k \<le> c \<Longrightarrow> k \<noteq> c + 1"
    using u by (auto simp: word_le_nat_alt)
qed

lemma schema_ok_add:
  assumes ok: "schema_ok m names c" and "c \<noteq> 65535" and "s \<notin> ran (map_of names)" and "is_identifier s"
  shows "schema_ok (map_try_emplace (c + 1) x m) (map_try_emplace (c + 1) s names) (c + 1)"
    and "map_of (map_try_emplace (c + 1) x m) = (map_of m)(c + 1 \<mapsto> x)"
proof -
  have new: "map_of m (c + 1) = None" "map_of names (c + 1) = None"
  proof -
    have "c + 1 \<notin> dom (map_of m)" using ok next_id(4) [OF assms(2)] by (auto simp only: schema_ok_def)
    moreover from this ok have "c + 1 \<notin> dom (map_of names)" by (simp add: schema_ok_def)
    ultimately show "map_of m (c + 1) = None" "map_of names (c + 1) = None"
      by (simp_all only: domIff not_not)
  qed
  show "map_of (map_try_emplace (c + 1) x m) = (map_of m)(c + 1 \<mapsto> x)"
    using new by (simp add: smap.emplace_new)
  moreover have "inj_on ((map_of names)(c + 1 \<mapsto> s)) (insert (c + 1) (dom (map_of names)))"
    using ok assms(3) new by (auto simp: schema_ok_def inj_on_def ran_def dom_def split: if_splits)
  ultimately show "schema_ok (map_try_emplace (c + 1) x m) (map_try_emplace (c + 1) s names) (c + 1)"
    using ok assms(4) next_id [OF assms(2)] new
    by (auto simp: schema_ok_def smap.emplace_new smap.ok_try_emplace ran_map_upd)
qed

lemma schema_ok_erase:
  assumes "schema_ok m names c"
  shows "schema_ok (map_erase k m) (map_erase k names) c"
  using assms by (auto simp: schema_ok_def smap.ok_erase smap.lookup_erase inj_on_def ran_def split: if_splits)

lemma schema_ok_rename:
  assumes ok: "schema_ok m names c" and "k \<in> dom (map_of m)" and "s \<notin> ran (map_of names)" and "is_identifier s"
  shows "schema_ok m (map_assign k s names) c"
proof -
  have "inj_on ((map_of names)(k \<mapsto> s)) (dom (map_of names))"
    using ok assms(3) by (auto simp: schema_ok_def inj_on_def ran_def dom_def split: if_splits)
  moreover have "dom (map_of (map_assign k s names)) = dom (map_of names)"
    using ok assms(2) by (auto simp: schema_ok_def smap.lookup_assign)
  moreover have "is_identifier z" if "z \<in> ran ((map_of names)(k \<mapsto> s))" for z
    using ok assms(4) that by (auto simp: schema_ok_def ran_def split: if_splits)
  ultimately show ?thesis
    using ok by (simp add: schema_ok_def smap.ok_assign smap.lookup_assign)
qed

lemma schema_ok_assign: "schema_ok m names c \<Longrightarrow> map_of m k = Some y \<Longrightarrow> schema_ok (map_assign k x m) names c"
  by (auto simp: schema_ok_def smap.ok_assign smap.lookup_assign)

lemma ran_assign: "y \<in> ran (map_of (map_assign k x m)) \<Longrightarrow> y = x \<or> y \<in> ran (map_of m)"
  by (auto simp: smap.lookup_assign ran_def split: if_splits)

lemma ran_erase: "y \<in> ran (map_of (map_erase k m)) \<Longrightarrow> y \<in> ran (map_of m)"
  by (auto simp: smap.lookup_erase ran_def split: if_splits)

section \<open>Fields\<close>

lemma field_ok_new: "field_ok n (field_new ty n)"
  by (auto simp: field_ok_def field_new_def type_of_default)

lemma field_ok_resize:
  assumes "field_ok n f"
  shows "field_ok m (field_resize m f)"
proof (cases "column f")
  case None
  with assms show ?thesis by (simp add: field_ok_def field_resize_def)
next
  case (Some xs)
  with assms have "macro_type (type_id (field_type f))"
    "\<forall>v\<in>set xs. type_of_value v = type_id (field_type f)"
    by (auto simp: field_ok_def)
  with Some show ?thesis
    by (auto simp: field_ok_def field_resize_def vector_resize_def type_of_default dest: in_set_takeD)
qed

lemma safe_std_get: "field_ok n f \<Longrightarrow>
    safe (\<lambda>xs. column f = Some xs \<and> type_id (field_type f) = t \<and> length xs = n
      \<and> (\<forall>v\<in>set xs. type_of_value v = t) \<and> macro_type t) (std_get t f)"
  by (auto simp: std_get_def field_ok_def split: option.split)

lemma safe_field_set:
  assumes "field_ok n f" and "0 \<le> r" and "nat r < n"
  shows "safe (field_ok n) (field_set r v f)"
  unfolding field_set_def
  by (rule safe_bind [OF safe_std_get [OF assms(1)]])
    (use assms in \<open>auto simp: field_ok_def dest: set_update_subset_insert [THEN subsetD]\<close>)

lemma safe_field_set_vector:
  assumes "field_ok n f" and "0 \<le> r" and "nat r + length vs \<le> n" and "\<forall>v\<in>set vs. type_of_value v = t"
  shows "safe (field_ok n) (field_set_vector t r vs f)"
  unfolding field_set_vector_def
  by (rule safe_bind [OF safe_std_get [OF assms(1)]])
    (use assms in \<open>auto simp: field_ok_def dest: in_set_takeD in_set_dropD\<close>)

section \<open>Tables\<close>

lemma table_okD:
  assumes "table_ok t"
  shows "fk_inv (freedom t)" and "schema_ok (table_fields t) (field_names t) (current_field_id t)"
    and "map_of (table_fields t) i = Some x \<Longrightarrow> field_ok (nat (fk_get_size (freedom t))) x"
  using assms by (auto simp: table_ok_def ran_def)

lemma table_ok_new: "table_ok table_new"
  by (simp add: table_ok_def table_new_def schema_ok_new)

lemma map_of_resize_fields: "map_of (resize_fields n m) i = map_option (field_resize n) (map_of m i)"
  by (induction m) (auto simp: resize_fields_def)

lemma schema_ok_resize_fields: "schema_ok m names c \<Longrightarrow> schema_ok (resize_fields n m) names c"
proof -
  have "keys (resize_fields n m) = keys m" by (auto simp: resize_fields_def)
  moreover from this have "dom (map_of (resize_fields n m)) = dom (map_of m)"
    by (simp add: dom_map_of_conv_image_fst flip: set_map)
  ultimately show "schema_ok m names c \<Longrightarrow> schema_ok (resize_fields n m) names c"
    by (simp add: schema_ok_def map_ok_def)
qed

text \<open>Growing the freedom keeper together with the columns.\<close>

lemma table_ok_grow:
  assumes "table_ok t" and "fk_inv k"
  shows "table_ok (t\<lparr>table_fields := resize_fields (nat (fk_get_size k)) (table_fields t), freedom := k\<rparr>)"
  using assms
  by (auto simp: table_ok_def schema_ok_resize_fields ran_def map_of_resize_fields intro: field_ok_resize)

text \<open>Replacing the freedom keeper by one of the same size.\<close>

lemma table_ok_freedom:
  "table_ok t \<Longrightarrow> fk_inv k \<Longrightarrow> fk_get_size k = fk_get_size (freedom t) \<Longrightarrow> table_ok (t\<lparr>freedom := k\<rparr>)"
  by (simp add: table_ok_def)

lemma table_ok_assign:
  assumes "table_ok t" and "map_of (table_fields t) i = Some y" and "field_ok (nat (fk_get_size (freedom t))) x"
  shows "table_ok (t\<lparr>table_fields := map_assign i x (table_fields t)\<rparr>)"
  using assms by (auto simp: table_ok_def intro: schema_ok_assign dest!: ran_assign)

lemma push_back_until_law:
  "fk_inv k \<Longrightarrow> fk_inv (push_back_until r k) \<and> fk_used (push_back_until r k) = fk_used k
     \<and> fk_get_size (push_back_until r k) = max (r + 1) (fk_get_size k)"
proof (induction r k rule: push_back_until.induct)
  case (1 r k)
  show ?case
  proof (cases "fk_get_size k \<le> r")
    case True
    obtain i k' where pb: "fk_push_back k = (i, k')" by force
    with keeper.push_back_law [OF "1.prems" pb] "1.IH" [OF True] True show ?thesis
      by (subst (1 2 3) push_back_until.simps) simp
  next
    case False
    with "1.prems" show ?thesis by (simp add: push_back_until.simps [of r k])
  qed
qed

lemma safe_check_record_id:
  "table_ok t \<Longrightarrow> safe (\<lambda>_. r \<in> set (fk_used (freedom t)) \<and> 0 \<le> r \<and> r < fk_get_size (freedom t))
     (check_record_id r t)"
  using keeper.is_used_iff [of "freedom t" r] keeper.used_bounds [of "freedom t"] table_okD(1) [of t]
  by (cases "fk_is_used (freedom t) r") (auto simp: check_record_id_def)

lemma safe_find_field_from_id:
  "table_ok t \<Longrightarrow> safe (\<lambda>x. map_of (table_fields t) i = Some x \<and> field_ok (nat (fk_get_size (freedom t))) x)
     (find_field_from_id i t)"
  using table_okD(3) [of t i] by (auto simp: find_field_from_id_def split: option.split)

lemma safe_table_add_field:
  assumes "table_ok t" and "is_identifier name"
  shows "safe table_ok (table_add_field name ty t)"
proof -
  let ?n = "nat (fk_get_size (freedom t))" and ?c = "current_field_id t"
  have "table_ok (t\<lparr>current_field_id := ?c + 1,
      table_fields := map_try_emplace (?c + 1) (field_new ty ?n) (table_fields t),
      field_names := map_try_emplace (?c + 1) name (field_names t)\<rparr>)"
    if "table_find_field t name = 0" "?c \<noteq> 65535"
  proof -
    have "name \<notin> ran (map_of (field_names t))"
      using find_key_fresh [OF table_okD(2) [OF assms(1)]] that(1) by (simp add: table_find_field_def)
    note S = schema_ok_add [OF table_okD(2) [OF assms(1)] that(2) this assms(2), of "field_new ty ?n"]
    have "field_ok ?n x" if "x \<in> ran ((map_of (table_fields t))(?c + 1 \<mapsto> field_new ty ?n))" for x
      using that table_okD(3) [OF assms(1)] by (auto simp: ran_def field_ok_new split: if_splits)
    with S table_okD(1) [OF assms(1)] show ?thesis by (simp add: table_ok_def)
  qed
  then show ?thesis by (auto simp: table_add_field_def Let_def)
qed

lemma safe_table_drop_field: "table_ok t \<Longrightarrow> safe table_ok (table_drop_field f t)"
  by (auto simp: table_drop_field_def table_ok_def schema_ok_erase dest: ran_erase split: option.split)

lemma safe_of_law: "\<exists>k'. r = Inr k' \<and> P k' \<Longrightarrow> safe P r"
  by auto

lemma safe_table_insert_record:
  assumes ok: "table_ok t" and r: "0 \<le> r"
  shows "safe table_ok (table_insert_record r t)"
proof -
  note inv = table_okD(1) [OF ok]
  let ?Q = "\<lambda>t'. table_ok t' \<and> r < fk_get_size (freedom t') \<and> r \<notin> set (fk_used (freedom t'))"
  have "safe ?Q (if r \<ge> fk_get_size (freedom t)
        then Inr (t\<lparr>table_fields := resize_fields (nat (r + 1)) (table_fields t),
                    freedom := push_back_until r (freedom t)\<rparr>)
        else if \<not> fk_is_free (freedom t) r then Inl (Exception ''insert: record_id already in use'')
        else Inr t)"
  proof (cases "r \<ge> fk_get_size (freedom t)")
    case True
    have k: "fk_inv (push_back_until r (freedom t))" "fk_used (push_back_until r (freedom t)) = fk_used (freedom t)"
      "fk_get_size (push_back_until r (freedom t)) = r + 1"
      using push_back_until_law [OF inv, of r] True by auto
    moreover have "r \<notin> set (fk_used (freedom t))" using keeper.used_bounds [OF inv] True by auto
    ultimately show ?thesis using True table_ok_grow [OF ok k(1)] by simp
  next
    case False
    then show ?thesis using ok keeper.is_used_iff [OF inv] by (simp add: fk_is_free_def)
  qed
  then show ?thesis
    unfolding table_insert_record_def
  proof (rule safe_bind)
    fix t'
    assume t': "?Q t'"
    then obtain k where "fk_use r (freedom t') = Inr k" "fk_inv k" "fk_get_size k = fk_get_size (freedom t')"
      using keeper.use_law [of "freedom t'" r] table_okD(1) [of t'] r by blast
    with t' show "safe table_ok (bind_result (fk_use r (freedom t')) (\<lambda>k. Inr (t'\<lparr>freedom := k\<rparr>)))"
      by (simp add: table_ok_freedom)
  qed
qed

lemma safe_table_delete_record:
  assumes ok: "table_ok t"
  shows "safe table_ok (table_delete_record r t)"
proof (cases "fk_is_used (freedom t) r")
  case True
  then obtain k where "fk_free r (freedom t) = Inr k" "fk_inv k" "fk_get_size k = fk_get_size (freedom t)"
    using keeper.free_law [of "freedom t" r] keeper.is_used_iff [of "freedom t" r] table_okD(1) [OF ok] by blast
  with ok True show ?thesis by (simp add: table_delete_record_def table_ok_freedom)
qed (simp add: table_delete_record_def)

lemma safe_table_insert_vector:
  assumes ok: "table_ok t"
  shows "safe table_ok (table_insert_vector r n t)"
proof (cases "fk_is_free_vector (freedom t) r n")
  case True
  note inv = table_okD(1) [OF ok]
  let ?k = "fk_resize (fk_get_size (freedom t) + int n) (freedom t)"
  have nonneg: "0 \<le> r" if "0 < n" using that fk_is_free_vector_iff [OF inv that, of r] True by simp
  show ?thesis
  proof (cases "r = fk_get_size (freedom t)")
    case r: True
    have k: "fk_inv ?k" "fk_used ?k = fk_used (freedom t)" "fk_get_size ?k = r + int n"
      using fk_resize_law [OF inv] r by auto
    moreover have "{r..<r + int n} \<inter> set (fk_used ?k) = {}"
      using keeper.used_bounds [OF inv] k(2) r by auto
    moreover have "0 \<le> r" using keeper.size_nonneg [OF inv] r by simp
    ultimately obtain k' where k': "fk_use_vector r n ?k = Inr k'" "fk_inv k'" "fk_get_size k' = fk_get_size ?k"
      using fk_use_vector_law [of ?k r n] by auto
    let ?t = "t\<lparr>table_fields := resize_fields (nat (fk_get_size ?k)) (table_fields t), freedom := ?k\<rparr>"
    have "table_ok (?t\<lparr>freedom := k'\<rparr>)"
      by (rule table_ok_freedom [OF table_ok_grow [OF ok k(1)]]) (simp_all add: k')
    then show ?thesis using True r k' by (simp add: table_insert_vector_def Let_def)
  next
    case False
    have "safe table_ok (fold_result (\<lambda>i. table_insert_record (r + int i)) [0..<n] t)"
      by (rule safe_fold) (use ok nonneg in \<open>auto intro!: safe_table_insert_record\<close>)
    then show ?thesis using True False by (simp add: table_insert_vector_def)
  qed
qed (simp add: table_insert_vector_def)

lemma safe_table_delete_vector:
  assumes ok: "table_ok t"
  shows "safe table_ok (table_delete_vector r n t)"
proof (cases "fk_is_used_vector (freedom t) r n")
  case True
  note inv = table_okD(1) [OF ok]
  have "{r..<r + int n} \<subseteq> set (fk_used (freedom t))"
    using fk_is_used_vector_iff [OF inv, of n r] True by (cases "0 < n") auto
  then obtain k where "fk_free_vector r n (freedom t) = Inr k" "fk_inv k" "fk_get_size k = fk_get_size (freedom t)"
    using fk_free_vector_law [OF inv] by blast
  with ok True show ?thesis by (simp add: table_delete_vector_def table_ok_freedom)
qed (simp add: table_delete_vector_def)

lemma safe_table_update:
  assumes ok: "table_ok t"
  shows "safe table_ok (table_update r f v t)"
  unfolding table_update_def
proof (rule safe_bind [OF safe_find_field_from_id [OF ok]], rule safe_bind [OF safe_check_record_id [OF ok]])
  fix x u
  assume x: "map_of (table_fields t) f = Some x \<and> field_ok (nat (fk_get_size (freedom t))) x"
    and r: "r \<in> set (fk_used (freedom t)) \<and> 0 \<le> r \<and> r < fk_get_size (freedom t)"
  then have "safe (field_ok (nat (fk_get_size (freedom t)))) (field_set r v x)"
    by (intro safe_field_set) auto
  then show "safe table_ok (bind_result (field_set r v x) (\<lambda>x'. Inr (t\<lparr>table_fields := map_assign f x' (table_fields t)\<rparr>)))"
    by (rule safe_bind) (use x ok table_ok_assign in auto)
qed

lemma safe_table_update_vector:
  assumes ok: "table_ok t" and ty: "\<forall>v\<in>set vs. type_of_value v = ty"
  shows "safe table_ok (table_update_vector r f ty vs t)"
  unfolding table_update_vector_def
proof (rule safe_bind [OF safe_find_field_from_id [OF ok]])
  fix x
  let ?n = "fk_get_size (freedom t)"
  assume x: "map_of (table_fields t) f = Some x \<and> field_ok (nat ?n) x"
  have "safe table_ok (bind_result (check_record_id r t) (\<lambda>_.
       bind_result (check_record_id (r + int (length vs) - 1) t) (\<lambda>_.
       bind_result (field_set_vector ty r vs x) (\<lambda>x'. Inr (t\<lparr>table_fields := map_assign f x' (table_fields t)\<rparr>)))))"
  proof (rule safe_bind [OF safe_check_record_id [OF ok]], rule safe_bind [OF safe_check_record_id [OF ok]])
    assume "r \<in> set (fk_used (freedom t)) \<and> 0 \<le> r \<and> r < ?n"
      "r + int (length vs) - 1 \<in> set (fk_used (freedom t)) \<and> 0 \<le> r + int (length vs) - 1 \<and> r + int (length vs) - 1 < ?n"
    then have "safe (field_ok (nat ?n)) (field_set_vector ty r vs x)"
      using x ty by (intro safe_field_set_vector) auto
    then show "safe table_ok (bind_result (field_set_vector ty r vs x)
        (\<lambda>x'. Inr (t\<lparr>table_fields := map_assign f x' (table_fields t)\<rparr>)))"
      by (rule safe_bind) (use x ok table_ok_assign in auto)
  qed
  with ok show "safe table_ok (if length vs = 0 then Inr t else bind_result (check_record_id r t) (\<lambda>_.
       bind_result (check_record_id (r + int (length vs) - 1) t) (\<lambda>_.
       bind_result (field_set_vector ty r vs x) (\<lambda>x'. Inr (t\<lparr>table_fields := map_assign f x' (table_fields t)\<rparr>)))))"
    by simp
qed

section \<open>Databases\<close>

lemma db_ok_new: "db_ok (db_new m)"
  by (simp add: db_ok_def db_new_def schema_ok_new)

lemma safe_get_table:
  "db_ok db \<Longrightarrow> safe (\<lambda>t. map_of (tables db) i = Some t \<and> table_ok t) (get_table i db)"
  by (auto simp: get_table_def db_ok_def ran_def split: option.split)

lemma safe_on_table:
  assumes ok: "db_ok db" and f: "\<And>t. table_ok t \<Longrightarrow> safe table_ok (f t)"
  shows "safe db_ok (on_table i f db)"
  unfolding on_table_def
proof (rule safe_bind [OF safe_get_table [OF ok]], rule safe_bind [OF f])
  fix t t'
  assume "map_of (tables db) i = Some t \<and> table_ok t" and "table_ok t'"
  with ok show "safe db_ok (Inr (db\<lparr>tables := map_assign i t' (tables db)\<rparr>))"
    by (auto simp: db_ok_def intro: schema_ok_assign dest!: ran_assign)
qed simp

lemma safe_check_identifier: "safe (\<lambda>_. is_identifier name) (check_identifier m name)"
  by (auto simp: check_identifier_def intro: safe_require)

lemma safe_create_table:
  assumes ok: "db_ok db"
  shows "safe db_ok (create_table name db)"
  unfolding create_table_def
proof (rule safe_bind [OF safe_check_identifier])
  assume name: "is_identifier name"
  let ?c = "current_table_id db"
  note sch = ok [unfolded db_ok_def, THEN conjunct1]
  have "db_ok (db\<lparr>current_table_id := ?c + 1, tables := map_try_emplace (?c + 1) table_new (tables db),
      table_names := map_try_emplace (?c + 1) name (table_names db)\<rparr>)"
    if "find_table db name = 0" "?c \<noteq> 65535"
  proof -
    have "name \<notin> ran (map_of (table_names db))"
      using find_key_fresh [OF sch] that(1) by (simp add: find_table_def)
    note S = schema_ok_add [OF sch that(2) this name, of table_new]
    have "table_ok t" if "t \<in> ran ((map_of (tables db))(?c + 1 \<mapsto> table_new))" for t
      using that ok by (auto simp: db_ok_def ran_def table_ok_new split: if_splits)
    with S show ?thesis by (simp add: db_ok_def)
  qed
  then show "safe db_ok (if find_table db name \<noteq> 0 then Inl (Exception (''create_table: name already used: '' @ name))
     else if ?c = 65535 then Inl (Exception ''create_table: reached maximum table count'')
     else let i = ?c + 1
          in Inr (db\<lparr>current_table_id := i, tables := map_try_emplace i table_new (tables db),
                     table_names := map_try_emplace i name (table_names db)\<rparr>))"
    by (auto simp: Let_def)
qed

lemma safe_drop_table: "db_ok db \<Longrightarrow> safe db_ok (drop_table i db)"
  by (auto simp: drop_table_def db_ok_def schema_ok_erase dest: ran_erase split: option.split)

lemma safe_rename_table:
  assumes ok: "db_ok db"
  shows "safe db_ok (rename_table i name db)"
  unfolding rename_table_def
proof (rule safe_bind [OF safe_check_identifier])
  assume name: "is_identifier name"
  note sch = ok [unfolded db_ok_def, THEN conjunct1]
  have "safe db_ok (bind_result (get_table i db) (\<lambda>_. Inr (db\<lparr>table_names := map_assign i name (table_names db)\<rparr>)))"
    if "find_table db name = 0"
  proof (rule safe_bind [OF safe_get_table [OF ok]])
    fix t
    assume "map_of (tables db) i = Some t \<and> table_ok t"
    moreover have "name \<notin> ran (map_of (table_names db))"
      using find_key_fresh [OF sch] that by (simp add: find_table_def)
    ultimately show "safe db_ok (Inr (db\<lparr>table_names := map_assign i name (table_names db)\<rparr>))"
      using ok schema_ok_rename [OF sch _ _ name, of i] by (auto simp: db_ok_def)
  qed
  then show "safe db_ok (if find_table db name \<noteq> 0 then Inl (Exception (''rename_table: name already used: '' @ name))
     else bind_result (get_table i db) (\<lambda>_. Inr (db\<lparr>table_names := map_assign i name (table_names db)\<rparr>)))"
    by simp
qed

lemma safe_add_field: "db_ok db \<Longrightarrow> safe db_ok (add_field i name ty db)"
  unfolding add_field_def
  by (rule safe_bind [OF safe_check_identifier]) (auto intro: safe_on_table safe_table_add_field)

lemma safe_rename_field:
  assumes ok: "db_ok db"
  shows "safe db_ok (rename_field i f name db)"
  unfolding rename_field_def
proof (rule safe_bind [OF safe_check_identifier], rule safe_on_table [OF ok])
  fix t
  assume name: "is_identifier name" and t: "table_ok t"
  note sch = table_okD(2) [OF t]
  have "table_ok (t\<lparr>field_names := map_assign f name (field_names t)\<rparr>)"
    if "map_of (field_names t) f = Some s" "table_find_field t name = 0" for s
  proof -
    have "name \<notin> ran (map_of (field_names t))"
      using find_key_fresh [OF sch] that(2) by (simp add: table_find_field_def)
    moreover have "f \<in> dom (map_of (table_fields t))" using sch that(1) by (auto simp: schema_ok_def)
    ultimately show ?thesis using t schema_ok_rename [OF sch _ _ name, of f] by (simp add: table_ok_def)
  qed
  then show "safe table_ok (case map_of (field_names t) f of
         None \<Rightarrow> Inl (Exception ''rename_field: invalid field_id'')
       | Some _ \<Rightarrow>
           if table_find_field t name \<noteq> 0 then Inl (Exception (''rename_field: name already used: '' @ name))
           else Inr (t\<lparr>field_names := map_assign f name (field_names t)\<rparr>))"
    by (auto split: option.split)
qed

text \<open>The elements of an \<open>update_vector\<close> call are of its type.\<close>

fun event_typed :: "event \<Rightarrow> bool" where
  "event_typed (Update_Vector i r f ty vs) = list_all (\<lambda>v. type_of_value v = ty) vs"
| "event_typed _ = True"

lemma safe_db_handle:
  assumes "db_ok db" and "event_typed e"
  shows "safe db_ok (db_handle e db)"
proof (cases e)
  case (Insert_Vector i r n)
  have "safe (\<lambda>_. True) (if max_record_id db \<ge> 0
        then require (r < max_record_id db \<and> int n < max_record_id db)
               (Exception ''record_id < max_record_id && size < size_t(max_record_id)'')
        else Inr ())"
    by (auto intro!: safe_mono [OF safe_require])
  then show ?thesis
    unfolding Insert_Vector db_handle.simps insert_vector_def
    by (rule safe_bind) (intro safe_on_table assms safe_table_insert_vector)
next
  case (Insert_Into i r)
  then show ?thesis
    using assms(1) by (auto simp: insert_into_def intro!: safe_on_table safe_table_insert_record)
next
  case (Update_Vector i r f ty vs)
  then show ?thesis
    using assms by (auto simp: db_update_vector_def list_all_iff intro!: safe_on_table safe_table_update_vector)
qed (use assms(1) in \<open>simp_all add: safe_create_table safe_drop_table safe_rename_table safe_add_field
    safe_rename_field drop_field_def delete_from_def delete_vector_def db_update_def safe_on_table
    safe_table_drop_field safe_table_delete_record safe_table_delete_vector safe_table_update\<close>)

end
