(* ===== verification/Journal_Properties.thy ===== *)
theory Journal_Properties
  imports Journal_Replay Database_Proofs
begin

text \<open>
  The properties of journals: a writable journal implements the abstract journal, whose state is the
  history of events divided by the two checkpoints; what is checkpointed is what any later reader
  replays, across any number of sessions; and a database that was written to a journal is rebuilt
  from it.
\<close>

section \<open>The abstract journal\<close>

text \<open>The events before the hard checkpoint, between the two checkpoints, and after them.\<close>

type_synonym journal_spec = "event list \<times> event list \<times> event list"

fun spec_handle :: "event \<Rightarrow> journal_spec \<Rightarrow> journal_spec" where
  "spec_handle Soft_Checkpoint (hs, ss, us) = (hs, ss @ us, [])"
| "spec_handle Hard_Checkpoint (hs, ss, us) = (hs @ ss @ us, [], [])"
| "spec_handle Flush s = s"
| "spec_handle e (hs, ss, us) = (hs, ss, us @ [e])"

fun journal_event :: "event \<Rightarrow> bool" where
  "journal_event Soft_Checkpoint = True"
| "journal_event Hard_Checkpoint = True"
| "journal_event Flush = True"
| "journal_event e = event_fits e"

definition spec_events :: "journal_spec \<Rightarrow> event list" where
  "spec_events = (\<lambda>(hs, ss, us). hs @ ss @ us)"

lemma spec_events_step: "\<exists>xs. spec_events (spec_handle e s) = spec_events s @ xs"
  by (cases e; cases s) (auto simp: spec_events_def)

lemma spec_events_grow: "\<exists>xs. spec_events (fold spec_handle es s) = spec_events s @ xs"
proof (induction es arbitrary: s)
  case (Cons e es)
  then show ?case using spec_events_step [of e s] by (metis append.assoc fold_simps(2))
qed simp

lemma history_end_append: "history_end es \<le> history_end (es @ xs)"
  by (simp add: history_append)

lemma spec_handle_fits: "event_fits e \<Longrightarrow> spec_handle e (hs, ss, us) = (hs, ss, us @ [e])"
  by (cases e) auto

context file_contract
begin

lemma writer_refines:
  assumes "writer F content m hs ss us c j" and "journal_event e" and "history_end (hs @ ss @ us) < 2 ^ 63"
    and "spec_handle e (hs, ss, us) = (hs', ss', us')"
  obtains j' c' where "journal_handle F e j = Inr j'" and "writer F content m hs' ss' us' c' j'"
proof -
  have len: "length c < 2 ^ 63" using writer_length [OF assms(1)] assms(3) by simp
  consider "e = Soft_Checkpoint" | "e = Hard_Checkpoint" | "e = Flush" | "event_fits e"
    using assms(2) by (cases e) auto
  then show ?thesis
  proof cases
    case 1
    obtain j' c' where "soft_checkpoint F j = Inr j'" "writer F content m hs (ss @ us) [] c' j'"
      by (rule writer_soft_checkpoint [OF assms(1) len])
    then show ?thesis using 1 assms(4) that by simp
  next
    case 2
    obtain j' c' where "hard_checkpoint F j = Inr j'" "writer F content m (hs @ ss @ us) [] [] c' j'"
      by (rule writer_hard_checkpoint [OF assms(1) len])
    then show ?thesis using 2 assms(4) that by simp
  next
    case 3
    obtain j' where "jwrite (flush F) j = Inr j'" "writer F content m hs ss us c j'" by (rule writer_flush [OF assms(1)])
    then show ?thesis using 3 assms(4) that by simp
  next
    case 4
    obtain j' where "journal_handle F e j = Inr j'"
      "writer F content m hs ss (us @ [e]) (c @ event_bytes (journal_context j) e) j'"
      by (rule writer_event [OF assms(1) 4])
    then show ?thesis using assms(4) that spec_handle_fits [OF 4, of hs ss us] by simp
  qed
qed

lemma writer_refines_all:
  assumes "writer F content m hs ss us c j" and "list_all journal_event es"
    and "fold spec_handle es (hs, ss, us) = (hs', ss', us')" and "history_end (hs' @ ss' @ us') < 2 ^ 63"
  shows "\<exists>j' c'. fold_result (journal_handle F) es j = Inr j' \<and> writer F content m hs' ss' us' c' j'"
  using assms
proof (induction es arbitrary: hs ss us c j)
  case (Cons e es)
  obtain hs1 ss1 us1 where s1: "spec_handle e (hs, ss, us) = (hs1, ss1, us1)" by (cases "spec_handle e (hs, ss, us)")
  obtain xs where "hs' @ ss' @ us' = (hs @ ss @ us) @ xs"
    using spec_events_grow [of "e # es" "(hs, ss, us)"] Cons.prems(3) by (auto simp: spec_events_def)
  then have "history_end (hs @ ss @ us) < 2 ^ 63" using Cons.prems(4) history_end_append [of "hs @ ss @ us" xs] by simp
  then obtain j1 c1 where "journal_handle F e j = Inr j1" "writer F content m hs1 ss1 us1 c1 j1"
    using writer_refines [OF Cons.prems(1) _ _ s1] Cons.prems(2) by auto
  with Cons.IH [of hs1 ss1 us1 c1 j1] Cons.prems s1 show ?case by auto
qed auto

end

section \<open>Reading a journal back\<close>

text \<open>A program that opens a journal and replays it into a writable.\<close>

definition read_session :: "'f Abstract_File \<Rightarrow> 'w Writable \<Rightarrow> 'w \<Rightarrow> 'f \<Rightarrow> 'w result" where
  "read_session F W w f =
     bind_result (open_readonly_journal F Recovery_None f) (\<lambda>j.
     bind_result (replay_log F W j w) (\<lambda>(j', w'). Inr w'))"

context file_contract
begin

lemma played_outcome: "played F content m c q marks ctx wr r \<Longrightarrow> bind_result r (\<lambda>(j, w). Inr w) = wr"
  by (cases wr) (auto simp: played_def)

lemma read_session_law:
  assumes "stored hs ss us (content f)" and "get_position W w \<le> int header_size"
  shows "read_session F W w f = play_events W header_size (history_end (hs @ ss)) initial_context (hs @ ss) w"
proof -
  obtain j where j: "open_readonly_journal F Recovery_None f = Inr j"
    "reader F content (get_mode F f) hs ss (content f) header_size j"
    by (rule open_readonly_law [OF assms(1), of Recovery_None]) auto
  then show ?thesis
    using played_outcome [OF replay_log_law [OF assms(1) j(2) assms(2)]] by (simp add: read_session_def)
qed

end

section \<open>Properties of the journal\<close>

lemma memory_file_new_simps [simp]: "data (memory_file_new m) = []" "get_mode memory_file (memory_file_new m) = m"
  by (simp_all add: memory_file_new_def memory_file_def)

lemma memory_open_new:
  assumes "m \<noteq> Read_Existing"
  obtains j where "open_writable_journal memory_file r (memory_file_new m) = Inr j"
    and "writer memory_file data m [] [] [] (header_bytes new_header) j" and "data (journal_file j) = header_bytes new_header"
  using memory.open_writable_new [of "memory_file_new m" r thesis] assms by simp

text \<open>
  C2. A new journal implements the abstract journal: whatever sequence of events, flushes, soft and
  hard checkpoints it receives, it succeeds, and a reader that opens the file after a flush finds the
  two checkpoints of the abstract journal and replays exactly the events up to the soft checkpoint;
  the events after it, although they are in the file, are not delivered.
\<close>

theorem journal_refines:
  assumes "list_all journal_event es" and "fold spec_handle es ([], [], []) = (hs, ss, us)"
    and "history_end (hs @ ss @ us) < 2 ^ 63" and "m \<noteq> Read_Existing"
  shows "\<exists>j0 j r. open_writable_journal memory_file Recovery_None (memory_file_new m) = Inr j0 \<and>
    fold_result (journal_handle memory_file) (es @ [Flush]) j0 = Inr j \<and>
    open_readonly_journal memory_file Recovery_None (journal_file j) = Inr r \<and>
    hard_checkpoint_position r = int (history_end hs) \<and> checkpoint_position r = int (history_end (hs @ ss)) \<and>
    (\<forall>(W :: 'w Writable) w. get_position W w \<le> int header_size \<longrightarrow>
      read_session memory_file W w (journal_file j) =
        play_events W header_size (history_end (hs @ ss)) initial_context (hs @ ss) w)"
proof -
  obtain j0 c0 where j0: "open_writable_journal memory_file Recovery_None (memory_file_new m) = Inr j0"
    "writer memory_file data m [] [] [] c0 j0"
    by (rule memory_open_new [OF assms(4)])
  from memory.writer_refines_all [OF j0(2) assms(1-3)] obtain j1 c where
    j1: "fold_result (journal_handle memory_file) es j0 = Inr j1" "writer memory_file data m hs ss us c j1" by blast
  obtain j where j: "jwrite (flush memory_file) j1 = Inr j" "writer memory_file data m hs ss us c j" "data (journal_file j) = c"
    by (rule memory.writer_flush [OF j1(2)])
  have st: "stored hs ss us (data (journal_file j))" using writer_stored [OF j(2)] j(3) by simp
  obtain r where r: "open_readonly_journal memory_file Recovery_None (journal_file j) = Inr r"
    "reader memory_file data (get_mode memory_file (journal_file j)) hs ss (data (journal_file j)) header_size r"
    by (rule memory.open_readonly_law [OF st, of Recovery_None]) auto
  then have "marks_history (journal_marks r) hs ss" by (simp add: reader_def)
  from marks_history_positions [OF this] show ?thesis
    using j0(1) j1(1) j(1) r(1) memory.read_session_law [OF st] by (auto simp: fold_result_append)
qed

definition example_history :: "event list" where
  "example_history = [Create_Table ''city'', Soft_Checkpoint, Comment ''not yet'']"

lemma example_history_spec:
  "list_all journal_event example_history"
  "fold spec_handle example_history ([], [], []) = ([], [Create_Table ''city''], [Comment ''not yet''])"
  "history_end [Create_Table ''city'', Comment ''not yet''] = 56"
  by (simp_all add: example_history_def size_fits_def string_bytes_def compact_bytes_def initial_context_def)

theorem journal_refines_witness:
  "\<exists>j0 j r. open_writable_journal memory_file Recovery_None (memory_file_new Create_New) = Inr j0 \<and>
    fold_result (journal_handle memory_file) (example_history @ [Flush]) j0 = Inr j \<and>
    open_readonly_journal memory_file Recovery_None (journal_file j) = Inr r \<and>
    hard_checkpoint_position r = int (history_end []) \<and> checkpoint_position r = int (history_end [Create_Table ''city'']) \<and>
    read_session memory_file database_writable (db_new 9) (journal_file j) =
      play_events database_writable header_size (history_end [Create_Table ''city'']) initial_context [Create_Table ''city''] (db_new 9)"
proof -
  have "get_position database_writable (db_new 9) \<le> int header_size" by (simp add: database_writable_def)
  moreover have "history_end ([] @ [Create_Table ''city''] @ [Comment ''not yet'']) < 2 ^ 63" using example_history_spec(3) by simp
  ultimately show ?thesis using journal_refines [OF example_history_spec(1,2), of Create_New] by fastforce
qed

section \<open>Sessions\<close>

text \<open>
  A program that opens a journal for writing, catches up with what it holds, writes some events and
  checkpoints them.
\<close>

definition write_session :: "'f Abstract_File \<Rightarrow> event list \<Rightarrow> 'f \<Rightarrow> 'f result" where
  "write_session F es f =
     bind_result (open_writable_journal F Recovery_None f) (\<lambda>j0.
     bind_result (play_until_checkpoint F (dummy_writable :: unit Writable) j0 ()) (\<lambda>(j1, u).
     bind_result (fold_result (journal_handle F) (es @ [Soft_Checkpoint]) j1) (\<lambda>j2.
     bind_result (journal_handle F Flush j2) (\<lambda>j3.
     Inr (journal_file j3)))))"

text \<open>A replay refuses a vector of updates that starts at the null record.\<close>

fun replayable :: "event \<Rightarrow> bool" where
  "replayable (Update_Vector t r f ty vs) = (0 \<le> r \<or> vs = [])"
| "replayable e = True"

lemma play_events_dummy:
  assumes "list_all replayable es"
  shows "play_events dummy_writable p q ctx es w = Inr w"
proof -
  have "deliver dummy_writable x e w = Inr w" if "replayable e" for x e
    using that by (cases e) (auto simp: dummy_writable_def storage_in_range_def)
  then have "deliver_all dummy_writable p ctx es w = Inr w"
    using assms by (induction es arbitrary: p ctx) simp_all
  then show ?thesis by (simp add: play_events_def) (simp add: dummy_writable_def)
qed

lemma spec_handle_session:
  "list_all event_fits es \<Longrightarrow> fold spec_handle (es @ [Soft_Checkpoint]) (hs, ss, us) = (hs, ss @ us @ es, [])"
  by (induction es arbitrary: us) (simp_all add: spec_handle_fits)

lemma journal_event_fits: "list_all event_fits es \<Longrightarrow> list_all journal_event (es @ [Soft_Checkpoint])"
proof -
  have "event_fits e \<Longrightarrow> journal_event e" for e by (cases e) auto
  then show "list_all event_fits es \<Longrightarrow> list_all journal_event (es @ [Soft_Checkpoint])" by (simp add: list_all_iff)
qed

context file_contract
begin

lemma session_writes:
  assumes "writer F content m hs ss [] c j" and "list_all event_fits es" and "history_end (hs @ ss @ es) < 2 ^ 63"
  obtains j1 j2 where "fold_result (journal_handle F) (es @ [Soft_Checkpoint]) j = Inr j1" and "journal_handle F Flush j1 = Inr j2"
    and "stored hs (ss @ es) [] (content (journal_file j2))" and "get_mode F (journal_file j2) = m"
proof -
  have "fold spec_handle (es @ [Soft_Checkpoint]) (hs, ss, []) = (hs, ss @ es, [])"
    using spec_handle_session [OF assms(2), of hs ss "[]"] by simp
  from writer_refines_all [OF assms(1) journal_event_fits [OF assms(2)] this] obtain j1 c1 where
    j1: "fold_result (journal_handle F) (es @ [Soft_Checkpoint]) j = Inr j1" "writer F content m hs (ss @ es) [] c1 j1"
    using assms(3) by auto
  obtain j2 where j2: "jwrite (flush F) j1 = Inr j2" "writer F content m hs (ss @ es) [] c1 j2" "content (journal_file j2) = c1"
    by (rule writer_flush [OF j1(2)])
  have "get_mode F (journal_file j2) = m" using j2(2) by (simp add: writer_def writing_def)
  then show ?thesis using that [of j1 j2] j1(1) j2(1,3) writer_stored [OF j2(2)] by simp
qed

text \<open>Sessions on a stored journal, and on an empty file.\<close>

lemma session_existing:
  assumes "stored hs ss [] (content f)" and "list_all replayable (hs @ ss)" and "list_all event_fits es"
    and "history_end (hs @ ss @ es) < 2 ^ 63" and "get_mode F f \<noteq> Read_Existing"
  obtains f' where "write_session F es f = Inr f'" and "stored hs (ss @ es) [] (content f')" and "get_mode F f' = get_mode F f"
proof -
  obtain j0 where j0: "open_writable_journal F Recovery_None f = Inr j0" "journal_context j0 = initial_context"
    "reader F content (get_mode F f) hs ss (content f) header_size j0"
    by (rule open_writable_existing [OF assms(1,5), of Recovery_None]) auto
  have "get_position dummy_writable () \<le> int header_size" by (simp add: dummy_writable_def)
  from reader_resumes [OF assms(1) j0(3,2) this play_events_dummy [OF assms(2)]] obtain j1 where
    j1: "play_until_checkpoint F dummy_writable j0 () = Inr (j1, ())" "writer F content (get_mode F f) hs ss [] (content f) j1"
    by blast
  obtain j2 j3 where "fold_result (journal_handle F) (es @ [Soft_Checkpoint]) j1 = Inr j2" "journal_handle F Flush j2 = Inr j3"
    "stored hs (ss @ es) [] (content (journal_file j3))" "get_mode F (journal_file j3) = get_mode F f"
    by (rule session_writes [OF j1(2) assms(3,4)])
  then show ?thesis using that [of "journal_file j3"] j0(1) j1(1) by (simp add: write_session_def)
qed

lemma session_new:
  assumes "content f = []" and "list_all event_fits es" and "history_end es < 2 ^ 63" and "get_mode F f \<noteq> Read_Existing"
  obtains f' where "write_session F es f = Inr f'" and "stored [] es [] (content f')" and "get_mode F f' = get_mode F f"
proof -
  obtain j0 where j0: "open_writable_journal F Recovery_None f = Inr j0"
    "writer F content (get_mode F f) [] [] [] (header_bytes new_header) j0"
    by (rule open_writable_new [OF assms(1,4)])
  have "journal_get_position j0 = int header_size"
    using journal_position_writer [OF j0(2)] by (simp add: new_header_ok)
  moreover have "checkpoint_position j0 = int header_size"
    using j0(2) marks_history_positions [of j0 "[]" "[]"] by (simp add: writer_def)
  moreover obtain j1 where j1: "jwrite (flush F) j0 = Inr j1"
    "writer F content (get_mode F f) [] [] [] (header_bytes new_header) j1"
    by (rule writer_flush [OF j0(2)])
  ultimately have "play_until_checkpoint F (dummy_writable :: unit Writable) j0 () = Inr (j1, ())"
    by (simp add: play_until_checkpoint_def play_until_def)
  moreover obtain j2 j3 where "fold_result (journal_handle F) (es @ [Soft_Checkpoint]) j1 = Inr j2" "journal_handle F Flush j2 = Inr j3"
    "stored [] ([] @ es) [] (content (journal_file j3))" "get_mode F (journal_file j3) = get_mode F f"
    by (rule session_writes [OF j1(2) assms(2)]) (use assms(3) in simp)
  ultimately show ?thesis using that [of "journal_file j3"] j0(1) by (simp add: write_session_def)
qed

lemma sessions_law:
  assumes "list_all (list_all event_fits) ess" and "list_all (list_all replayable) ess" and "get_mode F f \<noteq> Read_Existing"
    and "stored [] es [] (content f)" and "list_all replayable es" and "history_end (es @ concat ess) < 2 ^ 63"
  shows "\<exists>f'. fold_result (write_session F) ess f = Inr f' \<and> stored [] (es @ concat ess) [] (content f') \<and>
    get_mode F f' = get_mode F f"
  using assms
proof (induction ess arbitrary: f es)
  case (Cons xs ess)
  have "history_end (es @ xs) < 2 ^ 63" using Cons.prems(6) history_end_append [of "es @ xs" "concat ess"] by simp
  then obtain f1 where f1: "write_session F xs f = Inr f1" "stored [] (es @ xs) [] (content f1)" "get_mode F f1 = get_mode F f"
    using session_existing [OF Cons.prems(4), of xs] Cons.prems(1,3,5) by auto
  from Cons.IH [of f1 "es @ xs"] Cons.prems f1 show ?case by auto
qed auto

end

lemma memory_sessions:
  assumes "list_all (list_all event_fits) ess" and "list_all (list_all replayable) ess" and "ess \<noteq> []"
    and "history_end (concat ess) < 2 ^ 63" and "m \<noteq> Read_Existing"
  obtains f where "fold_result (write_session memory_file) ess (memory_file_new m) = Inr f"
    and "stored [] (concat ess) [] (data f)" and "get_mode memory_file f = m"
proof -
  obtain xs yss where ess: "ess = xs # yss" using assms(3) by (cases ess) auto
  have "history_end xs < 2 ^ 63" using assms(4) history_end_append [of xs "concat yss"] by (simp add: ess)
  then obtain f1 where f1: "write_session memory_file xs (memory_file_new m) = Inr f1" "stored [] xs [] (data f1)"
    "get_mode memory_file f1 = m"
    using memory.session_new [of "memory_file_new m" xs] assms(1,5) by (auto simp: ess)
  from memory.sessions_law [OF _ _ _ f1(2), of yss] f1(1,3) assms that show ?thesis by (auto simp: ess)
qed

text \<open>
  C11. Over any number of sessions, each of which opens the journal, catches up and writes some
  events, a reader that opens the file at the end receives, between \<open>start_writing\<close> and
  \<open>end_writing\<close>, every event of every session in order.
\<close>

theorem journal_sessions:
  assumes "list_all (list_all event_fits) ess" and "list_all (list_all replayable) ess" and "ess \<noteq> []"
    and "history_end (concat ess) < 2 ^ 63" and "m \<noteq> Read_Existing" and "get_position W w \<le> int header_size"
  shows "\<exists>f. fold_result (write_session memory_file) ess (memory_file_new m) = Inr f \<and>
    read_session memory_file W w f = play_events W header_size (history_end (concat ess)) initial_context (concat ess) w"
proof -
  obtain f where f: "fold_result (write_session memory_file) ess (memory_file_new m) = Inr f"
    "stored [] (concat ess) [] (data f)" by (rule memory_sessions [OF assms(1-5)])
  from memory.read_session_law [OF f(2) assms(6)] f(1) show ?thesis by auto
qed

definition example_sessions :: "event list list" where
  "example_sessions = [[Create_Table ''city'', Add_Field 1 ''name'' (simple_type String_Type)],
     [Insert_Into 1 0, Update 1 0 1 (String_Value ''Lille'')]]"

lemma example_sessions_ok:
  "list_all (list_all event_fits) example_sessions" "list_all (list_all replayable) example_sessions"
  "example_sessions \<noteq> []" "history_end (concat example_sessions) < 2 ^ 63"
  by (simp_all add: example_sessions_def size_fits_def record_fits_def type_fits_def type_ids_def simple_type_def
      string_bytes_def compact_bytes_def initial_context_def id_bytes_def type_bytes_def reference_bytes_def)

theorem journal_sessions_witness:
  "\<exists>f. fold_result (write_session memory_file) example_sessions (memory_file_new Create_New) = Inr f \<and>
    read_session memory_file database_writable (db_new 9) f =
      play_events database_writable header_size (history_end (concat example_sessions)) initial_context
        (concat example_sessions) (db_new 9)"
  by (rule journal_sessions [OF example_sessions_ok]) (simp_all add: database_writable_def)

section \<open>Rebuilding a database\<close>

text \<open>A boolean is passed to \<open>update_boolean\<close> as a \<open>bool\<close>.\<close>

fun boolean_ok :: "event \<Rightarrow> bool" where
  "boolean_ok (Update t r f v) = (as_argument v = v)"
| "boolean_ok e = True"

lemma map_assign_same: "map_ok m \<Longrightarrow> map_of m k = Some v \<Longrightarrow> map_assign k v m = m"
proof (induction m)
  case (Cons e m)
  show ?case
  proof (cases "fst e = k")
    case True
    then show ?thesis using Cons.prems by (cases e) simp
  next
    case False
    then have "map_of m k = Some v" using Cons.prems(2) by (cases e) auto
    moreover from this have "k \<in> set (keys m)" by (force dest: map_of_SomeD)
    then have "fst e < k" using Cons.prems(1) by (auto simp: map_ok_def)
    ultimately show ?thesis using Cons by (simp add: map_ok_def)
  qed
qed simp

lemma get_table_Inr: "get_table i db = Inr t \<longleftrightarrow> map_of (tables db) i = Some t"
  by (auto simp: get_table_def split: option.splits)

lemma vector_storage:
  assumes "db_ok db" and "db_update_vector i r f ty vs db = Inr db'" and "vs \<noteq> []"
  shows "\<exists>storage. db_get_own_storage db i f ty = Inr storage \<and> storage_in_range r (length vs) storage"
proof -
  from assms(2) obtain t t' where t: "map_of (tables db) i = Some t" "table_update_vector r f ty vs t = Inr t'"
    by (auto simp: db_update_vector_def on_table_def get_table_Inr)
  then obtain x xs where x: "map_of (table_fields t) f = Some x" "std_get ty x = Inr xs" "0 \<le> r" "nat r + length vs \<le> length xs"
    using assms(3)
    by (auto simp: table_update_vector_def find_field_from_id_def field_set_vector_def split: option.splits if_splits)
  have "table_ok t" using assms(1) t(1) by (auto simp: db_ok_def ran_def)
  then have "field_ok (nat (fk_get_size (freedom t))) x" using x(1) by (auto simp: table_ok_def ran_def)
  then have "length xs = table_storage_capacity t"
    using x(2) by (auto simp: std_get_def field_ok_def table_storage_capacity_def split: option.splits if_splits)
  then show ?thesis
    using t(1) x by (auto simp: db_get_own_storage_def get_table_Inr [THEN iffD2] find_field_from_id_def storage_in_range_def)
qed

lemma deliver_database:
  assumes "db_ok db" and "event_fits e" and "boolean_ok e" and "db_handle e db = Inr db'"
  shows "deliver database_writable q e db = Inr db' \<and> db_ok db'"
proof
  have "event_typed e" using assms(2) by (cases e) (auto simp: list_all_iff)
  from safe_db_handle [OF assms(1) this] show "db_ok db'" using assms(4) by (auto dest: safe_Inr)
  show "deliver database_writable q e db = Inr db'"
  proof (cases e)
    case (Update_Vector i r f ty vs)
    show ?thesis
    proof (cases "vs = []")
      case True
      with assms(1,4) Update_Vector show ?thesis
        by (auto simp: db_update_vector_def on_table_def table_update_vector_def get_table_Inr map_assign_same db_ok_def schema_ok_def)
    next
      case False
      then show ?thesis
        using vector_storage [OF assms(1) _ False] assms(4) Update_Vector by (fastforce simp: database_writable_def)
    qed
  qed (use assms(3,4) in \<open>simp_all add: database_writable_def\<close>)
qed

lemma deliver_all_database:
  assumes "db_ok db" and "list_all event_fits es" and "list_all boolean_ok es" and "fold_result db_handle es db = Inr db'"
  shows "deliver_all database_writable p ctx es db = Inr db'"
  using assms
proof (induction es arbitrary: db p ctx)
  case (Cons e es)
  from Cons.prems(4) obtain db1 where db1: "db_handle e db = Inr db1" "fold_result db_handle es db1 = Inr db'" by auto
  from deliver_database [OF Cons.prems(1) _ _ db1(1)] Cons.prems(2,3)
  have "deliver database_writable q e db = Inr db1 \<and> db_ok db1" for q by simp
  with Cons db1 show ?case by simp
qed simp

lemma play_events_database:
  assumes "db_ok db" and "list_all event_fits es" and "list_all boolean_ok es" and "fold_result db_handle es db = Inr db'"
  shows "play_events database_writable p q ctx es db = Inr db'"
proof (cases "es = []")
  case False
  have "handle database_writable e db = Inr db" if "e = Start_Writing x \<or> e = End_Writing x \<or> e = Soft_Checkpoint" for e x db
    using that by (auto simp: database_writable_def)
  with False deliver_all_database [OF assms] show ?thesis by (simp add: play_events_def)
qed (use assms(4) in \<open>simp add: play_events_def\<close>)

text \<open>
  C1. A database is rebuilt from its journal: if a sequence of events, applied to a new database, leads
  to a database, then writing these events to a journal, over any number of sessions, and replaying
  the journal into a new database gives that same database.
\<close>

theorem database_persistence:
  assumes "list_all (list_all event_fits) ess" and "list_all (list_all replayable) ess" and "ess \<noteq> []"
    and "history_end (concat ess) < 2 ^ 63" and "m \<noteq> Read_Existing" and "list_all boolean_ok (concat ess)"
    and "fold_result db_handle (concat ess) (db_new k) = Inr db"
  shows "\<exists>f. fold_result (write_session memory_file) ess (memory_file_new m) = Inr f \<and>
    read_session memory_file database_writable (db_new k) f = Inr db"
proof -
  obtain f where f: "fold_result (write_session memory_file) ess (memory_file_new m) = Inr f"
    "stored [] (concat ess) [] (data f)" by (rule memory_sessions [OF assms(1-5)])
  have fits: "list_all event_fits (concat ess)" using assms(1) by (induction ess) auto
  show ?thesis
    using f memory.read_session_law [OF f(2), of database_writable "db_new k"]
      play_events_database [OF db_ok_new fits assms(6,7)] by (simp add: database_writable_def)
qed

lemma example_sessions_db:
  "list_all boolean_ok (concat example_sessions)"
  "bind_result (fold_result db_handle (concat example_sessions) (db_new (- 1))) (db_get String_Type 1 0 1) = Inr (String_Value ''Lille'')"
  by (simp add: example_sessions_def) code_simp

theorem database_persistence_witness:
  "\<exists>db f. fold_result db_handle (concat example_sessions) (db_new (- 1)) = Inr db \<and>
    fold_result (write_session memory_file) example_sessions (memory_file_new Create_New) = Inr f \<and>
    read_session memory_file database_writable (db_new (- 1)) f = Inr db \<and>
    db_get String_Type 1 0 1 db = Inr (String_Value ''Lille'')"
proof -
  from example_sessions_db(2) obtain db where "fold_result db_handle (concat example_sessions) (db_new (- 1)) = Inr db"
    "db_get String_Type 1 0 1 db = Inr (String_Value ''Lille'')" by (auto simp: bind_result_eq_Inr)
  with database_persistence [OF example_sessions_ok _ example_sessions_db(1), of Create_New "- 1" db] show ?thesis by auto
qed

end
