(* ===== verification/Multiplexer_Properties.thy ===== *)
theory Multiplexer_Properties
  imports Client Journal_Properties
begin

text \<open>
  A multiplexer acts on each of its writables as if it were alone; a database and a journal behind one
  multiplexer stay in agreement; a selective writable is the underlying writable fed with the events
  of the selection.
\<close>

section \<open>Independence\<close>

lemma multiplex_loop_all:
  "list_all2 (\<lambda>(W, s) (W', s'). W' = W \<and> handle W e s = Inr s') ws ws' \<Longrightarrow> multiplex_loop e ws = Inr ws'"
  by (induction ws ws' rule: list_all2_induct) auto

lemma multiplex_loop_Inr:
  "multiplex_loop e ws = Inr ws' \<Longrightarrow> list_all2 (\<lambda>(W, s) (W', s'). W' = W \<and> handle W e s = Inr s') ws ws'"
  by (induction e ws arbitrary: ws' rule: multiplex_loop.induct) auto

text \<open>What one writable behind a multiplexer receives.\<close>

fun received :: "'s Writable \<Rightarrow> event \<Rightarrow> 's \<Rightarrow> 's result" where
  "received W (Write_Blob x) s = (if wants_blob_data W s then handle W (Write_Blob x) s else Inr s)"
| "received W e s = handle W e s"

lemma multiplexer_step:
  "multiplexer_handle e (multiplexer_new ws) = Inr m' \<longleftrightarrow>
     (\<exists>ws'. m' = multiplexer_new ws' \<and> list_all2 (\<lambda>(W, s) (W', s'). W' = W \<and> received W e s = Inr s') ws ws')"
proof -
  have blob: "write_blob_loop x ws = Inr ws' \<longleftrightarrow>
      list_all2 (\<lambda>(W, s) (W', s'). W' = W \<and> received W (Write_Blob x) s = Inr s') ws ws'" for x ws'
  proof (induction ws arbitrary: ws')
    case (Cons y ws)
    obtain W s where y: "y = (W, s)" by (cases y)
    show ?case unfolding y by (cases ws') (auto simp: bind_result_eq_Inr Cons split: prod.splits)
  qed (auto split: list.splits)
  have other: "multiplex_loop e ws = Inr ws' \<longleftrightarrow>
      list_all2 (\<lambda>(W, s) (W', s'). W' = W \<and> handle W e s = Inr s') ws ws'" for e ws'
    using multiplex_loop_all [of e ws ws'] multiplex_loop_Inr [of e ws ws'] by blast
  show ?thesis
    by (cases e) (auto simp: multiplexer_new_def multiplexer_write_blob_def multiplex_def bind_result_eq_Inr blob other)
qed

lemma multiplexer_fold:
  "fold_result multiplexer_handle es (multiplexer_new ws) = Inr m' \<longleftrightarrow>
     (\<exists>ws'. m' = multiplexer_new ws' \<and> list_all2 (\<lambda>(W, s) (W', s'). W' = W \<and> fold_result (received W) es s = Inr s') ws ws')"
proof (induction es arbitrary: ws)
  case Nil
  have "list_all2 (\<lambda>(W, s) (W', s'). W' = W \<and> s = s') ws ws' \<longleftrightarrow> ws' = ws" for ws'
    by (auto simp: list_all2_conv_all_nth prod_eq_iff split_beta intro: nth_equalityI)
  then show ?case by auto
next
  case (Cons e es)
  let ?R = "\<lambda>f (W, s) (W', s'). W' = W \<and> f W s = Inr s'"
  have eq: "?R (\<lambda>W. fold_result (received W) (e # es)) = ?R (\<lambda>W. received W e) OO ?R (\<lambda>W. fold_result (received W) es)"
    by (intro ext) (auto simp: bind_result_eq_Inr relcompp_apply split: prod.splits)
  have *: "list_all2 (?R (\<lambda>W. fold_result (received W) (e # es))) ws ws' \<longleftrightarrow>
      (\<exists>vs. list_all2 (?R (\<lambda>W. received W e)) ws vs \<and> list_all2 (?R (\<lambda>W. fold_result (received W) es)) vs ws')" for ws'
    by (subst eq) (simp add: list.rel_compp relcompp_apply)
  have "fold_result multiplexer_handle (e # es) (multiplexer_new ws) = Inr m' \<longleftrightarrow>
      (\<exists>vs. list_all2 (?R (\<lambda>W. received W e)) ws vs \<and> fold_result multiplexer_handle es (multiplexer_new vs) = Inr m')"
    by (simp add: bind_result_eq_Inr multiplexer_step) blast
  then show ?case unfolding * Cons.IH by blast
qed

text \<open>
  C24. A multiplexer succeeds on a sequence of events exactly when each of its writables does, and leaves
  every writable in the state it reaches when it receives the same events alone (blob data only if
  it wants them).
\<close>

theorem multiplexer_independent:
  "fold_result multiplexer_handle es (multiplexer_new ws) = Inr m' \<longleftrightarrow>
     (\<exists>ws'. m' = multiplexer_new ws' \<and> list_all2 (\<lambda>(W, s) (W', s'). W' = W \<and> fold_result (received W) es s = Inr s') ws ws')"
  by (rule multiplexer_fold)

section \<open>A database and its journal behind one multiplexer\<close>

lemma received_left:
  "received (left_writable W) e (Inl s) = bind_result (received W e s) (\<lambda>s'. Inr (Inl s'))"
  by (cases e) (auto simp: left_writable_def)

lemma received_right:
  "received (right_writable W) e (Inr s) = bind_result (received W e s) (\<lambda>s'. Inr (Inr s'))"
  by (cases e) (auto simp: right_writable_def)

lemma received_left_all:
  "fold_result (received (left_writable W)) es (Inl s) = bind_result (fold_result (received W) es s) (\<lambda>s'. Inr (Inl s'))"
  by (induction es arbitrary: s) (simp_all add: received_left bind_result_assoc)

lemma received_right_all:
  "fold_result (received (right_writable W)) es (Inr s) = bind_result (fold_result (received W) es s) (\<lambda>s'. Inr (Inr s'))"
  by (induction es arbitrary: s) (simp_all add: received_right bind_result_assoc)

lemma received_database: "received database_writable e db = db_handle e db"
  by (cases e) (auto simp: database_writable_def)

lemma received_journal: "received (journal_writable F) e j = journal_handle F e j"
  by (cases e) (auto simp: journal_writable_def)

lemma database_and_journal_law:
  "fold_result multiplexer_handle es (database_and_journal F db j) = Inr (database_and_journal F db' j')
   \<longleftrightarrow> fold_result db_handle es db = Inr db' \<and> fold_result (journal_handle F) es j = Inr j'"
proof -
  have db: "received database_writable = db_handle" by (intro ext) (rule received_database)
  have j: "received (journal_writable F) = journal_handle F" by (intro ext) (rule received_journal)
  have new: "multiplexer_new a = multiplexer_new b \<longleftrightarrow> a = b" for a b :: "((Database + 'f Journal) Writable \<times> (Database + 'f Journal)) list"
    by (simp add: multiplexer_new_def)
  show ?thesis
    by (auto simp: database_and_journal_def multiplexer_fold new received_left_all received_right_all db j bind_result_eq_Inr)
qed

text \<open>
  C13. Events that a new database accepts, sent to a multiplexer of that database and of a new journal,
  are accepted by both, and whenever the events end with a soft checkpoint and a flush, the database
  that is rebuilt from the file of the journal is the database in memory.
\<close>

theorem multiplexed_database:
  assumes "list_all event_fits es" and "list_all boolean_ok es" and "history_end es < 2 ^ 63" and "m \<noteq> Read_Existing"
    and "fold_result db_handle es (db_new k) = Inr db"
  shows "\<exists>j0 j. open_writable_journal memory_file Recovery_None (memory_file_new m) = Inr j0 \<and>
    fold_result multiplexer_handle (es @ [Soft_Checkpoint, Flush]) (database_and_journal memory_file (db_new k) j0)
      = Inr (database_and_journal memory_file db j) \<and>
    read_session memory_file database_writable (db_new k) (journal_file j) = Inr db"
proof -
  obtain j0 c0 where j0: "open_writable_journal memory_file Recovery_None (memory_file_new m) = Inr j0"
    "writer memory_file data m [] [] [] c0 j0"
    by (rule memory_open_new [OF assms(4)])
  obtain j1 j2 where j2: "fold_result (journal_handle memory_file) (es @ [Soft_Checkpoint]) j0 = Inr j1"
    "journal_handle memory_file Flush j1 = Inr j2" "stored [] ([] @ es) [] (data (journal_file j2))"
    by (rule memory.session_writes [OF j0(2) assms(1)]) (use assms(3) in simp)
  have "fold_result (journal_handle memory_file) (es @ [Soft_Checkpoint, Flush]) j0 = Inr j2"
    using j2(1,2) fold_result_append [of "journal_handle memory_file" "es @ [Soft_Checkpoint]" "[Flush]" j0] by simp
  moreover have "fold_result db_handle (es @ [Soft_Checkpoint, Flush]) (db_new k) = Inr db"
    using assms(5) by (simp add: fold_result_append)
  moreover have "read_session memory_file database_writable (db_new k) (journal_file j2) = Inr db"
    using memory.read_session_law [OF j2(3), of database_writable "db_new k"]
      play_events_database [OF db_ok_new assms(1,2,5)] by (simp add: database_writable_def)
  ultimately show ?thesis using j0(1) database_and_journal_law by blast
qed

theorem multiplexed_database_witness:
  "\<exists>db j0 j. open_writable_journal memory_file Recovery_None (memory_file_new Create_New) = Inr j0 \<and>
    fold_result multiplexer_handle (concat example_sessions @ [Soft_Checkpoint, Flush]) (database_and_journal memory_file (db_new (- 1)) j0)
      = Inr (database_and_journal memory_file db j) \<and>
    read_session memory_file database_writable (db_new (- 1)) (journal_file j) = Inr db \<and>
    db_get String_Type 1 0 1 db = Inr (String_Value ''Lille'')"
proof -
  from example_sessions_db(2) obtain db where db: "fold_result db_handle (concat example_sessions) (db_new (- 1)) = Inr db"
    "db_get String_Type 1 0 1 db = Inr (String_Value ''Lille'')" by (auto simp: bind_result_eq_Inr)
  have "list_all event_fits (concat example_sessions)"
    using example_sessions_ok(1) by (simp add: example_sessions_def)
  from multiplexed_database [OF this example_sessions_db(1) example_sessions_ok(4) _ db(1), of Create_New] db(2)
  show ?thesis by auto
qed

section \<open>Selective writables\<close>

text \<open>The events the underlying writable receives for one event of the input.\<close>

fun selects :: "Selective_Mode \<Rightarrow> event \<Rightarrow> bool" where
  "selects mode (Start_Writing p) = True"
| "selects mode (End_Writing p) = True"
| "selects mode Soft_Checkpoint = True"
| "selects mode Hard_Checkpoint = True"
| "selects mode (Create_Table name) = (mode \<in> {Schema_Mode, Data_And_Schema_Mode, All_Mode})"
| "selects mode (Drop_Table t) = (mode \<in> {Schema_Mode, Data_And_Schema_Mode, All_Mode})"
| "selects mode (Rename_Table t name) = (mode \<in> {Schema_Mode, Data_And_Schema_Mode, All_Mode})"
| "selects mode (Add_Field t name ty) = (mode \<in> {Schema_Mode, Data_And_Schema_Mode, All_Mode})"
| "selects mode (Drop_Field t f) = (mode \<in> {Schema_Mode, Data_And_Schema_Mode, All_Mode})"
| "selects mode (Rename_Field t f name) = (mode \<in> {Schema_Mode, Data_And_Schema_Mode, All_Mode})"
| "selects mode (Custom name) = (mode \<in> {Schema_Mode, Data_And_Schema_Mode, All_Mode})"
| "selects mode (Comment x) = (mode \<in> {Information_Mode, Data_And_Information_Mode, All_Mode})"
| "selects mode (Timestamp x) = (mode \<in> {Information_Mode, Data_And_Information_Mode, All_Mode})"
| "selects mode Valid_Data = (mode \<in> {Information_Mode, Data_And_Information_Mode, All_Mode})"
| "selects mode (On_Blob b) = False"
| "selects mode Flush = False"
| "selects mode (Write_Blob x) = False"
| "selects mode e = (mode \<in> {Data_Mode, Data_And_Schema_Mode, Data_And_Information_Mode, All_Mode})"

fun one_by_one :: "event \<Rightarrow> event list" where
  "one_by_one (Update_Vector t r f ty vs) = map (\<lambda>i. Update t (r + int i) f (vs ! i)) [0..<length vs]"
| "one_by_one e = [e]"

lemma mode_has_codes:
  "mode_has mode Schema_Mode \<longleftrightarrow> mode \<in> {Schema_Mode, Data_And_Schema_Mode, All_Mode}"
  "mode_has mode Data_Mode \<longleftrightarrow> mode \<in> {Data_Mode, Data_And_Schema_Mode, Data_And_Information_Mode, All_Mode}"
  "mode_has mode Information_Mode \<longleftrightarrow> mode \<in> {Information_Mode, Data_And_Information_Mode, All_Mode}"
  by (cases mode; simp add: mode_has_def)+

lemma fold_forward:
  "fold_result (\<lambda>x. forward_if True W (g x)) xs s =
     bind_result (fold_result (handle W) (map g xs) (selected s)) (\<lambda>w. Inr (s\<lparr>selected := w\<rparr>))"
  by (induction xs arbitrary: s) (simp_all add: forward_if_def bind_result_assoc)

lemma fold_forward_False: "fold_result (\<lambda>x. forward_if False W (g x)) xs s = Inr s"
  by (induction xs) (simp_all add: forward_if_def)

lemma selective_step:
  "selective_handle mode W e s =
     bind_result (fold_result (handle W) (if selects mode e then one_by_one e else []) (selected s)) (\<lambda>w.
     Inr \<lparr>selected = w, blob_found = (blob_found s \<or> (\<exists>b. e = On_Blob b))\<rparr>)"
proof -
  have s: "s = \<lparr>selected = selected s, blob_found = blob_found s\<rparr>" by simp
  have upd: "s\<lparr>selected := w\<rparr> = \<lparr>selected = w, blob_found = blob_found s\<rparr>" for w by (subst s) (simp only: Selective_Writable.simps)
  have bl: "s\<lparr>blob_found := True\<rparr> = \<lparr>selected = selected s, blob_found = True\<rparr>" by (subst s) (simp only: Selective_Writable.simps)
  show ?thesis
    by (cases e) (simp_all add: forward_if_def mode_has_codes writable_update_vector_def fold_forward fold_forward_False upd bl
        bind_result_assoc)
qed


end
