(* ===== verification/File_Copy.thy ===== *)
theory File_Copy
  imports Journal_Properties
begin

text \<open>
  Operations on two files: \<open>copy_to\<close> and \<open>equal_to\<close> of \<open>Abstract_File.cpp\<close>, and \<open>pull_from\<close> of
  \<open>Writable_Journal.cpp\<close>, which is how a replica catches up with a journal. The two files may be of
  different classes; each satisfies the contract of files.
\<close>

section \<open>Two files\<close>

lemma slice_split: "k \<le> n \<Longrightarrow> take n (drop p xs) = take k (drop p xs) @ take (n - k) (drop (p + k) xs)"
  by (metis take_add drop_drop add.commute le_add_diff_inverse)

context file_contract
begin

lemma flush_idle_file:
  assumes "reading F content m b c q"
  obtains b' where "flush F (b\<lparr>fb_file := g\<rparr>) = Inr b'" and "fb_file b' = g"
    and "\<forall>f. get_mode F f = m \<longrightarrow> reading F content m (b'\<lparr>fb_file := f\<rparr>) (content f) q"
proof (rule that)
  let ?b = "b\<lparr>fb_file := g, position := int q, read_buffer_size := 0, buffer_index := 0\<rparr>"
  have pos: "fb_get_position (b\<lparr>fb_file := g\<rparr>) = int q" using reading_position [OF assms] by (simp add: fb_get_position_def)
  have "\<not> buffer_has_write_data (b\<lparr>fb_file := g\<rparr>)" using reading_idle [OF assms] by (simp add: buffer_has_write_data_def)
  with pos show "flush F (b\<lparr>fb_file := g\<rparr>) = Inr ?b" by (simp add: flush_def fi_seek_def)
  show "\<forall>f. get_mode F f = m \<longrightarrow> reading F content m (?b\<lparr>fb_file := f\<rparr>) (content f) q"
    using assms by (auto simp: reading_def)
qed simp_all

text \<open>
  Events are written to the file of a journal after its checkpoint, then the checkpoint is moved to
  their end. The position of the journal in its file does not change.
\<close>

lemma tail_checkpoint_law:
  assumes "stored hs ss [] c" and "reader F content m hs ss c q j" and "list_all event_fits xs" and "history_end (hs @ ss @ xs) < 2 ^ 63"
    and "content g = c @ history_bytes (history_context initial_context (hs @ ss)) xs" and "get_mode F g = m"
  obtains j' c' where "soft_checkpoint_at F (int (history_end (hs @ ss @ xs))) (set_file g j) = Inr j'"
    and "stored hs (ss @ xs) [] c'" and "reader F content m hs (ss @ xs) c' q j'" and "journal_context j' = journal_context j"
    and "checkpoint_position j' = int (history_end (hs @ ss @ xs))"
proof -
  let ?p = "length c" and ?q = "history_end (hs @ ss @ xs)"
  let ?bs = "history_bytes (history_context initial_context (hs @ ss)) xs"
  obtain hard soft ck hck where marks: "journal_marks j = (hard, soft, ck, hck)" by (cases "journal_marks j")
  have r: "reading F content m (file_buffer j) c q" "slots_ok (slots c) (hard, soft, ck, hck)" "marks_history (hard, soft, ck, hck) hs ss"
    using assms(2) marks by (auto simp: reader_def)
  have p: "?p = history_end (hs @ ss)" "header_ok c" "drop header_size c = history_bytes initial_context (hs @ ss)"
    using stored_length [OF assms(1)] assms(1) by (simp_all add: stored_def)
  have ck: "checkpoint_position j = ck" "ck = int ?p" using marks r(3) p(1) by (auto simp: marks_history_def journal_marks_def)
  have q: "?q = ?p + length ?bs" using p(1) by (simp add: history_append)
  have fits: "list_all event_fits (hs @ ss @ xs)" using assms(1,3) by (simp add: stored_def)
  show ?thesis
  proof (cases "xs = []")
    case True
    then have "content g = c" using assms(5) by simp
    from reading_set_file [OF r(1) assms(6) this] have "reader F content m hs ss c q (set_file g j)"
      using assms(2) by (simp add: reader_def set_file_def journal_marks_def)
    then show ?thesis
      using that [of "set_file g j" c] assms(1) ck p(1) True by (simp add: soft_checkpoint_at_def set_file_def journal_context_def)
  next
    case False
    have "0 < length ?bs" using history_bytes_Nil_iff [of xs "history_context initial_context (hs @ ss)"] assms(3) False by simp
    then have less: "ck < int ?q" using q ck(2) by simp
    obtain b where b: "flush F ((file_buffer j)\<lparr>fb_file := g\<rparr>) = Inr b" "fb_file b = g"
      "\<forall>f. get_mode F f = m \<longrightarrow> reading F content m (b\<lparr>fb_file := f\<rparr>) (content f) q"
      by (rule flush_idle_file [OF r(1), of g])
    let ?j1 = "(set_file g j)\<lparr>file_buffer := b\<rparr>"
    have j1: "jwrite (flush F) (set_file g j) = Inr ?j1" "content (journal_file ?j1) = c @ ?bs" "journal_marks ?j1 = (hard, soft, ck, hck)"
      using b assms(5) marks by (simp_all add: jwrite_def set_file_def journal_marks_def)
    have h: "header_ok (c @ ?bs)" "slots_ok (slots (c @ ?bs)) (hard, soft, ck, hck)"
      using header_ok_append [OF p(2)] r(2) slots_append [of c ?bs] p(2) by (simp_all add: header_ok_def)
    obtain f c' where f: "soft_checkpoint_at F (int ?q) (set_file g j) = Inr (set_file f
        (?j1\<lparr>hard_index := hard, soft_index := flip soft, checkpoint_position := int ?q, hard_checkpoint_position := hck\<rparr>))"
      "content f = c'" "get_mode F f = get_mode F (journal_file ?j1)" "header_ok c'" "drop header_size c' = drop header_size (c @ ?bs)"
      "slots_ok (slots c') (hard, flip soft, int ?q, hck)"
      by (rule soft_checkpoint_at_law [OF j1 h _ less _ assms(4)]) (use ck q in \<open>simp_all add: set_file_def\<close>)
    let ?j2 = "set_file f (?j1\<lparr>hard_index := hard, soft_index := flip soft, checkpoint_position := int ?q, hard_checkpoint_position := hck\<rparr>)"
    have mh: "marks_history (hard, flip soft, int ?q, hck) hs (ss @ xs)" using r(3) by (simp add: marks_history_def)
    then have "stored hs (ss @ xs) [] c'"
      using f(4,5,6) p(2,3) fits by (auto simp: stored_def history_append header_ok_def)
    moreover have "reader F content m hs (ss @ xs) c' q ?j2"
      using b(2) b(3) [rule_format, of f] f(2,3,6) assms(6) mh by (simp add: reader_def set_file_def journal_marks_def)
    ultimately show ?thesis using that [of ?j2 c'] f(1) by (simp add: set_file_def journal_context_def)
  qed
qed

end

locale two_files = src: file_contract F content + dst: file_contract G target
  for F :: "'f Abstract_File" and content :: "'f \<Rightarrow> byte list" and G :: "'g Abstract_File" and target :: "'g \<Rightarrow> byte list"
begin

lemma copy_range:
  assumes "start + n \<le> length (content f)" and "d \<le> n" and "start + d \<le> length (target g)"
  shows "\<exists>g'. copy_loop F G f (int start) (int n) (int d) g = Some (Inr g') \<and> get_mode G g' = get_mode G g \<and>
    target g' = patch (target g) (start + d) (take (n - d) (drop (start + d) (content f)))"
  using assms
proof (induction "n - d" arbitrary: d g rule: less_induct)
  case less
  show ?case
  proof (cases "d = n")
    case True
    then show ?thesis by (subst copy_loop.simps) simp
  next
    case False
    let ?asked = "nat (min (int default_buffer_size) (int n - int d))"
    have asked: "0 < ?asked" "?asked \<le> n - d" using False less.prems(2) by auto
    obtain bs where bs: "checked_pread F ?asked (int start + int d) f = Inr bs" "length bs \<le> ?asked"
      "bs = take (length bs) (drop (nat (int start + int d)) (content f))"
      "bs = [] \<longrightarrow> ?asked = 0 \<or> length (content f) \<le> nat (int start + int d)"
      by (rule src.checked_pread_law [of "int start + int d" ?asked f]) auto
    have off: "nat (int start + int d) = start + d" by simp
    have ne: "bs \<noteq> []" using bs(4) asked(1) less.prems(1,2) False unfolding off by auto
    obtain g1 where g1: "pwrite G bs (int start + int d) g = Inr g1" "target g1 = patch (target g) (start + d) bs"
      "get_mode G g1 = get_mode G g"
      using dst.pwrite_law [of "int start + int d" g bs] less.prems(3) unfolding off by auto
    have pos: "0 < length bs" using ne by simp
    have "n - (d + length bs) < n - d" using pos False less.prems(2) by linarith
    moreover have "d + length bs \<le> n" using bs(2) asked(2) less.prems(2) by linarith
    moreover have "start + (d + length bs) \<le> length (target g1)" using g1(2) less.prems(3) by (simp add: length_patch)
    ultimately obtain g2 where g2: "copy_loop F G f (int start) (int n) (int (d + length bs)) g1 = Some (Inr g2)"
      "get_mode G g2 = get_mode G g1"
      "target g2 = patch (target g1) (start + (d + length bs)) (take (n - (d + length bs)) (drop (start + (d + length bs)) (content f)))"
      using less.hyps [of "d + length bs" g1] less.prems(1) by blast
    have "copy_loop F G f (int start) (int n) (int d) g = Some (Inr g2)"
      using bs(1) ne g1(1) g2(1) False less.prems(2) by (subst copy_loop.simps) (simp add: add.commute)
    moreover have "bs @ take (n - (d + length bs)) (drop (start + (d + length bs)) (content f)) = take (n - d) (drop (start + d) (content f))"
      using slice_split [of "length bs" "n - d" "start + d" "content f"] bs(3) \<open>d + length bs \<le> n\<close> unfolding off
      by (simp add: ac_simps)
    ultimately show ?thesis
      using g1(2,3) g2(2,3) patch_patch [OF less.prems(3), of bs] by (auto simp: add.assoc)
  qed
qed

lemma equal_range:
  assumes "p \<le> q" and "q \<le> length (content f)"
  shows "equal_to F G f g (int p) (int q) = Inr (take (q - p) (drop p (content f)) = take (q - p) (drop p (target g)))"
  using assms
proof (induction "q - p" arbitrary: p rule: less_induct)
  case less
  show ?case
  proof (cases "p = q")
    case True
    then show ?thesis by (subst equal_to.simps) simp
  next
    case False
    let ?asked = "nat (min (int default_buffer_size) (int q - int p))"
    have asked: "0 < ?asked" "?asked \<le> q - p" using False less.prems(1) by auto
    obtain bs where bs: "checked_pread F ?asked (int p) f = Inr bs" "length bs \<le> ?asked"
      "bs = take (length bs) (drop p (content f))" "bs = [] \<longrightarrow> ?asked = 0 \<or> length (content f) \<le> p"
      by (rule src.checked_pread_law [of "int p" ?asked f]) auto
    have ne: "bs \<noteq> []" using bs(4) asked(1) less.prems False by auto
    define b1 where "b1 = take (length bs) (drop p (target g))"
    have b1: "gather G (length bs) (int p) g = Inr b1" using dst.gather_law [of "int p" "length bs" g] by (simp add: b1_def)
    have split: "take (q - p) (drop p xs) = take (length bs) (drop p xs) @ take (q - (p + length bs)) (drop (p + length bs) xs)"
      for xs :: "byte list"
      using slice_split [of "length bs" "q - p" p xs] bs(2) asked(2) by simp
    have rest: "equal_to F G f g (int (p + length bs)) (int q) =
        Inr (take (q - (p + length bs)) (drop (p + length bs) (content f)) = take (q - (p + length bs)) (drop (p + length bs) (target g)))"
    proof (rule less.hyps)
      have "0 < length bs" using ne by simp
      then show "q - (p + length bs) < q - p" using False less.prems(1) by linarith
    qed (use bs(2) asked(2) less.prems in auto)
    have "(take (q - p) (drop p (content f)) = take (q - p) (drop p (target g))) \<longleftrightarrow>
      bs = b1 \<and> take (q - (p + length bs)) (drop (p + length bs) (content f)) = take (q - (p + length bs)) (drop (p + length bs) (target g))"
    proof (cases "length b1 = length bs")
      case True
      then show ?thesis unfolding split using bs(3) by (auto simp: b1_def)
    next
      case short: False
      then have "length b1 < length bs" by (simp add: b1_def)
      moreover from this have "take (q - (p + length bs)) (drop (p + length bs) (target g)) = []" by (simp add: b1_def)
      moreover have "bs @ xs \<noteq> b1" if "length b1 < length bs" for xs using that by auto
      ultimately show ?thesis unfolding split bs(3) [symmetric] b1_def [symmetric] using short by auto
    qed
    then show ?thesis using bs(1) b1 ne rest less.prems(1) False by (subst equal_to.simps) (auto simp: ac_simps)
  qed
qed

lemma copy_to_law:
  assumes "start + n \<le> length (content f)" and "start \<le> length (target g)"
  obtains g' where "copy_to F G f (int start) (int n) g = Some (Inr g')" and "get_mode G g' = get_mode G g"
    and "target g' = patch (target g) start (take n (drop start (content f)))"
  using copy_range [of start n f 0 g] assms that by (auto simp: copy_to_def)

text \<open>
  A replica that holds a prefix of the history of a journal pulls the rest of what the journal has
  checkpointed. Its own position in the file does not change.
\<close>

lemma pull_from_law:
  assumes "stored hs' ss' us' (content (journal_file other))" and "stored hs ss [] c" and "reader G target m hs ss c q j"
    and "hs' @ ss' = hs @ ss @ xs" and "history_end (hs' @ ss') < 2 ^ 63"
  obtains j' c' where "pull_from F G other (int (history_end (hs' @ ss'))) j = Some (Inr (int (history_end (hs' @ ss')), j'))"
    and "stored hs (ss @ xs) [] c'" and "reader G target m hs (ss @ xs) c' q j'" and "journal_context j' = journal_context j"
proof -
  let ?s = "content (journal_file other)" and ?p = "length c" and ?q = "history_end (hs' @ ss')"
  let ?bs = "history_bytes (history_context initial_context (hs @ ss)) xs"
  have p: "?p = history_end (hs @ ss)" using stored_length [OF assms(2)] by simp
  have ck: "checkpoint_position j = int ?p" "target (journal_file j) = c" "get_mode G (journal_file j) = m"
    using assms(3) marks_history_positions(1) [of j hs ss] p by (simp_all add: reader_def reading_def)
  have q: "?q = ?p + length ?bs" using p assms(4) by (simp add: history_append)
  have "list_all event_fits (hs' @ ss')" using assms(1) by (simp add: stored_def)
  then have fits: "list_all event_fits xs" unfolding assms(4) by simp
  show ?thesis
  proof (cases "xs = []")
    case True
    then have "?q = ?p" using q by simp
    then show ?thesis using that [of j c] assms(2,3) ck True by (simp add: pull_from_def)
  next
    case False
    have q2: "?q \<le> length ?s" using stored_length [OF assms(1)] history_end_append [of "hs' @ ss'" us'] by simp
    have less: "?p < ?q" using q history_bytes_Nil_iff [of xs "history_context initial_context (hs @ ss)"] False fits by simp
    have slice: "take (length ?bs) (drop ?p ?s) = ?bs"
      using stored_holds [OF assms(1)] p assms(4) by (simp add: history_append holds_at_append) (simp add: holds_at_def add.assoc)
    obtain g where g: "copy_to F G (journal_file other) (int ?p) (int (length ?bs)) (journal_file j) = Some (Inr g)" "target g = c @ ?bs"
      "get_mode G g = m"
      by (rule copy_to_law [of ?p "length ?bs" "journal_file other" "journal_file j"]) (use q q2 ck slice in \<open>simp_all add: patch_end\<close>)
    obtain j' c' where j': "soft_checkpoint_at G (int ?q) (set_file g j) = Inr j'" "stored hs (ss @ xs) [] c'"
      "reader G target m hs (ss @ xs) c' q j'" "journal_context j' = journal_context j" "checkpoint_position j' = int ?q"
      by (rule dst.tail_checkpoint_law [OF assms(2,3) fits _ g(2,3)]) (use assms(4,5) in simp_all)
    have "int ?q - int ?p = int (length ?bs)" using q by simp
    then show ?thesis using that [OF _ j'(2-4)] g(1) j'(1,5) less ck(1) by (simp add: pull_from_def)
  qed
qed

end

interpretation memory_pair: two_files memory_file data memory_file data
  by unfold_locales

end
