(* ===== verification/Client_Proofs.thy ===== *)
theory Client_Proofs
  imports Multiplexer_Properties File_Copy
begin

text \<open>
  What a client relies on when it talks to a connection, as a locale, with the proof that a journal
  of the same process provides it, and the laws of transactions that follow from it.
\<close>

section \<open>States of the journal of a client\<close>

text \<open>
  A client that is settled has read and written everything up to its checkpoint. After a pull it is
  behind: its file holds events that it has not read yet.
\<close>

definition settled :: "'f Abstract_File \<Rightarrow> ('f \<Rightarrow> byte list) \<Rightarrow> Open_Mode \<Rightarrow> event list \<Rightarrow> event list \<Rightarrow> 'f Journal \<Rightarrow> bool" where
  "settled F content m hs ss j \<longleftrightarrow>
     writer F content m hs ss [] (content (journal_file j)) j \<and> buffer_index (file_buffer j) = 0"

definition behind :: "'f Abstract_File \<Rightarrow> ('f \<Rightarrow> byte list) \<Rightarrow> Open_Mode \<Rightarrow> event list \<Rightarrow> event list \<Rightarrow> event list \<Rightarrow> context_t \<Rightarrow> 'f Journal \<Rightarrow> bool" where
  "behind F content m hs ss xs ctx j \<longleftrightarrow>
     reader F content m hs (ss @ xs) (content (journal_file j)) (history_end (hs @ ss)) j \<and>
     stored hs (ss @ xs) [] (content (journal_file j)) \<and> journal_context j = ctx"

lemma settled_checkpoint:
  assumes "settled F content m hs ss j"
  shows "checkpoint_position j = int (history_end (hs @ ss))" and "stored hs ss [] (content (journal_file j))"
proof -
  have w: "writer F content m hs ss [] (content (journal_file j)) j" using assms by (simp add: settled_def)
  then show "stored hs ss [] (content (journal_file j))" by (rule writer_stored)
  show "checkpoint_position j = int (history_end (hs @ ss))"
    using w by (intro marks_history_positions(1)) (simp add: writer_def)
qed

context file_contract
begin

lemma settled_position: "settled F content m hs ss j \<Longrightarrow> journal_get_position j = int (history_end (hs @ ss))"
  using journal_position_writer writer_length by (fastforce simp: settled_def)

lemma settled_behind:
  assumes "settled F content m hs ss j"
  shows "behind F content m hs ss [] (history_context initial_context (hs @ ss)) j"
proof -
  let ?c = "content (journal_file j)"
  have w: "writer F content m hs ss [] ?c j" "buffer_index (file_buffer j) = 0" using assms by (simp_all add: settled_def)
  have len: "length ?c = history_end (hs @ ss)" using writer_length [OF w(1)] by simp
  have "reading F content m (file_buffer j) ?c (length ?c)"
    using w by (auto simp: writer_def writing_def reading_def)
  then show ?thesis
    using w(1) writer_stored [OF w(1)] len by (simp add: behind_def reader_def writer_def)
qed

text \<open>Reading up to the checkpoint brings a client that is behind up to date.\<close>

lemma catch_up:
  assumes "behind F content m hs ss xs (history_context initial_context (hs @ ss)) j" and "get_position W w \<le> int (history_end (hs @ ss))"
    and "play_events W (history_end (hs @ ss)) (history_end (hs @ ss @ xs)) (history_context initial_context (hs @ ss)) xs w = Inr w'"
  obtains j' where "play_until_checkpoint F W j w = Inr (j', w')" and "settled F content m hs (ss @ xs) j'"
proof -
  let ?c = "content (journal_file j)" and ?p = "history_end (hs @ ss)" and ?q = "history_end (hs @ ss @ xs)"
  let ?ctx = "history_context initial_context (hs @ ss)"
  have b: "reader F content m hs (ss @ xs) ?c ?p j" "stored hs (ss @ xs) [] ?c" "journal_context j = ?ctx"
    using assms(1) by (simp_all add: behind_def)
  have r: "reading F content m (file_buffer j) ?c ?p" "marks_history (journal_marks j) hs (ss @ xs)"
    "slots_ok (slots ?c) (journal_marks j)" using b(1) by (auto simp: reader_def)
  have fits: "list_all event_fits xs" using b(2) by (simp add: stored_def)
  have q: "?q = ?p + length (history_bytes ?ctx xs)" "length ?c = ?q"
    using stored_length [OF b(2)] by (simp_all add: history_append)
  have ck: "checkpoint_position j = int ?q" using marks_history_positions(1) [OF r(2)] by simp
  have "holds_at ?c ?p (history_bytes ?ctx xs)"
    using stored_holds [OF b(2)] by (simp add: history_append holds_at_append add.assoc)
  from play_history [OF r(1) this fits q(1) _ b(3) refl assms(2)] ck assms(3)
  obtain j' where j': "play_until F W (int ?q) j w = Inr (j', w')" "reading F content m (file_buffer j') ?c ?q"
    "journal_marks j' = journal_marks j" "journal_context j' = history_context ?ctx xs"
    by (auto simp: played_def)
  have "writing F content m (file_buffer j') ?c ?q"
    using play_until_idle [OF j'(1)] q(2) by (intro reading_to_writing [OF j'(2)]) simp_all
  moreover have "content (journal_file j') = ?c" using j'(2) by (simp add: reading_def)
  ultimately have "settled F content m hs (ss @ xs) j'"
    using b(2) r(2,3) j'(3,4) q(2) play_until_idle [OF j'(1)]
    by (simp add: settled_def writer_def stored_def history_append)
  then show ?thesis using that j'(1) ck by (simp add: play_until_checkpoint_def)
qed

lemma writes_events:
  assumes "writer F content m hs ss us c j" and "list_all event_fits xs" and "history_end (hs @ ss @ us @ xs) < 2 ^ 63"
  obtains j' c' where "fold_result (journal_handle F) xs j = Inr j'" and "writer F content m hs ss (us @ xs) c' j'"
proof -
  have "list_all journal_event xs" using journal_event_fits [OF assms(2)] by simp
  moreover have "fold spec_handle xs (hs, ss, us) = (hs, ss, us @ xs)"
    using assms(2) by (induction xs rule: rev_induct) (simp_all add: spec_handle_fits)
  ultimately show ?thesis using writer_refines_all [OF assms(1)] assms(3) that by blast
qed

text \<open>Checkpoints settle a client that has written events.\<close>

lemma soft_settles:
  assumes "writer F content m hs ss us c j" and "us = [] \<Longrightarrow> settled F content m hs ss j" and "history_end (hs @ ss @ us) < 2 ^ 63"
  obtains j' where "soft_checkpoint F j = Inr j'" and "settled F content m hs (ss @ us) j'"
proof (cases "us = []")
  case True
  then have s: "settled F content m hs ss j" by (rule assms(2))
  then have "soft_checkpoint F j = Inr j"
    using settled_checkpoint(1) [OF s] settled_position [OF s] by (simp add: soft_checkpoint_def soft_checkpoint_at_def)
  then show ?thesis using that s True by simp
next
  case False
  have "length c < 2 ^ 63" using writer_length [OF assms(1)] assms(3) by simp
  from writer_soft_checkpoint [OF assms(1) this] False that show ?thesis by (auto simp: settled_def)
qed

lemma hard_settles:
  assumes "settled F content m hs ss j" and "history_end (hs @ ss) < 2 ^ 63"
  obtains j' where "hard_checkpoint F j = Inr j'" and "settled F content m (hs @ ss) [] j'"
proof (cases "ss = []")
  case True
  have "hard_checkpoint_position j = int (history_end hs)"
    using assms(1) marks_history_positions(2) [of j hs ss] by (simp add: settled_def writer_def)
  then have "hard_checkpoint F j = Inr j"
    using True settled_position [OF assms(1)] by (simp add: hard_checkpoint_def hard_checkpoint_at_def)
  then show ?thesis using that assms(1) True by simp
next
  case False
  have w: "writer F content m hs ss [] (content (journal_file j)) j" using assms(1) by (simp add: settled_def)
  have "length (content (journal_file j)) < 2 ^ 63" using writer_length [OF w] assms(2) by simp
  from writer_hard_checkpoint [OF w this] False that show ?thesis by (auto simp: settled_def)
qed

end

section \<open>What a client expects from a connection\<close>

text \<open>
  The server holds a history of events. A pull brings a client that holds a prefix of it up to date; a
  push from the checkpoint of the server extends it, and a push from anywhere else is refused. A pull
  may take the lock of the server, which a push or \<open>unlock\<close> releases: \<open>free\<close> tells that nobody holds
  it, \<open>server\<close> that nobody else does. \<open>fresh\<close> is what the handshake of a new client finds.
\<close>

locale connection_contract = file_contract F content
  for F :: "'f Abstract_File" and content :: "'f \<Rightarrow> byte list" +
  fixes K :: "('c, 'f) Connection" and server :: "event list \<Rightarrow> 'c \<Rightarrow> bool" and free :: "event list \<Rightarrow> 'c \<Rightarrow> bool"
    and fresh :: "event list \<Rightarrow> 'c \<Rightarrow> bool"
  assumes free_server: "free es s \<Longrightarrow> server es s"
    and pull_contract:
      "free es s \<Longrightarrow> behind F content m hs ss [] ctx j \<Longrightarrow> es = hs @ ss @ xs \<Longrightarrow> history_end es < 2 ^ 63 \<Longrightarrow>
       \<exists>j' s'. connection_pull K action With_Data j s = Some (Inr (int (history_end es), j', s')) \<and> server es s' \<and>
         (action = No_Locking \<longrightarrow> free es s') \<and> behind F content m hs ss xs ctx j'"
    and push_contract:
      "server es s \<Longrightarrow> stored hs ss [] (content (journal_file j)) \<Longrightarrow> hs @ ss = es @ xs \<Longrightarrow> history_end (hs @ ss) < 2 ^ 63 \<Longrightarrow>
       \<exists>s'. connection_push K j (int (history_end es)) (int (history_end (hs @ ss))) unlock_action s =
         Some (Inr (int (history_end (hs @ ss)), s')) \<and> server (hs @ ss) s' \<and> (unlock_action = Unlock_After \<longrightarrow> free (hs @ ss) s')"
    and conflict_contract:
      "server es s \<Longrightarrow> from \<noteq> int (history_end es) \<Longrightarrow> 0 \<le> from \<Longrightarrow> from \<le> until \<Longrightarrow> until < 2 ^ 63 \<Longrightarrow>
       connection_push K j from until unlock_action s \<noteq> Some (Inr x)"
    and unlock_contract: "server es s \<Longrightarrow> \<exists>s'. connection_unlock K s = Inr s' \<and> free es s'"
    and check_contract: "server es s \<Longrightarrow> until \<le> from \<Longrightarrow> check_matching_content K j check from until s = Inr s"
    and handshake_contract:
      "fresh es s \<Longrightarrow> reader F content m [] [] c p j \<Longrightarrow> handshake K j check s = Inr (int (history_end es), s) \<and> free es s"

section \<open>A journal as a server\<close>

definition server_holds :: "'g Abstract_File \<Rightarrow> ('g \<Rightarrow> byte list) \<Rightarrow> event list \<Rightarrow> 'g Journal \<Rightarrow> bool" where
  "server_holds G target es s \<longleftrightarrow>
     (\<exists>m hs ss q. es = hs @ ss \<and> m \<noteq> Shared_Write \<and> reader G target m hs ss (target (journal_file s)) q s \<and>
        stored hs ss [] (target (journal_file s)))"

lemma server_checkpoint: "server_holds G target es s \<Longrightarrow> checkpoint_position s = int (history_end es)"
  using marks_history_positions(1) [of s] by (auto simp: server_holds_def reader_def)

context file_contract
begin

text \<open>Reading the checkpoints of a journal again finds the same ones.\<close>

lemma pull_same:
  assumes "reader F content m hs ss c q j" and "stored hs ss us c"
  obtains n j' where "pull F j = Inr (n, j')" and "reader F content m hs ss c q j'"
proof -
  have r: "reading F content m (file_buffer j) c q" "slots_ok (slots c) (journal_marks j)" "marks_history (journal_marks j) hs ss"
    using assms(1) by (auto simp: reader_def)
  obtain hard soft ck hck where marks: "journal_marks j = (hard, soft, ck, hck)" by (cases "journal_marks j")
  obtain f where f: "shared_lock_head F (journal_file j) = Inr f" "content f = c" "get_mode F f = m"
    using shared_lock_law [of 0 1 "journal_file j"] r(1) by (auto simp: shared_lock_head_def reading_def)
  let ?j = "read_checkpoint (slots c) (- 1) (set_file f j)"
  have "header_size \<le> length c" using assms(2) by (simp add: stored_def header_ok_def)
  then have "full_pread F 32 0 f = Inr (take 32 c)" using full_pread_law [of 0 32 f] f(2) by simp
  then have pull: "pull_without_locking F (set_file f j) = Inr ?j"
    using slots_take [of 32 c] by (simp add: pull_without_locking_def set_file_def slots_def)
  have "slots_ok (slots c) (journal_marks ?j) \<and> marks_history (journal_marks ?j) hs ss"
    by (rule reader_checkpoints [OF assms(2), of hard soft ck hck])
      (use r(2,3) marks in \<open>auto simp: set_file_def journal_marks_def marks_history_def slots_ok_def\<close>)
  moreover have "journal_file ?j = f" "file_buffer ?j = (file_buffer j)\<lparr>fb_file := f\<rparr>" by (simp_all add: set_file_def)
  moreover have "reading F content m ((file_buffer j)\<lparr>fb_file := unlock_head F f\<rparr>) c q"
    by (rule reading_set_file [OF r(1)]) (use f in simp_all)
  ultimately have "reader F content m hs ss c q (set_file (unlock_head F f) ?j)"
    by (simp add: reader_def) (simp add: set_file_def)
  then show ?thesis
    using that [of _ "set_file (unlock_head F f) ?j"] f(1) pull \<open>journal_file ?j = f\<close> by (simp add: pull_def)
qed

end


locale client_server = up: two_files F content G target + down: two_files G target F content
  for F :: "'f Abstract_File" and content :: "'f \<Rightarrow> byte list" and G :: "'g Abstract_File" and target :: "'g \<Rightarrow> byte list"
begin

lemma transfer_law:
  assumes "server_holds G target es s" and "behind F content m hs ss [] ctx j" and "es = hs @ ss @ xs" and "history_end es < 2 ^ 63"
  shows "\<exists>j'. transfer F G With_Data j s = Some (Inr (int (history_end es), j', s)) \<and> behind F content m hs ss xs ctx j'"
proof -
  from assms(1) obtain hs' ss' where s: "es = hs' @ ss'" "stored hs' ss' [] (target (journal_file s))"
    by (auto simp: server_holds_def)
  have j: "reader F content m hs ss (content (journal_file j)) (history_end (hs @ ss)) j" "stored hs ss [] (content (journal_file j))"
    "journal_context j = ctx"
    using assms(2) by (simp_all add: behind_def)
  have bound: "history_end (hs' @ ss') < 2 ^ 63" using s(1) assms(4) by simp
  have split: "hs' @ ss' = hs @ ss @ xs" using s(1) assms(3) by simp
  obtain j' c' where j': "pull_from G F s (int (history_end (hs' @ ss'))) j = Some (Inr (int (history_end (hs' @ ss')), j'))"
    "stored hs (ss @ xs) [] c'" "reader F content m hs (ss @ xs) c' (history_end (hs @ ss)) j'" "journal_context j' = journal_context j"
    by (rule down.pull_from_law [OF s(2) j(2,1) split bound])
  then have "behind F content m hs ss xs ctx j'" using j(3) by (auto simp: behind_def reader_def reading_def)
  then show ?thesis using j'(1) server_checkpoint [OF assms(1)] s(1) by (simp add: transfer_def)
qed

lemma server_pull:
  assumes "server_holds G target es s"
  obtains s' where "(if action = Lock_Before then lock_pull G s else bind_result (pull G s) (\<lambda>(n, s'). Inr s')) = Inr s'"
    and "server_holds G target es s'"
proof (cases "action = Lock_Before")
  case True
  have "\<not> is_shared G (journal_file s)" using assms by (auto simp: server_holds_def is_shared_def reader_def reading_def)
  then show ?thesis using that [of s] True assms by (simp add: lock_pull_def)
next
  case False
  from assms obtain m hs ss q where s: "es = hs @ ss" "m \<noteq> Shared_Write" "reader G target m hs ss (target (journal_file s)) q s"
    "stored hs ss [] (target (journal_file s))" by (auto simp: server_holds_def)
  obtain n s' where s': "pull G s = Inr (n, s')" "reader G target m hs ss (target (journal_file s)) q s'"
    by (rule up.dst.pull_same [OF s(3,4)])
  moreover from this have "target (journal_file s') = target (journal_file s)" by (simp add: reader_def reading_def)
  ultimately show ?thesis using that [of s'] False s by (auto simp: server_holds_def)
qed

lemma server_push:
  assumes "server_holds G target es s" and "stored hs ss [] (content (journal_file j))" and "hs @ ss = es @ xs" and "history_end (hs @ ss) < 2 ^ 63"
  shows "\<exists>s'. pull_from F G j (int (history_end (hs @ ss))) s = Some (Inr (int (history_end (hs @ ss)), s')) \<and>
    server_holds G target (hs @ ss) s'"
proof -
  from assms(1) obtain m' hs' ss' q where s: "es = hs' @ ss'" "m' \<noteq> Shared_Write" "reader G target m' hs' ss' (target (journal_file s)) q s"
    "stored hs' ss' [] (target (journal_file s))" by (auto simp: server_holds_def)
  have split: "hs @ ss = hs' @ ss' @ xs" using s(1) assms(3) by simp
  obtain s' c' where s': "pull_from F G j (int (history_end (hs @ ss))) s = Some (Inr (int (history_end (hs @ ss)), s'))"
    "stored hs' (ss' @ xs) [] c'" "reader G target m' hs' (ss' @ xs) c' q s'"
    by (rule up.pull_from_law [OF assms(2) s(4,3) split assms(4)])
  moreover have "target (journal_file s') = c'" using s'(3) by (simp add: reader_def reading_def)
  ultimately have "server_holds G target (hs @ ss) s'" using s(2) split by (auto simp: server_holds_def)
  with s'(1) show ?thesis by blast
qed

lemma slice_prefix:
  assumes "stored hs ss [] c" and "stored hs' ss' [] d" and "hs' @ ss' = hs @ ss @ xs" and "header_size \<le> p" and "q \<le> length c"
  shows "take (q - p) (drop p c) = take (q - p) (drop p d)"
proof -
  have "drop header_size d = drop header_size c @ history_bytes (history_context initial_context (hs @ ss)) xs"
    using assms(1-3) by (simp add: stored_def history_append)
  moreover have "drop p c = drop (p - header_size) (drop header_size c)" "drop p d = drop (p - header_size) (drop header_size d)"
    using assms(4) by simp_all
  ultimately show ?thesis using assms(4,5) by (simp add: take_append)
qed

lemma check_prefix:
  assumes "stored hs ss [] (content (journal_file j))" and "stored hs' ss' [] (target (journal_file s))" and "hs' @ ss' = hs @ ss @ xs"
    and "int header_size \<le> from" and "until \<le> int (history_end (hs @ ss))"
  shows "pullonly_check_matching_content F G j check from until s = Inr s"
proof -
  have len: "length (content (journal_file j)) = history_end (hs @ ss)" using stored_length [OF assms(1)] by simp
  have "equal_to F G (journal_file j) (journal_file s) p q = Inr True" if "from \<le> p" "p \<le> q" "q \<le> until" for p q
    using up.equal_range [of "nat p" "nat q" "journal_file j" "journal_file s"] slice_prefix [OF assms(1-3), of "nat p" "nat q"]
      that assms(4,5) len by simp
  then show ?thesis by (simp add: pullonly_check_matching_content_def)
qed

end

sublocale client_server \<subseteq> connection_contract F content "journal_connection F G" "server_holds G target" "server_holds G target"
  "server_holds G target"
proof (unfold_locales, goal_cases)
  case (2 es s m hs ss ctx j xs action)
  obtain s' where s': "(if action = Lock_Before then lock_pull G s else bind_result (pull G s) (\<lambda>(n, s'). Inr s')) = Inr s'"
    "server_holds G target es s'" by (rule server_pull [OF 2(1)])
  from transfer_law [OF s'(2) 2(2-4)] s' show ?case by (auto simp: journal_connection_def journal_connection_pull_def)
next
  case (3 es s hs ss j xs action)
  from server_push [OF this] server_checkpoint [OF 3(1)] server_checkpoint
  show ?case by (fastforce simp: journal_connection_def journal_connection_push_def)
next
  case (4 es s "from" until j action x)
  then show ?case using server_checkpoint [OF 4(1)] by (simp add: journal_connection_def journal_connection_push_def)
next
  case (5 es s)
  then have "\<not> is_shared G (journal_file s)" by (auto simp: server_holds_def is_shared_def reader_def reading_def)
  then show ?case using 5 by (simp add: journal_connection_def journal_unlock_def)
next
  case (6 es s until "from" j check)
  then show ?case by (simp add: journal_connection_def pullonly_check_matching_content_def)
next
  case (7 es s m c p j check)
  then have j: "checkpoint_position j = int (history_end [])"
    using marks_history_positions(1) [of j "[]" "[]"] by (simp add: reader_def)
  then show ?case
    using 7 server_checkpoint [OF 7(1)]
    by (simp add: journal_connection_def pullonly_handshake_def pullonly_check_matching_content_def)
qed

interpretation memory_server: client_server memory_file data memory_file data
  by unfold_locales


section \<open>Transactions of a database client\<close>

text \<open>A function passed to \<open>transaction\<close>: it sends some events to the multiplexer, then ends with \<open>r\<close>.\<close>

definition send_events :: "'f Abstract_File \<Rightarrow> event list \<Rightarrow> 'a result \<Rightarrow> ('f, Database) Client \<Rightarrow> 'a result \<times> ('f, Database) Client" where
  "send_events F xs r c = (case fold_result (client_handle F) xs c of Inl e \<Rightarrow> (Inl e, c) | Inr c' \<Rightarrow> (r, c'))"

text \<open>What \<open>do_checkpoint\<close> writes before the checkpoint.\<close>

definition checkpoint_events :: "64 word \<Rightarrow> ('f, 'd) Client \<Rightarrow> event list" where
  "checkpoint_events now c = (if use_valid_data c then [Valid_Data] else []) @ (if use_timestamp c then [Timestamp now] else [])"

lemma checkpoint_events_ok:
  "list_all event_fits (checkpoint_events now c)" "list_all boolean_ok (checkpoint_events now c)"
  "fold_result db_handle (checkpoint_events now c) db = Inr db"
  by (simp_all add: checkpoint_events_def)

lemma client_handle_fold:
  assumes "fold_result db_handle xs (client_data c) = Inr db" and "fold_result (journal_handle F) xs (client_journal c) = Inr j"
  shows "fold_result (client_handle F) xs c = Inr (c\<lparr>client_data := db, client_journal := j\<rparr>)"
  using assms
proof (induction xs arbitrary: c)
  case (Cons x xs)
  then obtain db1 j1 where *: "db_handle x (client_data c) = Inr db1" "fold_result db_handle xs db1 = Inr db"
    "journal_handle F x (client_journal c) = Inr j1" "fold_result (journal_handle F) xs j1 = Inr j" by auto
  have "fold_result multiplexer_handle [x] (database_and_journal F (client_data c) (client_journal c)) = Inr (database_and_journal F db1 j1)"
    unfolding database_and_journal_law using *(1,3) by simp
  then have "multiplexer_handle x (database_and_journal F (client_data c) (client_journal c)) = Inr (database_and_journal F db1 j1)"
    by auto
  then have "client_handle F x c = Inr (c\<lparr>client_data := db1, client_journal := j1\<rparr>)"
    by (simp add: client_handle_def multiplexed_parts_def) (simp add: database_and_journal_def multiplexer_new_def)
  with Cons.IH [of "c\<lparr>client_data := db1, client_journal := j1\<rparr>"] * show ?case by simp
qed simp

text \<open>
  A client of a server: it holds a prefix \<open>es\<close> of the history, its database is the one these events
  build, and its checkpoint is not ahead of the connection.
\<close>

definition client_ok :: "'f Abstract_File \<Rightarrow> ('f \<Rightarrow> byte list) \<Rightarrow> Open_Mode \<Rightarrow> Record_Id \<Rightarrow> event list \<Rightarrow> ('f, Database) Client \<Rightarrow> bool" where
  "client_ok F content m k es c \<longleftrightarrow>
     (\<exists>hs ss. es = hs @ ss \<and> settled F content m hs ss (client_journal c)) \<and> list_all boolean_ok es \<and>
     int (history_end es) \<le> connection_checkpoint c \<and> fold_result db_handle es (db_new k) = Inr (client_data c)"

lemma built_ok:
  assumes "list_all event_fits es" and "fold_result db_handle es (db_new k) = Inr db"
  shows "db_ok db"
proof -
  have "event_fits e \<Longrightarrow> event_typed e" for e by (cases e) (auto simp: list_all_iff)
  then have "safe db_ok (fold_result db_handle es (db_new k))"
    using assms(1) by (intro safe_fold) (auto simp: list_all_iff db_ok_new intro: safe_db_handle)
  with assms(2) show ?thesis by simp
qed

context connection_contract
begin

lemma emergency_unlock_law: "server es s \<Longrightarrow> free es (emergency_unlock K s)"
  using unlock_contract [of es s] by (auto simp: emergency_unlock_def)

lemma tail_lock_law:
  assumes "server es s" and "client_ok F content m k es0 c" and "m \<noteq> Shared_Write"
  shows "get_tail_lock F K c s = Inr (c, s)" and "release_tail F c = c"
proof -
  from assms(2) obtain hs ss where j: "es0 = hs @ ss" "settled F content m hs ss (client_journal c)"
    and ck: "int (history_end es0) \<le> connection_checkpoint c" by (auto simp: client_ok_def)
  have "\<not> is_shared F (journal_file (client_journal c))"
    using j(2) assms(3) by (auto simp: settled_def writer_def writing_def is_shared_def)
  then show "get_tail_lock F K c s = Inr (c, s)" "release_tail F c = c"
    using settled_position [OF j(2)] settled_checkpoint(1) [OF j(2)] ck j(1) check_contract [OF assms(1)]
    by (simp_all add: get_tail_lock_def tail_exclusive_lock_def lock_pull_def release_tail_def journal_unlock_def)
qed

text \<open>A pull brings the client of a server to the history of the server.\<close>

lemma client_catches_up:
  assumes "free (es @ ys) s" and "client_ok F content m k es c" and "history_end (es @ ys) < 2 ^ 63"
    and "list_all boolean_ok (es @ ys)" and "fold_result db_handle (es @ ys) (db_new k) = Inr db"
  obtains j' j'' s' where "connection_pull K action With_Data (client_journal c) s = Some (Inr (int (history_end (es @ ys)), j', s'))"
    and "server (es @ ys) s'" and "action = No_Locking \<longrightarrow> free (es @ ys) s'" and "database_client_read F j' (client_data c) = Inr (j'', db)"
    and "client_ok F content m k (es @ ys) (c\<lparr>client_journal := j'', client_data := db, connection_checkpoint := int (history_end (es @ ys))\<rparr>)"
proof -
  from assms(2) obtain hs ss where j: "es = hs @ ss" "settled F content m hs ss (client_journal c)"
    and db0: "fold_result db_handle es (db_new k) = Inr (client_data c)" by (auto simp: client_ok_def)
  obtain j' s' where p: "connection_pull K action With_Data (client_journal c) s = Some (Inr (int (history_end (es @ ys)), j', s'))"
    "server (es @ ys) s'" "action = No_Locking \<longrightarrow> free (es @ ys) s'" "behind F content m hs ss ys (history_context initial_context (hs @ ss)) j'"
    using pull_contract [OF assms(1) settled_behind [OF j(2)] _ assms(3), of ys action] j(1) by auto
  have fits: "list_all event_fits (es @ ys)" using p(4) j(1) by (simp add: behind_def stored_def)
  have ys: "fold_result db_handle ys (client_data c) = Inr db" using assms(5) db0 by (simp add: fold_result_append)
  have ok: "db_ok (client_data c)" using fits db0 by (intro built_ok [of es]) auto
  have "play_events database_writable (history_end (hs @ ss)) (history_end (hs @ ss @ ys)) (history_context initial_context (hs @ ss)) ys (client_data c) = Inr db"
    by (rule play_events_database [OF ok _ _ ys]) (use fits assms(4) in simp_all)
  then obtain j'' where "play_until_checkpoint F database_writable j' (client_data c) = Inr (j'', db)" "settled F content m hs (ss @ ys) j''"
    by (rule catch_up [OF p(4), rotated 1]) (simp_all add: database_writable_def)
  then show ?thesis
    using that [of j' s' j''] p(1-3) j(1) assms(4,5) by (auto simp: database_client_read_def client_ok_def)
qed

end


context connection_contract
begin

lemma do_checkpoint_law:
  assumes "writer F content m hs ss us c0 (client_journal c)" and "us = [] \<Longrightarrow> settled F content m hs ss (client_journal c)"
    and "history_end (hs @ ss @ us @ checkpoint_events now c) < 2 ^ 63"
  obtains j hs' ss' where "do_checkpoint F now c = Inr (c\<lparr>client_journal := j\<rparr>)" and "settled F content m hs' ss' j"
    and "hs' @ ss' = hs @ ss @ us @ checkpoint_events now c"
proof -
  let ?us = "us @ checkpoint_events now c"
  obtain j1 c1 where j1: "fold_result (journal_handle F) (checkpoint_events now c) (client_journal c) = Inr j1"
    "writer F content m hs ss ?us c1 j1"
    by (rule writes_events [OF assms(1) checkpoint_events_ok(1) assms(3)])
  then have pre: "bind_result (if use_valid_data c then journal_valid_data F (client_journal c) else Inr (client_journal c))
      (\<lambda>j. if use_timestamp c then journal_timestamp F now j else Inr j) = Inr j1"
    by (auto simp: checkpoint_events_def bind_result_eq_Inr split: if_splits)
  have "?us = [] \<Longrightarrow> settled F content m hs ss j1" using assms(2) j1(1) by (simp split: if_splits)
  then obtain j2 where j2: "soft_checkpoint F j1 = Inr j2" "settled F content m hs (ss @ ?us) j2"
    by (rule soft_settles [OF j1(2)]) (use assms(3) in simp_all)
  obtain j3 hs' ss' where j3: "(if use_hard_checkpoint c then hard_checkpoint F j2 else Inr j2) = Inr j3" "settled F content m hs' ss' j3"
    "hs' @ ss' = hs @ ss @ ?us"
  proof (cases "use_hard_checkpoint c")
    case True
    obtain j3 where "hard_checkpoint F j2 = Inr j3" "settled F content m (hs @ ss @ ?us) [] j3"
      by (rule hard_settles [OF j2(2)]) (use assms(3) in simp_all)
    then show ?thesis using that True by simp
  next
    case False
    then show ?thesis using that [OF _ j2(2)] by simp
  qed
  have "do_checkpoint F now c = Inr (c\<lparr>client_journal := j3\<rparr>)"
    using pre j2(1) j3(1) unfolding do_checkpoint_def by (fastforce simp: bind_result_eq_Inr)
  then show ?thesis using that j3(2,3) by simp
qed

text \<open>The events of a transaction, written to a client that is up to date.\<close>

lemma send_events_law:
  assumes "client_ok F content m k es c" and "list_all event_fits xs" and "history_end (es @ xs) < 2 ^ 63"
    and "fold_result db_handle (es @ xs) (db_new k) = Inr db"
  obtains j hs ss c0 where "send_events F xs r c = (r, c\<lparr>client_data := db, client_journal := j\<rparr>)" and "es = hs @ ss"
    and "writer F content m hs ss xs c0 j" and "xs = [] \<longrightarrow> settled F content m hs ss j"
proof -
  from assms(1) obtain hs ss where j: "es = hs @ ss" "settled F content m hs ss (client_journal c)"
    and db0: "fold_result db_handle es (db_new k) = Inr (client_data c)" by (auto simp: client_ok_def)
  have "writer F content m hs ss [] (content (journal_file (client_journal c))) (client_journal c)"
    using j(2) by (simp add: settled_def)
  then obtain j' c' where j': "fold_result (journal_handle F) xs (client_journal c) = Inr j'" "writer F content m hs ss ([] @ xs) c' j'"
    by (rule writes_events [OF _ assms(2)]) (use assms(3) j(1) in simp_all)
  have "fold_result db_handle xs (client_data c) = Inr db" using assms(4) db0 by (simp add: fold_result_append)
  note handled = client_handle_fold [OF this j'(1)]
  have "xs = [] \<longrightarrow> settled F content m hs ss j'" using j(2) j'(1) by auto
  then show ?thesis using that [of j' hs ss c'] handled j(1) j'(2) by (simp add: send_events_def)
qed

lemma transaction_commits:
  assumes "free (es @ ys) s" and "client_ok F content m k es c" and "m \<noteq> Shared_Write" and "list_all event_fits xs"
    and "list_all boolean_ok (es @ ys @ xs)" and "fold_result db_handle (es @ ys @ xs) (db_new k) = Inr db"
    and "history_end (es @ ys @ xs @ checkpoint_events now c) < 2 ^ 63"
  obtains c' s' where "transaction F (database_client_read F) K now (send_events F xs (Inr x)) c s = Some (Inr (Done x c' s'))"
    and "free (es @ ys @ xs @ checkpoint_events now c) s'" and "client_ok F content m k (es @ ys @ xs @ checkpoint_events now c) c'"
    and "client_data c' = db" and "checkpoint_events now c' = checkpoint_events now c"
proof -
  let ?es = "es @ ys" and ?zs = "checkpoint_events now c"
  obtain db1 where db1: "fold_result db_handle ?es (db_new k) = Inr db1"
    using assms(6) unfolding append_assoc [symmetric, of es] fold_result_append [of db_handle ?es] by (auto simp: bind_result_eq_Inr)
  have "history_end ?es < 2 ^ 63" using assms(7) history_end_append [of ?es "xs @ ?zs"] by simp
  then obtain j1 j2 s1 where pull: "connection_pull K Lock_Before With_Data (client_journal c) s = Some (Inr (int (history_end ?es), j1, s1))"
    "server ?es s1" "database_client_read F j1 (client_data c) = Inr (j2, db1)"
    "client_ok F content m k ?es (c\<lparr>client_journal := j2, client_data := db1, connection_checkpoint := int (history_end ?es)\<rparr>)"
    by (rule client_catches_up [OF assms(1,2) _ _ db1, of Lock_Before]) (use assms(5) in simp_all)
  let ?c2 = "c\<lparr>client_journal := j2, client_data := db1, connection_checkpoint := int (history_end ?es)\<rparr>"
  have bound: "history_end (?es @ xs) < 2 ^ 63" using assms(7) history_end_append [of "?es @ xs" ?zs] by simp
  obtain j3 hs ss c0 where send: "send_events F xs (Inr x) ?c2 = (Inr x, ?c2\<lparr>client_data := db, client_journal := j3\<rparr>)" "?es = hs @ ss"
    "writer F content m hs ss xs c0 j3" "xs = [] \<longrightarrow> settled F content m hs ss j3"
    by (rule send_events_law [OF pull(4) assms(4) bound, of db "Inr x"]) (use assms(6) in simp_all)
  let ?c3 = "?c2\<lparr>client_data := db, client_journal := j3\<rparr>"
  have zs: "checkpoint_events now ?c3 = ?zs" by (simp add: checkpoint_events_def)
  obtain j4 hs' ss' where ck: "do_checkpoint F now ?c3 = Inr (?c3\<lparr>client_journal := j4\<rparr>)" "settled F content m hs' ss' j4"
    "hs' @ ss' = hs @ ss @ xs @ ?zs"
    by (rule do_checkpoint_law [of m hs ss xs c0 ?c3 now]) (use send(2-4) zs assms(7) in \<open>simp_all add: append_assoc [symmetric] del: append_assoc\<close>)
  let ?fs = "es @ ys @ xs @ ?zs" and ?c4 = "?c3\<lparr>client_journal := j4\<rparr>"
  have fs: "hs' @ ss' = ?es @ (xs @ ?zs)" "hs' @ ss' = ?fs" using ck(3) send(2) by simp_all
  have p4: "checkpoint_position j4 = int (history_end ?fs)" using settled_checkpoint(1) [OF ck(2)] fs(2) by simp
  obtain s2 where push: "connection_push K j4 (int (history_end ?es)) (int (history_end ?fs)) Unlock_After s1
      = Some (Inr (int (history_end ?fs), s2))" "free ?fs s2"
    using push_contract [OF pull(2) settled_checkpoint(2) [OF ck(2)] fs(1)] assms(7) fs(2) by auto
  let ?c5 = "?c4\<lparr>connection_checkpoint := int (history_end ?fs)\<rparr>"
  have "list_all boolean_ok ?fs" using assms(5) checkpoint_events_ok(2) [of now c] by simp
  moreover have "fold_result db_handle ?fs (db_new k) = Inr db"
    using assms(6) fold_result_append [of db_handle "es @ ys @ xs" ?zs "db_new k"] checkpoint_events_ok(3) by simp
  ultimately have ok: "client_ok F content m k ?fs ?c5"
    using ck(2) fs(2) [symmetric] unfolding client_ok_def by auto
  note lock = tail_lock_law [OF free_server [OF assms(1)] assms(2,3)] and release = tail_lock_law(2) [OF free_server [OF push(2)] ok assms(3)]
  have "transaction F (database_client_read F) K now (send_events F xs (Inr x)) c s = Some (Inr (Done x ?c5 s2))"
    using lock(1) pull(1,3) send(1) ck(1) p4 push(1) release
    by (simp add: transaction_def start_transaction_def client_push_all_def client_push_def)
  then show ?thesis using that push(2) ok by (simp add: checkpoint_events_def)
qed

end


context connection_contract
begin

text \<open>A transaction that throws after it has written events: the server is untouched.\<close>

lemma transaction_aborts:
  assumes "free (es @ ys) s" and "client_ok F content m k es c" and "m \<noteq> Shared_Write" and "list_all event_fits xs" and "xs \<noteq> []"
    and "list_all boolean_ok (es @ ys @ xs)" and "fold_result db_handle (es @ ys @ xs) (db_new k) = Inr db"
    and "history_end (es @ ys @ xs) < 2 ^ 63"
  obtains c' s' where "transaction F (database_client_read F) K now (send_events F xs (Inl e :: 'a result)) c s = Some (Inr (Thrown e (Some c') s'))"
    and "free (es @ ys) s'" and "get_journal_checkpoint c' \<le> connection_checkpoint c'"
    and "get_journal_checkpoint c' < journal_get_position (client_journal c')"
proof -
  let ?es = "es @ ys"
  obtain db1 where db1: "fold_result db_handle ?es (db_new k) = Inr db1"
    using assms(7) unfolding append_assoc [symmetric, of es] fold_result_append [of db_handle ?es] by (auto simp: bind_result_eq_Inr)
  have "history_end ?es < 2 ^ 63" using assms(8) history_end_append [of ?es xs] by simp
  then obtain j1 j2 s1 where pull: "connection_pull K Lock_Before With_Data (client_journal c) s = Some (Inr (int (history_end ?es), j1, s1))"
    "server ?es s1" "database_client_read F j1 (client_data c) = Inr (j2, db1)"
    "client_ok F content m k ?es (c\<lparr>client_journal := j2, client_data := db1, connection_checkpoint := int (history_end ?es)\<rparr>)"
    by (rule client_catches_up [OF assms(1,2) _ _ db1, of Lock_Before]) (use assms(6) in simp_all)
  let ?c2 = "c\<lparr>client_journal := j2, client_data := db1, connection_checkpoint := int (history_end ?es)\<rparr>"
  have end1: "history_end (?es @ xs) < 2 ^ 63" and end2: "fold_result db_handle (?es @ xs) (db_new k) = Inr db"
    using assms(7,8) by simp_all
  obtain j3 hs ss c0 where send: "send_events F xs (Inl e :: 'a result) ?c2 = (Inl e, ?c2\<lparr>client_data := db, client_journal := j3\<rparr>)" "?es = hs @ ss"
    "writer F content m hs ss xs c0 j3" "xs = [] \<longrightarrow> settled F content m hs ss j3"
    by (rule send_events_law [OF pull(4) assms(4) end1 end2, of "Inl e"])
  have "\<not> is_shared F (journal_file j3)" using send(3) assms(3) by (auto simp: writer_def writing_def is_shared_def)
  moreover have "checkpoint_position j3 = int (history_end ?es)"
    using send(2,3) marks_history_positions(1) [of j3 hs ss] by (simp add: writer_def)
  moreover have "checkpoint_position j3 < journal_get_position j3"
    using writer_end(2) [OF send(3)] assms(5) journal_position_writer [OF send(3)] by force
  ultimately show ?thesis
    using that [of "release_tail F (?c2\<lparr>client_data := db, client_journal := j3\<rparr>)" "emergency_unlock K s1"] emergency_unlock_law [OF pull(2)]
      tail_lock_law(1) [OF free_server [OF assms(1)] assms(2,3)] pull(1,3) send(1)
    by (simp add: transaction_def start_transaction_def release_tail_def journal_unlock_def)
qed

lemma pull_law:
  assumes "free (es @ ys) s" and "client_ok F content m k es c" and "m \<noteq> Shared_Write"
    and "list_all boolean_ok (es @ ys)" and "fold_result db_handle (es @ ys) (db_new k) = Inr db" and "history_end (es @ ys) < 2 ^ 63"
  obtains c' s' where "writable_client_pull F (database_client_read F) K c s =
      Some (Inr (int (history_end (es @ ys)) - int (history_end es), c', s'))"
    and "free (es @ ys) s'" and "client_ok F content m k (es @ ys) c'" and "client_data c' = db"
proof -
  let ?es = "es @ ys"
  obtain j1 j2 s1 where pull: "connection_pull K No_Locking With_Data (client_journal c) s = Some (Inr (int (history_end ?es), j1, s1))"
    "server ?es s1" "No_Locking = No_Locking \<longrightarrow> free ?es s1" "database_client_read F j1 (client_data c) = Inr (j2, db)"
    "client_ok F content m k ?es (c\<lparr>client_journal := j2, client_data := db, connection_checkpoint := int (history_end ?es)\<rparr>)"
    by (rule client_catches_up [OF assms(1,2,6,4,5)])
  have ck: "checkpoint_position (client_journal c) = int (history_end es)" "checkpoint_position j2 = int (history_end ?es)"
    using assms(2) pull(5) settled_checkpoint(1) by (fastforce simp: client_ok_def)+
  show ?thesis
    using that [OF _ _ pull(5)] tail_lock_law(1) [OF free_server [OF assms(1)] assms(2,3)] tail_lock_law(2) [OF pull(2,5) assms(3)] pull(1,3,4) ck
    by (simp add: writable_client_pull_def Let_def)
qed

text \<open>A client on a new file.\<close>

lemma new_client_law:
  assumes "fresh es s" and "content f = []" and "get_mode F f = m" and "m \<noteq> Read_Existing"
  obtains c where "writable_database_client F K check k r f s = Inr (c, s)" and "client_ok F content m k [] c"
    and "checkpoint_events now c = []" and "free es s"
proof -
  obtain j where j: "open_writable_journal F r f = Inr j" "writer F content m [] [] [] (header_bytes new_header) j"
    "content (journal_file j) = header_bytes new_header" "buffer_index (file_buffer j) = 0"
    by (rule open_writable_new [OF assms(2), of r]) (use assms(3,4) in auto)
  then have j2: "settled F content m [] [] j" by (simp add: settled_def)
  have b: "behind F content m [] [] [] (history_context initial_context ([] @ [])) j" by (rule settled_behind [OF j2])
  then have "handshake K j check s = Inr (int (history_end es), s)" "free es s"
    using handshake_contract [OF assms(1), of m "content (journal_file j)" "history_end []" j check] by (simp_all add: behind_def)
  moreover obtain j' where "play_until_checkpoint F database_writable j (db_new k) = Inr (j', db_new k)" "settled F content m [] ([] @ []) j'"
    by (rule catch_up [OF b, of database_writable "db_new k"]) (simp_all add: play_events_def database_writable_def)
  ultimately show ?thesis
    using j(1) that [of "\<lparr>client_journal = j', client_data = db_new k, connection_checkpoint = int (history_end es),
        content_check = check, use_valid_data = False, use_timestamp = False, use_hard_checkpoint = False\<rparr>"]
    by (simp add: writable_database_client_def open_client_def client_new_def database_client_read_def
        client_ok_def checkpoint_events_def)
qed

end

end
