(* ===== verification/Client_Properties.thy ===== *)
theory Client_Properties
  imports Client_Proofs
begin

text \<open>
  The properties of clients that share a database through a connection: transactions are serialized,
  a failed one leaves no trace on the server, pulls converge, and conflicts and mismatches are
  detected.
\<close>

section \<open>Interleaved transactions of several clients\<close>

text \<open>A schedule: which client runs a transaction, and the events it sends. Client \<open>i\<close> has the connection \<open>K i\<close>.\<close>

fun run_transactions :: "'f Abstract_File \<Rightarrow> (nat \<Rightarrow> ('c, 'f) Connection) \<Rightarrow> (nat \<times> event list) list \<Rightarrow> ('f, Database) Client list \<times> 'c \<Rightarrow>
    (('f, Database) Client list \<times> 'c) result option" where
  "run_transactions F K [] st = Some (Inr st)"
| "run_transactions F K ((i, xs) # ts) (cs, s) =
     bind_outcome (transaction F (database_client_read F) (K i) 0 (send_events F xs (Inr ())) (cs ! i) s) (\<lambda>ending.
     case ending of
       Done u c s' \<Rightarrow> run_transactions F K ts (cs[i := c], s')
     | Thrown e st s' \<Rightarrow> Some (Inl e))"

text \<open>Every client holds a prefix of the history of the server.\<close>

definition views :: "'f Abstract_File \<Rightarrow> ('f \<Rightarrow> byte list) \<Rightarrow> Open_Mode \<Rightarrow> Record_Id \<Rightarrow> event list \<Rightarrow> ('f, Database) Client list \<Rightarrow> bool" where
  "views F content m k es cs \<longleftrightarrow>
     list_all (\<lambda>c. checkpoint_events 0 c = [] \<and> (\<exists>ps qs. es = ps @ qs \<and> client_ok F content m k ps c)) cs"

lemma views_grow: "views F content m k es cs \<Longrightarrow> views F content m k (es @ xs) cs"
  by (fastforce simp: views_def list_all_iff)

lemma views_update:
  assumes "views F content m k es cs" and "checkpoint_events 0 c = []" and "client_ok F content m k es c"
  shows "views F content m k es (cs[i := c])"
proof -
  have "\<exists>ps qs. es = ps @ qs \<and> client_ok F content m k ps c" using assms(3) by (intro exI [of _ es] exI [of _ "[]"]) simp
  then have "x = c \<or> x \<in> set cs \<Longrightarrow> checkpoint_events 0 x = [] \<and> (\<exists>ps qs. es = ps @ qs \<and> client_ok F content m k ps x)" for x
    using assms(1,2) unfolding views_def list_all_iff by blast
  then show ?thesis using set_update_subset_insert [of cs i c] unfolding views_def list_all_iff by blast
qed

text \<open>Several connections to one server.\<close>

locale shared_connections = file_contract F content
  for F :: "'f Abstract_File" and content :: "'f \<Rightarrow> byte list" +
  fixes K :: "nat \<Rightarrow> ('c, 'f) Connection" and server :: "nat \<Rightarrow> event list \<Rightarrow> 'c \<Rightarrow> bool" and free :: "event list \<Rightarrow> 'c \<Rightarrow> bool"
    and fresh :: "nat \<Rightarrow> event list \<Rightarrow> 'c \<Rightarrow> bool" and n :: nat
  assumes connections: "i < n \<Longrightarrow> connection_contract F content (K i) (server i) free (fresh i)"
begin

lemma run_transactions_law:
  assumes "free es s" and "length cs = n" and "views F content m k es cs" and "m \<noteq> Shared_Write"
    and "list_all (\<lambda>(i, xs). i < n \<and> list_all event_fits xs) ts" and "list_all boolean_ok (es @ concat (map snd ts))"
    and "fold_result db_handle (es @ concat (map snd ts)) (db_new k) = Inr db" and "history_end (es @ concat (map snd ts)) < 2 ^ 63"
  shows "\<exists>cs' s'. run_transactions F K ts (cs, s) = Some (Inr (cs', s')) \<and> free (es @ concat (map snd ts)) s' \<and>
    length cs' = length cs \<and> views F content m k (es @ concat (map snd ts)) cs' \<and>
    (ts \<noteq> [] \<longrightarrow> client_data (cs' ! fst (last ts)) = db)"
  using assms
proof (induction ts arbitrary: es s cs)
  case (Cons t ts)
  obtain i xs where t: "t = (i, xs)" by (cases t)
  let ?es = "es @ xs"
  have i: "i < n" "list_all event_fits xs" using Cons.prems(5) t by simp_all
  with Cons.prems(2,3) obtain ps qs where c: "es = ps @ qs" "client_ok F content m k ps (cs ! i)" "checkpoint_events 0 (cs ! i) = []"
    unfolding views_def list_all_length by blast
  have rest: "es @ concat (map snd (t # ts)) = ?es @ concat (map snd ts)" using t by simp
  obtain db1 where db1: "fold_result db_handle ?es (db_new k) = Inr db1" "fold_result db_handle (concat (map snd ts)) db1 = Inr db"
    using Cons.prems(7) unfolding rest fold_result_append [of db_handle ?es] by (auto simp: bind_result_eq_Inr)
  have "history_end ?es < 2 ^ 63" using Cons.prems(8) history_end_append [of ?es "concat (map snd ts)"] unfolding rest by simp
  then have pre: "free (ps @ qs) s" "list_all boolean_ok (ps @ qs @ xs)" "fold_result db_handle (ps @ qs @ xs) (db_new k) = Inr db1"
    "history_end (ps @ qs @ xs @ checkpoint_events 0 (cs ! i)) < 2 ^ 63"
    using Cons.prems(1,6) db1(1) t c(1,3) by simp_all
  obtain c' s' where "transaction F (database_client_read F) (K i) 0 (send_events F xs (Inr ())) (cs ! i) s = Some (Inr (Done () c' s'))"
    "free (ps @ qs @ xs @ checkpoint_events 0 (cs ! i)) s'" "client_ok F content m k (ps @ qs @ xs @ checkpoint_events 0 (cs ! i)) c'"
    "client_data c' = db1" "checkpoint_events 0 c' = checkpoint_events 0 (cs ! i)"
    by (rule connection_contract.transaction_commits [OF connections [OF i(1)] pre(1) c(2) Cons.prems(4) i(2) pre(2-4)])
  then have tr: "transaction F (database_client_read F) (K i) 0 (send_events F xs (Inr ())) (cs ! i) s = Some (Inr (Done () c' s'))"
    "free ?es s'" "client_ok F content m k ?es c'" "client_data c' = db1" "checkpoint_events 0 c' = []"
    using c(1,3) by simp_all
  have run: "run_transactions F K (t # ts) (cs, s) = run_transactions F K ts (cs[i := c'], s')" using tr(1) t by simp
  have v: "views F content m k ?es (cs[i := c'])"
    using Cons.prems(3) by (intro views_update views_grow tr(3,5))
  show ?case
  proof (cases "ts = []")
    case True
    then show ?thesis using run tr(2,4) v t i(1) db1(2) Cons.prems(2) by simp
  next
    case False
    from Cons.IH [OF tr(2) _ v Cons.prems(4)] Cons.prems(2,5-8) False t show ?thesis unfolding run rest by simp
  qed
qed simp

end

lemma memory_server_new:
  assumes "m \<notin> {Read_Existing, Shared_Write}"
  obtains s where "file_connection_new memory_file (memory_file_new m) = Inr s" and "server_holds memory_file data [] s"
proof -
  obtain j where j: "open_writable_journal memory_file Recovery_None (memory_file_new m) = Inr j"
    "writer memory_file data m [] [] [] (header_bytes new_header) j" "data (journal_file j) = header_bytes new_header"
    "buffer_index (file_buffer j) = 0"
    by (rule memory.open_writable_new [of "memory_file_new m" Recovery_None]) (use assms in auto)
  then have "behind memory_file data m [] [] [] (history_context initial_context ([] @ [])) j"
    by (intro memory.settled_behind) (simp add: settled_def)
  then have "server_holds memory_file data [] j" using assms by (auto simp: behind_def server_holds_def)
  moreover have "\<not> is_shared memory_file (journal_file j)"
    using j(2) assms by (auto simp: writer_def writing_def is_shared_def)
  ultimately show ?thesis using that [of j] j(1) by (simp add: file_connection_new_def journal_connection_new_def)
qed

abbreviation memory_connection :: "(Memory_File Journal, Memory_File) Connection" where
  "memory_connection \<equiv> journal_connection memory_file memory_file"

interpretation memory_clients: shared_connections memory_file data "\<lambda>_. memory_connection" "\<lambda>_. server_holds memory_file data"
  "server_holds memory_file data" "\<lambda>_. server_holds memory_file data" n for n
  by unfold_locales

text \<open>A server and \<open>n\<close> clients on new files, after a schedule.\<close>

definition memory_schedule :: "Open_Mode \<Rightarrow> Content_Check \<Rightarrow> Record_Id \<Rightarrow> nat \<Rightarrow> (nat \<times> event list) list \<Rightarrow>
    ((Memory_File, Database) Client list \<times> Memory_File Journal) result option" where
  "memory_schedule m check k n ts =
     bind_outcome (Some (file_connection_new memory_file (memory_file_new m))) (\<lambda>s0.
     bind_outcome (Some (writable_database_client memory_file memory_connection check k Recovery_None (memory_file_new m) s0)) (\<lambda>(c0, s1).
     run_transactions memory_file (\<lambda>_. memory_connection) ts (replicate n c0, s1)))"

definition schedule_ok :: "Open_Mode \<Rightarrow> nat \<Rightarrow> (nat \<times> event list) list \<Rightarrow> bool" where
  "schedule_ok m n ts \<longleftrightarrow> m \<notin> {Read_Existing, Shared_Write} \<and>
     list_all (\<lambda>(i, xs). i < n \<and> list_all event_fits xs \<and> list_all boolean_ok xs) ts \<and> history_end (concat (map snd ts)) < 2 ^ 63"

lemma memory_schedule_law:
  assumes "schedule_ok m n ts" and "fold_result db_handle (concat (map snd ts)) (db_new k) = Inr db"
  obtains cs s where "memory_schedule m check k n ts = Some (Inr (cs, s))" and "server_holds memory_file data (concat (map snd ts)) s"
    and "length cs = n" and "views memory_file data m k (concat (map snd ts)) cs" and "ts \<noteq> [] \<longrightarrow> client_data (cs ! fst (last ts)) = db"
proof -
  let ?es = "concat (map snd ts)"
  have m: "m \<notin> {Read_Existing, Shared_Write}" using assms(1) by (simp add: schedule_ok_def)
  obtain s0 where s0: "file_connection_new memory_file (memory_file_new m) = Inr s0" "server_holds memory_file data [] s0"
    by (rule memory_server_new [OF m])
  obtain c0 where c0: "writable_database_client memory_file memory_connection check k Recovery_None (memory_file_new m) s0 = Inr (c0, s0)"
    "client_ok memory_file data m k [] c0" "checkpoint_events 0 c0 = []"
    by (rule memory_server.new_client_law [OF s0(2), of "memory_file_new m" m check k Recovery_None 0]) (use m in simp_all)
  have "views memory_file data m k [] (replicate n c0)" using c0(2,3) by (auto simp: views_def list_all_iff)
  moreover have "list_all boolean_ok ?es" "list_all (\<lambda>(i, xs). i < n \<and> list_all event_fits xs) ts"
    using assms(1) by (auto simp: list_all_iff schedule_ok_def)
  ultimately show ?thesis
    using memory_clients.run_transactions_law [OF s0(2), of "replicate n c0" n m k ts db] assms m s0(1) c0(1) that
    by (auto simp: memory_schedule_def schedule_ok_def)
qed

lemma schedule_ok_events:
  assumes "schedule_ok m n ts"
  shows "list_all event_fits (concat (map snd ts))" and "list_all boolean_ok (concat (map snd ts))"
  using assms by (auto simp: schedule_ok_def list_all_iff)

text \<open>What a server holds is what a reader of its file rebuilds.\<close>

lemma server_rebuilds:
  assumes "server_holds memory_file data es s" and "list_all boolean_ok es" and "fold_result db_handle es (db_new k) = Inr db"
  shows "read_session memory_file database_writable (db_new k) (journal_file s) = Inr db"
proof -
  from assms(1) obtain hs ss where st: "es = hs @ ss" "stored hs ss [] (data (journal_file s))" by (auto simp: server_holds_def)
  then have fits: "list_all event_fits es" by (simp add: stored_def)
  from play_events_database [OF db_ok_new fits assms(2,3)] show ?thesis
    using memory.read_session_law [OF st(2), of database_writable "db_new k"] st(1) by (simp add: database_writable_def)
qed

text \<open>
  C4. Transactions are serialized. Several clients, each with a file of its own, share a database
  through a connection to the journal of a server. Whatever the order in which they run their
  transactions, if the events of all transactions, one after the other, are accepted by a single
  database, then every transaction succeeds, the journal of the server rebuilds that database, the
  client that ran last holds it, and every other client holds a database that the server went through.
\<close>

theorem transactions_serialized:
  assumes "schedule_ok m n ts" and "fold_result db_handle (concat (map snd ts)) (db_new k) = Inr db"
  shows "\<exists>cs s. memory_schedule m check k n ts = Some (Inr (cs, s)) \<and> length cs = n \<and>
    read_session memory_file database_writable (db_new k) (journal_file s) = Inr db \<and>
    (ts \<noteq> [] \<longrightarrow> client_data (cs ! fst (last ts)) = db) \<and>
    (\<forall>i < n. \<exists>es es'. concat (map snd ts) = es @ es' \<and> fold_result db_handle es (db_new k) = Inr (client_data (cs ! i)))"
proof -
  obtain cs s where run: "memory_schedule m check k n ts = Some (Inr (cs, s))" "server_holds memory_file data (concat (map snd ts)) s"
    "length cs = n" "views memory_file data m k (concat (map snd ts)) cs" "ts \<noteq> [] \<longrightarrow> client_data (cs ! fst (last ts)) = db"
    by (rule memory_schedule_law [OF assms])
  have "\<forall>i < n. \<exists>es es'. concat (map snd ts) = es @ es' \<and> fold_result db_handle es (db_new k) = Inr (client_data (cs ! i))"
    using run(3,4) unfolding views_def list_all_length client_ok_def by metis
  with run server_rebuilds [OF run(2) schedule_ok_events(2) [OF assms(1)] assms(2)] show ?thesis by blast
qed

definition example_schedule :: "(nat \<times> event list) list" where
  "example_schedule = [(0, hd example_sessions), (1, last example_sessions)]"

lemma example_schedule_ok:
  "schedule_ok Create_New 2 example_schedule" "concat (map snd example_schedule) = concat example_sessions"
proof -
  show *: "concat (map snd example_schedule) = concat example_sessions" by (simp add: example_schedule_def example_sessions_def)
  show "schedule_ok Create_New 2 example_schedule"
    using example_sessions_ok(1,4) unfolding schedule_ok_def * by (simp add: example_schedule_def example_sessions_def)
qed

theorem transactions_serialized_witness:
  "\<exists>db cs s. memory_schedule Create_New Check_Fast (- 1) 2 example_schedule = Some (Inr (cs, s)) \<and>
    read_session memory_file database_writable (db_new (- 1)) (journal_file s) = Inr db \<and> client_data (cs ! 1) = db \<and>
    db_get String_Type 1 0 1 db = Inr (String_Value ''Lille'')"
proof -
  from example_sessions_db(2) obtain db where db: "fold_result db_handle (concat (map snd example_schedule)) (db_new (- 1)) = Inr db"
    "db_get String_Type 1 0 1 db = Inr (String_Value ''Lille'')" by (auto simp: bind_result_eq_Inr example_schedule_ok(2))
  have "example_schedule \<noteq> []" "fst (last example_schedule) = 1" by (simp_all add: example_schedule_def)
  with transactions_serialized [OF example_schedule_ok(1) db(1), of Check_Fast] db(2) show ?thesis by auto
qed

section \<open>Pulling\<close>

text \<open>
  C22. Pulling converges: after any schedule, a client that pulls holds the same database as the
  server, and the value returned is the number of bytes by which it was behind.
\<close>

theorem client_pull_converges:
  assumes "schedule_ok m n ts" and "fold_result db_handle (concat (map snd ts)) (db_new k) = Inr db" and "i < n"
  shows "\<exists>cs s c s'. memory_schedule m check k n ts = Some (Inr (cs, s)) \<and>
    writable_client_pull memory_file (database_client_read memory_file) memory_connection (cs ! i) s =
      Some (Inr (checkpoint_position s - get_journal_checkpoint (cs ! i), c, s')) \<and>
    client_data c = db \<and> get_journal_checkpoint c = checkpoint_position s \<and>
    read_session memory_file database_writable (db_new k) (journal_file s') = Inr db"
proof -
  let ?es = "concat (map snd ts)"
  obtain cs s where run: "memory_schedule m check k n ts = Some (Inr (cs, s))" "server_holds memory_file data ?es s"
    "length cs = n" "views memory_file data m k ?es cs"
    by (rule memory_schedule_law [OF assms(1,2)])
  from run(3,4) assms(3) obtain ps qs where c: "?es = ps @ qs" "client_ok memory_file data m k ps (cs ! i)"
    unfolding views_def list_all_length by blast
  have m: "m \<noteq> Shared_Write" "history_end (ps @ qs) < 2 ^ 63" using assms(1) c(1) by (simp_all add: schedule_ok_def)
  obtain c' s' where p: "writable_client_pull memory_file (database_client_read memory_file) memory_connection (cs ! i) s =
      Some (Inr (int (history_end (ps @ qs)) - int (history_end ps), c', s'))"
    "server_holds memory_file data (ps @ qs) s'" "client_ok memory_file data m k (ps @ qs) c'" "client_data c' = db"
    by (rule memory_server.pull_law [OF run(2) [unfolded c(1)] c(2) m(1) schedule_ok_events(2) [OF assms(1), unfolded c(1)]
          assms(2) [unfolded c(1)] m(2)])
  have "get_journal_checkpoint (cs ! i) = int (history_end ps)" "get_journal_checkpoint c' = int (history_end (ps @ qs))"
    using c(2) p(3) settled_checkpoint(1) by (fastforce simp: client_ok_def)+
  with run(1) p server_checkpoint [OF run(2)] c(1)
    server_rebuilds [OF p(2) [folded c(1)] schedule_ok_events(2) [OF assms(1)] assms(2)] show ?thesis by auto
qed

theorem client_pull_converges_witness:
  "\<exists>db cs s n c s'. memory_schedule Create_New Check_Full (- 1) 2 example_schedule = Some (Inr (cs, s)) \<and>
    writable_client_pull memory_file (database_client_read memory_file) memory_connection (cs ! 0) s = Some (Inr (n, c, s')) \<and>
    client_data c = db \<and> db_get String_Type 1 0 1 db = Inr (String_Value ''Lille'')"
proof -
  from example_sessions_db(2) obtain db where db: "fold_result db_handle (concat (map snd example_schedule)) (db_new (- 1)) = Inr db"
    "db_get String_Type 1 0 1 db = Inr (String_Value ''Lille'')" by (auto simp: bind_result_eq_Inr example_schedule_ok(2))
  from client_pull_converges [OF example_schedule_ok(1) db(1), of 0 Check_Full] db(2) show ?thesis by auto
qed

section \<open>Aborted transactions\<close>

text \<open>
  C21. A transaction whose function throws after it has written something leaves the server as it was,
  the exception is passed on, and the client, whose database has changed and whose journal has
  uncheckpointed data, refuses any further transaction.
\<close>

theorem aborted_transaction_isolated:
  assumes "schedule_ok m n (ts @ [(i, xs)])" and "xs \<noteq> []" and "fold_result db_handle (concat (map snd ts)) (db_new k) = Inr db"
    and "fold_result db_handle xs db = Inr db'"
  shows "\<exists>cs s c s'. memory_schedule m check k n ts = Some (Inr (cs, s)) \<and>
    transaction memory_file (database_client_read memory_file) memory_connection now (send_events memory_file xs (Inl e :: unit result)) (cs ! i) s
      = Some (Inr (Thrown e (Some c) s')) \<and>
    read_session memory_file database_writable (db_new k) (journal_file s') = Inr db \<and>
    (\<forall>(f :: (Memory_File, Database) Client \<Rightarrow> unit result \<times> (Memory_File, Database) Client) t s''.
      transaction memory_file (database_client_read memory_file) memory_connection t f c s'' =
        Some (Inl (Exception ''locking journal with uncheckpointed data (try rollback?)'')))"
proof -
  let ?es = "concat (map snd ts)"
  have ok: "schedule_ok m n ts" "i < n" "list_all event_fits xs" "list_all boolean_ok (?es @ xs)" "history_end (?es @ xs) < 2 ^ 63"
    using assms(1) history_end_append [of ?es xs] schedule_ok_events(2) [OF assms(1)] by (auto simp: schedule_ok_def)
  obtain cs s where run: "memory_schedule m check k n ts = Some (Inr (cs, s))" "server_holds memory_file data ?es s"
    "length cs = n" "views memory_file data m k ?es cs"
    by (rule memory_schedule_law [OF ok(1) assms(3)])
  from run(3,4) ok(2) obtain ps qs where c: "?es = ps @ qs" "client_ok memory_file data m k ps (cs ! i)"
    unfolding views_def list_all_length by blast
  have m: "m \<noteq> Shared_Write" using ok(1) by (simp add: schedule_ok_def)
  have all: "list_all boolean_ok (ps @ qs @ xs)" "fold_result db_handle (ps @ qs @ xs) (db_new k) = Inr db'" "history_end (ps @ qs @ xs) < 2 ^ 63"
    using ok(4,5) assms(3,4) fold_result_append [of db_handle "ps @ qs" xs "db_new k"] unfolding c(1) by simp_all
  obtain c' s' where t: "transaction memory_file (database_client_read memory_file) memory_connection now
      (send_events memory_file xs (Inl e :: unit result)) (cs ! i) s = Some (Inr (Thrown e (Some c') s'))"
    "server_holds memory_file data (ps @ qs) s'" "get_journal_checkpoint c' \<le> connection_checkpoint c'"
    "get_journal_checkpoint c' < journal_get_position (client_journal c')"
    by (rule memory_server.transaction_aborts [OF run(2) [unfolded c(1)] c(2) m ok(3) assms(2) all])
  have "transaction memory_file (database_client_read memory_file) memory_connection t f c' s'' =
      Some (Inl (Exception ''locking journal with uncheckpointed data (try rollback?)''))"
    for t s'' and f :: "(Memory_File, Database) Client \<Rightarrow> unit result \<times> (Memory_File, Database) Client"
    using t(3,4) by (simp add: transaction_def get_tail_lock_def tail_exclusive_lock_def)
  with run(1) t(1) server_rebuilds [OF t(2) [folded c(1)] schedule_ok_events(2) [OF ok(1)] assms(3)] show ?thesis by blast
qed


theorem aborted_transaction_isolated_witness:
  "\<exists>db cs s c s'. memory_schedule Create_New Check_None (- 1) 2 [hd example_schedule] = Some (Inr (cs, s)) \<and>
    transaction memory_file (database_client_read memory_file) memory_connection 0
      (send_events memory_file (snd (last example_schedule)) (Inl (Exception ''cancel'') :: unit result)) (cs ! 1) s
      = Some (Inr (Thrown (Exception ''cancel'') (Some c) s')) \<and>
    read_session memory_file database_writable (db_new (- 1)) (journal_file s') = Inr db"
proof -
  let ?xs = "snd (last example_schedule)" and ?es = "concat (map snd [hd example_schedule])"
  have split: "[hd example_schedule] @ [(1, ?xs)] = example_schedule" "?xs \<noteq> []" "concat example_sessions = ?es @ ?xs"
    by (simp_all add: example_schedule_def example_sessions_def)
  from example_sessions_db(2) obtain db' where "fold_result db_handle (?es @ ?xs) (db_new (- 1)) = Inr db'"
    unfolding split(3) by (auto simp: bind_result_eq_Inr)
  then obtain db where db: "fold_result db_handle ?es (db_new (- 1)) = Inr db" "fold_result db_handle ?xs db = Inr db'"
    unfolding fold_result_append by (auto simp: bind_result_eq_Inr)
  have ok: "schedule_ok Create_New 2 ([hd example_schedule] @ [(1, ?xs)])" unfolding split(1) by (rule example_schedule_ok(1))
  from aborted_transaction_isolated [OF ok split(2) db, of Check_None 0 "Exception ''cancel''"] show ?thesis by blast
qed

section \<open>Locks\<close>

text \<open>
  A program that uses a \<open>Client_Lock\<close> instead of \<open>transaction\<close>: it takes the lock, calls the same
  function, then confirms with \<open>checkpoint_and_push_unlock\<close>, or lets the destructor cancel when the
  function throws.
\<close>

definition lock_session :: "'f Abstract_File \<Rightarrow> ('f, 'd) read_journal \<Rightarrow> ('c, 'f) Connection \<Rightarrow> 64 word \<Rightarrow>
    (('f, 'd) Client \<Rightarrow> 'a result \<times> ('f, 'd) Client) \<Rightarrow> ('f, 'd) Client \<Rightarrow> 'c \<Rightarrow> ('a, ('f, 'd) Client, 'c) Ending result option" where
  "lock_session F rj K now f c s =
     bind_outcome (client_lock_new F rj K c s) (\<lambda>started.
     case started of
       Thrown e st s1 \<Rightarrow> Some (Inr (Thrown e None s1))
     | Done u l s1 \<Rightarrow>
         (case f (locked_client l) of
            (Inl e, c1) \<Rightarrow>
              let (c2, s2) = client_lock_destroy F K (l\<lparr>locked_client := c1\<rparr>) s1 in Some (Inr (Thrown e (Some c2) s2))
          | (Inr x, c1) \<Rightarrow>
              bind_outcome (checkpoint_and_push_unlock F K now (l\<lparr>locked_client := c1\<rparr>) s1) (\<lambda>(l', s2).
              let (c2, s3) = client_lock_destroy F K l' s2 in Some (Inr (Done x c2 s3)))))"

text \<open>
  C23. The two ways to write through a client are equivalent: a lock session commits exactly when
  \<open>transaction\<close> does, with the same value, the same client and the same server, and when the function
  of the user throws, both cancel with the same result. Between lock and confirmation the destructor
  finds nothing left to do.
\<close>

lemma start_transaction_thrown:
  "start_transaction rj K c s = Some (Inr (Thrown e st s')) \<Longrightarrow> st = None"
  by (auto simp: start_transaction_def bind_outcome_def split: option.splits sum.splits prod.splits)

theorem lock_session_transaction:
  "(transaction F rj K now f c s = Some (Inr (Done x c' s')) \<longleftrightarrow> lock_session F rj K now f c s = Some (Inr (Done x c' s'))) \<and>
   (transaction F rj K now f c s = Some (Inr (Thrown e (Some c') s')) \<longleftrightarrow> lock_session F rj K now f c s = Some (Inr (Thrown e (Some c') s')))"
proof (cases "get_tail_lock F K c s")
  case (Inr cs1)
  obtain c1 s1 where cs1: "cs1 = (c1, s1)" by (cases cs1)
  show ?thesis
  proof (cases "start_transaction rj K c1 s1")
    case (Some r)
    show ?thesis
    proof (cases r)
      case started: (Inr ending)
      show ?thesis
      proof (cases ending)
        case (Thrown e1 st s2)
        with start_transaction_thrown [of rj K c1 s1 e1 st s2] Some started Inr cs1 show ?thesis
          by (simp add: transaction_def lock_session_def client_lock_new_def)
      next
        case (Done u c2 s2)
        obtain v c3 where f: "f c2 = (v, c3)" by (cases "f c2")
        note start = Inr cs1 Some started Done f
        show ?thesis
        proof (cases v)
          case (Inl e1)
          with start show ?thesis
            by (simp add: transaction_def lock_session_def client_lock_new_def client_lock_destroy_def)
        next
          case (Inr y)
          with start show ?thesis
            by (cases "do_checkpoint F now c3")
              (auto simp: transaction_def lock_session_def client_lock_new_def client_lock_destroy_def
                checkpoint_and_push_unlock_def lock_do_checkpoint_def lock_push_def bind_outcome_def
                split: option.splits sum.splits prod.splits)
        qed
      qed
    qed (use Some Inr cs1 in \<open>simp add: transaction_def lock_session_def client_lock_new_def\<close>)
  qed (use Inr cs1 in \<open>simp add: transaction_def lock_session_def client_lock_new_def\<close>)
qed (simp add: transaction_def lock_session_def client_lock_new_def)

section \<open>Content checks\<close>

definition same_range :: "byte list \<Rightarrow> byte list \<Rightarrow> nat \<Rightarrow> nat \<Rightarrow> bool" where
  "same_range xs ys p q \<longleftrightarrow> take (q - p) (drop p xs) = take (q - p) (drop p ys)"

text \<open>
  C32. A full check accepts exactly the journals whose bytes are those of the server in the range to
  compare, and so does a fast check of at most 4,096 bytes; a longer fast check compares the first and
  the last 2,048 bytes. A rejection is a content mismatch, and an accepted check changes nothing.
\<close>

theorem content_check_decides:
  assumes "p < q" and "q \<le> length (data (journal_file j))"
  shows "pullonly_check_matching_content memory_file memory_file j check (int p) (int q) s =
    (if check = Check_None \<or>
        (if check = Check_Full \<or> q - p \<le> 4096 then same_range (data (journal_file j)) (data (journal_file s)) p q
         else same_range (data (journal_file j)) (data (journal_file s)) p (p + 2048) \<and>
              same_range (data (journal_file j)) (data (journal_file s)) (q - 2048) q)
     then Inr s else Inl content_mismatch)"
proof (cases "check = Check_None \<or> check = Check_Full \<or> q - p \<le> 4096")
  case True
  then show ?thesis
    using assms memory_pair.equal_range [of p q "journal_file j" "journal_file s"]
    by (auto simp: pullonly_check_matching_content_def same_range_def)
next
  case False
  have "int (q - 2048) = int q - 2048" "q - (q - 2048) = 2048" using False by auto
  with False assms memory_pair.equal_range [of p "p + 2048" "journal_file j" "journal_file s"]
    memory_pair.equal_range [of "q - 2048" q "journal_file j" "journal_file s"]
  show ?thesis by (auto simp: pullonly_check_matching_content_def same_range_def)
qed

theorem content_check_decides_witness:
  "\<exists>j s. open_writable_journal memory_file Recovery_None (memory_file_new Create_New) = Inr j \<and>
    s = set_file \<lparr>memory_mode = Create_New, data = []\<rparr> j \<and>
    pullonly_check_matching_content memory_file memory_file j Check_Fast 36 41 s = Inl content_mismatch"
proof -
  obtain j where j: "open_writable_journal memory_file Recovery_None (memory_file_new Create_New) = Inr j"
    "data (journal_file j) = header_bytes new_header"
    by (rule memory_open_new [of Create_New Recovery_None]) auto
  let ?s = "set_file \<lparr>memory_mode = Create_New, data = []\<rparr> j"
  have len: "36 < (41::nat)" "41 \<le> length (data (journal_file j))" using j(2) new_header_ok(2) by simp_all
  have "\<not> same_range (data (journal_file j)) (data (journal_file ?s)) 36 41"
    using len by (simp add: same_range_def set_file_def)
  with content_check_decides [OF len, of Check_Fast ?s] j(1) show ?thesis by auto
qed

end
