(* ===== verification/Session_Runs.thy ===== *)
theory Session_Runs
  imports Network Client_Properties
begin

text \<open>
  What a session of a server does with the bytes of one request, from one wait for a request to the
  next, on a server that nobody else uses at that moment.
\<close>

section \<open>Runs\<close>

inductive session_run :: "nat \<Rightarrow> (Memory_File, unit, unit) Server \<Rightarrow> byte list \<Rightarrow> byte list \<Rightarrow> (Memory_File, unit, unit) Server \<Rightarrow> bool" for i where
  stay: "session_run i v [] [] v"
| receive: "sessions v i = Some s \<Longrightarrow> expected (phase s) = Some (length bs) \<Longrightarrow> bs \<noteq> [] \<Longrightarrow>
    server_step memory_env i (Received bs) v = Next out v1 \<Longrightarrow> session_run i v1 ins outs v' \<Longrightarrow> session_run i v (bs @ ins) (out @ outs) v'"
| written: "sessions v i = Some s \<Longrightarrow> (\<exists>r. phase s = Sending r) \<or> phase s = Replying \<Longrightarrow>
    server_step memory_env i Written v = Next out v1 \<Longrightarrow> session_run i v1 ins outs v' \<Longrightarrow> session_run i v ins (out @ outs) v'"

definition exchanged :: "nat \<Rightarrow> (Memory_File, unit, unit) Server \<Rightarrow> byte list \<Rightarrow> byte list \<Rightarrow> Network \<Rightarrow> Network" where
  "exchanged i v rest out n = \<lparr>net_server = v, to_server = (to_server n)(i := rest), to_client = (to_client n)(i := to_client n i @ out)\<rparr>"

lemma exchanged_simps [simp]:
  "net_server (exchanged i v rest out n) = v"
  "to_server (exchanged i v rest out n) = (to_server n)(i := rest)"
  "to_client (exchanged i v rest out n) = (to_client n)(i := to_client n i @ out)"
  "exchanged i v' rest' out' (exchanged i v rest out n) = exchanged i v' rest' (out @ out') n"
  "exchanged i v rest out (feed i bs n) = exchanged i v rest out n"
  by (simp_all add: exchanged_def)

lemma exchanged_same: "exchanged i (net_server n) (to_server n i) [] n = n"
  by (simp add: exchanged_def)

lemma session_run_leads:
  assumes "session_run i v ins outs v'" and "net_server n = v" and "to_server n i = ins"
  shows "leads i n (exchanged i v' [] outs n)"
  using assms
proof (induction arbitrary: n rule: session_run.induct)
  case (stay v)
  then show ?case using exchanged_same [of i n] by simp
next
  case (receive v s bs out v1 ins outs v')
  have "net_step i n = Some (exchanged i v1 ins out n)"
    using receive by (simp add: net_step_def next_completion_def bytes_consumed_def exchanged_def)
  from leads_step [OF this receive.IH [of "exchanged i v1 ins out n"]] show ?case by simp
next
  case (written v s out v1 ins outs v')
  have "net_step i n = Some (exchanged i v1 ins out n)"
    using written by (auto simp: net_step_def next_completion_def bytes_consumed_def expected_def exchanged_def)
  from leads_step [OF this written.IH [of "exchanged i v1 ins out n"]] show ?case by simp
qed

lemma session_run_trans: "session_run i v ins outs v' \<Longrightarrow> session_run i v' ins' outs' v'' \<Longrightarrow> session_run i v (ins @ ins') (outs @ outs') v''"
  by (induction rule: session_run.induct) (auto intro: session_run.receive session_run.written)

definition idle_at :: "nat \<Rightarrow> (Memory_File, unit, unit) Server \<Rightarrow> bool" where
  "idle_at i v \<longleftrightarrow> (\<exists>s. sessions v i = Some s \<and> expected (phase s) \<noteq> None)"

lemma idle_stuck: "idle_at i (net_server n) \<Longrightarrow> to_server n i = [] \<Longrightarrow> net_step i n = None"
  by (auto simp: idle_at_def net_step_def next_completion_def)

text \<open>A request written to the channel of a session that waits for one.\<close>

lemma request_net:
  assumes "session_run i (net_server n) ins outs v'" and "idle_at i (net_server n)" and "idle_at i v'" and "to_server n i = []"
  shows "channel_write (net_channel grain i) ins n = Inr (exchanged i v' [] outs n)"
proof (rule channel_write_net)
  show "leads i (feed i ins n) (exchanged i v' [] outs n)"
    using session_run_leads [OF assms(1), of "feed i ins n"] assms(4) by simp
  show "net_step i n = None" by (rule idle_stuck [OF assms(2,4)])
  show "net_step i (exchanged i v' [] outs n) = None" by (rule idle_stuck) (use assms(3) in simp_all)
qed

section \<open>A calm server\<close>

text \<open>
  All sessions wait for a request, and \<open>h\<close> holds the lock, if any. The journal of the server holds the
  events \<open>es\<close>.
\<close>

definition calm :: "event list \<Rightarrow> nat option \<Rightarrow> (Memory_File, unit, unit) Server \<Rightarrow> bool" where
  "calm es h v \<longleftrightarrow>
     is_writable v \<and> client_lock v = Some True \<and> lock_waiters v = [] \<and> pull_waiters v = [] \<and> is_locked v = (h \<noteq> None) \<and>
     \<not> use_valid_data (server_client v) \<and> \<not> use_timestamp (server_client v) \<and> \<not> use_hard_checkpoint (server_client v) \<and>
     server_holds memory_file data es (server_journal v) \<and> journal_get_position (server_journal v) \<le> server_checkpoint_position v \<and>
     (\<forall>i s. sessions v i = Some s \<longrightarrow> i < session_id v \<and> phase s = Idle \<and> session_locking s = (h = Some i))"

lemma calm_not_shared: "calm es h v \<Longrightarrow> \<not> client_is_shared memory_env v"
  by (auto simp: calm_def server_holds_def client_is_shared_def is_shared_def memory_env_def reader_def reading_def)

lemma calm_idle: "calm es h v \<Longrightarrow> sessions v i = Some s \<Longrightarrow> idle_at i v"
  by (auto simp: calm_def idle_at_def expected_def)

lemma calm_checkpoint: "calm es h v \<Longrightarrow> server_checkpoint_position v = int (history_end es)"
  using server_checkpoint by (auto simp: calm_def)

text \<open>A session that is back to its loop.\<close>

definition resting :: "nat \<Rightarrow> byte \<Rightarrow> bool \<Rightarrow> Session \<Rightarrow> (Memory_File, unit, unit) Server \<Rightarrow> (Memory_File, unit, unit) Server" where
  "resting i b locking s v = put_session i (s\<lparr>phase := Idle, woken := False, first_byte := b, session_locking := locking\<rparr>) (v\<lparr>is_locked := locking\<rparr>)"

lemma calm_resting:
  assumes "calm es h v" and "sessions v i = Some s" and "h = None \<or> h = Some i"
  shows "calm es (if locking then Some i else None) (resting i b locking s v)" and "dom (sessions (resting i b locking s v)) = dom (sessions v)"
  using assms by (auto simp: calm_def resting_def put_session_def split: if_splits)

lemmas step_simps = server_step_def complete_def with_session_def set_phase_def and_then_def reply_def dispatch_def

lemma put_put [simp]: "put_session i a (put_session i b v) = put_session i a v"
  by (simp add: put_session_def)

section \<open>Unlock\<close>

lemma unlock_run:
  assumes "calm es h v" and "sessions v i = Some s" and "h = None \<or> h = Some i"
  shows "session_run i v [77] [77] (resting i 77 False s v)"
proof -
  let ?v1 = "put_session i (s\<lparr>phase := Replying, woken := False, first_byte := 77, session_locking := False\<rparr>) (v\<lparr>is_locked := False\<rparr>)"
  have ns: "\<not> is_shared (env_file memory_env) (journal_file (server_journal v))"
    using calm_not_shared [OF assms(1)] by (simp add: client_is_shared_def)
  have s: "phase s = Idle" "session_locking s = (h = Some i)" "lock_waiters v = []" "client_lock v = Some True" "is_locked v = (h \<noteq> None)"
    using assms(1,2) by (auto simp: calm_def)
  have 1: "server_step memory_env i (Received [77]) v = Next [77] ?v1"
  proof (cases "h = Some i")
    case True
    then show ?thesis
      using s assms(2) ns by (cases s) (simp add: step_simps session_unlock_def put_session_def client_is_shared_def)
  next
    case False
    then have "h = None" using assms(3) by simp
    then show ?thesis
      using s assms(2) by (cases s) (simp add: step_simps session_unlock_def put_session_def)
  qed
  have 2: "server_step memory_env i Written ?v1 = Next [] (resting i 77 False s v)"
    by (cases s) (simp add: step_simps put_session_def resting_def)
  have "session_run i ?v1 [] [] (resting i 77 False s v)"
    using session_run.written [OF _ _ 2 session_run.stay, of "s\<lparr>phase := Replying, woken := False, first_byte := 77, session_locking := False\<rparr>"]
    by simp
  from session_run.receive [OF assms(2) _ _ 1 this] show ?thesis using s(1) by (simp add: expected_def)
qed

section \<open>Pull\<close>

lemma length_int64_bytes [simp]: "length (int64_bytes x) = 8"
  by (simp add: int64_bytes_def)

lemma int64_bytes_not_Nil [simp]: "int64_bytes x \<noteq> []"
  using length_int64_bytes [of x] by (metis length_0_conv zero_neq_numeral)

lemma read_int64_bytes:
  assumes "- (2 ^ 63) \<le> x" and "x < 2 ^ 63" and "length pre = k"
  shows "read_int64 k (pre @ int64_bytes x @ post) = x"
proof -
  have "sint (word_of_int x :: 64 word) = x" using assms(1,2) by (simp add: signed_of_int signed_take_bit_int_eq_self)
  moreover have "take 8 (drop k (pre @ int64_bytes x @ post)) = int64_bytes x" using assms(3) by simp
  ultimately show ?thesis unfolding read_int64_def by (simp add: int64_bytes_def)
qed

lemmas read_int64_first = read_int64_bytes [of _ "[]" 0, simplified]

lemma read_int64_args:
  assumes "- (2 ^ 63) \<le> a" "a < 2 ^ 63" "- (2 ^ 63) \<le> b" "b < 2 ^ 63"
  shows "read_int64 0 (int64_bytes a @ int64_bytes b) = a" and "read_int64 8 (int64_bytes a @ int64_bytes b) = b"
  using read_int64_bytes [of a "[]" 0 "int64_bytes b"] read_int64_bytes [of b "int64_bytes a" 8 "[]"] assms by simp_all

text \<open>What is left of a reply is sent piece by piece.\<close>

lemma send_run:
  assumes "sessions v i = Some s" and "phase s = Sending r" and "\<not> end_of_file r" and "0 \<le> reader_current r"
    and "reader_current r \<le> reader_end r" and "reader_end r \<le> int (length (data (journal_file (server_journal v))))"
  shows "session_run i v [] (take (nat (get_remaining r)) (drop (nat (reader_current r)) (data (journal_file (server_journal v)))))
    (put_session i (s\<lparr>phase := Idle, woken := False\<rparr>) v)"
  using assms
proof (induction "nat (get_remaining r)" arbitrary: v s r rule: less_induct)
  case less
  let ?f = "journal_file (server_journal v)" and ?c = "data (journal_file (server_journal v))"
  show ?case
  proof (cases "get_remaining r > 0")
    case False
    then have rem: "get_remaining r = 0" using less.prems(5) by (simp add: get_remaining_def)
    then have "server_step memory_env i Written v = Next [] (put_session i (s\<lparr>phase := Idle, woken := False\<rparr>) v)"
      using less.prems(1,2) by (simp add: step_simps send_some_def put_session_def)
    from session_run.written [OF less.prems(1) _ this session_run.stay] less.prems(2) rem show ?thesis by simp
  next
    case True
    define k where "k = min session_buffer_size (nat (get_remaining r))"
    let ?r = "r\<lparr>reader_current := reader_current r + int k\<rparr>" and ?bs = "take k (drop (nat (reader_current r)) ?c)"
    let ?s = "s\<lparr>phase := Sending ?r, woken := False\<rparr>"
    have k: "0 < k" "k \<le> nat (get_remaining r)" using True by (simp_all add: k_def)
    have "async_read memory_file ?f session_buffer_size r = Inr (?bs, ?r)"
      using memory.async_read_law [OF less.prems(4,6,5,3)] by (simp add: k_def Let_def)
    then have 1: "server_step memory_env i Written v = Next ?bs (put_session i ?s v)"
      using less.prems(1-3) True by (simp add: step_simps send_some_def put_session_def memory_env_def)
    have rem: "get_remaining ?r = get_remaining r - int k" by (simp add: get_remaining_def)
    have "session_run i (put_session i ?s v) [] (take (nat (get_remaining ?r)) (drop (nat (reader_current ?r)) ?c))
        (put_session i (?s\<lparr>phase := Idle, woken := False\<rparr>) (put_session i ?s v))"
      using less.hyps [of ?r "put_session i ?s v" ?s] less.prems k rem by (simp add: get_remaining_def)
    moreover have "put_session i (?s\<lparr>phase := Idle, woken := False\<rparr>) (put_session i ?s v) = put_session i (s\<lparr>phase := Idle, woken := False\<rparr>) v"
      by (simp add: put_session_def)
    moreover have "?bs @ take (nat (get_remaining ?r)) (drop (nat (reader_current ?r)) ?c) =
        take (nat (get_remaining r)) (drop (nat (reader_current r)) ?c)"
      using take_add [of k "nat (get_remaining ?r)" "drop (nat (reader_current r)) ?c"] k rem less.prems(4)
      by (simp add: nat_add_distrib add.commute nat_diff_distrib)
    ultimately show ?thesis using session_run.written [OF less.prems(1) _ 1] less.prems(2) by metis
  qed
qed

lemma take_held_lock:
  "client_lock v = Some b \<Longrightarrow> sessions v i = Some s \<Longrightarrow>
     take_lock E i v = Next [] (put_session i (s\<lparr>session_locking := True\<rparr>) (v\<lparr>is_locked := True\<rparr>))"
  by (simp add: take_lock_def with_session_def put_session_def Let_def)

lemma pull_run:
  assumes "calm es None v" and "sessions v i = Some s" and "0 \<le> p" and "p \<le> int (history_end es)" and "history_end es < 2 ^ 63"
    and "code = (if lk then 71 else 70)"
  shows "session_run i v (code # int64_bytes 0 @ int64_bytes p)
    (code # int64_bytes (int (history_end es)) @ take (history_end es - nat p) (drop (nat p) (data (journal_file (server_journal v)))))
    (resting i code lk s v)"
proof -
  let ?f = "journal_file (server_journal v)" and ?ck = "int (history_end es)"
  let ?c = "data (journal_file (server_journal v))"
  have s: "phase s = Idle" "\<not> session_locking s" "client_lock v = Some True" "\<not> is_locked v"
    using assms(1,2) by (auto simp: calm_def)
  have ck: "server_checkpoint_position v = ?ck" by (rule calm_checkpoint [OF assms(1)])
  obtain hs ss where "es = hs @ ss" "stored hs ss [] ?c" using assms(1) by (auto simp: calm_def server_holds_def)
  then have len: "length ?c = history_end es" using stored_length [of hs ss "[]" ?c] by simp
  let ?s1 = "s\<lparr>phase := Pulling lk True, woken := False, first_byte := code\<rparr>"
  have 1: "server_step memory_env i (Received [code]) v = Next [] (put_session i ?s1 v)"
    using s(1) assms(2,6) by (cases s) (simp add: step_simps put_session_def)
  define r where "r = async_reader_new p ?ck"
  have r: "\<not> end_of_file r" "reader_current r = p" "reader_end r = ?ck" "get_remaining r = ?ck - p"
    using assms(4) by (simp_all add: r_def async_reader_new_def get_remaining_def)
  define k where "k = min (session_buffer_size - 9) (nat (?ck - p))"
  let ?r = "r\<lparr>reader_current := p + int k\<rparr>" and ?bs = "take k (drop (nat p) ?c)"
  have read: "async_read memory_file ?f (session_buffer_size - 9) r = Inr (?bs, ?r)"
    using memory.async_read_law [of r ?f "session_buffer_size - 9"] r assms(3,4) len by (simp add: k_def Let_def)
  let ?v = "v\<lparr>is_locked := lk\<rparr>"
  let ?s2 = "s\<lparr>phase := Sending ?r, woken := False, first_byte := code, session_locking := lk\<rparr>"
  have args: "read_int64 0 (int64_bytes 0 @ int64_bytes p) = 0" "read_int64 8 (int64_bytes 0 @ int64_bytes p) = p"
    using read_int64_args [of 0 p] assms(3-5) by simp_all
  have send: "send memory_env i r (put_session i (s\<lparr>phase := Running, woken := False, first_byte := code, session_locking := lk\<rparr>) ?v) =
      Next (code # int64_bytes ?ck @ ?bs) (put_session i ?s2 ?v)"
    using read r assms(4) by (cases s) (simp add: send_def send_some_def step_simps put_session_def memory_env_def int64_bytes_def)
  have "server_step memory_env i (Received (int64_bytes 0 @ int64_bytes p)) (put_session i ?s1 v) =
      Next (code # int64_bytes ?ck @ ?bs) (put_session i ?s2 ?v)"
  proof -
    let ?w = "put_session i (?s1\<lparr>phase := Running\<rparr>) (put_session i ?s1 v)"
    have "pull_request memory_env i lk True (int64_bytes 0 @ int64_bytes p) ?w = Next (code # int64_bytes ?ck @ ?bs) (put_session i ?s2 ?v)"
    proof (cases lk)
      case True
      have "take_lock memory_env i ?w = Next [] (put_session i (s\<lparr>phase := Running, woken := False, first_byte := code, session_locking := lk\<rparr>) ?v)"
        using s(3) True take_held_lock [of ?w True i "?s1\<lparr>phase := Running\<rparr>" memory_env] by (cases s) (simp add: put_session_def)
      then show ?thesis
        using send s ck True by (simp add: pull_request_def args pull_lock_def with_session_def and_then_def pull_send_def r_def put_session_def)
    next
      case False
      have "?w = put_session i (s\<lparr>phase := Running, woken := False, first_byte := code, session_locking := lk\<rparr>) ?v"
        using False s(2,4) by (cases s; cases v) (simp add: put_session_def)
      then show ?thesis
        using send s ck False by (simp add: pull_request_def args pull_lock_def with_session_def and_then_def pull_send_def r_def put_session_def)
    qed
    then show ?thesis by (simp add: server_step_def complete_def with_session_def)
  qed
  note 2 = this
  have "session_run i (put_session i ?s2 ?v) [] (take (nat (get_remaining ?r)) (drop (nat (reader_current ?r)) ?c))
      (put_session i (?s2\<lparr>phase := Idle, woken := False\<rparr>) (put_session i ?s2 ?v))"
    using send_run [of "put_session i ?s2 ?v" i ?s2 ?r] r assms(3,4) len by (simp add: k_def)
  moreover have "put_session i (?s2\<lparr>phase := Idle, woken := False\<rparr>) (put_session i ?s2 ?v) = resting i code lk s v"
    by (cases s) (simp add: put_session_def resting_def)
  moreover have "?bs @ take (nat (get_remaining ?r)) (drop (nat (reader_current ?r)) ?c) = take (history_end es - nat p) (drop (nat p) ?c)"
    using take_add [of k "nat (get_remaining ?r)" "drop (nat p) ?c"] assms(3,4) r
    by (simp add: get_remaining_def k_def nat_add_distrib add.commute nat_diff_distrib)
  ultimately have 3: "session_run i (put_session i ?s2 ?v) [] (take (nat (get_remaining ?r)) (drop (nat (reader_current ?r)) ?c)) (resting i code lk s v)"
    by simp
  have "session_run i (put_session i ?s1 v) ((int64_bytes 0 @ int64_bytes p) @ []) ((code # int64_bytes ?ck @ ?bs) @
      take (nat (get_remaining ?r)) (drop (nat (reader_current ?r)) ?c)) (resting i code lk s v)"
    by (rule session_run.receive [OF _ _ _ 2 3, of ?s1]) (simp_all add: expected_def)
  then show ?thesis
    using session_run.receive [OF assms(2) _ _ 1, of "int64_bytes 0 @ int64_bytes p"] s(1)
      \<open>?bs @ _ = take (history_end es - nat p) (drop (nat p) ?c)\<close> by (simp add: expected_def)
qed

section \<open>Push\<close>

definition file_extended :: "byte list \<Rightarrow> (Memory_File, unit, unit) Server \<Rightarrow> (Memory_File, unit, unit) Server" where
  "file_extended bs v = v\<lparr>server_client := (server_client v)\<lparr>client_journal :=
     set_file ((journal_file (server_journal v))\<lparr>data := data (journal_file (server_journal v)) @ bs\<rparr>) (server_journal v)\<rparr>\<rparr>"

lemma file_extended_simps [simp]:
  "data (journal_file (server_journal (file_extended bs v))) = data (journal_file (server_journal v)) @ bs"
  "sessions (file_extended bs v) = sessions v" "lock_waiters (file_extended bs v) = lock_waiters v" "pull_waiters (file_extended bs v) = pull_waiters v"
  "is_locked (file_extended bs v) = is_locked v" "is_writable (file_extended bs v) = is_writable v" "client_lock (file_extended bs v) = client_lock v"
  "file_extended bs (file_extended as v) = file_extended (as @ bs) v" "file_extended bs (put_session i s v) = put_session i s (file_extended bs v)"
  "session_id (file_extended bs v) = session_id v"
  by (simp_all add: file_extended_def set_file_def put_session_def)

lemma memory_append: "pwrite memory_file bs (int (length (data f))) f = Inr (f\<lparr>data := data f @ bs\<rparr>)"
  by (simp add: memory_file_def memory_pwrite_def Let_def vector_resize_def)

text \<open>One piece of the data of a push.\<close>

lemma receive_piece:
  assumes "sessions v i = Some s" and "phase s = Receiving ua p q n" and "push_writer s = Some (int (length (data (journal_file (server_journal v)))))"
  shows "complete memory_env i (Received bs) v =
    push_loop memory_env i ua p q (n - int (length bs))
      (put_session i (s\<lparr>phase := Running, push_writer := Some (int (length (data (journal_file (server_journal v)) @ bs)))\<rparr>) (file_extended bs v))"
proof -
  have "async_write memory_file bs (journal_file (server_journal v)) (int (length (data (journal_file (server_journal v))))) =
      Inr ((journal_file (server_journal v))\<lparr>data := data (journal_file (server_journal v)) @ bs\<rparr>,
           int (length (data (journal_file (server_journal v)) @ bs)))"
    by (simp add: async_write_def memory_append)
  then show ?thesis
    using assms unfolding complete_def push_receive_def with_session_def
    by (simp add: and_then_def from_outcome_def memory_env_def file_extended_def put_session_def split: served.splits)
qed

text \<open>All of it; \<open>finished\<close> is what the end of the push does.\<close>

lemma receive_run:
  assumes "sessions v i = Some s" and "phase s = Receiving ua p q (int (length bs))" and "bs \<noteq> []" and "\<not> woken s"
    and "push_writer s = Some (int (length (data (journal_file (server_journal v)))))"
    and "push_finish memory_env i ua p q (put_session i (s\<lparr>phase := Running,
           push_writer := Some (int (length (data (journal_file (server_journal v)) @ bs)))\<rparr>) (file_extended bs v)) = Next out v1"
    and "session_run i v1 [] outs v'"
  shows "session_run i v bs (out @ outs) v'"
  using assms(1-6)
proof (induction "length bs" arbitrary: v s bs rule: less_induct)
  case less
  let ?c = "data (journal_file (server_journal v))"
  define k where "k = min (length bs) session_buffer_size"
  let ?as = "take k bs" and ?bs = "drop k bs"
  have k: "0 < k" "k \<le> length bs" using less.prems(3) by (auto simp: k_def)
  have ex: "expected (phase s) = Some (length ?as)" using less.prems(2) k by (simp add: expected_def k_def min_def)
  let ?s = "s\<lparr>phase := Running, push_writer := Some (int (length (?c @ ?as)))\<rparr>"
  have piece: "complete memory_env i (Received ?as) v =
      push_loop memory_env i ua p q (int (length bs) - int (length ?as)) (put_session i ?s (file_extended ?as v))"
    by (rule receive_piece [OF less.prems(1,2,5)])
  show ?case
  proof (cases "k = length bs")
    case True
    then have "complete memory_env i (Received bs) v = Next out v1" using piece less.prems(6) by (simp add: push_loop_def)
    then have "server_step memory_env i (Received bs) v = Next out v1" by (simp add: server_step_def)
    from session_run.receive [OF less.prems(1) _ less.prems(3) this assms(7)] ex True show ?thesis by simp
  next
    case False
    let ?s1 = "s\<lparr>phase := Receiving ua p q (int (length ?bs)), push_writer := Some (int (length (?c @ ?as)))\<rparr>"
    let ?v1 = "put_session i ?s1 (file_extended ?as v)"
    have "server_step memory_env i (Received ?as) v = Next [] ?v1"
      using piece False k less.prems(4)
      by (cases s) (simp add: server_step_def push_loop_def set_phase_def with_session_def put_session_def of_nat_diff)
    moreover have "session_run i ?v1 ?bs (out @ outs) v'"
    proof (rule less.hyps)
      have "put_session i (?s1\<lparr>phase := Running, push_writer := Some (int (length (data (journal_file (server_journal ?v1)) @ ?bs)))\<rparr>)
          (file_extended ?bs ?v1) = put_session i (s\<lparr>phase := Running, push_writer := Some (int (length (?c @ bs)))\<rparr>) (file_extended bs v)"
        by (cases s) (simp add: put_session_def file_extended_def set_file_def)
      with less.prems(6) show "push_finish memory_env i ua p q (put_session i (?s1\<lparr>phase := Running,
          push_writer := Some (int (length (data (journal_file (server_journal ?v1)) @ ?bs)))\<rparr>) (file_extended ?bs ?v1)) = Next out v1" by (simp only:)
    qed (use k False less.prems(4) in auto)
    ultimately show ?thesis
      using session_run.receive [OF less.prems(1) ex, of "[]" ?v1 ?bs] k less.prems(3) by simp
  qed
qed

text \<open>The checkpoint of a push that extends the history of the server.\<close>

lemma commit_run:
  assumes "calm es h v" and "list_all event_fits xs" and "history_end (es @ xs) < 2 ^ 63"
    and "bs = history_bytes (history_context initial_context es) xs"
    and "server_client w = server_client (file_extended bs v)" and "server_connection w = server_connection v"
  obtains cl where "commit_push memory_env True (int (history_end (es @ xs))) ua w = Next [] (w\<lparr>server_client := cl\<rparr>)"
    and "server_holds memory_file data (es @ xs) (client_journal cl)"
    and "journal_get_position (client_journal cl) \<le> checkpoint_position (client_journal cl)"
    and "\<not> use_valid_data cl" and "\<not> use_timestamp cl" and "\<not> use_hard_checkpoint cl"
    and "\<not> is_shared memory_file (journal_file (client_journal cl))"
proof -
  let ?j = "server_journal v" and ?f = "journal_file (server_journal v)"
  let ?g = "?f\<lparr>data := data ?f @ bs\<rparr>"
  have flags: "\<not> use_valid_data (server_client v)" "\<not> use_timestamp (server_client v)" "\<not> use_hard_checkpoint (server_client v)"
    and pos: "journal_get_position ?j \<le> checkpoint_position ?j" using assms(1) by (auto simp: calm_def)
  from assms(1) obtain m hs ss q where es: "es = hs @ ss" "m \<noteq> Shared_Write" "reader memory_file data m hs ss (data ?f) q ?j"
    "stored hs ss [] (data ?f)" by (auto simp: calm_def server_holds_def)
  have g: "data ?g = data ?f @ history_bytes (history_context initial_context (hs @ ss)) xs" "get_mode memory_file ?g = m"
    using es(1,3) assms(4) by (simp_all add: reader_def reading_def memory_file_def)
  obtain j' c' where j': "soft_checkpoint_at memory_file (int (history_end (hs @ ss @ xs))) (set_file ?g ?j) = Inr j'"
    "stored hs (ss @ xs) [] c'" "reader memory_file data m hs (ss @ xs) c' q j'" "checkpoint_position j' = int (history_end (hs @ ss @ xs))"
    by (rule memory.tail_checkpoint_law [OF es(4,3) assms(2) _ g]) (use assms(3) es(1) in simp_all)
  have hold: "server_holds memory_file data (es @ xs) j'"
    using j'(2,3) es(1,2) by (auto simp: server_holds_def reader_def reading_def)
  have "fb_get_position (file_buffer ?j) = int q" "fb_get_position (file_buffer j') = int q"
    using es(3) j'(3) reading_position by (auto simp: reader_def)
  then have pos': "journal_get_position j' \<le> checkpoint_position j'"
    using pos calm_checkpoint [OF assms(1)] j'(4) es(1) history_end_append [of "hs @ ss" xs] by (simp add: journal_get_position_def)
  have sh: "\<not> is_shared memory_file (journal_file j')" "\<not> is_shared memory_file (journal_file (set_file ?g ?j))"
    using es(2) j'(3) g(2) by (auto simp: is_shared_def reader_def reading_def set_file_def)
  have soft: "soft_checkpoint memory_file j' = Inr j'" using pos' by (simp add: soft_checkpoint_def soft_checkpoint_at_def)
  let ?cl = "(server_client v)\<lparr>client_journal := j', connection_checkpoint := checkpoint_position j'\<rparr>"
  have w: "server_client w = (server_client v)\<lparr>client_journal := set_file ?g ?j\<rparr>" using assms(5) by (simp add: file_extended_def)
  have "commit_push memory_env True (int (history_end (es @ xs))) ua w = Next [] (w\<lparr>server_client := ?cl, server_connection := ()\<rparr>)"
    using flags j'(1) es(1) soft sh(2)
    by (simp add: commit_push_def from_outcome_def w client_is_shared_def memory_env_def checkpoint_and_push_def lock_do_checkpoint_def
        lock_push_def client_push_all_def client_push_def do_checkpoint_def dummy_connection_def)
  moreover have "w\<lparr>server_client := ?cl, server_connection := ()\<rparr> = w\<lparr>server_client := ?cl\<rparr>" by simp
  ultimately show ?thesis using that [of ?cl] hold pos' flags sh(1) by simp
qed

text \<open>The end of a push, for a session that holds the lock.\<close>

lemma finish_run:
  assumes "sessions w i = Some s" and "session_locking s" and "push_status s = code" and "push_writer s = Some p" and "client_lock w = Some True"
    and "lock_waiters w = []" and "pull_waiters w = []" and "is_locked w"
    and "from < until \<Longrightarrow> commit_push memory_env True p ua w = Next [] (w\<lparr>server_client := cl\<rparr>)"
    and "\<not> from < until \<Longrightarrow> cl = server_client w"
    and "\<not> is_shared memory_file (journal_file (client_journal cl))"
  shows "push_finish memory_env i ua from until w =
    Next [code] (put_session i (s\<lparr>push_writer := None, session_locking := \<not> ua, first_byte := code, phase := Replying, woken := False\<rparr>)
      (w\<lparr>server_client := cl, is_locked := \<not> ua\<rparr>))"
proof -
  have env: "env_file memory_env = memory_file" by (simp add: memory_env_def)
  let ?v = "w\<lparr>server_client := cl\<rparr>"
  have "(case (push_writer s, client_lock w) of (Some p, Some b) \<Rightarrow> if until > from then commit_push memory_env b p ua w else Next [] w
      | _ \<Rightarrow> Next [] w) = Next [] ?v"
    using assms(4,5,9,10) by simp
  then have "push_finish memory_env i ua from until w =
      and_then (if ua then session_unlock memory_env i (put_session i (s\<lparr>push_writer := None\<rparr>) ?v)
                else Next [] (put_session i (s\<lparr>push_writer := None\<rparr>) ?v)) (\<lambda>v.
      and_then (cancel_timers (pull_waiters v) v) (\<lambda>v.
      let v' = v\<lparr>pull_waiters := []\<rparr> in
      with_session i v' (\<lambda>s'. reply i [push_status s'] (put_session i (s'\<lparr>first_byte := push_status s'\<rparr>) v'))))"
    using assms(1) unfolding push_finish_def with_session_def by (simp add: and_then_def split: served.splits)
  moreover have "(if ua then session_unlock memory_env i (put_session i (s\<lparr>push_writer := None\<rparr>) ?v)
      else Next [] (put_session i (s\<lparr>push_writer := None\<rparr>) ?v)) =
      Next [] (put_session i (s\<lparr>push_writer := None, session_locking := \<not> ua\<rparr>) (?v\<lparr>is_locked := \<not> ua\<rparr>))"
    using assms(1,2,5,6,8,11) by (cases s; cases w) (simp add: session_unlock_def with_session_def put_session_def client_is_shared_def env)
  moreover have "?v\<lparr>pull_waiters := []\<rparr> = ?v" using assms(7) by (cases w) simp
  ultimately show ?thesis
    using assms(3,7) by (cases s) (simp add: with_session_def and_then_def reply_def set_phase_def put_session_def)
qed

lemma file_extended_Nil [simp]: "file_extended [] v = v"
  by (simp add: file_extended_def set_file_def)

lemma sint_size: "p \<le> q \<Longrightarrow> q < 2 ^ 63 \<Longrightarrow> sint (word_of_int (int q - int p) :: 64 word) = int (q - p)"
  using signed_take_bit_int_eq_self [of 63 "int q - int p"] by (simp add: signed_of_int of_nat_diff del: of_int_diff)

lemma push_request_accepted:
  assumes "sessions w i = Some s1" and "\<not> (is_locked w \<and> \<not> session_locking s1)"
    and "(if is_locked w then Next [] w else if session_locking s1 then Throw already_locked w else take_lock E i w) = Next [] u"
    and "sessions u i = Some s2" and "session_locking s2" and "is_writable u" and "client_lock u = Some True"
    and "read_int64 0 bs = server_checkpoint_position u"
  shows "push_request E i ua bs w =
    push_loop E i ua (read_int64 0 bs) (read_int64 8 bs) (sint (word_of_int (read_int64 8 bs - read_int64 0 bs) :: 64 word))
      (put_session i (s2\<lparr>push_status := first_byte s2, push_writer := Some (read_int64 0 bs)\<rparr>) u)"
  using assms(1,2,4-8) unfolding push_request_def with_session_def Let_def by (auto simp: assms(3))

text \<open>A push takes the lock, unless its session holds it.\<close>

lemma push_locks:
  assumes "calm es h v" and "sessions v i = Some s" and "h = None \<or> h = Some i" and "s1 = s\<lparr>phase := ph, woken := False, first_byte := code\<rparr>"
  shows "\<not> (is_locked v \<and> \<not> session_locking s1)"
    and "(if is_locked v then Next [] (put_session i s1 v) else if session_locking s1 then Throw already_locked (put_session i s1 v)
          else take_lock memory_env i (put_session i s1 v)) =
      Next [] (put_session i (s1\<lparr>session_locking := True\<rparr>) (v\<lparr>is_locked := True\<rparr>))"
proof -
  have s: "session_locking s = (h = Some i)" "client_lock v = Some True" "is_locked v = (h \<noteq> None)"
    using assms(1,2) by (auto simp: calm_def)
  then show "\<not> (is_locked v \<and> \<not> session_locking s1)" using assms(3,4) by auto
  show "(if is_locked v then Next [] (put_session i s1 v) else if session_locking s1 then Throw already_locked (put_session i s1 v)
          else take_lock memory_env i (put_session i s1 v)) =
      Next [] (put_session i (s1\<lparr>session_locking := True\<rparr>) (v\<lparr>is_locked := True\<rparr>))"
  proof (cases "h = Some i")
    case True
    then show ?thesis using s assms(4) by (cases s; cases v) (simp add: put_session_def)
  next
    case False
    then have "h = None" using assms(3) by simp
    then show ?thesis using s assms(4) take_held_lock [of "put_session i s1 v" True i s1 memory_env] by (simp add: put_session_def)
  qed
qed

text \<open>A push request from the checkpoint of the server, up to the test of its loop.\<close>

lemma push_accepted:
  assumes "calm es h v" and "sessions v i = Some s" and "h = None \<or> h = Some i" and "history_end es \<le> q" and "q < 2 ^ 63"
    and "code = (if ua then 79 else 78)"
  shows "server_step memory_env i (Received [code]) v = Next [] (put_session i (s\<lparr>phase := Pushing ua, woken := False, first_byte := code\<rparr>) v)"
    and "complete memory_env i (Received (int64_bytes (int (history_end es)) @ int64_bytes (int q)))
        (put_session i (s\<lparr>phase := Pushing ua, woken := False, first_byte := code\<rparr>) v) =
      push_loop memory_env i ua (int (history_end es)) (int q) (int (q - history_end es))
        (put_session i (s\<lparr>phase := Running, woken := False, first_byte := code, session_locking := True, push_status := code,
           push_writer := Some (int (history_end es))\<rparr>) (v\<lparr>is_locked := True\<rparr>))"
proof -
  have s: "phase s = Idle" "session_locking s = (h = Some i)" "client_lock v = Some True" "is_locked v = (h \<noteq> None)" "is_writable v"
    using assms(1,2) by (auto simp: calm_def)
  have ck: "server_checkpoint_position v = int (history_end es)" by (rule calm_checkpoint [OF assms(1)])
  show "server_step memory_env i (Received [code]) v = Next [] (put_session i (s\<lparr>phase := Pushing ua, woken := False, first_byte := code\<rparr>) v)"
    using s(1) assms(2,6) by (cases s) (simp add: step_simps put_session_def)
  let ?args = "int64_bytes (int (history_end es)) @ int64_bytes (int q)"
  let ?s = "s\<lparr>phase := Running, woken := False, first_byte := code\<rparr>"
  let ?w = "put_session i ?s v" and ?v = "v\<lparr>is_locked := True\<rparr>"
  let ?s2 = "s\<lparr>phase := Running, woken := False, first_byte := code, session_locking := True\<rparr>"
  have "history_end es < 2 ^ 63" using assms(4,5) by linarith
  then have args: "read_int64 0 ?args = int (history_end es)" "read_int64 8 ?args = int q"
    using read_int64_args [of "int (history_end es)" "int q"] assms(5) by simp_all
  have lock: "\<not> (is_locked ?w \<and> \<not> session_locking ?s)"
    "(if is_locked ?w then Next [] ?w else if session_locking ?s then Throw already_locked ?w else take_lock memory_env i ?w) =
      Next [] (put_session i ?s2 ?v)"
    using push_locks [OF assms(1-3), of ?s code Running] by (simp_all add: put_session_def)
  from push_request_accepted [OF _ lock, of ?s2 ?args ua] s(3,5) ck args(1) sint_size [OF assms(4,5)]
  have "push_request memory_env i ua ?args ?w =
      push_loop memory_env i ua (int (history_end es)) (int q) (int (q - history_end es))
        (put_session i (?s2\<lparr>push_status := code, push_writer := Some (int (history_end es))\<rparr>) (put_session i ?s2 ?v))"
    unfolding args by simp
  moreover have "put_session i (?s2\<lparr>push_status := code, push_writer := Some (int (history_end es))\<rparr>) (put_session i ?s2 ?v) =
      put_session i (s\<lparr>phase := Running, woken := False, first_byte := code, session_locking := True, push_status := code,
           push_writer := Some (int (history_end es))\<rparr>) ?v" by (simp add: put_session_def)
  moreover have "put_session i ((s\<lparr>phase := Pushing ua, woken := False, first_byte := code\<rparr>)\<lparr>phase := Running\<rparr>)
      (put_session i (s\<lparr>phase := Pushing ua, woken := False, first_byte := code\<rparr>) v) = ?w" by (cases s) (simp add: put_session_def)
  ultimately show "complete memory_env i (Received ?args) (put_session i (s\<lparr>phase := Pushing ua, woken := False, first_byte := code\<rparr>) v) =
      push_loop memory_env i ua (int (history_end es)) (int q) (int (q - history_end es))
        (put_session i (s\<lparr>phase := Running, woken := False, first_byte := code, session_locking := True, push_status := code,
           push_writer := Some (int (history_end es))\<rparr>) ?v)"
    unfolding complete_def with_session_def by simp
qed

lemma push_run:
  assumes "calm es h v" and "sessions v i = Some s" and "h = None \<or> h = Some i" and "list_all event_fits xs" and "history_end (es @ xs) < 2 ^ 63"
    and "bs = history_bytes (history_context initial_context es) xs" and "code = (if ua then 79 else 78)"
  obtains v' where "session_run i v (code # int64_bytes (int (history_end es)) @ int64_bytes (int (history_end (es @ xs))) @ bs) [code] v'"
    and "calm (es @ xs) (if ua then None else Some i) v'" and "dom (sessions v') = dom (sessions v)"
proof -
  let ?p = "history_end es" and ?q = "history_end (es @ xs)" and ?v = "v\<lparr>is_locked := True\<rparr>"
  let ?s = "s\<lparr>phase := Running, woken := False, first_byte := code, session_locking := True, push_status := code, push_writer := Some (int ?q)\<rparr>"
  have q: "?q = ?p + length bs" using assms(6) by (simp add: history_append)
  have pq: "?p \<le> ?q" "?q - ?p = length bs" using q by simp_all
  note acc = push_accepted [OF assms(1-3) pq(1) assms(5,7)]
  obtain hs ss where "es = hs @ ss" "stored hs ss [] (data (journal_file (server_journal v)))"
    using assms(1) by (auto simp: calm_def server_holds_def)
  then have len: "length (data (journal_file (server_journal v))) = ?p" using stored_length [of hs ss "[]"] by simp
  let ?w = "put_session i ?s (file_extended bs ?v)"
  have calmv: "client_lock v = Some True" "lock_waiters v = []" "pull_waiters v = []" "is_writable v"
    using assms(1) by (auto simp: calm_def)
  have "\<exists>cl. (int ?p < int ?q \<longrightarrow> commit_push memory_env True (int ?q) ua ?w = Next [] (?w\<lparr>server_client := cl\<rparr>)) \<and>
      (\<not> int ?p < int ?q \<longrightarrow> cl = server_client ?w) \<and> server_holds memory_file data (es @ xs) (client_journal cl) \<and>
      journal_get_position (client_journal cl) \<le> checkpoint_position (client_journal cl) \<and>
      \<not> use_valid_data cl \<and> \<not> use_timestamp cl \<and> \<not> use_hard_checkpoint cl \<and> \<not> is_shared memory_file (journal_file (client_journal cl))"
  proof (cases "bs = []")
    case True
    then have "xs = []" using history_bytes_Nil_iff [of xs "history_context initial_context es"] assms(4,6) by simp
    then show ?thesis
      using True assms(1) calm_not_shared [OF assms(1)] by (intro exI [of _ "server_client v"]) (auto simp: calm_def client_is_shared_def memory_env_def)
  next
    case False
    have w: "server_client ?w = server_client (file_extended bs v)" "server_connection ?w = server_connection v" by (simp_all add: file_extended_def)
    obtain cl where
      "commit_push memory_env True (int ?q) ua ?w = Next [] (?w\<lparr>server_client := cl\<rparr>)"
      "server_holds memory_file data (es @ xs) (client_journal cl)"
      "journal_get_position (client_journal cl) \<le> checkpoint_position (client_journal cl)"
      "\<not> use_valid_data cl" "\<not> use_timestamp cl" "\<not> use_hard_checkpoint cl" "\<not> is_shared memory_file (journal_file (client_journal cl))"
      by (rule commit_run [OF assms(1,4,5,6) w, of ua])
    moreover have "int ?p < int ?q" using False q by simp
    ultimately show ?thesis by blast
  qed
  then obtain cl where cl: "int ?p < int ?q \<longrightarrow> commit_push memory_env True (int ?q) ua ?w = Next [] (?w\<lparr>server_client := cl\<rparr>)"
    "\<not> int ?p < int ?q \<longrightarrow> cl = server_client ?w" "server_holds memory_file data (es @ xs) (client_journal cl)"
    "journal_get_position (client_journal cl) \<le> checkpoint_position (client_journal cl)"
    "\<not> use_valid_data cl" "\<not> use_timestamp cl" "\<not> use_hard_checkpoint cl" "\<not> is_shared memory_file (journal_file (client_journal cl))"
    by blast
  let ?t = "?s\<lparr>push_writer := None, session_locking := \<not> ua, first_byte := code, phase := Replying, woken := False\<rparr>"
  let ?u = "put_session i ?t (?w\<lparr>server_client := cl, is_locked := \<not> ua\<rparr>)"
  have fin: "push_finish memory_env i ua (int ?p) (int ?q) ?w = Next [code] ?u"
    by (rule finish_run) (use cl calmv in simp_all)
  let ?v' = "put_session i (?t\<lparr>phase := Idle\<rparr>) ?u"
  have "server_step memory_env i Written ?u = Next [] ?v'" by (cases s) (simp add: step_simps put_session_def)
  from session_run.written [OF _ _ this session_run.stay, of ?t] have reply: "session_run i ?u [] [] ?v'" by simp
  let ?s1 = "s\<lparr>phase := Pushing ua, woken := False, first_byte := code\<rparr>"
  let ?args = "int64_bytes (int ?p) @ int64_bytes (int ?q)"
  have "session_run i (put_session i ?s1 v) (?args @ bs) [code] ?v'"
  proof (cases "bs = []")
    case True
    then have "?w = put_session i (?s\<lparr>push_writer := Some (int ?p)\<rparr>) ?v" using pq by simp
    then have "server_step memory_env i (Received ?args) (put_session i ?s1 v) = Next [code] ?u"
      using acc(2) fin True pq(2) by (simp add: server_step_def push_loop_def)
    from session_run.receive [OF _ _ _ this reply, of ?s1] show ?thesis using True by (simp add: expected_def)
  next
    case False
    let ?s2 = "?s\<lparr>phase := Receiving ua (int ?p) (int ?q) (int (length bs)), push_writer := Some (int ?p)\<rparr>"
    have "server_step memory_env i (Received ?args) (put_session i ?s1 v) = Next [] (put_session i ?s2 ?v)"
      using acc(2) [unfolded pq(2)] False
      by (cases s) (simp add: server_step_def push_loop_def set_phase_def with_session_def put_session_def)
    moreover have "session_run i (put_session i ?s2 ?v) bs ([code] @ []) ?v'"
    proof (rule receive_run [where s = ?s2, OF _ _ False _ _ _ reply])
      have "put_session i (?s2\<lparr>phase := Running, push_writer := Some (int (length (data (journal_file (server_journal (put_session i ?s2 ?v))) @ bs)))\<rparr>)
          (file_extended bs (put_session i ?s2 ?v)) = ?w"
        using len q by (cases s; cases v) (simp add: add.assoc put_session_def file_extended_def set_file_def)
      with fin show "push_finish memory_env i ua (int ?p) (int ?q) (put_session i (?s2\<lparr>phase := Running,
          push_writer := Some (int (length (data (journal_file (server_journal (put_session i ?s2 ?v))) @ bs)))\<rparr>)
          (file_extended bs (put_session i ?s2 ?v))) = Next [code] ?u" by (simp only:)
    qed (use len in simp_all)
    ultimately show ?thesis
      using session_run.receive [of "put_session i ?s1 v" i ?s1 ?args "[]" "put_session i ?s2 ?v" bs "[code]" ?v'] by (simp add: expected_def)
  qed
  from session_run.receive [OF assms(2) _ _ acc(1) this] assms(1,2)
  have "session_run i v (code # ?args @ bs) [code] ?v'" by (auto simp: expected_def calm_def)
  moreover have "calm (es @ xs) (if ua then None else Some i) ?v'"
    using assms(1-3) cl(3-7) calmv by (auto simp: calm_def put_session_def)
  ultimately show ?thesis using that [of ?v'] assms(2) by (auto simp: put_session_def)
qed

section \<open>Conflicts\<close>

text \<open>The data of a push that is refused is received and dropped.\<close>

lemma drop_run:
  assumes "sessions v i = Some s" and "phase s = Receiving ua p q (int (length bs))" and "bs \<noteq> []" and "\<not> woken s" and "push_writer s = None"
    and "push_finish memory_env i ua p q (put_session i (s\<lparr>phase := Running\<rparr>) v) = Next out v1" and "session_run i v1 [] outs v'"
  shows "session_run i v bs (out @ outs) v'"
  using assms(1-6)
proof (induction "length bs" arbitrary: v s bs rule: less_induct)
  case less
  define k where "k = min (length bs) session_buffer_size"
  have k: "0 < k" "k \<le> length bs" using less.prems(3) by (auto simp: k_def)
  have ex: "expected (phase s) = Some (length (take k bs))" using less.prems(2) k by (simp add: expected_def k_def min_def)
  have piece: "complete memory_env i (Received (take k bs)) v =
      push_loop memory_env i ua p q (int (length bs) - int (length (take k bs))) (put_session i (s\<lparr>phase := Running\<rparr>) v)"
    using less.prems(1,2,5) unfolding complete_def push_receive_def with_session_def by (simp add: and_then_def put_session_def split: served.splits)
  show ?case
  proof (cases "k = length bs")
    case True
    then have "server_step memory_env i (Received bs) v = Next out v1" using piece less.prems(6) by (simp add: push_loop_def server_step_def)
    from session_run.receive [OF less.prems(1) _ less.prems(3) this assms(7)] ex True show ?thesis by simp
  next
    case False
    let ?s1 = "s\<lparr>phase := Receiving ua p q (int (length (drop k bs)))\<rparr>"
    have "server_step memory_env i (Received (take k bs)) v = Next [] (put_session i ?s1 v)"
      using piece False k less.prems(4)
      by (cases s) (simp add: server_step_def push_loop_def set_phase_def with_session_def put_session_def of_nat_diff)
    moreover have "session_run i (put_session i ?s1 v) (drop k bs) (out @ outs) v'"
      by (rule less.hyps [where s = ?s1]) (use k False less.prems(4-6) in auto)
    ultimately show ?thesis
      using session_run.receive [OF less.prems(1) ex, of "[]" "put_session i ?s1 v" "drop k bs"] k less.prems(3) by simp
  qed
qed

lemma push_request_refused:
  assumes "sessions w i = Some s1" and "\<not> (is_locked w \<and> \<not> session_locking s1)"
    and "(if is_locked w then Next [] w else if session_locking s1 then Throw already_locked w else take_lock E i w) = Next [] u"
    and "sessions u i = Some s2" and "is_writable u" and "read_int64 0 bs \<noteq> server_checkpoint_position u"
  shows "push_request E i ua bs w =
    push_loop E i ua (read_int64 0 bs) (read_int64 8 bs) (sint (word_of_int (read_int64 8 bs - read_int64 0 bs) :: 64 word))
      (put_session i (s2\<lparr>push_status := 67, push_writer := None\<rparr>) u)"
  using assms(1,2,4-6) unfolding push_request_def with_session_def Let_def by (auto simp: assms(3))

lemma finish_refused:
  assumes "calm es h v" and "sessions v i = Some s" and "session_locking s1" and "push_status s1 = 67" and "push_writer s1 = None"
  shows "push_finish memory_env i ua from until (put_session i s1 (v\<lparr>is_locked := True\<rparr>)) =
    Next [67] (put_session i (s1\<lparr>session_locking := \<not> ua, first_byte := 67, phase := Replying, woken := False\<rparr>) (v\<lparr>is_locked := \<not> ua\<rparr>))"
proof -
  have env: "env_file memory_env = memory_file" by (simp add: memory_env_def)
  have ns: "\<not> is_shared memory_file (journal_file (server_journal v))"
    using calm_not_shared [OF assms(1)] by (simp add: client_is_shared_def env)
  have c: "client_lock v = Some True" "lock_waiters v = []" "pull_waiters v = []" using assms(1) by (auto simp: calm_def)
  let ?w = "put_session i s1 (v\<lparr>is_locked := True\<rparr>)"
  have "push_finish memory_env i ua from until ?w =
      and_then (if ua then session_unlock memory_env i ?w else Next [] ?w) (\<lambda>v.
      and_then (cancel_timers (pull_waiters v) v) (\<lambda>v.
      let v' = v\<lparr>pull_waiters := []\<rparr> in
      with_session i v' (\<lambda>s'. reply i [push_status s'] (put_session i (s'\<lparr>first_byte := push_status s'\<rparr>) v'))))"
    using assms(5) unfolding push_finish_def with_session_def by (cases s1) (simp add: and_then_def put_session_def split: served.splits)
  moreover have "(if ua then session_unlock memory_env i ?w else Next [] ?w) =
      Next [] (put_session i (s1\<lparr>session_locking := \<not> ua\<rparr>) (v\<lparr>is_locked := \<not> ua\<rparr>))"
    using assms(3) c ns by (cases s1; cases v) (simp add: session_unlock_def with_session_def put_session_def client_is_shared_def env)
  ultimately show ?thesis
    using assms(4) c by (cases s1; cases v) (simp add: with_session_def and_then_def reply_def set_phase_def put_session_def)
qed

lemma conflict_run:
  assumes "calm es h v" and "sessions v i = Some s" and "h = None \<or> h = Some i" and "from \<noteq> int (history_end es)"
    and "0 \<le> from" and "until = from + int (length bs)" and "until < 2 ^ 63" and "code = (if ua then 79 else 78)"
  obtains v' where "session_run i v (code # int64_bytes from @ int64_bytes until @ bs) [67] v'" and "idle_at i v'"
proof -
  let ?v = "v\<lparr>is_locked := True\<rparr>" and ?args = "int64_bytes from @ int64_bytes until"
  let ?s1 = "s\<lparr>phase := Pushing ua, woken := False, first_byte := code\<rparr>"
  let ?s2 = "s\<lparr>phase := Running, woken := False, first_byte := code, session_locking := True, push_status := 67, push_writer := None\<rparr>"
  have s: "phase s = Idle" "is_writable v" using assms(1,2) by (auto simp: calm_def)
  have ck: "server_checkpoint_position v = int (history_end es)" by (rule calm_checkpoint [OF assms(1)])
  have args: "read_int64 0 ?args = from" "read_int64 8 ?args = until" using read_int64_args [of "from" until] assms(5-7) by simp_all
  have "sint (word_of_int (until - from) :: 64 word) = int (length bs)"
    using signed_take_bit_int_eq_self [of 63 "int (length bs)"] assms(5-7) by (simp add: signed_of_int del: of_int_of_nat_eq)
  note args = args this
  have 1: "server_step memory_env i (Received [code]) v = Next [] (put_session i ?s1 v)"
    using s(1) assms(2,8) by (cases s) (simp add: step_simps put_session_def)
  let ?w = "put_session i (s\<lparr>phase := Running, woken := False, first_byte := code\<rparr>) v"
  let ?s = "s\<lparr>phase := Running, woken := False, first_byte := code\<rparr>"
  have lock: "\<not> (is_locked ?w \<and> \<not> session_locking ?s)"
    "(if is_locked ?w then Next [] ?w else if session_locking ?s then Throw already_locked ?w else take_lock memory_env i ?w) =
      Next [] (put_session i (?s\<lparr>session_locking := True\<rparr>) ?v)"
    using push_locks [OF assms(1-3), of ?s code Running] by (simp_all add: put_session_def)
  from push_request_refused [OF _ lock, of "?s\<lparr>session_locking := True\<rparr>" ?args ua] s(2) ck args assms(4)
  have "push_request memory_env i ua ?args ?w = push_loop memory_env i ua from until (int (length bs)) (put_session i ?s2 ?v)"
    by (simp add: put_session_def)
  moreover have "put_session i (?s1\<lparr>phase := Running\<rparr>) (put_session i ?s1 v) = ?w" by (cases s) (simp add: put_session_def)
  ultimately have acc: "complete memory_env i (Received ?args) (put_session i ?s1 v) =
      push_loop memory_env i ua from until (int (length bs)) (put_session i ?s2 ?v)"
    unfolding complete_def with_session_def by simp
  let ?t = "?s2\<lparr>session_locking := \<not> ua, first_byte := 67, phase := Replying, woken := False\<rparr>"
  let ?u = "put_session i ?t (v\<lparr>is_locked := \<not> ua\<rparr>)"
  have fin: "push_finish memory_env i ua from until (put_session i ?s2 ?v) = Next [67] ?u"
    by (rule finish_refused [OF assms(1,2)]) simp_all
  let ?v' = "put_session i (?t\<lparr>phase := Idle\<rparr>) ?u"
  have "server_step memory_env i Written ?u = Next [] ?v'" by (cases s) (simp add: step_simps put_session_def)
  from session_run.written [OF _ _ this session_run.stay, of ?t] have rep: "session_run i ?u [] [] ?v'" by simp
  have "session_run i (put_session i ?s1 v) (?args @ bs) [67] ?v'"
  proof (cases "bs = []")
    case True
    then have "server_step memory_env i (Received ?args) (put_session i ?s1 v) = Next [67] ?u"
      using acc fin by (simp add: server_step_def push_loop_def)
    from session_run.receive [OF _ _ _ this rep, of ?s1] show ?thesis using True by (simp add: expected_def)
  next
    case False
    let ?s3 = "?s2\<lparr>phase := Receiving ua from until (int (length bs))\<rparr>"
    have "server_step memory_env i (Received ?args) (put_session i ?s1 v) = Next [] (put_session i ?s3 ?v)"
      using acc False by (cases s) (simp add: server_step_def push_loop_def set_phase_def with_session_def put_session_def)
    moreover have "session_run i (put_session i ?s3 ?v) bs ([67] @ []) ?v'"
    proof (rule drop_run [where s = ?s3, OF _ _ False _ _ _ rep])
      show "push_finish memory_env i ua from until (put_session i (?s3\<lparr>phase := Running\<rparr>) (put_session i ?s3 ?v)) = Next [67] ?u"
        using fin by (cases s) simp
    qed simp_all
    ultimately show ?thesis
      using session_run.receive [of "put_session i ?s1 v" i ?s1 ?args "[]" "put_session i ?s3 ?v" bs "[67]" ?v'] by (simp add: expected_def)
  qed
  from session_run.receive [OF assms(2) _ _ 1 this] s(1) have "session_run i v (code # ?args @ bs) [67] ?v'" by (simp add: expected_def)
  moreover have "idle_at i ?v'" by (simp add: idle_at_def put_session_def expected_def)
  ultimately show ?thesis using that [of ?v'] by simp
qed

end
