(* ===== verification/Remote.thy ===== *)
theory Remote
  imports Session_Runs
begin

text \<open>
  Clients of one server over the network of \<open>Network\<close>: what the operations of \<open>Server_Connection\<close>
  return, and that they keep the contract of a connection, so that clients over the network are used
  as clients of a file are.
\<close>

section \<open>Requests in several pieces\<close>

lemma pieces_net:
  assumes "leads i (feed i (concat ps) n) n'" and "net_step i n = None" and "net_step i n' = None"
  shows "fold_result (channel_write (net_channel grain i)) ps n = Inr n'"
  using assms
proof (induction ps arbitrary: n)
  case Nil
  then have "net_settle i n = Some n'" using settle_leads [of i n n'] by simp
  moreover have "net_settle i n = Some n" using Nil(2) by (subst net_settle.simps) simp
  ultimately show ?case by simp
next
  case (Cons bs ps)
  have "feed i (concat (bs # ps)) n = feed i (concat ps) (feed i bs n)" by simp
  from leads_split [OF Cons.prems(1) this Cons.prems(3)] obtain m where
    m: "leads i (feed i bs n) m" "net_step i m = None" "leads i (feed i (concat ps) m) n'" by blast
  from channel_write_net [OF m(1) Cons.prems(2) m(2)] Cons.IH [OF m(3,2) Cons.prems(3)] show ?case by simp
qed

lemma pieces_request:
  assumes "session_run i (net_server n) (concat ps) outs v'" and "idle_at i (net_server n)" and "idle_at i v'" and "to_server n i = []"
  shows "fold_result (channel_write (net_channel grain i)) ps n = Inr (exchanged i v' [] outs n)"
proof (rule pieces_net)
  show "leads i (feed i (concat ps) n) (exchanged i v' [] outs n)"
    using session_run_leads [OF assms(1), of "feed i (concat ps) n"] assms(4) by simp
  show "net_step i n = None" by (rule idle_stuck [OF assms(2,4)])
  show "net_step i (exchanged i v' [] outs n) = None" by (rule idle_stuck) (use assms(3) in simp_all)
qed

context readable_file
begin

text \<open>\<open>push_data\<close> writes its prefix and the range of the file.\<close>

lemma push_data_pieces:
  assumes "0 \<le> reader_current r" and "reader_current r \<le> reader_end r" and "reader_end r \<le> int (length (content f))" and "\<not> end_of_file r"
    and "length prefix < session_buffer_size"
  shows "\<exists>ps. concat ps = prefix @ take (nat (get_remaining r)) (drop (nat (reader_current r)) (content f)) \<and>
    (\<forall>n. push_data F C f prefix r n = fold_result (channel_write C) ps n)"
  using assms
proof (induction "length prefix + nat (get_remaining r)" arbitrary: prefix r rule: less_induct)
  case less
  show ?case
  proof (cases "int (length prefix) + get_remaining r > 0")
    case False
    moreover have "0 \<le> get_remaining r" using less.prems(2) by (simp add: get_remaining_def)
    ultimately have "int (length prefix) = 0" "get_remaining r = 0" by linarith+
    then show ?thesis by (intro exI [of _ "[]"]) (simp add: push_data.simps)
  next
    case True
    define k where "k = min (session_buffer_size - length prefix) (nat (get_remaining r))"
    let ?bs = "take k (drop (nat (reader_current r)) (content f))" and ?r = "r\<lparr>reader_current := reader_current r + int k\<rparr>"
    have read: "async_read F f (session_buffer_size - length prefix) r = Inr (?bs, ?r)"
      using async_read_law [OF less.prems(1,3,2,4)] by (simp add: k_def Let_def)
    have rem: "get_remaining ?r = get_remaining r - int k" "int k \<le> get_remaining r"
      using less.prems(2) by (simp_all add: get_remaining_def k_def)
    have dec: "nat (get_remaining ?r) < length prefix + nat (get_remaining r)"
      using True rem less.prems(5) by (auto simp: k_def min_def split: if_splits)
    have "\<exists>ps. concat ps = [] @ take (nat (get_remaining ?r)) (drop (nat (reader_current ?r)) (content f)) \<and>
        (\<forall>n. push_data F C f [] ?r n = fold_result (channel_write C) ps n)"
      by (rule less.hyps) (use dec rem less.prems in \<open>simp_all add: get_remaining_def\<close>)
    then obtain ps where ps: "concat ps = take (nat (get_remaining ?r)) (drop (nat (reader_current ?r)) (content f))"
      "\<And>n. push_data F C f [] ?r n = fold_result (channel_write C) ps n" by auto
    have "push_data F C f prefix r n = fold_result (channel_write C) ((prefix @ ?bs) # ps) n" for n
    proof -
      have "push_data F C f prefix r n = bind_result (channel_write C (prefix @ ?bs) n) (push_data F C f [] ?r)"
        using True read less.prems(4) by (subst push_data.simps) simp
      moreover have "push_data F C f [] ?r = fold_result (channel_write C) ps" using ps(2) by blast
      ultimately show ?thesis by simp
    qed
    moreover have "?bs @ concat ps = take (nat (get_remaining r)) (drop (nat (reader_current r)) (content f))"
      using take_add [of k "nat (get_remaining ?r)" "drop (nat (reader_current r)) (content f)"] less.prems(1) rem
      by (simp add: ps(1) nat_add_distrib add.commute nat_diff_distrib)
    ultimately show ?thesis by (intro exI [of _ "(prefix @ ?bs) # ps"]) simp
  qed
qed

text \<open>When the file ends before the range does, the push fails.\<close>

lemma async_read_short:
  assumes "0 \<le> reader_current r" and "nat (reader_current r) + sz > length (content f)" and "0 < sz"
  shows "\<exists>bs r'. async_read_loop F f sz r = Inr (bs, r') \<and> end_of_file r'"
  using assms
proof (induction sz arbitrary: r rule: less_induct)
  case (less sz)
  obtain bs where bs: "checked_pread F sz (reader_current r) f = Inr bs" "length bs \<le> sz"
    "nat (reader_current r) + length bs \<le> max (nat (reader_current r)) (length (content f))"
    by (rule checked_pread_law [OF less.prems(1), of sz f])
  show ?case
  proof (cases "bs = []")
    case True
    then show ?thesis using bs(1) less.prems(3) by (simp add: async_read_loop.simps [of F f sz])
  next
    case False
    let ?r = "r\<lparr>end_of_file := False, reader_current := reader_current r + int (length bs)\<rparr>"
    have "length bs < sz" using False bs(2,3) less.prems(2) by (auto simp: max_def split: if_splits)
    then have "\<exists>as r'. async_read_loop F f (sz - length bs) ?r = Inr (as, r') \<and> end_of_file r'"
      using less.prems False by (intro less.IH) (auto simp: nat_add_distrib)
    then show ?thesis using bs(1) False less.prems(3) by (auto simp: async_read_loop.simps [of F f sz])
  qed
qed

lemma push_data_short:
  assumes "0 \<le> reader_current r" and "int (length (content f)) < reader_end r" and "reader_current r < reader_end r" and "\<not> end_of_file r"
    and "length prefix < session_buffer_size"
  shows "push_data F C f prefix r n \<noteq> Inr n'"
  using assms
proof (induction "length prefix + nat (get_remaining r)" arbitrary: prefix r n rule: less_induct)
  case less
  define k where "k = min (session_buffer_size - length prefix) (nat (get_remaining r))"
  have k: "0 < k" "int k \<le> get_remaining r" "0 < get_remaining r" using less.prems(3,5) by (simp_all add: k_def get_remaining_def)
  have read: "async_read F f (session_buffer_size - length prefix) r = async_read_loop F f k r" by (simp add: async_read_def k_def)
  show ?case
  proof (cases "nat (reader_current r) + k > length (content f)")
    case True
    from async_read_short [OF less.prems(1) this k(1)] obtain bs r' where "async_read_loop F f k r = Inr (bs, r')" "end_of_file r'" by blast
    then show ?thesis using read k(3) by (simp add: push_data.simps [of F C f prefix])
  next
    case False
    let ?bs = "take k (drop (nat (reader_current r)) (content f))" and ?r = "r\<lparr>reader_current := reader_current r + int k\<rparr>"
    have "async_read_loop F f k r = Inr (?bs, ?r)" by (rule async_read_loop_law [OF less.prems(1) _ less.prems(4)]) (use False in simp)
    then have *: "push_data F C f prefix r n = bind_result (channel_write C (prefix @ ?bs) n) (push_data F C f [] ?r)"
      using read k(3) less.prems(4) by (simp add: push_data.simps [of F C f prefix])
    have "push_data F C f [] ?r m \<noteq> Inr n'" for m
      by (rule less.hyps) (use less.prems False k in \<open>auto simp: get_remaining_def\<close>)
    then show ?thesis unfolding * by (cases "channel_write C (prefix @ ?bs) n") simp_all
  qed
qed

end

lemma push_data_empty:
  assumes "get_remaining r = 0" and "\<not> end_of_file r" and "prefix \<noteq> []"
  shows "push_data F C f prefix r n = fold_result (channel_write C) [prefix] n"
proof -
  have "async_read F f c r = Inr ([], r)" for c using assms(1) by (simp add: async_read_def async_read_loop.simps)
  moreover have "push_data F C f [] r = Inr" using assms(1) by (simp add: fun_eq_iff push_data.simps)
  moreover have "fold_result (channel_write C) [] = Inr" by (simp add: fun_eq_iff)
  ultimately show ?thesis using assms by (subst push_data.simps) simp
qed

section \<open>Downloads\<close>

context file_contract
begin

lemma download_law:
  assumes "d \<le> sz" and "p \<le> length (content f)" and "sz - d \<le> length (to_client n i)"
  shows "\<exists>f'. download F (net_channel grain i) (int sz) (int d) f (int p) n = Inr (f', int (p + (sz - d)), drain i (sz - d) n) \<and>
    content f' = patch (content f) p (take (sz - d) (to_client n i)) \<and> get_mode F f' = get_mode F f"
  using assms
proof (induction "sz - d" arbitrary: d p f n rule: less_induct)
  case less
  show ?case
  proof (cases "d = sz")
    case True
    then show ?thesis by (simp add: download.simps)
  next
    case False
    let ?asked = "nat (min (int session_buffer_size) (int sz - int d))"
    have asked: "0 < ?asked" "?asked \<le> sz - d" using False less.prems(1) by auto
    then have "to_client n i \<noteq> []" using less.prems(3) by auto
    from read_some_net [of ?asked n i grain, OF asked(1) this] obtain k where
      k: "0 < k" "k \<le> ?asked" "k \<le> length (to_client n i)"
      "read_some_bytes (net_channel grain i) ?asked n = Inr (take k (to_client n i), drain i k n)" by blast
    let ?bs = "take k (to_client n i)"
    have len: "length ?bs = k" using k(3) by simp
    obtain g where g: "pwrite F ?bs (int p) f = Inr g" "content g = patch (content f) p ?bs" "get_mode F g = get_mode F f"
      using pwrite_law [of "int p" f ?bs] less.prems(2) by auto
    have "sz - (d + k) < sz - d" "d + k \<le> sz" "p + k \<le> length (content g)" "sz - (d + k) \<le> length (to_client (drain i k n) i)"
      using k asked(2) False less.prems g(2) by (auto simp: length_patch)
    from less.hyps [OF this] obtain f' where f':
      "download F (net_channel grain i) (int sz) (int (d + k)) g (int (p + k)) (drain i k n) =
         Inr (f', int (p + k + (sz - (d + k))), drain i (sz - (d + k)) (drain i k n))"
      "content f' = patch (content g) (p + k) (take (sz - (d + k)) (to_client (drain i k n) i))" "get_mode F f' = get_mode F g" by blast
    have "download F (net_channel grain i) (int sz) (int d) f (int p) n = Inr (f', int (p + (sz - d)), drain i (sz - d) n)"
      using k(4) g(1) f'(1) len False less.prems(1) \<open>d + k \<le> sz\<close>
      by (subst download.simps) (simp add: async_write_def of_nat_diff add.assoc)
    moreover have "?bs @ take (sz - (d + k)) (drop k (to_client n i)) = take (sz - d) (to_client n i)"
      using take_add [of k "sz - (d + k)" "to_client n i"] \<open>d + k \<le> sz\<close> by simp
    ultimately show ?thesis
      using f'(2,3) g(2,3) patch_patch [OF less.prems(2), of ?bs] len by auto
  qed
qed

end

end
