(* ===== verification/Remote_Contract.thy ===== *)
theory Remote_Contract
  imports Remote
begin

text \<open>
  The operations of a connection over the network, on a calm server, and the contract of
  \<open>Client_Proofs\<close> for the connections of all clients.
\<close>

section \<open>Requests and replies\<close>

definition silent :: "Network \<Rightarrow> bool" where
  "silent n \<longleftrightarrow> to_server n = (\<lambda>_. []) \<and> to_client n = (\<lambda>_. [])"

lemma silent_simps [simp]:
  "silent n \<Longrightarrow> to_server n i = []" "silent n \<Longrightarrow> to_client n i = []"
  "silent n \<Longrightarrow> exchanged i v [] [] n = n\<lparr>net_server := v\<rparr>" "silent (n\<lparr>net_server := v\<rparr>) = silent n"
  by (auto simp: silent_def exchanged_def fun_eq_iff)

lemma reply_read:
  assumes "silent n" and "k \<le> length outs"
  shows "channel_read (net_channel grain i) k (exchanged i v [] outs n) = Inr (take k outs, exchanged i v [] (drop k outs) n)"
  using channel_read_net [of k "exchanged i v [] outs n" i grain] assms by (simp add: exchanged_def drain_def)

lemma request_reply:
  assumes "session_run i (net_server n) ins outs v'" and "idle_at i (net_server n)" and "idle_at i v'" and "silent n"
  shows "channel_write (net_channel grain i) ins n = Inr (exchanged i v' [] outs n)"
  by (rule request_net [OF assms(1-3)]) (use assms(4) in simp)

lemma read_int64_cons: "- (2 ^ 63) \<le> x \<Longrightarrow> x < 2 ^ 63 \<Longrightarrow> read_int64 1 (b # int64_bytes x) = x"
  using read_int64_bytes [of x "[b]" 1 "[]"] by simp

lemma resting_idle: "idle_at i (resting i b l s v)"
  by (simp add: idle_at_def resting_def put_session_def expected_def)

section \<open>The operations\<close>

lemma remote_unlock_law:
  assumes "calm es h (net_server n)" and "sessions (net_server n) i = Some s" and "h = None \<or> h = Some i" and "silent n" and "client_channel p = n"
  shows "server_unlock (net_channel grain i) p = Inr (p\<lparr>client_channel := n\<lparr>net_server := resting i 77 False s (net_server n)\<rparr>\<rparr>)"
proof -
  have "channel_write (net_channel grain i) [77] n = Inr (exchanged i (resting i 77 False s (net_server n)) [] [77] n)"
    by (rule request_reply [OF unlock_run [OF assms(1-3)] calm_idle [OF assms(1,2)] resting_idle assms(4)])
  then show ?thesis
    using reply_read [OF assms(4), of 1 "[77]" grain i] assms(4,5) by (simp add: server_unlock_def)
qed

context file_contract
begin

lemma server_pull_steps:
  assumes "channel_write C (pull_type lock With_Data # int64_bytes 0 @ int64_bytes (checkpoint_position j)) (client_channel p) = Inr n1"
    and "channel_read C 9 n1 = Inr (pull_type lock With_Data # int64_bytes q, n2)" and "read_int64 1 (pull_type lock With_Data # int64_bytes q) = q"
    and "download F C (q - checkpoint_position j) 0 (journal_file j) (checkpoint_position j) n2 = Inr (f, q, n3)"
    and "soft_checkpoint_at F q (set_file f j) = Inr j'"
  shows "server_pull F C lock With_Data j 0 p = Inr (q, j', p\<lparr>client_channel := n3, server_checkpoint := q\<rparr>)"
proof -
  have "pull_type lock With_Data \<noteq> 82" by (simp add: pull_type_def)
  then show ?thesis using assms unfolding server_pull_def by (simp add: Let_def)
qed

lemma download_reply:
  assumes "silent n" and "length (content f) = p"
  shows "\<exists>f'. download F (net_channel grain i) (int (length bs)) 0 f (int p) (exchanged i v [] bs n) =
      Inr (f', int (p + length bs), n\<lparr>net_server := v\<rparr>) \<and> content f' = content f @ bs \<and> get_mode F f' = get_mode F f"
proof -
  have q: "to_client (exchanged i v [] bs n) i = bs" "drain i (length bs) (exchanged i v [] bs n) = n\<lparr>net_server := v\<rparr>"
    using assms(1) by (simp, cases n) (auto simp: exchanged_def drain_def silent_def fun_eq_iff)
  from download_law [of 0 "length bs" p f "exchanged i v [] bs n" i grain] show ?thesis
    unfolding q using assms(2) patch_end [of "content f" bs] by (simp add: q)
qed

lemma remote_pull_law:
  assumes "calm es None (net_server n)" and "sessions (net_server n) i = Some s" and "silent n" and "client_channel p = n"
    and "behind F content m hs ss [] ctx j" and "es = hs @ ss @ xs" and "history_end es < 2 ^ 63"
  obtains j' where "server_pull F (net_channel grain i) action With_Data j 0 p = Inr (int (history_end es), j',
      p\<lparr>client_channel := n\<lparr>net_server := resting i (pull_type action With_Data) (action = Lock_Before) s (net_server n)\<rparr>,
        server_checkpoint := int (history_end es)\<rparr>)"
    and "behind F content m hs ss xs ctx j'"
proof -
  let ?c = "content (journal_file j)" and ?d = "data (journal_file (server_journal (net_server n)))"
  let ?p = "history_end (hs @ ss)" and ?q = "history_end es" and ?code = "pull_type action With_Data"
  let ?bs = "history_bytes (history_context initial_context (hs @ ss)) xs"
  let ?v = "resting i ?code (action = Lock_Before) s (net_server n)"
  have j: "reader F content m hs ss ?c ?p j" "stored hs ss [] ?c" "journal_context j = ctx" using assms(5) by (simp_all add: behind_def)
  have ck: "checkpoint_position j = int ?p" "length ?c = ?p" "get_mode F (journal_file j) = m"
    using j(1) marks_history_positions(1) [of j hs ss] stored_length [OF j(2)] by (simp_all add: reader_def reading_def)
  have q: "?q = ?p + length ?bs" using assms(6) by (simp add: history_append)
  obtain hs' ss' where v: "es = hs' @ ss'" "stored hs' ss' [] ?d" using assms(1) by (auto simp: calm_def server_holds_def)
  have split: "hs' @ ss' = hs @ ss @ xs" using v(1) assms(6) by simp
  have slice: "take (length ?bs) (drop ?p ?d) = ?bs"
    using stored_holds [OF v(2)] split by (simp add: history_append holds_at_append) (simp add: holds_at_def add.assoc)
  have "list_all event_fits (hs' @ ss')" using v(2) by (simp add: stored_def)
  then have fits: "list_all event_fits xs" unfolding split by simp
  have code: "?code = (if action = Lock_Before then 71 else 70)" by (simp add: pull_type_def)
  have run: "session_run i (net_server n) (?code # int64_bytes 0 @ int64_bytes (int ?p)) (?code # int64_bytes (int ?q) @ ?bs) ?v"
  proof -
    have "0 \<le> int ?p" "int ?p \<le> int ?q" "?q - ?p = length ?bs" using q by simp_all
    from pull_run [OF assms(1,2) this(1,2) assms(7) code] show ?thesis by (simp only: nat_int \<open>?q - ?p = _\<close> slice)
  qed
  from request_reply [OF run calm_idle [OF assms(1,2)] resting_idle assms(3)]
  have 1: "channel_write (net_channel grain i) (?code # int64_bytes 0 @ int64_bytes (int ?p)) n =
      Inr (exchanged i ?v [] (?code # int64_bytes (int ?q) @ ?bs) n)" .
  have 2: "channel_read (net_channel grain i) 9 (exchanged i ?v [] (?code # int64_bytes (int ?q) @ ?bs) n) =
      Inr (?code # int64_bytes (int ?q), exchanged i ?v [] ?bs n)"
    using reply_read [OF assms(3), of 9 "?code # int64_bytes (int ?q) @ ?bs" grain i ?v] by simp
  obtain f where f: "download F (net_channel grain i) (int (length ?bs)) 0 (journal_file j) (int ?p) (exchanged i ?v [] ?bs n) =
      Inr (f, int ?q, n\<lparr>net_server := ?v\<rparr>)" "content f = ?c @ ?bs" "get_mode F f = m"
    using download_reply [OF assms(3) ck(2), where bs = ?bs and grain = grain and i = i and v = ?v] ck(3) unfolding q by metis
  obtain j' c' where j': "soft_checkpoint_at F (int ?q) (set_file f j) = Inr j'" "stored hs (ss @ xs) [] c'"
    "reader F content m hs (ss @ xs) c' ?p j'" "journal_context j' = journal_context j"
    by (rule tail_checkpoint_law [OF j(2,1) fits _ f(2,3)]) (use assms(6,7) in simp_all)
  have "content (journal_file j') = c'" using j'(3) by (simp add: reader_def reading_def)
  then have "behind F content m hs ss xs ctx j'" using j' j(3) by (simp add: behind_def)
  moreover have "server_pull F (net_channel grain i) action With_Data j 0 p =
      Inr (int ?q, j', p\<lparr>client_channel := n\<lparr>net_server := ?v\<rparr>, server_checkpoint := int ?q\<rparr>)"
  proof (rule server_pull_steps)
    show "read_int64 1 (?code # int64_bytes (int ?q)) = int ?q" by (rule read_int64_cons) (use assms(7) in simp_all)
    have "int ?q - int ?p = int (length ?bs)" using q by simp
    with f(1) show "download F (net_channel grain i) (int ?q - checkpoint_position j) 0 (journal_file j) (checkpoint_position j)
        (exchanged i ?v [] ?bs n) = Inr (f, int ?q, n\<lparr>net_server := ?v\<rparr>)" unfolding ck(1) by (simp only:)
  qed (use 1 2 j'(1) assms(4) in \<open>simp_all only: ck(1)\<close>)
  ultimately show ?thesis by (rule that [rotated])
qed

lemma remote_push_law:
  assumes "calm es h (net_server n)" and "sessions (net_server n) i = Some s" and "h = None \<or> h = Some i" and "silent n" and "client_channel p = n"
    and "stored hs ss [] (content (journal_file j))" and "hs @ ss = es @ xs" and "history_end (hs @ ss) < 2 ^ 63"
  obtains v where "server_push F (net_channel grain i) j (int (history_end es)) (int (history_end (hs @ ss))) action p =
      Inr (int (history_end (hs @ ss)), p\<lparr>client_channel := n\<lparr>net_server := v\<rparr>, server_checkpoint := int (history_end (hs @ ss))\<rparr>)"
    and "calm (hs @ ss) (if action = Unlock_After then None else Some i) v" and "dom (sessions v) = dom (sessions (net_server n))"
proof -
  let ?c = "content (journal_file j)" and ?p = "history_end es" and ?q = "history_end (es @ xs)" and ?code = "push_type action"
  let ?bs = "history_bytes (history_context initial_context es) xs"
  let ?prefix = "?code # int64_bytes (int ?p) @ int64_bytes (int ?q)" and ?r = "async_reader_new (int ?p) (int ?q)"
  have q: "?q = ?p + length ?bs" by (simp add: history_append)
  have len: "length ?c = ?q" using stored_length [OF assms(6)] assms(7) by simp
  have "list_all event_fits (hs @ ss)" using assms(6) by (simp add: stored_def)
  then have fits: "list_all event_fits xs" unfolding assms(7) by simp
  have slice: "take (length ?bs) (drop ?p ?c) = ?bs"
    using stored_holds [OF assms(6)] assms(7) by (simp add: history_append holds_at_append) (simp add: holds_at_def add.assoc)
  have code: "?code = (if action = Unlock_After then 79 else 78)" by (simp add: push_type_def)
  have r: "reader_current ?r = int ?p" "reader_end ?r = int ?q" "\<not> end_of_file ?r" "get_remaining ?r = int (length ?bs)"
    using q by (simp_all add: async_reader_new_def get_remaining_def)
  obtain ps where ps: "concat ps = ?prefix @ ?bs"
    "push_data F (net_channel grain i) (journal_file j) ?prefix ?r n = fold_result (channel_write (net_channel grain i)) ps n"
  proof -
    have "length ?prefix < session_buffer_size" "0 \<le> int ?p" "int ?p \<le> int ?q" "int ?q \<le> int (length ?c)" using len q by simp_all
    from push_data_pieces [of ?r "journal_file j" ?prefix "net_channel grain i", unfolded r(1,2,4) nat_int slice, OF this(2-4) r(3) this(1)]
    show ?thesis using that by blast
  qed
  have bound: "history_end (es @ xs) < 2 ^ 63" using assms(7,8) by simp
  obtain v where "session_run i (net_server n) (?code # int64_bytes (int ?p) @ int64_bytes (int ?q) @ ?bs) [?code] v"
    "calm (es @ xs) (if action = Unlock_After then None else Some i) v" "dom (sessions v) = dom (sessions (net_server n))"
    by (rule push_run [OF assms(1-3) fits bound refl code])
  then have v: "session_run i (net_server n) (concat ps) [?code] v"
    "calm (es @ xs) (if action = Unlock_After then None else Some i) v" "dom (sessions v) = dom (sessions (net_server n))"
    unfolding ps(1) by (simp_all only: append_Cons append_assoc)
  have "sessions v i \<noteq> None" using v(3) assms(2) by blast
  then have "idle_at i v" using calm_idle [OF v(2)] by auto
  from pieces_request [OF v(1) calm_idle [OF assms(1,2)] this] assms(4)
  have "push_data F (net_channel grain i) (journal_file j) ?prefix ?r n = Inr (exchanged i v [] [?code] n)" unfolding ps(2) by simp
  moreover have "?code \<notin> {82, 67, 116}" using code by simp
  ultimately show ?thesis
    using that [of v] v(2,3) reply_read [OF assms(4), of 1 "[?code]" grain i v] assms(4,5,7) by (simp add: server_push_def)
qed

lemma remote_conflict_law:
  assumes "calm es h (net_server n)" and "sessions (net_server n) i = Some s" and "h = None \<or> h = Some i" and "silent n" and "client_channel p = n"
    and "from \<noteq> int (history_end es)" and "0 \<le> from" and "from \<le> until" and "until < 2 ^ 63"
  shows "server_push F (net_channel grain i) j from until action p \<noteq> Inr x"
proof -
  let ?c = "content (journal_file j)" and ?code = "push_type action"
  let ?prefix = "?code # int64_bytes from @ int64_bytes until" and ?r = "async_reader_new from until"
  have code: "?code = (if action = Unlock_After then 79 else 78)" by (simp add: push_type_def)
  have r: "reader_current ?r = from" "reader_end ?r = until" "\<not> end_of_file ?r" "get_remaining ?r = until - from"
    using assms(8) by (simp_all add: async_reader_new_def get_remaining_def)
  show ?thesis
  proof (cases "from < until \<and> int (length ?c) < until")
    case True
    then have "\<forall>m. push_data F (net_channel grain i) (journal_file j) ?prefix ?r n \<noteq> Inr m"
      using push_data_short [of ?r "journal_file j" ?prefix "net_channel grain i" n] r assms(7) by simp
    then show ?thesis
      using assms(5) by (cases "push_data F (net_channel grain i) (journal_file j) ?prefix ?r n") (simp_all add: server_push_def)
  next
    case False
    let ?bs = "take (nat (until - from)) (drop (nat from) ?c)"
    have len: "until = from + int (length ?bs)" using False assms(7,8) by (auto simp: min_def)
    have "\<exists>ps. concat ps = ?prefix @ ?bs \<and>
        push_data F (net_channel grain i) (journal_file j) ?prefix ?r n = fold_result (channel_write (net_channel grain i)) ps n"
    proof (cases "from < until")
      case True
      then show ?thesis using push_data_pieces [of ?r "journal_file j" ?prefix "net_channel grain i"] r False assms(7,8) by auto
    next
      case nr: False
      then show ?thesis
        using push_data_empty [of ?r ?prefix F "net_channel grain i" "journal_file j" n] r assms(8) by (intro exI [of _ "[?prefix]"]) simp
    qed
    then obtain ps where ps: "concat ps = ?prefix @ ?bs"
      "push_data F (net_channel grain i) (journal_file j) ?prefix ?r n = fold_result (channel_write (net_channel grain i)) ps n" by blast
    obtain v where "session_run i (net_server n) (?code # int64_bytes from @ int64_bytes until @ ?bs) [67] v" "idle_at i v"
      by (rule conflict_run [OF assms(1-3,6,7) len assms(9) code])
    then have v: "session_run i (net_server n) (concat ps) [67] v" "idle_at i v"
      unfolding ps(1) by (simp_all only: append_Cons append_assoc)
    from pieces_request [OF v(1) calm_idle [OF assms(1,2)] v(2)] assms(4)
    have "push_data F (net_channel grain i) (journal_file j) ?prefix ?r n = Inr (exchanged i v [] [67] n)" unfolding ps(2) by simp
    then show ?thesis
      using reply_read [OF assms(4), of 1 "[67]" grain i v] assms(5) by (simp add: server_push_def)
  qed
qed

end

section \<open>The clients of a server\<close>

text \<open>The state that the clients share is the network; each has its own \<open>Server_Client\<close>.\<close>

record Remote =
  remote_net :: Network
  remote_peers :: "nat \<Rightarrow> unit Server_Client"

definition peer :: "nat \<Rightarrow> Remote \<Rightarrow> Network Server_Client" where
  "peer i r =
     (let p = remote_peers r i in
      \<lparr>client_channel = remote_net r, client_session_id = client_session_id p, pullonly_server = pullonly_server p, server_checkpoint = server_checkpoint p\<rparr>)"

definition set_peer :: "nat \<Rightarrow> Network Server_Client \<Rightarrow> Remote \<Rightarrow> Remote" where
  "set_peer i p r = r\<lparr>remote_net := client_channel p, remote_peers := (remote_peers r)(i :=
     \<lparr>client_channel = (), client_session_id = client_session_id p, pullonly_server = pullonly_server p, server_checkpoint = server_checkpoint p\<rparr>)\<rparr>"

lemma peer_eta:
  "\<lparr>client_channel = (), client_session_id = client_session_id p, pullonly_server = pullonly_server p, server_checkpoint = server_checkpoint p\<rparr> = p"
  by (cases p) simp

lemma peer_simps [simp]:
  "client_channel (peer i r) = remote_net r" "server_checkpoint (peer i r) = server_checkpoint (remote_peers r i)"
  "set_peer i (peer i r) r = r" "remote_net (set_peer i p r) = client_channel p"
  "server_checkpoint (remote_peers (set_peer i p r) i) = server_checkpoint p"
  by (simp_all add: peer_def set_peer_def Let_def peer_eta)

definition remote_client :: "nat \<Rightarrow> (Network Server_Client, 'f) Connection \<Rightarrow> (Remote, 'f) Connection" where
  "remote_client i K =
     \<lparr>handshake = (\<lambda>j check r. bind_result (handshake K j check (peer i r)) (\<lambda>(p, s). Inr (p, set_peer i s r))),
      check_matching_content = (\<lambda>j check from until r.
        bind_result (check_matching_content K j check from until (peer i r)) (\<lambda>s. Inr (set_peer i s r))),
      connection_pull = (\<lambda>lock dt j r.
        bind_outcome (connection_pull K lock dt j (peer i r)) (\<lambda>(p, j', s). Some (Inr (p, j', set_peer i s r)))),
      connection_push = (\<lambda>j from until action r.
        bind_outcome (connection_push K j from until action (peer i r)) (\<lambda>(p, s). Some (Inr (p, set_peer i s r)))),
      connection_unlock = (\<lambda>r. bind_result (connection_unlock K (peer i r)) (\<lambda>s. Inr (set_peer i s r))),
      is_pullonly = is_pullonly K\<rparr>"

abbreviation network_connection :: "'f Abstract_File \<Rightarrow> nat \<Rightarrow> nat \<Rightarrow> (Remote, 'f) Connection" where
  "network_connection F grain i \<equiv> remote_client i (remote_connection F (net_channel grain i) False)"

text \<open>The first \<open>k\<close> sessions exist, nothing is in transit, and \<open>h\<close> holds the lock.\<close>

definition connected :: "nat \<Rightarrow> event list \<Rightarrow> nat option \<Rightarrow> Remote \<Rightarrow> bool" where
  "connected k es h r \<longleftrightarrow>
     calm es h (net_server (remote_net r)) \<and> silent (remote_net r) \<and> (\<forall>i<k. i \<in> dom (sessions (net_server (remote_net r))))"

definition usable :: "nat \<Rightarrow> nat \<Rightarrow> event list \<Rightarrow> Remote \<Rightarrow> bool" where
  "usable k i es r \<longleftrightarrow> (\<exists>h. (h = None \<or> h = Some i) \<and> connected k es h r)"

definition greeted :: "nat \<Rightarrow> nat \<Rightarrow> event list \<Rightarrow> Remote \<Rightarrow> bool" where
  "greeted k i es r \<longleftrightarrow> connected k es None r \<and> server_checkpoint (remote_peers r i) = int (history_end es)"

lemma connected_set:
  assumes "calm es h v" and "dom (sessions v) = dom (sessions (net_server (remote_net r)))" and "connected k es' h' r"
  shows "connected k es h (set_peer i (p\<lparr>client_channel := (remote_net r)\<lparr>net_server := v\<rparr>\<rparr>) r)"
  using assms by (simp add: connected_def)

context file_contract
begin

lemma remote_contract:
  assumes "i < k"
  shows "connection_contract F content (network_connection F grain i) (usable k i) (\<lambda>es. connected k es None) (greeted k i)"
proof (unfold_locales, goal_cases)
  case (1 es r)
  then show ?case by (auto simp: usable_def)
next
  case (2 es r m hs ss ctx j xs action)
  let ?n = "remote_net r"
  obtain s where c: "calm es None (net_server ?n)" "silent ?n" "sessions (net_server ?n) i = Some s"
    using 2(1) assms by (auto simp: connected_def)
  let ?l = "action = Lock_Before" and ?v = "resting i (pull_type action With_Data) (action = Lock_Before) s (net_server ?n)"
  obtain j' where j': "server_pull F (net_channel grain i) action With_Data j 0 (peer i r) = Inr (int (history_end es), j',
      (peer i r)\<lparr>client_channel := ?n\<lparr>net_server := ?v\<rparr>, server_checkpoint := int (history_end es)\<rparr>)"
    "behind F content m hs ss xs ctx j'"
    by (rule remote_pull_law [OF c(1,3,2) _ 2(2-4), of "peer i r"]) simp
  let ?r = "set_peer i ((peer i r)\<lparr>client_channel := ?n\<lparr>net_server := ?v\<rparr>, server_checkpoint := int (history_end es)\<rparr>) r"
  have "calm es (if ?l then Some i else None) ?v" "dom (sessions ?v) = dom (sessions (net_server ?n))"
    using calm_resting [OF c(1,3), where locking = ?l and b = "pull_type action With_Data"] by simp_all
  then have "connected k es (if ?l then Some i else None) ?r" using 2(1) by (simp add: connected_def)
  then have "usable k i es ?r" "action = No_Locking \<longrightarrow> connected k es None ?r" by (auto simp: usable_def split: if_splits)
  moreover have "connection_pull (network_connection F grain i) action With_Data j r = Some (Inr (int (history_end es), j', ?r))"
    using j'(1) by (simp add: remote_client_def remote_connection_def)
  ultimately show ?case using j'(2) by blast
next
  case (3 es r hs ss j xs action)
  then obtain h where h: "h = None \<or> h = Some i" "connected k es h r" by (auto simp: usable_def)
  let ?n = "remote_net r"
  obtain s where c: "calm es h (net_server ?n)" "silent ?n" "sessions (net_server ?n) i = Some s"
    using h(2) assms by (auto simp: connected_def)
  obtain v where v: "server_push F (net_channel grain i) j (int (history_end es)) (int (history_end (hs @ ss))) action (peer i r) =
      Inr (int (history_end (hs @ ss)), (peer i r)\<lparr>client_channel := ?n\<lparr>net_server := v\<rparr>, server_checkpoint := int (history_end (hs @ ss))\<rparr>)"
    "calm (hs @ ss) (if action = Unlock_After then None else Some i) v" "dom (sessions v) = dom (sessions (net_server ?n))"
    by (rule remote_push_law [OF c(1,3) h(1) c(2) _ 3(2-4), of "peer i r"]) simp
  let ?r = "set_peer i ((peer i r)\<lparr>client_channel := ?n\<lparr>net_server := v\<rparr>, server_checkpoint := int (history_end (hs @ ss))\<rparr>) r"
  have "connected k (hs @ ss) (if action = Unlock_After then None else Some i) ?r" using v(2,3) h(2) by (simp add: connected_def)
  then have "usable k i (hs @ ss) ?r" "action = Unlock_After \<longrightarrow> connected k (hs @ ss) None ?r" by (auto simp: usable_def split: if_splits)
  moreover have "connection_push (network_connection F grain i) j (int (history_end es)) (int (history_end (hs @ ss))) action r =
      Some (Inr (int (history_end (hs @ ss)), ?r))"
    using v(1) by (simp add: remote_client_def remote_connection_def)
  ultimately show ?case by blast
next
  case (4 es r "from" until j action x)
  then obtain h where h: "h = None \<or> h = Some i" "connected k es h r" by (auto simp: usable_def)
  let ?n = "remote_net r"
  obtain s where c: "calm es h (net_server ?n)" "silent ?n" "sessions (net_server ?n) i = Some s"
    using h(2) assms by (auto simp: connected_def)
  have "\<forall>y. server_push F (net_channel grain i) j from until action (peer i r) \<noteq> Inr y"
    by (intro allI remote_conflict_law [OF c(1,3) h(1) c(2) _ 4(2-5)]) simp
  then show ?case
    by (cases "server_push F (net_channel grain i) j from until action (peer i r)") (simp_all add: remote_client_def remote_connection_def)
next
  case (5 es r)
  then obtain h where h: "h = None \<or> h = Some i" "connected k es h r" by (auto simp: usable_def)
  let ?n = "remote_net r"
  obtain s where c: "calm es h (net_server ?n)" "silent ?n" "sessions (net_server ?n) i = Some s"
    using h(2) assms by (auto simp: connected_def)
  have "server_unlock (net_channel grain i) (peer i r) =
      Inr ((peer i r)\<lparr>client_channel := ?n\<lparr>net_server := resting i 77 False s (net_server ?n)\<rparr>\<rparr>)"
    by (rule remote_unlock_law [OF c(1,3) h(1) c(2)]) simp
  then show ?case
    using connected_set [OF calm_resting [OF c(1,3) h(1), where locking = False and b = 77, simplified] h(2), of i "peer i r"]
    by (simp add: remote_client_def remote_connection_def)
next
  case (6 es r until "from" j check)
  then show ?case by (simp add: remote_client_def remote_connection_def server_check_matching_content_def)
next
  case (7 es r m c p j check)
  then have "checkpoint_position j = int (history_end [])"
    using marks_history_positions(1) [of j "[]" "[]"] by (simp add: reader_def)
  then show ?case
    using 7 by (simp add: greeted_def remote_client_def remote_connection_def server_handshake_def server_check_matching_content_def)
qed

end

interpretation network_clients: shared_connections memory_file data "network_connection memory_file grain" "usable n"
  "\<lambda>es. connected n es None" "greeted n" n for grain n
  by (intro shared_connections.intro shared_connections_axioms.intro memory.remote_contract memory.file_contract_axioms)

end
