(* ===== verification/Journal_Client.thy ===== *)
theory Journal_Client
  imports Client_Properties
begin

text \<open>
  Clients without a database: \<open>Writable_Journal_Client\<close> does not read the events it pulls, it skips
  them. The context of its journal (the record and the field of the last operation), in which events
  are abbreviated, is then no longer that of a reader of the file. What such a client writes is
  characterized here, with an example where a reader understands something else than what was sent.
\<close>

section \<open>A journal in another context\<close>

definition in_context :: "context_t \<Rightarrow> 'f Journal \<Rightarrow> 'f Journal" where
  "in_context = (\<lambda>(t, r, f) j. j\<lparr>table_of_last_operation := t, record_of_last_operation := r, field_of_last_update := f\<rparr>)"

lemma in_context_frame [simp]:
  "file_buffer (in_context ctx j) = file_buffer j" "journal_marks (in_context ctx j) = journal_marks j"
  "journal_context (in_context ctx j) = ctx" "checkpoint_position (in_context ctx j) = checkpoint_position j"
  "journal_get_position (in_context ctx j) = journal_get_position j"
  by (simp_all add: in_context_def journal_marks_def journal_context_def journal_get_position_def split: prod.splits)

lemma in_context_same: "in_context (journal_context j) j = j"
  by (simp add: in_context_def journal_context_def)

text \<open>Checkpoints neither read nor change the context.\<close>

lemma soft_checkpoint_context:
  "soft_checkpoint F (in_context ctx j) = bind_result (soft_checkpoint F j) (\<lambda>j'. Inr (in_context ctx j'))"
  by (cases j; cases ctx) (simp add: in_context_def soft_checkpoint_def soft_checkpoint_at_def jwrite_def set_file_def Let_def
      journal_get_position_def bind_result_assoc)

lemma soft_checkpoint_keeps_context: "soft_checkpoint F j = Inr j' \<Longrightarrow> journal_context j' = journal_context j"
proof -
  assume "soft_checkpoint F j = Inr j'"
  then have "j' = in_context (journal_context j) j'" using soft_checkpoint_context [of F "journal_context j" j] by (simp add: in_context_same)
  from arg_cong [OF this, of journal_context] show ?thesis by simp
qed

context file_contract
begin

lemma events_in_context:
  assumes "writing F content m (file_buffer j) c (length c)" and "list_all event_fits xs"
  shows "\<exists>j'. fold_result (journal_handle F) xs j = Inr j' \<and> journal_marks j' = journal_marks j \<and>
    writing F content m (file_buffer j') (c @ history_bytes (journal_context j) xs) (length (c @ history_bytes (journal_context j) xs)) \<and>
    journal_context j' = history_context (journal_context j) xs"
  using assms
proof (induction xs arbitrary: j c)
  case (Cons x xs)
  have "event_fits x" using Cons.prems(2) by simp
  then obtain j1 where j1: "journal_handle F x j = Inr j1" "journal_marks j1 = journal_marks j"
    "writing F content m (file_buffer j1) (c @ event_bytes (journal_context j) x) (length (c @ event_bytes (journal_context j) x))"
    "journal_context j1 = event_context (journal_context j) x"
    using append_event [OF Cons.prems(1) _ refl] unfolding appended_def patch_end by auto
  from Cons.IH [OF j1(3)] Cons.prems(2) j1 show ?case by auto
qed simp

text \<open>
  Events written in the context \<open>ctx\<close>, that a reader understands as \<open>xs'\<close>.
\<close>

lemma stale_events:
  assumes "settled F content m hs ss (in_context (history_context initial_context (hs @ ss)) j)"
    and "list_all event_fits xs" and "list_all event_fits xs'"
    and "history_bytes (journal_context j) xs = history_bytes (history_context initial_context (hs @ ss)) xs'"
  obtains j' c' where "fold_result (journal_handle F) xs j = Inr j'" and "journal_context j' = history_context (journal_context j) xs"
    and "writer F content m hs ss xs' c' (in_context (history_context initial_context (hs @ ss @ xs')) j')"
    and "xs = [] \<longrightarrow> j' = j"
proof -
  let ?c = "content (journal_file j)" and ?ctx = "history_context initial_context (hs @ ss)"
  have w: "writing F content m (file_buffer j) ?c (length ?c)" "header_ok ?c" "slots_ok (slots ?c) (journal_marks j)"
    "drop header_size ?c = history_bytes initial_context (hs @ ss)" "list_all event_fits (hs @ ss)" "marks_history (journal_marks j) hs ss"
    using assms(1) by (auto simp: settled_def writer_def)
  let ?c' = "?c @ history_bytes ?ctx xs'"
  from events_in_context [OF w(1) assms(2)] assms(4) obtain j' where j': "fold_result (journal_handle F) xs j = Inr j'"
    "journal_marks j' = journal_marks j" "writing F content m (file_buffer j') ?c' (length ?c')"
    "journal_context j' = history_context (journal_context j) xs" by auto
  have "writer F content m hs ss xs' ?c' (in_context (history_context initial_context (hs @ ss @ xs')) j')"
    using w j'(2,3) assms(3) header_ok_append [OF w(2)] slots_append [of ?c "history_bytes ?ctx xs'"]
    by (simp add: writer_def history_append header_ok_def)
  moreover have "xs = [] \<longrightarrow> j' = j" using j'(1) by auto
  ultimately show ?thesis using that [of j' ?c'] j'(1,4) by simp
qed

lemma skip_law:
  assumes "behind F content m hs ss xs ctx j"
  obtains j' where "journal_client_read F j d = Inr (j', d)" and "journal_context j' = ctx"
    and "settled F content m hs (ss @ xs) (in_context (history_context initial_context (hs @ ss @ xs)) j')"
proof -
  let ?c = "content (journal_file j)"
  have b: "reading F content m (file_buffer j) ?c (history_end (hs @ ss))" "stored hs (ss @ xs) [] ?c" "journal_context j = ctx"
    "slots_ok (slots ?c) (journal_marks j)" "marks_history (journal_marks j) hs (ss @ xs)"
    using assms by (auto simp: behind_def reader_def)
  have len: "length ?c = history_end (hs @ ss @ xs)" using stored_length [OF b(2)] by simp
  have ck: "checkpoint_position j = int (length ?c)" using marks_history_positions(1) [OF b(5)] len by simp
  obtain b' where b': "set_position F (int (length ?c)) (file_buffer j) = Inr b'" "reading F content m b' ?c (length ?c)"
    "buffer_index b' = 0" "read_buffer_size b' = 0" using set_position_reading [OF b(1)] by blast
  let ?j = "j\<lparr>file_buffer := b'\<rparr>"
  have "writing F content m b' ?c (length ?c)" by (rule reading_to_writing [OF b'(2-4)]) simp
  moreover have "content (fb_file b') = ?c" using b'(2) by (simp add: reading_def)
  ultimately have "settled F content m hs (ss @ xs) (in_context (history_context initial_context (hs @ ss @ xs)) ?j)"
    using b(2,4,5) b'(3) by (simp add: settled_def writer_def stored_def) (simp add: journal_marks_def)
  then show ?thesis
    using that [of ?j] b'(1) ck b(3) by (simp add: journal_client_read_def skip_directly_to_def jwrite_def journal_context_def)
qed

end

section \<open>Transactions of a journal client\<close>

definition send_to_journal :: "'f Abstract_File \<Rightarrow> event list \<Rightarrow> ('f, unit) Client \<Rightarrow> unit result \<times> ('f, unit) Client" where
  "send_to_journal F xs c =
     (case fold_result (journal_handle F) xs (client_journal c) of
        Inl e \<Rightarrow> (Inl e, c) | Inr j \<Rightarrow> (Inr (), c\<lparr>client_journal := j\<rparr>))"

text \<open>A journal client of a server, up to the context of its journal.\<close>

definition journal_ok :: "'f Abstract_File \<Rightarrow> ('f \<Rightarrow> byte list) \<Rightarrow> Open_Mode \<Rightarrow> event list \<Rightarrow> context_t \<Rightarrow> ('f, unit) Client \<Rightarrow> bool" where
  "journal_ok F content m es ctx c \<longleftrightarrow>
     (\<exists>hs ss. es = hs @ ss \<and> settled F content m hs ss (in_context (history_context initial_context es) (client_journal c))) \<and>
     journal_context (client_journal c) = ctx \<and> int (history_end es) \<le> connection_checkpoint c \<and>
     \<not> use_valid_data c \<and> \<not> use_timestamp c \<and> \<not> use_hard_checkpoint c"

context connection_contract
begin

lemma journal_tail_lock:
  assumes "server es s" and "journal_ok F content m es0 ctx c" and "m \<noteq> Shared_Write"
  shows "get_tail_lock F K c s = Inr (c, s)" and "release_tail F c = c"
proof -
  from assms(2) obtain hs ss where j: "es0 = hs @ ss" "settled F content m hs ss (in_context (history_context initial_context es0) (client_journal c))"
    and ck: "int (history_end es0) \<le> connection_checkpoint c" by (auto simp: journal_ok_def)
  have "\<not> is_shared F (journal_file (client_journal c))"
    using j(2) assms(3) by (auto simp: settled_def writer_def writing_def is_shared_def)
  then show "get_tail_lock F K c s = Inr (c, s)" "release_tail F c = c"
    using settled_position [OF j(2)] settled_checkpoint(1) [OF j(2)] ck j(1) check_contract [OF assms(1)]
    by (simp_all add: get_tail_lock_def tail_exclusive_lock_def lock_pull_def release_tail_def journal_unlock_def)
qed

text \<open>
  The events that a journal client sends are written in its own context; the server gets whatever
  events have the same bytes in the context of a reader.
\<close>

lemma journal_commits:
  assumes "free (es @ ys) s" and "journal_ok F content m es ctx c" and "m \<noteq> Shared_Write"
    and "list_all event_fits xs" and "list_all event_fits xs'" and "xs' \<noteq> []"
    and "history_bytes ctx xs = history_bytes (history_context initial_context (es @ ys)) xs'" and "history_end (es @ ys @ xs') < 2 ^ 63"
  obtains c' s' where "transaction F (journal_client_read F) K now (send_to_journal F xs) c s = Some (Inr (Done () c' s'))"
    and "free (es @ ys @ xs') s'" and "journal_ok F content m (es @ ys @ xs') (history_context ctx xs) c'"
proof -
  from assms(2) obtain hs ss where es: "es = hs @ ss" and
    j: "settled F content m hs ss (in_context (history_context initial_context es) (client_journal c))" "journal_context (client_journal c) = ctx"
    by (auto simp: journal_ok_def)
  have flags: "\<not> use_valid_data c" "\<not> use_timestamp c" "\<not> use_hard_checkpoint c" using assms(2) by (simp_all add: journal_ok_def)
  have b: "behind F content m hs ss [] ctx (client_journal c)"
    using settled_behind [OF j(1)] j(2) by (simp add: behind_def reader_def)
  have bound: "history_end (es @ ys) < 2 ^ 63" using assms(8) history_end_append [of "es @ ys" xs'] by simp
  obtain j1 s1 where pull: "connection_pull K Lock_Before With_Data (client_journal c) s = Some (Inr (int (history_end (es @ ys)), j1, s1))"
    "server (es @ ys) s1" "behind F content m hs ss ys ctx j1"
    using pull_contract [OF assms(1) b _ bound, of ys Lock_Before] es by auto
  obtain j2 where j2: "journal_client_read F j1 (client_data c) = Inr (j2, client_data c)" "journal_context j2 = ctx"
    "settled F content m hs (ss @ ys) (in_context (history_context initial_context (hs @ ss @ ys)) j2)"
    by (rule skip_law [OF pull(3)])
  have bytes: "history_bytes (journal_context j2) xs = history_bytes (history_context initial_context (hs @ (ss @ ys))) xs'"
    using assms(7) j2(2) es by simp
  have j2': "settled F content m hs (ss @ ys) (in_context (history_context initial_context (hs @ (ss @ ys))) j2)" using j2(3) by simp
  obtain j3 c3 where j3: "fold_result (journal_handle F) xs j2 = Inr j3" "journal_context j3 = history_context (journal_context j2) xs"
    "writer F content m hs (ss @ ys) xs' c3 (in_context (history_context initial_context (hs @ (ss @ ys) @ xs')) j3)"
    by (rule stale_events [OF j2' assms(4,5) bytes])
  let ?real = "history_context initial_context (hs @ (ss @ ys) @ xs')"
  obtain j4' where j4': "soft_checkpoint F (in_context ?real j3) = Inr j4'" "settled F content m hs ((ss @ ys) @ xs') j4'"
    by (rule soft_settles [OF j3(3)]) (use assms(6,8) es in simp_all)
  then obtain j4 where j4: "soft_checkpoint F j3 = Inr j4" "j4' = in_context ?real j4"
    unfolding soft_checkpoint_context by auto
  let ?fs = "es @ ys @ xs'"
  have fs: "hs @ (ss @ ys) @ xs' = ?fs" using es by simp
  have st: "stored hs ((ss @ ys) @ xs') [] (content (journal_file j4))" using settled_checkpoint(2) [OF j4'(2)] j4(2) by simp
  have p4: "checkpoint_position j4 = int (history_end ?fs)" using settled_checkpoint(1) [OF j4'(2)] j4(2) es by simp
  have split: "hs @ (ss @ ys) @ xs' = (es @ ys) @ xs'" using es by simp
  obtain s2 where push: "connection_push K j4 (int (history_end (es @ ys))) (int (history_end ?fs)) Unlock_After s1
      = Some (Inr (int (history_end ?fs), s2))" "free ?fs s2"
    using push_contract [OF pull(2) st split, of Unlock_After] assms(8) es by auto
  let ?c = "c\<lparr>client_data := (), client_journal := j4, connection_checkpoint := int (history_end ?fs)\<rparr>"
  have ok: "journal_ok F content m ?fs (history_context ctx xs) ?c"
    using j4'(2) j4(2) es flags soft_checkpoint_keeps_context [OF j4(1)] j3(2) j2(2) by (auto simp: journal_ok_def)
  have "transaction F (journal_client_read F) K now (send_to_journal F xs) c s = Some (Inr (Done () ?c s2))"
    using journal_tail_lock(1) [OF free_server [OF assms(1)] assms(2,3)] pull(1) j2(1) j3(1) j4(1) p4 push(1)
      journal_tail_lock(2) [OF free_server [OF push(2)] ok assms(3)] flags
    by (simp add: transaction_def start_transaction_def send_to_journal_def do_checkpoint_def client_push_all_def client_push_def)
  then show ?thesis using that push(2) ok by simp
qed

lemma new_journal_client:
  assumes "fresh es s" and "content f = []" and "get_mode F f = m" and "m \<noteq> Read_Existing"
  obtains c where "writable_journal_client F K check r f s = Inr (c, s)" and "journal_ok F content m [] initial_context c"
proof -
  obtain j where j: "open_writable_journal F r f = Inr j" "writer F content m [] [] [] (header_bytes new_header) j"
    "content (journal_file j) = header_bytes new_header" "buffer_index (file_buffer j) = 0"
    by (rule open_writable_new [OF assms(2), of r]) (use assms(3,4) in auto)
  then have b: "behind F content m [] [] [] (history_context initial_context ([] @ [])) j"
    by (intro settled_behind) (simp add: settled_def)
  have hand: "handshake K j check s = Inr (int (history_end es), s)"
    using b handshake_contract [OF assms(1), of m "content (journal_file j)" "history_end []" j check] by (simp add: behind_def)
  obtain j' where j': "journal_client_read F j () = Inr (j', ())" "journal_context j' = history_context initial_context ([] @ [])"
    "settled F content m [] ([] @ []) (in_context (history_context initial_context ([] @ [] @ [])) j')"
    by (rule skip_law [OF b])
  from j(1) hand j' show ?thesis
    using that [of "\<lparr>client_journal = j', client_data = (), connection_checkpoint = int (history_end es),
        content_check = check, use_valid_data = False, use_timestamp = False, use_hard_checkpoint = False\<rparr>"]
    by (simp add: writable_journal_client_def open_client_def client_new_def journal_ok_def)
qed

end

section \<open>A client that skips what others wrote\<close>

definition journal_transaction :: "event list \<Rightarrow> (Memory_File, unit) Client \<Rightarrow> Memory_File Journal \<Rightarrow>
    (unit, (Memory_File, unit) Client, Memory_File Journal) Ending result option" where
  "journal_transaction xs = transaction memory_file (journal_client_read memory_file) memory_connection 0 (send_to_journal memory_file xs)"

definition database_transaction :: "event list \<Rightarrow> (Memory_File, Database) Client \<Rightarrow> Memory_File Journal \<Rightarrow>
    (unit, (Memory_File, Database) Client, Memory_File Journal) Ending result option" where
  "database_transaction xs = transaction memory_file (database_client_read memory_file) memory_connection 0 (send_events memory_file xs (Inr ()))"

definition sent_first :: "event list" where
  "sent_first = [Create_Table ''city'', Insert_Into 1 0]"

lemma sent_first_ok:
  "list_all event_fits (sent_first @ [Insert_Into 1 5, Insert_Into 1 6, Insert_Into 1 1])"
  "list_all boolean_ok (sent_first @ [Insert_Into 1 5, Insert_Into 1 6])" "sent_first \<noteq> []"
  "history_end sent_first < 2 ^ 63" "history_end (sent_first @ [Insert_Into 1 5]) < 2 ^ 63"
  "history_end (sent_first @ [Insert_Into 1 5] @ [Insert_Into 1 6]) < 2 ^ 63"
  "history_bytes (history_context initial_context sent_first) [Insert_Into 1 1] =
    history_bytes (history_context initial_context (sent_first @ [Insert_Into 1 5])) [Insert_Into 1 6]"
  by (simp_all add: sent_first_def size_fits_def record_fits_def string_bytes_def compact_bytes_def initial_context_def
      id_bytes_def reference_bytes_def)

lemma sent_first_database:
  "bind_result (fold_result db_handle (sent_first @ [Insert_Into 1 5]) (db_new null_record)) (readable_is_used 1 5) = Inr True"
  "bind_result (fold_result db_handle (sent_first @ [Insert_Into 1 5, Insert_Into 1 6]) (db_new null_record)) (readable_is_used 1 6) = Inr True"
  "bind_result (fold_result db_handle (sent_first @ [Insert_Into 1 5, Insert_Into 1 6]) (db_new null_record)) (readable_is_used 1 1) = Inr False"
  by code_simp+

text \<open>
  C38. A journal client and a database client share a table of a server. The journal client creates
  the table and inserts record 0; the database client inserts record 5; the journal client then
  inserts record 1. Every transaction succeeds, but the last insertion was abbreviated, in the context
  the journal client had left, to \<open>append\<close>, and whoever reads the journal of the server inserts
  record 6 instead of record 1.
\<close>

theorem journal_client_stale_context:
  "\<exists>s0 a b a1 s1 b1 s2 a2 s3 db. file_connection_new memory_file (memory_file_new Create_New) = Inr s0 \<and>
    writable_journal_client memory_file memory_connection Check_Fast Recovery_None (memory_file_new Create_New) s0 = Inr (a, s0) \<and>
    writable_database_client memory_file memory_connection Check_Fast null_record Recovery_None (memory_file_new Create_New) s0 = Inr (b, s0) \<and>
    journal_transaction [Create_Table ''city'', Insert_Into 1 0] a s0 = Some (Inr (Done () a1 s1)) \<and>
    database_transaction [Insert_Into 1 5] b s1 = Some (Inr (Done () b1 s2)) \<and>
    journal_transaction [Insert_Into 1 1] a1 s2 = Some (Inr (Done () a2 s3)) \<and>
    read_session memory_file database_writable (db_new null_record) (journal_file s3) = Inr db \<and>
    readable_is_used 1 6 db = Inr True \<and> readable_is_used 1 1 db = Inr False"
proof -
  have m: "Create_New \<notin> {Read_Existing, Shared_Write}" by simp
  obtain s0 where s0: "file_connection_new memory_file (memory_file_new Create_New) = Inr s0" "server_holds memory_file data [] s0"
    by (rule memory_server_new [OF m])
  obtain a where a: "writable_journal_client memory_file memory_connection Check_Fast Recovery_None (memory_file_new Create_New) s0 = Inr (a, s0)"
    "journal_ok memory_file data Create_New [] initial_context a"
    by (rule memory_server.new_journal_client [OF s0(2), of "memory_file_new Create_New" Create_New Check_Fast Recovery_None]) simp_all
  obtain b where b: "writable_database_client memory_file memory_connection Check_Fast null_record Recovery_None (memory_file_new Create_New) s0 = Inr (b, s0)"
    "client_ok memory_file data Create_New null_record [] b" "checkpoint_events 0 b = []"
    by (rule memory_server.new_client_law [OF s0(2), of "memory_file_new Create_New" Create_New Check_Fast null_record Recovery_None 0]) simp_all
  have fits: "list_all event_fits sent_first" "list_all event_fits [Insert_Into 1 5]" "list_all event_fits [Insert_Into 1 1]"
    "list_all event_fits [Insert_Into 1 6]" "list_all boolean_ok ([] @ sent_first @ [Insert_Into 1 5])"
    using sent_first_ok(1,2) by simp_all
  obtain a1 s1 where a1: "journal_transaction sent_first a s0 = Some (Inr (Done () a1 s1))" "server_holds memory_file data sent_first s1"
    "journal_ok memory_file data Create_New sent_first (history_context initial_context sent_first) a1"
    by (rule memory_server.journal_commits [of "[]" "[]" s0 Create_New initial_context a sent_first sent_first 0])
      (use s0(2) a(2) fits(1) sent_first_ok(3,4) in \<open>simp_all add: journal_transaction_def\<close>)
  from sent_first_database(1) obtain db2 where db2: "fold_result db_handle ([] @ sent_first @ [Insert_Into 1 5]) (db_new null_record) = Inr db2"
    by (auto simp: bind_result_eq_Inr)
  have st1: "server_holds memory_file data ([] @ sent_first) s1" using a1(2) by simp
  have end2: "history_end ([] @ sent_first @ [Insert_Into 1 5] @ checkpoint_events 0 b) < 2 ^ 63" using sent_first_ok(5) b(3) by simp
  obtain b1 s2 where b1: "database_transaction [Insert_Into 1 5] b s1 = Some (Inr (Done () b1 s2))"
    "server_holds memory_file data (sent_first @ [Insert_Into 1 5]) s2"
    by (rule memory_server.transaction_commits [OF st1 b(2) _ fits(2,5) db2 end2, of "()"])
      (use b(3) in \<open>simp_all add: database_transaction_def\<close>)
  obtain a2 s3 where a2: "journal_transaction [Insert_Into 1 1] a1 s2 = Some (Inr (Done () a2 s3))"
    "server_holds memory_file data (sent_first @ [Insert_Into 1 5] @ [Insert_Into 1 6]) s3"
    by (rule memory_server.journal_commits [OF b1(2) a1(3) _ fits(3,4) _ sent_first_ok(7,6), of 0]) (simp_all add: journal_transaction_def)
  from sent_first_database(2,3) obtain db where db: "fold_result db_handle (sent_first @ [Insert_Into 1 5, Insert_Into 1 6]) (db_new null_record) = Inr db"
    "readable_is_used 1 6 db = Inr True" "readable_is_used 1 1 db = Inr False" by (auto simp: bind_result_eq_Inr)
  have "read_session memory_file database_writable (db_new null_record) (journal_file s3) = Inr db"
    by (rule server_rebuilds [OF a2(2)]) (use sent_first_ok(2) db(1) in simp_all)
  with s0(1) a(1) b(1) a1(1) b1(1) a2(1) db(2,3) show ?thesis unfolding sent_first_def by blast
qed

end
