(* ===== verification/Network_Properties.thy ===== *)
theory Network_Properties
  imports Remote_Contract Journal_Client
begin

text \<open>
  A server and clients on new files, connected by the network, from the construction of the server on,
  and their properties.
\<close>

section \<open>The start of a server\<close>

lemma settled_journal_read:
  assumes "settled memory_file data m hs ss j" and "journal_context j = history_context initial_context (hs @ ss)"
  obtains j' where "journal_client_read memory_file j () = Inr (j', ())" and "settled memory_file data m hs ss j'"
    and "journal_context j' = history_context initial_context (hs @ ss)"
proof -
  have b: "behind memory_file data m hs ss [] (history_context initial_context (hs @ ss)) j"
    using memory.settled_behind [OF assms(1)] by simp
  obtain j' where j': "journal_client_read memory_file j () = Inr (j', ())" "journal_context j' = history_context initial_context (hs @ ss)"
    "settled memory_file data m hs (ss @ []) (in_context (history_context initial_context (hs @ ss @ [])) j')"
    by (rule memory.skip_law [OF b])
  moreover have "in_context (journal_context j') j' = j'" by (cases j') (simp add: in_context_def journal_context_def)
  ultimately show ?thesis using that [of j'] by simp
qed

lemma started_calm:
  assumes "m \<notin> {Read_Existing, Shared_Write}"
  obtains cl v where "writable_journal_client memory_file dummy_connection check Recovery_None (memory_file_new m) () = Inr (cl, ())"
    and "server_start memory_env timeout True cl () = Next [] v" and "calm [] None v" and "sessions v = Map.empty" and "session_id v = 0"
proof -
  obtain j where j: "open_writable_journal memory_file Recovery_None (memory_file_new m) = Inr j"
    "writer memory_file data m [] [] [] (header_bytes new_header) j" "data (journal_file j) = header_bytes new_header"
    "buffer_index (file_buffer j) = 0"
    by (rule memory.open_writable_new [of "memory_file_new m" Recovery_None]) (use assms in auto)
  then have s: "settled memory_file data m [] [] j" by (simp add: settled_def)
  have ctx: "journal_context j = history_context initial_context ([] @ [])" using memory.settled_behind [OF s] by (simp add: behind_def)
  obtain j1 where j1: "journal_client_read memory_file j () = Inr (j1, ())" "settled memory_file data m [] [] j1"
    "journal_context j1 = history_context initial_context ([] @ [])"
    by (rule settled_journal_read [OF s ctx])
  obtain j2 where j2: "journal_client_read memory_file j1 () = Inr (j2, ())" "settled memory_file data m [] [] j2"
    by (rule settled_journal_read [OF j1(2,3)])
  let ?cl = "\<lparr>client_journal = j1, client_data = (), connection_checkpoint = checkpoint_position j, content_check = check,
           use_valid_data = False, use_timestamp = False, use_hard_checkpoint = False\<rparr>"
  have new: "writable_journal_client memory_file dummy_connection check Recovery_None (memory_file_new m) () = Inr (?cl, ())"
    using j(1) j1(1) by (simp add: writable_journal_client_def open_client_def client_new_def dummy_connection_def)
  have ck: "checkpoint_position j = 41" "checkpoint_position j1 = 41" "checkpoint_position j2 = 41" "journal_get_position j1 = 41" "journal_get_position j2 = 41"
    using settled_checkpoint(1) [OF s] settled_checkpoint(1) [OF j1(2)] settled_checkpoint(1) [OF j2(2)]
      memory.settled_position [OF j1(2)] memory.settled_position [OF j2(2)] by simp_all
  have mode: "get_mode memory_file (journal_file j1) = m" "get_mode memory_file (journal_file j2) = m"
    using j1(2) j2(2) by (simp_all add: settled_def writer_def writing_def)
  then have ns: "\<not> is_shared memory_file (journal_file j1)" using assms by (simp add: is_shared_def)
  then have lock: "client_lock_new memory_file (journal_client_read memory_file) dummy_connection ?cl () =
      Some (Inr (Done () \<lparr>locked_client = ?cl\<lparr>client_journal := j2, connection_checkpoint := 41\<rparr>, locked = True\<rparr> ()))"
    using j2(1) ck by (simp add: client_lock_new_def get_tail_lock_def start_transaction_def tail_exclusive_lock_def lock_pull_def dummy_connection_def)
  obtain v where v: "server_start memory_env timeout True ?cl () = Next [] v"
    "v = \<lparr>server_client = ?cl\<lparr>client_journal := j2, connection_checkpoint := 41\<rparr>, server_connection = (), is_writable = True, client_lock = Some True,
          lock_timeout = timeout, is_locked = False, lock_waiters = [], pull_waiters = [], sessions = Map.empty, session_id = 0\<rparr>"
    using lock ns ck by (simp add: server_start_def writable_push_if_ahead_def from_outcome_def memory_env_def client_is_shared_def Let_def)
  have "server_holds memory_file data [] j2"
    using memory.settled_behind [OF j2(2)] assms by (auto simp: behind_def server_holds_def)
  then have "calm [] None v" using ck by (simp add: calm_def v(2))
  then show ?thesis using that new v by simp
qed

section \<open>Connecting\<close>

lemma hello_run:
  assumes "calm es None v" and "i = session_id v" and "history_end es < 2 ^ 63"
    and "greeting = joedb_signature @ int64_bytes protocol_version"
    and "outs = joedb_signature @ int64_bytes protocol_version @ to_bytes 8 (word_of_nat i :: 64 word) @ int64_bytes (int (history_end es)) @ [87]"
  obtains v' where "session_run i (new_session v) greeting outs v'" and "calm es None v'" and "dom (sessions v') = insert i (dom (sessions v))"
    and "session_id v' = Suc i"
proof -
  let ?s = "\<lparr>session_locking = False, push_status = 0, push_writer = None, first_byte = 0, phase = Handshaking, woken = False\<rparr>"
  have new: "new_session v = put_session i ?s (v\<lparr>session_id := Suc i\<rparr>)" using assms(2) by (simp add: new_session_def)
  have sig: "length joedb_signature = 5" by (simp add: joedb_signature_def)
  have "read_int64 5 greeting = protocol_version"
    using read_int64_bytes [of protocol_version joedb_signature 5 "[]"] sig by (simp add: assms(4))
  then have read: "take 5 greeting = joedb_signature" "read_int64 5 greeting = 20" "length greeting = 13" using sig by (simp_all add: assms(4))
  have ck: "server_checkpoint_position v = int (history_end es)" "is_writable v" using calm_checkpoint [OF assms(1)] assms(1) by (simp_all add: calm_def)
  from read(3) have "greeting \<noteq> []" by auto
  let ?t = "?s\<lparr>first_byte := greeting ! 0, phase := Replying\<rparr>"
  let ?u = "put_session i ?t (v\<lparr>session_id := Suc i\<rparr>)"
  have "server_step memory_env i (Received greeting) (new_session v) = Next outs ?u"
    using read ck assms(5)
    by (simp add: new step_simps handshake_reply_def Let_def int64_bytes_def put_session_def memory_env_def dummy_connection_def)
  let ?v = "put_session i (?t\<lparr>phase := Idle\<rparr>) (v\<lparr>session_id := Suc i\<rparr>)"
  have "server_step memory_env i Written ?u = Next [] ?v" by (simp add: step_simps put_session_def)
  from session_run.written [OF _ _ this session_run.stay, of ?t] have "session_run i ?u [] [] ?v" by simp
  from session_run.receive [OF _ _ _ \<open>server_step _ _ (Received greeting) _ = _\<close> this, of ?s] read \<open>greeting \<noteq> []\<close>
  have "session_run i (new_session v) greeting outs ?v" by (auto simp: new expected_def)
  moreover have "calm es None ?v" using assms(1,2) by (auto simp: calm_def put_session_def less_Suc_eq)
  moreover have "dom (sessions ?v) = insert i (dom (sessions v))" "session_id ?v = Suc i" by (simp_all add: put_session_def)
  ultimately show ?thesis by (rule that)
qed

definition net_accept :: "Network \<Rightarrow> Network" where
  "net_accept n = n\<lparr>net_server := new_session (net_server n)\<rparr>"

lemma connect_law:
  assumes "connected k es None r" and "session_id (net_server (remote_net r)) = k" and "history_end es < 2 ^ 63"
  obtains s where "connect (net_channel grain k) (net_accept (remote_net r)) = Inr s" and "greeted (Suc k) k es (set_peer k s r)"
    and "session_id (net_server (client_channel s)) = Suc k"
proof -
  let ?n = "net_accept (remote_net r)" and ?v = "net_server (remote_net r)"
  let ?id = "to_bytes 8 (word_of_nat k :: 64 word)" and ?hello = "joedb_signature @ int64_bytes protocol_version"
  let ?outs = "joedb_signature @ int64_bytes protocol_version @ ?id @ int64_bytes (int (history_end es)) @ [87]"
  have c: "calm es None ?v" "silent (remote_net r)" "\<forall>i<k. i \<in> dom (sessions ?v)" using assms(1) by (auto simp: connected_def)
  obtain v where v: "session_run k (new_session ?v) ?hello ?outs v" "calm es None v" "dom (sessions v) = insert k (dom (sessions ?v))" "session_id v = Suc k"
    by (rule hello_run [OF c(1) assms(2) [symmetric] assms(3) refl refl])
  have q: "silent ?n" "net_server ?n = new_session ?v" using c(2) by (simp_all add: net_accept_def)
  have "idle_at k (new_session ?v)" using assms(2) by (simp add: idle_at_def new_session_def put_session_def expected_def)
  moreover have "idle_at k v" using v(2,3) calm_idle by blast
  ultimately have wr: "channel_write (net_channel grain k) ?hello ?n = Inr (exchanged k v [] ?outs ?n)"
    using request_reply [of k ?n ?hello ?outs v grain] v(1) q by simp
  have len: "length joedb_signature = 5" "length ?id = 8" by (simp_all add: joedb_signature_def)
  then have read: "channel_read (net_channel grain k) 30 (exchanged k v [] ?outs ?n) = Inr (?outs, ?n\<lparr>net_server := v\<rparr>)"
    using reply_read [OF q(1), of 30 ?outs grain k v] q(1) by simp
  have "read_int64 5 ?outs = 20" "read_int64 21 ?outs = int (history_end es)" "take 5 ?outs = joedb_signature" "?outs ! 29 = 87"
    using read_int64_bytes [of 20 joedb_signature 5 "?id @ int64_bytes (int (history_end es)) @ [87]"]
      read_int64_bytes [of "int (history_end es)" "joedb_signature @ int64_bytes protocol_version @ ?id" 21 "[87]"] assms(3) len
    by (simp_all add: nth_append)
  then obtain s where s: "connect (net_channel grain k) ?n = Inr s" "client_channel s = ?n\<lparr>net_server := v\<rparr>" "server_checkpoint s = int (history_end es)"
    using wr read by (simp add: connect_def)
  moreover have "greeted (Suc k) k es (set_peer k s r)" using s(2,3) v(2,3) c(3) q(1) by (auto simp: greeted_def connected_def less_Suc_eq)
  ultimately show ?thesis using that v(4) by simp
qed

section \<open>A server and its clients\<close>

definition network_server :: "Open_Mode \<Rightarrow> int \<Rightarrow> Remote option" where
  "network_server m timeout =
     (case writable_journal_client memory_file dummy_connection Check_None Recovery_None (memory_file_new m) () of
        Inl e \<Rightarrow> None
      | Inr (cl, c) \<Rightarrow>
          (case server_start memory_env timeout True cl c of
             Next bs v \<Rightarrow> Some \<lparr>remote_net = \<lparr>net_server = v, to_server = \<lambda>_. [], to_client = \<lambda>_. []\<rparr>,
               remote_peers = \<lambda>_. \<lparr>client_channel = (), client_session_id = 0, pullonly_server = False, server_checkpoint = 0\<rparr>\<rparr>
           | _ \<Rightarrow> None))"

text \<open>Client \<open>i\<close> connects, then opens a database on a new file.\<close>

fun network_open :: "nat \<Rightarrow> Content_Check \<Rightarrow> Record_Id \<Rightarrow> Open_Mode \<Rightarrow> nat \<Rightarrow> Remote \<Rightarrow> ((Memory_File, Database) Client list \<times> Remote) result" where
  "network_open grain check k m 0 r = Inr ([], r)"
| "network_open grain check k m (Suc i) r =
     bind_result (network_open grain check k m i r) (\<lambda>(cs, r1).
     bind_result (connect (net_channel grain i) (net_accept (remote_net r1))) (\<lambda>s.
     bind_result (writable_database_client memory_file (network_connection memory_file grain i) check k Recovery_None (memory_file_new m)
                    (set_peer i s r1)) (\<lambda>(c, r2).
     Inr (cs @ [c], r2))))"

definition network_schedule :: "nat \<Rightarrow> int \<Rightarrow> Open_Mode \<Rightarrow> Content_Check \<Rightarrow> Record_Id \<Rightarrow> nat \<Rightarrow> (nat \<times> event list) list \<Rightarrow>
    ((Memory_File, Database) Client list \<times> Remote) result option" where
  "network_schedule grain timeout m check k n ts =
     (case network_server m timeout of
        None \<Rightarrow> None
      | Some r0 \<Rightarrow>
          bind_outcome (Some (network_open grain check k m n r0)) (\<lambda>(cs, r1).
          run_transactions memory_file (network_connection memory_file grain) ts (cs, r1)))"

definition remote_journal :: "Remote \<Rightarrow> Memory_File Journal" where
  "remote_journal r = server_journal (net_server (remote_net r))"

lemma network_server_law:
  assumes "m \<notin> {Read_Existing, Shared_Write}"
  obtains r where "network_server m timeout = Some r" and "connected 0 [] None r" and "session_id (net_server (remote_net r)) = 0"
proof -
  obtain cl v where v: "writable_journal_client memory_file dummy_connection Check_None Recovery_None (memory_file_new m) () = Inr (cl, ())"
    "server_start memory_env timeout True cl () = Next [] v" "calm [] None v" "session_id v = 0"
    by (rule started_calm [OF assms])
  then show ?thesis using that by (simp add: network_server_def connected_def silent_def)
qed

lemma network_open_law:
  assumes "connected 0 [] None r" and "session_id (net_server (remote_net r)) = 0" and "m \<notin> {Read_Existing, Shared_Write}"
  shows "\<exists>cs r'. network_open grain check k m n r = Inr (cs, r') \<and> connected n [] None r' \<and> session_id (net_server (remote_net r')) = n \<and>
    length cs = n \<and> views memory_file data m k [] cs"
proof (induction n)
  case 0
  then show ?case using assms by (simp add: views_def)
next
  case (Suc i)
  then obtain cs r1 where r1: "network_open grain check k m i r = Inr (cs, r1)" "connected i [] None r1"
    "session_id (net_server (remote_net r1)) = i" "length cs = i" "views memory_file data m k [] cs" by blast
  obtain s where s: "connect (net_channel grain i) (net_accept (remote_net r1)) = Inr s" "greeted (Suc i) i [] (set_peer i s r1)"
    "session_id (net_server (client_channel s)) = Suc i"
    by (rule connect_law [OF r1(2,3)]) simp
  note contract = memory.remote_contract [OF lessI, of i grain]
  obtain c where c: "writable_database_client memory_file (network_connection memory_file grain i) check k Recovery_None (memory_file_new m)
      (set_peer i s r1) = Inr (c, set_peer i s r1)" "client_ok memory_file data m k [] c" "checkpoint_events 0 c = []"
    "connected (Suc i) [] None (set_peer i s r1)"
    by (rule connection_contract.new_client_law [OF contract s(2), of "memory_file_new m" m check k Recovery_None 0])
      (use assms(3) in simp_all)
  have "views memory_file data m k [] (cs @ [c])" using r1(5) c(2,3) by (auto simp: views_def)
  then show ?case using r1(1,4) s(1,3) c(1,4) by simp
qed

lemma network_schedule_law:
  assumes "schedule_ok m n ts" and "fold_result db_handle (concat (map snd ts)) (db_new k) = Inr db"
  obtains cs r where "network_schedule grain timeout m check k n ts = Some (Inr (cs, r))" and "connected n (concat (map snd ts)) None r"
    and "length cs = n" and "views memory_file data m k (concat (map snd ts)) cs" and "ts \<noteq> [] \<longrightarrow> client_data (cs ! fst (last ts)) = db"
proof -
  let ?es = "concat (map snd ts)"
  have m: "m \<notin> {Read_Existing, Shared_Write}" "m \<noteq> Shared_Write" using assms(1) by (auto simp: schedule_ok_def)
  obtain r0 where r0: "network_server m timeout = Some r0" "connected 0 [] None r0" "session_id (net_server (remote_net r0)) = 0"
    by (rule network_server_law [OF m(1)])
  from network_open_law [OF r0(2,3) m(1), of grain check k n] obtain cs r1 where
    r1: "network_open grain check k m n r0 = Inr (cs, r1)" "connected n [] None r1" "length cs = n" "views memory_file data m k [] cs" by blast
  have "list_all boolean_ok ([] @ ?es)" "list_all (\<lambda>(i, xs). i < n \<and> list_all event_fits xs) ts" "history_end ([] @ ?es) < 2 ^ 63"
    using assms(1) by (auto simp: list_all_iff schedule_ok_def)
  from network_clients.run_transactions_law [OF r1(2-4) m(2) this(2,1) _ this(3), of db grain] assms(2)
  obtain cs' r where fin: "run_transactions memory_file (network_connection memory_file grain) ts (cs, r1) = Some (Inr (cs', r))"
    "connected n ?es None r" "length cs' = length cs" "views memory_file data m k ?es cs'" "ts \<noteq> [] \<longrightarrow> client_data (cs' ! fst (last ts)) = db"
    by auto
  show ?thesis by (rule that [of cs' r]) (use fin r0(1) r1(1,3) in \<open>simp_all add: network_schedule_def\<close>)
qed

section \<open>Properties\<close>

text \<open>
  C5. Transactions over the network are serialized. A server on a new file is started, clients
  connect to it, each opens a database on a new file of its own, and they run transactions in any
  order, each one with its requests and replies cut into pieces of any size by the channel. If the events
  of all transactions, one after the other, are accepted by a single database, then every call of the
  protocol succeeds, the journal of the server rebuilds that database, the client that ran last holds
  it, and every other client holds a database that the server went through.
\<close>

theorem network_transactions_serialized:
  assumes "schedule_ok m n ts" and "fold_result db_handle (concat (map snd ts)) (db_new k) = Inr db"
  shows "\<exists>cs r. network_schedule grain timeout m check k n ts = Some (Inr (cs, r)) \<and> length cs = n \<and>
    read_session memory_file database_writable (db_new k) (journal_file (remote_journal r)) = Inr db \<and>
    (ts \<noteq> [] \<longrightarrow> client_data (cs ! fst (last ts)) = db) \<and>
    (\<forall>i < n. \<exists>es es'. concat (map snd ts) = es @ es' \<and> fold_result db_handle es (db_new k) = Inr (client_data (cs ! i)))"
proof -
  obtain cs r where run: "network_schedule grain timeout m check k n ts = Some (Inr (cs, r))" "connected n (concat (map snd ts)) None r"
    "length cs = n" "views memory_file data m k (concat (map snd ts)) cs" "ts \<noteq> [] \<longrightarrow> client_data (cs ! fst (last ts)) = db"
    by (rule network_schedule_law [OF assms])
  have "server_holds memory_file data (concat (map snd ts)) (remote_journal r)"
    using run(2) by (simp add: connected_def calm_def remote_journal_def)
  from server_rebuilds [OF this schedule_ok_events(2) [OF assms(1)] assms(2)]
  have "read_session memory_file database_writable (db_new k) (journal_file (remote_journal r)) = Inr db" .
  moreover have "\<forall>i < n. \<exists>es es'. concat (map snd ts) = es @ es' \<and> fold_result db_handle es (db_new k) = Inr (client_data (cs ! i))"
    using run(3,4) unfolding views_def list_all_length client_ok_def by metis
  ultimately show ?thesis using run(1,3,5) by blast
qed

theorem network_transactions_serialized_witness:
  "\<exists>db cs r. network_schedule 3 1000 Create_New Check_Fast (- 1) 2 example_schedule = Some (Inr (cs, r)) \<and>
    read_session memory_file database_writable (db_new (- 1)) (journal_file (remote_journal r)) = Inr db \<and> client_data (cs ! 1) = db \<and>
    db_get String_Type 1 0 1 db = Inr (String_Value ''Lille'')"
proof -
  from example_sessions_db(2) obtain db where db: "fold_result db_handle (concat (map snd example_schedule)) (db_new (- 1)) = Inr db"
    "db_get String_Type 1 0 1 db = Inr (String_Value ''Lille'')" by (auto simp: bind_result_eq_Inr example_schedule_ok(2))
  have "example_schedule \<noteq> []" "fst (last example_schedule) = 1" by (simp_all add: example_schedule_def)
  with network_transactions_serialized [OF example_schedule_ok(1) db(1), of 3 1000 Check_Fast] db(2) show ?thesis by auto
qed

end
