(* ===== verification/Hash_Properties.thy ===== *)
theory Hash_Properties
  imports SHA_256
begin

unbundle bit_operations_syntax

text \<open>
  The hash codes of \<open>SHA_256.h\<close> and \<open>get_hash.cpp\<close> against a reference definition written from the
  standard (FIPS 180-4): the message is padded as a whole and every block compressed with the
  recursive message schedule. The code never holds the message: it reads a file by blocks, and pads
  the end of the last one.
\<close>

section \<open>The standard\<close>

definition fips_ch :: "32 word \<Rightarrow> 32 word \<Rightarrow> 32 word \<Rightarrow> 32 word" where
  "fips_ch x y z = (x AND y) XOR (NOT x AND z)"

definition fips_maj :: "32 word \<Rightarrow> 32 word \<Rightarrow> 32 word \<Rightarrow> 32 word" where
  "fips_maj x y z = (x AND y) XOR (x AND z) XOR (y AND z)"

definition fips_Sigma0 :: "32 word \<Rightarrow> 32 word" where
  "fips_Sigma0 x = word_rotr 2 x XOR word_rotr 13 x XOR word_rotr 22 x"

definition fips_Sigma1 :: "32 word \<Rightarrow> 32 word" where
  "fips_Sigma1 x = word_rotr 6 x XOR word_rotr 11 x XOR word_rotr 25 x"

definition fips_sigma0 :: "32 word \<Rightarrow> 32 word" where
  "fips_sigma0 x = word_rotr 7 x XOR word_rotr 18 x XOR drop_bit 3 x"

definition fips_sigma1 :: "32 word \<Rightarrow> 32 word" where
  "fips_sigma1 x = word_rotr 17 x XOR word_rotr 19 x XOR drop_bit 10 x"

fun fips_W :: "byte list \<Rightarrow> nat \<Rightarrow> 32 word" where
  "fips_W M t =
     (if t < 16 then word_rcat (take 4 (drop (4 * t) M))
      else fips_sigma1 (fips_W M (t - 2)) + fips_W M (t - 7) + fips_sigma0 (fips_W M (t - 15)) + fips_W M (t - 16))"

declare fips_W.simps [simp del]

type_synonym fips_state =
  "32 word \<times> 32 word \<times> 32 word \<times> 32 word \<times> 32 word \<times> 32 word \<times> 32 word \<times> 32 word"

fun fips_round :: "byte list \<Rightarrow> nat \<Rightarrow> fips_state \<Rightarrow> fips_state" where
  "fips_round M t (a, b, c, d, e, f, g, h) =
     (let T1 = h + fips_Sigma1 e + fips_ch e f g + sha_k ! t + fips_W M t;
          T2 = fips_Sigma0 a + fips_maj a b c
      in (T1 + T2, a, b, c, d + T1, e, f, g))"

fun fips_block :: "byte list \<Rightarrow> fips_state \<Rightarrow> fips_state" where
  "fips_block M (a, b, c, d, e, f, g, h) =
     (case fold (fips_round M) [0..<64] (a, b, c, d, e, f, g, h) of
        (a', b', c', d', e', f', g', h') \<Rightarrow>
          (a + a', b + b', c + c', d + d', e + e', f + f', g + g', h + h'))"

definition fips_pad :: "byte list \<Rightarrow> byte list" where
  "fips_pad msg =
     msg @ [0x80] @ replicate (nat ((55 - int (length msg)) mod 64)) 0 @ rev (nat_le 8 (8 * length msg))"

definition chunks :: "byte list \<Rightarrow> byte list list" where
  "chunks bs = map (\<lambda>i. take 64 (drop (64 * i) bs)) [0..<length bs div 64]"

fun hash_words :: "fips_state \<Rightarrow> Hash" where
  "hash_words (a, b, c, d, e, f, g, h) = [a, b, c, d, e, f, g, h]"

definition sha256 :: "byte list \<Rightarrow> Hash" where
  "sha256 msg = hash_words (fold fips_block (chunks (fips_pad msg))
     (0x6a09e667, 0xbb67ae85, 0x3c6ef372, 0xa54ff53a, 0x510e527f, 0x9b05688c, 0x1f83d9ab, 0x5be0cd19))"

section \<open>One chunk\<close>

lemma rotr_word_rotr:
  assumes "0 < n" and "n < 32"
  shows "rotr x n = word_rotr n x"
proof -
  have "(- int n) AND 31 = (- int n) AND mask 5" by (simp add: mask_eq_exp_minus_1)
  also have "\<dots> = (- int n) mod 32" by (simp add: take_bit_eq_mod flip: take_bit_eq_mask)
  also have "\<dots> = 32 - int n" using assms by (simp add: zmod_zminus1_eq_if)
  finally have shift: "nat ((- int n) AND 31) = 32 - n" using assms by simp
  show ?thesis
  proof (rule bit_word_eqI)
    fix k assume k: "k < LENGTH(32)"
    have "bit (rotr x n) k \<longleftrightarrow> bit x (n + k) \<or> 32 - n \<le> k \<and> bit x (k - (32 - n))"
      using k by (simp add: rotr_def shift bit_simps)
    also have "\<dots> \<longleftrightarrow> bit x ((k + n) mod 32)"
    proof (cases "k + n < 32")
      case False
      moreover from this have "\<not> bit x (n + k)" using bit_imp_le_length [of x "n + k"] by auto
      ultimately show ?thesis using k assms by (auto simp: mod_if)
    qed (use assms in \<open>auto simp: add.commute\<close>)
    finally show "bit (rotr x n) k = bit (word_rotr n x) k" using k by (simp add: bit_word_rotr_iff)
  qed
qed

lemma rotr_simps [simp]:
  "rotr x 2 = word_rotr 2 x" "rotr x 6 = word_rotr 6 x" "rotr x 7 = word_rotr 7 x" "rotr x 11 = word_rotr 11 x"
  "rotr x 13 = word_rotr 13 x" "rotr x 17 = word_rotr 17 x" "rotr x 18 = word_rotr 18 x"
  "rotr x 19 = word_rotr 19 x" "rotr x 22 = word_rotr 22 x" "rotr x 25 = word_rotr 25 x"
  by (simp_all add: rotr_word_rotr)

lemma four_bytes:
  assumes "4 * i + 4 \<le> length M"
  shows "take 4 (drop (4 * i) M) = [M ! (4 * i), M ! (4 * i + 1), M ! (4 * i + 2), M ! (4 * i + 3)]"
  using assms by (auto intro!: nth_equalityI simp: less_Suc_eq numeral_eq_Suc)

lemma bytes_concat: "uint (d :: byte) + 256 * y = concat_bit 8 (uint d) y"
  using uint_lt2p [of d] by (simp add: concat_bit_eq push_bit_eq_mult take_bit_int_eq_self)

lemma word_rcat_bytes:
  fixes a b c d :: byte
  shows "(word_rcat [a, b, c, d] :: 32 word) = push_bit 24 (ucast a) OR push_bit 16 (ucast b) OR push_bit 8 (ucast c) OR ucast d"
proof -
  have "(word_rcat [a, b, c, d] :: 32 word) =
      word_of_int (concat_bit 8 (uint d) (concat_bit 8 (uint c) (concat_bit 8 (uint b) (uint a))))"
    by (simp add: word_rcat_def bytes_concat)
  moreover have high: "\<not> bit x k" if "8 \<le> k" for x :: byte and k using bit_imp_le_length [of x k] that by auto
  ultimately show ?thesis
  proof (intro bit_word_eqI, goal_cases)
    case (1 n)
    then consider "n < 8" | "8 \<le> n" "n < 16" | "16 \<le> n" "n < 24" | "24 \<le> n" by fastforce
    then show ?case by cases (use 1 in \<open>auto simp: bit_simps bit_concat_bit_iff high\<close>)
  qed
qed

lemma big_endian_word_W: "i < 16 \<Longrightarrow> length M = 64 \<Longrightarrow> big_endian_word M i = fips_W M i"
  by (simp add: big_endian_word_def fips_W.simps four_bytes word_rcat_bytes)

lemma schedule_prefix:
  assumes "length M = 64" and "16 \<le> n"
  shows "fold extend_schedule [16..<n] (map (big_endian_word M) [0..<16]) = map (fips_W M) [0..<n]"
  using assms(2)
proof (induction n rule: dec_induct)
  case base
  show ?case using assms(1) by (simp add: big_endian_word_W)
next
  case (step n)
  have "extend_schedule n (map (fips_W M) [0..<n]) = map (fips_W M) [0..<n] @ [fips_W M n]"
    using step.hyps(1) fips_W.simps [of M n]
    by (simp add: extend_schedule_def Let_def fips_sigma0_def fips_sigma1_def algebra_simps)
  then show ?case using step by simp
qed

lemma schedule_W: "length M = 64 \<Longrightarrow> schedule M = map (fips_W M) [0..<64]"
  unfolding schedule_def by (rule schedule_prefix) simp_all

lemma sha_round_fips:
  assumes "length M = 64" and "i < 64"
  shows "sha_round (schedule M) i (hash_words s) = hash_words (fips_round M i s)"
  using assms by (cases s rule: hash_words.cases) (simp add: sha_round_def Let_def schedule_W fips_Sigma0_def fips_Sigma1_def fips_ch_def fips_maj_def)

lemma sha_rounds_fips:
  assumes "length M = 64" and "n \<le> 64"
  shows "fold (sha_round (schedule M)) [0..<n] (hash_words s) = hash_words (fold (fips_round M) [0..<n] s)"
  using assms(2) by (induction n) (simp_all add: sha_round_fips [OF assms(1)])

lemma process_chunk_fips:
  assumes "length M = 64"
  shows "process_chunk M (hash_words s) = hash_words (fips_block M s)"
  using sha_rounds_fips [OF assms, of 64 s] by (cases s rule: hash_words.cases) (simp add: process_chunk_def split: prod.splits)

section \<open>A whole message\<close>

lemma length_chunks: "c \<in> set (chunks bs) \<Longrightarrow> length c = 64"
proof -
  assume "c \<in> set (chunks bs)"
  then obtain i where "i < length bs div 64" "c = take 64 (drop (64 * i) bs)" by (auto simp: chunks_def)
  moreover from this have "64 * i + 64 \<le> length bs" by (simp add: less_eq_div_iff_mult_less_eq flip: Suc_le_eq)
  ultimately show ?thesis by simp
qed

lemma chunks_append:
  assumes "length xs = 64 * n"
  shows "chunks (xs @ ys) = chunks xs @ chunks ys"
proof -
  have "[0..<length (xs @ ys) div 64] = [0..<n] @ map (\<lambda>i. i + n) [0..<length ys div 64]"
    using assms upt_add_eq_append [of 0 n "length ys div 64"] map_add_upt [of n "length ys div 64"]
    by (simp add: add.commute)
  moreover have "take 64 (drop (64 * i) (xs @ ys)) = take 64 (drop (64 * i) xs)" if "i < n" for i
    using that assms by (simp add: diff_le_mono2)
  moreover have "take 64 (drop (64 * (i + n)) (xs @ ys)) = take 64 (drop (64 * i) ys)" for i
    using assms by (simp add: algebra_simps)
  ultimately show ?thesis using assms by (simp add: chunks_def o_def)
qed

lemma process_block_fold: "process_block bs h = fold process_chunk (chunks bs) h"
  by (simp add: process_block_def chunks_def fold_map o_def)

lemma process_block_append:
  "length xs = 64 * n \<Longrightarrow> process_block (xs @ ys) h = process_block ys (process_block xs h)"
  by (simp add: process_block_fold chunks_append)

lemma fold_process_chunk: "\<forall>c\<in>set cs. length c = 64 \<Longrightarrow> fold process_chunk cs (hash_words s) = hash_words (fold fips_block cs s)"
  by (induction cs arbitrary: s) (simp_all add: process_chunk_fips)

lemma sha256_process_block: "sha256 msg = process_block (fips_pad msg) hash_init"
  using fold_process_chunk [of "chunks (fips_pad msg)"] length_chunks
  by (simp add: sha256_def process_block_fold hash_init_def flip: hash_words.simps)

lemma length_loop_bytes:
  "i \<le> index \<Longrightarrow> index \<le> length buf \<Longrightarrow>
     length_loop i index w buf = take (index - i) buf @ rev (nat_le i (unat w)) @ drop index buf"
proof (induction i index w buf rule: length_loop.induct)
  case (2 i index w buf)
  have "ucast w = (word_of_nat (unat w mod 256) :: byte)" 
    by (rule word_unat_eq_iff [THEN iffD2]) (simp add: unsigned_ucast_eq unsigned_of_nat take_bit_eq_mod)
  moreover have "unat (drop_bit 8 w) = unat w div 256" by (simp add: drop_bit_eq_div unat_div)
  moreover have "take (index - 1 - i) (buf[index - 1 := x]) = take (index - Suc i) buf" for x using "2.prems" by simp
  moreover have "drop (index - 1) (buf[index - 1 := x]) = x # drop index buf" for x
    using "2.prems" by (simp add: drop_update_swap Cons_nth_drop_Suc flip: Cons_nth_drop_Suc)
  ultimately show ?case using 2 by simp
qed simp

lemma pad_zeros:
  assumes "n < 64" and "m mod 64 = n"
  shows "nat ((55 - int m) mod 64) = (if n + 9 \<le> 64 then 55 - n else 119 - n)"
proof -
  have "(55 - int m) mod 64 = (55 - int n) mod 64"
    using assms(2) by (metis mod_diff_right_eq of_nat_mod of_nat_numeral)
  also have "\<dots> = (if n + 9 \<le> 64 then 55 - int n else 119 - int n)"
  proof (cases "n + 9 \<le> 64")
    case False
    then have "(55 - int n) mod 64 = (55 - int n + 64) mod 64" by (simp only: mod_add_self2)
    also have "\<dots> = 119 - int n" using False assms(1) by (subst mod_pos_pos_trivial) simp_all
    finally show ?thesis using False by simp
  qed (simp add: mod_pos_pos_trivial)
  finally show ?thesis using assms(1) by (auto simp: nat_diff_distrib)
qed

lemma fold_chunks_take:
  assumes "64 * n \<le> length bs"
  shows "fold (\<lambda>i. process_chunk (take 64 (drop (64 * i) bs))) [0..<n] h = process_block (take (64 * n) bs) h"
proof -
  have "take 64 (drop (64 * i) (take (64 * n) bs)) = take 64 (drop (64 * i) bs)" if "i < n" for i
  proof -
    have "64 \<le> 64 * n - 64 * i" using that by (simp flip: diff_mult_distrib2)
    then show ?thesis by (simp add: drop_take min_absorb1)
  qed
  then show ?thesis using assms by (auto simp: process_block_def intro: fold_cong)
qed

lemma final_chunk_pad:
  assumes "length xs = 64 * k" and "length tail < 64" and "length (xs @ tail) = m" and "8 * m < 2 ^ 64"
  shows "process_final_chunk tail (word_of_nat m) (process_block xs h) = process_block (fips_pad (xs @ tail)) h"
proof -
  let ?n = "length tail"
  let ?count = "if ?n + 9 \<le> 64 then 1 else 2 :: nat" and ?len = "rev (nat_le 8 (8 * m))"
  let ?buf = "(tail @ replicate (128 - ?n) 0)[?n := 0x80] :: byte list"
  let ?final = "length_loop 8 (?count * 64) (word_of_nat m * 8) ?buf"
  have tail_mod: "m mod 64 = ?n" using assms(1-3) by auto
  have total: "unat (word_of_nat m :: 64 word) = m" using assms(4) by (simp add: unat_of_nat)
  have "word_of_nat m AND (0x3f :: 64 word) = take_bit 6 (word_of_nat m)"
    by (simp add: take_bit_eq_mask mask_eq_exp_minus_1)
  then have n: "unat (word_of_nat m AND (0x3f :: 64 word)) = ?n"
    using tail_mod total by (simp add: take_bit_eq_mod unat_mod)
  have "unat (word_of_nat m * 8 :: 64 word) = 8 * m"
    using total assms(4) by (subst unat_mult_lem [THEN iffD1]) simp_all
  then have loop: "length_loop 8 (?count * 64) (word_of_nat m * 8) ?buf = take (?count * 64 - 8) ?buf @ ?len @ drop (?count * 64) ?buf"
    using assms(2) by (subst length_loop_bytes) simp_all
  have "128 - ?n = Suc (127 - ?n)" using assms(2) by simp
  then have "?buf = tail @ 0x80 # replicate (127 - ?n) 0" by (simp add: list_update_append)
  moreover obtain d where d: "?count * 64 - 9 - ?n = d" "?count * 64 - 8 = ?n + Suc d" "d \<le> 127 - ?n"
    using assms(2) by (cases "?n + 9 \<le> 64") auto
  ultimately have "take (?count * 64 - 8) ?buf = tail @ 0x80 # replicate (?count * 64 - 9 - ?n) 0"
    unfolding d(1,2) by (simp add: min_absorb1)
  moreover have "take (?count * 64) (take (?count * 64 - 8) ?buf @ ?len @ drop (?count * 64) ?buf) = take (?count * 64 - 8) ?buf @ ?len"
    using assms(2) by simp
  ultimately have "take (?count * 64) (length_loop 8 (?count * 64) (word_of_nat m * 8) ?buf) =
      tail @ 0x80 # replicate (?count * 64 - 9 - ?n) 0 @ ?len"
    unfolding loop by simp
  moreover have "fips_pad (xs @ tail) = xs @ (tail @ 0x80 # replicate (?count * 64 - 9 - ?n) 0 @ ?len)"
    using pad_zeros [OF assms(2) tail_mod] assms(3) by (simp add: fips_pad_def)
  moreover have "process_final_chunk tail (word_of_nat m) g = process_block (take (?count * 64) ?final) g" for g
  proof -
    have "64 * ?count \<le> length ?final" using assms(2) unfolding loop by simp
    from fold_chunks_take [OF this, of g] show ?thesis
      by (simp only: process_final_chunk_def Let_def n take_all order_refl mult.commute)
  qed
  ultimately show ?thesis using process_block_append [OF assms(1)] by simp
qed

section \<open>A part of a file\<close>

definition slice :: "byte list \<Rightarrow> nat \<Rightarrow> nat \<Rightarrow> byte list" where
  "slice c p q = take (q - p) (drop p c)"

lemma slice_append: "p \<le> q \<Longrightarrow> q \<le> r \<Longrightarrow> slice c p r = slice c p q @ slice c q r"
  using take_add [of "q - p" "r - q" "drop p c"] by (simp add: slice_def)

lemma length_slice: "q \<le> length c \<Longrightarrow> length (slice c p q) = q - p"
  by (auto simp: slice_def)

context readable_file
begin

lemma full_hash_loop_law:
  assumes "p \<le> q" and "q \<le> until" and "until \<le> length (content f)" and "q - p = 64 * k" and "8 * (until - p) < 2 ^ 64"
  shows "full_hash_loop F f (int p) (int until) (int q) (process_block (slice (content f) p q) h) =
     Inr (process_block (fips_pad (slice (content f) p until)) h)"
  using assms(1,2,4)
proof (induction "until - q" arbitrary: q k rule: less_induct)
  case less
  let ?c = "content f"
  define n where "n = min hash_block_size (until - q)"
  have bsize: "next_block_size (int q) (int until) = n" using less.prems(2) by (simp add: n_def next_block_size_nat nat_diff_distrib)
  have endq: "q + n \<le> until" "n \<le> hash_block_size" using less.prems(2) by (simp_all add: n_def)
  have read: "full_pread F n (int q) f = Inr (slice ?c q (q + n))"
    using full_pread_law [of "int q" n f] endq assms(3) by (simp add: slice_def)
  have len: "length (slice ?c p q) = 64 * k" "length (slice ?c q (q + n)) = n"
    using length_slice [of q ?c p] length_slice [of "q + n" ?c q] less.prems endq assms(3) by simp_all
  let ?bs = "slice ?c q (q + n)" and ?xs = "slice ?c p q"
  have all: "slice ?c p (q + n) = ?xs @ ?bs" by (rule slice_append [OF less.prems(1)]) simp
  show ?case
  proof (cases "n mod 64 = 0 \<and> q + n < until")
    case True
    then have len': "length (slice ?c p (q + n)) = 64 * (k + n div 64)" using all len by auto
    have pos: "0 < n" using True by (simp add: n_def)
    have "full_hash_loop F f (int p) (int until) (int (q + n)) (process_block (slice ?c p (q + n)) h) =
        Inr (process_block (fips_pad (slice ?c p until)) h)"
      by (rule less.hyps [where k = "k + n div 64"]) (use True pos less.prems len' assms(3) in \<open>auto simp: length_slice\<close>)
    moreover have "process_block (slice ?c p (q + n)) h = process_block (take n ?bs) (process_block ?xs h)"
      using len by (simp add: all process_block_append)
    ultimately show ?thesis
      using True read endq by (subst full_hash_loop.simps) (simp add: bsize Let_def)
  next
    case False
    let ?full = "take (64 * (n div 64)) ?bs" and ?tail = "drop (64 * (n div 64)) ?bs"
    have until: "q + n = until"
      using False less.prems(2) by (auto simp: n_def min_def split: if_splits)
    have block: "process_block (take n ?bs) (process_block ?xs h) = process_block (?xs @ ?full) h"
    proof -
      have "process_block (take n ?bs) g = process_block ?full g" for g
        using len(2) fold_chunks_take [of "n div 64" ?bs g] by (simp add: process_block_def)
      then show ?thesis using len(1) by (simp add: process_block_append)
    qed
    have "process_final_chunk ?tail (word_of_nat (until - p)) (process_block (?xs @ ?full) h) =
        process_block (fips_pad ((?xs @ ?full) @ ?tail)) h"
    proof (rule final_chunk_pad [where k = "k + n div 64"])
      show "length (?xs @ ?full) = 64 * (k + n div 64)" using len by simp
      show "length ?tail < 64" using len(2) by (simp add: minus_mult_div_eq_mod)
      show "length ((?xs @ ?full) @ ?tail) = until - p" using len less.prems until by simp
    qed (rule assms(5))
    moreover have "(?xs @ ?full) @ ?tail = slice ?c p until" using all until by simp
    moreover have "word_of_int (int q + int n - int p) = (word_of_nat (until - p) :: 64 word)"
      using until less.prems(1) by (metis of_nat_add of_nat_diff of_int_of_nat_eq le_add1 le_trans)
    ultimately show ?thesis
      using read False block endq by (subst full_hash_loop.simps) (auto simp: bsize Let_def)
  qed
qed

lemma get_full_hash_law:
  assumes "p \<le> until" and "until \<le> length (content f)" and "until - p < 2 ^ 61"
  shows "get_full_hash F f (int p) (int until) = Inr (sha256 (slice (content f) p until))"
  using full_hash_loop_law [of p p until f 0 hash_init] assms
  by (simp add: get_full_hash_def sha256_process_block slice_def process_block_def)

end

interpretation readonly_memory: readable_file readonly_memory_file "\<lambda>m. m"
  by unfold_locales (auto simp: readonly_memory_file_def readonly_pread_def Let_def)

lemma sdiv_nonneg: "0 \<le> a \<Longrightarrow> 0 < b \<Longrightarrow> a sdiv b = a div b" for a b :: int
  by (simp add: signed_divide_int_def sgn_if zdiv_int)

lemma sample_end: "255 * x \<le> 254 * d \<Longrightarrow> 4194304 \<le> d \<Longrightarrow> x + 4096 \<le> d" for x d :: int
  by linarith

lemma fast_position_bounds:
  assumes "0 \<le> p" and "4 * 4096 * 256 \<le> q - p" and "i < 256"
  shows "p \<le> fast_position p q i" and "fast_position p q i + 4096 \<le> q"
proof -
  define x where "x = (int i * (q - p)) div 255"
  have "p \<le> fast_position p q i \<and> fast_position p q i + 4096 \<le> q" if i: "i \<noteq> 0" "i \<noteq> 255"
  proof -
    have sdiv: "(int i * (q - p)) sdiv 255 = x" using assms by (simp add: x_def sdiv_nonneg)
    have "(q - p) div 255 \<le> x" using i assms by (auto simp: x_def intro!: zdiv_mono1 mult_le_cancel_right1 [THEN iffD2])
    moreover have "4096 * 255 div 255 \<le> (q - p) div 255" using assms(2) by (intro zdiv_mono1) simp_all
    ultimately have low: "4096 \<le> x" by simp
    have "255 * x \<le> int i * (q - p)" by (simp add: x_def)
    also have "\<dots> \<le> 254 * (q - p)" using i assms by (intro mult_right_mono) simp_all
    finally have "255 * x \<le> 254 * (q - p)" .
    moreover have "4194304 \<le> q - p" using assms(2) by simp
    ultimately have high: "x + 4096 \<le> q - p" by (rule sample_end)
    have pos: "fast_position p q i = 4096 * ((p + x) div 4096)"
      using i low assms(1) by (simp add: fast_position_def sdiv sdiv_nonneg)
    have "4096 * ((p + x) div 4096) \<le> p + x" "p + x < 4096 * ((p + x) div 4096) + 4096"
      using mult_div_mod_eq [of 4096 "p + x"] pos_mod_bound [of 4096 "p + x"] pos_mod_sign [of 4096 "p + x"] by linarith+
    then show ?thesis unfolding pos using low high by linarith
  qed
  then show "p \<le> fast_position p q i" and "fast_position p q i + 4096 \<le> q"
    using assms(2) by (auto simp: fast_position_def)
qed

context readable_file
begin

lemma fast_hash_loop:
  assumes "\<forall>i\<in>set ks. 0 \<le> pos i \<and> pos i + 4096 \<le> int (length (content f))"
  shows "fold_result (\<lambda>i h. bind_result (full_pread F 4096 (pos i) f) (\<lambda>buffer. Inr (process_block buffer h))) ks h =
     Inr (process_block (concat (map (\<lambda>i. slice (content f) (nat (pos i)) (nat (pos i) + 4096)) ks)) h)"
  using assms
proof (induction ks arbitrary: h)
  case (Cons i ks)
  let ?s = "slice (content f) (nat (pos i)) (nat (pos i) + 4096)"
  have len: "nat (pos i) + 4096 \<le> length (content f)" using Cons.prems by fastforce
  then have "full_pread F 4096 (pos i) f = Inr ?s" using Cons.prems full_pread_law [of "pos i" 4096 f] by (simp add: slice_def)
  moreover have "length ?s = 64 * 64" using len by (simp add: length_slice)
  ultimately show ?case using Cons by (simp add: process_block_append)
qed (simp add: process_block_def)

end

section \<open>Properties\<close>

text \<open>
  C17. Whatever the blocks in which the file is read, \<open>get_full_hash\<close> of a range of a file is the
  SHA-256 code of these bytes as the standard defines it, and the hash of a string is that of its
  characters.
\<close>

theorem full_hash_is_sha256:
  assumes "p \<le> until" and "until \<le> length (data f)" and "until - p < 2 ^ 61" and "length s < 2 ^ 61"
  shows "get_full_hash memory_file f (int p) (int until) = Inr (sha256 (slice (data f) p until)) \<and>
    get_string_hash s = Inr (sha256 (bytes_of s))"
  using memory.get_full_hash_law [OF assms(1-3)] readonly_memory.get_full_hash_law [of 0 "length s" "bytes_of s"] assms(4)
  by (simp add: get_string_hash_def get_file_hash_def readonly_memory.get_size_law slice_def bytes_of_def)

theorem full_hash_is_sha256_witness:
  "get_full_hash memory_file \<lparr>memory_mode = Create_New, data = [1, 2, 3, 4, 5]\<rparr> 1 4 = Inr (sha256 [2, 3, 4]) \<and>
   get_string_hash ''abc'' = Inr (sha256 [97, 98, 99])"
  using full_hash_is_sha256 [of 1 4 "\<lparr>memory_mode = Create_New, data = [1, 2, 3, 4, 5]\<rparr>" "''abc''"]
  by (simp add: slice_def bytes_of_def)

text \<open>
  C31. The hash of a short range is the full one. On a range of at least 4 MiB the 256 samples that
  \<open>get_fast_hash\<close> reads all lie inside of the range, so that it never fails nor looks at other bytes,
  and the result is that of compressing the samples one after the other.
\<close>

theorem fast_hash_samples:
  assumes "p \<le> until" and "until \<le> length (data f)"
  shows "get_fast_hash memory_file f (int p) (int until) =
    (if until - p < 4 * 4096 * 256 then get_full_hash memory_file f (int p) (int until)
     else Inr (process_block (concat (map (\<lambda>i. slice (data f) (nat (fast_position (int p) (int until) i))
            (nat (fast_position (int p) (int until) i) + 4096)) [0..<256])) hash_init)) \<and>
    (4 * 4096 * 256 \<le> until - p \<longrightarrow> (\<forall>i < 256.
       int p \<le> fast_position (int p) (int until) i \<and> fast_position (int p) (int until) i + 4096 \<le> int until))"
proof (cases "until - p < 4 * 4096 * 256")
  case True
  then show ?thesis using assms(1) by (auto simp: get_fast_hash_def)
next
  case False
  then have size: "4 * 4096 * 256 \<le> int until - int p" using assms(1) by simp
  have bounds: "int p \<le> fast_position (int p) (int until) i \<and> fast_position (int p) (int until) i + 4096 \<le> int until" if "i < 256" for i
    using fast_position_bounds [OF of_nat_0_le_iff size that] by simp
  have "\<forall>i\<in>set [0..<256]. 0 \<le> fast_position (int p) (int until) i \<and>
      fast_position (int p) (int until) i + 4096 \<le> int (length (data f))"
    using bounds assms(2) by fastforce
  from memory.fast_hash_loop [OF this] show ?thesis
    using False assms(1) size bounds by (simp add: get_fast_hash_def)
qed

theorem fast_hash_samples_witness:
  "get_fast_hash memory_file \<lparr>memory_mode = Create_New, data = replicate 5000000 7\<rparr> 0 5000000 =
     Inr (process_block (concat (map (\<lambda>i. slice (replicate 5000000 7) (nat (fast_position 0 5000000 i))
            (nat (fast_position 0 5000000 i) + 4096)) [0..<256])) hash_init)"
  using fast_hash_samples [of 0 5000000 "\<lparr>memory_mode = Create_New, data = replicate 5000000 7\<rparr>"]
  by simp

end
