(* ===== verification/Server_Log.thy ===== *)
theory Server_Log
  imports Server_Proofs Hash_Properties
begin

text \<open>
  What a server does to its journal: the sessions append to a log, one push at a time. The server is
  the usual one, on a file of its own: it is built on a writable journal client whose file is not
  shared, so that it keeps the lock of the client, and the client does not use hard checkpoints, time
  stamps nor valid-data marks.
\<close>

section \<open>The journal of a server\<close>

text \<open>
  The journal of a server writes nothing itself: what is pushed goes to its file, at the checkpoint.
\<close>

definition log_journal :: "('f \<Rightarrow> byte list) \<Rightarrow> 'f Journal \<Rightarrow> bool" where
  "log_journal content j \<longleftrightarrow>
     \<not> buffer_has_write_data (file_buffer j) \<and> journal_get_position j \<le> checkpoint_position j \<and>
     int header_size \<le> checkpoint_position j \<and> checkpoint_position j \<le> int (length (content (journal_file j))) \<and>
     checkpoint_position j < 2 ^ 63 \<and> hard_index j < 2 \<and> soft_index j < 2"

lemma flip_less_2: "i < 2 \<Longrightarrow> flip i < 2"
  by (auto simp: flip_def less_Suc_eq numeral_2_eq_2)

context file_contract
begin

lemma log_journal_write:
  assumes "log_journal content j" and "checkpoint_position j \<le> p" and "p \<le> int (length (content (journal_file j)))"
  obtains f where "async_write F bs (journal_file j) p = Inr (f, p + int (length bs))"
    and "content f = patch (content (journal_file j)) (nat p) bs" and "get_mode F f = get_mode F (journal_file j)"
    and "log_journal content (set_file f j)"
proof -
  let ?c = "content (journal_file j)"
  have p: "0 \<le> p" "nat p \<le> length ?c" using assms by (auto simp: log_journal_def)
  obtain f where f: "pwrite F bs p (journal_file j) = Inr f" "content f = patch ?c (nat p) bs" "get_mode F f = get_mode F (journal_file j)"
    using pwrite_law [OF p, of bs] by blast
  moreover have "log_journal content (set_file f j)"
    using assms f(2) p
    by (auto simp: log_journal_def set_file_def buffer_has_write_data_def journal_get_position_def fb_get_position_def length_patch)
  ultimately show ?thesis using that by (simp add: async_write_def)
qed

lemma log_journal_checkpoint:
  assumes "log_journal content j" and "checkpoint_position j < p" and "p \<le> int (length (content (journal_file j)))" and "p < 2 ^ 63"
  obtains j' k bs where "soft_checkpoint_at F p j = Inr j'" and "checkpoint_position j' = p" and "log_journal content j'"
    and "k + length bs \<le> 32" and "content (journal_file j') = patch (content (journal_file j)) k bs"
    and "get_mode F (journal_file j') = get_mode F (journal_file j)"
proof -
  let ?c = "content (journal_file j)" and ?b = "file_buffer j"
  let ?b' = "?b\<lparr>position := fb_get_position ?b, read_buffer_size := 0, buffer_index := 0\<rparr>"
  have j: "\<not> buffer_has_write_data ?b" "hard_index j < 2" "soft_index j < 2" using assms(1) by (auto simp: log_journal_def)
  have flush: "jwrite (flush F) j = Inr (j\<lparr>file_buffer := ?b'\<rparr>)"
    using j(1) by (simp add: jwrite_def flush_def fi_seek_def)
  define k where "k = 8 * (2 * flip (hard_index j) + flip (soft_index j))"
  let ?bs = "to_bytes 8 (word_of_int (neg p) :: 64 word)"
  have k: "k + 8 \<le> 32" "int k = 8 * int (2 * flip (hard_index j) + flip (soft_index j))"
    using flip_less_2 [OF j(2)] flip_less_2 [OF j(3)] by (simp_all add: k_def)
  have "32 \<le> length ?c" using assms(1) by (auto simp: log_journal_def)
  obtain f1 where f1: "exclusive_lock_head F (journal_file j) = Inr f1" "content f1 = ?c" "get_mode F f1 = get_mode F (journal_file j)"
    using exclusive_lock_law [of 0 1 "journal_file j"] by (auto simp: exclusive_lock_head_def)
  obtain f2 where f2: "pwrite F ?bs (int k) f1 = Inr f2" "content f2 = patch ?c k ?bs" "get_mode F f2 = get_mode F f1"
    using pwrite_law [of "int k" f1 ?bs] k(1) \<open>32 \<le> length ?c\<close> f1(2) by auto
  let ?j = "set_file (unlock_head F f2) (j\<lparr>file_buffer := ?b', soft_index := flip (soft_index j), checkpoint_position := p\<rparr>)"
  have "soft_checkpoint_at F p j = Inr ?j"
    using assms(2,3) flush f1(1) f2(1) [unfolded k(2)] by (simp add: soft_checkpoint_at_def get_size_law Let_def)
  moreover have un: "content (unlock_head F f2) = patch ?c k ?bs" "get_mode F (unlock_head F f2) = get_mode F (journal_file j)"
    using unlock_law f1(3) f2(2,3) by (simp_all add: unlock_head_def)
  moreover have "log_journal content ?j"
    using assms j un(1) k(1) \<open>32 \<le> length ?c\<close> flip_less_2
    by (auto simp: log_journal_def set_file_def buffer_has_write_data_def journal_get_position_def fb_get_position_def length_patch)
  ultimately show ?thesis using that [of ?j k ?bs] k(1) by (simp add: set_file_def)
qed

end

section \<open>What a session leaves alone\<close>

text \<open>
  Seen from the log, a session is its pending push: where it writes, and what it still expects. A
  session \<open>i\<close> that runs changes nothing of the client nor of the pushes of the other sessions, except
  where it pushes.
\<close>

definition push_view :: "Session \<Rightarrow> int option \<times> bool \<times> byte \<times> byte \<times> session_phase option" where
  "push_view s = (push_writer s, session_locking s, push_status s, first_byte s,
     (case phase s of Receiving ua p q n \<Rightarrow> Some (phase s) | Pushing ua \<Rightarrow> Some (phase s) | _ \<Rightarrow> None))"

definition log_view :: "nat \<Rightarrow> ('f, 'd, 'c) Server \<Rightarrow> ('f, 'd) Client \<times> bool \<times> bool option \<times>
    (nat \<Rightarrow> (int option \<times> bool \<times> byte \<times> byte \<times> session_phase option) option) \<times> (int option \<times> byte) option" where
  "log_view i v = (server_client v, is_writable v, client_lock v, (\<lambda>j. if j = i then None else map_option push_view (sessions v j)),
     map_option (\<lambda>s. (push_writer s, push_status s)) (sessions v i))"

definition exclusive :: "('f, 'd, 'c) Server_Env \<Rightarrow> ('f, 'd, 'c) Server \<Rightarrow> bool" where
  "exclusive E v \<longleftrightarrow> is_writable v \<and> client_lock v = Some True \<and> \<not> client_is_shared E v \<and>
     \<not> use_valid_data (server_client v) \<and> \<not> use_timestamp (server_client v) \<and> \<not> use_hard_checkpoint (server_client v)"

lemma exclusive_view: "log_view i v' = log_view i v \<Longrightarrow> exclusive E v \<Longrightarrow> exclusive E v'"
  by (simp add: log_view_def exclusive_def client_is_shared_def)

lemma log_view_put:
  "sessions v i = Some s \<Longrightarrow> push_writer s' = push_writer s \<Longrightarrow> push_status s' = push_status s \<Longrightarrow> log_view i (put_session i s' v) = log_view i v"
  by (auto simp: log_view_def)

lemma log_view_put_other:
  "sessions v j = Some s \<Longrightarrow> push_view s' = push_view s \<Longrightarrow> log_view i (put_session j s' v) = log_view i v"
  by (auto simp: log_view_def push_view_def fun_eq_iff)

lemma log_view_other:
  assumes "log_view i v' = log_view i v" and "j \<noteq> i"
  shows "map_option push_view (sessions v' j) = map_option push_view (sessions v j)"
proof -
  have "(\<lambda>j. if j = i then None else map_option push_view (sessions v' j)) =
      (\<lambda>j. if j = i then None else map_option push_view (sessions v j))"
    using assms(1) by (simp only: log_view_def prod.inject)
  from fun_cong [OF this, of j] show ?thesis using assms(2) by simp
qed

lemma log_view_queues [simp]:
  "log_view i (v\<lparr>lock_waiters := q\<rparr>) = log_view i v"
  "log_view i (v\<lparr>pull_waiters := q\<rparr>) = log_view i v"
  "log_view i (v\<lparr>is_locked := b\<rparr>) = log_view i v"
  by (simp_all add: log_view_def fun_eq_iff)

abbreviation same_log :: "nat \<Rightarrow> ('f, 'd, 'c) Server \<Rightarrow> ('f, 'd, 'c) Server served \<Rightarrow> bool" where
  "same_log i v r \<equiv> keeps (log_view i) (log_view i v) r"

lemma log_set_phase: "log_view i v' = log_view i v \<Longrightarrow> same_log i v (set_phase i ph v')"
  by (auto simp: set_phase_def log_view_put)

lemma log_reply: "log_view i v' = log_view i v \<Longrightarrow> same_log i v (reply i bs v')"
  by (auto simp: reply_def log_set_phase)

lemma log_cancel_timer: "log_view i v' = log_view i v \<Longrightarrow> same_log i v (cancel_timer j v')"
  by (auto simp: cancel_timer_def push_view_def log_view_put_other split: session_phase.split)

lemma log_cancel_timers: "log_view i v' = log_view i v \<Longrightarrow> same_log i v (cancel_timers ws v')"
  by (induction ws arbitrary: v') (auto simp: log_cancel_timer)

lemma log_session_unlock:
  assumes "exclusive E v" and "log_view i v' = log_view i v"
  shows "same_log i v (session_unlock E i v')"
proof -
  have "\<not> client_is_shared E ((put_session i s v')\<lparr>is_locked := b\<rparr>)" for s b
    using exclusive_view [OF assms(2,1)] by (simp add: exclusive_def client_is_shared_def)
  then show ?thesis
    using assms(2) by (auto simp: session_unlock_def Let_def log_view_put log_cancel_timer split: list.split option.split)
qed

lemma log_take_lock:
  assumes "exclusive E v" and "log_view i v' = log_view i v"
  shows "same_log i v (take_lock E i v')"
proof -
  have "client_lock v' = Some True" using exclusive_view [OF assms(2,1)] by (simp add: exclusive_def)
  then show ?thesis using assms(2) by (auto simp: take_lock_def Let_def log_view_put)
qed

lemma log_send_some: "log_view i v' = log_view i v \<Longrightarrow> same_log i v (send_some E i prefix r v')"
  by (auto simp: send_some_def log_set_phase split: sum.split prod.split)

lemma log_send: "log_view i v' = log_view i v \<Longrightarrow> same_log i v (send E i r v')"
  by (auto simp: send_def log_send_some)

lemma log_pull_send: "log_view i v' = log_view i v \<Longrightarrow> same_log i v (pull_send E i dt p v')"
  by (auto simp: pull_send_def Let_def log_send)

lemma log_pull_lock:
  "exclusive E v \<Longrightarrow> log_view i v' = log_view i v \<Longrightarrow> same_log i v (pull_lock E i lk dt p v')"
  by (auto simp: pull_lock_def log_pull_send log_take_lock log_set_phase)

lemma log_pull_request:
  assumes "exclusive E v" and "log_view i v' = log_view i v"
  shows "same_log i v (pull_request E i lk dt bs v')"
proof -
  have "client_lock v' = Some True" using exclusive_view [OF assms(2,1)] by (simp add: exclusive_def)
  then show ?thesis using assms by (auto simp: pull_request_def Let_def log_pull_lock log_set_phase)
qed

lemma log_lock_waited:
  "exclusive E v \<Longrightarrow> log_view i v' = log_view i v \<Longrightarrow> same_log i v (lock_waited E i dt p v')"
  by (auto simp: lock_waited_def log_pull_send log_take_lock split: list.split)

lemma log_handshake: "log_view i v' = log_view i v \<Longrightarrow> same_log i v (handshake_reply E i bs v')"
  by (auto simp: handshake_reply_def Let_def log_reply log_view_put)

lemma log_check_hash: "log_view i v' = log_view i v \<Longrightarrow> same_log i v (check_hash E i bs v')"
  by (auto simp: check_hash_def Let_def log_reply log_view_put split: sum.split)

section \<open>The log\<close>

text \<open>The log of a server is its journal up to the checkpoint; beyond it comes what a session has pushed so far.\<close>

definition committed :: "('f \<Rightarrow> byte list) \<Rightarrow> ('f, 'd, 'c) Server \<Rightarrow> byte list" where
  "committed content v = slice (content (journal_file (server_journal v))) header_size (nat (server_checkpoint_position v))"

definition pending :: "('f \<Rightarrow> byte list) \<Rightarrow> ('f, 'd, 'c) Server \<Rightarrow> nat \<rightharpoonup> byte list" where
  "pending content v i =
     (case sessions v i of
        None \<Rightarrow> None
      | Some s \<Rightarrow> map_option (\<lambda>w. slice (content (journal_file (server_journal v))) (nat (server_checkpoint_position v)) (nat w)) (push_writer s))"

text \<open>How a session may change the log: it starts a push when no other one is under way, adds data, commits all of it, or gives up.\<close>

inductive log_step :: "nat \<Rightarrow> byte list \<times> (nat \<rightharpoonup> byte list) \<Rightarrow> byte list \<times> (nat \<rightharpoonup> byte list) \<Rightarrow> bool" for i where
  start: "log_step i (l, Map.empty) (l, [i \<mapsto> []])"
| extend: "log_step i (l, [i \<mapsto> xs]) (l, [i \<mapsto> xs @ bs])"
| commit: "log_step i (l, [i \<mapsto> xs]) (l @ xs, Map.empty)"
| abort: "log_step i (l, [i \<mapsto> xs]) (l, Map.empty)"

definition log_of :: "('f \<Rightarrow> byte list) \<Rightarrow> ('f, 'd, 'c) Server \<Rightarrow> byte list \<times> (nat \<rightharpoonup> byte list)" where
  "log_of content v = (committed content v, pending content v)"

text \<open>The number of bytes that a push announces, as the code computes it.\<close>

definition announced :: "int \<Rightarrow> int \<Rightarrow> int" where
  "announced p q = sint (word_of_int (q - p) :: 64 word)"

definition push_ok :: "('f \<Rightarrow> byte list) \<Rightarrow> ('f, 'd, 'c) Server \<Rightarrow> Session \<Rightarrow> bool" where
  "push_ok content v s \<longleftrightarrow>
     (case phase s of
        Receiving ua p q n \<Rightarrow> 0 < n \<and>
          (case push_writer s of
             None \<Rightarrow> push_status s \<in> {82, 67, 116}
           | Some w \<Rightarrow> session_locking s \<and> push_status s = (if ua then 79 else 78) \<and> p = server_checkpoint_position v \<and> p \<le> w \<and>
               w + n = p + announced p q \<and> w \<le> int (length (content (journal_file (server_journal v)))) \<and>
               - (2 ^ 63) \<le> q \<and> q < 2 ^ 63)
      | Pushing ua \<Rightarrow> push_writer s = None \<and> first_byte s = (if ua then 79 else 78)
      | _ \<Rightarrow> push_writer s = None)"

definition log_inv :: "('f \<Rightarrow> byte list) \<Rightarrow> ('f, 'd, 'c) Server_Env \<Rightarrow> ('f, 'd, 'c) Server \<Rightarrow> bool" where
  "log_inv content E v \<longleftrightarrow>
     exclusive E v \<and> log_journal content (server_journal v) \<and> (\<forall>i s. sessions v i = Some s \<longrightarrow> push_ok content v s)"

lemma sint_int64: "- (2 ^ 63) \<le> x \<Longrightarrow> x < 2 ^ 63 \<Longrightarrow> sint (word_of_int x :: 64 word) = x"
  by (simp add: signed_of_int signed_take_bit_int_eq_self)

lemma announced_nat: "0 \<le> p \<Longrightarrow> p < q \<Longrightarrow> q < 2 ^ 63 \<Longrightarrow> announced p q = q - p"
  unfolding announced_def by (rule sint_int64) simp_all

lemma push_ok_view:
  "push_view s' = push_view s \<Longrightarrow> server_journal v' = server_journal v \<Longrightarrow> push_ok content v' s' = push_ok content v s"
  by (auto simp: push_view_def push_ok_def split: session_phase.splits option.splits)

lemma push_ok_no_writer: "push_writer s = None \<Longrightarrow> push_ok content v' s = push_ok content v s"
  by (simp add: push_ok_def split: session_phase.split)

lemma push_ok_writer:
  "push_ok content v s \<Longrightarrow> push_writer s = Some w \<Longrightarrow> session_locking s \<and> (\<exists>ua p q n. phase s = Receiving ua p q n)"
  by (cases "phase s") (simp_all add: push_ok_def)

lemma pending_view:
  assumes "log_view i v' = log_view i v" and "sessions v i \<noteq> None"
  shows "pending content v' = pending content v" and "committed content v' = committed content v"
proof -
  have cl: "server_client v' = server_client v" using assms(1) by (simp add: log_view_def)
  have "map_option push_writer (sessions v' j) = map_option push_writer (sessions v j)" for j
  proof (cases "j = i")
    case True
    have "map_option (fst \<circ> (\<lambda>s. (push_writer s, push_status s))) (sessions v' i) =
        map_option (fst \<circ> (\<lambda>s. (push_writer s, push_status s))) (sessions v i)"
      using assms(1) by (simp add: log_view_def flip: option.map_comp)
    then show ?thesis using True by (simp add: o_def)
  next
    case False
    from log_view_other [OF assms(1) this] have "map_option (fst \<circ> push_view) (sessions v' j) = map_option (fst \<circ> push_view) (sessions v j)"
      by (simp flip: option.map_comp)
    then show ?thesis by (simp add: o_def push_view_def)
  qed
  then show "pending content v' = pending content v"
    by (auto simp: pending_def cl fun_eq_iff split: option.split) (metis option.simps(8,9) option.inject option.distinct(1))+
  show "committed content v' = committed content v" by (simp add: committed_def cl)
qed

text \<open>A session whose step ends elsewhere than in a push.\<close>

definition quiet :: "nat \<Rightarrow> ('f, 'd, 'c) Server served \<Rightarrow> bool" where
  "quiet i r = (case r of
     Next bs v \<Rightarrow> \<forall>s. sessions v i = Some s \<longrightarrow>
       (case phase s of Receiving ua p q n \<Rightarrow> False | Pushing ua \<Rightarrow> first_byte s = (if ua then 79 else 78) | _ \<Rightarrow> True)
   | _ \<Rightarrow> True)"

lemma log_inv_view:
  assumes "log_inv content E v" and "sessions v i = Some s" and "push_writer s = None" and "log_view i v' = log_view i v"
    and "quiet i (Next bs v')"
  shows "log_inv content E v'"
proof -
  have cl: "server_client v' = server_client v" using assms(4) by (simp add: log_view_def)
  have "push_ok content v' t" if t: "sessions v' j = Some t" for j t
  proof (cases "j = i")
    case True
    then have "push_writer t = None"
      using assms(2-4) t by (auto simp: log_view_def)
    then show ?thesis using assms(5) t True by (auto simp: push_ok_def quiet_def split: session_phase.splits)
  next
    case False
    then obtain t' where "sessions v j = Some t'" "push_view t = push_view t'"
      using log_view_other [OF assms(4) False] t by (cases "sessions v j") auto
    then show ?thesis using assms(1) push_ok_view [of t t' v' v content] cl by (auto simp: log_inv_def)
  qed
  then show ?thesis using assms(1) exclusive_view [OF assms(4)] cl by (simp add: log_inv_def)
qed

lemma quiet_simps [simp]:
  "quiet i (Throw e v)" "quiet i (Failed e)" "quiet i Undefined" "quiet i Never"
  by (simp_all add: quiet_def)

lemma quiet_and_then: "(\<And>v. quiet i (g v)) \<Longrightarrow> quiet i (and_then r g)"
proof (cases r)
  case (Next bs v)
  assume "\<And>v. quiet i (g v)"
  then have "quiet i (g v)" .
  then show ?thesis using Next by (cases "g v") (simp_all add: and_then_def quiet_def)
qed simp_all

lemma quiet_with_session: "(\<And>s. quiet i (g s)) \<Longrightarrow> quiet i (with_session j v g)"
  by (simp add: with_session_def split: option.split)

text \<open>The phases in which no push is under way.\<close>

fun no_push :: "session_phase \<Rightarrow> bool" where
  "no_push (Receiving ua p q n) = False"
| "no_push (Pushing ua) = False"
| "no_push _ = True"

lemma quiet_set_phase: "no_push ph \<Longrightarrow> quiet i (set_phase i ph v)"
  by (cases ph) (simp_all add: set_phase_def with_session_def quiet_def split: option.split)

lemma quiet_set_phase_then: "no_push ph \<Longrightarrow> quiet i (and_then (set_phase i ph v) (Next bs))"
  by (cases ph) (auto simp: and_then_def set_phase_def with_session_def quiet_def split: option.split)

lemma quiet_reply: "quiet i (reply i bs v)"
  by (simp add: reply_def quiet_set_phase_then)

lemma quiet_send_some: "quiet i (send_some E i prefix r v)"
  by (simp add: send_some_def quiet_set_phase quiet_set_phase_then split: sum.split prod.split)

lemma quiet_send: "quiet i (send E i r v)"
  by (simp add: send_def quiet_with_session quiet_send_some)

lemma quiet_pull_lock: "quiet i (pull_lock E i lk dt p v)"
  unfolding pull_lock_def pull_send_def Let_def
  by (auto intro!: quiet_with_session quiet_and_then simp: quiet_send quiet_set_phase)

lemma quiet_pull_request: "quiet i (pull_request E i lk dt bs v)"
  unfolding pull_request_def Let_def by (rule quiet_and_then) (simp add: quiet_set_phase quiet_pull_lock)

lemma quiet_lock_waited: "quiet i (lock_waited E i dt p v)"
  unfolding lock_waited_def pull_send_def Let_def by (auto intro!: quiet_and_then simp: quiet_send split: list.split)

lemma quiet_handshake: "quiet i (handshake_reply E i bs v)"
  unfolding handshake_reply_def Let_def by (rule quiet_with_session) (simp add: quiet_reply)

lemma quiet_check_hash: "quiet i (check_hash E i bs v)"
  unfolding check_hash_def Let_def by (rule quiet_with_session) (simp add: quiet_reply split: sum.split)

lemma quiet_end_session: "quiet i (end_session E i v)"
  unfolding end_session_def by (rule quiet_and_then) (simp add: quiet_def)

text \<open>The step of a session that does not push keeps the log.\<close>

definition log_kept :: "('f \<Rightarrow> byte list) \<Rightarrow> ('f, 'd, 'c) Server_Env \<Rightarrow> ('f, 'd, 'c) Server \<Rightarrow> ('f, 'd, 'c) Server \<Rightarrow> bool" where
  "log_kept content E v v' \<longleftrightarrow> log_inv content E v' \<and> log_of content v' = log_of content v"

lemma quiet_step:
  assumes "log_inv content E v" and "sessions v i = Some s" and "push_writer s = None" and "same_log i v r" and "quiet i r"
    and "r = Next bs v'"
  shows "log_kept content E v v'"
  using log_inv_view [OF assms(1-3), of v' bs] pending_view [of i v' v content] assms(2,4,5,6)
  by (simp add: log_kept_def log_of_def)

lemma log_dispatch:
  assumes "exclusive E v" and "log_view i v' = log_view i v" and "\<not> code \<notin> {72, 73, 114, 68, 69, 70, 71, 77, 78, 79}"
  shows "same_log i v (dispatch E i code v')"
  using assms by (auto simp: dispatch_def Let_def log_view_put log_set_phase log_session_unlock log_reply)

lemma quiet_dispatch: "quiet i (dispatch E i code v)"
proof -
  have "quiet i (set_phase i (Pushing (code = 79)) (put_session i (s\<lparr>first_byte := code\<rparr>) v))" if "code = 78 \<or> code = 79" for s
    using that by (auto simp: set_phase_def with_session_def quiet_def)
  then show ?thesis
    unfolding dispatch_def Let_def
    by (intro quiet_with_session) (auto intro!: quiet_and_then simp: quiet_set_phase quiet_reply quiet_end_session)
qed

section \<open>Ends of sessions and timeouts\<close>

text \<open>The invariant for all sessions but \<open>i\<close>.\<close>

definition log_inv_but :: "nat \<Rightarrow> ('f \<Rightarrow> byte list) \<Rightarrow> ('f, 'd, 'c) Server_Env \<Rightarrow> ('f, 'd, 'c) Server \<Rightarrow> bool" where
  "log_inv_but i content E v \<longleftrightarrow>
     exclusive E v \<and> log_journal content (server_journal v) \<and> (\<forall>j s. j \<noteq> i \<and> sessions v j = Some s \<longrightarrow> push_ok content v s)"

text \<open>Two states with the same client, whose sessions but \<open>i\<close> have the same pushes.\<close>

definition alike :: "nat \<Rightarrow> ('f, 'd, 'c) Server \<Rightarrow> ('f, 'd, 'c) Server \<Rightarrow> bool" where
  "alike i v' v \<longleftrightarrow> server_client v' = server_client v \<and> is_writable v' = is_writable v \<and> client_lock v' = client_lock v \<and>
     (\<forall>j. j \<noteq> i \<longrightarrow> map_option push_view (sessions v' j) = map_option push_view (sessions v j))"

lemma alike_view: "log_view i v' = log_view i v \<Longrightarrow> alike i v' v"
  using log_view_other by (auto simp: alike_def log_view_def)

lemma alike_refl [simp]: "alike i v v"
  by (simp add: alike_def)

lemma alike_trans: "alike i v'' v' \<Longrightarrow> alike i v' v \<Longrightarrow> alike i v'' v"
  by (simp add: alike_def)

lemma alike_put: "alike i (put_session i s v) v"
  by (simp add: alike_def)

lemma alike_log_inv_but:
  assumes "alike i v' v" and "log_inv_but i content E v"
  shows "log_inv_but i content E v'"
proof -
  have "push_ok content v' t" if t: "j \<noteq> i" "sessions v' j = Some t" for j t
  proof -
    have "map_option push_view (sessions v' j) = map_option push_view (sessions v j)" using assms(1) t(1) by (simp add: alike_def)
    then have "map_option push_view (sessions v j) = Some (push_view t)" using t(2) by simp
    then obtain t' where "sessions v j = Some t'" "push_view t = push_view t'" by (cases "sessions v j") auto
    moreover have "server_journal v' = server_journal v" using assms(1) by (simp add: alike_def)
    ultimately show ?thesis using assms(2) t(1) push_ok_view [of t t' v' v content] by (auto simp: log_inv_but_def)
  qed
  then show ?thesis using assms unfolding log_inv_but_def alike_def exclusive_def client_is_shared_def by auto
qed

lemma alike_log:
  assumes "alike i v' v"
  shows "committed content v' = committed content v" and "j \<noteq> i \<Longrightarrow> pending content v' j = pending content v j"
proof -
  show "committed content v' = committed content v" using assms by (simp add: committed_def alike_def)
  assume "j \<noteq> i"
  then have "map_option push_view (sessions v' j) = map_option push_view (sessions v j)" using assms by (simp add: alike_def)
  then have "map_option (fst \<circ> push_view) (sessions v' j) = map_option (fst \<circ> push_view) (sessions v j)"
    by (simp flip: option.map_comp)
  then show "pending content v' j = pending content v j"
    using assms by (auto simp: pending_def alike_def o_def push_view_def split: option.splits)
qed

lemma log_inv_but: "log_inv content E v \<longleftrightarrow> log_inv_but i content E v \<and> (\<forall>s. sessions v i = Some s \<longrightarrow> push_ok content v s)"
  unfolding log_inv_def log_inv_but_def by metis

lemma session_unlock_alike:
  assumes "exclusive E v" and "session_unlock E i v = Next bs v'"
  shows "alike i v' v" and "bs = []"
proof -
  show "alike i v' v" using log_session_unlock [OF assms(1) refl, of i] assms(2) by (intro alike_view) simp
  show "bs = []"
    using assms(2) by (auto simp: session_unlock_def with_session_def cancel_timer_def unlock_client_def from_outcome_def Let_def
        split: option.splits if_splits list.splits sum.splits prod.splits)
qed

lemma end_session_alike:
  assumes "exclusive E v" and "end_session E i v = Next bs v'"
  shows "alike i v' v" and "sessions v' i = None" and "bs = []"
proof -
  obtain bs' v1 where v1: "session_unlock E i v = Next bs' v1"
    using assms(2) by (cases "session_unlock E i v") (simp_all add: end_session_def)
  note un = session_unlock_alike [OF assms(1) v1]
  have "alike i v' v1" "bs = []" using assms(2) v1 un(2) by (auto simp: end_session_def alike_def)
  then show "alike i v' v" "bs = []" using alike_trans un(1) by blast+
  show "sessions v' i = None" using assms(2) by (rule end_session_gone)
qed

text \<open>Only the session that holds the lock has something pending.\<close>

lemma pending_unique:
  assumes "lock_inv h v" and "log_inv_but i content E v" and "\<forall>j. j \<noteq> i \<longrightarrow> h \<noteq> Some j"
  shows "j \<noteq> i \<Longrightarrow> pending content v j = None"
proof (rule ccontr)
  assume "j \<noteq> i" and "pending content v j \<noteq> None"
  then obtain t w where t: "sessions v j = Some t" "push_writer t = Some w" by (auto simp: pending_def split: option.splits)
  then have "push_ok content v t" using assms(2) \<open>j \<noteq> i\<close> by (auto simp: log_inv_but_def)
  then have "session_locking t" using t(2) push_ok_writer by blast
  then have "h = Some j" using assms(1) t(1) by (auto simp: lock_inv_def)
  with assms(3) \<open>j \<noteq> i\<close> show False by blast
qed

lemma map_singleton: "(\<And>j. j \<noteq> i \<Longrightarrow> m j = None) \<Longrightarrow> m = (case m i of None \<Rightarrow> Map.empty | Some x \<Rightarrow> [i \<mapsto> x])"
proof (rule ext)
  fix j assume "\<And>j. j \<noteq> i \<Longrightarrow> m j = None"
  then show "m j = (case m i of None \<Rightarrow> Map.empty | Some x \<Rightarrow> [i \<mapsto> x]) j" by (cases "j = i") (auto split: option.split)
qed

section \<open>Pushing\<close>

lemma slice_patch_header: "k + length bs \<le> p \<Longrightarrow> p \<le> length c \<Longrightarrow> slice (patch c k bs) p q = slice c p q"
  by (simp add: slice_def drop_patch)

lemma slice_patch_end:
  "p \<le> q \<Longrightarrow> q \<le> length c \<Longrightarrow> slice (patch c q bs) p (q + length bs) = slice c p q @ bs"
  by (simp add: slice_def patch_def drop_take)

lemma slice_patch_before: "p \<le> q \<Longrightarrow> q \<le> k \<Longrightarrow> k \<le> length c \<Longrightarrow> slice (patch c k bs) p q = slice c p q"
  by (simp add: slice_def patch_def flip: drop_take)

lemma cancel_timers_silent: "cancel_timers ws v = Next bs v' \<Longrightarrow> bs = []"
proof (induction ws arbitrary: v bs)
  case (Cons w ws)
  then show ?case
    by (cases "cancel_timer w v") (auto simp: cancel_timer_def with_session_def and_then_def split: option.splits served.splits)
qed simp

text \<open>The end of a push, after the checkpoint: the lock is released, the waiting sessions are woken, and the status is sent.\<close>

definition push_reply :: "('f, 'd, 'c) Server_Env \<Rightarrow> nat \<Rightarrow> bool \<Rightarrow> ('f, 'd, 'c) Server \<Rightarrow> ('f, 'd, 'c) Server served" where
  "push_reply E i ua v =
     and_then (if ua then session_unlock E i v else Next [] v) (\<lambda>v.
     and_then (cancel_timers (pull_waiters v) v) (\<lambda>v.
     let v' = v\<lparr>pull_waiters := []\<rparr> in
     with_session i v' (\<lambda>s'. reply i [push_status s'] (put_session i (s'\<lparr>first_byte := push_status s'\<rparr>) v'))))"

lemma push_reply_log: "exclusive E v \<Longrightarrow> same_log i v (push_reply E i ua v)"
  unfolding push_reply_def Let_def
  by (auto simp: log_session_unlock log_cancel_timers log_reply log_view_put)

lemma push_reply_quiet: "quiet i (push_reply E i ua v)"
  unfolding push_reply_def Let_def by (intro quiet_and_then quiet_with_session quiet_reply)

lemma push_reply_status:
  assumes "exclusive E v" and "sessions v i = Some s" and "push_reply E i ua v = Next bs v'"
  shows "bs = [push_status s]"
proof -
  let ?un = "if ua then session_unlock E i v else Next [] v"
  obtain bs1 v1 where v1: "?un = Next bs1 v1" using assms(3) by (cases ?un) (auto simp: push_reply_def split: if_splits)
  have 1: "bs1 = []" "log_view i v1 = log_view i v"
    using v1 session_unlock_alike(2) [OF assms(1)] log_session_unlock [OF assms(1) refl, of i] by (auto split: if_splits)
  obtain bs2 v2 where v2: "cancel_timers (pull_waiters v1) v1 = Next bs2 v2"
    using assms(3) v1 1(1) by (cases "cancel_timers (pull_waiters v1) v1") (auto simp: push_reply_def)
  have 2: "bs2 = []" "log_view i v2 = log_view i v"
    using cancel_timers_silent [OF v2] log_cancel_timers [OF 1(2)] v2 by (metis keeps_simps(1))+
  obtain s2 where s2: "sessions v2 i = Some s2" "push_status s2 = push_status s"
    using 2(2) assms(2) by (cases "sessions v2 i") (auto simp: log_view_def)
  then show ?thesis
    using assms(3) v1 1(1) v2 2(1) by (auto simp: push_reply_def with_session_def reply_def set_phase_def and_then_def)
qed

text \<open>The session of a finished push, with the client as the push has left it.\<close>

lemma push_finish_reply:
  assumes "sessions v i = Some s"
  shows "push_finish E i ua p q v =
    and_then (case (push_writer s, client_lock v) of
        (Some w, Some b) \<Rightarrow> if q > p then commit_push E b w ua v else Next [] v
      | _ \<Rightarrow> Next [] v) (\<lambda>v. push_reply E i ua (put_session i (s\<lparr>push_writer := None\<rparr>) v))"
  using assms by (simp add: push_finish_def push_reply_def with_session_def)

lemma push_reply_end:
  assumes "log_inv_but i content E v" and "push_reply E i ua (put_session i (s\<lparr>push_writer := None\<rparr>) v) = Next bs v'"
  shows "log_inv content E v'" and "bs = [push_status s]" and "committed content v' = committed content v"
    and "pending content v' = (pending content v)(i := None)"
proof -
  let ?v = "put_session i (s\<lparr>push_writer := None\<rparr>) v"
  have but: "log_inv_but i content E ?v" using alike_log_inv_but [OF alike_put assms(1)] .
  then have ex: "exclusive E ?v" by (simp add: log_inv_but_def)
  from push_reply_status [OF ex _ assms(2), of "s\<lparr>push_writer := None\<rparr>"] show "bs = [push_status s]" by simp
  have view: "log_view i v' = log_view i ?v" using push_reply_log [OF ex, of i ua] assms(2) by simp
  then have al: "alike i v' ?v" by (rule alike_view)
  have none: "push_writer t = None" if "sessions v' i = Some t" for t using view that by (auto simp: log_view_def)
  moreover have "quiet i (Next bs v')" using push_reply_quiet [of i E ua ?v] assms(2) by simp
  ultimately have "push_ok content v' t" if "sessions v' i = Some t" for t
    using that by (auto simp: push_ok_def quiet_def split: session_phase.splits)
  then show "log_inv content E v'" using alike_log_inv_but [OF al but] log_inv_but [of content E v' i] by blast
  have al': "alike i v' v" using alike_trans [OF al alike_put] .
  show "committed content v' = committed content v" by (rule alike_log(1) [OF al'])
  have "pending content v' i = None" using none by (auto simp: pending_def split: option.split)
  then show "pending content v' = (pending content v)(i := None)" using alike_log(2) [OF al'] by (auto simp: fun_eq_iff)
qed

context file_contract
begin

lemma commit_push_law:
  assumes "exclusive E v" and "env_file E = F" and "log_journal content (server_journal v)"
    and "server_checkpoint_position v < w" and "w \<le> int (length (content (journal_file (server_journal v))))" and "w < 2 ^ 63"
    and "commit_push E True w ua v = Next bs v'"
  obtains cl c where "v' = v\<lparr>server_client := cl, server_connection := c\<rparr>" and "bs = []" and "exclusive E v'"
    and "log_journal content (client_journal cl)" and "checkpoint_position (client_journal cl) = w"
    and "\<And>q. slice (content (journal_file (client_journal cl))) header_size q =
           slice (content (journal_file (server_journal v))) header_size q"
proof -
  let ?j = "server_journal v" and ?cl = "server_client v"
  obtain j' k hs where j': "soft_checkpoint_at F w ?j = Inr j'" "checkpoint_position j' = w" "log_journal content j'"
    "k + length hs \<le> 32" "content (journal_file j') = patch (content (journal_file ?j)) k hs"
    "get_mode F (journal_file j') = get_mode F (journal_file ?j)"
    by (rule log_journal_checkpoint [OF assms(3-6)])
  have ns: "\<not> client_is_shared E v" and flags: "\<not> use_valid_data ?cl" "\<not> use_timestamp ?cl" "\<not> use_hard_checkpoint ?cl"
    using assms(1) by (auto simp: exclusive_def)
  have "soft_checkpoint F j' = Inr j'" using j'(3) by (simp add: soft_checkpoint_def soft_checkpoint_at_def log_journal_def)
  then have "do_checkpoint F (env_time E) (?cl\<lparr>client_journal := j'\<rparr>) = Inr (?cl\<lparr>client_journal := j'\<rparr>)"
    using flags by (simp add: do_checkpoint_def)
  then obtain p c where v': "bs = []" "v' = v\<lparr>server_client := ?cl\<lparr>client_journal := j', connection_checkpoint := p\<rparr>, server_connection := c\<rparr>"
    using assms(2,7) ns j'(1)
    by (auto simp: commit_push_def from_outcome_def checkpoint_and_push_def lock_do_checkpoint_def lock_push_def client_push_all_def
        client_push_def bind_outcome_def Let_def split: option.splits sum.splits prod.splits)
  have "32 \<le> header_size" "header_size \<le> length (content (journal_file ?j))" using assms(3) by (auto simp: log_journal_def)
  then have "slice (content (journal_file j')) header_size q = slice (content (journal_file ?j)) header_size q" for q
    using j'(4,5) by (simp add: slice_patch_header)
  moreover have "exclusive E v'"
    using assms(1,2) j'(6) v'(2) by (simp add: exclusive_def client_is_shared_def is_shared_def)
  ultimately show ?thesis using that [OF v'(2,1)] j'(2,3) by simp
qed

text \<open>A push whose data has arrived.\<close>

lemma push_finish_law:
  assumes "log_inv_but i content E v" and "env_file E = F" and "sessions v i = Some s" and "push_finish E i ua p q v = Next bs v'"
    and "push_writer s = Some w" and "server_checkpoint_position v \<le> w" and "w \<le> int (length (content (journal_file (server_journal v))))"
    and "p < q \<longrightarrow> server_checkpoint_position v < w \<and> w < 2 ^ 63" and "\<forall>j. j \<noteq> i \<longrightarrow> pending content v j = None"
  shows "log_inv content E v'" and "bs = [push_status s]" and "pending content v' = Map.empty"
    and "committed content v' = (if p < q then committed content v @ slice (content (journal_file (server_journal v)))
           (nat (server_checkpoint_position v)) (nat w) else committed content v)"
proof -
  have ex: "exclusive E v" and lj: "log_journal content (server_journal v)" using assms(1) by (auto simp: log_inv_but_def)
  have cl: "client_lock v = Some True" using ex by (simp add: exclusive_def)
  have "log_inv content E v' \<and> bs = [push_status s] \<and> pending content v' = Map.empty \<and>
    committed content v' = (if p < q then committed content v @ slice (content (journal_file (server_journal v)))
           (nat (server_checkpoint_position v)) (nat w) else committed content v)"
  proof (cases "p < q")
    case False
    then have r: "push_reply E i ua (put_session i (s\<lparr>push_writer := None\<rparr>) v) = Next bs v'"
      using assms(4,5) cl by (simp add: push_finish_reply [OF assms(3)])
    have "(pending content v)(i := None) = Map.empty" using assms(9) by (auto simp: fun_eq_iff)
    then show ?thesis using push_reply_end [OF assms(1) r] False by simp
  next
    case True
    then obtain bs1 v1 where v1: "commit_push E True w ua v = Next bs1 v1"
      using assms(4,5) cl by (cases "commit_push E True w ua v") (simp_all add: push_finish_reply [OF assms(3)])
    have w: "server_checkpoint_position v < w" "w < 2 ^ 63" using assms(8) True by auto
    obtain cl c where c: "v1 = v\<lparr>server_client := cl, server_connection := c\<rparr>" "bs1 = []" "exclusive E v1"
      "log_journal content (client_journal cl)" "checkpoint_position (client_journal cl) = w"
      "\<And>q. slice (content (journal_file (client_journal cl))) header_size q =
           slice (content (journal_file (server_journal v))) header_size q"
      by (rule commit_push_law [OF ex assms(2) lj w(1) assms(7) w(2) v1]) blast
    have none: "push_writer t = None" if "j \<noteq> i" "sessions v j = Some t" for j t
      using assms(9) that by (auto simp: pending_def split: option.splits)
    have "push_ok content v1 t" if t: "j \<noteq> i" "sessions v j = Some t" for j t
      using assms(1) push_ok_no_writer [OF none [OF t], of content v1 v] t by (auto simp: log_inv_but_def)
    then have but: "log_inv_but i content E v1" using c(1,3,4) by (auto simp: log_inv_but_def)
    have r: "push_reply E i ua (put_session i (s\<lparr>push_writer := None\<rparr>) v1) = Next bs v'"
      using assms(4,5) cl v1 c(2) True by (simp add: push_finish_reply [OF assms(3)])
    have "(pending content v1)(i := None) = Map.empty" using none by (auto simp: pending_def fun_eq_iff c(1) split: option.split)
    moreover have "committed content v1 = committed content v @ slice (content (journal_file (server_journal v)))
           (nat (server_checkpoint_position v)) (nat w)"
    proof -
      have "header_size \<le> nat (server_checkpoint_position v)" "nat (server_checkpoint_position v) \<le> nat w"
        using lj w(1) by (auto simp: log_journal_def)
      from slice_append [OF this, of "content (journal_file (server_journal v))"] show ?thesis using c(1,5,6) by (simp add: committed_def)
    qed
    ultimately show ?thesis using push_reply_end [OF but r] True by simp
  qed
  then show "log_inv content E v'" and "bs = [push_status s]" and "pending content v' = Map.empty"
    and "committed content v' = (if p < q then committed content v @ slice (content (journal_file (server_journal v)))
           (nat (server_checkpoint_position v)) (nat w) else committed content v)" by blast+
qed

end

context file_contract
begin

text \<open>Data arrives for a push that has not been refused: it goes to the end of what is pending.\<close>

lemma push_receive_law:
  assumes "log_inv_but i content E v" and "env_file E = F" and "sessions v i = Some s"
    and "push_receive E i ua p q n bs v = Next out v'" and "push_writer s = Some w"
    and "push_ok content v (s\<lparr>phase := Receiving ua p q n\<rparr>)" and "length bs = nat (min n (int session_buffer_size))"
    and "\<forall>j. j \<noteq> i \<longrightarrow> pending content v j = None" and "pending content v i = Some xs"
  shows "log_inv content E v' \<and>
    (if n - int (length bs) > 0 then out = [] \<and> committed content v' = committed content v \<and> pending content v' = [i \<mapsto> xs @ bs]
     else out = [push_status s] \<and> pending content v' = Map.empty \<and>
       committed content v' = (if p < q then committed content v @ xs @ bs else committed content v))"
proof -
  let ?j = "server_journal v" and ?n = "n - int (length bs)" and ?w = "w + int (length bs)"
  have ex: "exclusive E v" and lj: "log_journal content ?j" using assms(1) by (auto simp: log_inv_but_def)
  have ok: "0 < n" "session_locking s" "push_status s = (if ua then 79 else 78)" "p = checkpoint_position ?j" "p \<le> w" "w + n = p + announced p q"
    "w \<le> int (length (content (journal_file ?j)))" "- (2 ^ 63) \<le> q" "q < 2 ^ 63" using assms(5,6) by (auto simp: push_ok_def)
  have p: "0 \<le> p" "header_size \<le> nat p" using lj ok(4) by (auto simp: log_journal_def)
  have len: "int (length bs) \<le> n" using assms(7) ok(1) by simp
  obtain f where f: "async_write F bs (journal_file ?j) w = Inr (f, ?w)" "content f = patch (content (journal_file ?j)) (nat w) bs"
    "get_mode F f = get_mode F (journal_file ?j)" "log_journal content (set_file f ?j)"
    by (rule log_journal_write [OF lj]) (use ok(4,5,7) in auto)
  define v1 where "v1 = put_session i (s\<lparr>push_writer := Some ?w\<rparr>) (v\<lparr>server_client := (server_client v)\<lparr>client_journal := set_file f ?j\<rparr>\<rparr>)"
  have j1: "server_journal v1 = set_file f ?j" by (simp add: v1_def)
  have c1: "content (journal_file (server_journal v1)) = patch (content (journal_file ?j)) (nat w) bs" "server_checkpoint_position v1 = p"
    using f(2) ok(4) by (simp_all add: j1 set_file_def)
  have recv: "push_receive E i ua p q n bs v = push_loop E i ua p q ?n v1"
    using assms(2,3,5) f(1) by (simp add: push_receive_def with_session_def from_outcome_def v1_def)
  have none: "push_writer t = None" if "j \<noteq> i" "sessions v j = Some t" for j t
    using assms(8) that by (auto simp: pending_def split: option.splits)
  have "push_ok content v1 t" if t: "j \<noteq> i" "sessions v j = Some t" for j t
    using assms(1) push_ok_no_writer [OF none [OF t], of content v1 v] t by (auto simp: log_inv_but_def)
  moreover have "exclusive E v1"
    using ex assms(2) f(3) by (simp add: v1_def exclusive_def client_is_shared_def is_shared_def set_file_def)
  ultimately have but: "log_inv_but i content E v1" using f(4) by (auto simp: log_inv_but_def v1_def)
  have w: "nat p \<le> nat w" "nat w \<le> length (content (journal_file ?j))" using ok(5,7) by auto
  have com: "committed content v1 = committed content v"
    using slice_patch_before [of header_size "nat p" "nat w" "content (journal_file ?j)" bs] p(2) w c1 ok(4) by (simp add: committed_def)
  have xs: "xs = slice (content (journal_file ?j)) (nat p) (nat w)" using assms(3,5,9) ok(4) by (simp add: pending_def)
  have new: "slice (content (journal_file (server_journal v1))) (nat p) (nat ?w) = xs @ bs"
    using slice_patch_end [OF w, of bs] c1(1) p(1) ok(5) xs by (simp add: nat_add_distrib)
  have pend: "j \<noteq> i \<Longrightarrow> pending content v1 j = None" for j using none by (auto simp: pending_def v1_def split: option.split)
  have size: "?w \<le> int (length (content (journal_file (server_journal v1))))"
    using w(2) c1(1) ok(5) p(1) by (simp add: length_patch)
  have s1: "sessions v1 i = Some (s\<lparr>push_writer := Some ?w\<rparr>)" by (simp add: v1_def)
  show ?thesis
  proof (cases "?n > 0")
    case True
    let ?t = "s\<lparr>push_writer := Some ?w, phase := Receiving ua p q ?n, woken := False\<rparr>"
    have v': "v' = put_session i ?t v1" "out = []"
      using assms(4) recv True s1 by (simp_all add: push_loop_def set_phase_def with_session_def)
    have "push_ok content v' ?t" using ok True size c1(2) by (simp add: push_ok_def v'(1))
    then have "log_inv content E v'"
      using alike_log_inv_but [OF alike_put but] log_inv_but [of content E v' i] v'(1) by simp
    moreover have "committed content v' = committed content v" using alike_log(1) [OF alike_put] com v'(1) by metis
    moreover have "pending content v' = [i \<mapsto> xs @ bs]"
    proof (rule ext)
      fix j
      have "pending content v' i = Some (xs @ bs)" using new c1(2) by (simp add: v'(1) pending_def)
      moreover have "j \<noteq> i \<Longrightarrow> pending content v' j = None" using alike_log(2) [OF alike_put] pend unfolding v'(1) by metis
      ultimately show "pending content v' j = [i \<mapsto> xs @ bs] j" by auto
    qed
    ultimately show ?thesis using True v'(2) by simp
  next
    case False
    then have last: "?w = p + announced p q" using len ok(6) by simp
    have fin: "push_finish E i ua p q v1 = Next out v'" using assms(4) recv False by (simp add: push_loop_def)
    have bound: "p < q \<longrightarrow> server_checkpoint_position v1 < ?w \<and> ?w < 2 ^ 63"
      using last announced_nat [OF p(1)] ok(9) c1(2) by simp
    have le: "server_checkpoint_position v1 \<le> ?w" using c1(2) ok(5) by simp
    have "\<forall>j. j \<noteq> i \<longrightarrow> pending content v1 j = None" using pend by blast
    from push_finish_law [OF but assms(2) s1 fin _ le size bound this] show ?thesis
      using False com new c1(2) by simp
  qed
qed

end

lemma read_int64_range: "- (2 ^ 63) \<le> read_int64 k bs" "read_int64 k bs < 2 ^ 63"
  using sint_ge [of "of_bytes (take 8 (drop k bs)) :: 64 word"] sint_lt [of "of_bytes (take 8 (drop k bs)) :: 64 word"]
  by (simp_all add: read_int64_def)

lemma take_lock_exclusive:
  "client_lock v = Some True \<Longrightarrow> sessions v i = Some s \<Longrightarrow>
     take_lock E i v = Next [] (put_session i (s\<lparr>session_locking := True\<rparr>) (v\<lparr>is_locked := True\<rparr>))"
  by (auto simp: take_lock_def with_session_def Let_def)

lemma pending_put:
  assumes "alike i v1 v"
  shows "pending content (put_session i t v1) = (pending content v)(i := map_option (\<lambda>w.
    slice (content (journal_file (server_journal v))) (nat (server_checkpoint_position v)) (nat w)) (push_writer t))"
proof (rule ext)
  fix j
  have "server_client v1 = server_client v" using assms by (simp add: alike_def)
  moreover have "j \<noteq> i \<Longrightarrow> pending content (put_session i t v1) j = pending content v j"
    using alike_log(2) [OF alike_trans [OF alike_put assms]] by blast
  ultimately show "pending content (put_session i t v1) j = ((pending content v)(i := map_option (\<lambda>w.
      slice (content (journal_file (server_journal v))) (nat (server_checkpoint_position v)) (nat w)) (push_writer t))) j"
    by (cases "j = i") (simp_all add: pending_def)
qed

text \<open>A push that was refused, or whose lock has timed out: the data is read and forgotten.\<close>

lemma push_refused_law:
  assumes "log_inv_but i content E v" and "sessions v i = Some s" and "push_writer s = None"
    and "n > 0 \<longrightarrow> push_status s \<in> {82, 67, 116}" and "push_loop E i ua p q n v = Next out v'"
  shows "log_inv content E v' \<and> log_of content v' = log_of content v \<and> (n \<le> 0 \<longrightarrow> out = [push_status s])"
proof (cases "n > 0")
  case True
  let ?t = "s\<lparr>phase := Receiving ua p q n, woken := False\<rparr>"
  have v': "v' = put_session i ?t v" using assms(2,5) True by (simp add: push_loop_def set_phase_def with_session_def)
  have "push_ok content v' ?t" using assms(3,4) True by (simp add: push_ok_def)
  then have "log_inv content E v'"
    using alike_log_inv_but [OF alike_put assms(1)] log_inv_but [of content E v' i] v' by simp
  moreover have "pending content v' j = pending content v j" for j
    using alike_log(2) [OF alike_put [of i ?t v], of j] assms(2,3) unfolding v' by (cases "j = i") (simp_all add: pending_def)
  ultimately show ?thesis using alike_log(1) [OF alike_put] True v' by (simp add: log_of_def fun_eq_iff)
next
  case False
  then have "push_reply E i ua (put_session i (s\<lparr>push_writer := None\<rparr>) v) = Next out v'"
    using assms(3,5) by (simp add: push_loop_def push_finish_reply [OF assms(2)])
  note r = push_reply_end [OF assms(1) this]
  have "pending content v i = None" using assms(2,3) by (simp add: pending_def)
  then have "(pending content v)(i := None) = pending content v" by auto
  then show ?thesis using r False by (simp add: log_of_def)
qed

context file_contract
begin

lemma push_request_law:
  assumes "runs i h v" and "log_inv_but i content E v" and "env_file E = F" and "sessions v i = Some s" and "push_writer s = None"
    and "first_byte s = (if ua then 79 else 78)" and "push_request E i ua bs v = Next out v'"
  shows "log_inv content E v' \<and> committed content v' = committed content v \<and>
    (pending content v' = pending content v \<or> pending content v = Map.empty \<and> pending content v' = [i \<mapsto> []])"
proof -
  have ex: "exclusive E v" using assms(2) by (simp add: log_inv_but_def)
  then have cl: "client_lock v = Some True" "is_writable v" by (auto simp: exclusive_def)
  have lk: "session_locking s = (h = Some i)" using assms(1,4) by (auto simp: runs_def lock_inv_def)
  define v1 where "v1 = (if is_locked v then v else put_session i (s\<lparr>session_locking := True\<rparr>) (v\<lparr>is_locked := True\<rparr>))"
  define s1 where "s1 = (if is_locked v then s else s\<lparr>session_locking := True\<rparr>)"
  have allowed: "is_locked v \<Longrightarrow> session_locking s" "\<not> is_locked v \<Longrightarrow> \<not> session_locking s"
    using assms(4,7) runs_locked [OF assms(1)] lk by (auto simp: push_request_def with_session_def split: if_splits)
  have al: "alike i v1 v" by (simp add: v1_def alike_def)
  have r1: "runs i (Some i) v1"
  proof (cases "is_locked v")
    case True
    then show ?thesis using assms(1) allowed lk by (simp add: v1_def)
  next
    case False
    from take_free_lock [OF assms(1) False, of undefined E] show ?thesis
      using take_lock_exclusive [OF cl(1) assms(4)] False by (simp add: v1_def)
  qed
  have s1: "sessions v1 i = Some s1" "session_locking s1" "push_writer s1 = None" "first_byte s1 = first_byte s"
    using assms(4,5) allowed by (simp_all add: v1_def s1_def)
  have but: "log_inv_but i content E v1" by (rule alike_log_inv_but [OF al assms(2)])
  let ?p = "read_int64 0 bs" and ?q = "read_int64 8 bs" and ?c = "server_checkpoint_position v1"
  let ?t = "\<lambda>st wr. s1\<lparr>push_status := st, push_writer := wr\<rparr>"
  have cl1: "client_lock v1 = Some True" "is_writable v1" using cl al by (simp_all add: alike_def)
  have loop: "push_loop E i ua ?p ?q (announced ?p ?q)
      (put_session i (if ?p = ?c then ?t (first_byte s) (Some ?c) else ?t 67 None) v1) = Next out v'"
    using assms(4,7) allowed cl1 s1 take_lock_exclusive [OF cl(1) assms(4)]
    by (cases "is_locked v") (auto simp: push_request_def with_session_def announced_def v1_def s1_def Let_def split: if_splits)
  have same: "committed content (put_session i t v1) = committed content v" "log_inv_but i content E (put_session i t v1)" for t
    using alike_log(1) [OF alike_put] alike_log(1) [OF al] alike_log_inv_but [OF alike_put but] by metis+
  have quiet_i: "pending content v i = None" using assms(4,5) by (simp add: pending_def)
  show ?thesis
  proof (cases "?p = ?c")
    case False
    then have "log_inv content E v' \<and> log_of content v' = log_of content (put_session i (?t 67 None) v1)"
      using push_refused_law [OF same(2), of "?t 67 None"] loop by simp
    moreover have "pending content (put_session i (?t 67 None) v1) = pending content v"
      using pending_put [OF al, of content "?t 67 None"] quiet_i by auto
    ultimately show ?thesis using same(1) by (simp add: log_of_def)
  next
    case True
    let ?s = "?t (first_byte s) (Some ?c)"
    let ?v = "put_session i ?s v1"
    have lj: "log_journal content (server_journal v1)" using but by (simp add: log_inv_but_def)
    then have c: "0 \<le> ?c" "?c \<le> int (length (content (journal_file (server_journal v1))))" by (auto simp: log_journal_def)
    have "lock_inv (Some i) v1" using r1 by (simp add: runs_def)
    from pending_unique [OF this but] alike_log(2) [OF al] quiet_i have empty: "pending content v = Map.empty"
      by (metis ext option.sel)
    then have pv: "pending content ?v = [i \<mapsto> []]" using pending_put [OF al, of content ?s] al by (simp add: slice_def alike_def)
    show ?thesis
    proof (cases "announced ?p ?q > 0")
      case pos: True
      let ?u = "?s\<lparr>phase := Receiving ua ?p ?q (announced ?p ?q), woken := False\<rparr>"
      have v': "v' = put_session i ?u v1" using loop True pos by (simp add: push_loop_def set_phase_def with_session_def put_session_def)
      have "push_ok content v' ?u" using pos True s1(2) assms(6) c read_int64_range [of 8 bs] by (simp add: push_ok_def v')
      then have "log_inv content E v'" using same(2) log_inv_but [of content E v' i] v' by simp
      moreover have "pending content v' = pending content ?v"
        using pending_put [OF al, of content ?u] pending_put [OF al, of content ?s] v' by simp
      ultimately show ?thesis using same(1) pv empty v' by simp
    next
      case neg: False
      then have le: "\<not> ?p < ?q" using announced_nat [of ?p ?q] c(1) True read_int64_range [of 8 bs] by auto
      have fin: "push_finish E i ua ?p ?q ?v = Next out v'" using loop True neg by (simp add: push_loop_def)
      have "\<forall>j. j \<noteq> i \<longrightarrow> pending content ?v j = None" using pv by simp
      from push_finish_law [OF same(2) assms(3) _ fin _ _ _ _ this, of ?s ?c] le c(2)
      show ?thesis using same(1) empty by simp
    qed
  qed
qed

end

section \<open>Steps\<close>

text \<open>An exception leaves the client and the pushes of the other sessions as they are.\<close>

definition throws_alike :: "nat \<Rightarrow> ('f, 'd, 'c) Server \<Rightarrow> ('f, 'd, 'c) Server served \<Rightarrow> bool" where
  "throws_alike i v r = (case r of Throw e v' \<Rightarrow> alike i v' v | _ \<Rightarrow> True)"

lemma throws_alike_simps [simp]:
  "throws_alike i v (Next bs v')" "throws_alike i v (Failed e)" "throws_alike i v Undefined" "throws_alike i v Never"
  "throws_alike i v (Throw e v') = alike i v' v"
  by (simp_all add: throws_alike_def)

lemma throws_alike_same: "same_log i v r \<Longrightarrow> throws_alike i v r"
  by (cases r) (auto intro: alike_view)

lemma throws_alike_and_then:
  "throws_alike i v r \<Longrightarrow> (\<And>v'. throws_alike i v (g v')) \<Longrightarrow> throws_alike i v (and_then r g)"
proof (cases r)
  case (Next bs v1)
  assume "\<And>v'. throws_alike i v (g v')"
  then have "throws_alike i v (g v1)" .
  then show ?thesis using Next by (cases "g v1") (simp_all add: and_then_def)
qed simp_all

lemma throws_alike_with_session: "(\<And>s. throws_alike i v (g s)) \<Longrightarrow> throws_alike i v (with_session j v' g)"
  by (simp add: with_session_def split: option.split)

lemma throws_alike_from_outcome: "(\<And>x. throws_alike i v (g x)) \<Longrightarrow> throws_alike i v (from_outcome r g)"
  by (simp add: from_outcome_def split: option.split sum.split)

lemmas throws_alike_intros = throws_alike_and_then throws_alike_with_session throws_alike_from_outcome

lemma throws_alike_cancel_timer: "throws_alike i v (cancel_timer j v')"
  unfolding cancel_timer_def by (rule throws_alike_with_session) simp

lemma throws_alike_cancel_timers: "throws_alike i v (cancel_timers ws v')"
  by (induction ws arbitrary: v') (auto intro!: throws_alike_intros throws_alike_cancel_timer)

lemma throws_alike_session_unlock: "throws_alike i v (session_unlock E j v')"
  unfolding session_unlock_def unlock_client_def Let_def
  by (intro throws_alike_with_session) (auto intro!: throws_alike_intros throws_alike_cancel_timer split: list.split option.split prod.split)

lemma throws_alike_set_phase: "throws_alike i v (set_phase j ph v')"
  unfolding set_phase_def by (rule throws_alike_with_session) simp

lemma throws_alike_push_loop: "throws_alike i v (push_loop E j ua p q n v')"
  unfolding push_loop_def push_finish_def commit_push_def reply_def Let_def
  by (auto intro!: throws_alike_intros throws_alike_set_phase throws_alike_session_unlock throws_alike_cancel_timers
      split: option.split prod.split)

lemma throws_alike_push_request: "throws_alike i v (push_request E i ua bs v)"
  unfolding push_request_def take_lock_def Let_def
  by (intro throws_alike_with_session) (auto intro!: throws_alike_intros throws_alike_push_loop split: Ending.split)

lemma throws_alike_push_receive: "throws_alike i v (push_receive E j ua p q n bs v')"
  unfolding push_receive_def by (auto intro!: throws_alike_intros throws_alike_push_loop split: option.split prod.split)

lemma push_receive_never_throws: "push_receive E i ua p q n bs v \<noteq> Throw e v'"
  using throws_alike_push_receive [of i "v'\<lparr>is_writable := \<not> is_writable v'\<rparr>" E i ua p q n bs v] by (auto simp: alike_def)

lemma throws_alike_end_session: "throws_alike i v (end_session E j v')"
  unfolding end_session_def by (auto intro!: throws_alike_and_then throws_alike_session_unlock)

lemma throws_alike_dispatch:
  assumes "exclusive E v"
  shows "throws_alike i v (dispatch E i code v)"
  unfolding dispatch_def reply_def Let_def
  by (intro throws_alike_with_session) (auto intro!: throws_alike_and_then throws_alike_set_phase throws_alike_session_unlock throws_alike_end_session)

lemma pending_single:
  assumes "lock_inv h v" and "log_inv content E v" and "sessions v i = Some s" and "push_writer s = Some w"
  shows "pending content v = [i \<mapsto> slice (content (journal_file (server_journal v))) (nat (server_checkpoint_position v)) (nat w)]"
    and "h = Some i"
proof -
  have "push_ok content v s" using assms(2,3) by (simp add: log_inv_def)
  then have "session_locking s" using assms(4) push_ok_writer by blast
  then show "h = Some i" using assms(1,3) by (auto simp: lock_inv_def)
  then have "pending content v j = None" if "j \<noteq> i" for j
    using pending_unique [OF assms(1), of i content E] assms(2) log_inv_but that by blast
  then show "pending content v = [i \<mapsto> slice (content (journal_file (server_journal v))) (nat (server_checkpoint_position v)) (nat w)]"
    using map_singleton [of i "pending content v"] assms(3,4) by (simp add: pending_def [of _ _ i])
qed

text \<open>A session that ends gives up what it has pushed.\<close>

lemma end_session_log:
  assumes "lock_inv h v" and "log_inv content E v" and "sessions v i = Some s" and "alike i v1 v" and "end_session E i v1 = Next bs v'"
  shows "log_inv content E v'" and "(log_step i)\<^sup>*\<^sup>* (log_of content v) (log_of content v')"
proof -
  have but: "log_inv_but i content E v1" using alike_log_inv_but [OF assms(4)] assms(2) log_inv_but by blast
  then have "exclusive E v1" by (simp add: log_inv_but_def)
  note e = end_session_alike [OF this assms(5)]
  show "log_inv content E v'" using alike_log_inv_but [OF e(1) but] e(2) log_inv_but [of content E v' i] by simp
  note al = alike_trans [OF e(1) assms(4)]
  have log: "committed content v' = committed content v" "pending content v' = (pending content v)(i := None)"
    using alike_log [OF al] e(2) by (auto simp: fun_eq_iff pending_def [of _ _ i])
  show "(log_step i)\<^sup>*\<^sup>* (log_of content v) (log_of content v')"
  proof (cases "pending content v i")
    case None
    then have "(pending content v)(i := None) = pending content v" by auto
    then show ?thesis using log by (simp add: log_of_def)
  next
    case (Some xs)
    then obtain w where "push_writer s = Some w" using assms(3) by (auto simp: pending_def)
    from pending_single(1) [OF assms(1-3) this] have "pending content v = [i \<mapsto> xs]" using Some by (metis fun_upd_same option.inject)
    then show ?thesis using log log_step.abort [of i "committed content v" xs] by (auto simp: log_of_def)
  qed
qed

lemma on_timeout_log:
  assumes "lock_inv h v" and "log_inv content E v" and "sessions v i = Some s" and "on_timeout E i v = Next bs v'"
  shows "log_inv content E v'" and "(log_step i)\<^sup>*\<^sup>* (log_of content v) (log_of content v')"
proof -
  define t where "t = (if push_writer s \<noteq> None then s\<lparr>push_writer := None, push_status := 116\<rparr> else s)"
  let ?v = "put_session i t v"
  have t: "push_writer t = None" "session_locking t = session_locking s" "phase t = phase s" by (simp_all add: t_def)
  have "push_writer s = None \<Longrightarrow> put_session i s v = v" using assms(3) by (simp add: put_session_def fun_upd_idem)
  then have un: "session_unlock E i ?v = Next bs v'"
    using assms(3,4) by (cases "push_writer s") (auto simp: on_timeout_def with_session_def t_def)
  have "lock_inv h ?v" using assms(1,3) t(2,3) unfolding lock_inv_def put_session_simps by (auto 4 3 simp: t_def)
  from session_unlock_served [OF this, of i t undefined E] un have s': "sessions v' i = Some (t\<lparr>session_locking := False\<rparr>)" by simp
  have but: "log_inv_but i content E v" using assms(2) log_inv_but by blast
  have "exclusive E ?v" using alike_log_inv_but [OF alike_put but] by (simp add: log_inv_but_def)
  from alike_trans [OF session_unlock_alike(1) [OF this un] alike_put] have al: "alike i v' v" .
  have "push_ok content v s" using assms(2,3) by (simp add: log_inv_def)
  then have "push_ok content v' (t\<lparr>session_locking := False\<rparr>)"
    by (cases "phase s"; cases "push_writer s") (simp_all add: push_ok_def t_def)
  then show "log_inv content E v'" using alike_log_inv_but [OF al but] s' log_inv_but [of content E v' i] by simp
  have log: "committed content v' = committed content v" "pending content v' = (pending content v)(i := None)"
    using alike_log [OF al] s' t(1) by (auto simp: fun_eq_iff pending_def [of _ _ i])
  show "(log_step i)\<^sup>*\<^sup>* (log_of content v) (log_of content v')"
  proof (cases "push_writer s")
    case None
    then have "(pending content v)(i := None) = pending content v" using assms(3) by (auto simp: pending_def)
    then show ?thesis using log by (simp add: log_of_def)
  next
    case (Some w)
    from pending_single(1) [OF assms(1-3) this] show ?thesis
      using log log_step.abort [of i "committed content v"] by (auto simp: log_of_def)
  qed
qed

text \<open>A session that resumes, with nothing pending.\<close>

lemma resume_log:
  assumes "log_inv content E v" and "sessions v i = Some s" and "push_writer s = None"
  shows "log_inv content E (put_session i (s\<lparr>phase := Running\<rparr>) v)" and "log_of content (put_session i (s\<lparr>phase := Running\<rparr>) v) = log_of content v"
proof -
  let ?v = "put_session i (s\<lparr>phase := Running\<rparr>) v"
  have "log_inv_but i content E ?v" using alike_log_inv_but [OF alike_put] assms(1) log_inv_but by blast
  moreover have "push_ok content ?v (s\<lparr>phase := Running\<rparr>)" using assms(3) by (simp add: push_ok_def)
  ultimately show "log_inv content E ?v" using log_inv_but [of content E ?v i] by simp
  have "pending content v i = None" using assms(2,3) by (simp add: pending_def)
  then show "log_of content ?v = log_of content v"
    using pending_put [OF alike_refl, of content i "s\<lparr>phase := Running\<rparr>" v] alike_log(1) [OF alike_put] assms(3) by (auto simp: log_of_def)
qed

definition log_goes :: "nat \<Rightarrow> ('f \<Rightarrow> byte list) \<Rightarrow> ('f, 'd, 'c) Server_Env \<Rightarrow> ('f, 'd, 'c) Server \<Rightarrow> ('f, 'd, 'c) Server served \<Rightarrow> bool" where
  "log_goes i content E v r =
     (case r of Next bs v' \<Rightarrow> log_inv content E v' \<and> (log_step i)\<^sup>*\<^sup>* (log_of content v) (log_of content v') | _ \<Rightarrow> True)"

lemma log_goes_quiet:
  assumes "log_inv content E v" and "sessions v i = Some s" and "push_writer s = None"
    and "same_log i (put_session i (s\<lparr>phase := Running\<rparr>) v) r" and "quiet i r"
  shows "log_goes i content E v r"
proof (cases r)
  case (Next bs v')
  from quiet_step [OF resume_log(1) [OF assms(1-3)] _ _ assms(4,5) Next] assms(3) resume_log(2) [OF assms(1-3)]
  show ?thesis using Next by (simp add: log_goes_def log_kept_def)
qed (simp_all add: log_goes_def)

context file_contract
begin

lemma push_request_goes:
  assumes "lock_inv h v" and "log_inv content E v" and "env_file E = F" and "sessions v i = Some s" and "phase s = Pushing ua"
  shows "log_goes i content E v (push_request E i ua bs (put_session i (s\<lparr>phase := Running\<rparr>) v))"
proof -
  let ?v = "put_session i (s\<lparr>phase := Running\<rparr>) v"
  have "push_ok content v s" using assms(2,4) by (simp add: log_inv_def)
  then have s: "push_writer s = None" "first_byte s = (if ua then 79 else 78)" using assms(5) by (auto simp: push_ok_def)
  have r: "runs i h ?v" using lock_inv_resume [OF assms(1,4)] assms(5) by simp
  have but: "log_inv_but i content E ?v" using resume_log(1) [OF assms(2,4) s(1)] log_inv_but by blast
  show ?thesis
  proof (cases "push_request E i ua bs ?v")
    case (Next out v')
    from push_request_law [OF r but assms(3) _ _ _ Next, of "s\<lparr>phase := Running\<rparr>"] s resume_log(2) [OF assms(2,4) s(1)]
    have "log_inv content E v'" "log_of content v' = log_of content v \<or> log_step i (log_of content v) (log_of content v')"
      by (auto simp: log_of_def intro: log_step.start)
    then show ?thesis using Next by (auto simp: log_goes_def)
  qed (simp_all add: log_goes_def)
qed

lemma push_receive_goes:
  assumes "lock_inv h v" and "log_inv content E v" and "env_file E = F" and "sessions v i = Some s" and "phase s = Receiving ua p q n"
    and "length bs = nat (min n (int session_buffer_size))"
  shows "log_goes i content E v (push_receive E i ua p q n bs (put_session i (s\<lparr>phase := Running\<rparr>) v))"
proof (cases "push_receive E i ua p q n bs (put_session i (s\<lparr>phase := Running\<rparr>) v)")
  case (Next out v')
  let ?s = "s\<lparr>phase := Running\<rparr>"
  let ?v = "put_session i ?s v"
  have ok: "push_ok content v s" using assms(2,4) by (simp add: log_inv_def)
  have but: "log_inv_but i content E ?v" using alike_log_inv_but [OF alike_put] assms(2) log_inv_but by blast
  show ?thesis
  proof (cases "push_writer s")
    case None
    have st: "push_status s \<in> {82, 67, 116}" using ok None assms(5) by (auto simp: push_ok_def)
    have "push_loop E i ua p q (n - int (length bs)) ?v = Next out v'"
      using Next None by (simp add: push_receive_def with_session_def)
    from push_refused_law [OF but _ _ _ this, of ?s] None st resume_log(2) [OF assms(2,4) None]
    show ?thesis using Next by (simp add: log_goes_def)
  next
    case (Some w)
    note single = pending_single(1) [OF assms(1,2,4) Some]
    have pv: "pending content ?v = pending content v"
      using pending_put [OF alike_refl, of content i ?s v] single Some by simp
    have cv: "committed content ?v = committed content v" by (rule alike_log(1) [OF alike_put])
    have "s\<lparr>phase := Receiving ua p q n\<rparr> = s" using assms(5) by simp
    then have ok': "push_ok content ?v (?s\<lparr>phase := Receiving ua p q n\<rparr>)" using push_ok_view [of s s ?v v content] ok by simp
    have other: "\<forall>j. j \<noteq> i \<longrightarrow> pending content ?v j = None" using pv single by simp
    obtain xs where xs: "pending content v = [i \<mapsto> xs]" using single by blast
    then have pi: "pending content ?v i = Some xs" using pv by simp
    have law: "log_inv content E v' \<and>
        (if n - int (length bs) > 0 then out = [] \<and> committed content v' = committed content v \<and> pending content v' = [i \<mapsto> xs @ bs]
         else out = [push_status s] \<and> pending content v' = Map.empty \<and>
           committed content v' = (if p < q then committed content v @ xs @ bs else committed content v))"
      using push_receive_law [OF but assms(3) _ Next _ ok' assms(6) other pi, of w] Some cv by simp
    have "log_step i (log_of content v) (committed content v, [i \<mapsto> xs @ bs])"
      using xs log_step.extend by (auto simp: log_of_def)
    moreover have "log_step i (committed content v, [i \<mapsto> xs @ bs]) (committed content v @ xs @ bs, Map.empty)"
      "log_step i (committed content v, [i \<mapsto> xs @ bs]) (committed content v, Map.empty)"
      by (rule log_step.commit log_step.abort)+
    ultimately have "(log_step i)\<^sup>*\<^sup>* (log_of content v) (log_of content v')"
      using law by (auto simp: log_of_def split: if_splits)
    then show ?thesis using law Next by (simp add: log_goes_def)
  qed
qed (simp_all add: log_goes_def)

end

context file_contract
begin

lemma complete_log:
  assumes "lock_inv h v" and "log_inv content E v" and "env_file E = F" and "sessions v i = Some s" and "enabled x v s"
  shows "log_goes i content E v (complete E i x v) \<and> throws_alike i v (complete E i x v)"
proof -
  let ?v = "put_session i (s\<lparr>phase := Running\<rparr>) v"
  note defs = complete_def with_session_def assms(4) Let_def enabled_def expected_def
  have ok: "push_ok content v s" using assms(2,4) by (simp add: log_inv_def)
  have al: "alike i ?v v" by (rule alike_put)
  have ex: "exclusive E ?v" using al assms(2) by (simp add: log_inv_def alike_def exclusive_def client_is_shared_def)
  have ta: "throws_alike i v r" if "throws_alike i ?v r" for r using that alike_trans [OF _ al] by (cases r) auto
  have q: "log_goes i content E v r \<and> throws_alike i v r"
    if "push_writer s = None" "same_log i ?v r" "quiet i r" for r
    using log_goes_quiet [OF assms(2,4) that] ta [OF throws_alike_same [OF that(2)]] by simp
  show ?thesis
  proof (cases x)
    case (Received bs)
    have pr: "log_goes i content E v (push_request E i ua bs ?v) \<and> throws_alike i v (push_request E i ua bs ?v)" if "phase s = Pushing ua" for ua
      using push_request_goes [OF assms(1-4) that] ta [OF throws_alike_push_request] by blast
    have pc: "log_goes i content E v (push_receive E i ua p q n bs ?v) \<and> throws_alike i v (push_receive E i ua p q n bs ?v)"
      if "phase s = Receiving ua p q n" for ua p q n
      using push_receive_goes [OF assms(1-4) that] assms(5) Received that ta [OF throws_alike_push_receive] by (simp add: enabled_def expected_def)
    have di: "log_goes i content E v (dispatch E i (bs ! 0) ?v) \<and> throws_alike i v (dispatch E i (bs ! 0) ?v)" if w: "push_writer s = None"
    proof (cases "bs ! 0 \<in> {72, 73, 114, 68, 69, 70, 71, 77, 78, 79}")
      case True
      then show ?thesis using q [OF w log_dispatch [OF ex refl] quiet_dispatch] by simp
    next
      case False
      then have d: "dispatch E i (bs ! 0) ?v = end_session E i (put_session i (s\<lparr>phase := Running, first_byte := bs ! 0\<rparr>) ?v)"
        by (simp add: dispatch_def with_session_def)
      show ?thesis
        unfolding d using end_session_log [OF assms(1,2,4) alike_trans [OF alike_put al]]
        by (intro conjI throws_alike_end_session) (auto simp: log_goes_def split: served.split)
    qed
    have "log_goes i content E v (read_request E i bs ?v) \<and> throws_alike i v (read_request E i bs ?v)" if "push_writer s = None"
      unfolding read_request_def Let_def by (rule q [OF that log_send [OF refl] quiet_send])
    then show ?thesis
      using assms(5) Received ok pr pc di q [OF _ log_handshake [OF refl] quiet_handshake] q [OF _ log_check_hash [OF refl] quiet_check_hash]
        q [OF _ log_pull_request [OF ex refl] quiet_pull_request]
      by (cases "phase s") (simp_all add: defs push_ok_def)
  next
    case Written
    then show ?thesis
      using assms(5) ok q [OF _ log_send_some [OF refl] quiet_send_some] q [OF _ log_set_phase [OF refl] quiet_set_phase]
      by (cases "phase s") (simp_all add: defs push_ok_def)
  next
    case Timer
    have "log_goes i content E v (data_waited E i lk dt p ?v) \<and> throws_alike i v (data_waited E i lk dt p ?v)" if "push_writer s = None" for lk dt p
      unfolding data_waited_def by (rule q [OF that log_pull_lock [OF ex] quiet_pull_lock]) simp
    then show ?thesis
      using assms(5) Timer ok q [OF _ log_lock_waited [OF ex refl] quiet_lock_waited]
      by (cases "phase s") (simp_all add: defs push_ok_def)
  next
    case Timeout
    then have c: "complete E i x v = on_timeout E i v"
      by (simp add: complete_def with_session_def assms(4))
    have "log_goes i content E v (on_timeout E i v)"
      using on_timeout_log [OF assms(1,2,4)] by (simp add: log_goes_def split: served.split)
    moreover have "throws_alike i v (on_timeout E i v)"
      unfolding on_timeout_def by (rule throws_alike_with_session) (simp add: throws_alike_session_unlock)
    ultimately show ?thesis unfolding c ..
  next
    case Socket_Error
    then show ?thesis
      unfolding complete_def with_session_def using end_session_log [OF assms(1,2,4) al] assms(4)
      by (auto simp: log_goes_def throws_alike_end_session split: served.split)
  qed
qed

lemma server_step_log:
  assumes "lock_inv h v" and "log_inv content E v" and "env_file E = F" and "sessions v i = Some s" and "enabled x v s"
    and "server_step E i x v = Next bs v'"
  shows "log_inv content E v'" and "(log_step i)\<^sup>*\<^sup>* (log_of content v) (log_of content v')"
  using complete_log [OF assms(1-5)] assms(6) end_session_log [OF assms(1,2,4)]
  by (cases "complete E i x v"; auto simp: server_step_def log_goes_def)+

end

end
