(* ===== verification/Server_Log_Properties.thy ===== *)
theory Server_Log_Properties
  imports Server_Log Server_Properties
begin

text \<open>
  Properties of what a server does to its journal, for a server on a file in memory that is not
  shared, with any number of sessions that send arbitrary bytes, disconnect or time out in any order.
\<close>

section \<open>Runs of a server\<close>

inductive server_goes :: "('f, 'd, 'c) Server_Env \<Rightarrow> ('f, 'd, 'c) Server \<Rightarrow> ('f, 'd, 'c) Server \<Rightarrow> bool" for E where
  accept: "server_goes E v (new_session v)"
| step: "sessions v i = Some s \<Longrightarrow> enabled x v s \<Longrightarrow> server_step E i x v = Next bs v' \<Longrightarrow> server_goes E v v'"

definition some_log_step :: "byte list \<times> (nat \<rightharpoonup> byte list) \<Rightarrow> byte list \<times> (nat \<rightharpoonup> byte list) \<Rightarrow> bool" where
  "some_log_step a b \<longleftrightarrow> (\<exists>i. log_step i a b)"

lemma log_step_some: "(log_step i)\<^sup>*\<^sup>* a b \<Longrightarrow> some_log_step\<^sup>*\<^sup>* a b"
  by (rule rtranclp_mono [THEN predicate2D]) (auto simp: some_log_step_def)

lemma log_steps_prefix: "some_log_step\<^sup>*\<^sup>* a b \<Longrightarrow> \<exists>xs. fst b = fst a @ xs"
proof (induction rule: rtranclp_induct)
  case (step b c)
  then show ?case by (auto simp: some_log_step_def elim!: log_step.cases)
qed simp

lemma server_start_sessions: "server_start E timeout True cl c = Next bs v \<Longrightarrow> sessions v = Map.empty"
  by (auto simp: server_start_def from_outcome_def Let_def split: option.splits sum.splits Ending.splits if_splits)

lemma log_inv_start:
  assumes "server_start E timeout True cl c = Next bs v" and "exclusive E v" and "log_journal data (server_journal v)"
  shows "log_inv data E v"
  using assms server_start_sessions [OF assms(1)] by (simp add: log_inv_def)

lemma log_inv_new_session:
  assumes "lock_inv h v" and "log_inv content E v"
  shows "log_inv content E (new_session v)" and "log_of content (new_session v) = log_of content v"
proof -
  have "sessions v (session_id v) = None" using assms(1) by (cases "sessions v (session_id v)") (auto simp: lock_inv_def)
  then show "log_of content (new_session v) = log_of content v"
    by (auto simp: log_of_def committed_def pending_def new_session_def put_session_def fun_eq_iff split: option.split)
  show "log_inv content E (new_session v)"
    using assms(2) push_ok_view [of _ _ "new_session v" v content]
    by (auto simp: log_inv_def new_session_def put_session_def exclusive_def client_is_shared_def push_ok_def split: if_splits)
qed

lemma server_goes_inv:
  assumes "(server_goes E)\<^sup>*\<^sup>* v v'" and "idle v" and "log_inv data E v" and "env_file E = memory_file"
  shows "idle v' \<and> log_inv data E v' \<and> some_log_step\<^sup>*\<^sup>* (log_of data v) (log_of data v')"
  using assms(1)
proof (induction rule: rtranclp_induct)
  case base
  then show ?case using assms(2,3) by simp
next
  case (step v1 v2)
  then obtain h where inv: "lock_inv h v1" by (auto simp: idle_def)
  from step(2) show ?case
  proof cases
    case accept
    then show ?thesis using step(3) inv log_inv_new_session [OF inv] lock_inv_new_session [OF inv] by (auto simp: idle_def)
  next
    case (step i s x bs)
    from memory.server_step_log [OF inv _ assms(4) this] \<open>idle v1 \<and> _\<close>
    have "log_inv data E v2" "some_log_step\<^sup>*\<^sup>* (log_of data v1) (log_of data v2)" by (auto intro: log_step_some)
    moreover have "idle v2" using server_step_served [OF inv step(1,2), of idle E] step(3) by (simp add: idle_def)
    ultimately show ?thesis using \<open>idle v1 \<and> _\<close> by (meson rtranclp_trans)
  qed
qed

section \<open>A concrete run\<close>

text \<open>Session 0 has the lock, and pushes four bytes, in one piece.\<close>

definition pushing_steps :: "(nat \<times> completion) list" where
  "pushing_steps =
     [(0, Received hello), (0, Written), (0, Received [71]), (0, Received (int64_args 0 41)), (0, Written),
      (0, Received [79]), (0, Received (int64_args 41 45))]"

definition pushed_data :: "byte list" where
  "pushed_data = [1, 2, 3, 4]"

definition started :: "(Memory_File, unit, unit) Server served \<Rightarrow> bool" where
  "started r = (case r of Next bs v \<Rightarrow> bs = [] \<and> exclusive memory_env v \<and> log_journal data (server_journal v) | _ \<Rightarrow> False)"

definition push_summary :: "(Memory_File, unit, unit) Server \<Rightarrow> session_phase option \<times> byte list \<times> (int option) option" where
  "push_summary v = (map_option phase (sessions v 0), committed data v, map_option push_writer (sessions v 0))"

lemma example_started: "started example_server"
  by code_simp

lemma example_pushing:
  "map_option (\<lambda>(out, v). push_summary v) (example_run pushing_steps) = Some (Some (Receiving True 41 45 4), [], Some (Some 41))"
  by code_simp

lemma example_pushed:
  "map_option (\<lambda>(out, v). (last out, push_summary v)) (example_run (pushing_steps @ [(0, Received pushed_data)])) =
     Some ([79], Some Replying, pushed_data, Some None)"
  by code_simp

lemma server_goes_step:
  "(server_goes E)\<^sup>*\<^sup>* v v1 \<Longrightarrow> sessions v1 i = Some s \<Longrightarrow> enabled x v1 s \<Longrightarrow> server_step E i x v1 = Next bs v' \<Longrightarrow>
     (server_goes E)\<^sup>*\<^sup>* v v'"
  by (meson rtranclp.rtrancl_into_rtrancl server_goes.step)

lemma run_steps_goes: "run_steps E xs v = Some (out, v') \<Longrightarrow> (server_goes E)\<^sup>*\<^sup>* v v'"
proof (induction xs arbitrary: out v' rule: rev_induct)
  case Nil
  then show ?case by (simp add: run_steps_def)
next
  case (snoc x xs)
  obtain i c where x: "x = (i, c)" by (cases x)
  from snoc show ?case
    by (auto simp: x run_steps_snoc split: option.splits served.splits if_splits intro: server_goes_step)
qed

lemma example_run_goes:
  assumes "example_run xs = Some (out, v)"
  obtains cl v0 where "server_start memory_env 1000 True cl () = Next [] v0" and "exclusive memory_env v0"
    and "log_journal data (server_journal v0)" and "(server_goes memory_env)\<^sup>*\<^sup>* v0 v" and "example_server = Next [] v0"
proof -
  obtain v0 where v0: "example_server = Next [] v0" "run_steps memory_env xs (new_session (new_session v0)) = Some (out, v)"
    using assms by (auto simp: example_run_def split: served.splits list.splits)
  then obtain cl where "server_start memory_env 1000 True cl () = Next [] v0"
    by (auto simp: example_server_def split: sum.splits prod.splits)
  moreover have "(server_goes memory_env)\<^sup>*\<^sup>* v0 v"
    using run_steps_goes [OF v0(2)] by (meson converse_rtranclp_into_rtranclp server_goes.accept)
  moreover have "exclusive memory_env v0" "log_journal data (server_journal v0)"
    using example_started unfolding v0(1) by (simp_all add: started_def)
  ultimately show ?thesis using that v0(1) by blast
qed

section \<open>Properties\<close>



text \<open>The step that receives the last piece of a push.\<close>

lemma last_piece:
  assumes "env_file E = memory_file" and "idle v" and "log_inv data E v" and "sessions v i = Some s" and "phase s = Receiving ua p q n"
    and "enabled (Received bs) v s" and "int (length bs) = n" and "server_step E i (Received bs) v = Next out v'"
  shows "pending data v i = Some xs \<Longrightarrow> out = [if ua then 79 else 78] \<and> int (length (xs @ bs)) = announced p q \<and>
      committed data v' = (if p < q then committed data v @ xs @ bs else committed data v)"
    and "pending data v i = None \<Longrightarrow> out = [push_status s] \<and> push_status s \<in> {82, 67, 116} \<and> committed data v' = committed data v"
proof -
  let ?s = "s\<lparr>phase := Running\<rparr>"
  let ?v = "put_session i ?s v"
  obtain h where inv: "lock_inv h v" using assms(2) by (auto simp: idle_def)
  have len: "length bs = nat (min n (int session_buffer_size))" using assms(5,6) by (simp add: enabled_def expected_def)
  have ok: "push_ok data v s" using assms(3,4) by (simp add: log_inv_def)
  have but: "log_inv_but i data E ?v" using alike_log_inv_but [OF alike_put] assms(3) log_inv_but by blast
  have cv: "committed data ?v = committed data v" by (rule alike_log(1) [OF alike_put])
  have nx: "push_receive E i ua p q n bs ?v = Next out v'"
    using assms(4,5,8) by (cases "push_receive E i ua p q n bs ?v")
      (simp_all add: server_step_def complete_def with_session_def push_receive_never_throws)
  show "out = [if ua then 79 else 78] \<and> int (length (xs @ bs)) = announced p q \<and>
      committed data v' = (if p < q then committed data v @ xs @ bs else committed data v)" if xs: "pending data v i = Some xs"
  proof -
    obtain w where w: "push_writer s = Some w" "xs = slice (data (journal_file (server_journal v))) (nat (server_checkpoint_position v)) (nat w)"
      using xs assms(4) by (auto simp: pending_def)
    note single = pending_single(1) [OF inv assms(3,4) w(1)]
    have pv: "pending data ?v = pending data v" using pending_put [OF alike_refl, of data i ?s v] single w(1) by simp
    have "s\<lparr>phase := Receiving ua p q n\<rparr> = s" using assms(5) by simp
    then have ok': "push_ok data ?v (?s\<lparr>phase := Receiving ua p q n\<rparr>)" using push_ok_view [of s s ?v v data] ok by simp
    have other: "\<forall>j. j \<noteq> i \<longrightarrow> pending data ?v j = None" using pv single by simp
    have pi: "pending data ?v i = Some xs" using pv xs by simp
    have "committed data v' = (if p < q then committed data v @ xs @ bs else committed data v)" "out = [push_status s]"
      using memory.push_receive_law [OF but assms(1) _ nx _ ok' len other pi, of w] w(1) cv assms(7) by auto
    moreover have "int (length xs) = w - p" "w + n = p + announced p q" "push_status s = (if ua then 79 else 78)"
      using ok assms(3,5) w by (auto simp: push_ok_def slice_def log_inv_def log_journal_def)
    ultimately show ?thesis using assms(7) by simp
  qed
  show "out = [push_status s] \<and> push_status s \<in> {82, 67, 116} \<and> committed data v' = committed data v" if none: "pending data v i = None"
  proof -
    have w: "push_writer s = None" using none assms(4) by (simp add: pending_def)
    then have st: "push_status s \<in> {82, 67, 116}" using ok assms(5) by (simp add: push_ok_def)
    have "push_loop E i ua p q (n - int (length bs)) ?v = Next out v'" using nx w by (simp add: push_receive_def with_session_def)
    from push_refused_law [OF but _ _ _ this, of ?s] show ?thesis using w st cv assms(7) by (simp add: log_of_def)
  qed
qed



section \<open>Hard checkpoints\<close>

lemma soft_checkpoint_at_position:
  assumes "soft_checkpoint_at F p j = Inr j'" and "\<not> buffer_has_write_data (file_buffer j)"
  shows "journal_get_position j' = journal_get_position j" and "hard_checkpoint_position j' = hard_checkpoint_position j"
    and "checkpoint_position j' = max p (checkpoint_position j)"
proof -
  have "jwrite (flush F) j = Inr (j\<lparr>file_buffer := (file_buffer j)\<lparr>position := fb_get_position (file_buffer j), read_buffer_size := 0, buffer_index := 0\<rparr>\<rparr>)"
    using assms(2) by (simp add: jwrite_def flush_def fi_seek_def)
  with assms(1) show "journal_get_position j' = journal_get_position j" and "hard_checkpoint_position j' = hard_checkpoint_position j"
    and "checkpoint_position j' = max p (checkpoint_position j)"
    by (auto simp: soft_checkpoint_at_def bind_result_def journal_get_position_def fb_get_position_def set_file_def Let_def
        split: if_splits sum.splits)
qed

lemma hard_checkpoint_at_position:
  "hard_checkpoint_at F p j = Inr j' \<Longrightarrow> hard_checkpoint_position j < p \<Longrightarrow> checkpoint_position j' = p"
  by (auto simp: hard_checkpoint_at_def bind_result_def set_file_def Let_def split: sum.splits)

text \<open>
  A server whose client makes hard checkpoints, started on the journal that the run above leaves. It
  has just received four more bytes, which its session has written after the checkpoint.
\<close>

definition hard_server :: "(Memory_File, unit, unit) Server \<Rightarrow> (Memory_File, unit, unit) Server served" where
  "hard_server v =
     (case writable_journal_client memory_file dummy_connection Check_None Recovery_None
         (journal_file (server_journal v)) () of
        Inl e \<Rightarrow> Failed e
      | Inr (cl, c) \<Rightarrow> server_start memory_env 1000 True (set_hard_checkpoint True cl) c)"

definition hard_run :: "(nat \<times> completion) list \<Rightarrow> (byte list list \<times> (Memory_File, unit, unit) Server) option" where
  "hard_run xs =
     (case example_run (pushing_steps @ [(0, Received pushed_data)]) of
        None \<Rightarrow> None
      | Some (out, v) \<Rightarrow> (case hard_server v of Next [] v0 \<Rightarrow> run_steps memory_env xs (new_session v0) | _ \<Rightarrow> None))"

definition hard_steps :: "(nat \<times> completion) list" where
  "hard_steps =
     [(0, Received hello), (0, Written), (0, Received [71]), (0, Received (int64_args 0 45)), (0, Written),
      (0, Received [79]), (0, Received (int64_args 45 49))]"

lemma hard_run_loses_push:
  "map_option (\<lambda>(out, v). (last out, server_checkpoint_position v)) (hard_run (hard_steps @ [(0, Received pushed_data)])) = Some ([79], 45)"
  by code_simp

definition hard_state :: "(Memory_File, unit, unit) Server option" where
  "hard_state =
     (case hard_run hard_steps of
        None \<Rightarrow> None
      | Some (out, v) \<Rightarrow>
          (case async_write memory_file pushed_data (journal_file (server_journal v)) 45 of
             Inl e \<Rightarrow> None
           | Inr (f, p) \<Rightarrow> Some (v\<lparr>server_client := (server_client v)\<lparr>client_journal := set_file f (server_journal v)\<rparr>\<rparr>)))"

definition hard_checkpoint_behind :: "('f, 'd, 'c) Server_Env \<Rightarrow> ('f, 'd, 'c) Server \<Rightarrow> bool" where
  "hard_checkpoint_behind E v \<longleftrightarrow>
     use_hard_checkpoint (server_client v) \<and> \<not> use_valid_data (server_client v) \<and> \<not> use_timestamp (server_client v) \<and>
     \<not> client_is_shared E v \<and> \<not> buffer_has_write_data (file_buffer (server_journal v)) \<and>
     journal_get_position (server_journal v) \<le> server_checkpoint_position v \<and>
     hard_checkpoint_position (server_journal v) < journal_get_position (server_journal v)"

lemma hard_state_behind:
  "map_option (\<lambda>v. (hard_checkpoint_behind memory_env v, server_checkpoint_position v,
      case commit_push memory_env True 49 True v of Next bs v' \<Rightarrow> True | _ \<Rightarrow> False)) hard_state = Some (True, 45, True)"
  by code_simp



end
