(* ===== verification/Freedom_Properties.thy ===== *)
theory Freedom_Properties
  imports Freedom_Proofs
begin

text \<open>
  What the freedom keeper guarantees, as statements about whole sequences of its operations: an
  abstract keeper (a size and the sequence of the used records), the refinement of it by
  \<open>Freedom_Keeper\<close>, and the behaviour of the queries.
\<close>

section \<open>The abstract keeper\<close>

datatype keeper_op = Push_Back | Use Record_Id | Free Record_Id | Use_Vector Record_Id nat
  | Free_Vector Record_Id nat | Resize Record_Id

type_synonym keeper_spec = "Record_Id \<times> Record_Id list"

fun spec_op :: "keeper_op \<Rightarrow> keeper_spec \<Rightarrow> keeper_spec option" where
  "spec_op Push_Back (n, us) = Some (n + 1, us)"
| "spec_op (Use i) (n, us) = (if 0 \<le> i \<and> i < n \<and> i \<notin> set us then Some (n, us @ [i]) else None)"
| "spec_op (Free i) (n, us) = (if i \<in> set us then Some (n, remove1 i us) else None)"
| "spec_op (Use_Vector i m) (n, us) =
     (if 0 \<le> i \<and> i + int m \<le> n \<and> list_all (\<lambda>u. u < i \<or> i + int m \<le> u) us then Some (n, us @ [i..i + int m - 1]) else None)"
| "spec_op (Free_Vector i m) (n, us) =
     (if list_all (\<lambda>j. j \<in> set us) [i..i + int m - 1]
      then Some (n, filter (\<lambda>u. u < i \<or> i + int m \<le> u) us) else None)"
| "spec_op (Resize m) (n, us) = Some (max m n, us)"

fun spec_ops :: "keeper_op list \<Rightarrow> keeper_spec \<Rightarrow> keeper_spec option" where
  "spec_ops [] s = Some s"
| "spec_ops (x # xs) s = Option.bind (spec_op x s) (spec_ops xs)"

fun run_op :: "keeper_op \<Rightarrow> Freedom_Keeper \<Rightarrow> Freedom_Keeper result" where
  "run_op Push_Back k = Inr (snd (fk_push_back k))"
| "run_op (Use i) k = fk_use i k"
| "run_op (Free i) k = fk_free i k"
| "run_op (Use_Vector i m) k = fk_use_vector i m k"
| "run_op (Free_Vector i m) k = fk_free_vector i m k"
| "run_op (Resize m) k = Inr (fk_resize m k)"

definition keeper_abs :: "Freedom_Keeper \<Rightarrow> keeper_spec" where
  "keeper_abs k = (fk_get_size k, fk_used k)"

section \<open>Refinement\<close>

lemma keeper_op_refines:
  assumes "fk_inv k" and "spec_op x (keeper_abs k) = Some s"
  shows "\<exists>k'. run_op x k = Inr k' \<and> fk_inv k' \<and> keeper_abs k' = s"
proof (cases x)
  case Push_Back
  then show ?thesis
    using assms keeper.push_back_law [of k] by (cases "fk_push_back k") (auto simp: keeper_abs_def)
next
  case (Use i)
  then show ?thesis using assms fk_use_law [of k i] by (auto simp: keeper_abs_def split: if_splits)
next
  case (Free i)
  then show ?thesis using assms fk_free_law [of k i] by (auto simp: keeper_abs_def split: if_splits)
next
  case (Use_Vector i m)
  then have c: "0 \<le> i" "i + int m \<le> fk_get_size k" "list_all (\<lambda>u. u < i \<or> i + int m \<le> u) (fk_used k)"
    "s = (fk_get_size k, fk_used k @ [i..i + int m - 1])"
    using assms(2) by (auto simp: keeper_abs_def split: if_splits)
  have "{i..<i + int m} \<inter> set (fk_used k) = {}" using c(3) by (auto simp: list_all_iff)
  from fk_use_vector_law [OF assms(1) c(1,2) this] c(4) Use_Vector show ?thesis by (auto simp: keeper_abs_def)
next
  case (Free_Vector i m)
  then have c: "list_all (\<lambda>j. j \<in> set (fk_used k)) [i..i + int m - 1]"
    "s = (fk_get_size k, filter (\<lambda>u. u < i \<or> i + int m \<le> u) (fk_used k))"
    using assms(2) by (auto simp: keeper_abs_def split: if_splits)
  have "{i..<i + int m} \<subseteq> set (fk_used k)" using c(1) by (auto simp: list_all_iff)
  moreover have "filter (\<lambda>u. u < i \<or> i + int m \<le> u) us = filter (\<lambda>u. u \<notin> {i..<i + int m}) us" for us
    by (rule filter_cong) auto
  ultimately show ?thesis
    using fk_free_vector_law [OF assms(1), of i m] c(2) Free_Vector by (auto simp: keeper_abs_def)
next
  case (Resize m)
  then show ?thesis using assms fk_resize_law [OF assms(1), of m] by (auto simp: keeper_abs_def)
qed

lemma keeper_ops_refine:
  "fk_inv k \<Longrightarrow> spec_ops xs (keeper_abs k) = Some s \<Longrightarrow>
     \<exists>k'. fold_result run_op xs k = Inr k' \<and> fk_inv k' \<and> keeper_abs k' = s"
proof (induction xs arbitrary: k)
  case (Cons x xs)
  then obtain s1 where s1: "spec_op x (keeper_abs k) = Some s1" "spec_ops xs s1 = Some s"
    by (auto simp: bind_eq_Some_conv)
  from keeper_op_refines [OF Cons.prems(1) s1(1)] obtain k1 where
    "run_op x k = Inr k1" "fk_inv k1" "keeper_abs k1 = s1" by blast
  with Cons.IH [of k1] s1(2) show ?case by auto
qed simp

lemma keeper_abs_new: "keeper_abs fk_new = (0, [])"
  by (simp add: keeper_abs_def fk_get_size_def fk_new_def dfk_new_def dfk_get_size_def fk_used_def dfk_used_def)

text \<open>
  C8. Any sequence of operations that the abstract keeper accepts succeeds on a new
  \<open>Freedom_Keeper\<close>, in whichever of its two representations it is, without failed assertion, and
  leaves the size and the used records (in insertion order) that the abstract keeper has.
\<close>

theorem keeper_refines:
  assumes "spec_ops xs (0, []) = Some (n, us)"
  shows "\<exists>k. fold_result run_op xs fk_new = Inr k \<and> fk_inv k \<and> fk_get_size k = n \<and> fk_used k = us"
  using keeper_ops_refine [OF fk_inv_new, of xs] assms by (auto simp: keeper_abs_new) (auto simp: keeper_abs_def)

theorem keeper_refines_witness:
  "\<exists>k. fold_result run_op [Resize 4, Use_Vector 0 3, Free 1, Use 3, Push_Back, Free_Vector 2 1] fk_new = Inr k \<and>
     fk_inv k \<and> fk_get_size k = 5 \<and> fk_used k = [0, 3]"
  by (rule keeper_refines) (code_simp)

section \<open>Queries\<close>

text \<open>
  C28. After such a sequence, the loop that starts at \<open>get_first_used\<close> and follows \<open>get_next\<close> until
  the end marker visits every used record once, in insertion order; \<open>is_used\<close> and
  \<open>get_used_count\<close> agree with it.
\<close>

theorem keeper_iteration:
  assumes "fold_result run_op xs fk_new = Inr k" and "spec_ops xs (0, []) = Some (n, us)" and "length us \<le> fuel"
  shows "ring_walk (fk_get_next k) used_list fuel (fk_get_first_used k) = us
    \<and> fk_get_used_count k = int (length us) \<and> (\<forall>i. fk_is_used k i = (i \<in> set us))"
proof -
  obtain k' where "fold_result run_op xs fk_new = Inr k'" "fk_inv k'" "keeper_abs k' = (n, us)"
    using keeper_ops_refine [OF fk_inv_new, of xs] assms(2) by (auto simp: keeper_abs_new)
  with assms have "fk_inv k" "fk_used k = us" by (auto simp: keeper_abs_def)
  then show ?thesis
    using keeper.walk_used [of k fuel] assms(3) keeper.used_count_eq [of k] keeper.is_used_iff [of k]
    by (simp add: fk_get_first_used_def)
qed

theorem keeper_iteration_witness:
  "\<exists>k. fold_result run_op [Resize 3, Use 2, Use 0] fk_new = Inr k \<and>
     ring_walk (fk_get_next k) used_list 5 (fk_get_first_used k) = [2, 0] \<and>
     fk_get_used_count k = 2"
proof -
  have s: "spec_ops [Resize 3, Use 2, Use 0] (0, []) = Some (3, [2, 0])" by code_simp
  obtain k where k: "fold_result run_op [Resize 3, Use 2, Use 0] fk_new = Inr k"
    using keeper_ops_refine [OF fk_inv_new, of "[Resize 3, Use 2, Use 0]"] s by (auto simp: keeper_abs_new)
  from keeper_iteration [OF k s, of 5] k show ?thesis by auto
qed



text \<open>
  C30. \<open>lose_compactness\<close> changes the representation only: size, used records in order, the
  count and the answer of \<open>is_used\<close> on every record are the ones of the dense representation.
\<close>

theorem keeper_lose_compactness:
  assumes "fk_inv k" and "dense k"
  shows "\<exists>k'. lose_compactness k = Inr k' \<and> fk_inv k' \<and> \<not> dense k' \<and> fk_get_size k' = fk_get_size k \<and>
    fk_used k' = fk_used k \<and> fk_get_used_count k' = fk_get_used_count k \<and> (\<forall>i. fk_is_used k' i = fk_is_used k i)"
proof -
  obtain k' where k': "lose_compactness k = Inr k'" "fk_inv k'" "\<not> dense k'" "fk_used k' = fk_used k"
    "fk_get_size k' = fk_get_size k" using lose_compactness_law [OF assms] by blast
  then show ?thesis
    using keeper.used_count_eq [OF assms(1)] keeper.used_count_eq [OF k'(2)]
      keeper.is_used_iff [OF assms(1)] keeper.is_used_iff [OF k'(2)] by auto
qed

theorem keeper_lose_compactness_witness:
  "\<exists>k'. lose_compactness fk_new = Inr k' \<and> fk_inv k' \<and> \<not> dense k' \<and> fk_get_size k' = 0"
  using keeper_lose_compactness [OF fk_inv_new]
  by (auto simp: fk_new_def fk_get_size_def dfk_get_size_def dfk_new_def)

text \<open>
  C35. The vector queries decide, for a non-empty range, whether all of its records are used, and
  whether none of them is.
\<close>

theorem keeper_vector_queries:
  assumes "fk_inv k" and "0 < n"
  shows "fk_is_used_vector k i n = (\<forall>j. i \<le> j \<and> j < i + int n \<longrightarrow> fk_is_used k j) \<and>
    fk_is_free_vector k i n = (0 \<le> i \<and> (\<forall>j. i \<le> j \<and> j < i + int n \<longrightarrow> \<not> fk_is_used k j))"
  using fk_is_used_vector_iff [OF assms] fk_is_free_vector_iff [OF assms] keeper.is_used_iff [OF assms(1)]
  by (auto simp: subset_iff disjoint_iff)

theorem keeper_vector_queries_witness:
  "fk_is_free_vector fk_new 0 3 = (\<forall>j. 0 \<le> j \<and> j < 3 \<longrightarrow> \<not> fk_is_used fk_new j) \<and>
   fk_is_used_vector fk_new 0 3 = (\<forall>j. 0 \<le> j \<and> j < 3 \<longrightarrow> fk_is_used fk_new j)"
  using keeper_vector_queries [OF fk_inv_new, of 3 0] by simp

text \<open>
  C40. Using a record that is used already, or freeing one that is not, fails a debug assertion: the
  keeper never silently corrupts its lists.
\<close>

theorem keeper_misuse:
  assumes "fk_inv k"
  shows "(fk_is_used k i \<longrightarrow> fk_use i k = Inl Assertion_Failure) \<and>
    (\<not> fk_is_used k i \<longrightarrow> fk_free i k = Inl Assertion_Failure)"
proof (cases "dense k")
  case True
  obtain k' where k': "lose_compactness k = Inr k'" "fk_inv k'" "\<not> dense k'" "fk_used k' = fk_used k"
    using lose_compactness_law [OF assms True] by blast
  have "fk_is_used k' i = fk_is_used k i" using assms k'(2,4) keeper.is_used_iff by auto
  then have "lfk_is_used (lfk k') i = dfk_is_used (dfk k) i" using True k'(3) by (simp add: fk_is_used_def)
  then show ?thesis using True k'(1,3)
    by (auto simp: fk_use_def fk_free_def dfk_use_def dfk_free_def on_lfk_def lfk_use_def lfk_free_def
        fk_is_used_def lfk_is_used_def dfk_is_used_def)
next
  case False
  then show ?thesis
    by (auto simp: fk_use_def fk_free_def on_lfk_def lfk_use_def lfk_free_def fk_is_used_def lfk_is_used_def)
qed

theorem keeper_misuse_witness:
  "fk_use 0 (fk_new\<lparr>dfk := \<lparr>used_size = 1, free_size = 2\<rparr>\<rparr>) = Inl Assertion_Failure \<and>
   fk_free 1 (fk_new\<lparr>dfk := \<lparr>used_size = 1, free_size = 2\<rparr>\<rparr>) = Inl Assertion_Failure"
proof -
  let ?k = "fk_new\<lparr>dfk := \<lparr>used_size = 1, free_size = 2\<rparr>\<rparr>"
  have "fk_inv ?k" "fk_is_used ?k 0" "\<not> fk_is_used ?k 1"
    by (simp_all add: fk_inv_def fk_new_def dfk_inv_def fk_is_used_def dfk_is_used_def)
  with keeper_misuse [of ?k 0] keeper_misuse [of ?k 1] show ?thesis by simp
qed

end
