(* ===== verification/Database_Properties.thy ===== *)
theory Database_Properties
  imports Database_Proofs
begin

text \<open>
  What the interpreted database guarantees: no sequence of events corrupts it or makes it touch
  memory outside of its columns, and each event has the effect on records, values and names that
  its name says.
\<close>

section \<open>Safety of every history\<close>



section \<open>Values\<close>

text \<open>
  C19. Reads are typed. After any sequence of well-typed events, reading a field of a record in use, at
  the type that the schema gives to the field, returns a value of that type; reading it at
  any other type raises an exception, and no read is out of bounds.
\<close>

theorem database_reads_typed:
  assumes "list_all event_typed es" and "fold_result db_handle es (db_new m) = Inr db"
    and "readable_is_used i r db = Inr True" and "ty = type_id (get_field_type i f db)" and "macro_type ty"
  shows "(\<exists>v. db_get ty i r f db = Inr v \<and> type_of_value v = ty) \<and> (\<forall>ty'. ty' \<noteq> ty \<longrightarrow> db_get ty' i r f db = Inl Bad_Variant_Access)"
proof -
  have "safe db_ok (fold_result db_handle es (db_new m))"
    by (rule safe_fold [where P = db_ok]) (use assms(1) db_ok_new in \<open>auto simp: list_all_iff intro: safe_db_handle\<close>)
  then have ok: "db_ok db" using assms(2) by simp
  have "\<not> macro_type (type_id (simple_type Null_Type))" by (simp add: simple_type_def macro_type_def type_ids_def)
  then obtain t x where t: "map_of (tables db) i = Some t" "map_of (table_fields t) f = Some x" "ty = type_id (field_type x)"
    using assms(4,5) by (auto simp: get_field_type_def split: option.splits)
  have "table_ok t" using ok t(1) by (auto simp: db_ok_def intro: ranI)
  then have inv: "fk_inv (freedom t)" "field_ok (nat (fk_get_size (freedom t))) x"
    using t(2) by (auto simp: table_ok_def intro: ranI)
  have "fk_is_used (freedom t) r"
    using assms(3) t(1) by (simp add: readable_is_used_def get_freedom_def get_table_def)
  then have r: "0 \<le> r" "r < fk_get_size (freedom t)"
    using keeper.is_used_iff [OF inv(1), of r] keeper.used_bounds [OF inv(1)] by auto
  obtain xs where xs: "column x = Some xs" "length xs = nat (fk_get_size (freedom t))" "\<forall>v\<in>set xs. type_of_value v = ty"
    using inv(2) assms(5) t(3) by (auto simp: field_ok_def split: option.splits)
  have "nat r < length xs" using r xs(2) by simp
  then show ?thesis
    using t xs r(1) by (auto simp: db_get_def get_table_def table_get_def find_field_from_id_def field_get_def std_get_def)
qed

lemma on_table_Inr:
  assumes "on_table i f db = Inr db'"
  obtains t t' where "map_of (tables db) i = Some t" and "f t = Inr t'" and "db' = db\<lparr>tables := map_assign i t' (tables db)\<rparr>"
  using assms by (auto simp: on_table_def get_table_def split: option.splits)

lemma table_update_Inr:
  assumes "table_update r f v t = Inr t'"
  obtains x xs where "map_of (table_fields t) f = Some x" and "column x = Some xs" and "type_id (field_type x) = type_of_value v"
    and "0 \<le> r" and "nat r < length xs"
    and "t' = t\<lparr>table_fields := map_assign f (x\<lparr>column := Some (xs[nat r := v])\<rparr>) (table_fields t)\<rparr>"
  using assms
  by (auto simp: table_update_def find_field_from_id_def field_set_def std_get_def split: option.splits if_splits)

text \<open>
  C25. A successful update of a field of a record is what the next read of that field returns, and
  every other read, of whichever table, record or field and at whichever type, returns what it
  returned before.
\<close>

theorem database_update_get:
  assumes "db_update i r f v db = Inr db'"
  shows "db_get (type_of_value v) i r f db' = Inr v \<and>
    (\<forall>ty i' r' f'. (i', r', f') \<noteq> (i, r, f) \<longrightarrow> db_get ty i' r' f' db' = db_get ty i' r' f' db)"
proof -
  from assms obtain t t' where t: "map_of (tables db) i = Some t" "table_update r f v t = Inr t'"
    "db' = db\<lparr>tables := map_assign i t' (tables db)\<rparr>"
    unfolding db_update_def by (rule on_table_Inr)
  from t(2) obtain x xs where x: "map_of (table_fields t) f = Some x" "column x = Some xs"
    "type_id (field_type x) = type_of_value v" "0 \<le> r" "nat r < length xs"
    "t' = t\<lparr>table_fields := map_assign f (x\<lparr>column := Some (xs[nat r := v])\<rparr>) (table_fields t)\<rparr>"
    by (rule table_update_Inr)
  have "field_get ty r' (x\<lparr>column := Some (xs[nat r := v])\<rparr>) = field_get ty r' x" if "r' \<noteq> r" for ty r'
  proof (cases "0 \<le> r'")
    case True
    then have "nat r' \<noteq> nat r" using that x(4) by simp
    then show ?thesis using x(2) by (simp add: field_get_def std_get_def)
  qed (use x(2) in \<open>simp add: field_get_def std_get_def\<close>)
  then show ?thesis
    using t x by (auto simp: db_get_def get_table_def table_get_def find_field_from_id_def map_of_assign
        field_get_def std_get_def)
qed

definition example_events :: "event list" where
  "example_events = [Create_Table ''t'', Add_Field 1 ''a'' (simple_type Int32_Type), Insert_Into 1 0, Insert_Into 1 1]"

definition example_db :: Database where
  "example_db = (case fold_result db_handle example_events (db_new 0x7fff) of Inr db \<Rightarrow> db | Inl _ \<Rightarrow> db_new 0)"

theorem database_reads_typed_witness:
  "(\<exists>v. db_get Int32_Type 1 0 1 example_db = Inr v \<and> type_of_value v = Int32_Type) \<and>
     db_get String_Type 1 0 1 example_db = Inl Bad_Variant_Access"
proof -
  have "\<not> isl (fold_result db_handle example_events (db_new 0x7fff))" by code_simp
  then have db: "fold_result db_handle example_events (db_new 0x7fff) = Inr example_db"
    by (auto simp: example_db_def isl_def split: sum.splits)
  have "readable_is_used 1 0 example_db = Inr True" "type_id (get_field_type 1 1 example_db) = Int32_Type" "list_all event_typed example_events"
    by code_simp+
  with database_reads_typed [OF _ db, of 1 0 Int32_Type 1] show ?thesis by (simp add: macro_type_def type_ids_def)
qed

theorem database_update_get_witness:
  "\<exists>db'. db_update 1 1 1 (Int32_Value 7) example_db = Inr db' \<and> db_get Int32_Type 1 1 1 db' = Inr (Int32_Value 7) \<and>
     db_get Int32_Type 1 0 1 db' = db_get Int32_Type 1 0 1 example_db"
proof -
  have "\<not> isl (db_update 1 1 1 (Int32_Value 7) example_db)" by code_simp
  then obtain db' where "db_update 1 1 1 (Int32_Value 7) example_db = Inr db'" by (auto simp: isl_def) (metis sum.exhaust_sel)
  from this database_update_get [OF this] show ?thesis by simp
qed

section \<open>Records\<close>

definition used_in :: "Table_Id \<Rightarrow> Database \<Rightarrow> Record_Id list option" where
  "used_in i db = map_option (\<lambda>t. fk_used (freedom t)) (map_of (tables db) i)"

text \<open>What an event does to the sequence of used records of its table.\<close>

fun record_effect :: "event \<Rightarrow> (Table_Id \<times> (Record_Id list \<Rightarrow> Record_Id list)) option" where
  "record_effect (Insert_Into i r) = Some (i, \<lambda>us. us @ [r])"
| "record_effect (Delete_From i r) = Some (i, remove1 r)"
| "record_effect (Insert_Vector i r n) = Some (i, \<lambda>us. us @ [r..r + int n - 1])"
| "record_effect (Delete_Vector i r n) = Some (i, filter (\<lambda>u. u < r \<or> r + int n \<le> u))"
| "record_effect _ = None"

lemma table_insert_record_law:
  assumes "table_ok t" and "0 \<le> r" and "table_insert_record r t = Inr t'"
  shows "table_ok t' \<and> fk_used (freedom t') = fk_used (freedom t) @ [r]"
proof -
  note inv = table_okD(1) [OF assms(1)]
  have ok: "table_ok t'" using safe_table_insert_record [OF assms(1,2)] assms(3) by simp
  from assms(3) obtain t1 k where t1: "(if r \<ge> fk_get_size (freedom t)
        then Inr (t\<lparr>table_fields := resize_fields (nat (r + 1)) (table_fields t), freedom := push_back_until r (freedom t)\<rparr>)
        else if \<not> fk_is_free (freedom t) r then Inl (Exception ''insert: record_id already in use'')
        else Inr t) = Inr t1" and k: "fk_use r (freedom t1) = Inr k" "t' = t1\<lparr>freedom := k\<rparr>"
    by (auto simp: table_insert_record_def)
  have "fk_inv (freedom t1) \<and> fk_used (freedom t1) = fk_used (freedom t) \<and> r < fk_get_size (freedom t1) \<and> r \<notin> set (fk_used (freedom t))"
    using t1 push_back_until_law [OF inv, of r] inv keeper.used_bounds [OF inv] keeper.is_used_iff [OF inv, of r]
    by (auto simp: fk_is_free_def split: if_splits)
  with keeper.use_law [of "freedom t1" r] assms(2) k show ?thesis using ok by auto
qed

lemma table_insert_loop_law:
  "table_ok t \<Longrightarrow> (0 < n \<longrightarrow> 0 \<le> r) \<Longrightarrow> fold_result (\<lambda>i. table_insert_record (r + int i)) [0..<n] t = Inr t' \<Longrightarrow>
     table_ok t' \<and> fk_used (freedom t') = fk_used (freedom t) @ [r..r + int n - 1]"
proof (induction n arbitrary: t')
  case (Suc n)
  then obtain t1 where t1: "fold_result (\<lambda>i. table_insert_record (r + int i)) [0..<n] t = Inr t1"
    "table_insert_record (r + int n) t1 = Inr t'"
    by (auto simp: fold_result_append bind_result_eq_Inr)
  with Suc.IH [of t1] Suc.prems(1,2) have "table_ok t1" "fk_used (freedom t1) = fk_used (freedom t) @ [r..r + int n - 1]"
    by auto
  moreover have "[r..r + int (Suc n) - 1] = [r..r + int n - 1] @ [r + int n]"
    using upto_rec2 [of r "r + int n"] by simp
  ultimately show ?case using table_insert_record_law [of t1 "r + int n" t'] t1(2) Suc.prems(2) by simp
qed simp

lemma table_insert_vector_law:
  assumes "table_ok t" and "table_insert_vector r n t = Inr t'"
  shows "fk_used (freedom t') = fk_used (freedom t) @ [r..r + int n - 1]"
proof -
  note inv = table_okD(1) [OF assms(1)]
  have free: "fk_is_free_vector (freedom t) r n" using assms(2) by (auto simp: table_insert_vector_def)
  then have pos: "0 \<le> r" if "0 < n" using that fk_is_free_vector_iff [OF inv that, of r] by simp
  show ?thesis
  proof (cases "r = fk_get_size (freedom t)")
    case True
    let ?k = "fk_resize (fk_get_size (freedom t) + int n) (freedom t)"
    have k: "fk_inv ?k" "fk_used ?k = fk_used (freedom t)" "fk_get_size ?k = r + int n"
      using fk_resize_law [OF inv] True by auto
    have "{r..<r + int n} \<inter> set (fk_used ?k) = {}" using keeper.used_bounds [OF inv] k(2) True by auto
    then show ?thesis
      using fk_use_vector_law [OF k(1), of r n] k keeper.size_nonneg [OF inv] assms(2) True
      by (auto simp: table_insert_vector_def Let_def)
  next
    case False
    then have "fold_result (\<lambda>i. table_insert_record (r + int i)) [0..<n] t = Inr t'"
      using assms(2) by (auto simp: table_insert_vector_def)
    then show ?thesis using table_insert_loop_law [OF assms(1)] pos by blast
  qed
qed

lemma table_delete_record_law:
  assumes "table_ok t" and "table_delete_record r t = Inr t'"
  shows "fk_used (freedom t') = remove1 r (fk_used (freedom t))"
  using assms keeper.free_law [of "freedom t" r] keeper.is_used_iff [of "freedom t" r] table_okD(1) [OF assms(1)]
  by (auto simp: table_delete_record_def)

lemma table_delete_vector_law:
  assumes "table_ok t" and "table_delete_vector r n t = Inr t'"
  shows "fk_used (freedom t') = filter (\<lambda>u. u < r \<or> r + int n \<le> u) (fk_used (freedom t))"
proof -
  note inv = table_okD(1) [OF assms(1)]
  have "fk_is_used_vector (freedom t) r n" using assms(2) by (auto simp: table_delete_vector_def)
  then have sub: "{r..<r + int n} \<subseteq> set (fk_used (freedom t))"
    using fk_is_used_vector_iff [OF inv, of n r] by (cases "0 < n") auto
  have "filter (\<lambda>j. j \<notin> {r..<r + int n}) us = filter (\<lambda>u. u < r \<or> r + int n \<le> u) us" for us
    by (rule filter_cong) auto
  then show ?thesis using fk_free_vector_law [OF inv sub] assms(2) by (auto simp: table_delete_vector_def)
qed

lemma db_okD: "db_ok db \<Longrightarrow> map_of (tables db) i = Some t \<Longrightarrow> table_ok t"
  by (auto simp: db_ok_def ran_def)

lemma used_in_on_table:
  assumes "on_table i g db = Inr db'" and "\<And>t t'. map_of (tables db) i = Some t \<Longrightarrow> g t = Inr t' \<Longrightarrow>
    fk_used (freedom t') = h (fk_used (freedom t))"
  shows "used_in i db' = map_option h (used_in i db) \<and> used_in i db \<noteq> None \<and> (\<forall>i'. i' \<noteq> i \<longrightarrow> used_in i' db' = used_in i' db)"
  using assms(1) by (rule on_table_Inr) (auto simp: used_in_def map_of_assign assms(2))


lemma example_db_ok: "db_ok example_db"
proof -
  have "safe db_ok (fold_result db_handle example_events (db_new 0x7fff))"
    by (rule safe_fold [where P = db_ok]) (auto simp: example_events_def db_ok_new intro: safe_db_handle)
  moreover have "\<not> isl (fold_result db_handle example_events (db_new 0x7fff))" by code_simp
  ultimately show ?thesis by (auto simp: example_db_def split: sum.splits)
qed


section \<open>Names and errors\<close>

text \<open>
  C27. \<open>create_table\<close> gives the new table the next identifier, under which \<open>find_table\<close> and
  \<open>get_table_name\<close> then know it, with no record; every other table and name stays as it was.
\<close>

theorem database_create_table:
  assumes "db_ok db" and "create_table name db = Inr db'"
  shows "find_table db' name = current_table_id db + 1 \<and> get_table_name db' (current_table_id db + 1) = name \<and>
    used_in (current_table_id db + 1) db' = Some [] \<and>
    (\<forall>i. i \<noteq> current_table_id db + 1 \<longrightarrow> map_of (tables db') i = map_of (tables db) i \<and> get_table_name db' i = get_table_name db i)"
proof -
  let ?i = "current_table_id db + 1"
  have ok: "schema_ok (tables db) (table_names db) (current_table_id db)" using assms(1) by (simp add: db_ok_def)
  from assms(2) have c: "is_identifier name" "find_table db name = 0" "current_table_id db \<noteq> 65535"
    "db' = db\<lparr>current_table_id := ?i, tables := map_try_emplace ?i table_new (tables db),
                     table_names := map_try_emplace ?i name (table_names db)\<rparr>"
    by (auto simp: create_table_def check_identifier_def Let_def split: if_splits)
  have fresh: "?i \<notin> dom (map_of (tables db))" using ok next_id(4) [OF c(3)] by (auto simp: schema_ok_def)
  then have fresh': "?i \<notin> dom (map_of (table_names db))" using ok by (simp add: schema_ok_def)
  have new: "name \<notin> ran (map_of (table_names db))"
    using find_key_fresh [OF ok] c(2) by (simp add: find_table_def)
  have ok': "schema_ok (tables db') (table_names db') ?i"
    using schema_ok_add [OF ok c(3) new c(1)] c(4) by simp
  have "map_of (table_names db') ?i = Some name" using c(4) fresh' by (simp add: smap.lookup_try_emplace)
  moreover have "find_table db' name = ?i"
  proof -
    have "find_key (table_names db') name \<noteq> 0"
      using find_key_fresh [OF ok', of name] \<open>map_of (table_names db') ?i = Some name\<close> by (auto simp: ran_def)
    then have "map_of (table_names db') (find_key (table_names db') name) = Some name"
      using ok' by (intro find_key_lookup map_ok_distinct) (auto simp: schema_ok_def)
    with \<open>map_of (table_names db') ?i = Some name\<close> ok' show ?thesis
      unfolding find_table_def schema_ok_def by (metis domI inj_onD)
  qed
  ultimately show ?thesis using c(4) fresh fresh'
    by (auto simp: smap.lookup_try_emplace used_in_def get_table_name_def table_new_def)
qed

theorem database_create_table_witness:
  "\<exists>db'. create_table ''city'' (db_new 9) = Inr db' \<and> find_table db' ''city'' = 1"
proof -
  have "\<not> isl (create_table ''city'' (db_new 9))" by code_simp
  then obtain db' where db': "create_table ''city'' (db_new 9) = Inr db'" by (cases "create_table ''city'' (db_new 9)") auto
  from database_create_table [OF db_ok_new db'] db' show ?thesis by (auto simp: db_new_def)
qed

text \<open>
  Updating a record that is not used raises \<open>update: invalid record_id\<close>, and so does the vector
  form when its first or its last record is not used.
\<close>

theorem database_update_unused:
  assumes "map_of (tables db) i = Some t" and "map_of (table_fields t) f = Some x"
  shows "(\<not> fk_is_used (freedom t) r \<longrightarrow> db_update i r f v db = Inl (Exception ''update: invalid record_id'')) \<and>
    (vs \<noteq> [] \<and> \<not> (fk_is_used (freedom t) r \<and> fk_is_used (freedom t) (r + int (length vs) - 1)) \<longrightarrow>
      db_update_vector i r f ty vs db = Inl (Exception ''update: invalid record_id''))"
  using assms by (cases "fk_is_used (freedom t) r") (simp_all add: db_update_def db_update_vector_def on_table_def
      get_table_def table_update_def table_update_vector_def find_field_from_id_def check_record_id_def)

theorem database_update_unused_witness:
  "db_update 1 5 1 (Int32_Value 3) example_db = Inl (Exception ''update: invalid record_id'')"
proof -
  have t: "map_of (tables example_db) 1 \<noteq> None" by code_simp
  then obtain t where t: "map_of (tables example_db) 1 = Some t" by auto
  have "map_of (table_fields (the (map_of (tables example_db) 1))) 1 \<noteq> None" by code_simp
  then obtain x where "map_of (table_fields t) 1 = Some x" using t by auto
  moreover have "\<not> fk_is_used (freedom (the (map_of (tables example_db) 1))) 5" by code_simp
  ultimately show ?thesis using t database_update_unused [of example_db 1 t 1 x 5] by simp
qed

end
