(* ===== verification/Crash_Properties.thy ===== *)
theory Crash_Properties
  imports Journal_Properties
begin

text \<open>
  What the two copies of a hard checkpoint are for: a crash in the middle of \<open>hard_checkpoint_at\<close>
  leaves a header from which a reader still finds a hard checkpoint that was completely written.
\<close>

lemma read_pair_hard_position:
  "hard_checkpoint_position (read_pair pos sz i j) =
     (if pos ! (2 * i) = pos ! (2 * i + 1) \<and> pos ! (2 * i) \<ge> hard_checkpoint_position j
      then pos ! (2 * i) else hard_checkpoint_position j)"
proof -
  have soft: "hard_checkpoint_position (read_soft_checkpoint pos sz i k j) = hard_checkpoint_position j" for k and j :: "'a Journal"
    by (simp add: read_soft_checkpoint_def Let_def)
  show ?thesis by (simp add: read_pair_def soft) (simp add: read_hard_checkpoint_def)
qed

lemma read_checkpoint_hard_position:
  "hard_checkpoint_position (read_checkpoint pos sz j) =
     hard_checkpoint_position (read_pair pos sz 1 (read_pair pos sz 0 j))"
  by (simp add: read_checkpoint_pairs Let_def)

lemma pair_updates:
  assumes "length pos = 4" and "hard = 0 \<or> hard = 1"
  shows "pos[2 * flip hard := x] ! (2 * hard) = pos ! (2 * hard)" "pos[2 * flip hard := x] ! (2 * hard + 1) = pos ! (2 * hard + 1)"
    "pos[2 * flip hard := x] ! (2 * flip hard) = x" "pos[2 * flip hard := x] ! (2 * flip hard + 1) = pos ! (2 * flip hard + 1)"
    "pos[2 * flip hard := x, 2 * flip hard + 1 := y] ! (2 * hard) = pos ! (2 * hard)"
    "pos[2 * flip hard := x, 2 * flip hard + 1 := y] ! (2 * hard + 1) = pos ! (2 * hard + 1)"
    "pos[2 * flip hard := x, 2 * flip hard + 1 := y] ! (2 * flip hard) = x"
    "pos[2 * flip hard := x, 2 * flip hard + 1 := y] ! (2 * flip hard + 1) = y"
  using assms by auto

lemma hard_position_pairs:
  assumes "hard = 0 \<or> hard = 1" and "pos ! (2 * hard) = hck" and "pos ! (2 * hard + 1) = hck" and "hard_checkpoint_position j \<le> hck"
  shows "hard_checkpoint_position (read_checkpoint pos sz j) =
    (if pos ! (2 * flip hard) = pos ! (2 * flip hard + 1) \<and> hck \<le> pos ! (2 * flip hard) then pos ! (2 * flip hard) else hck)"
  using assms by (auto simp: read_checkpoint_hard_position read_pair_hard_position)

text \<open>
  C10. A hard checkpoint at \<open>p\<close> is written twice, with a \<open>sync\<close> in between. Whatever value \<open>x\<close> an
  interrupted first write leaves in its slot, a reader finds the previous hard checkpoint; whatever
  value \<open>y\<close> an interrupted second write leaves, it finds the new hard checkpoint if the second copy
  is complete and the previous one otherwise.
\<close>

theorem torn_hard_checkpoint:
  assumes "slots_ok pos (hard, soft, ck, hck)" and "hck < p"
  shows "hard_checkpoint_position (read_checkpoint (pos[2 * flip hard := x]) sz (journal_new f)) = hck \<and>
    hard_checkpoint_position (read_checkpoint (pos[2 * flip hard := p, 2 * flip hard + 1 := y]) sz (journal_new f)) =
      (if y = p then p else hck)"
proof -
  have ok: "hard = 0 \<or> hard = 1" "length pos = 4" "pos ! (2 * hard) = hck" "pos ! (2 * hard + 1) = hck"
    "pos ! (2 * flip hard + 1) \<le> hck" "hard_checkpoint_position (journal_new f) \<le> hck"
    using assms(1) by (auto simp: slots_ok_def journal_new_def)
  note u = pair_updates [OF ok(2,1)]
  have "hard_checkpoint_position (read_checkpoint (pos[2 * flip hard := x]) sz (journal_new f)) = hck"
    unfolding hard_position_pairs [OF ok(1) u(1) [THEN trans, OF ok(3)] u(2) [THEN trans, OF ok(4)] ok(6)] u(3,4)
    using ok(5) by auto
  moreover have "hard_checkpoint_position (read_checkpoint (pos[2 * flip hard := p, 2 * flip hard + 1 := y]) sz (journal_new f)) =
      (if y = p then p else hck)"
    unfolding hard_position_pairs [OF ok(1) u(5) [THEN trans, OF ok(3)] u(6) [THEN trans, OF ok(4)] ok(6)] u(7,8)
    using assms(2) by auto
  ultimately show ?thesis by blast
qed

theorem torn_hard_checkpoint_witness:
  "hard_checkpoint_position (read_checkpoint ([41, 41, - 60, - 80] [2 := 99]) 200 (journal_new (memory_file_new Create_New))) = 41 \<and>
   hard_checkpoint_position (read_checkpoint ([41, 41, - 60, - 80] [2 := 90, 3 := 7]) 200 (journal_new (memory_file_new Create_New))) = 41"
proof -
  have "slots_ok [41, 41, - 60, - 80] (0, 1, 80, 41)" by (simp add: slots_ok_def int64_range_def)
  from torn_hard_checkpoint [OF this, of 90 99 200 "memory_file_new Create_New" 7] show ?thesis by simp
qed

end
