(* ===== verification/Copy_Properties.thy ===== *)
theory Copy_Properties
  imports File_Copy
begin

text \<open>
  Three ways to copy a journal: byte by byte (\<open>copy_to\<close>), by pulling what a replica does not have
  (\<open>pull_from\<close>), and by replaying it into another journal.
\<close>

section \<open>Copying bytes\<close>

text \<open>Without a size the copy goes on until the end of the source; with a size beyond it, it fails.\<close>

context two_files
begin

lemma copy_until_end:
  assumes "sz < 0" and "start + d \<le> length (target g)"
  shows "\<exists>g'. copy_loop F G f (int start) sz (int d) g = Some (Inr g') \<and> get_mode G g' = get_mode G g \<and>
    target g' = patch (target g) (start + d) (drop (start + d) (content f))"
  using assms(2)
proof (induction "length (content f) - (start + d)" arbitrary: d g rule: less_induct)
  case less
  obtain bs where bs: "checked_pread F default_buffer_size (int start + int d) f = Inr bs" "length bs \<le> default_buffer_size"
    "bs = take (length bs) (drop (nat (int start + int d)) (content f))"
    "bs = [] \<longrightarrow> default_buffer_size = 0 \<or> length (content f) \<le> nat (int start + int d)"
    by (rule src.checked_pread_law [of "int start + int d" default_buffer_size f]) auto
  have off: "nat (int start + int d) = start + d" by simp
  show ?case
  proof (cases "bs = []")
    case True
    then have "drop (start + d) (content f) = []" using bs(4) off by simp
    then show ?thesis using bs(1) True assms(1) less.prems by (subst copy_loop.simps) (simp add: patch_def)
  next
    case False
    obtain g1 where g1: "pwrite G bs (int start + int d) g = Inr g1" "target g1 = patch (target g) (start + d) bs" "get_mode G g1 = get_mode G g"
      using dst.pwrite_law [of "int start + int d" g bs] less.prems unfolding off by auto
    have "length bs \<le> length (drop (start + d) (content f))" using bs(3) unfolding off by (metis length_take min.cobounded1)
    then have "length (content f) - (start + (d + length bs)) < length (content f) - (start + d)"
      using False by (cases bs) simp_all
    moreover have "start + (d + length bs) \<le> length (target g1)" using g1(2) less.prems by (simp add: length_patch)
    ultimately obtain g2 where g2: "copy_loop F G f (int start) sz (int (d + length bs)) g1 = Some (Inr g2)" "get_mode G g2 = get_mode G g1"
      "target g2 = patch (target g1) (start + (d + length bs)) (drop (start + (d + length bs)) (content f))"
      using less.hyps [of "d + length bs" g1] by blast
    have "copy_loop F G f (int start) sz (int d) g = Some (Inr g2)"
      using bs(1) False g1(1) g2(1) assms(1) by (subst copy_loop.simps) (simp add: add.commute)
    moreover have "bs @ drop (start + (d + length bs)) (content f) = drop (start + d) (content f)"
      using append_take_drop_id [of "length bs" "drop (start + d) (content f)"] bs(3) unfolding off by (simp add: ac_simps)
    ultimately show ?thesis using g1(2,3) g2(2,3) patch_patch [OF less.prems, of bs] by (auto simp: add.assoc)
  qed
qed

lemma copy_too_far:
  assumes "length (content f) < start + n" and "d < n" and "start + d \<le> length (target g)"
  shows "copy_loop F G f (int start) (int n) (int d) g = Some (Inl reading_past_end_of_file)"
  using assms(2,3)
proof (induction "n - d" arbitrary: d g rule: less_induct)
  case less
  let ?asked = "nat (min (int default_buffer_size) (int n - int d))"
  obtain bs where bs: "checked_pread F ?asked (int start + int d) f = Inr bs" "length bs \<le> ?asked"
    "nat (int start + int d) + length bs \<le> max (nat (int start + int d)) (length (content f))"
    by (rule src.checked_pread_law [of "int start + int d" ?asked f]) auto
  have off: "nat (int start + int d) = start + d" by simp
  show ?case
  proof (cases "bs = []")
    case True
    then show ?thesis using bs(1) less.prems(1) by (subst copy_loop.simps) simp
  next
    case False
    obtain g1 where g1: "pwrite G bs (int start + int d) g = Inr g1" "target g1 = patch (target g) (start + d) bs"
      using dst.pwrite_law [of "int start + int d" g bs] less.prems(2) unfolding off by auto
    have "start + d + length bs \<le> length (content f)"
      using bs(3) False unfolding off by (cases bs) (auto simp: max_def split: if_splits)
    then have "d + length bs < n" using assms(1) by simp
    moreover from this have "n - (d + length bs) < n - d" using False by (cases bs) simp_all
    moreover have "start + (d + length bs) \<le> length (target g1)" using g1(2) less.prems(2) by (simp add: length_patch)
    ultimately have "copy_loop F G f (int start) (int n) (int (d + length bs)) g1 = Some (Inl reading_past_end_of_file)"
      using less.hyps [of "d + length bs" g1] by blast
    then show ?thesis using bs(1) False g1(1) less.prems(1) by (subst copy_loop.simps) (simp add: add.commute)
  qed
qed

end

text \<open>
  C20. \<open>copy_to\<close> always returns, although its loop has no bound of its own: with a negative size it copies up to
  the end of the source, which the last read of no byte tells; with a size beyond the end it fails; otherwise
  it copies that many bytes.
\<close>

theorem copy_returns:
  assumes "start \<le> length (data g)"
  shows "copy_to memory_file memory_file f (int start) sz g =
    Some (if 0 < sz \<and> length (data f) < start + nat sz then Inl reading_past_end_of_file
          else Inr (g\<lparr>data := patch (data g) start (take (if sz < 0 then length (data f) else nat sz) (drop start (data f)))\<rparr>))"
proof -
  have eq: "h = g\<lparr>data := data h\<rparr>" if "get_mode memory_file h = get_mode memory_file g" for h :: Memory_File
    using that by (cases h; cases g) (simp add: memory_file_def)
  consider "sz < 0" | "0 < sz" "length (data f) < start + nat sz" | "sz = 0" | "0 < sz" "start + nat sz \<le> length (data f)" by linarith
  then show ?thesis
  proof cases
    case 1
    then show ?thesis using memory_pair.copy_until_end [of sz start 0 g f] assms eq by (fastforce simp: copy_to_def)
  next
    case 2
    then show ?thesis using memory_pair.copy_too_far [of f start "nat sz" 0 g] assms by (simp add: copy_to_def)
  next
    case 3
    then show ?thesis by (simp add: copy_to_def copy_loop.simps patch_def)
  next
    case 4
    then obtain h where h: "copy_to memory_file memory_file f (int start) (int (nat sz)) g = Some (Inr h)"
      "get_mode memory_file h = get_mode memory_file g" "data h = patch (data g) start (take (nat sz) (drop start (data f)))"
      using memory_pair.copy_to_law [OF _ assms, of "nat sz" f] by blast
    then show ?thesis using 4 eq [OF h(2)] by simp
  qed
qed

theorem copy_returns_witness:
  "copy_to memory_file memory_file \<lparr>memory_mode = Create_New, data = [1, 2, 3, 4]\<rparr> 1 (- 1) \<lparr>memory_mode = Create_New, data = [9]\<rparr> =
     Some (Inr \<lparr>memory_mode = Create_New, data = [9, 2, 3, 4]\<rparr>) \<and>
   copy_to memory_file memory_file \<lparr>memory_mode = Create_New, data = [1, 2, 3, 4]\<rparr> 1 4 \<lparr>memory_mode = Create_New, data = [9]\<rparr> =
     Some (Inl reading_past_end_of_file)"
  using copy_returns [of 1 "\<lparr>memory_mode = Create_New, data = [9]\<rparr>" "\<lparr>memory_mode = Create_New, data = [1, 2, 3, 4]\<rparr>" "- 1"]
    copy_returns [of 1 "\<lparr>memory_mode = Create_New, data = [9]\<rparr>" "\<lparr>memory_mode = Create_New, data = [1, 2, 3, 4]\<rparr>" 4]
  by (simp add: patch_def)

text \<open>
  C39. \<open>copy_to\<close> returns, writes exactly the requested range of the source at the same position of the
  destination, and leaves the rest of the destination alone; \<open>equal_to\<close> then finds the two ranges
  equal, and in general decides whether two ranges of the same bounds are equal.
\<close>

theorem copy_and_compare:
  assumes "start + n \<le> length (data f)" and "start \<le> length (data g)"
  shows "\<exists>g'. copy_to memory_file memory_file f (int start) (int n) g = Some (Inr g') \<and>
    data g' = patch (data g) start (take n (drop start (data f))) \<and>
    equal_to memory_file memory_file f g' (int start) (int (start + n)) = Inr True \<and>
    equal_to memory_file memory_file f g (int start) (int (start + n)) =
      Inr (take n (drop start (data f)) = take n (drop start (data g)))"
proof -
  obtain g' where g': "copy_to memory_file memory_file f (int start) (int n) g = Some (Inr g')"
    "data g' = patch (data g) start (take n (drop start (data f)))"
    by (rule memory_pair.copy_to_law [OF assms])
  have "take n (drop start (data g')) = take n (drop start (data f))"
    using drop_patch_same [OF assms(2), of "take n (drop start (data f))"] g'(2) assms(1) by (simp add: min.absorb2)
  with memory_pair.equal_range [of start "start + n" f] assms(1) g' show ?thesis by simp
qed

theorem copy_and_compare_witness:
  "\<exists>g'. copy_to memory_file memory_file \<lparr>memory_mode = Create_New, data = [1, 2, 3, 4]\<rparr> 1 2 \<lparr>memory_mode = Create_New, data = [9]\<rparr>
      = Some (Inr g') \<and> data g' = [9, 2, 3]"
proof -
  let ?f = "\<lparr>memory_mode = Create_New, data = [1, 2, 3, 4]\<rparr>" and ?g = "\<lparr>memory_mode = Create_New, data = [9]\<rparr>"
  have "1 + 2 \<le> length (data ?f)" "1 \<le> length (data ?g)" by simp_all
  from copy_and_compare [OF this] show ?thesis by (auto simp: patch_def)
qed

section \<open>Pulling\<close>

text \<open>
  C15. A replica that was written by the first sessions of a journal catches up by \<open>pull_from\<close>:
  afterwards it has the checkpoint of the journal, and replaying it delivers the same as replaying
  the journal.
\<close>

theorem replica_pull_from:
  assumes "list_all (list_all event_fits) (xss @ yss)" and "list_all (list_all replayable) (xss @ yss)" and "xss \<noteq> []"
    and "history_end (concat (xss @ yss)) < 2 ^ 63" and "m \<noteq> Read_Existing"
  shows "\<exists>f g r j j'. fold_result (write_session memory_file) (xss @ yss) (memory_file_new m) = Inr f \<and>
    fold_result (write_session memory_file) xss (memory_file_new m) = Inr g \<and>
    open_readonly_journal memory_file Recovery_None f = Inr r \<and> open_writable_journal memory_file Recovery_None g = Inr j \<and>
    pull_from memory_file memory_file r (checkpoint_position r) j = Some (Inr (checkpoint_position r, j')) \<and>
    (\<forall>(W :: 'w Writable) w. get_position W w \<le> int header_size \<longrightarrow>
      read_session memory_file W w (journal_file j') = read_session memory_file W w f)"
proof -
  let ?xs = "concat xss" and ?es = "concat (xss @ yss)"
  obtain f where f: "fold_result (write_session memory_file) (xss @ yss) (memory_file_new m) = Inr f" "stored [] ?es [] (data f)"
    by (rule memory_sessions [OF assms(1,2) _ assms(4,5)]) (use assms(3) in simp)
  have "history_end ?xs < 2 ^ 63" using assms(4) history_end_append [of ?xs "concat yss"] by simp
  with assms(1-3,5) obtain g where g: "fold_result (write_session memory_file) xss (memory_file_new m) = Inr g"
    "stored [] ?xs [] (data g)" "get_mode memory_file g = m"
    using memory_sessions [of xss m thesis] by simp
  obtain r where r: "open_readonly_journal memory_file Recovery_None f = Inr r"
    "reader memory_file data (get_mode memory_file f) [] ?es (data f) header_size r"
    by (rule memory.open_readonly_law [OF f(2), of Recovery_None]) auto
  obtain j where j: "open_writable_journal memory_file Recovery_None g = Inr j"
    "reader memory_file data (get_mode memory_file g) [] ?xs (data g) header_size j"
    by (rule memory.open_writable_existing [OF g(2), of Recovery_None]) (use g(3) assms(5) in auto)
  have ck: "checkpoint_position r = int (history_end ([] @ ?es))"
    using r(2) by (intro marks_history_positions(1)) (simp add: reader_def)
  have "stored [] ?es [] (data (journal_file r))" using f(2) r(2) by (simp add: reader_def reading_def)
  then obtain j' c' where j': "pull_from memory_file memory_file r (int (history_end ([] @ ?es))) j = Some (Inr (int (history_end ([] @ ?es)), j'))"
    "stored [] (?xs @ concat yss) [] c'" "reader memory_file data (get_mode memory_file g) [] (?xs @ concat yss) c' header_size j'"
    by (rule memory_pair.pull_from_law [OF _ g(2) j(2), of "[]" ?es "[]" r "concat yss"]) (use assms(4) in simp_all)
  have c': "stored [] (?xs @ concat yss) [] (data (journal_file j'))" using j'(2,3) by (simp add: reader_def reading_def)
  have "read_session memory_file W w (journal_file j') = read_session memory_file W w f"
    if "get_position W w \<le> int header_size" for W :: "'w Writable" and w
    using memory.read_session_law [OF c' that] memory.read_session_law [OF f(2) that] by simp
  then show ?thesis using f(1) g(1) r(1) j(1) j'(1) ck by auto
qed

theorem replica_pull_from_witness:
  "\<exists>f g r j j'. fold_result (write_session memory_file) example_sessions (memory_file_new Create_New) = Inr f \<and>
    fold_result (write_session memory_file) [hd example_sessions] (memory_file_new Create_New) = Inr g \<and>
    open_readonly_journal memory_file Recovery_None f = Inr r \<and> open_writable_journal memory_file Recovery_None g = Inr j \<and>
    pull_from memory_file memory_file r (checkpoint_position r) j = Some (Inr (checkpoint_position r, j')) \<and>
    read_session memory_file database_writable (db_new 9) (journal_file j') = read_session memory_file database_writable (db_new 9) f"
proof -
  define xss yss where "xss = [hd example_sessions]" and "yss = tl example_sessions"
  have e: "example_sessions = xss @ yss" "xss \<noteq> []"
    by (simp_all add: example_sessions_def xss_def yss_def)
  have "get_position database_writable (db_new 9) \<le> int header_size" by (simp add: database_writable_def)
  then show ?thesis
    using replica_pull_from [OF example_sessions_ok(1,2) [unfolded e(1)] e(2) example_sessions_ok(4) [unfolded e(1)], of Create_New]
    unfolding xss_def [symmetric] unfolding e(1) by fastforce
qed

section \<open>Replaying a journal into a journal\<close>

text \<open>The events that a replay delivers unchanged.\<close>

fun copied :: "event \<Rightarrow> bool" where
  "copied (Update t r f v) = (as_argument v = v)"
| "copied (Update_Vector t r f ty vs) = (0 \<le> r \<and> vs \<noteq> [])"
| "copied e = True"

lemma deliver_journal: "copied e \<Longrightarrow> deliver (journal_writable F) q e j = journal_handle F e j"
  by (cases e) (auto simp: journal_writable_def storage_in_range_def)

lemma deliver_all_journal:
  "list_all copied es \<Longrightarrow> deliver_all (journal_writable F) p ctx es j = fold_result (journal_handle F) es j"
proof (induction es arbitrary: p ctx j)
  case (Cons e es)
  then show ?case by (cases "journal_handle F e j") (simp_all add: deliver_journal)
qed simp

context file_contract
begin

lemma play_into_journal:
  assumes "writer F content m [] [] [] c j" and "list_all event_fits es" and "list_all copied es" and "es \<noteq> []"
    and "history_end es < 2 ^ 63"
  obtains j' c' where "play_events (journal_writable F) header_size (history_end es) initial_context es j = Inr j'"
    and "writer F content m [] es [] c' j'" and "content (journal_file j') = c'"
proof -
  have ck: "checkpoint_position j = int header_size"
    using assms(1) marks_history_positions [of j "[]" "[]"] by (simp add: writer_def)
  have ev: "list_all journal_event es"
    using journal_event_fits [OF assms(2)] by simp
  have fold: "fold spec_handle es ([], [], []) = ([], [], es)"
    using assms(2) by (induction es rule: rev_induct) (simp_all add: spec_handle_fits)
  obtain j1 c1 where j1: "fold_result (journal_handle F) es j = Inr j1" "writer F content m [] [] es c1 j1"
    using writer_refines_all [OF assms(1) ev fold] assms(5) by auto
  have len: "length c1 = history_end es" using writer_length [OF j1(2)] by simp
  obtain j2 c2 where j2: "soft_checkpoint F j1 = Inr j2" "writer F content m [] es [] c2 j2" "content (journal_file j2) = c2"
    using writer_soft_checkpoint [OF j1(2), of thesis] len assms(4,5) by auto
  have "play_events (journal_writable F) header_size (history_end es) initial_context es j = Inr j2"
    using assms(4) ck j1(1) j2(1) journal_position_writer [OF j1(2)] len
    by (simp add: play_events_def deliver_all_journal [OF assms(3)])
      (simp add: journal_writable_def journal_start_writing_def journal_end_writing_def)
  then show ?thesis using that j2(2,3) by blast
qed

end

text \<open>
  C33. Replaying a journal into a new, empty journal copies it: the new file has the same bytes after
  its header, and the same checkpoint.
\<close>

theorem journal_copy:
  assumes "list_all event_fits es" and "list_all copied es" and "es \<noteq> []" and "history_end es < 2 ^ 63" and "m \<noteq> Read_Existing"
    and "write_session memory_file es (memory_file_new m) = Inr f"
    and "open_writable_journal memory_file Recovery_None (memory_file_new m) = Inr j"
  shows "\<exists>j'. read_session memory_file (journal_writable memory_file) j f = Inr j' \<and>
    drop header_size (data (journal_file j')) = drop header_size (data f) \<and> checkpoint_position j' = int (length (data f))"
proof -
  have "stored [] es [] (data f)"
    by (rule memory.session_new [of "memory_file_new m" es]) (use assms in simp_all)
  moreover have w: "writer memory_file data m [] [] [] (header_bytes new_header) j"
    by (rule memory_open_new [OF assms(5), of Recovery_None]) (use assms(7) in simp)
  moreover have "get_position (journal_writable memory_file) j \<le> int header_size"
    using memory.journal_position_writer [OF w] by (simp add: journal_writable_def new_header_ok)
  ultimately have read: "read_session memory_file (journal_writable memory_file) j f =
      play_events (journal_writable memory_file) header_size (history_end es) initial_context es j"
    using memory.read_session_law [of "[]" es "[]" f "journal_writable memory_file" j] by simp
  obtain j' c' where j': "play_events (journal_writable memory_file) header_size (history_end es) initial_context es j = Inr j'"
    "writer memory_file data m [] es [] c' j'" "data (journal_file j') = c'"
    by (rule memory.play_into_journal [OF w assms(1-4)])
  have "checkpoint_position j' = int (history_end es)"
    using j'(2) marks_history_positions [of j' "[]" es] by (simp add: writer_def)
  moreover have "length (data f) = history_end es" using stored_length [OF \<open>stored [] es [] (data f)\<close>] by simp
  ultimately show ?thesis
    using read j' \<open>stored [] es [] (data f)\<close> by (simp add: writer_def stored_def)
qed

theorem journal_copy_witness:
  "\<exists>f j j'. write_session memory_file (concat example_sessions) (memory_file_new Create_New) = Inr f \<and>
    open_writable_journal memory_file Recovery_None (memory_file_new Create_New) = Inr j \<and>
    read_session memory_file (journal_writable memory_file) j f = Inr j' \<and>
    drop header_size (data (journal_file j')) = drop header_size (data f) \<and> checkpoint_position j' = int (length (data f))"
proof -
  have e: "list_all event_fits (concat example_sessions)" "list_all copied (concat example_sessions)" "concat example_sessions \<noteq> []"
    using example_sessions_ok(1) by (simp_all add: example_sessions_def)
  obtain f where f: "write_session memory_file (concat example_sessions) (memory_file_new Create_New) = Inr f"
    by (rule memory.session_new [of "memory_file_new Create_New" "concat example_sessions"]) (use e(1) example_sessions_ok(4) in simp_all)
  obtain j where j: "open_writable_journal memory_file Recovery_None (memory_file_new Create_New) = Inr j"
    by (rule memory_open_new [of Create_New Recovery_None]) auto
  from journal_copy [OF e example_sessions_ok(4) _ f j] f j show ?thesis by auto
qed

end
