(* ===== verification/Journal_Safety.thy ===== *)
theory Journal_Safety
  imports Journal_Properties
begin

text \<open>
  Replaying a file whose bytes are arbitrary: a corrupted or hostile journal makes the reader throw
  an exception at worst. No access leaves the buffers, no assertion fails, and a database that is
  being filled stays well formed up to the exception.
\<close>

section \<open>Safe reading\<close>

definition reads_safely :: "'f Abstract_File \<Rightarrow> ('f \<Rightarrow> byte list) \<Rightarrow> ('f File_Buffer \<Rightarrow> ('a \<times> 'f File_Buffer) result) \<Rightarrow> bool" where
  "reads_safely F content rd \<longleftrightarrow>
     (\<forall>m b c p. reading F content m b c p \<longrightarrow> safe (\<lambda>(x, b'). \<exists>p'. reading F content m b' c p') (rd b))"

lemma reads_safelyD:
  "reads_safely F content rd \<Longrightarrow> reading F content m b c p \<Longrightarrow> safe (\<lambda>(x, b'). \<exists>p'. reading F content m b' c p') (rd b)"
  by (auto simp: reads_safely_def)

lemma reads_safely_bind:
  assumes "reads_safely F content f" and "\<And>x. reads_safely F content (g x)"
  shows "reads_safely F content (\<lambda>b. bind_result (f b) (\<lambda>(x, b'). g x b'))"
  unfolding reads_safely_def
proof (intro allI impI)
  fix m b c p assume "reading F content m b c p"
  from reads_safelyD [OF assms(1) this]
  show "safe (\<lambda>(x, b'). \<exists>p'. reading F content m b' c p') (bind_result (f b) (\<lambda>(x, b'). g x b'))"
    by (rule safe_bind) (use assms(2) in \<open>auto dest: reads_safelyD\<close>)
qed

lemma reads_safely_return: "reads_safely F content (\<lambda>b. Inr (x, b))"
  by (auto simp: reads_safely_def)

lemma reads_safely_map:
  assumes "reads_safely F content f"
  shows "reads_safely F content (\<lambda>b. bind_result (f b) (\<lambda>(x, b'). Inr (g x, b')))"
  by (rule reads_safely_bind [OF assms reads_safely_return])

lemma reads_safely_if:
  "(c \<Longrightarrow> reads_safely F content f) \<Longrightarrow> (\<not> c \<Longrightarrow> reads_safely F content g) \<Longrightarrow>
     reads_safely F content (\<lambda>b. if c then f b else g b)"
  by (cases c) simp_all

context file_contract
begin

lemma read_data_beyond:
  assumes "reading F content m b c p" and "length c < p" and "0 < n"
  shows "read_data F n b = Inl reading_past_end_of_file"
proof -
  have "take (read_buffer_size b - buffer_index b) (drop (buffer_index b) (buffer_data b)) = []"
    using assms(1,2) by (simp add: reading_def)
  then have idle: "buffer_index b = read_buffer_size b" using assms(1) by (auto simp: reading_def)
  have b: "buffer_fetch 0 b = Inr ([], b)" using assms(1) idle by (auto simp: buffer_fetch_def reading_def)
  show ?thesis
  proof (cases "n \<le> buffer_size")
    case True
    then show ?thesis using read_buffer_eof [OF assms(1) idle] assms(2,3) idle b reading_idle [OF assms(1)]
      by (simp add: read_data_def)
  next
    case False
    then show ?thesis using fi_full_read_eof [OF assms(1) idle, of n] assms(2,3) idle b reading_idle [OF assms(1)]
      by (simp add: read_data_def)
  qed
qed

lemma read_data_safely: "reads_safely F content (read_data F n)"
  unfolding reads_safely_def
proof (intro allI impI)
  fix m b c p assume r: "reading F content m b c p"
  consider "p \<le> length c" | "length c < p" "0 < n" | "n = 0" by linarith
  then show "safe (\<lambda>(x, b'). \<exists>p'. reading F content m b' c p') (read_data F n b)"
  proof cases
    case 1
    then show ?thesis using read_data_cases [OF r 1, of n] by (auto split: if_splits)
  next
    case 2
    then show ?thesis using read_data_beyond [OF r] by simp
  next
    case 3
    then have "read_data F n b = buffer_fetch 0 b" using r reading_idle [OF r] by (simp add: read_data_def reading_def)
    then show ?thesis using fetch_reading [OF r, of 0] by auto
  qed
qed

lemma one_byte_safely: "reads_safely F content (one_byte (read_data F 1))"
  unfolding one_byte_def by (rule reads_safely_map [OF read_data_safely])

lemma compact_loop_safely: "reads_safely F content (compact_loop (one_byte (read_data F 1)) n r)"
proof (induction n arbitrary: r)
  case (Suc n)
  show ?case unfolding compact_loop.simps by (rule reads_safely_bind [OF one_byte_safely Suc])
qed (auto simp: reads_safely_def)

lemma slow_path_safely: "reads_safely F content (compact_read (one_byte (read_data F 1)))"
  unfolding compact_read_def by (rule reads_safely_bind [OF one_byte_safely compact_loop_safely])

text \<open>The fast path reads at most eight bytes, which are in the buffer.\<close>

lemma buffer_byte:
  assumes "reading F content m b c p" and "buffer_index b + Suc k \<le> read_buffer_size b"
  obtains x b' where "one_byte (buffer_read 1) b = Inr (x, b')" and "reading F content m b' c (p + 1)"
    and "buffer_index b' + k \<le> read_buffer_size b'"
proof -
  have "1 \<le> read_buffer_size b - buffer_index b" "read_buffer_size b \<le> buffer_size" using assms by (auto simp: reading_def)
  with fetch_reading [OF assms(1), of 1] assms(2) that show ?thesis
    by (auto simp: one_byte_def buffer_read_def)
qed

lemma buffer_loop_safe:
  assumes "reading F content m b c p" and "buffer_index b + k \<le> read_buffer_size b"
  shows "safe (\<lambda>(x, b'). \<exists>p'. reading F content m b' c p') (compact_loop (one_byte (buffer_read 1)) k r b)"
  using assms
proof (induction k arbitrary: b p r)
  case (Suc k)
  obtain x b' where "one_byte (buffer_read 1) b = Inr (x, b')" "reading F content m b' c (p + 1)"
    "buffer_index b' + k \<le> read_buffer_size b'" by (rule buffer_byte [OF Suc.prems])
  then show ?case using Suc.IH by simp
qed auto

lemma compact_read_safely: "reads_safely F content (fb_compact_read F)"
  unfolding reads_safely_def
proof (intro allI impI)
  fix m b c p assume r: "reading F content m b c p"
  show "safe (\<lambda>(x, b'). \<exists>p'. reading F content m b' c p') (fb_compact_read F b)"
  proof (cases "buffer_index b + 8 \<le> read_buffer_size b")
    case True
    then have "buffer_index b + Suc 7 \<le> read_buffer_size b" by simp
    then obtain x b' where b': "one_byte (buffer_read 1) b = Inr (x, b')" "reading F content m b' c (p + 1)"
      "buffer_index b' + 7 \<le> read_buffer_size b'" by (rule buffer_byte [OF r])
    have "unat (drop_bit 5 x) \<le> 7"
      using unsigned_less [of x, where 'a = nat] by (simp only: unat_drop_bit_eq) (simp add: drop_bit_eq_div)
    then have "buffer_index b' + unat (drop_bit 5 x) \<le> read_buffer_size b'" using b'(3) by linarith
    then show ?thesis using True b' buffer_loop_safe by (simp add: fb_compact_read_def buffer_compact_read_def compact_read_def)
  next
    case False
    then show ?thesis using reads_safelyD [OF slow_path_safely r] by (simp add: fb_compact_read_def)
  qed
qed

lemma buffer_reads_safely:
  "reads_safely F content (fb_read F n)" "reads_safely F content (read_reference F)" "reads_safely F content (fb_read_blob F)"
  "reads_safely F content (fb_safe_read_string F l)"
proof -
  show "reads_safely F content (fb_read F n)"
    unfolding fb_read_def by (rule reads_safely_map [OF read_data_safely])
  show "reads_safely F content (read_reference F)"
    unfolding read_reference_def by (rule reads_safely_map [OF compact_read_safely])
  show "reads_safely F content (fb_read_blob F)"
    unfolding fb_read_blob_def by (rule reads_safely_bind [OF compact_read_safely reads_safely_map [OF compact_read_safely]])
  show "reads_safely F content (fb_safe_read_string F l)"
    unfolding fb_safe_read_string_def
    by (rule reads_safely_bind [OF compact_read_safely])
      (intro reads_safely_if reads_safely_map read_data_safely reads_safely_return)
qed

end

section \<open>Safe steps\<close>

text \<open>
  A writable with an invariant: its event handlers and \<open>get_own_storage\<close> throw at worst. As in the
  source, the values of an \<open>update_vector\<close> have the type of the method.
\<close>

definition writable_ok :: "('w \<Rightarrow> bool) \<Rightarrow> 'w Writable \<Rightarrow> bool" where
  "writable_ok Q W \<longleftrightarrow>
     (\<forall>e w. Q w \<longrightarrow> event_typed e \<longrightarrow> safe Q (handle W e w)) \<and>
     (\<forall>w t f ty. Q w \<longrightarrow> safe (\<lambda>_. True) (get_own_storage W w t f ty))"

definition jsafe :: "'f Abstract_File \<Rightarrow> ('f \<Rightarrow> byte list) \<Rightarrow> Open_Mode \<Rightarrow> byte list \<Rightarrow> ('x \<Rightarrow> bool) \<Rightarrow> ('x \<times> 'f Journal) result \<Rightarrow> bool" where
  "jsafe F content m c Q r = safe (\<lambda>(x, j). Q x \<and> (\<exists>p. reading F content m (file_buffer j) c p)) r"

definition step_safe :: "'f Abstract_File \<Rightarrow> ('f \<Rightarrow> byte list) \<Rightarrow> Open_Mode \<Rightarrow> byte list \<Rightarrow> ('w \<Rightarrow> bool) \<Rightarrow> ('f Journal \<times> 'w) result \<Rightarrow> bool" where
  "step_safe F content m c Q r = safe (\<lambda>(j, w). Q w \<and> (\<exists>p. reading F content m (file_buffer j) c p)) r"

lemma jsafe_jread:
  assumes "reads_safely F content rd" and "reading F content m (file_buffer j) c p"
  shows "jsafe F content m c (\<lambda>_. True) (jread rd j)"
  unfolding jsafe_def jread_def by (rule safe_bind [OF reads_safelyD [OF assms]]) auto

lemma jsafe_bind:
  assumes "jsafe F content m c P r"
    and "\<And>x j p. P x \<Longrightarrow> reading F content m (file_buffer j) c p \<Longrightarrow> jsafe F content m c Q (k x j)"
  shows "jsafe F content m c Q (bind_result r (\<lambda>(x, j). k x j))"
  using assms(1) unfolding jsafe_def by (rule safe_bind) (use assms(2) in \<open>auto simp: jsafe_def\<close>)

lemma jsafe_return: "Q x \<Longrightarrow> reading F content m (file_buffer j) c p \<Longrightarrow> jsafe F content m c Q (Inr (x, j))"
  by (auto simp: jsafe_def)

lemma jsafe_mono: "jsafe F content m c P r \<Longrightarrow> (\<And>x. P x \<Longrightarrow> Q x) \<Longrightarrow> jsafe F content m c Q r"
  unfolding jsafe_def by (auto elim!: safe_mono)

lemma step_bind:
  assumes "jsafe F content m c P r"
    and "\<And>x j p. P x \<Longrightarrow> reading F content m (file_buffer j) c p \<Longrightarrow> step_safe F content m c Q (k x j)"
  shows "step_safe F content m c Q (bind_result r (\<lambda>(x, j). k x j))"
  using assms(1) unfolding jsafe_def step_safe_def by (rule safe_bind) (use assms(2) in \<open>auto simp: step_safe_def\<close>)

lemma step_call:
  assumes "writable_ok Q W" and "Q w" and "event_typed e" and "reading F content m (file_buffer j) c p"
  shows "step_safe F content m c Q (call W e j w)"
proof -
  have "safe Q (handle W e w)" using assms(1-3) by (simp add: writable_ok_def)
  then show ?thesis unfolding step_safe_def call_def by (rule safe_bind) (use assms(4) in auto)
qed

lemma step_then:
  assumes "step_safe F content m c Q r" and "\<And>j w. file_buffer (g j w) = file_buffer j"
  shows "step_safe F content m c Q (bind_result r (\<lambda>(j, w). Inr (g j w, w)))"
  using assms(1) unfolding step_safe_def by (rule safe_bind) (use assms(2) in auto)

lemma type_of_fixed_value: "macro_type ty \<Longrightarrow> type_width ty \<noteq> 0 \<Longrightarrow> type_of_value (fixed_value ty bs) = ty"
  by (cases ty) auto

lemma operation_of_code_type: "operation_of_code b = Some (Update_Op ty k) \<Longrightarrow> macro_type ty"
proof -
  assume "operation_of_code b = Some (Update_Op ty k)"
  then have "Update_Op ty k \<in> set operations" by (auto simp: operation_of_code_def find_Some_iff)
  then show "macro_type ty" by (auto simp: operations_def macro_type_def)
qed

context file_contract
begin

lemma journal_reads_safely:
  assumes "reading F content m (file_buffer j) c p"
  shows "jsafe F content m c (\<lambda>_. True) (read_id F j)" "jsafe F content m c (\<lambda>_. True) (journal_safe_read_string F j)"
    "jsafe F content m c (\<lambda>_. True) (jread (read_reference F) j)" "jsafe F content m c (\<lambda>_. True) (jread (fb_compact_read F) j)"
    "jsafe F content m c (\<lambda>_. True) (jread (fb_read F n) j)" "jsafe F content m c (\<lambda>_. True) (jread (read_data F n) j)"
  unfolding read_id_def journal_safe_read_string_def
  by (rule jsafe_jread [OF _ assms], rule compact_read_safely buffer_reads_safely read_data_safely)+

lemma read_type_safely:
  assumes "reading F content m (file_buffer j) c p"
  shows "jsafe F content m c (\<lambda>_. True) (read_type F j)"
  unfolding read_type_def
  by (rule jsafe_bind [OF journal_reads_safely(5) [OF assms]])
    (auto simp: Let_def intro: jsafe_return intro!: jsafe_bind [OF journal_reads_safely(1)])

lemma read_value_safely:
  assumes "reading F content m (file_buffer j) c p" and "macro_type ty"
  shows "jsafe F content m c (\<lambda>v. type_of_value v = ty) (read_value F ty j)"
proof -
  have w: "type_width ty \<noteq> 0 \<or> ty = String_Type \<or> ty = Reference_Type \<or> ty = Blob_Type"
    using assms(2) by (auto simp: macro_type_def type_ids_def)
  have blob: "jsafe F content m c (\<lambda>_. True) (jread (fb_read_blob F) j)"
    by (rule jsafe_jread [OF buffer_reads_safely(3) assms(1)])
  show ?thesis
    unfolding read_value_def using w type_of_fixed_value [OF assms(2)]
    by (auto intro!: jsafe_bind [OF journal_reads_safely(2) [OF assms(1)]] jsafe_bind [OF journal_reads_safely(3) [OF assms(1)]]
        jsafe_bind [OF blob] jsafe_bind [OF journal_reads_safely(6) [OF assms(1)]] intro: jsafe_return)
qed

lemma read_values_safely:
  assumes "reading F content m (file_buffer j) c p" and "macro_type ty"
  shows "jsafe F content m c (list_all (\<lambda>v. type_of_value v = ty)) (read_values F ty n j)"
  using assms(1)
proof (induction n arbitrary: j p)
  case (Suc n)
  show ?case
    unfolding read_values.simps
    by (rule jsafe_bind [OF read_value_safely [OF Suc.prems assms(2)]], rule jsafe_bind [OF Suc.IH], assumption)
      (auto intro: jsafe_return)
qed (auto intro: jsafe_return)

lemma read_vector_safely:
  assumes "reading F content m (file_buffer j) c p" and "macro_type ty"
  shows "jsafe F content m c (list_all (\<lambda>v. type_of_value v = ty)) (read_vector F ty n j)"
proof (cases "ty = Blob_Type \<or> ty = String_Type \<or> ty = Reference_Type")
  case True
  then show ?thesis using read_values_safely [OF assms] by (simp add: read_vector_def)
next
  case False
  then have "type_width ty \<noteq> 0" using assms(2) by (auto simp: macro_type_def type_ids_def)
  from type_of_fixed_value [OF assms(2) this] False show ?thesis
    by (auto simp: read_vector_def list_all_iff intro!: jsafe_bind [OF journal_reads_safely(6) [OF assms(1)]] intro: jsafe_return)
qed

end

context file_contract
begin

lemma read_size_safely:
  assumes "reading F content m (file_buffer j) c p"
  shows "jsafe F content m c (\<lambda>n :: 64 word. 0 \<le> sint n) (jread (fb_compact_read F) j)"
proof -
  have "safe (\<lambda>(x, b'). \<exists>p'. reading F content m b' c p') (fb_compact_read F (file_buffer j) :: (64 word \<times> 'f File_Buffer) result)"
    by (rule reads_safelyD [OF compact_read_safely assms])
  then show ?thesis
    unfolding jsafe_def jread_def by (rule safe_bind) (auto dest: fb_compact_read_bound)
qed

lemma perform_update_safely:
  assumes "writable_ok Q W" and "Q w" and "macro_type ty" and "reading F content m (file_buffer j) c p"
  shows "step_safe F content m c Q (perform_update F W ty j w)"
  unfolding perform_update_def
  by (rule step_bind [OF read_value_safely [OF assms(4,3)]]) (auto intro: step_call [OF assms(1,2)])

lemma perform_update_vector_safely:
  assumes "writable_ok Q W" and "Q w" and "macro_type ty" and "reading F content m (file_buffer j) c p"
  shows "step_safe F content m c Q (perform_update_vector F W ty j w)"
  unfolding perform_update_vector_guarded
proof (rule step_bind [OF journal_reads_safely(4) [OF assms(4)]])
  fix n :: "64 word" and j1 :: "'f Journal" and p1
  assume r: "reading F content m (file_buffer j1) c p1"
  have st: "safe (\<lambda>_. True) (get_own_storage W w t f ty)" for t f using assms(1,2) by (simp add: writable_ok_def)
  have "step_safe F content m c Q (bind_result (read_vector F ty k j1) (\<lambda>(vs, j2). call W (Update_Vector t x f ty vs) j2 w))" for k t x f
    by (rule step_bind [OF read_vector_safely [OF r assms(3)]]) (auto intro: step_call [OF assms(1,2)])
  then show "step_safe F content m c Q
      (if n = 0 then Inr (j1, w)
       else if sint n > checkpoint_position j1 then Inl (Exception ''update_vector too big'')
       else let t = table_of_last_operation j1; r = record_of_last_operation j1; f = field_of_last_update j1 in
         bind_result (get_own_storage W w t f ty) (\<lambda>storage.
         if \<not> storage_in_range r (unat n) storage then Inl (Exception ''update_vector out of range'')
         else bind_result (read_vector F ty (unat n) j1) (\<lambda>(vs, j'').
              call W (Update_Vector t r f ty vs) j'' w)))"
    using r assms(2) by (auto simp: Let_def step_safe_def intro!: safe_bind [OF st])
qed

lemma blob_safely:
  assumes "writable_ok Q W" and "Q w" and "reading F content m (file_buffer j) c p"
  shows "step_safe F content m c Q (perform F W Blob_Op j w)"
  unfolding perform.simps
proof (rule step_bind [OF read_size_safely [OF assms(3)]])
  fix n :: "64 word" and j1 :: "'f Journal" and p1
  assume n: "0 \<le> sint n" and r: "reading F content m (file_buffer j1) c p1"
  let ?k = "\<lambda>(j, w). if wants_blob_data W w \<and> sint n < checkpoint_position j
     then bind_result (if sint n > 0 then jread (read_data F (nat (sint n))) j else Inr ([], j)) (\<lambda>(bs, j).
          call W (Write_Blob (string_of bs)) j w)
     else bind_result (jwrite (ignore F (sint n)) j) (\<lambda>j. Inr (j, w))"
  have "step_safe F content m c Q (?k (j2, w2))" if w: "Q w2" and r: "reading F content m (file_buffer j2) c p2" for j2 w2 p2
  proof -
    have "step_safe F content m c Q (bind_result (jread (read_data F (nat (sint n))) j2) (\<lambda>(bs, j). call W (Write_Blob (string_of bs)) j w2))"
      by (rule step_bind [OF journal_reads_safely(6) [OF r]]) (auto intro: step_call [OF assms(1) w])
    moreover have "step_safe F content m c Q (call W (Write_Blob (string_of [])) j2 w2)"
      by (rule step_call [OF assms(1) w _ r]) simp
    moreover have "step_safe F content m c Q (bind_result (jwrite (ignore F (sint n)) j2) (\<lambda>j. Inr (j, w2)))"
      using ignore_law [OF r, of "nat (sint n)"] n w by (auto simp: jwrite_def step_safe_def)
    ultimately show ?thesis by simp
  qed
  moreover have "step_safe F content m c Q (call W (On_Blob \<lparr>blob_position = journal_get_position j1, blob_size = sint n\<rparr>) j1 w)"
    by (rule step_call [OF assms(1,2) _ r]) simp
  ultimately show "step_safe F content m c Q
      (bind_result (call W (On_Blob \<lparr>blob_position = journal_get_position j1, blob_size = sint n\<rparr>) j1 w) ?k)"
    unfolding step_safe_def by (elim safe_bind) auto
qed

text \<open>The updates of the context do not touch the buffer.\<close>

lemmas step_rules =
  step_bind [OF journal_reads_safely(1)] step_bind [OF journal_reads_safely(2)] step_bind [OF journal_reads_safely(3)]
  step_bind [OF journal_reads_safely(4)] step_bind [OF journal_reads_safely(5)] step_bind [OF read_type_safely] step_then

lemma perform_safely:
  assumes "writable_ok Q W" and "Q w" and "reading F content m (file_buffer j) c p" and "\<And>ty k. x = Update_Op ty k \<Longrightarrow> macro_type ty"
  shows "step_safe F content m c Q (perform F W x j w)"
proof (cases x)
  case (Update_Op ty k)
  then have ty: "macro_type ty" using assms(4) by simp
  show ?thesis
    unfolding Update_Op using assms(3)
    by (cases k) (auto intro!: step_rules perform_update_safely [OF assms(1,2) ty] perform_update_vector_safely [OF assms(1,2) ty]
        simp: set_last_record_def)
next
  case Blob_Op
  then show ?thesis using blob_safely [OF assms(1-3)] by (simp del: perform.simps)
qed (use assms(3) in \<open>auto intro!: step_rules step_call [OF assms(1,2)] simp: set_last_record_def Let_def\<close>)

lemma one_step_safely:
  assumes "writable_ok Q W" and "Q w" and "reading F content m (file_buffer j) c p"
  shows "step_safe F content m c Q (one_step F W j w)"
  unfolding one_step_def
  by (rule step_bind [OF journal_reads_safely(5) [OF assms(3)]])
    (auto simp: step_safe_def split: option.split dest: operation_of_code_type
      intro!: perform_safely [unfolded step_safe_def, OF assms(1,2)])

end

section \<open>Safe replay\<close>

lemma dummy_ok: "writable_ok (\<lambda>_. True) dummy_writable"
  by (simp add: writable_ok_def dummy_writable_def)

lemma database_ok: "writable_ok db_ok database_writable"
proof -
  have "safe (\<lambda>_. True) (db_get_own_storage db t f ty)" for db t f ty
    by (auto simp: db_get_own_storage_def get_table_def find_field_from_id_def std_get_def split: option.split)
  then show ?thesis using safe_db_handle by (simp add: writable_ok_def database_writable_def)
qed

context file_contract
begin

lemma raw_play_safely:
  assumes "writable_ok Q W" and "Q w" and "reading F content m (file_buffer j) c p"
  shows "step_safe F content m c Q (raw_play_until F W l j w)"
  using assms(2,3)
proof (induction "nat (l - journal_get_position j)" arbitrary: j w p rule: less_induct)
  case less
  show ?case
  proof (cases "journal_get_position j < l")
    case True
    have "step_safe F content m c Q (raw_play_until F W l j' w')"
      if "one_step F W j w = Inr (j', w')" "Q w'" "reading F content m (file_buffer j') c p'" for j' w' p'
      using less.hyps [of j' w' p'] one_step_position [OF that(1)] that(2,3) True by simp
    then have "safe (\<lambda>(j, w). Q w \<and> (\<exists>p. reading F content m (file_buffer j) c p))
        (bind_result (one_step F W j w) (\<lambda>(j', w'). raw_play_until F W l j' w'))"
      using one_step_safely [OF assms(1) less.prems] unfolding step_safe_def by (elim safe_bind) auto
    then show ?thesis using True by (subst raw_play_until.simps) (simp add: step_safe_def)
  next
    case False
    then show ?thesis using less.prems by (subst raw_play_until.simps) (auto simp: step_safe_def)
  qed
qed

lemma play_until_safely:
  assumes "writable_ok Q W" and "Q w" and "reading F content m (file_buffer j) c p"
  shows "step_safe F content m c Q (play_until F W l j w)"
proof -
  have "step_safe F content m c (\<lambda>_. True) (raw_play_until F (dummy_writable :: unit Writable) (get_position W w) j ())"
    by (rule raw_play_safely [OF dummy_ok _ assms(3)]) simp
  then have "safe (\<lambda>j. \<exists>p. reading F content m (file_buffer j) c p)
      (bind_result (raw_play_until F (dummy_writable :: unit Writable) (get_position W w) j ()) (\<lambda>(j', u). Inr j'))"
    unfolding step_safe_def by (rule safe_bind) auto
  then have skip: "safe (\<lambda>j. \<exists>p. reading F content m (file_buffer j) c p)
      (if journal_get_position j < get_position W w
       then bind_result (raw_play_until F (dummy_writable :: unit Writable) (get_position W w) j ()) (\<lambda>(j', u). Inr j')
       else Inr j)"
    using assms(3) by auto
  have hd: "safe Q (handle W e w)" if "Q w" "event_typed e" for e w using assms(1) that by (simp add: writable_ok_def)
  have "step_safe F content m c Q
      (bind_result (handle W (Start_Writing (journal_get_position j1)) w) (\<lambda>w1.
       bind_result (raw_play_until F W l j1 w1) (\<lambda>(j2, w2).
       bind_result (handle W (End_Writing (journal_get_position j2)) w2) (\<lambda>w3.
       bind_result (handle W Soft_Checkpoint w3) (\<lambda>w4. Inr (j2, w4))))))"
    if "reading F content m (file_buffer j1) c p1" for j1 p1
    unfolding step_safe_def
    by (rule safe_bind [OF hd [OF assms(2)]], simp, rule safe_bind [OF raw_play_safely [unfolded step_safe_def, OF assms(1) _ that]])
      (auto intro!: safe_bind [OF hd])
  then have body: "step_safe F content m c Q
      (if journal_get_position j < l then
         bind_result
           (if journal_get_position j < get_position W w
            then bind_result (raw_play_until F (dummy_writable :: unit Writable) (get_position W w) j ()) (\<lambda>(j', u). Inr j')
            else Inr j) (\<lambda>j1.
         bind_result (handle W (Start_Writing (journal_get_position j1)) w) (\<lambda>w1.
         bind_result (raw_play_until F W l j1 w1) (\<lambda>(j2, w2).
         bind_result (handle W (End_Writing (journal_get_position j2)) w2) (\<lambda>w3.
         bind_result (handle W Soft_Checkpoint w3) (\<lambda>w4. Inr (j2, w4))))))
       else Inr (j, w))"
    using skip assms(2,3) unfolding step_safe_def by (auto elim!: safe_bind)
  have "safe (\<lambda>(j, w). Q w \<and> (\<exists>p. reading F content m (file_buffer j) c p))
      (bind_result (jwrite (flush F) j') (\<lambda>j''. Inr (j'', w')))" if "Q w'" "reading F content m (file_buffer j') c p'" for j' w' p'
    using flush_reading [OF that(2)] that(1) by (auto simp: jwrite_def)
  with body show ?thesis unfolding play_until_def step_safe_def by (elim safe_bind) auto
qed

lemma open_readonly_safely:
  "safe (\<lambda>j. \<exists>p. reading F content (get_mode F f) (file_buffer j) (content f) p) (open_readonly_journal F r f)"
proof -
  obtain lock where lock: "construction_lock F r f = Inr lock" "content (lock_file lock) = content f"
    "get_mode F (lock_file lock) = get_mode F f" "lock_size lock = int (length (content f))"
    by (rule construction_lock_law)
  let ?f = "lock_file lock"
  obtain b where b: "set_position F (int header_size) (file_buffer_new ?f) = Inr b"
    "reading F content (get_mode F f) b (content f) header_size"
    using set_position_reading [OF reading_new, of header_size ?f] lock(2,3) by auto
  let ?j = "(journal_new ?f)\<lparr>file_buffer := b\<rparr>"
  have j: "jwrite (set_position F 41) (journal_new ?f) = Inr ?j" using b(1) by (simp add: jwrite_def journal_new_def)
  have ro: "safe (\<lambda>(h, j). \<exists>p. reading F content (get_mode F f) (file_buffer j) (content f) p) (readonly_journal F lock False)"
  proof (cases "full_pread F header_size 0 ?f")
    case (Inl e)
    then have "e = reading_past_end_of_file"
      using full_pread_law [of 0 header_size ?f] full_pread_past_end [of 0 header_size ?f]
      by (cases "header_size \<le> length (content ?f)") auto
    then show ?thesis using Inl by (simp add: readonly_journal_def Let_def)
  next
    case (Inr bs)
    then show ?thesis using b(2) by (auto simp: readonly_journal_def Let_def j)
  qed
  show ?thesis
    unfolding open_readonly_journal_def lock(1) bind_result_simps
  proof (rule safe_bind [OF ro], clarsimp)
    fix j :: "'f Journal" and p assume "reading F content (get_mode F f) (file_buffer j) (content f) p"
    then show "\<exists>p. reading F content (get_mode F f) (file_buffer (set_file (release_construction_lock F (journal_file j)) j)) (content f) p"
      using reading_set_file by (fastforce simp: set_file_def reading_def)
  qed
qed

lemma read_session_safely:
  assumes "writable_ok Q W" and "Q w"
  shows "safe Q (read_session F W w f)"
  unfolding read_session_def
proof (rule safe_bind [OF open_readonly_safely], clarsimp)
  fix j :: "'f Journal" and p assume "reading F content (get_mode F f) (file_buffer j) (content f) p"
  from set_position_reading [OF this, of header_size] obtain b where
    b: "set_position F (int header_size) (file_buffer j) = Inr b" "reading F content (get_mode F f) b (content f) header_size" by blast
  let ?j = "reset_context (j\<lparr>file_buffer := b\<rparr>)"
  have "replay_log F W j w = play_until F W (checkpoint_position ?j) ?j w"
    using b(1) by (simp add: replay_log_def play_until_checkpoint_def rewind_def jwrite_def)
  moreover have "step_safe F content (get_mode F f) (content f) Q (play_until F W (checkpoint_position ?j) ?j w)"
    by (rule play_until_safely [OF assms]) (use b(2) in simp)
  ultimately show "safe Q (bind_result (replay_log F W j w) (\<lambda>(j', w'). Inr w'))"
    unfolding step_safe_def by (auto elim!: safe_bind)
qed

end

text \<open>
  C3. Whatever bytes a file contains, opening it as a journal and replaying it into a new database ends,
  with a well-formed database or with an exception that the code raises on purpose; it never reads or
  writes outside of a buffer or of a column, and never fails an assertion.
\<close>

theorem hostile_journal_safe:
  "safe db_ok (read_session memory_file database_writable (db_new k) \<lparr>memory_mode = m, data = bytes\<rparr>)"
  by (rule memory.read_session_safely [OF database_ok db_ok_new])

end
