(* ===== verification/Buffer_Properties.thy ===== *)
theory Buffer_Properties
  imports File_Buffer_Proofs
begin

text \<open>
  A file buffer writes and reads sequences of integers, references, strings, blobs and raw bytes, at any
  position of a file and across the boundaries of the buffer.
\<close>

section \<open>Sequences of items\<close>

datatype item =
    Integer_Item int
  | Reference_Item Record_Id
  | Text_Item string
  | Blob_Item Blob
  | Data_Item "byte list"

fun write_item :: "'f Abstract_File \<Rightarrow> item \<Rightarrow> 'f File_Buffer \<Rightarrow> 'f File_Buffer result" where
  "write_item F (Integer_Item x) = fb_compact_write F x"
| "write_item F (Reference_Item r) = write_reference F r"
| "write_item F (Text_Item s) = write_string F s"
| "write_item F (Blob_Item x) = fb_write_blob F x"
| "write_item F (Data_Item bs) = write_data F bs"

text \<open>Reading an item of the same type as a given one, and of the same size if it is raw data.\<close>

fun read_item :: "'f Abstract_File \<Rightarrow> item \<Rightarrow> 'f File_Buffer \<Rightarrow> (item \<times> 'f File_Buffer) result" where
  "read_item F (Integer_Item x) b = bind_result (fb_compact_read F b) (\<lambda>(w :: 64 word, b'). Inr (Integer_Item (sint w), b'))"
| "read_item F (Reference_Item r) b = bind_result (read_reference F b) (\<lambda>(x, b'). Inr (Reference_Item x, b'))"
| "read_item F (Text_Item s) b = bind_result (read_string F b) (\<lambda>(x, b'). Inr (Text_Item x, b'))"
| "read_item F (Blob_Item x) b = bind_result (fb_read_blob F b) (\<lambda>(x, b'). Inr (Blob_Item x, b'))"
| "read_item F (Data_Item bs) b = bind_result (read_data F (length bs) b) (\<lambda>(x, b'). Inr (Data_Item x, b'))"

fun read_items :: "'f Abstract_File \<Rightarrow> item list \<Rightarrow> 'f File_Buffer \<Rightarrow> (item list \<times> 'f File_Buffer) result" where
  "read_items F [] b = Inr ([], b)"
| "read_items F (x # xs) b =
     bind_result (read_item F x b) (\<lambda>(y, b').
     bind_result (read_items F xs b') (\<lambda>(ys, b''). Inr (y # ys, b'')))"

lemma read_item_abs:
  "read_item F (Integer_Item y) = (\<lambda>b. bind_result (fb_compact_read F b) (\<lambda>(w :: 64 word, b'). Inr (Integer_Item (sint w), b')))"
  "read_item F (Reference_Item r) = (\<lambda>b. bind_result (read_reference F b) (\<lambda>(x, b'). Inr (Reference_Item x, b')))"
  "read_item F (Text_Item s) = (\<lambda>b. bind_result (read_string F b) (\<lambda>(x, b'). Inr (Text_Item x, b')))"
  "read_item F (Blob_Item z) = (\<lambda>b. bind_result (fb_read_blob F b) (\<lambda>(x, b'). Inr (Blob_Item x, b')))"
  "read_item F (Data_Item bs) = (\<lambda>b. bind_result (read_data F (length bs) b) (\<lambda>(x, b'). Inr (Data_Item x, b')))"
  by (simp_all add: fun_eq_iff)

text \<open>The values that a compact integer can hold.\<close>

definition fits61 :: "int \<Rightarrow> bool" where
  "fits61 x \<longleftrightarrow> 0 \<le> x \<and> x < 2 ^ 61"

fun item_fits :: "item \<Rightarrow> bool" where
  "item_fits (Integer_Item x) = fits61 x"
| "item_fits (Reference_Item r) = fits61 (r + 1)"
| "item_fits (Text_Item s) = fits61 (int (length s))"
| "item_fits (Blob_Item x) = (fits61 (blob_position x) \<and> fits61 (blob_size x))"
| "item_fits (Data_Item bs) = True"

fun item_bytes :: "item \<Rightarrow> byte list" where
  "item_bytes (Integer_Item x) = compact_bytes x"
| "item_bytes (Reference_Item r) = compact_bytes (r + 1)"
| "item_bytes (Text_Item s) = compact_bytes (int (length s)) @ bytes_of s"
| "item_bytes (Blob_Item x) = compact_bytes (blob_position x) @ compact_bytes (blob_size x)"
| "item_bytes (Data_Item bs) = bs"

lemma sint_fits: "fits61 x \<Longrightarrow> sint (word_of_int x :: 64 word) = x"
  by (simp add: fits61_def signed_of_int signed_take_bit_int_eq_self)

lemma unat_fits: "fits61 (int n) \<Longrightarrow> unat (word_of_int (int n) :: 64 word) = n"
  by (simp add: fits61_def unat_of_nat)

text \<open>What a write and a read of some bytes do.\<close>

context file_contract
begin

definition stores :: "('f File_Buffer \<Rightarrow> 'f File_Buffer result) \<Rightarrow> byte list \<Rightarrow> bool" where
  "stores wr bs \<longleftrightarrow> (\<forall>m b c p. writing F content m b c p \<longrightarrow>
     (\<exists>b'. wr b = Inr b' \<and> writing F content m b' (patch c p bs) (p + length bs)))"

definition loads :: "('f File_Buffer \<Rightarrow> ('a \<times> 'f File_Buffer) result) \<Rightarrow> byte list \<Rightarrow> 'a \<Rightarrow> bool" where
  "loads rd bs x \<longleftrightarrow> (\<forall>m b c p. reading F content m b c p \<longrightarrow> take (length bs) (drop p c) = bs \<longrightarrow> p + length bs \<le> length c \<longrightarrow>
     (\<exists>b'. rd b = Inr (x, b') \<and> reading F content m b' c (p + length bs)))"

lemma stores_bind:
  assumes "stores wr as" and "stores wr' bs"
  shows "stores (\<lambda>b. bind_result (wr b) wr') (as @ bs)"
  unfolding stores_def
proof (intro allI impI)
  fix m b c p
  assume b: "writing F content m b c p"
  obtain b1 where b1: "wr b = Inr b1" "writing F content m b1 (patch c p as) (p + length as)" using assms(1) b unfolding stores_def by blast
  obtain b2 where "wr' b1 = Inr b2" "writing F content m b2 (patch (patch c p as) (p + length as) bs) (p + length as + length bs)"
    using assms(2) b1(2) unfolding stores_def by blast
  with b1(1) show "\<exists>b'. bind_result (wr b) wr' = Inr b' \<and> writing F content m b' (patch c p (as @ bs)) (p + length (as @ bs))"
    using patch_patch [OF writing_bound [OF b], of as bs] by (auto simp: add.assoc)
qed

lemma loads_bind:
  assumes "loads rd as x" and "loads (rd' x) bs y"
  shows "loads (\<lambda>b. bind_result (rd b) (\<lambda>(x, b'). rd' x b')) (as @ bs) y"
  unfolding loads_def
proof (intro allI impI)
  fix m b c p
  assume b: "reading F content m b c p" "take (length (as @ bs)) (drop p c) = as @ bs" "p + length (as @ bs) \<le> length c"
  have split: "take (length as) (drop p c) = as" "take (length bs) (drop (p + length as) c) = bs"
    using b(2) take_add [of "length as" "length bs" "drop p c"] b(3) by (simp_all add: add.commute)
  have len: "p + length as \<le> length c" "p + length as + length bs \<le> length c" using b(3) by simp_all
  obtain b1 where b1: "rd b = Inr (x, b1)" "reading F content m b1 c (p + length as)"
    using assms(1) b(1) split(1) len(1) unfolding loads_def by blast
  obtain b2 where "rd' x b1 = Inr (y, b2)" "reading F content m b2 c (p + length as + length bs)"
    using assms(2) b1(2) split(2) len(2) unfolding loads_def by blast
  with b1(1) show "\<exists>b'. bind_result (rd b) (\<lambda>(x, b'). rd' x b') = Inr (y, b') \<and> reading F content m b' c (p + length (as @ bs))"
    by (auto simp: add.assoc)
qed

lemma loads_return: "loads (\<lambda>b. Inr (x, b)) [] x"
  by (simp add: loads_def)

lemma stores_compact: "0 \<le> x \<Longrightarrow> stores (fb_compact_write F x) (compact_bytes x)"
  unfolding stores_def using compact_write_law by blast

lemma loads_compact: "fits61 x \<Longrightarrow> loads (fb_compact_read F) (compact_bytes x) (word_of_int x :: 64 word)"
  unfolding loads_def fits61_def using compact_read_law by blast

lemma stores_data: "stores (write_data F bs) bs"
  unfolding stores_def using write_data_law by blast

lemma loads_data: "n = length bs \<Longrightarrow> loads (read_data F n) bs bs"
  unfolding loads_def using read_data_law by fastforce

lemma loads_then_return: "loads rd bs x \<Longrightarrow> loads (\<lambda>b. bind_result (rd b) (\<lambda>(x, b'). Inr (g x, b'))) bs (g x)"
  using loads_bind [of rd bs x "\<lambda>x b'. Inr (g x, b')" "[]" "g x"] loads_return [of "g x"] by simp

lemma stores_item: "item_fits x \<Longrightarrow> stores (write_item F x) (item_bytes x)"
proof (cases x)
  case (Text_Item s)
  then show ?thesis
    using stores_bind [OF stores_compact [of "int (length s)"] stores_data [of "bytes_of s"]] by (simp add: write_string_def [abs_def])
next
  case (Blob_Item y)
  moreover assume "item_fits x"
  ultimately show ?thesis
    using stores_bind [OF stores_compact [of "blob_position y"] stores_compact [of "blob_size y"]]
    by (simp add: fb_write_blob_def [abs_def] fits61_def)
qed (simp_all add: stores_compact stores_data fits61_def write_reference_def [abs_def])

lemma loads_item:
  assumes "item_fits x"
  shows "loads (read_item F x) (item_bytes x) x"
proof (cases x)
  case (Integer_Item y)
  then show ?thesis
    using assms loads_then_return [OF loads_compact [of y], of "\<lambda>w. Integer_Item (sint w)"] by (simp add: sint_fits read_item_abs)
next
  case (Reference_Item r)
  then have fits: "fits61 (r + 1)" using assms by simp
  have "loads (read_reference F) (compact_bytes (r + 1)) r"
    using loads_then_return [OF loads_compact [OF fits], of "\<lambda>w. sint w - 1", unfolded sint_fits [OF fits]]
    by (simp add: read_reference_def [abs_def])
  then show ?thesis using Reference_Item loads_then_return [of "read_reference F" _ r Reference_Item] by (simp add: read_item_abs)
next
  case (Text_Item s)
  let ?n = "word_of_int (int (length s)) :: 64 word"
  have fits: "fits61 (int (length s))" using assms Text_Item by simp
  have "loads (\<lambda>b. bind_result (read_data F (unat ?n) b) (\<lambda>(bs, b'). Inr (string_of bs, b'))) (bytes_of s) s"
    using loads_then_return [OF loads_data [of "unat ?n" "bytes_of s"], of string_of] unat_fits [OF fits] by simp
  with loads_bind [OF loads_compact [OF fits], of "\<lambda>w b. bind_result (read_data F (unat w) b) (\<lambda>(bs, b'). Inr (string_of bs, b'))" "bytes_of s" s]
  have "loads (read_string F) (compact_bytes (int (length s)) @ bytes_of s) s" by (simp add: read_string_def [abs_def])
  then show ?thesis using Text_Item loads_then_return [of "read_string F" _ s Text_Item] by (simp add: read_item_abs)
next
  case (Blob_Item y)
  then have fits: "fits61 (blob_position y)" "fits61 (blob_size y)" using assms by simp_all
  let ?p = "word_of_int (blob_position y) :: 64 word"
  have "loads (\<lambda>b. bind_result (fb_compact_read F b) (\<lambda>(n :: 64 word, b'). Inr (\<lparr>blob_position = sint ?p, blob_size = sint n\<rparr>, b')))
      (compact_bytes (blob_size y)) y"
    using loads_then_return [OF loads_compact [OF fits(2)], of "\<lambda>n. \<lparr>blob_position = sint ?p, blob_size = sint n\<rparr>"] fits
    by (cases y) (simp add: sint_fits)
  with loads_bind [OF loads_compact [OF fits(1)], of "\<lambda>p b. bind_result (fb_compact_read F b)
      (\<lambda>(n :: 64 word, b'). Inr (\<lparr>blob_position = sint p, blob_size = sint n\<rparr>, b'))" "compact_bytes (blob_size y)" y]
  have "loads (fb_read_blob F) (compact_bytes (blob_position y) @ compact_bytes (blob_size y)) y" by (simp add: fb_read_blob_def [abs_def])
  then show ?thesis using Blob_Item loads_then_return [of "fb_read_blob F" _ y Blob_Item] by (simp add: read_item_abs)
next
  case (Data_Item bs)
  then show ?thesis using loads_then_return [OF loads_data [of "length bs" bs], of Data_Item] by (simp add: read_item_abs)
qed

lemma stores_items: "list_all item_fits xs \<Longrightarrow> stores (fold_result (write_item F) xs) (concat (map item_bytes xs))"
proof (induction xs)
  case Nil
  then show ?case unfolding stores_def by (auto simp: patch_def)
next
  case (Cons x xs)
  then show ?case
    using stores_bind [OF stores_item [of x], of "fold_result (write_item F) xs" "concat (map item_bytes xs)"] by simp
qed

lemma loads_items: "list_all item_fits xs \<Longrightarrow> loads (read_items F xs) (concat (map item_bytes xs)) xs"
proof (induction xs)
  case Nil
  then show ?case using loads_return [of "[]"] by simp
next
  case (Cons x xs)
  have "loads (\<lambda>b. bind_result (read_items F xs b) (\<lambda>(ys, b'). Inr (x # ys, b'))) (concat (map item_bytes xs)) (x # xs)"
    using loads_then_return [of "read_items F xs" _ xs "\<lambda>ys. x # ys"] Cons by simp
  from loads_bind [OF loads_item [of x], of "\<lambda>y b. bind_result (read_items F xs b) (\<lambda>(ys, b'). Inr (y # ys, b'))", OF _ this] Cons.prems
  show ?case by simp
qed

lemma items_roundtrip:
  assumes "p \<le> length (content f)" and "list_all item_fits xs"
  obtains b0 b1 b2 b3 where "set_position F (int p) (file_buffer_new f) = Inr b0" and "fold_result (write_item F) xs b0 = Inr b1"
    and "set_position F (int p) b1 = Inr b2" and "content (fb_file b2) = patch (content f) p (concat (map item_bytes xs))"
    and "read_items F xs b2 = Inr (xs, b3)" and "fb_get_position b3 = int (p + length (concat (map item_bytes xs)))"
    and "fb_get_position b1 = int (p + length (concat (map item_bytes xs)))"
proof -
  let ?bs = "concat (map item_bytes xs)" and ?c = "patch (content f) p (concat (map item_bytes xs))"
  obtain b0 where b0: "set_position F (int p) (file_buffer_new f) = Inr b0" "reading F content (get_mode F f) b0 (content f) p"
    "buffer_index b0 = 0" "read_buffer_size b0 = 0"
    using set_position_reading [OF reading_new] by blast
  have "writing F content (get_mode F f) b0 (content f) p" by (rule reading_to_writing [OF b0(2-4) assms(1)])
  then obtain b1 where b1: "fold_result (write_item F) xs b0 = Inr b1" "writing F content (get_mode F f) b1 ?c (p + length ?bs)"
    using stores_items [OF assms(2)] unfolding stores_def by blast
  obtain b2 where b2: "set_position F (int p) b1 = Inr b2" "reading F content (get_mode F f) b2 ?c p"
    using set_position_writing [OF b1(2)] by blast
  have "take (length ?bs) (drop p ?c) = ?bs" "p + length ?bs \<le> length ?c"
    using drop_patch_same [OF assms(1)] assms(1) by (simp_all add: length_patch)
  then obtain b3 where b3: "read_items F xs b2 = Inr (xs, b3)" "reading F content (get_mode F f) b3 ?c (p + length ?bs)"
    using loads_items [OF assms(2)] b2(2) unfolding loads_def by blast
  have "content (fb_file b2) = ?c" using b2(2) by (simp add: reading_def)
  then show ?thesis using that b0(1) b1(1) b2(1) b3(1) reading_position [OF b3(2)] writing_position [OF b1(2)] by simp
qed

end

section \<open>Properties\<close>

text \<open>
  C18. What a file buffer writes is what it reads. A sequence of integers, references, strings, blobs
  and raw bytes of any length, written from any position inside of a file, is read back as it was written after
  the buffer has been moved to the same position, and reading stops where writing did. Moving the
  buffer flushes it: the bytes of the file before the position, and after what was written, have
  not changed.
\<close>

theorem buffer_roundtrip:
  assumes "p \<le> length (data f)" and "list_all item_fits xs" and "n = length (concat (map item_bytes xs))"
  shows "\<exists>b0 b1 b2 b3. set_position memory_file (int p) (file_buffer_new f) = Inr b0 \<and>
    fold_result (write_item memory_file) xs b0 = Inr b1 \<and> set_position memory_file (int p) b1 = Inr b2 \<and>
    read_items memory_file xs b2 = Inr (xs, b3) \<and> fb_get_position b3 = int (p + n) \<and> fb_get_position b1 = int (p + n) \<and>
    take p (data (fb_file b2)) = take p (data f) \<and> drop (p + n) (data (fb_file b2)) = drop (p + n) (data f)"
proof -
  obtain b0 b1 b2 b3 where b: "set_position memory_file (int p) (file_buffer_new f) = Inr b0"
    "fold_result (write_item memory_file) xs b0 = Inr b1" "set_position memory_file (int p) b1 = Inr b2"
    "data (fb_file b2) = patch (data f) p (concat (map item_bytes xs))" "read_items memory_file xs b2 = Inr (xs, b3)"
    "fb_get_position b3 = int (p + n)" "fb_get_position b1 = int (p + n)"
    unfolding assms(3) by (rule memory.items_roundtrip [OF assms(1,2)])
  then have "take p (data (fb_file b2)) = take p (data f)" "drop (p + n) (data (fb_file b2)) = drop (p + n) (data f)"
    using take_patch [OF le_refl assms(1)] drop_patch [OF assms(1), of "concat (map item_bytes xs)" "p + n"] assms(3) by simp_all
  with b show ?thesis by blast
qed

text \<open>More than the buffer holds, over the end of a file.\<close>

definition example_items :: "item list" where
  "example_items = [Integer_Item 0, Reference_Item (- 1), Text_Item ''joedb'', Data_Item (replicate 5000 7),
     Blob_Item \<lparr>blob_position = 8192, blob_size = 2 ^ 60\<rparr>, Integer_Item (2 ^ 61 - 1)]"

theorem buffer_roundtrip_witness:
  "\<exists>b0 b1 b2 b3. set_position memory_file 3 (file_buffer_new \<lparr>memory_mode = Write_Existing, data = [1, 2, 3, 4]\<rparr>) = Inr b0 \<and>
    fold_result (write_item memory_file) example_items b0 = Inr b1 \<and> set_position memory_file 3 b1 = Inr b2 \<and>
    read_items memory_file example_items b2 = Inr (example_items, b3) \<and> take 3 (data (fb_file b2)) = [1, 2, 3]"
proof -
  have "list_all item_fits example_items" by (simp add: example_items_def fits61_def)
  from buffer_roundtrip [of 3 "\<lparr>memory_mode = Write_Existing, data = [1, 2, 3, 4]\<rparr>", OF _ this refl] show ?thesis by auto
qed

end
