(* ===== verification/Text_IO.thy ===== *)
theory Text_IO
  imports File_Buffer
begin

unbundle bit_operations_syntax

text \<open>
  Model of \<open>src/src/joedb/ui/type_io.cpp\<close>, \<open>minimal_runtime_io.cpp\<close>, \<open>base64.cpp\<close> and
  \<open>base64_decode.cpp\<close>: strings as text, for dumps, the interpreter, SQL and JSON.

  A stream to read from is the rest of its characters with the two bits that matter; writing to a stream
  returns the characters written. Characters are bytes; what the code does with a negative \<open>char\<close> is
  the same as with the byte.
\<close>

section \<open>Streams\<close>

record Istream =
  in_chars :: "byte list"
  in_eof :: bool
  in_fail :: bool

definition stream_get :: "Istream \<Rightarrow> byte option \<times> Istream" where
  "stream_get s =
     (if in_eof s \<or> in_fail s then (None, s\<lparr>in_fail := True\<rparr>)
      else case in_chars s of
        [] \<Rightarrow> (None, s\<lparr>in_eof := True, in_fail := True\<rparr>)
      | c # cs \<Rightarrow> (Some c, s\<lparr>in_chars := cs\<rparr>))"

lemma stream_get_length: "stream_get s = (Some c, s') \<Longrightarrow> length (in_chars s') < length (in_chars s)"
  by (auto simp: stream_get_def split: list.splits if_splits)

abbreviation stream :: "byte list \<Rightarrow> Istream" where
  "stream cs \<equiv> \<lparr>in_chars = cs, in_eof = False, in_fail = False\<rparr>"

section \<open>Hexadecimal and octal characters\<close>

definition get_hex_char_from_digit :: "byte \<Rightarrow> byte" where
  "get_hex_char_from_digit n = (let d = n AND 0x0f in if d < 10 then 48 + d else 97 + d - 10)"

definition get_hex_digit_from_char :: "byte \<Rightarrow> byte" where
  "get_hex_digit_from_char c = (if 48 \<le> c \<and> c \<le> 57 then c - 48 else if 97 \<le> c \<and> c \<le> 102 then 10 + c - 97 else 0)"

definition write_hexa_character :: "byte \<Rightarrow> byte list" where
  "write_hexa_character c = [92, 120, get_hex_char_from_digit (drop_bit 4 c), get_hex_char_from_digit (c AND 0x0f)]"

definition write_octal_character :: "byte \<Rightarrow> byte list" where
  "write_octal_character c = [92, 48 + (drop_bit 6 c AND 7), 48 + (drop_bit 3 c AND 7), 48 + (c AND 7)]"

definition octal_or_json :: "byte \<Rightarrow> bool \<Rightarrow> byte list result" where
  "octal_or_json c json =
     (if json then Inl (Exception ''json can't handle non-utf8 strings'') else Inr (write_octal_character c))"

definition write_sql_string :: "byte list \<Rightarrow> byte list" where
  "write_sql_string s =
     [88, 39] @ concat (map (\<lambda>c. [get_hex_char_from_digit (drop_bit 4 c), get_hex_char_from_digit (c AND 0x0f)]) s) @ [39]"

section \<open>Writing a string\<close>

definition continuation :: "byte \<Rightarrow> bool" where
  "continuation c \<longleftrightarrow> c AND 0xc0 = 0x80"

text \<open>How many of the next characters \<open>write_string\<close> copies after \<open>c\<close>, as parts of a UTF-8 character.\<close>

definition utf8_tail :: "byte \<Rightarrow> byte list \<Rightarrow> nat" where
  "utf8_tail c cs =
     (if 0xc2 \<le> c \<and> c \<le> 0xdf \<and> 1 \<le> length cs \<and> continuation (cs ! 0) then 1
      else if c AND 0xf0 = 0xe0 \<and> 2 \<le> length cs \<and> (c \<noteq> 0xe0 \<or> cs ! 0 \<ge> 0xa0) \<and> (c \<noteq> 0xed \<or> cs ! 0 < 0xa0) \<and>
        continuation (cs ! 0) \<and> continuation (cs ! 1) then 2
      else if 0xf0 \<le> c \<and> c \<le> 0xf4 \<and> 3 \<le> length cs \<and> (c \<noteq> 0xf0 \<or> cs ! 0 \<ge> 0x90) \<and> (c \<noteq> 0xf4 \<or> cs ! 0 < 0x90) \<and>
        continuation (cs ! 0) \<and> continuation (cs ! 1) \<and> continuation (cs ! 2) then 3
      else 0)"

text \<open>The loop of \<open>write_string\<close>; \<open>prev\<close> is the character before the next one, if any.\<close>

function write_chars :: "bool \<Rightarrow> byte option \<Rightarrow> byte list \<Rightarrow> byte list result" where
  "write_chars json prev [] = Inr []"
| "write_chars json prev (c # cs) =
     (if c < 0x20 \<or> c = 0x7f then
        bind_result (write_chars json (Some c) cs) (\<lambda>out.
        Inr ((if json then [92, 117, 48, 48, get_hex_char_from_digit (drop_bit 4 c), get_hex_char_from_digit (c AND 0x0f)]
              else write_octal_character c) @ out))
      else if c = 63 \<and> prev = Some 63 \<and> \<not> json then bind_result (write_chars json (Some c) cs) (\<lambda>out. Inr ([92, 63] @ out))
      else if c = 34 then bind_result (write_chars json (Some c) cs) (\<lambda>out. Inr ([92, 34] @ out))
      else if c = 92 then bind_result (write_chars json (Some c) cs) (\<lambda>out. Inr ([92, 92] @ out))
      else if utf8_tail c cs > 0 then
        bind_result (write_chars json (Some (last (take (utf8_tail c cs) cs))) (drop (utf8_tail c cs) cs)) (\<lambda>out.
        Inr (c # take (utf8_tail c cs) cs @ out))
      else if c AND 0x80 \<noteq> 0 then
        bind_result (octal_or_json c json) (\<lambda>x. bind_result (write_chars json (Some c) cs) (\<lambda>out. Inr (x @ out)))
      else bind_result (write_chars json (Some c) cs) (\<lambda>out. Inr (c # out)))"
  by pat_completeness auto
termination
  by (relation "measure (\<lambda>(json, prev, cs). length cs)") auto

declare write_chars.simps(2) [simp del]

definition write_text :: "byte list \<Rightarrow> bool \<Rightarrow> byte list result" where
  "write_text s json = bind_result (write_chars json None s) (\<lambda>out. Inr ([34] @ out @ [34]))"

section \<open>Reading a string\<close>

text \<open>What follows a backslash: the character that it stands for, unless the stream ends.\<close>

definition read_escape :: "Istream \<Rightarrow> byte option \<times> Istream" where
  "read_escape s =
     (case stream_get s of
        (None, s1) \<Rightarrow> (None, s1)
      | (Some c, s1) \<Rightarrow>
          if c = 120 then
            (case stream_get s1 of
               (None, s2) \<Rightarrow> (None, snd (stream_get s2))
             | (Some c1, s2) \<Rightarrow>
                 (case stream_get s2 of
                    (None, s3) \<Rightarrow> (None, s3)
                  | (Some c0, s3) \<Rightarrow> (Some (push_bit 4 (get_hex_digit_from_char c1) OR get_hex_digit_from_char c0), s3)))
          else if 48 \<le> c \<and> c \<le> 57 then
            (case stream_get s1 of
               (None, s2) \<Rightarrow> (None, snd (stream_get s2))
             | (Some c1, s2) \<Rightarrow>
                 (case stream_get s2 of
                    (None, s3) \<Rightarrow> (None, s3)
                  | (Some c0, s3) \<Rightarrow> (Some (push_bit 6 (c - 48) OR push_bit 3 (c1 - 48) OR (c0 - 48)), s3)))
          else (Some c, s1))"

lemma read_escape_length: "read_escape s = (Some c, s') \<Longrightarrow> length (in_chars s') < length (in_chars s)"
  by (auto simp: read_escape_def split: option.splits prod.splits if_splits dest!: stream_get_length)

text \<open>The second loop; \<open>c\<close> is the current character and \<open>acc\<close> the result so far.\<close>

function read_loop :: "bool \<Rightarrow> byte \<Rightarrow> byte list \<Rightarrow> Istream \<Rightarrow> byte list \<times> Istream" where
  "read_loop quoted c acc s =
     (if (quoted \<and> c \<noteq> 34) \<or> (\<not> quoted \<and> c \<noteq> 32) then
        (case (if c = 92 then read_escape s else (Some c, s)) of
           (None, s1) \<Rightarrow> (acc, s1)
         | (Some x, s1) \<Rightarrow>
             (case stream_get s1 of
                (None, s2) \<Rightarrow> (acc @ [x], if \<not> quoted \<and> in_eof s2 then s2\<lparr>in_fail := False\<rparr> else s2)
              | (Some c', s2) \<Rightarrow> read_loop quoted c' (acc @ [x]) s2))
      else (acc, s))"
  by pat_completeness auto
termination
  by (relation "measure (\<lambda>(quoted, c, acc, s). length (in_chars s))")
    (auto dest!: stream_get_length [OF sym] read_escape_length [OF sym] split: if_splits)

declare read_loop.simps [simp del]

text \<open>The first loop skips spaces.\<close>

function skip_spaces :: "Istream \<Rightarrow> byte option \<times> Istream" where
  "skip_spaces s =
     (case stream_get s of
        (None, s1) \<Rightarrow> (None, s1)
      | (Some c, s1) \<Rightarrow> if c \<noteq> 32 then (Some c, s1) else skip_spaces s1)"
  by pat_completeness auto
termination
  by (relation "measure (\<lambda>s. length (in_chars s))") (auto dest!: stream_get_length [OF sym])

declare skip_spaces.simps [simp del]

definition read_text :: "Istream \<Rightarrow> byte list \<times> Istream" where
  "read_text s =
     (case skip_spaces s of
        (None, s1) \<Rightarrow> ([], s1)
      | (Some c, s1) \<Rightarrow>
          if c = 34 then
            (case stream_get s1 of (None, s2) \<Rightarrow> ([], s2) | (Some c', s2) \<Rightarrow> read_loop True c' [] s2)
          else read_loop False c [] s1)"

section \<open>Base64\<close>

definition base64_codes :: "byte list" where
  "base64_codes = bytes_of ''ABCDEFGHIJKLMNOPQRSTUVWXYZabcdefghijklmnopqrstuvwxyz0123456789+/''"

definition base64_decoding :: "byte list" where
  "base64_decoding =
     replicate 43 0 @ [62] @ replicate 3 0 @ [63] @ map word_of_nat [52..<62] @ replicate 7 0 @ map word_of_nat [0..<26] @
     replicate 6 0 @ map word_of_nat [26..<52] @ replicate 133 0"

definition base64_code :: "32 word \<Rightarrow> byte" where
  "base64_code w = base64_codes ! unat w"

text \<open>The loop over groups of three bytes, and the two cases of the remainder.\<close>

fun base64_encode :: "byte list \<Rightarrow> byte list" where
  "base64_encode (a # b # c # s) =
     (let w = push_bit 16 (ucast a) OR push_bit 8 (ucast b) OR ucast c
      in [base64_code (drop_bit 18 w), base64_code (drop_bit 12 w AND 0x3f), base64_code (drop_bit 6 w AND 0x3f), base64_code (w AND 0x3f)]
         @ base64_encode s)"
| "base64_encode [a, b] =
     (let w = push_bit 10 (ucast a) OR push_bit 2 (ucast b)
      in [base64_code (drop_bit 12 w), base64_code (drop_bit 6 w AND 0x3f), base64_code (w AND 0x3f), 61])"
| "base64_encode [a] = (let w = push_bit 4 (ucast a) in [base64_code (drop_bit 6 w), base64_code (w AND 0x3f), 61, 61])"
| "base64_encode [] = []"

definition base64_value :: "byte \<Rightarrow> 32 word" where
  "base64_value c = ucast (base64_decoding ! unat c)"

definition decode_four :: "byte list \<Rightarrow> nat \<Rightarrow> byte list" where
  "decode_four s i =
     (let w = push_bit 18 (base64_value (s ! (4 * i))) OR push_bit 12 (base64_value (s ! (4 * i + 1))) OR
              push_bit 6 (base64_value (s ! (4 * i + 2))) OR base64_value (s ! (4 * i + 3))
      in [ucast (drop_bit 16 w), ucast (drop_bit 8 w), ucast w])"

text \<open>How many groups are complete, and how many bytes the last one stands for.\<close>

definition base64_shape :: "byte list \<Rightarrow> nat \<times> nat" where
  "base64_shape s =
     (let n = length s div 4 in
      if 0 < n \<and> s ! (length s - 1) = 61 then (n - 1, if s ! (length s - 2) = 61 then 1 else 2) else (n, 0))"

definition decode_rest :: "byte list \<Rightarrow> nat \<Rightarrow> nat \<Rightarrow> byte list" where
  "decode_rest s n r =
     (if r = 2 then
        let w = push_bit 12 (base64_value (s ! (4 * n))) OR push_bit 6 (base64_value (s ! (4 * n + 1))) OR base64_value (s ! (4 * n + 2))
        in [ucast (drop_bit 10 w), ucast (drop_bit 2 w)]
      else if r = 1 then
        let w = push_bit 6 (base64_value (s ! (4 * n))) OR base64_value (s ! (4 * n + 1)) in [ucast (drop_bit 4 w)]
      else [])"

definition base64_decode :: "byte list \<Rightarrow> byte list" where
  "base64_decode s = (case base64_shape s of (n, r) \<Rightarrow> concat (map (decode_four s) [0..<n]) @ decode_rest s n r)"

section \<open>UTF-8 characters and their width\<close>

definition read_utf8_char :: "nat \<Rightarrow> byte list \<Rightarrow> 32 word \<times> nat" where
  "read_utf8_char i s =
     (let p = (\<lambda>k. ucast (s ! (i + k)) :: 32 word) in
      if s ! i AND 0xe0 = 0xc0 \<and> i + 1 < length s then (push_bit 6 (p 0) + p 1 - 0x3080, i + 2)
      else if s ! i AND 0xf0 = 0xe0 \<and> i + 2 < length s then (push_bit 12 (p 0) + push_bit 6 (p 1) + p 2 - 0xe2080, i + 3)
      else if s ! i AND 0xf8 = 0xf0 \<and> i + 3 < length s
      then (push_bit 18 (p 0) + push_bit 12 (p 1) + push_bit 6 (p 2) + p 3 - 0x3c82080, i + 4)
      else (p 0, i + 1))"

lemma read_utf8_char_next: "(c, i') = read_utf8_char i s \<Longrightarrow> i < i'"
  by (auto simp: read_utf8_char_def Let_def split: if_splits)

text \<open>
  The width of a character on a terminal is a table of a third party: a parameter, negative for a
  character that is not displayed.
\<close>

function display_size_from :: "(32 word \<Rightarrow> int) \<Rightarrow> byte list \<Rightarrow> nat \<Rightarrow> nat" where
  "display_size_from width s i =
     (if i < length s then
        (case read_utf8_char i s of (c, i') \<Rightarrow> (if width c > 0 then nat (width c) else 0) + display_size_from width s i')
      else 0)"
  by pat_completeness auto
termination
  by (relation "measure (\<lambda>(width, s, i). length s - i)") (auto dest!: read_utf8_char_next)

declare display_size_from.simps [simp del]

definition utf8_display_size :: "(32 word \<Rightarrow> int) \<Rightarrow> byte list \<Rightarrow> nat" where
  "utf8_display_size width s = display_size_from width s 0"

text \<open>
  The loop of \<open>write_justified\<close> returns the length and the characters displayed. A negative width, cast to
  \<open>size_t\<close>, is a huge number. The ellipsis is three bytes.
\<close>

function justify_loop :: "(32 word \<Rightarrow> int) \<Rightarrow> byte list \<Rightarrow> 64 word \<Rightarrow> nat \<Rightarrow> 64 word \<Rightarrow> byte list \<Rightarrow> 64 word \<times> byte list" where
  "justify_loop width s w i len out =
     (if i < length s then
        (case read_utf8_char i s of (c, i') \<Rightarrow>
          let k = word_of_int (width c) :: 64 word in
          if len + k < w \<or> (len + k = w \<and> i' \<ge> length s)
          then justify_loop width s w i' (len + k) (out @ take (i' - i) (drop i s))
          else (len + 1, out @ [0xe2, 0x80, 0xa6]))
      else (len, out))"
  by pat_completeness auto
termination
  by (relation "measure (\<lambda>(width, s, w, i, len, out). length s - i)") (auto dest!: read_utf8_char_next)

declare justify_loop.simps [simp del]

definition write_justified :: "(32 word \<Rightarrow> int) \<Rightarrow> byte list \<Rightarrow> 64 word \<Rightarrow> bool \<Rightarrow> byte list" where
  "write_justified width s w flush_left =
     (case justify_loop width s w 0 0 [] of (len, out) \<Rightarrow>
      let pad = replicate (unat w - unat len) 32
      in if flush_left then out @ pad else pad @ out)"

end
