(* ===== verification/Text_Properties.thy ===== *)
theory Text_Properties
  imports Text_IO
begin

unbundle bit_operations_syntax

text \<open>
  What is written as text is read back: escaped strings and base64.
\<close>

section \<open>Base64\<close>

lemma bytes_64 [simp]: "length base64_codes = 64" "length base64_decoding = 256"
  by (simp_all add: base64_codes_def base64_decoding_def bytes_of_def)

text \<open>The decoding table inverts the codes, none of which is the padding character.\<close>

lemma codes_ranges: "base64_codes = map word_of_nat ([65..<91] @ [97..<123] @ [48..<58] @ [43, 47])"
  by code_simp

lemma decoding_nth:
  "i < 26 \<Longrightarrow> base64_decoding ! (65 + i) = word_of_nat i" "i < 26 \<Longrightarrow> base64_decoding ! (97 + i) = word_of_nat (26 + i)"
  "i < 10 \<Longrightarrow> base64_decoding ! (48 + i) = word_of_nat (52 + i)" "base64_decoding ! 43 = 62" "base64_decoding ! 47 = 63"
  by (simp_all add: base64_decoding_def nth_append nth_Cons' del: upt_rec_numeral)

lemma decoding_table:
  assumes "i < 64"
  shows "base64_decoding ! unat (base64_codes ! i) = word_of_nat i" and "base64_codes ! i \<noteq> 61"
proof -
  consider "i < 26" | "26 \<le> i" "i < 52" | "52 \<le> i" "i < 62" | "i = 62" | "i = 63" using assms by linarith
  then obtain k where k: "base64_codes ! i = word_of_nat k" "k < 256" "base64_decoding ! k = word_of_nat i" "k \<noteq> 61"
  proof cases
    case 1
    then show ?thesis using that [of "65 + i"] decoding_nth(1) [of i] by (simp add: codes_ranges nth_append del: upt_rec_numeral)
  next
    case 2
    then obtain j where "i = 26 + j" "j < 26" using le_Suc_ex [of 26 i] by auto
    then show ?thesis using that [of "97 + j"] decoding_nth(2) [of j] by (simp add: codes_ranges nth_append del: upt_rec_numeral)
  next
    case 3
    then obtain j where "i = 52 + j" "j < 10" using le_Suc_ex [of 52 i] by auto
    then show ?thesis using that [of "48 + j"] decoding_nth(3) [of j] by (simp add: codes_ranges nth_append del: upt_rec_numeral)
  next
    case 4
    then show ?thesis using that [of 43] decoding_nth(4) by (simp add: codes_ranges nth_append del: upt_rec_numeral)
  next
    case 5
    then show ?thesis using that [of 47] decoding_nth(5) by (simp add: codes_ranges nth_append del: upt_rec_numeral)
  qed
  then have u: "unat (base64_codes ! i) = k" by (simp add: unat_of_nat)
  with k show "base64_decoding ! unat (base64_codes ! i) = word_of_nat i" by simp
  show "base64_codes ! i \<noteq> 61" using u k(4) by auto
qed

lemma value_code:
  assumes "w < 64"
  shows "base64_value (base64_code w) = w" and "base64_code w \<noteq> 61"
proof -
  have i: "unat w < 64" using assms by (simp add: word_less_nat_alt)
  then have *: "base64_decoding ! unat (base64_codes ! unat w) = word_of_nat (unat w)" "base64_codes ! unat w \<noteq> 61"
    using decoding_table [OF i] by simp_all
  have "unat (word_of_nat (unat w) :: byte) = unat w" using i by (simp add: unsigned_ucast_eq take_bit_nat_eq_self)
  then have "(ucast (word_of_nat (unat w) :: byte) :: 32 word) = w" using i by (simp add: word_unat_eq_iff unsigned_ucast_eq unsigned_take_bit_eq take_bit_nat_eq_self)
  with * show "base64_value (base64_code w) = w" "base64_code w \<noteq> 61" by (simp_all add: base64_value_def base64_code_def)
qed

lemma mask_6: "w AND 0x3f < (64 :: 32 word)"
  using and_mask_less' [of 6 w] by (simp add: mask_eq_exp_minus_1)

lemma value_code_mask [simp]: "base64_value (base64_code (w AND 0x3f)) = w AND 0x3f" "base64_code (w AND 0x3f) \<noteq> 61"
  using value_code [OF mask_6] by simp_all

text \<open>The bits of three bytes, in groups of six.\<close>

lemma mask_bits: "(0x3f :: 32 word) = mask 6"
  by (simp add: mask_eq_exp_minus_1)

lemma below_64: "(\<And>n. 6 \<le> n \<Longrightarrow> \<not> bit w n) \<Longrightarrow> w < 64" for w :: "32 word"
proof -
  assume *: "\<And>n. 6 \<le> n \<Longrightarrow> \<not> bit w n"
  then have "bit w n \<longrightarrow> n < 6" for n by (meson not_le)
  then have "w = w AND 0x3f" by (intro bit_word_eqI) (auto simp: mask_bits bit_simps)
  then show "w < 64" using mask_6 [of w] by simp
qed

lemma byte_bit: "bit (b :: byte) n \<Longrightarrow> n < 8"
  using bit_imp_le_length [of b n] by simp

lemma three_bytes:
  fixes a b c :: byte
  assumes "w = (push_bit 16 (ucast a) OR push_bit 8 (ucast b) OR ucast c :: 32 word)"
  shows "drop_bit 18 w < 64"
    and "push_bit 18 (drop_bit 18 w) OR push_bit 12 (drop_bit 12 w AND 0x3f) OR push_bit 6 (drop_bit 6 w AND 0x3f) OR (w AND 0x3f) = w"
    and "ucast (drop_bit 16 w) = a" and "ucast (drop_bit 8 w) = b" and "ucast w = c"
proof -
  show "drop_bit 18 w < 64" by (rule below_64) (auto simp: assms bit_simps dest: byte_bit)
  show "push_bit 18 (drop_bit 18 w) OR push_bit 12 (drop_bit 12 w AND 0x3f) OR push_bit 6 (drop_bit 6 w AND 0x3f) OR (w AND 0x3f) = w"
  proof (rule bit_word_eqI)
    fix n :: nat
    consider "n < 6" | "6 \<le> n" "n < 12" | "12 \<le> n" "n < 18" | "18 \<le> n" by linarith
    then show "bit (push_bit 18 (drop_bit 18 w) OR push_bit 12 (drop_bit 12 w AND 0x3f) OR push_bit 6 (drop_bit 6 w AND 0x3f) OR (w AND 0x3f)) n
        \<longleftrightarrow> bit w n"
      by cases (auto simp: mask_bits bit_simps dest: bit_imp_le_length)
  qed
  show "ucast (drop_bit 16 w) = a" "ucast (drop_bit 8 w) = b" "ucast w = c"
    by (rule bit_word_eqI; auto simp: assms bit_simps dest: byte_bit)+
qed

lemma two_bytes:
  fixes a b :: byte
  assumes "w = (push_bit 10 (ucast a) OR push_bit 2 (ucast b) :: 32 word)"
  shows "drop_bit 12 w < 64" and "push_bit 12 (drop_bit 12 w) OR push_bit 6 (drop_bit 6 w AND 0x3f) OR (w AND 0x3f) = w"
    and "ucast (drop_bit 10 w) = a" and "ucast (drop_bit 2 w) = b"
proof -
  show "drop_bit 12 w < 64" by (rule below_64) (auto simp: assms bit_simps dest: byte_bit)
  show "push_bit 12 (drop_bit 12 w) OR push_bit 6 (drop_bit 6 w AND 0x3f) OR (w AND 0x3f) = w"
  proof (rule bit_word_eqI)
    fix n :: nat
    consider "n < 6" | "6 \<le> n" "n < 12" | "12 \<le> n" by linarith
    then show "bit (push_bit 12 (drop_bit 12 w) OR push_bit 6 (drop_bit 6 w AND 0x3f) OR (w AND 0x3f)) n \<longleftrightarrow> bit w n"
      by cases (auto simp: mask_bits bit_simps dest: bit_imp_le_length)
  qed
  show "ucast (drop_bit 10 w) = a" "ucast (drop_bit 2 w) = b"
    by (rule bit_word_eqI; auto simp: assms bit_simps dest: byte_bit)+
qed

lemma one_byte_group:
  fixes a :: byte
  assumes "w = (push_bit 4 (ucast a) :: 32 word)"
  shows "drop_bit 6 w < 64" and "push_bit 6 (drop_bit 6 w) OR (w AND 0x3f) = w" and "ucast (drop_bit 4 w) = a"
proof -
  show "drop_bit 6 w < 64" by (rule below_64) (auto simp: assms bit_simps dest: byte_bit)
  show "push_bit 6 (drop_bit 6 w) OR (w AND 0x3f) = w" by (rule bit_word_eqI) (auto simp: mask_bits bit_simps)
  show "ucast (drop_bit 4 w) = a" by (rule bit_word_eqI; auto simp: assms bit_simps dest: byte_bit)
qed

lemma encode_length: "length (base64_encode s) = 4 * ((length s + 2) div 3)"
proof (induction s rule: base64_encode.induct)
  case (1 a b c s)
  have "(length (a # b # c # s) + 2) div 3 = Suc ((length s + 2) div 3)" by simp
  then show ?case using 1 by (simp add: Let_def)
qed (simp_all add: Let_def)

text \<open>A complete group in front is decoded on its own.\<close>

lemma decode_four_shift: "length g = 4 \<Longrightarrow> decode_four (g @ s) (Suc i) = decode_four s i"
  by (simp add: decode_four_def nth_append add.commute)

lemma decode_rest_shift: "length g = 4 \<Longrightarrow> decode_rest (g @ s) (Suc n) r = decode_rest s n r"
  by (simp add: decode_rest_def nth_append)

lemma decode_group:
  assumes "length g = 4" and "length s = 4 * k" and "s = [] \<Longrightarrow> g ! 3 \<noteq> 61"
  shows "base64_decode (g @ s) = decode_four g 0 @ base64_decode s"
proof -
  obtain n r where shape: "base64_shape s = (n, r)" by (cases "base64_shape s")
  have "base64_shape (g @ s) = (Suc n, r)"
  proof (cases "s = []")
    case True
    then show ?thesis using assms(1,3) shape by (auto simp: base64_shape_def)
  next
    case False
    then have "4 \<le> length s" using assms(2) by (cases k) auto
    then show ?thesis using assms(1,2) shape by (auto simp: base64_shape_def Let_def nth_append split: if_splits)
  qed
  moreover have "decode_four (g @ s) 0 = decode_four g 0" using assms(1) by (simp add: decode_four_def nth_append)
  moreover have "map (decode_four (g @ s)) [0..<Suc n] = decode_four (g @ s) 0 # map (decode_four s) [0..<n]"
    using decode_four_shift [OF assms(1), of s] by (simp add: upt_conv_Cons map_Suc_upt [symmetric] del: upt_Suc)
  ultimately show ?thesis using shape decode_rest_shift [OF assms(1), of s n r] by (simp add: base64_decode_def del: upt_Suc)
qed

lemma base64_roundtrip: "base64_decode (base64_encode s) = s"
proof (induction s rule: base64_encode.induct)
  case (1 a b c s)
  define w :: "32 word" where "w = push_bit 16 (ucast a) OR push_bit 8 (ucast b) OR ucast c"
  note w = three_bytes [OF w_def]
  let ?g = "[base64_code (drop_bit 18 w), base64_code (drop_bit 12 w AND 0x3f), base64_code (drop_bit 6 w AND 0x3f), base64_code (w AND 0x3f)]"
  have "decode_four ?g 0 = [a, b, c]" using w value_code [OF w(1)] by (simp add: decode_four_def)
  moreover have "base64_encode (a # b # c # s) = ?g @ base64_encode s" by (simp add: w_def)
  ultimately show ?case using decode_group [of ?g "base64_encode s", OF _ encode_length] 1 by simp
next
  case (2 a b)
  define w :: "32 word" where "w = push_bit 10 (ucast a) OR push_bit 2 (ucast b)"
  note w = two_bytes [OF w_def]
  have "base64_encode [a, b] = [base64_code (drop_bit 12 w), base64_code (drop_bit 6 w AND 0x3f), base64_code (w AND 0x3f), 61]"
    by (simp add: w_def)
  then show ?case using w value_code [OF w(1)] by (simp add: base64_decode_def base64_shape_def decode_rest_def)
next
  case (3 a)
  define w :: "32 word" where "w = push_bit 4 (ucast a)"
  note w = one_byte_group [OF w_def]
  have "base64_encode [a] = [base64_code (drop_bit 6 w), base64_code (w AND 0x3f), 61, 61]" by (simp add: w_def Let_def)
  then show ?case using w value_code [OF w(1)] by (simp add: base64_decode_def base64_shape_def decode_rest_def)
next
  case 4
  then show ?case by (simp add: base64_decode_def base64_shape_def decode_rest_def)
qed

section \<open>Strings\<close>

definition read_from :: "byte list \<Rightarrow> byte list \<Rightarrow> byte list \<times> Istream" where
  "read_from acc cs = (case stream_get (stream cs) of (None, s) \<Rightarrow> (acc, s) | (Some c, s) \<Rightarrow> read_loop True c acc s)"

lemma stream_get_Cons [simp]: "stream_get (stream (c # cs)) = (Some c, stream cs)"
  by (simp add: stream_get_def)

lemma read_from_plain:
  assumes "c \<noteq> 34" and "c \<noteq> 92" and "cs \<noteq> []"
  shows "read_from acc (c # cs) = read_from (acc @ [c]) cs"
  using assms by (cases cs) (simp_all add: read_from_def read_loop.simps [of True c])

lemma read_from_plains: "list_all (\<lambda>c. c \<noteq> 34 \<and> c \<noteq> 92) xs \<Longrightarrow> cs \<noteq> [] \<Longrightarrow> read_from acc (xs @ cs) = read_from (acc @ xs) cs"
  by (induction xs arbitrary: acc) (simp_all add: read_from_plain)

lemma read_from_escape:
  assumes "read_escape (stream cs) = (Some x, stream ds)" and "ds \<noteq> []"
  shows "read_from acc (92 # cs) = read_from (acc @ [x]) ds"
  using assms by (cases ds) (simp_all add: read_from_def read_loop.simps [of True 92])

lemma read_from_quote: "read_from acc (34 # cs) = (acc, stream cs)"
  by (simp add: read_from_def read_loop.simps)

text \<open>Octal characters\<close>

lemma octal_digit:
  fixes x :: byte
  shows "48 + (x AND 7) \<noteq> 120" and "48 \<le> 48 + (x AND 7)" and "48 + (x AND 7) \<le> 57" and "48 + (x AND 7) \<noteq> 10"
proof -
  have "x AND 7 < 8" using and_mask_less' [of 3 x] by (simp add: mask_eq_exp_minus_1)
  then have "unat (x AND 7) < 8" by (simp add: word_less_nat_alt)
  then have "unat (x AND 7) \<in> {0, 1, 2, 3, 4, 5, 6, 7}" by auto
  then have "x AND 7 \<in> {0, 1, 2, 3, 4, 5, 6, 7}" by (auto simp: word_unat_eq_iff)
  then show "48 + (x AND 7) \<noteq> 120" "48 \<le> 48 + (x AND 7)" "48 + (x AND 7) \<le> 57" "48 + (x AND 7) \<noteq> 10" by auto
qed

lemma octal_digits: "push_bit 6 (drop_bit 6 c AND 7) OR push_bit 3 (drop_bit 3 c AND 7) OR (c AND 7) = c" for c :: byte
proof (rule bit_word_eqI)
  fix n :: nat
  have m: "(7 :: byte) = mask 3" by (simp add: mask_eq_exp_minus_1)
  consider "n < 3" | "3 \<le> n" "n < 6" | "6 \<le> n" by linarith
  then show "bit (push_bit 6 (drop_bit 6 c AND 7) OR push_bit 3 (drop_bit 3 c AND 7) OR (c AND 7)) n \<longleftrightarrow> bit c n"
    by cases (auto simp: m bit_simps dest: bit_imp_le_length)
qed

lemma read_octal: "read_escape (stream (tl (write_octal_character c) @ cs)) = (Some c, stream cs)"
  using octal_digit [of "drop_bit 6 c"] octal_digits [of c] by (simp add: read_escape_def write_octal_character_def)

lemma utf8_tail_continuation: "k = utf8_tail c cs \<Longrightarrow> k \<le> length cs \<and> list_all continuation (take k cs)"
  by (auto simp: utf8_tail_def list_all_length less_Suc_eq numeral_2_eq_2 numeral_3_eq_3 split: if_splits)

lemma continuation_plain: "continuation c \<Longrightarrow> c \<noteq> 34 \<and> c \<noteq> 92"
  by (auto simp: continuation_def)

lemma read_from_octal: "ds \<noteq> [] \<Longrightarrow> read_from acc (write_octal_character c @ ds) = read_from (acc @ [c]) ds"
  using read_from_escape [OF read_octal [of c ds]] by (simp add: write_octal_character_def)

lemma read_from_backslash: "c \<in> {63, 34, 92} \<Longrightarrow> ds \<noteq> [] \<Longrightarrow> read_from acc ([92, c] @ ds) = read_from (acc @ [c]) ds"
  using read_from_escape [of "c # ds" c ds acc] by (auto simp: read_escape_def)

lemma octal_no_newline: "10 \<notin> set (write_octal_character c)"
  using octal_digit(4) [of "drop_bit 6 c"] octal_digit(4) [of "drop_bit 3 c"] octal_digit(4) [of c]
  by (auto simp: write_octal_character_def)

lemma continuation_no_newline: "continuation c \<Longrightarrow> c \<noteq> 10"
  by (auto simp: continuation_def)

text \<open>One turn of the loop writes the characters \<open>x\<close> for the characters \<open>y\<close>, and \<open>x\<close> reads as \<open>y\<close>.\<close>

lemma write_step:
  obtains x y prev' cs' where "write_chars False prev (c # cs) = bind_result (write_chars False prev' cs') (\<lambda>out. Inr (x @ out))"
    and "c # cs = y @ cs'" and "length cs' \<le> length cs" and "\<And>acc ds. ds \<noteq> [] \<Longrightarrow> read_from acc (x @ ds) = read_from (acc @ y) ds"
    and "10 \<notin> set x"
proof -
  let ?k = "utf8_tail c cs"
  consider (control) "c < 0x20 \<or> c = 0x7f"
    | (trigraph) "\<not> (c < 0x20 \<or> c = 0x7f)" "c = 63 \<and> prev = Some 63"
    | (quote) "\<not> (c < 0x20 \<or> c = 0x7f)" "\<not> (c = 63 \<and> prev = Some 63)" "c = 34 \<or> c = 92"
    | (utf8) "\<not> (c < 0x20 \<or> c = 0x7f)" "\<not> (c = 63 \<and> prev = Some 63)" "c \<noteq> 34" "c \<noteq> 92" "?k > 0"
    | (other) "\<not> (c < 0x20 \<or> c = 0x7f)" "\<not> (c = 63 \<and> prev = Some 63)" "c \<noteq> 34" "c \<noteq> 92" "\<not> ?k > 0" "c AND 0x80 \<noteq> 0"
    | (plain) "\<not> (c < 0x20 \<or> c = 0x7f)" "\<not> (c = 63 \<and> prev = Some 63)" "c \<noteq> 34" "c \<noteq> 92" "\<not> ?k > 0" "c AND 0x80 = 0"
    by blast
  then show ?thesis
  proof cases
    case control
    have "write_chars False prev (c # cs) = bind_result (write_chars False (Some c) (cs)) (\<lambda>out. Inr ((write_octal_character c) @ out))"
      unfolding write_chars.simps using control by simp
    then show ?thesis by (rule that [where y = "[c]"]) (use octal_no_newline [of c] in \<open>simp_all add: read_from_octal list_all_iff\<close>)
  next
    case trigraph
    have "write_chars False prev (c # cs) = bind_result (write_chars False (Some c) (cs)) (\<lambda>out. Inr (([92, 63]) @ out))"
      unfolding write_chars.simps using trigraph by simp
    then show ?thesis by (rule that [where y = "[c]"]) (use read_from_backslash [of 63] trigraph in simp_all)
  next
    case quote
    have "write_chars False prev (c # cs) = bind_result (write_chars False (Some c) (cs)) (\<lambda>out. Inr (([92, c]) @ out))"
      unfolding write_chars.simps using quote by auto
    then show ?thesis by (rule that [where y = "[c]"]) (use read_from_backslash [of c] quote in auto)
  next
    case utf8
    have k: "?k \<le> length cs" "list_all continuation (take ?k cs)" using utf8_tail_continuation [OF refl] by simp_all
    then have plain: "list_all (\<lambda>c. c \<noteq> 34 \<and> c \<noteq> 92) (c # take ?k cs)" using utf8(3,4) continuation_plain by (auto simp: list_all_iff)
    have "write_chars False prev (c # cs) = bind_result (write_chars False (Some (last (take ?k cs))) (drop ?k cs)) (\<lambda>out. Inr ((c # take ?k cs) @ out))"
      unfolding write_chars.simps using utf8 by auto
    then show ?thesis by (rule that [where y = "c # take ?k cs"]) (use read_from_plains [OF plain] k(2) utf8(1) continuation_no_newline in \<open>auto simp: list_all_iff\<close>)
  next
    case other
    have "write_chars False prev (c # cs) = bind_result (write_chars False (Some c) (cs)) (\<lambda>out. Inr ((write_octal_character c) @ out))"
      unfolding write_chars.simps octal_or_json_def using other by auto
    then show ?thesis by (rule that [where y = "[c]"]) (use octal_no_newline [of c] in \<open>simp_all add: read_from_octal list_all_iff\<close>)
  next
    case plain
    have "write_chars False prev (c # cs) = bind_result (write_chars False (Some c) (cs)) (\<lambda>out. Inr (([c]) @ out))"
      unfolding write_chars.simps using plain by auto
    then show ?thesis by (rule that [where y = "[c]"]) (use read_from_plain plain in auto)
  qed
qed

lemma write_chars_read:
  "\<exists>out. write_chars False prev s = Inr out \<and> 10 \<notin> set out \<and> (\<forall>acc rest. read_from acc (out @ 34 # rest) = (acc @ s, stream rest))"
proof (induction "length s" arbitrary: prev s rule: less_induct)
  case less
  show ?case
  proof (cases s)
    case Nil
    then show ?thesis by (simp add: read_from_quote)
  next
    case (Cons c cs)
    obtain x y prev' cs' where step: "write_chars False prev (c # cs) = bind_result (write_chars False prev' cs') (\<lambda>out. Inr (x @ out))"
      "c # cs = y @ cs'" "length cs' \<le> length cs" "\<And>acc ds. ds \<noteq> [] \<Longrightarrow> read_from acc (x @ ds) = read_from (acc @ y) ds" "10 \<notin> set x"
      by (rule write_step [of prev c cs]) (rule that)
    obtain out where out: "write_chars False prev' cs' = Inr out" "\<And>acc rest. read_from acc (out @ 34 # rest) = (acc @ cs', stream rest)" "10 \<notin> set out"
      using less [of cs' prev'] step(3) Cons by auto
    have "read_from acc (x @ out @ 34 # rest) = (acc @ c # cs, stream rest)" for acc rest
      using step(4) [of "out @ 34 # rest" acc] out(2) [of "acc @ y" rest] step(2) by simp
    then show ?thesis using step(1,5) out(1,3) Cons by simp
  qed
qed

lemma write_text_law:
  obtains t where "write_text s False = Inr t" and "t \<noteq> []" and "10 \<notin> set t" and "last t = 34"
    and "\<And>n rest. read_text (stream (replicate n 32 @ t @ rest)) = (s, stream rest)"
proof -
  obtain out where out: "write_chars False None s = Inr out" "\<And>acc rest. read_from acc (out @ 34 # rest) = (acc @ s, stream rest)" "10 \<notin> set out"
    using write_chars_read [of None s] by auto
  have skip: "skip_spaces (stream (replicate n 32 @ 34 # cs)) = (Some 34, stream cs)" for n cs
    by (induction n) (simp_all add: skip_spaces.simps)
  have "read_text (stream (replicate n 32 @ 34 # out @ 34 # rest)) = (s, stream rest)" for n rest
    using out(2) [of "[]" rest] skip [of n "out @ 34 # rest"] by (simp add: read_text_def read_from_def)
  then show thesis
    using out(1,3) by (intro that [of "34 # out @ [34]"]) (simp_all add: write_text_def)
qed

section \<open>Properties\<close>

text \<open>
  C36. Strings survive as text. Whatever bytes a string has, the interpreter reads what \<open>write_string\<close>
  wrote, after any number of spaces, as the same string, and leaves the rest of the stream;
  \<open>base64_decode\<close> inverts \<open>base64_encode\<close>, which produces four characters for every three bytes begun.
\<close>

theorem text_roundtrip:
  "(\<exists>text. write_text s False = Inr text \<and>
     (\<forall>n rest. read_text \<lparr>in_chars = replicate n 32 @ text @ rest, in_eof = False, in_fail = False\<rparr> =
        (s, \<lparr>in_chars = rest, in_eof = False, in_fail = False\<rparr>))) \<and>
   base64_decode (base64_encode s) = s \<and> length (base64_encode s) = 4 * ((length s + 2) div 3)"
proof -
  obtain t where "write_text s False = Inr t" "\<And>n rest. read_text (stream (replicate n 32 @ t @ rest)) = (s, stream rest)"
    by (rule write_text_law [of s]) (rule that)
  then show ?thesis using base64_roundtrip encode_length by auto
qed

end
