(* ===== verification/Stream_IO.thy ===== *)
theory Stream_IO
  imports Text_IO Interpreted_Database
begin

text \<open>
  Formatted input and output, as the tools use them: the extraction of words, integers and lines from
  a stream, and the functions \<open>read_type\<close> and \<open>write_type\<close> that \<open>src/src/joedb/ui/type_io.h/.cpp\<close> gives
  for the type of every field; \<open>get_time_string.cpp\<close> and \<open>write_value.cpp\<close>.

  The conversion of floating-point numbers to and from decimal text is a parameter: four functions of
  the standard library on bit patterns. Everything else is written out, with the flags of the
  stream after a failure.
\<close>

section \<open>Formatted input\<close>

definition is_space :: "byte \<Rightarrow> bool" where
  "is_space c \<longleftrightarrow> c = 32 \<or> (9 \<le> c \<and> c \<le> 13)"

definition stream_good :: "Istream \<Rightarrow> bool" where
  "stream_good s \<longleftrightarrow> \<not> in_eof s \<and> \<not> in_fail s"

text \<open>The sentry of a formatted extraction skips spaces; the extraction fails when nothing is left.\<close>

definition sentry :: "Istream \<Rightarrow> bool \<times> Istream" where
  "sentry s =
     (if stream_good s then
        let cs = dropWhile is_space (in_chars s)
        in if cs = [] then (False, \<lparr>in_chars = [], in_eof = True, in_fail = True\<rparr>) else (True, s\<lparr>in_chars := cs\<rparr>)
      else (False, s\<lparr>in_fail := True\<rparr>))"

text \<open>\<open>in >> word\<close>, for a word that is empty before.\<close>

definition read_word :: "Istream \<Rightarrow> string \<times> Istream" where
  "read_word s =
     (case sentry s of
        (False, s1) \<Rightarrow> ([], s1)
      | (True, s1) \<Rightarrow>
          let w = takeWhile (\<lambda>c. \<not> is_space c) (in_chars s1); rest = dropWhile (\<lambda>c. \<not> is_space c) (in_chars s1)
          in (string_of w, s1\<lparr>in_chars := rest, in_eof := rest = []\<rparr>))"

definition is_digit :: "byte \<Rightarrow> bool" where
  "is_digit c \<longleftrightarrow> 48 \<le> c \<and> c \<le> 57"

definition digits_value :: "byte list \<Rightarrow> nat" where
  "digits_value ds = foldl (\<lambda>n d. 10 * n + unat (d - 48)) 0 ds"

text \<open>An optional sign and digits: the sign and the magnitude, if there is a digit.\<close>

definition scan_number :: "Istream \<Rightarrow> (bool \<times> nat) option \<times> Istream" where
  "scan_number s =
     (let cs = in_chars s;
          signed = (case cs of [] \<Rightarrow> False | c # _ \<Rightarrow> c = 45 \<or> c = 43);
          negative = (case cs of [] \<Rightarrow> False | c # _ \<Rightarrow> c = 45);
          cs1 = (if signed then tl cs else cs);
          ds = takeWhile is_digit cs1;
          rest = dropWhile is_digit cs1;
          s1 = s\<lparr>in_chars := rest, in_eof := rest = [], in_fail := ds = []\<rparr>
      in (if ds = [] then None else Some (negative, digits_value ds), s1))"

text \<open>
  \<open>in >> x\<close> for a signed integer of a number of bits that holds 0 before: 0 when there is no number, the
  nearest value when it is out of range, and a failure in both cases.
\<close>

definition read_signed :: "nat \<Rightarrow> Istream \<Rightarrow> int \<times> Istream" where
  "read_signed bits s =
     (case sentry s of
        (False, s1) \<Rightarrow> (0, s1)
      | (True, s1) \<Rightarrow>
          (case scan_number s1 of
             (None, s2) \<Rightarrow> (0, s2)
           | (Some (negative, n), s2) \<Rightarrow>
               let v = (if negative then - int n else int n); m = 2 ^ (bits - 1)
               in if v < - m then (- m, s2\<lparr>in_fail := True\<rparr>)
                  else if v \<ge> m then (m - 1, s2\<lparr>in_fail := True\<rparr>) else (v, s2)))"

text \<open>The same for an unsigned integer; a minus sign negates it modulo its range.\<close>

definition read_unsigned :: "nat \<Rightarrow> Istream \<Rightarrow> nat \<times> Istream" where
  "read_unsigned bits s =
     (case sentry s of
        (False, s1) \<Rightarrow> (0, s1)
      | (True, s1) \<Rightarrow>
          (case scan_number s1 of
             (None, s2) \<Rightarrow> (0, s2)
           | (Some (negative, n), s2) \<Rightarrow>
               if int n \<ge> 2 ^ bits then (nat (2 ^ bits - 1), s2\<lparr>in_fail := True\<rparr>)
               else (if negative then nat ((2 ^ bits - int n) mod 2 ^ bits) else n, s2)))"

text \<open>\<open>read_underlying\<close> for a record identifier: on failure it keeps its value.\<close>

definition read_record_id :: "Record_Id \<Rightarrow> Istream \<Rightarrow> Record_Id \<times> Istream" where
  "read_record_id r s = (case read_signed 64 s of (v, s1) \<Rightarrow> (if in_fail s1 then r else v, s1))"

text \<open>\<open>in.ignore(1, delimiter)\<close>\<close>

definition stream_ignore :: "Istream \<Rightarrow> Istream" where
  "stream_ignore s =
     (if stream_good s then
        case in_chars s of [] \<Rightarrow> s\<lparr>in_eof := True\<rparr> | c # cs \<Rightarrow> s\<lparr>in_chars := cs\<rparr>
      else s\<lparr>in_fail := True\<rparr>)"

text \<open>\<open>std::getline\<close>: a line without its end, or nothing when no character is left.\<close>

definition read_line :: "Istream \<Rightarrow> byte list option \<times> Istream" where
  "read_line s =
     (if stream_good s then
        let line = takeWhile (\<lambda>c. c \<noteq> 10) (in_chars s); rest = dropWhile (\<lambda>c. c \<noteq> 10) (in_chars s) in
        case rest of
          [] \<Rightarrow> (if line = [] then None else Some line, \<lparr>in_chars = [], in_eof = True, in_fail = line = []\<rparr>)
        | _ # rest' \<Rightarrow> (Some line, s\<lparr>in_chars := rest'\<rparr>)
      else (None, s\<lparr>in_fail := True\<rparr>))"

lemma read_line_length:
  assumes "read_line s = (Some line, s')"
  shows "length (in_chars s') < length (in_chars s)"
proof -
  define l where "l = takeWhile (\<lambda>c. c \<noteq> 10) (in_chars s)"
  define r where "r = dropWhile (\<lambda>c. c \<noteq> 10) (in_chars s)"
  have len: "length (in_chars s) = length l + length r" unfolding l_def r_def by (metis length_append takeWhile_dropWhile_id)
  from assms have "(if stream_good s then
      case r of [] \<Rightarrow> (if l = [] then None else Some l, \<lparr>in_chars = [], in_eof = True, in_fail = l = []\<rparr>)
      | _ # rest' \<Rightarrow> (Some l, s\<lparr>in_chars := rest'\<rparr>) else (None, s\<lparr>in_fail := True\<rparr>)) = (Some line, s')"
    by (simp only: read_line_def l_def r_def Let_def)
  then show ?thesis unfolding len by (cases r) (auto split: if_splits)
qed

section \<open>Output of integers and times\<close>

definition show_int :: "int \<Rightarrow> byte list" where
  "show_int v = bytes_of ((if v < 0 then ''-'' else []) @ to_string (nat \<bar>v\<bar>))"

definition show_nat :: "nat \<Rightarrow> byte list" where
  "show_nat n = bytes_of (to_string n)"

text \<open>
  \<open>gmtime\<close> on a number of seconds: the proleptic Gregorian calendar. The years start in March and are
  counted in eras of 400 years.
\<close>

definition civil_date :: "int \<Rightarrow> int \<times> int \<times> int" where
  "civil_date days =
     (let z = days + 719468; era = z div 146097; doe = z mod 146097;
          yoe = (doe - doe div 1460 + doe div 36524 - doe div 146096) div 365;
          doy = doe - (365 * yoe + yoe div 4 - yoe div 100);
          mp = (5 * doy + 2) div 153; d = doy - (153 * mp + 2) div 5 + 1;
          m = (if mp < 10 then mp + 3 else mp - 9)
      in (yoe + era * 400 + (if m \<le> 2 then 1 else 0), m, d))"

definition two_digits :: "int \<Rightarrow> string" where
  "two_digits v = (if v < 10 then ''0'' else []) @ to_string (nat v)"

definition get_time_string :: "int \<Rightarrow> byte list" where
  "get_time_string t =
     (case civil_date (t div 86400) of (y, m, d) \<Rightarrow>
      let s = t mod 86400 in
      if y - 1900 < - (2 ^ 31) \<or> y - 1900 \<ge> 2 ^ 31 then bytes_of ''bad timestamp''
      else show_int y @ bytes_of (''-'' @ two_digits m @ ''-'' @ two_digits d @ '' '' @
        two_digits (s div 3600) @ '':'' @ two_digits (s div 60 mod 60) @ '':'' @ two_digits (s mod 60) @ '' GMT''))"

section \<open>Values\<close>

text \<open>What the standard library does with floating-point numbers.\<close>

record Float_Text =
  write_float :: "32 word \<Rightarrow> byte list"
  write_double :: "64 word \<Rightarrow> byte list"
  read_float :: "Istream \<Rightarrow> 32 word \<times> Istream"
  read_double :: "Istream \<Rightarrow> 64 word \<times> Istream"

definition read_boolean :: "Istream \<Rightarrow> byte \<times> Istream" where
  "read_boolean s =
     (case read_word s of (w, s1) \<Rightarrow>
      if w = ''true'' \<or> w = ''1'' then (1, s1)
      else if w = ''false'' \<or> w = ''0'' then (0, s1)
      else (0, s1\<lparr>in_fail := True\<rparr>))"

definition write_boolean :: "byte \<Rightarrow> byte list" where
  "write_boolean b = bytes_of (if b \<noteq> 0 then ''true'' else ''false'')"

definition read_int8 :: "Istream \<Rightarrow> 8 word \<times> Istream" where
  "read_int8 s = (case read_signed 32 s of (v, s1) \<Rightarrow> (word_of_int v, s1))"

definition write_int8 :: "8 word \<Rightarrow> byte list" where
  "write_int8 w = show_int (sint w)"

definition read_blob_text :: "Istream \<Rightarrow> Blob \<times> Istream" where
  "read_blob_text s =
     (case read_signed 64 s of (p, s1) \<Rightarrow>
      case read_signed 64 (stream_ignore s1) of (n, s2) \<Rightarrow> (\<lparr>blob_position = p, blob_size = n\<rparr>, s2))"

definition write_blob_text :: "Blob \<Rightarrow> byte list" where
  "write_blob_text b = show_int (blob_position b) @ [44] @ show_int (blob_size b)"

text \<open>\<open>joedb::write_string\<close>, and the other functions of the macro, by type.\<close>

fun value_text :: "Float_Text \<Rightarrow> field_value \<Rightarrow> byte list result" where
  "value_text F (String_Value s) = write_text (bytes_of s) False"
| "value_text F (Int32_Value w) = Inr (show_int (sint w))"
| "value_text F (Int64_Value w) = Inr (show_int (sint w))"
| "value_text F (Reference_Value r) = Inr (show_int r)"
| "value_text F (Boolean_Value b) = Inr (write_boolean b)"
| "value_text F (Float32_Value w) = Inr (write_float F w)"
| "value_text F (Float64_Value w) = Inr (write_double F w)"
| "value_text F (Int8_Value w) = Inr (write_int8 w)"
| "value_text F (Int16_Value w) = Inr (show_int (sint w))"
| "value_text F (Blob_Value b) = Inr (write_blob_text b)"

fun read_value_text :: "Float_Text \<Rightarrow> Type_Id \<Rightarrow> Istream \<Rightarrow> field_value \<times> Istream" where
  "read_value_text F Int32_Type s = (case read_signed 32 s of (v, s1) \<Rightarrow> (Int32_Value (word_of_int v), s1))"
| "read_value_text F Int64_Type s = (case read_signed 64 s of (v, s1) \<Rightarrow> (Int64_Value (word_of_int v), s1))"
| "read_value_text F Reference_Type s = (case read_record_id null_record s of (r, s1) \<Rightarrow> (Reference_Value r, s1))"
| "read_value_text F Boolean_Type s = (case read_boolean s of (b, s1) \<Rightarrow> (Boolean_Value b, s1))"
| "read_value_text F Float32_Type s = (case read_float F s of (w, s1) \<Rightarrow> (Float32_Value w, s1))"
| "read_value_text F Float64_Type s = (case read_double F s of (w, s1) \<Rightarrow> (Float64_Value w, s1))"
| "read_value_text F Int8_Type s = (case read_int8 s of (w, s1) \<Rightarrow> (Int8_Value w, s1))"
| "read_value_text F Int16_Type s = (case read_signed 16 s of (v, s1) \<Rightarrow> (Int16_Value (word_of_int v), s1))"
| "read_value_text F Blob_Type s = (case read_blob_text s of (b, s1) \<Rightarrow> (Blob_Value b, s1))"
| "read_value_text F _ s = (case read_text s of (t, s1) \<Rightarrow> (String_Value (string_of t), s1))"

text \<open>\<open>write_value\<close>: the text of a field of a record, at the type of the schema.\<close>

definition write_value_text :: "Float_Text \<Rightarrow> Database \<Rightarrow> Table_Id \<Rightarrow> Record_Id \<Rightarrow> Field_Id \<Rightarrow> byte list result" where
  "write_value_text F db i r f =
     (let ty = type_id (get_field_type i f db) in
      if macro_type ty then bind_result (db_get ty i r f db) (value_text F) else Inr [])"

end
