(* ===== verification/Dump_Writables.thy ===== *)
theory Dump_Writables
  imports Stream_IO Multiplexer
begin

text \<open>
  Model of \<open>src/src/joedb/ui/Interpreter_Dump_Writable.h/.cpp\<close>, \<open>SQL_Dump_Writable.h/.cpp\<close> and
  \<open>Raw_Dump_Writable.h/.cpp\<close>: writables that print the events they receive as commands of the interpreter, as
  SQL statements, or with bare identifiers.

  A method that prints is a function from the event, and the schema that the writable refers to, to the
  characters it sends to the stream. The first two are used behind a multiplexer that updates a
  \<open>Database_Schema\<close> after every event has been printed.
\<close>

section \<open>Database_Schema\<close>

text \<open>A \<open>Dummy_Writable\<close> that overrides the six events of the schema.\<close>

fun schema_handle :: "event \<Rightarrow> Database \<Rightarrow> Database result" where
  "schema_handle (Create_Table name) db = create_table name db"
| "schema_handle (Drop_Table i) db = drop_table i db"
| "schema_handle (Rename_Table i name) db = rename_table i name db"
| "schema_handle (Add_Field i name ty) db = add_field i name ty db"
| "schema_handle (Drop_Field i f) db = drop_field i f db"
| "schema_handle (Rename_Field i f name) db = rename_field i f name db"
| "schema_handle _ db = Inr db"

definition schema_new :: Database where
  "schema_new = db_new null_record"

section \<open>Interpreter_Writable\<close>

fun type_name :: "Type_Id \<Rightarrow> string" where
  "type_name String_Type = ''string''"
| "type_name Int32_Type = ''int32''"
| "type_name Int64_Type = ''int64''"
| "type_name Reference_Type = ''reference''"
| "type_name Boolean_Type = ''boolean''"
| "type_name Float32_Type = ''float32''"
| "type_name Float64_Type = ''float64''"
| "type_name Int8_Type = ''int8''"
| "type_name Int16_Type = ''int16''"
| "type_name Blob_Type = ''blob''"
| "type_name Null_Type = ''null''"
| "type_name (Other_Type b) = []"

definition interpreter_type_text :: "Database \<Rightarrow> Type \<Rightarrow> string" where
  "interpreter_type_text db ty =
     (if type_id ty = Reference_Type then ''references '' @ get_table_name db (type_table_id ty) else type_name (type_id ty))"

definition newline :: "byte list" where
  "newline = [10]"

fun interpreter_schema_text :: "Database \<Rightarrow> event \<Rightarrow> string" where
  "interpreter_schema_text db (Create_Table name) = ''create_table '' @ name"
| "interpreter_schema_text db (Drop_Table i) = ''drop_table '' @ get_table_name db i"
| "interpreter_schema_text db (Rename_Table i name) = ''rename_table '' @ get_table_name db i @ '' '' @ name"
| "interpreter_schema_text db (Add_Field i name ty) =
     ''add_field '' @ get_table_name db i @ '' '' @ name @ '' '' @ interpreter_type_text db ty"
| "interpreter_schema_text db (Drop_Field i f) = ''drop_field '' @ get_table_name db i @ '' '' @ get_field_name db i f"
| "interpreter_schema_text db (Rename_Field i f name) =
     ''rename_field '' @ get_table_name db i @ '' '' @ get_field_name db i f @ '' '' @ name"
| "interpreter_schema_text db (Custom name) = ''custom '' @ name"
| "interpreter_schema_text db _ = []"

fun interpreter_record_text :: "Database \<Rightarrow> event \<Rightarrow> byte list" where
  "interpreter_record_text db (Insert_Into i r) = bytes_of (''insert_into '' @ get_table_name db i @ '' '') @ show_int r"
| "interpreter_record_text db (Delete_From i r) = bytes_of (''delete_from '' @ get_table_name db i @ '' '') @ show_int r"
| "interpreter_record_text db (Insert_Vector i r n) =
     bytes_of (''insert_vector '' @ get_table_name db i @ '' '') @ show_int r @ [32] @ show_nat n"
| "interpreter_record_text db (Delete_Vector i r n) =
     bytes_of (''delete_vector '' @ get_table_name db i @ '' '') @ show_int r @ [32] @ show_nat n"
| "interpreter_record_text db _ = []"

definition write_update :: "Database \<Rightarrow> string \<Rightarrow> Table_Id \<Rightarrow> Record_Id \<Rightarrow> Field_Id \<Rightarrow> byte list" where
  "write_update db command i r f =
     bytes_of (command @ get_table_name db i @ '' '') @ show_int r @ [32] @ bytes_of (get_field_name db i f) @ [32]"

text \<open>The values of a vector, each after a space.\<close>

fun vector_text :: "Float_Text \<Rightarrow> field_value list \<Rightarrow> byte list result" where
  "vector_text F [] = Inr []"
| "vector_text F (v # vs) =
     bind_result (value_text F v) (\<lambda>t. bind_result (vector_text F vs) (\<lambda>ts. Inr ([32] @ t @ ts)))"

definition interpreter_update :: "Float_Text \<Rightarrow> Database \<Rightarrow> Table_Id \<Rightarrow> Record_Id \<Rightarrow> Field_Id \<Rightarrow> field_value \<Rightarrow> byte list result" where
  "interpreter_update F db i r f v =
     bind_result (value_text F v) (\<lambda>t. Inr (write_update db ''update '' i r f @ t))"

definition interpreter_update_vector :: "Float_Text \<Rightarrow> Database \<Rightarrow> Table_Id \<Rightarrow> Record_Id \<Rightarrow> Field_Id \<Rightarrow> field_value list \<Rightarrow> byte list result" where
  "interpreter_update_vector F db i r f vs =
     bind_result (vector_text F vs) (\<lambda>ts. Inr (write_update db ''update_vector '' i r f @ show_nat (length vs) @ ts))"

text \<open>All methods; \<open>hard_checkpoint\<close> is the one of the base class, which calls \<open>soft_checkpoint\<close>.\<close>

fun interpreter_text :: "Float_Text \<Rightarrow> Database \<Rightarrow> event \<Rightarrow> byte list result" where
  "interpreter_text F db Soft_Checkpoint = Inr newline"
| "interpreter_text F db Hard_Checkpoint = Inr newline"
| "interpreter_text F db (Comment s) =
     bind_result (write_text (bytes_of s) False) (\<lambda>t. Inr (bytes_of ''comment '' @ t @ newline))"
| "interpreter_text F db (Timestamp t) =
     Inr (bytes_of ''timestamp '' @ show_int (sint t) @ [32] @ get_time_string (sint t) @ newline)"
| "interpreter_text F db Valid_Data = Inr (bytes_of ''valid_data'' @ newline)"
| "interpreter_text F db (Update i r f v) = bind_result (interpreter_update F db i r f v) (\<lambda>t. Inr (t @ newline))"
| "interpreter_text F db (Update_Vector i r f ty vs) =
     bind_result (interpreter_update_vector F db i r f vs) (\<lambda>t. Inr (t @ newline))"
| "interpreter_text F db (On_Blob b) = Inr (bytes_of ''# Blob: '' @ write_blob_text b @ newline)"
| "interpreter_text F db (Write_Blob s) =
     bind_result (write_text (bytes_of s) False) (\<lambda>t. Inr (bytes_of ''write_blob '' @ t @ newline))"
| "interpreter_text F db (Insert_Into i r) = Inr (interpreter_record_text db (Insert_Into i r) @ newline)"
| "interpreter_text F db (Delete_From i r) = Inr (interpreter_record_text db (Delete_From i r) @ newline)"
| "interpreter_text F db (Insert_Vector i r n) = Inr (interpreter_record_text db (Insert_Vector i r n) @ newline)"
| "interpreter_text F db (Delete_Vector i r n) = Inr (interpreter_record_text db (Delete_Vector i r n) @ newline)"
| "interpreter_text F db Flush = Inr []"
| "interpreter_text F db (Start_Writing p) = Inr []"
| "interpreter_text F db (End_Writing p) = Inr []"
| "interpreter_text F db e = Inr (bytes_of (interpreter_schema_text db e) @ newline)"

section \<open>A text behind a multiplexer with its schema\<close>

record Text_Dump =
  dump_schema :: Database
  dump_out :: "byte list"

definition text_dump_new :: Text_Dump where
  "text_dump_new = \<lparr>dump_schema = schema_new, dump_out = []\<rparr>"

text \<open>
  \<open>Multiplexer{interpreter_writable, schema}\<close>: the event is printed, then the schema follows it. A blob is
  printed when the writable wants it.
\<close>

fun is_write_blob :: "event \<Rightarrow> bool" where
  "is_write_blob (Write_Blob s) = True"
| "is_write_blob _ = False"

definition text_dump_handle :: "(Database \<Rightarrow> event \<Rightarrow> byte list result) \<Rightarrow> bool \<Rightarrow> event \<Rightarrow> Text_Dump \<Rightarrow> Text_Dump result" where
  "text_dump_handle text blob_wanted e d =
     bind_result (if is_write_blob e \<and> \<not> blob_wanted then Inr [] else text (dump_schema d) e) (\<lambda>t.
     bind_result (schema_handle e (dump_schema d)) (\<lambda>db. Inr \<lparr>dump_schema = db, dump_out = dump_out d @ t\<rparr>))"

definition text_dump_writable :: "(Database \<Rightarrow> event \<Rightarrow> byte list result) \<Rightarrow> bool \<Rightarrow> Text_Dump Writable" where
  "text_dump_writable text blob_wanted =
     \<lparr>handle = text_dump_handle text blob_wanted, get_position = (\<lambda>d. 0), wants_blob_data = (\<lambda>d. blob_wanted),
      get_own_storage = (\<lambda>d i f ty. Inr None)\<rparr>"

definition interpreter_dump_writable :: "Float_Text \<Rightarrow> bool \<Rightarrow> Text_Dump Writable" where
  "interpreter_dump_writable F blob_wanted = text_dump_writable (interpreter_text F) blob_wanted"

section \<open>SQL_Writable\<close>

fun sql_type :: "Database \<Rightarrow> Type \<Rightarrow> string" where
  "sql_type db ty =
     (case type_id ty of
        Null_Type \<Rightarrow> ''NULL'' | String_Type \<Rightarrow> ''TEXT'' | Int32_Type \<Rightarrow> ''INTEGER'' | Int64_Type \<Rightarrow> ''BIGINT''
      | Reference_Type \<Rightarrow> ''INTEGER REFERENCES '' @ [CHR 0x22] @ get_table_name db (type_table_id ty) @ [CHR 0x22]
      | Boolean_Type \<Rightarrow> ''SMALLINT'' | Float32_Type \<Rightarrow> ''REAL'' | Float64_Type \<Rightarrow> ''REAL''
      | Int8_Type \<Rightarrow> ''SMALLINT'' | Int16_Type \<Rightarrow> ''SMALLINT'' | Blob_Type \<Rightarrow> ''BLOB'' | Other_Type b \<Rightarrow> [])"

definition quoted :: "string \<Rightarrow> string" where
  "quoted name = [CHR 0x22] @ name @ [CHR 0x22]"

definition id_field_name :: string where
  "id_field_name = quoted ''__id''"

fun sql_schema_text :: "Database \<Rightarrow> event \<Rightarrow> string" where
  "sql_schema_text db (Create_Table name) = ''CREATE TABLE '' @ quoted name @ ''('' @ id_field_name @ '' INTEGER PRIMARY KEY);''"
| "sql_schema_text db (Drop_Table i) = ''DROP TABLE '' @ quoted (get_table_name db i) @ '';''"
| "sql_schema_text db (Rename_Table i name) =
     ''ALTER TABLE '' @ quoted (get_table_name db i) @ '' RENAME TO '' @ quoted name @ '';''"
| "sql_schema_text db (Add_Field i name ty) =
     ''ALTER TABLE '' @ quoted (get_table_name db i) @ '' ADD '' @ quoted name @ '' '' @ sql_type db ty @ '';''"
| "sql_schema_text db (Drop_Field i f) =
     ''ALTER TABLE '' @ quoted (get_table_name db i) @ '' DROP COLUMN '' @ quoted (get_field_name db i f) @ '';''"
| "sql_schema_text db (Rename_Field i f name) =
     ''ALTER TABLE '' @ quoted (get_table_name db i) @ '' RENAME COLUMN '' @ quoted (get_field_name db i f) @ '' TO '' @
     quoted name @ '';''"
| "sql_schema_text db (Custom name) = ''-- custom: '' @ name"
| "sql_schema_text db (Comment s) = ''-- '' @ s"
| "sql_schema_text db Valid_Data = ''-- valid data''"
| "sql_schema_text db _ = []"

definition sql_where :: "Record_Id \<Rightarrow> byte list" where
  "sql_where r = bytes_of ('' WHERE '' @ id_field_name @ '' = '') @ show_int r @ bytes_of '';'' @ newline"

definition sql_insert :: "Database \<Rightarrow> Table_Id \<Rightarrow> Record_Id \<Rightarrow> byte list" where
  "sql_insert db i r = bytes_of (''INSERT INTO '' @ quoted (get_table_name db i) @ ''('' @ id_field_name @ '') VALUES('') @
     show_int r @ bytes_of '');'' @ newline"

definition sql_delete :: "Database \<Rightarrow> Table_Id \<Rightarrow> Record_Id \<Rightarrow> byte list" where
  "sql_delete db i r = bytes_of (''DELETE FROM '' @ quoted (get_table_name db i)) @ sql_where r"

definition sql_write_update :: "Database \<Rightarrow> Table_Id \<Rightarrow> Field_Id \<Rightarrow> byte list" where
  "sql_write_update db i f = bytes_of (''UPDATE '' @ quoted (get_table_name db i) @ '' SET '' @ quoted (get_field_name db i f) @ '' = '')"

text \<open>\<open>blob_reader\<close> is the file to read blobs from, if there is one.\<close>

fun sql_value :: "Float_Text \<Rightarrow> (Blob \<Rightarrow> byte list result) option \<Rightarrow> field_value \<Rightarrow> byte list result" where
  "sql_value F blob_reader (Boolean_Value b) = Inr (show_nat (if b \<noteq> 0 then 1 else 0))"
| "sql_value F blob_reader (String_Value s) = Inr (write_sql_string (bytes_of s))"
| "sql_value F blob_reader (Blob_Value b) =
     (case blob_reader of
        Some read \<Rightarrow> bind_result (read b) (\<lambda>bs. Inr (write_sql_string bs))
      | None \<Rightarrow> Inr (bytes_of (quoted ''BLOB'')))"
| "sql_value F blob_reader (Reference_Value r) = Inr (if r < 0 then bytes_of ''NULL'' else show_int r)"
| "sql_value F blob_reader v = value_text F v"

definition sql_update :: "Float_Text \<Rightarrow> (Blob \<Rightarrow> byte list result) option \<Rightarrow> Database \<Rightarrow> Table_Id \<Rightarrow> Record_Id \<Rightarrow> Field_Id \<Rightarrow> field_value \<Rightarrow> byte list result" where
  "sql_update F blob_reader db i r f v =
     bind_result (sql_value F blob_reader v) (\<lambda>t.
     Inr ((if type_of_value v = Blob_Type \<and> blob_reader = None then bytes_of ''-- '' else []) @
          sql_write_update db i f @ t @ sql_where r))"

text \<open>A vector is handled one element at a time: \<open>SQL_Writable\<close> is a \<open>Loop_Writable\<close>.\<close>

fun sql_updates :: "Float_Text \<Rightarrow> (Blob \<Rightarrow> byte list result) option \<Rightarrow> Database \<Rightarrow> Table_Id \<Rightarrow> Record_Id \<Rightarrow> Field_Id \<Rightarrow> field_value list \<Rightarrow> byte list result" where
  "sql_updates F blob_reader db i r f [] = Inr []"
| "sql_updates F blob_reader db i r f (v # vs) =
     bind_result (sql_update F blob_reader db i r f v) (\<lambda>t.
     bind_result (sql_updates F blob_reader db i (r + 1) f vs) (\<lambda>ts. Inr (t @ ts)))"

fun sql_text :: "Float_Text \<Rightarrow> (Blob \<Rightarrow> byte list result) option \<Rightarrow> Database \<Rightarrow> event \<Rightarrow> byte list result" where
  "sql_text F br db (Start_Writing p) = Inr (bytes_of ''BEGIN TRANSACTION; -- checkpoint = '' @ show_int p @ newline)"
| "sql_text F br db (End_Writing p) = Inr (bytes_of ''COMMIT; --checkpoint = '' @ show_int p @ newline @ newline)"
| "sql_text F br db (Timestamp t) = Inr (bytes_of ''-- '' @ get_time_string (sint t) @ newline)"
| "sql_text F br db (Insert_Into i r) = Inr (sql_insert db i r)"
| "sql_text F br db (Delete_From i r) = Inr (sql_delete db i r)"
| "sql_text F br db (Insert_Vector i r n) = Inr (concat (map (\<lambda>k. sql_insert db i (r + int k)) [0..<n]))"
| "sql_text F br db (Delete_Vector i r n) = Inr (concat (map (\<lambda>k. sql_delete db i (r + int n - 1 - int k)) [0..<n]))"
| "sql_text F br db (Update i r f v) = sql_update F br db i r f v"
| "sql_text F br db (Update_Vector i r f ty vs) = sql_updates F br db i r f vs"
| "sql_text F br db Soft_Checkpoint = Inr []"
| "sql_text F br db Hard_Checkpoint = Inr []"
| "sql_text F br db Flush = Inr []"
| "sql_text F br db (On_Blob b) = Inr []"
| "sql_text F br db (Write_Blob s) = Inr []"
| "sql_text F br db e = Inr (bytes_of (sql_schema_text db e) @ newline)"

definition sql_dump_writable :: "Float_Text \<Rightarrow> (Blob \<Rightarrow> byte list result) option \<Rightarrow> Text_Dump Writable" where
  "sql_dump_writable F blob_reader = text_dump_writable (sql_text F blob_reader) False"

section \<open>Raw_Dump_Writable\<close>

definition raw_type :: "Type \<Rightarrow> string" where
  "raw_type ty = (if type_id ty = Reference_Type then ''references '' @ to_string (unat (type_table_id ty)) else type_name (type_id ty))"

definition raw_id :: "16 word \<Rightarrow> byte list" where
  "raw_id i = show_nat (unat i)"

text \<open>The text before a name, the name as a string, and the text after it.\<close>

definition raw_named :: "byte list \<Rightarrow> string \<Rightarrow> byte list \<Rightarrow> byte list result" where
  "raw_named before name after = bind_result (write_text (bytes_of name) False) (\<lambda>t. Inr (before @ t @ after @ newline))"

definition raw_update :: "string \<Rightarrow> Type_Id \<Rightarrow> Table_Id \<Rightarrow> Record_Id \<Rightarrow> Field_Id \<Rightarrow> byte list" where
  "raw_update command ty i r f =
     bytes_of (command @ type_name ty @ '' '') @ raw_id i @ [32] @ show_int r @ [32] @ raw_id f @ [32]"

fun raw_text :: "Float_Text \<Rightarrow> event \<Rightarrow> byte list result" where
  "raw_text F (Create_Table name) = raw_named (bytes_of ''create_table '') name []"
| "raw_text F (Drop_Table i) = Inr (bytes_of ''drop_table '' @ raw_id i @ newline)"
| "raw_text F (Rename_Table i name) = raw_named (bytes_of ''rename_table '' @ raw_id i @ [32]) name []"
| "raw_text F (Add_Field i name ty) = raw_named (bytes_of ''add_field '' @ raw_id i @ [32]) name (bytes_of ('' '' @ raw_type ty))"
| "raw_text F (Drop_Field i f) = Inr (bytes_of ''drop_field '' @ raw_id i @ [32] @ raw_id f @ newline)"
| "raw_text F (Rename_Field i f name) = raw_named (bytes_of ''rename_field '' @ raw_id i @ [32] @ raw_id f @ [32]) name []"
| "raw_text F (Custom name) = raw_named (bytes_of ''custom '') name []"
| "raw_text F (Comment s) = raw_named (bytes_of ''comment '') s []"
| "raw_text F (Timestamp t) = Inr (bytes_of ''timestamp '' @ show_int (sint t) @ newline)"
| "raw_text F Valid_Data = Inr (bytes_of ''valid_data'' @ newline)"
| "raw_text F (Insert_Into i r) = Inr (bytes_of ''insert_into '' @ raw_id i @ [32] @ show_int r @ newline)"
| "raw_text F (Delete_From i r) = Inr (bytes_of ''delete_from '' @ raw_id i @ [32] @ show_int r @ newline)"
| "raw_text F (Insert_Vector i r n) =
     Inr (bytes_of ''insert_vector '' @ raw_id i @ [32] @ show_int r @ [32] @ show_nat n @ newline)"
| "raw_text F (Delete_Vector i r n) =
     Inr (bytes_of ''delete_vector '' @ raw_id i @ [32] @ show_int r @ [32] @ show_nat n @ newline)"
| "raw_text F (Update i r f v) =
     bind_result (value_text F v) (\<lambda>t. Inr (raw_update ''update_'' (type_of_value v) i r f @ t @ newline))"
| "raw_text F (Update_Vector i r f ty vs) =
     bind_result (vector_text F vs) (\<lambda>ts. Inr (raw_update ''update_vector_'' ty i r f @ show_nat (length vs) @ ts @ newline))"
| "raw_text F (Write_Blob s) = raw_named (bytes_of ''write_blob '') s []"
| "raw_text F _ = Inr []"

text \<open>The state of \<open>Raw_Dump_Writable\<close> is its output.\<close>

definition raw_dump_writable :: "Float_Text \<Rightarrow> byte list Writable" where
  "raw_dump_writable F =
     \<lparr>handle = (\<lambda>e out. bind_result (raw_text F e) (\<lambda>t. Inr (out @ t))), get_position = (\<lambda>out. 0),
      wants_blob_data = (\<lambda>out. True), get_own_storage = (\<lambda>out i f ty. Inr None)\<rparr>"

end
