(* ===== verification/Dump.thy ===== *)
theory Dump
  imports Dump_Writables Journal_Reader
begin

unbundle bit_operations_syntax

text \<open>
  Model of \<open>src/src/joedb/ui/dump.cpp\<close> and \<open>json.cpp\<close>: the content of a database as events, with
  identifiers renumbered (\<open>dump\<close>) or kept (\<open>dump_data\<close>), the packing of a journal, and the content of a database
  as a JSON document.
\<close>

section \<open>Runs of used records\<close>

text \<open>The two inner loops, on the predicate \<open>is_used\<close> and the size of a table.\<close>

function skip_unused :: "(Record_Id \<Rightarrow> bool) \<Rightarrow> Record_Id \<Rightarrow> Record_Id \<Rightarrow> Record_Id" where
  "skip_unused used n r = (if r < n \<and> \<not> used r then skip_unused used n (r + 1) else r)"
  by pat_completeness auto
termination
  by (relation "measure (\<lambda>(used, n, r). nat (n - r))") auto

function run_size :: "(Record_Id \<Rightarrow> bool) \<Rightarrow> Record_Id \<Rightarrow> Record_Id \<Rightarrow> nat \<Rightarrow> nat" where
  "run_size used n r len = (if r + int len < n \<and> used (r + int len) then run_size used n r (len + 1) else len)"
  by pat_completeness auto
termination
  by (relation "measure (\<lambda>(used, n, r, len). nat (n - r - int len))") auto

declare skip_unused.simps [simp del] run_size.simps [simp del]

lemma skip_unused_ge: "r \<le> skip_unused used n r"
  by (induction used n r rule: skip_unused.induct) (subst skip_unused.simps, auto)

lemma skip_unused_stops: "skip_unused used n r < n \<Longrightarrow> used (skip_unused used n r)"
proof (induction used n r rule: skip_unused.induct)
  case (1 used n r)
  then show ?case by (subst skip_unused.simps, subst (asm) (3) skip_unused.simps) (auto split: if_splits)
qed

lemma run_size_ge: "len \<le> run_size used n r len"
  by (induction used n r len rule: run_size.induct) (subst run_size.simps, auto)

lemma run_size_pos: "r < n \<Longrightarrow> used r \<Longrightarrow> 0 < run_size used n r 0"
  using run_size_ge [of 1 used n r] by (subst run_size.simps) auto

text \<open>The outer loop; \<open>emit\<close> is what the code does for a run.\<close>

function for_runs :: "(Record_Id \<Rightarrow> nat \<Rightarrow> 'w \<Rightarrow> 'w result) \<Rightarrow> (Record_Id \<Rightarrow> bool) \<Rightarrow> Record_Id \<Rightarrow> Record_Id \<Rightarrow> 'w \<Rightarrow> 'w result" where
  "for_runs emit used n r w =
     (if r < n then
        let start = skip_unused used n r; len = run_size used n start 0 in
        if len > 0 then bind_result (emit start len w) (for_runs emit used n (start + int len))
        else for_runs emit used n start w
      else Inr w)"
  by pat_completeness auto
termination
proof (relation "measure (\<lambda>(emit, used, n, r, w). nat (n - r))", goal_cases)
  case (2 emit used n r w start len w')
  then show ?case using skip_unused_ge [of r used n] by simp
next
  case (3 emit used n r w start len)
  then have "n \<le> skip_unused used n r"
    using skip_unused_stops [of used n r] run_size_pos [of "skip_unused used n r" n used] by fastforce
  then show ?case using 3 by simp
qed simp

declare for_runs.simps [simp del]

section \<open>dump\<close>

text \<open>\<open>table_map[tid]\<close>, which is 0 for a table that is not in the map.\<close>

definition mapped :: "(16 word, 16 word) std_map \<Rightarrow> 16 word \<Rightarrow> 16 word" where
  "mapped m k = (case map_of m k of Some v \<Rightarrow> v | None \<Rightarrow> 0)"

fun dump_tables :: "'w Writable \<Rightarrow> Table_Id \<Rightarrow> (Table_Id, string) std_map \<Rightarrow> 'w \<Rightarrow> ((Table_Id, Table_Id) std_map \<times> 'w) result" where
  "dump_tables W i [] w = Inr ([], w)"
| "dump_tables W i ((tid, tname) # ts) w =
     bind_result (handle W (Create_Table tname) w) (\<lambda>w1.
     bind_result (dump_tables W (i + 1) ts w1) (\<lambda>(m, w2). Inr ((tid, i + 1) # m, w2)))"

definition mapped_type :: "(Table_Id, Table_Id) std_map \<Rightarrow> Type \<Rightarrow> Type" where
  "mapped_type m ty = (if type_id ty = Reference_Type then reference_type (mapped m (type_table_id ty)) else ty)"

fun dump_table_fields :: "Database \<Rightarrow> 'w Writable \<Rightarrow> (Table_Id, Table_Id) std_map \<Rightarrow> Table_Id \<Rightarrow> Field_Id \<Rightarrow> (Field_Id, string) std_map \<Rightarrow> 'w \<Rightarrow> ((Field_Id, Field_Id) std_map \<times> 'w) result" where
  "dump_table_fields db W m tid i [] w = Inr ([], w)"
| "dump_table_fields db W m tid i ((fid, fname) # fs) w =
     bind_result (handle W (Add_Field (mapped m tid) fname (mapped_type m (get_field_type tid fid db))) w) (\<lambda>w1.
     bind_result (dump_table_fields db W m tid (i + 1) fs w1) (\<lambda>(fm, w2). Inr ((fid, i + 1) # fm, w2)))"

fun dump_fields :: "Database \<Rightarrow> 'w Writable \<Rightarrow> (Table_Id, Table_Id) std_map \<Rightarrow> (Table_Id, string) std_map \<Rightarrow> 'w \<Rightarrow> ((Table_Id, (Field_Id, Field_Id) std_map) std_map \<times> 'w) result" where
  "dump_fields db W m [] w = Inr ([], w)"
| "dump_fields db W m ((tid, tname) # ts) w =
     bind_result (get_fields tid db) (\<lambda>fs.
     bind_result (dump_table_fields db W m tid 0 fs w) (\<lambda>(fm, w1).
     bind_result (dump_fields db W m ts w1) (\<lambda>(fms, w2). Inr ((tid, fm) # fms, w2))))"

text \<open>The value of one field of one record, if its type is one of the macro.\<close>

definition dump_update :: "Database \<Rightarrow> 'w Writable \<Rightarrow> Table_Id \<Rightarrow> Field_Id \<Rightarrow> Table_Id \<Rightarrow> Field_Id \<Rightarrow> Record_Id \<Rightarrow> 'w \<Rightarrow> 'w result" where
  "dump_update db W i f tid fid r w =
     (let ty = type_id (get_field_type tid fid db) in
      if macro_type ty then bind_result (db_get ty tid r fid db) (\<lambda>v. handle W (Update i r f (as_argument v)) w) else Inr w)"

definition dump_column :: "Database \<Rightarrow> 'w Writable \<Rightarrow> Table_Id \<Rightarrow> Field_Id \<Rightarrow> Table_Id \<Rightarrow> Field_Id \<Rightarrow> 'w \<Rightarrow> 'w result" where
  "dump_column db W i f tid fid w =
     bind_result (get_freedom tid db) (\<lambda>k.
     fold_result (\<lambda>r w. if fk_is_used k r then dump_update db W i f tid fid r w else Inr w) [0..fk_get_size k - 1] w)"

fun dump_records :: "Database \<Rightarrow> 'w Writable \<Rightarrow> (Table_Id, Table_Id) std_map \<Rightarrow> (Table_Id, (Field_Id, Field_Id) std_map) std_map \<Rightarrow> (Table_Id, string) std_map \<Rightarrow> 'w \<Rightarrow> 'w result" where
  "dump_records db W m fms [] w = Inr w"
| "dump_records db W m fms ((tid, tname) # ts) w =
     bind_result (get_freedom tid db) (\<lambda>k.
     bind_result (for_runs (\<lambda>r n. handle W (Insert_Vector (mapped m tid) r n)) (fk_is_used k) (fk_get_size k) 0 w) (\<lambda>w1.
     bind_result (get_fields tid db) (\<lambda>fs.
     bind_result (fold_result (\<lambda>(fid, fname).
         dump_column db W (mapped m tid) (mapped (case map_of fms tid of Some fm \<Rightarrow> fm | None \<Rightarrow> []) fid) tid fid) fs w1)
       (dump_records db W m fms ts))))"

definition dump :: "Database \<Rightarrow> 'w Writable \<Rightarrow> bool \<Rightarrow> 'w \<Rightarrow> 'w result" where
  "dump db W schema_only w =
     bind_result (dump_tables W 0 (table_names db) w) (\<lambda>(m, w1).
     bind_result (dump_fields db W m (table_names db) w1) (\<lambda>(fms, w2).
     if schema_only then Inr w2 else dump_records db W m fms (table_names db) w2))"

section \<open>dump_data and pack\<close>

text \<open>The vector that starts at the address of the value of the first record.\<close>

fun column_values :: "Type_Id \<Rightarrow> Table_Id \<Rightarrow> Field_Id \<Rightarrow> Database \<Rightarrow> Record_Id \<Rightarrow> nat \<Rightarrow> field_value list result" where
  "column_values ty tid fid db r 0 = Inr []"
| "column_values ty tid fid db r (Suc n) =
     bind_result (db_get ty tid r fid db) (\<lambda>v. bind_result (column_values ty tid fid db (r + 1) n) (\<lambda>vs. Inr (v # vs)))"

definition dump_data_field :: "Database \<Rightarrow> 'w Writable \<Rightarrow> Table_Id \<Rightarrow> Record_Id \<Rightarrow> nat \<Rightarrow> Field_Id \<Rightarrow> 'w \<Rightarrow> 'w result" where
  "dump_data_field db W tid r n fid w =
     (let ty = type_id (get_field_type tid fid db) in
      if macro_type ty then
        if n > 1 then bind_result (column_values ty tid fid db r n) (\<lambda>vs. handle W (Update_Vector tid r fid ty vs) w)
        else bind_result (db_get ty tid r fid db) (\<lambda>v. handle W (Update tid r fid (as_argument v)) w)
      else Inr w)"

definition dump_data_run :: "Database \<Rightarrow> 'w Writable \<Rightarrow> Table_Id \<Rightarrow> Record_Id \<Rightarrow> nat \<Rightarrow> 'w \<Rightarrow> 'w result" where
  "dump_data_run db W tid r n w =
     bind_result (handle W (if n > 1 then Insert_Vector tid r n else Insert_Into tid r) w) (\<lambda>w1.
     bind_result (get_fields tid db) (\<lambda>fs. fold_result (\<lambda>(fid, fname). dump_data_field db W tid r n fid) fs w1))"

definition dump_data_table :: "Database \<Rightarrow> 'w Writable \<Rightarrow> Table_Id \<Rightarrow> 'w \<Rightarrow> 'w result" where
  "dump_data_table db W tid w =
     bind_result (get_freedom tid db) (\<lambda>k. for_runs (dump_data_run db W tid) (fk_is_used k) (fk_get_size k) 0 w)"

definition dump_data :: "Database \<Rightarrow> 'w Writable \<Rightarrow> 'w \<Rightarrow> 'w result" where
  "dump_data db W w =
     bind_result (fold_result (\<lambda>(tid, tname). dump_data_table db W tid) (table_names db) w) (handle W Soft_Checkpoint)"

text \<open>
  \<open>pack\<close> plays the journal into a database and, through a filter for the schema, into the output; then it
  writes the data of the database. The two writables of the multiplexer are local to the function.
\<close>

definition pack_multiplexer :: "'w Writable \<Rightarrow> Database \<Rightarrow> 'w Selective_Writable \<Rightarrow> (Database + 'w Selective_Writable) Multiplexer" where
  "pack_multiplexer W db s = multiplexer_new
     [(left_writable database_writable, Inl db), (right_writable (selective_writable Schema_Mode W), Inr s)]"

definition pack_parts :: "(Database + 'w Selective_Writable) Multiplexer \<Rightarrow> (Database \<times> 'w Selective_Writable) option" where
  "pack_parts m = (case map snd (writables m) of [Inl db, Inr s] \<Rightarrow> Some (db, s) | _ \<Rightarrow> None)"

definition pack :: "'f Abstract_File \<Rightarrow> 'w Writable \<Rightarrow> 'f Journal \<Rightarrow> 'w \<Rightarrow> ('f Journal \<times> 'w) result" where
  "pack F W j w =
     bind_result (raw_play_until F multiplexer_writable (checkpoint_position j) j
       (pack_multiplexer W (db_new null_record) (selective_new w))) (\<lambda>(j', m).
     case pack_parts m of
       None \<Rightarrow> Inl Out_Of_Bounds
     | Some (db, s) \<Rightarrow>
         if blob_found s then Inl (Exception ''can't pack blobs'')
         else bind_result (dump_data db W (selected s)) (\<lambda>w'. Inr (j', w')))"

section \<open>JSON\<close>

text \<open>
  The characters that \<open>write_string\<close> has written when it returns, or when it throws at a character that is
  not UTF-8: the second component tells which.
\<close>

function json_chars :: "byte list \<Rightarrow> byte list \<times> bool" where
  "json_chars [] = ([], True)"
| "json_chars (c # cs) =
     (if c < 0x20 \<or> c = 0x7f then
        (case json_chars cs of (out, ok) \<Rightarrow>
          ([92, 117, 48, 48, get_hex_char_from_digit (drop_bit 4 c), get_hex_char_from_digit (c AND 0x0f)] @ out, ok))
      else if c = 34 \<or> c = 92 then (case json_chars cs of (out, ok) \<Rightarrow> ([92, c] @ out, ok))
      else if utf8_tail c cs > 0 then
        (case json_chars (drop (utf8_tail c cs) cs) of (out, ok) \<Rightarrow> (c # take (utf8_tail c cs) cs @ out, ok))
      else if c AND 0x80 \<noteq> 0 then ([], False)
      else (case json_chars cs of (out, ok) \<Rightarrow> (c # out, ok)))"
  by pat_completeness auto
termination
  by (relation "measure length") auto

declare json_chars.simps(2) [simp del]

definition write_json_string :: "string \<Rightarrow> bool \<Rightarrow> nat \<times> byte list" where
  "write_json_string s base64 =
     (if base64 then (0, [34] @ base64_encode (bytes_of s) @ [34])
      else case json_chars (bytes_of s) of
        (out, True) \<Rightarrow> (0, [34] @ out @ [34])
      | (out, False) \<Rightarrow> (1, [34] @ out @ bytes_of ''!!! This string is not utf8 !!!'' @ [34]))"

text \<open>The position of every record among the used ones of its table, \<open>-1\<close> for the others, and their number.\<close>

fun translate :: "(Record_Id \<Rightarrow> bool) \<Rightarrow> Record_Id list \<Rightarrow> int \<Rightarrow> int list \<times> int" where
  "translate used [] p = ([], p)"
| "translate used (r # rs) p =
     (if used r then case translate used rs (p + 1) of (v, q) \<Rightarrow> (p # v, q)
      else case translate used rs p of (v, q) \<Rightarrow> (- 1 # v, q))"

fun reference_translations :: "Database \<Rightarrow> (Table_Id, string) std_map \<Rightarrow> ((Table_Id, int list \<times> int) std_map) result" where
  "reference_translations db [] = Inr []"
| "reference_translations db ((tid, tname) # ts) =
     bind_result (get_freedom tid db) (\<lambda>k.
     bind_result (reference_translations db ts) (\<lambda>m. Inr ((tid, translate (fk_is_used k) [0..fk_get_size k - 1] 0) # m)))"

definition is_nan_or_inf :: "field_value \<Rightarrow> bool" where
  "is_nan_or_inf v =
     (case v of
        Float32_Value w \<Rightarrow> drop_bit 23 w AND 0xff = 0xff
      | Float64_Value w \<Rightarrow> drop_bit 52 w AND 0x7ff = 0x7ff
      | _ \<Rightarrow> False)"

definition json_reference :: "(Table_Id, int list \<times> int) std_map \<Rightarrow> Table_Id \<Rightarrow> Record_Id \<Rightarrow> int" where
  "json_reference m tid r =
     (case map_of m tid of
        Some (v, n) \<Rightarrow> if r < 0 \<or> nat r \<ge> length v then - 1 else v ! nat r
      | None \<Rightarrow> r)"

definition json_value :: "Float_Text \<Rightarrow> (Table_Id, int list \<times> int) std_map \<Rightarrow> bool \<Rightarrow> Type \<Rightarrow> field_value \<Rightarrow> (nat \<times> byte list) result" where
  "json_value F m base64 ty v =
     (case v of
        Reference_Value r \<Rightarrow> Inr (0, show_int (json_reference m (type_table_id ty) r))
      | String_Value s \<Rightarrow> Inr (write_json_string s base64)
      | Blob_Value b \<Rightarrow> Inr (0, [91] @ write_blob_text b @ [93])
      | _ \<Rightarrow> if is_nan_or_inf v then Inr (2, [48]) else bind_result (value_text F v) (\<lambda>t. Inr (0, t)))"

text \<open>The elements of the array of a field, with their separators, and the flags of the errors.\<close>

fun json_records :: "Float_Text \<Rightarrow> Database \<Rightarrow> (Table_Id, int list \<times> int) std_map \<Rightarrow> bool \<Rightarrow> Table_Id \<Rightarrow> Field_Id \<Rightarrow> Type \<Rightarrow> bool \<Rightarrow> Record_Id list \<Rightarrow> (nat \<times> byte list) result" where
  "json_records F db m base64 tid fid ty first [] = Inr (0, [])"
| "json_records F db m base64 tid fid ty first (r # rs) =
     bind_result (if macro_type (type_id ty) then bind_result (db_get (type_id ty) tid r fid db) (json_value F m base64 ty)
                  else Inr (0, [])) (\<lambda>(e, t).
     bind_result (json_records F db m base64 tid fid ty False rs) (\<lambda>(es, ts).
     Inr (e OR es, (if first then [] else [44, 32]) @ t @ ts)))"

fun json_fields :: "Float_Text \<Rightarrow> Database \<Rightarrow> (Table_Id, int list \<times> int) std_map \<Rightarrow> bool \<Rightarrow> Table_Id \<Rightarrow> Freedom_Keeper \<Rightarrow> (Field_Id, string) std_map \<Rightarrow> (nat \<times> byte list) result" where
  "json_fields F db m base64 tid k [] = Inr (0, [])"
| "json_fields F db m base64 tid k ((fid, fname) # fs) =
     bind_result (json_records F db m base64 tid fid (get_field_type tid fid db) True
       (filter (fk_is_used k) [0..fk_get_size k - 1])) (\<lambda>(e, t).
     bind_result (json_fields F db m base64 tid k fs) (\<lambda>(es, ts).
     Inr (e OR es, bytes_of '','' @ newline @ bytes_of (''  '' @ quoted fname @ '': ['') @ t @ bytes_of '']'' @ ts)))"

fun json_tables :: "Float_Text \<Rightarrow> Database \<Rightarrow> (Table_Id, int list \<times> int) std_map \<Rightarrow> bool \<Rightarrow> bool \<Rightarrow> (Table_Id, string) std_map \<Rightarrow> (nat \<times> byte list) result" where
  "json_tables F db m base64 first [] = Inr (0, [])"
| "json_tables F db m base64 first ((tid, tname) # ts) =
     bind_result (get_freedom tid db) (\<lambda>k.
     bind_result (get_fields tid db) (\<lambda>fs.
     bind_result (json_fields F db m base64 tid k fs) (\<lambda>(e, t).
     bind_result (json_tables F db m base64 False ts) (\<lambda>(es, rest).
     Inr (e OR es,
       (if first then [] else bytes_of '','' @ newline) @ bytes_of ('' '' @ quoted tname @ '':'') @ newline @ bytes_of '' {'' @ newline @
       bytes_of (''  '' @ quoted ''__size'' @ '': '') @ show_int (case map_of m tid of Some (v, n) \<Rightarrow> n | None \<Rightarrow> 0) @ t @
       newline @ bytes_of '' }'' @ rest)))))"

definition write_json :: "Float_Text \<Rightarrow> Database \<Rightarrow> bool \<Rightarrow> (nat \<times> byte list) result" where
  "write_json F db base64 =
     bind_result (reference_translations db (table_names db)) (\<lambda>m.
     bind_result (json_tables F db m base64 True (table_names db)) (\<lambda>(e, t).
     Inr (e, bytes_of ''{'' @ newline @ t @ newline @ bytes_of ''}'' @ newline)))"

end
