(* ===== verification/Interpreter.thy ===== *)
theory Interpreter
  imports Dump
begin

text \<open>
  Model of the command interpreter: \<open>src/src/joedb/ui/Command_Interpreter.h/.cpp\<close>,
  \<open>Readable_Command_Processor\<close>, \<open>Writable_Command_Processor\<close>, \<open>Data_Manipulation_Command_Processor\<close>,
  \<open>Readable_Writable_Command_Processor\<close> and \<open>Interpreter.h\<close>.

  The interpreter reads lines from a stream and applies them to a \<open>Readable\<close> and a \<open>Writable\<close>. They may be
  one object, so that they are two views of one state, the \<open>Target\<close>. An exception keeps what the
  command did before it; the call of the writable that throws leaves the target unchanged.
\<close>

section \<open>State\<close>

text \<open>
  \<open>view\<close> is the content that the \<open>Readable\<close> shows; \<open>written_blob\<close> is the blob that \<open>write_blob\<close> returns.
\<close>

record 's Target =
  view :: "'s \<Rightarrow> Database"
  target_writable :: "'s Writable"
  written_blob :: "string \<Rightarrow> 's \<Rightarrow> Blob"

text \<open>
  What the commands use of the system: floating-point text, the width of a character, the files that
  \<open>include\<close> can open, the text of \<open>about\<close>, and the clock, by the number of times it was read.
\<close>

record Shell_Env =
  env_floats :: Float_Text
  env_width :: "32 word \<Rightarrow> int"
  env_files :: "string \<Rightarrow> byte list option"
  env_about :: "byte list"
  env_clock :: "nat \<Rightarrow> 64 word"

record 's Interp =
  echo :: bool
  rethrow :: bool
  prompt :: bool
  last_line_empty :: bool
  prompt_string :: "byte list"
  parent_prompt :: "byte list option"
  console :: "byte list"
  clock_reads :: nat
  target :: 's

definition interp_new :: "'s \<Rightarrow> 's Interp" where
  "interp_new s = \<lparr>echo = True, rethrow = False, prompt = False, last_line_empty = True,
     prompt_string = bytes_of ''joedbi'', parent_prompt = None, console = [], clock_reads = 0, target = s\<rparr>"

datatype Status = Status_Ok | Status_Done | Status_Quit | Status_Abort | Status_Not_Found

text \<open>A piece of code that may throw, keeping the state.\<close>

type_synonym ('a, 's) run = "'s Interp \<Rightarrow> 'a result \<times> 's Interp"

definition bind_run :: "('a, 's) run \<Rightarrow> ('a \<Rightarrow> ('b, 's) run) \<Rightarrow> ('b, 's) run" where
  "bind_run m f i = (case m i of (Inl e, i') \<Rightarrow> (Inl e, i') | (Inr x, i') \<Rightarrow> f x i')"

definition pure :: "'a result \<Rightarrow> ('a, 's) run" where
  "pure r i = (r, i)"

definition print :: "byte list \<Rightarrow> 's Interp \<Rightarrow> 's Interp" where
  "print t i = i\<lparr>console := console i @ t\<rparr>"

definition put :: "byte list \<Rightarrow> (unit, 's) run" where
  "put t i = (Inr (), print t i)"

definition call_target :: "'s Target \<Rightarrow> event \<Rightarrow> (unit, 's) run" where
  "call_target T e i = (case handle (target_writable T) e (target i) of Inl x \<Rightarrow> (Inl x, i) | Inr s \<Rightarrow> (Inr (), i\<lparr>target := s\<rparr>))"

definition and_done :: "(unit, 's) run \<Rightarrow> (Status, 's) run" where
  "and_done m = bind_run m (\<lambda>_. pure (Inr Status_Done))"

definition content_of :: "'s Target \<Rightarrow> 's Interp \<Rightarrow> Database" where
  "content_of T i = view T (target i)"

text \<open>The lines of a help text.\<close>

definition lines :: "string list \<Rightarrow> byte list" where
  "lines ls = concat (map (\<lambda>l. bytes_of l @ newline) ls)"

section \<open>Readable_Command_Processor\<close>

definition parse_table :: "Istream \<Rightarrow> Database \<Rightarrow> (Table_Id \<times> Istream) result" where
  "parse_table s db =
     (case read_word s of (name, s1) \<Rightarrow>
      if find_table db name = 0 then Inl (Exception (''No such table: '' @ name)) else Inr (find_table db name, s1))"

fun map_result :: "('a \<Rightarrow> 'b result) \<Rightarrow> 'a list \<Rightarrow> 'b list result" where
  "map_result f [] = Inr []"
| "map_result f (x # xs) = bind_result (f x) (\<lambda>y. bind_result (map_result f xs) (\<lambda>ys. Inr (y # ys)))"

text \<open>\<open>std::setw\<close>\<close>

definition padded :: "nat \<Rightarrow> byte list \<Rightarrow> byte list" where
  "padded n t = replicate (n - length t) 32 @ t"

definition is_string_field :: "Database \<Rightarrow> Table_Id \<Rightarrow> Field_Id \<Rightarrow> bool" where
  "is_string_field db tid fid \<longleftrightarrow> type_id (get_field_type tid fid db) = String_Type"

definition column_width :: "(32 word \<Rightarrow> int) \<Rightarrow> nat \<Rightarrow> string \<Rightarrow> byte list list \<Rightarrow> nat" where
  "column_width width limit name texts =
     (let w = foldl max (length name) (map (utf8_display_size width) texts)
      in if limit \<noteq> 0 \<and> w > limit then limit else w)"

definition justified_cell :: "(32 word \<Rightarrow> int) \<Rightarrow> Database \<Rightarrow> Table_Id \<Rightarrow> Field_Id \<Rightarrow> nat \<Rightarrow> byte list \<Rightarrow> byte list" where
  "justified_cell width db tid fid w t = [32] @ write_justified width t (word_of_nat w) (is_string_field db tid fid)"

definition table_rows :: "Freedom_Keeper \<Rightarrow> Record_Id \<Rightarrow> nat \<Rightarrow> Record_Id list" where
  "table_rows k start len =
     filter (\<lambda>r. fk_is_used k r \<and> (len = 0 \<or> (r \<ge> start \<and> r < start + int len))) [0..fk_get_size k - 1]"

definition print_table :: "Shell_Env \<Rightarrow> Database \<Rightarrow> Table_Id \<Rightarrow> nat \<Rightarrow> Record_Id \<Rightarrow> nat \<Rightarrow> byte list result" where
  "print_table E db tid limit start len =
     (if tid = 0 then Inr []
      else bind_result (get_fields tid db) (\<lambda>fields.
        bind_result (get_freedom tid db) (\<lambda>k.
        let rows = table_rows k start len in
        bind_result (map_result (\<lambda>(fid, fname). map_result (\<lambda>r. write_value_text (env_floats E) db tid r fid) rows) fields) (\<lambda>columns.
        let id_width = length (show_int (fk_get_size k - 1));
            columns' = map (\<lambda>((fid, fname), texts). (fid, fname, texts, column_width (env_width E) limit fname texts)) (zip fields columns);
            table_width = foldl (\<lambda>n (fid, fname, texts, w). n + (w + 1)) id_width columns';
            rule = replicate table_width 45 @ newline;
            cell = justified_cell (env_width E) db tid
        in Inr (rule @ replicate id_width 32 @
             concat (map (\<lambda>(fid, fname, texts, w). cell fid w (bytes_of fname)) columns') @ newline @ rule @
             concat (map (\<lambda>i. padded id_width (show_int (rows ! i)) @
                              concat (map (\<lambda>(fid, fname, texts, w). cell fid w (texts ! i)) columns') @ newline) [0..<length rows]))))))"

definition table_command :: "Shell_Env \<Rightarrow> Database \<Rightarrow> Istream \<Rightarrow> byte list result" where
  "table_command E db s =
     bind_result (parse_table s db) (\<lambda>(tid, s1).
     case read_unsigned 64 s1 of (w, s2) \<Rightarrow>
     case read_record_id 0 s2 of (start, s3) \<Rightarrow>
     case read_unsigned 64 s3 of (len, s4) \<Rightarrow>
     print_table E db tid (if in_fail s2 then 25 else w) start len)"

definition record_line :: "string \<Rightarrow> byte list \<Rightarrow> byte list" where
  "record_line name t = bytes_of name @ t @ newline"

definition record_command :: "Shell_Env \<Rightarrow> Database \<Rightarrow> Istream \<Rightarrow> byte list result" where
  "record_command E db s =
     bind_result (parse_table s db) (\<lambda>(tid, s1).
     case read_record_id null_record s1 of (r, s2) \<Rightarrow>
     bind_result (get_freedom tid db) (\<lambda>k.
     if \<not> fk_is_used k r then
       Inr ((if r \<ge> 0 then show_int r @ bytes_of '' is not used.'' @ newline else []) @
            record_line ''first_used: '' (show_int (fk_get_first_used k)) @
            record_line ''last_used: '' (show_int (fk_get_last_used k)) @
            record_line ''used_count: '' (show_int (fk_get_used_count k)) @
            record_line ''size: '' (show_int (fk_get_size k)) @
            record_line ''dense: '' (show_nat (if dense k then 1 else 0)))
     else
       bind_result (get_fields tid db) (\<lambda>fields.
       let max_field_size = foldl max 0 (map (\<lambda>(fid, fname). length fname) fields) in
       bind_result (map_result (\<lambda>(fid, fname).
           bind_result (write_value_text (env_floats E) db tid r fid) (\<lambda>t.
           Inr (padded max_field_size (bytes_of fname) @ bytes_of '': '' @ t @ newline))) fields) (\<lambda>ls.
       Inr (bytes_of ''id = '' @ show_int r @ bytes_of ''; next = '' @ show_int (fk_get_next k r) @
            record_line ''; previous = '' (show_int (fk_get_previous k r)) @ concat ls)))))"

text \<open>\<open>in >> flag\<close> for a \<open>bool\<close> that is false before.\<close>

definition read_flag :: "Istream \<Rightarrow> bool \<times> Istream" where
  "read_flag s = (case read_signed 64 s of (v, s1) \<Rightarrow> (v \<noteq> 0, if v = 0 \<or> v = 1 then s1 else s1\<lparr>in_fail := True\<rparr>))"

definition readable_help :: "byte list" where
  "readable_help = lines [''Displaying data'', ''~~~~~~~~~~~~~~~'', '' table <table_name> [<max_column_width>] [start] [length]'',
     '' record <table_name> [<record_id>]'', '' schema'', '' dump'', '' sql'', '' json [<base64>]'', '''']"

definition readable_command :: "Shell_Env \<Rightarrow> Database \<Rightarrow> string \<Rightarrow> Istream \<Rightarrow> (Status \<times> byte list) result" where
  "readable_command E db command s =
     (if command = ''table'' then bind_result (table_command E db s) (\<lambda>t. Inr (Status_Done, t))
      else if command = ''record'' then bind_result (record_command E db s) (\<lambda>t. Inr (Status_Done, t))
      else if command = ''schema'' then
        bind_result (dump db (interpreter_dump_writable (env_floats E) True) True text_dump_new) (\<lambda>d. Inr (Status_Done, dump_out d))
      else if command = ''dump'' then
        bind_result (dump db (interpreter_dump_writable (env_floats E) True) False text_dump_new) (\<lambda>d. Inr (Status_Done, dump_out d))
      else if command = ''sql'' then
        bind_result (dump db (sql_dump_writable (env_floats E) None) False text_dump_new) (\<lambda>d. Inr (Status_Done, dump_out d))
      else if command = ''json'' then
        bind_result (write_json (env_floats E) db (fst (read_flag s))) (\<lambda>(e, t). Inr (Status_Done, t))
      else if command = ''help'' then Inr (Status_Ok, readable_help)
      else Inr (Status_Not_Found, []))"

section \<open>Writable_Command_Processor\<close>

definition writable_help :: "byte list" where
  "writable_help = lines [''Journal'', ''~~~~~~~'', '' timestamp [<stamp>] (if no value is given, use current time)'',
     '' comment '' @ quoted ''<comment_string>'', '' valid_data'', '' flush'', '' [soft_]checkpoint'', '' hard_checkpoint'',
     '' write_blob <data_string>'', '''']"

definition timestamp_command :: "Shell_Env \<Rightarrow> 's Target \<Rightarrow> Istream \<Rightarrow> (unit, 's) run" where
  "timestamp_command E T s i =
     (case read_signed 64 s of (t, s1) \<Rightarrow>
      if in_fail s1 then call_target T (Timestamp (env_clock E (clock_reads i))) (i\<lparr>clock_reads := clock_reads i + 1\<rparr>)
      else call_target T (Timestamp (word_of_int t)) i)"

definition write_blob_command :: "'s Target \<Rightarrow> Istream \<Rightarrow> (unit, 's) run" where
  "write_blob_command T s i =
     (let data = string_of (fst (read_text s)) in
      bind_run (call_target T (Write_Blob data)) (\<lambda>_. put (write_blob_text (written_blob T data (target i)) @ newline)) i)"

definition writable_command :: "Shell_Env \<Rightarrow> 's Target \<Rightarrow> string \<Rightarrow> Istream \<Rightarrow> (Status, 's) run" where
  "writable_command E T command s =
     (if command = ''help'' then bind_run (put writable_help) (\<lambda>_. pure (Inr Status_Ok))
      else if command = ''comment'' then and_done (call_target T (Comment (string_of (fst (read_text s)))))
      else if command = ''timestamp'' then and_done (timestamp_command E T s)
      else if command = ''valid_data'' then and_done (call_target T Valid_Data)
      else if command = ''flush'' then and_done (call_target T Flush)
      else if command = ''soft_checkpoint'' \<or> command = ''checkpoint'' then and_done (call_target T Soft_Checkpoint)
      else if command = ''hard_checkpoint'' then and_done (call_target T Hard_Checkpoint)
      else if command = ''write_blob'' then and_done (write_blob_command T s)
      else pure (Inr Status_Not_Found))"

section \<open>Data_Manipulation_Command_Processor\<close>

definition safe_read :: "Float_Text \<Rightarrow> Type_Id \<Rightarrow> Istream \<Rightarrow> (field_value \<times> Istream) result" where
  "safe_read F ty s =
     (case read_value_text F ty s of (v, s1) \<Rightarrow> if in_fail s1 then Inl (Exception ''failed parsing value'') else Inr (v, s1))"

definition update_value :: "Float_Text \<Rightarrow> 's Target \<Rightarrow> Istream \<Rightarrow> Table_Id \<Rightarrow> Record_Id \<Rightarrow> Field_Id \<Rightarrow> (Istream, 's) run" where
  "update_value F T s tid r fid i =
     (let ty = type_id (get_field_type tid fid (content_of T i)) in
      if ty = Null_Type then (Inl (Exception ''bad field''), i)
      else if macro_type ty then
        bind_run (pure (safe_read F ty s)) (\<lambda>(v, s1). bind_run (call_target T (Update tid r fid v)) (\<lambda>_. pure (Inr s1))) i
      else (Inr s, i))"

fun update_values :: "Float_Text \<Rightarrow> 's Target \<Rightarrow> Istream \<Rightarrow> Table_Id \<Rightarrow> Record_Id \<Rightarrow> (Field_Id, string) std_map \<Rightarrow> (unit, 's) run" where
  "update_values F T s tid r [] = pure (Inr ())"
| "update_values F T s tid r ((fid, fname) # fs) =
     bind_run (update_value F T s tid r fid) (\<lambda>s1. update_values F T s1 tid r fs)"

definition insert_command :: "Float_Text \<Rightarrow> 's Target \<Rightarrow> bool \<Rightarrow> Istream \<Rightarrow> (unit, 's) run" where
  "insert_command F T at_end s i =
     bind_run (pure (parse_table s (content_of T i))) (\<lambda>(tid, s1).
     case (if at_end then (null_record, s1) else read_record_id null_record s1) of (r0, s2) \<Rightarrow>
     bind_run (pure (if r0 < 0 then readable_get_size tid (content_of T i) else Inr r0)) (\<lambda>r.
     bind_run (call_target T (Insert_Into tid r)) (\<lambda>_ i'.
     if stream_good s2 then bind_run (pure (get_fields tid (content_of T i'))) (update_values F T s2 tid r) i'
     else (Inr (), i')))) i"

fun safe_read_vector :: "Float_Text \<Rightarrow> Type_Id \<Rightarrow> nat \<Rightarrow> Istream \<Rightarrow> field_value list result" where
  "safe_read_vector F ty 0 s = Inr []"
| "safe_read_vector F ty (Suc n) s =
     bind_result (safe_read F ty s) (\<lambda>(v, s1). bind_result (safe_read_vector F ty n s1) (\<lambda>vs. Inr (v # vs)))"

text \<open>The record and the field that \<open>update\<close> and \<open>update_vector\<close> start with.\<close>

definition parse_cell :: "Istream \<Rightarrow> Database \<Rightarrow> (Table_Id \<times> Record_Id \<times> Field_Id \<times> Istream) result" where
  "parse_cell s db =
     bind_result (parse_table s db) (\<lambda>(tid, s1).
     case read_record_id null_record s1 of (r, s2) \<Rightarrow>
     case read_word s2 of (name, s3) \<Rightarrow> Inr (tid, r, find_field db tid name, s3))"

definition update_command :: "Float_Text \<Rightarrow> 's Target \<Rightarrow> Istream \<Rightarrow> (unit, 's) run" where
  "update_command F T s i =
     bind_run (pure (parse_cell s (content_of T i))) (\<lambda>(tid, r, fid, s1).
     bind_run (update_value F T s1 tid r fid) (\<lambda>_. pure (Inr ()))) i"

definition update_vector_command :: "Float_Text \<Rightarrow> 's Target \<Rightarrow> Record_Id \<Rightarrow> Istream \<Rightarrow> (unit, 's) run" where
  "update_vector_command F T limit s i =
     bind_run (pure (parse_cell s (content_of T i))) (\<lambda>(tid, r, fid, s1).
     case read_unsigned 64 s1 of (n, s2) \<Rightarrow>
     if limit \<ge> 0 \<and> int n \<ge> limit then pure (Inl (Exception ''vector is too big''))
     else if n > 0 then
       let ty = type_id (get_field_type tid fid (content_of T i)) in
       if ty = Null_Type then pure (Inl (Exception ''bad field''))
       else if macro_type ty then
         bind_run (pure (safe_read_vector F ty n s2)) (\<lambda>vs. call_target T (Update_Vector tid r fid ty vs))
       else pure (Inr ())
     else pure (Inr ())) i"

definition delete_command :: "'s Target \<Rightarrow> Istream \<Rightarrow> (unit, 's) run" where
  "delete_command T s i =
     bind_run (pure (parse_table s (content_of T i))) (\<lambda>(tid, s1). call_target T (Delete_From tid (fst (read_record_id null_record s1)))) i"

text \<open>\<open>insert_vector\<close> and \<open>delete_vector\<close>\<close>

definition vector_command :: "'s Target \<Rightarrow> (Table_Id \<Rightarrow> Record_Id \<Rightarrow> nat \<Rightarrow> event) \<Rightarrow> Istream \<Rightarrow> (unit, 's) run" where
  "vector_command T e s i =
     bind_run (pure (parse_table s (content_of T i))) (\<lambda>(tid, s1).
     case read_record_id null_record s1 of (r, s2) \<Rightarrow> call_target T (e tid r (fst (read_unsigned 64 s2)))) i"

definition manipulation_help :: "byte list" where
  "manipulation_help = lines [''Data manipulation'', ''~~~~~~~~~~~~~~~~~'', '' append_into <table_name> [<field_value>*]'',
     '' insert_into <table_name> <record_id> [<field_value>*]'', '' delete_from <table_name> <record_id>'',
     '' insert_vector <table_name> <record_id> <size>'', '' delete_vector <table_name> <record_id> <size>'',
     '' update <table_name> <record_id> <field_name> <value>'',
     '' update_vector <table_name> <record_id> <field_name> <N> <v_1> ... <v_N>'', '''']"

definition manipulation_command :: "Shell_Env \<Rightarrow> 's Target \<Rightarrow> Record_Id \<Rightarrow> string \<Rightarrow> Istream \<Rightarrow> (Status, 's) run" where
  "manipulation_command E T limit command s i =
     bind_run (pure (readable_command E (content_of T i) command s)) (\<lambda>(st, t).
     bind_run (put t) (\<lambda>_.
     if st = Status_Done then pure (Inr st)
     else if command = ''help'' then bind_run (put manipulation_help) (\<lambda>_. pure (Inr Status_Ok))
     else if command = ''append_into'' then and_done (insert_command (env_floats E) T True s)
     else if command = ''insert_into'' then and_done (insert_command (env_floats E) T False s)
     else if command = ''delete_from'' then and_done (delete_command T s)
     else if command = ''insert_vector'' then and_done (vector_command T Insert_Vector s)
     else if command = ''delete_vector'' then and_done (vector_command T Delete_Vector s)
     else if command = ''update'' then and_done (update_command (env_floats E) T s)
     else if command = ''update_vector'' then and_done (update_vector_command (env_floats E) T limit s)
     else pure (Inr Status_Not_Found))) i"

section \<open>Readable_Writable_Command_Processor\<close>

definition macro_type_of_name :: "string \<Rightarrow> Type_Id option" where
  "macro_type_of_name name =
     List.find (\<lambda>t. type_name t = name)
       [String_Type, Int32_Type, Int64_Type, Boolean_Type, Float32_Type, Float64_Type, Int8_Type, Int16_Type, Blob_Type]"

definition parse_type :: "Istream \<Rightarrow> Database \<Rightarrow> (Type \<times> Istream) result" where
  "parse_type s db =
     (case read_word s of (name, s1) \<Rightarrow>
      let (tid, s2) = (if name = ''references'' then case read_word s1 of (tname, s2) \<Rightarrow> (find_table db tname, s2) else (0, s1)) in
      if tid \<noteq> 0 then Inr (reference_type tid, s2)
      else case macro_type_of_name name of
        Some t \<Rightarrow> Inr (simple_type t, s2)
      | None \<Rightarrow> Inl (Exception ''unknown type''))"

text \<open>The default value of a new field, for every record in use.\<close>

definition fill_column :: "'s Target \<Rightarrow> Table_Id \<Rightarrow> Field_Id \<Rightarrow> field_value \<Rightarrow> Record_Id \<Rightarrow> (unit, 's) run" where
  "fill_column T tid fid v n =
     foldl (\<lambda>m r. bind_run m (\<lambda>_ i. bind_run (pure (readable_is_used tid r (content_of T i))) (\<lambda>used.
       if used then call_target T (Update tid r fid v) else pure (Inr ())) i)) (pure (Inr ())) [0..n - 1]"

definition default_command :: "Float_Text \<Rightarrow> 's Target \<Rightarrow> Table_Id \<Rightarrow> Type_Id \<Rightarrow> Istream \<Rightarrow> (unit, 's) run" where
  "default_command F T tid ty s i =
     bind_run (pure (get_fields tid (content_of T i))) (\<lambda>fields.
     bind_run (pure (readable_get_size tid (content_of T i))) (\<lambda>n.
     if fields = [] then pure (Inl Out_Of_Bounds)
     else fill_column T tid (fst (last fields)) (fst (read_value_text F ty s)) n)) i"

definition add_field_command :: "Float_Text \<Rightarrow> 's Target \<Rightarrow> Istream \<Rightarrow> (unit, 's) run" where
  "add_field_command F T s i =
     bind_run (pure (parse_table s (content_of T i))) (\<lambda>(tid, s1).
     case read_word s1 of (name, s2) \<Rightarrow>
     bind_run (pure (parse_type s2 (content_of T i))) (\<lambda>(ty, s3).
     bind_run (call_target T (Add_Field tid name ty)) (\<lambda>_.
     case read_word s3 of (next_word, s4) \<Rightarrow>
     if next_word = ''='' then default_command F T tid (type_id ty) s4 else pure (Inr ())))) i"

definition drop_field_command :: "'s Target \<Rightarrow> Istream \<Rightarrow> (unit, 's) run" where
  "drop_field_command T s i =
     bind_run (pure (parse_table s (content_of T i))) (\<lambda>(tid, s1).
     call_target T (Drop_Field tid (find_field (content_of T i) tid (fst (read_word s1))))) i"

definition rename_field_command :: "'s Target \<Rightarrow> Istream \<Rightarrow> (unit, 's) run" where
  "rename_field_command T s i =
     bind_run (pure (parse_table s (content_of T i))) (\<lambda>(tid, s1).
     case read_word s1 of (name, s2) \<Rightarrow>
     call_target T (Rename_Field tid (find_field (content_of T i) tid name) (fst (read_word s2)))) i"

definition rename_table_command :: "'s Target \<Rightarrow> Istream \<Rightarrow> (unit, 's) run" where
  "rename_table_command T s i =
     bind_run (pure (parse_table s (content_of T i))) (\<lambda>(tid, s1). call_target T (Rename_Table tid (fst (read_word s1)))) i"

definition drop_table_command :: "'s Target \<Rightarrow> Istream \<Rightarrow> (unit, 's) run" where
  "drop_table_command T s i =
     bind_run (pure (parse_table s (content_of T i))) (\<lambda>(tid, s1). call_target T (Drop_Table tid)) i"

definition definition_help :: "byte list" where
  "definition_help = lines [''Data definition'', ''~~~~~~~~~~~~~~~'', '' create_table <table_name>'', '' drop_table <table_name>'',
     '' rename_table <old_table_name> <new_table_name>'', '' add_field <table_name> <field_name> <type> [default <value>]'',
     '' drop_field <table_name> <field_name>'', '' rename_field <table_name> <old_field_name> <new_field_name>'',
     '' custom <custom_name>'', '''', '' <type> may be:'', ''  string,'', ''  blob,'', ''  int8, int16, int32, int64,'',
     ''  float32, float64,'', ''  boolean,'', ''  references <table_name>'', '''']"

definition definition_command :: "Shell_Env \<Rightarrow> 's Target \<Rightarrow> Record_Id \<Rightarrow> string \<Rightarrow> Istream \<Rightarrow> (Status, 's) run" where
  "definition_command E T limit command s =
     bind_run (manipulation_command E T limit command s) (\<lambda>st.
     if st = Status_Done then pure (Inr st)
     else if command = ''help'' then bind_run (put definition_help) (\<lambda>_. pure (Inr Status_Ok))
     else if command = ''create_table'' then and_done (call_target T (Create_Table (fst (read_word s))))
     else if command = ''drop_table'' then and_done (drop_table_command T s)
     else if command = ''rename_table'' then and_done (rename_table_command T s)
     else if command = ''add_field'' then and_done (add_field_command (env_floats E) T s)
     else if command = ''drop_field'' then and_done (drop_field_command T s)
     else if command = ''rename_field'' then and_done (rename_field_command T s)
     else if command = ''custom'' then and_done (call_target T (Custom (fst (read_word s))))
     else pure (Inr Status_Not_Found))"

section \<open>Command_Interpreter\<close>

definition general_help :: "byte list" where
  "general_help = lines ['''', ''General commands'', ''~~~~~~~~~~~~~~~~'', '' about'', '' help|?'', '' quit'', '' abort'',
     '' echo on|off'', '' prompt on|off'', '' include '' @ quoted ''file_name'', '''']"

text \<open>The argument \<open>incl\<close> runs the main loop on the content of a file, one level deeper.\<close>

definition include_command :: "Shell_Env \<Rightarrow> (byte list \<Rightarrow> (unit, 's) run) \<Rightarrow> Istream \<Rightarrow> (unit, 's) run" where
  "include_command E incl s =
     (let name = string_of (fst (read_text s)) in
      case env_files E name of
        Some t \<Rightarrow> incl t
      | None \<Rightarrow> pure (Inl (Exception (''error opening '' @ name))))"

definition general_command :: "Shell_Env \<Rightarrow> (byte list \<Rightarrow> (unit, 's) run) \<Rightarrow> string \<Rightarrow> Istream \<Rightarrow> (Status, 's) run" where
  "general_command E incl command s =
     (if command = [] \<or> hd command = CHR ''#'' then pure (Inr Status_Done)
      else if command = ''about'' then and_done (put (env_about E))
      else if command = ''echo'' then
        and_done (\<lambda>i. (Inr (), case fst (read_word s) of w \<Rightarrow> if w = ''on'' then i\<lparr>echo := True\<rparr> else if w = ''off'' then i\<lparr>echo := False\<rparr> else i))
      else if command = ''prompt'' then
        and_done (\<lambda>i. (Inr (), case fst (read_word s) of w \<Rightarrow> if w = ''on'' then i\<lparr>prompt := True\<rparr> else if w = ''off'' then i\<lparr>prompt := False\<rparr> else i))
      else if command = ''help'' then bind_run (put general_help) (\<lambda>_. pure (Inr Status_Ok))
      else if command = ''include'' then and_done (include_command E incl s)
      else if command = ''quit'' then pure (Inr Status_Quit)
      else if command = ''abort'' then pure (Inr Status_Abort)
      else pure (Inr Status_Not_Found))"

text \<open>
  The loop over the processors; the result is whether one of them knew the command, and the status
  that ended the loop, if any.
\<close>

fun processor_loop :: "(string \<Rightarrow> Istream \<Rightarrow> (Status, 's) run) list \<Rightarrow> string \<Rightarrow> Istream \<Rightarrow> bool \<Rightarrow> (bool \<times> Status, 's) run" where
  "processor_loop [] command s found = pure (Inr (found, Status_Ok))"
| "processor_loop (p # ps) command s found =
     bind_run (p command s) (\<lambda>st.
     let found' = (found \<or> st \<noteq> Status_Not_Found) in
     if st = Status_Quit \<or> st = Status_Abort \<or> st = Status_Done then pure (Inr (found', st))
     else processor_loop ps command s found')"

definition unknown_command :: "string \<Rightarrow> error" where
  "unknown_command command =
     Exception (''Unknown command: '' @ (case write_text (bytes_of command) False of Inr t \<Rightarrow> string_of t | Inl _ \<Rightarrow> []) @
       ''. For a list of available commands, try '' @ quoted ''help'' @ ''.'')"

definition run_command :: "(string \<Rightarrow> Istream \<Rightarrow> (Status, 's) run) list \<Rightarrow> byte list \<Rightarrow> (Status, 's) run" where
  "run_command ps line =
     (case read_word (stream line) of (w, s) \<Rightarrow>
      let command = (if w = ''?'' then ''help'' else w) in
      bind_run (processor_loop ps command s False) (\<lambda>(found, st).
      if found then pure (Inr st) else pure (Inl (unknown_command command))))"

definition write_whole_prompt :: "'s Interp \<Rightarrow> byte list" where
  "write_whole_prompt i =
     [27] @ bytes_of ''[36m'' @ (case parent_prompt i of Some p \<Rightarrow> p @ [47] | None \<Rightarrow> []) @ prompt_string i @ bytes_of ''> '' @
     [27] @ bytes_of ''[0m''"

definition strip :: "byte list \<Rightarrow> byte list" where
  "strip l = rev (dropWhile is_space (rev l))"

definition line_error :: "nat \<Rightarrow> byte list \<Rightarrow> string \<Rightarrow> byte list" where
  "line_error n line message = bytes_of message @ newline @ bytes_of ''Line '' @ show_nat n @ bytes_of '': '' @ line @ newline"

text \<open>
  \<open>main_loop\<close>, with the text that \<open>after_command\<close> prints or throws. Only a \<open>joedb::Exception\<close> is caught.
\<close>

function line_loop :: "(string \<Rightarrow> Istream \<Rightarrow> (Status, 's) run) list \<Rightarrow> nat \<Rightarrow> Istream \<Rightarrow> (unit, 's) run" where
  "line_loop ps n s i0 =
     (let i1 = (if prompt i0 then print (write_whole_prompt i0) i0 else i0) in
      case read_line s of
        (None, s') \<Rightarrow> (Inr (), i1)
      | (Some l, s') \<Rightarrow>
          (let line = strip l in
           case run_command ps line (i1\<lparr>last_line_empty := line = []\<rparr>) of
             (Inr st, i2) \<Rightarrow>
               (let i3 = (if echo i2 then print (bytes_of ''OK: '' @ line @ newline) i2 else i2) in
                if st = Status_Quit then (Inr (), i3)
                else if st = Status_Abort then (Inl (Exception ''aborted''), i3)
                else line_loop ps (n + 1) s' i3)
           | (Inl (Exception message), i2) \<Rightarrow>
               (let t = line_error (n + 1) line message in
                if rethrow i2 then (Inl (Exception (string_of t)), i2)
                else line_loop ps (n + 1) s' (print (bytes_of ''Exception caught: '' @ t) i2))
           | (Inl e, i2) \<Rightarrow> (Inl e, i2)))"
  by pat_completeness auto
termination
  by (relation "measure (\<lambda>(ps, n, s, i). length (in_chars s))") (auto dest!: read_line_length [OF sym])

declare line_loop.simps [simp del]

section \<open>Interpreter\<close>

text \<open>
  The three processors of an \<open>Interpreter\<close>. A file may include another one, up to a depth of 42: \<open>include_loop n\<close>
  is the main loop of an included file when \<open>n\<close> more levels are allowed.
\<close>

definition interpreter_processors :: "Shell_Env \<Rightarrow> 's Target \<Rightarrow> Record_Id \<Rightarrow> (byte list \<Rightarrow> (unit, 's) run) \<Rightarrow> (string \<Rightarrow> Istream \<Rightarrow> (Status, 's) run) list" where
  "interpreter_processors E T limit incl = [general_command E incl, writable_command E T, definition_command E T limit]"

primrec include_loop :: "Shell_Env \<Rightarrow> 's Target \<Rightarrow> Record_Id \<Rightarrow> nat \<Rightarrow> byte list \<Rightarrow> (unit, 's) run" where
  "include_loop E T limit 0 = (\<lambda>text. pure (Inl (Exception ''Reached max recursion depth'')))"
| "include_loop E T limit (Suc n) =
     (\<lambda>text. line_loop (interpreter_processors E T limit (include_loop E T limit n)) 0 (stream text))"

definition main_loop :: "Shell_Env \<Rightarrow> 's Target \<Rightarrow> Record_Id \<Rightarrow> byte list \<Rightarrow> (unit, 's) run" where
  "main_loop E T limit text = line_loop (interpreter_processors E T limit (include_loop E T limit 42)) 0 (stream text)"

text \<open>An interpreter of a database, which is both its \<open>Readable\<close> and its \<open>Writable\<close>.\<close>

definition database_target :: "Database Target" where
  "database_target = \<lparr>view = (\<lambda>db. db), target_writable = database_writable,
     written_blob = (\<lambda>s db. \<lparr>blob_position = 0, blob_size = 0\<rparr>)\<rparr>"

end
