(* ===== verification/Stream_Proofs.thy ===== *)
theory Stream_Proofs
  imports Interpreter Text_Properties File_Buffer_Proofs
begin

text \<open>
  What is written to a stream is read back: words, integers, the values of the fields, lines. A stream in
  the middle of a line is described by the characters that are left: \<open>after rest\<close> is the stream after
  an extraction that stopped there.
\<close>

definition after :: "byte list \<Rightarrow> Istream" where
  "after rest = \<lparr>in_chars = rest, in_eof = rest = [], in_fail = False\<rparr>"

lemma stream_after: "cs \<noteq> [] \<Longrightarrow> stream cs = after cs"
  by (simp add: after_def)

lemma after_simps [simp]: "in_chars (after cs) = cs" "in_eof (after cs) \<longleftrightarrow> cs = []" "\<not> in_fail (after cs)"
  by (simp_all add: after_def)

section \<open>Words\<close>

definition plain_word :: "string \<Rightarrow> bool" where
  "plain_word w \<longleftrightarrow> w \<noteq> [] \<and> list_all (\<lambda>c. \<not> is_space c) (bytes_of w)"

definition ends_word :: "byte list \<Rightarrow> bool" where
  "ends_word rest \<longleftrightarrow> (case rest of [] \<Rightarrow> True | c # _ \<Rightarrow> c = 32)"

lemma ends_word_simps [simp]: "ends_word []" "ends_word (32 # rest)"
  by (simp_all add: ends_word_def)

lemma bytes_of_simps [simp]: "bytes_of [] = []" "bytes_of (s @ t) = bytes_of s @ bytes_of t" "bytes_of s = [] \<longleftrightarrow> s = []"
  by (simp_all add: bytes_of_def)

lemma takeWhile_word: "list_all P w \<Longrightarrow> rest = [] \<or> \<not> P (hd rest) \<Longrightarrow> takeWhile P (w @ rest) = w \<and> dropWhile P (w @ rest) = rest"
  by (cases rest) (auto simp: list_all_iff takeWhile_append2)

lemma space_32 [simp]: "is_space 32"
  by (simp add: is_space_def)

lemma ends_word_space: "ends_word rest \<Longrightarrow> rest = [] \<or> is_space (hd rest)"
  by (cases rest) (simp_all add: ends_word_def)

lemma skip_leading: "cs = w \<or> cs = 32 # w \<Longrightarrow> w \<noteq> [] \<Longrightarrow> \<not> is_space (hd w) \<Longrightarrow> dropWhile is_space cs = w"
  by (cases w) auto

lemma sentry_law: "cs = w \<or> cs = 32 # w \<Longrightarrow> w \<noteq> [] \<Longrightarrow> \<not> is_space (hd w) \<Longrightarrow> sentry (after cs) = (True, after w)"
  using skip_leading [of cs w] by (auto simp: sentry_def stream_good_def after_def)

lemma read_word_law:
  assumes "plain_word w" and "ends_word rest" and "cs = bytes_of w @ rest \<or> cs = 32 # bytes_of w @ rest"
  shows "read_word (after cs) = (w, after rest)"
proof -
  have w: "bytes_of w \<noteq> []" "list_all (\<lambda>c. \<not> is_space c) (bytes_of w)" using assms(1) by (simp_all add: plain_word_def)
  then have "\<not> is_space (hd (bytes_of w @ rest))" by (cases "bytes_of w") auto
  then have "sentry (after cs) = (True, after (bytes_of w @ rest))" using sentry_law assms(3) w(1) by blast
  moreover have "takeWhile (\<lambda>c. \<not> is_space c) (bytes_of w @ rest) = bytes_of w"
    "dropWhile (\<lambda>c. \<not> is_space c) (bytes_of w @ rest) = rest"
    using takeWhile_word [OF w(2), of rest] ends_word_space [OF assms(2)] by auto
  ultimately show ?thesis by (simp add: read_word_def after_def del: dropWhile_eq_Nil_conv)
qed

lemma read_word_end: "read_word (after []) = ([], \<lparr>in_chars = [], in_eof = True, in_fail = True\<rparr>)"
  by (simp add: read_word_def sentry_def stream_good_def after_def)

section \<open>Numbers\<close>

lemma to_string_nonempty: "to_string n \<noteq> []"
  by (subst to_string.simps) simp

lemma char_byte: "n < 256 \<Longrightarrow> (word_of_nat (of_char (char_of n)) :: byte) = word_of_nat n" for n :: nat
  by simp

lemma bytes_of_digit: "d < 10 \<Longrightarrow> bytes_of [char_of (48 + d)] = [word_of_nat (48 + d)]" for d :: nat
  by (simp add: bytes_of_def)

lemma digit_byte:
  fixes d :: nat
  assumes "d < 10"
  shows "is_digit (word_of_nat (48 + d))" and "unat (word_of_nat (48 + d) - 48 :: byte) = d"
proof -
  have u: "unat (word_of_nat (48 + d) :: byte) = 48 + d" using assms by (simp add: unat_of_nat del: of_nat_add)
  then show "is_digit (word_of_nat (48 + d))" using assms by (simp add: is_digit_def word_le_nat_alt)
  have "(word_of_nat (48 + d) - 48 :: byte) = word_of_nat d" by simp
  then show "unat (word_of_nat (48 + d) - 48 :: byte) = d" using assms by (simp add: unat_of_nat)
qed

lemma digits_of_string: "list_all is_digit (bytes_of (to_string n)) \<and> digits_value (bytes_of (to_string n)) = n"
proof (induction n rule: to_string.induct)
  case (1 n)
  show ?case
  proof (cases "n < 10")
    case True
    then show ?thesis using digit_byte [OF True] by (subst (1 2) to_string.simps) (simp add: bytes_of_digit digits_value_def del: of_nat_add)
  next
    case False
    then have "list_all is_digit (bytes_of (to_string (n div 10)))" "digits_value (bytes_of (to_string (n div 10))) = n div 10"
      using 1 by simp_all
    moreover have "to_string n = to_string (n div 10) @ [char_of (48 + n mod 10)]" using False by (subst to_string.simps) simp
    ultimately show ?thesis
      using digit_byte [of "n mod 10"] by (simp add: bytes_of_digit digits_value_def del: of_nat_add)
  qed
qed

lemma digit_not_space: "is_digit c \<Longrightarrow> \<not> is_space c"
  by (auto simp: is_digit_def is_space_def word_le_nat_alt)

lemma digit_signs: "is_digit c \<Longrightarrow> c \<noteq> 45 \<and> c \<noteq> 43"
  by (auto simp: is_digit_def word_le_nat_alt)

lemma scan_digits:
  assumes "ds \<noteq> []" and "list_all is_digit ds" and "rest = [] \<or> \<not> is_digit (hd rest)"
  shows "scan_number (after (ds @ rest)) = (Some (False, digits_value ds), after rest)"
    and "scan_number (after (45 # ds @ rest)) = (Some (True, digits_value ds), after rest)"
proof -
  have t: "takeWhile is_digit (ds @ rest) = ds" "dropWhile is_digit (ds @ rest) = rest" using takeWhile_word [OF assms(2,3)] by auto
  show "scan_number (after (45 # ds @ rest)) = (Some (True, digits_value ds), after rest)"
    using assms(1) by (simp add: scan_number_def t after_def del: dropWhile_eq_Nil_conv)
  obtain c cs where c: "ds = c # cs" using assms(1) by (cases ds) auto
  then have "c \<noteq> 45" "c \<noteq> 43" using assms(2) digit_signs [of c] by auto
  then show "scan_number (after (ds @ rest)) = (Some (False, digits_value ds), after rest)"
    using t c by (simp add: scan_number_def after_def del: dropWhile_eq_Nil_conv)
qed

definition ends_number :: "byte list \<Rightarrow> bool" where
  "ends_number rest \<longleftrightarrow> (case rest of [] \<Rightarrow> True | c # _ \<Rightarrow> c = 32 \<or> c = 44)"

lemma ends_number_simps [simp]: "ends_number []" "ends_number (32 # rest)" "ends_number (44 # rest)" "ends_word rest \<Longrightarrow> ends_number rest"
  by (cases rest; simp add: ends_number_def ends_word_def)+

lemma ends_number_digit: "ends_number rest \<Longrightarrow> rest = [] \<or> \<not> is_digit (hd rest)"
  by (cases rest) (auto simp: ends_number_def is_digit_def word_le_nat_alt)

lemma show_int_shape:
  obtains ds where "ds \<noteq> []" and "list_all is_digit ds" and "digits_value ds = nat \<bar>v\<bar>" and "show_int v = (if v < 0 then 45 # ds else ds)"
  using digits_of_string [of "nat \<bar>v\<bar>"] to_string_nonempty [of "nat \<bar>v\<bar>"]
  by (intro that [of "bytes_of (to_string (nat \<bar>v\<bar>))"]) (simp_all add: show_int_def bytes_of_def)

lemma read_signed_law:
  assumes "- (2 ^ (bits - 1)) \<le> v" and "v < 2 ^ (bits - 1)" and "ends_number rest"
    and "cs = show_int v @ rest \<or> cs = 32 # show_int v @ rest"
  shows "read_signed bits (after cs) = (v, after rest)"
proof -
  obtain ds where ds: "ds \<noteq> []" "list_all is_digit ds" "digits_value ds = nat \<bar>v\<bar>" "show_int v = (if v < 0 then 45 # ds else ds)"
    by (rule show_int_shape)
  obtain c ds' where "ds = c # ds'" "is_digit c" using ds(1,2) by (cases ds) auto
  then have "show_int v @ rest \<noteq> []" "\<not> is_space (hd (show_int v @ rest))"
    using ds(4) digit_not_space [of c] by (auto simp: is_space_def)
  then have "sentry (after cs) = (True, after (show_int v @ rest))" using sentry_law assms(4) by blast
  moreover have "scan_number (after (show_int v @ rest)) = (Some (v < 0, nat \<bar>v\<bar>), after rest)"
    using scan_digits [OF ds(1,2) ends_number_digit [OF assms(3)]] ds(3,4) by auto
  ultimately show ?thesis using assms(1,2) by (auto simp: read_signed_def Let_def)
qed

lemma read_unsigned_law:
  assumes "int n < 2 ^ bits" and "ends_number rest" and "cs = show_nat n @ rest \<or> cs = 32 # show_nat n @ rest"
  shows "read_unsigned bits (after cs) = (n, after rest)"
proof -
  have ds: "show_nat n \<noteq> []" "list_all is_digit (show_nat n)" "digits_value (show_nat n) = n"
    using digits_of_string [of n] to_string_nonempty [of n] by (simp_all add: show_nat_def)
  obtain c ds' where "show_nat n = c # ds'" "is_digit c" using ds(1,2) by (cases "show_nat n") auto
  then have "show_nat n @ rest \<noteq> []" "\<not> is_space (hd (show_nat n @ rest))" using digit_not_space [of c] by auto
  then have "sentry (after cs) = (True, after (show_nat n @ rest))" using sentry_law assms(3) by blast
  then show ?thesis
    using scan_digits(1) [OF ds(1,2) ends_number_digit [OF assms(2)]] ds(3) assms(1) by (auto simp: read_unsigned_def)
qed

definition int64 :: "int \<Rightarrow> bool" where
  "int64 v \<longleftrightarrow> - (2 ^ 63) \<le> v \<and> v < 2 ^ 63"

lemma read_record_id_law:
  assumes "int64 r" and "ends_number rest" and "cs = show_int r @ rest \<or> cs = 32 # show_int r @ rest"
  shows "read_record_id r0 (after cs) = (r, after rest)"
  using read_signed_law [of 64 r rest cs] assms by (simp add: read_record_id_def int64_def)

end
