(* ===== verification/Value_Proofs.thy ===== *)
theory Value_Proofs
  imports Stream_Proofs
begin

text \<open>
  The values of fields are read as they were written, one at a time and in vectors; a line is read whole.
\<close>

section \<open>Text inside a line\<close>

text \<open>What can stand at the end of a line: no end of line inside, and no space that would be stripped.\<close>

definition line_text :: "byte list \<Rightarrow> bool" where
  "line_text t \<longleftrightarrow> t \<noteq> [] \<and> 10 \<notin> set t \<and> \<not> is_space (last t)"

lemma spaceless_line_text: "t \<noteq> [] \<Longrightarrow> list_all (\<lambda>c. \<not> is_space c) t \<Longrightarrow> line_text t"
  by (auto simp: line_text_def list_all_iff is_space_def)

lemma line_text_append: "10 \<notin> set s \<Longrightarrow> line_text t \<Longrightarrow> line_text (s @ t)"
  by (auto simp: line_text_def)

lemma line_text_space: "line_text t \<Longrightarrow> line_text (32 # t)"
  by (auto simp: line_text_def)

lemma line_text_newline: "line_text t \<Longrightarrow> 10 \<notin> set t"
  by (simp add: line_text_def)

lemma plain_word_line_text: "plain_word w \<Longrightarrow> line_text (bytes_of w)"
  by (rule spaceless_line_text) (simp_all add: plain_word_def)

lemma show_nat_line_text: "line_text (show_nat n)"
  using digits_of_string [of n] to_string_nonempty [of n] digit_not_space
  by (intro spaceless_line_text) (auto simp: show_nat_def list_all_iff)

lemma show_int_line_text: "line_text (show_int v)"
proof -
  obtain ds where "ds \<noteq> []" "list_all is_digit ds" "show_int v = (if v < 0 then 45 # ds else ds)" by (rule show_int_shape)
  moreover have "\<not> is_space 45" by (simp add: is_space_def)
  ultimately show ?thesis using digit_not_space by (intro spaceless_line_text) (auto simp: list_all_iff)
qed

section \<open>Values\<close>

text \<open>A floating-point number whose text has no space and is read as the same number.\<close>

definition text_reads :: "byte list \<Rightarrow> (Istream \<Rightarrow> 'a \<times> Istream) \<Rightarrow> 'a \<Rightarrow> bool" where
  "text_reads t rd x \<longleftrightarrow> t \<noteq> [] \<and> list_all (\<lambda>c. \<not> is_space c) t \<and> (\<forall>rest. ends_word rest \<longrightarrow> rd (after (32 # t @ rest)) = (x, after rest))"

text \<open>The values that survive: those of the type of the code, in the range of its integers.\<close>

fun legible :: "Float_Text \<Rightarrow> field_value \<Rightarrow> bool" where
  "legible F (Reference_Value r) = int64 r"
| "legible F (Boolean_Value b) = (b = 0 \<or> b = 1)"
| "legible F (Blob_Value b) = (int64 (blob_position b) \<and> int64 (blob_size b))"
| "legible F (Float32_Value w) = text_reads (write_float F w) (read_float F) w"
| "legible F (Float64_Value w) = text_reads (write_double F w) (read_double F) w"
| "legible F _ = True"

lemma sint_bounds: "- (2 ^ (LENGTH('a) - 1)) \<le> sint w" "sint w < 2 ^ (LENGTH('a) - 1)" for w :: "'a::len word"
  using sint_greater_eq [of w] sint_less [of w] by simp_all

lemma read_blob_law:
  assumes "int64 (blob_position b)" and "int64 (blob_size b)" and "ends_word rest"
  shows "read_blob_text (after (32 # write_blob_text b @ rest)) = (b, after rest)"
proof -
  let ?t = "show_int (blob_size b) @ rest"
  have "read_signed 64 (after (32 # show_int (blob_position b) @ 44 # ?t)) = (blob_position b, after (44 # ?t))"
    by (rule read_signed_law) (use assms(1) in \<open>simp_all add: int64_def\<close>)
  moreover have ne: "?t \<noteq> []" using show_int_line_text [of "blob_size b"] by (simp add: line_text_def)
  moreover have "read_signed 64 (after ?t) = (blob_size b, after rest)"
    by (rule read_signed_law) (use assms(2,3) in \<open>simp_all add: int64_def\<close>)
  moreover have "stream_ignore (after (44 # ?t)) = after ?t"
    using ne by (simp add: stream_ignore_def stream_good_def after_def)
  ultimately show ?thesis by (simp add: read_blob_text_def write_blob_text_def)
qed

lemma read_boolean_law:
  assumes "b = 0 \<or> b = 1" and "ends_word rest"
  shows "read_boolean (after (32 # write_boolean b @ rest)) = (b, after rest)"
proof -
  let ?w = "if b \<noteq> 0 then ''true'' else ''false''"
  have "plain_word ?w" by (simp add: plain_word_def bytes_of_def is_space_def)
  then have "read_word (after (32 # bytes_of ?w @ rest)) = (?w, after rest)" by (rule read_word_law) (use assms(2) in simp_all)
  then show ?thesis using assms(1) by (auto simp: read_boolean_def write_boolean_def)
qed

lemma value_text_reads:
  assumes "value_text F v = Inr t" and "legible F v" and "ends_word rest"
  obtains s where "read_value_text F (type_of_value v) (after (32 # t @ rest)) = (v, s)" and "\<not> in_fail s"
    and "rest \<noteq> [] \<Longrightarrow> s = after rest" and "line_text t"
proof (cases v)
  case (String_Value x)
  obtain u where u: "write_text (bytes_of x) False = Inr u" "u \<noteq> []" "10 \<notin> set u" "last u = 34"
    "\<And>n rest. read_text (stream (replicate n 32 @ u @ rest)) = (bytes_of x, stream rest)"
    by (rule write_text_law [of "bytes_of x"]) (rule that)
  have "t = u" using assms(1) u(1) String_Value by simp
  moreover have "read_text (after (32 # t @ rest)) = (bytes_of x, stream rest)"
    using u(5) [of 1 rest] \<open>t = u\<close> by (simp add: after_def)
  moreover have "\<not> is_space 34" by (simp add: is_space_def)
  ultimately show ?thesis using u(2-4) by (intro that [of "stream rest"]) (auto simp: String_Value line_text_def stream_after)
next
  case (Int32_Value w)
  then show ?thesis
    using assms read_signed_law [of 32 "sint w" rest "32 # show_int (sint w) @ rest"] sint_bounds [of w] show_int_line_text
    by (intro that [of "after rest"]) auto
next
  case (Int64_Value w)
  then show ?thesis
    using assms read_signed_law [of 64 "sint w" rest "32 # show_int (sint w) @ rest"] sint_bounds [of w] show_int_line_text
    by (intro that [of "after rest"]) auto
next
  case (Int16_Value w)
  then show ?thesis
    using assms read_signed_law [of 16 "sint w" rest "32 # show_int (sint w) @ rest"] sint_bounds [of w] show_int_line_text
    by (intro that [of "after rest"]) auto
next
  case (Int8_Value w)
  have "- (2 ^ 31) \<le> sint w" "sint w < 2 ^ 31" using sint_bounds [of w] by simp_all
  then show ?thesis
    using assms read_signed_law [of 32 "sint w" rest "32 # show_int (sint w) @ rest"] show_int_line_text Int8_Value
    by (intro that [of "after rest"]) (auto simp: read_int8_def write_int8_def)
next
  case (Reference_Value r)
  then show ?thesis
    using assms read_record_id_law [of r rest "32 # show_int r @ rest" null_record] show_int_line_text
    by (intro that [of "after rest"]) auto
next
  case (Boolean_Value b)
  have "plain_word ''true''" "plain_word ''false''" by (simp_all add: plain_word_def bytes_of_def is_space_def)
  then show ?thesis
    using assms read_boolean_law [of b rest] Boolean_Value plain_word_line_text
    by (intro that [of "after rest"]) (auto simp: write_boolean_def)
next
  case (Blob_Value b)
  have "line_text (write_blob_text b)"
    using show_int_line_text line_text_newline unfolding write_blob_text_def by (intro line_text_append) auto
  then show ?thesis
    using assms read_blob_law [of b rest] Blob_Value by (intro that [of "after rest"]) auto
qed (use assms in \<open>auto simp: text_reads_def intro!: that [of "after rest"] spaceless_line_text\<close>)

lemma value_text_total: obtains t where "value_text F v = Inr t"
proof (cases v)
  case (String_Value x)
  obtain u where "write_text (bytes_of x) False = Inr u" by (rule write_text_law [of "bytes_of x"]) (rule that)
  then show ?thesis using that String_Value by simp
qed (use that in auto)

lemma vector_text_total: "\<exists>ts. vector_text F vs = Inr ts"
proof (induction vs)
  case (Cons v vs)
  obtain t where "value_text F v = Inr t" by (rule value_text_total)
  then show ?case using Cons by auto
qed simp

lemma vector_text_reads:
  assumes "vector_text F vs = Inr ts" and "list_all (\<lambda>v. legible F v \<and> type_of_value v = ty) vs"
  shows "safe_read_vector F ty (length vs) (after ts) = Inr vs \<and> 10 \<notin> set ts \<and> ends_word ts \<and> (vs \<noteq> [] \<longrightarrow> line_text ts)"
  using assms
proof (induction vs arbitrary: ts)
  case (Cons v vs)
  from Cons.prems(1) obtain t ts' where t: "value_text F v = Inr t" "vector_text F vs = Inr ts'" "ts = 32 # t @ ts'" by auto
  have IH: "safe_read_vector F ty (length vs) (after ts') = Inr vs" "10 \<notin> set ts'" "ends_word ts'" "vs \<noteq> [] \<longrightarrow> line_text ts'"
    using Cons.IH [OF t(2)] Cons.prems(2) by auto
  obtain s where s: "read_value_text F (type_of_value v) (after (32 # t @ ts')) = (v, s)" "\<not> in_fail s"
    "ts' \<noteq> [] \<Longrightarrow> s = after ts'" "line_text t"
    by (rule value_text_reads [OF t(1) _ IH(3)]) (use Cons.prems(2) in auto)
  have "safe_read_vector F ty (length vs) s = Inr vs"
  proof (cases "ts' = []")
    case True
    then have "vs = []" using t(2) by (cases vs) auto
    then show ?thesis by simp
  qed (use s(3) IH(1) in auto)
  moreover have "line_text ts"
  proof (cases "vs = []")
    case True
    then show ?thesis using t(2,3) s(4) line_text_space by auto
  next
    case False
    then show ?thesis using IH(4) line_text_append [of "32 # t" ts'] line_text_newline [OF s(4)] t(3) by simp
  qed
  ultimately show ?case using s(1,2) t(3) IH(2) line_text_newline [OF s(4)] Cons.prems(2) by (auto simp: safe_read_def)
qed simp

section \<open>Lines\<close>

lemma read_line_law:
  assumes "10 \<notin> set l"
  shows "read_line (stream (l @ newline @ rest)) = (Some l, stream rest)"
proof -
  have "list_all (\<lambda>c. c \<noteq> 10) l" using assms by (auto simp: list_all_iff)
  then have "takeWhile (\<lambda>c. c \<noteq> 10) (l @ 10 # rest) = l" "dropWhile (\<lambda>c. c \<noteq> 10) (l @ 10 # rest) = 10 # rest"
    using takeWhile_word [of "\<lambda>c. c \<noteq> 10" l "10 # rest"] by simp_all
  then show ?thesis by (simp add: read_line_def stream_good_def newline_def)
qed

lemma strip_law: "l = [] \<or> line_text l \<Longrightarrow> strip l = l"
  by (cases l rule: rev_cases) (auto simp: strip_def line_text_def)

end
