(* ===== verification/Schema_Proofs.thy ===== *)
theory Schema_Proofs
  imports Dump_Writables Database_Properties Journal_Properties
begin

text \<open>
  The schema of a database: names, types and the last identifiers given out. Events that are not about the
  schema leave it as it is, the others act on it alone, so that a \<open>Database_Schema\<close> that receives the events
  of a database has its schema, and answers the same questions about names and types.
\<close>

definition map_values :: "('v \<Rightarrow> 'w) \<Rightarrow> ('k, 'v) std_map \<Rightarrow> ('k, 'w) std_map" where
  "map_values g m = map (\<lambda>(k, v). (k, g v)) m"

lemma keys_map_values [simp]: "keys (map_values g m) = keys m"
  by (induction m) (auto simp: map_values_def)

lemma map_of_map_values [simp]: "map_of (map_values g m) k = map_option g (map_of m k)"
  by (induction m) (auto simp: map_values_def)

lemma map_values_assign: "map_values g (map_assign k v m) = map_assign k (g v) (map_values g m)"
  by (induction m) (auto simp: map_values_def)

lemma map_values_erase: "map_values g (map_erase k m) = map_erase k (map_values g m)"
  by (induction m) (auto simp: map_values_def map_erase_def)

lemma map_values_emplace: "map_values g (map_try_emplace k v m) = map_try_emplace k (g v) (map_values g m)"
  by (auto simp: map_try_emplace_def map_values_assign split: option.split)

lemma map_values_same: "map_ok m \<Longrightarrow> map_of m k = Some v \<Longrightarrow> g v' = g v \<Longrightarrow> map_values g (map_assign k v' m) = map_values g m"
  using map_assign_same [of "map_values g m" k "g v"] by (simp add: map_values_assign map_ok_def)

type_synonym Table_Schema = "(Field_Id, Type) std_map \<times> (Field_Id, string) std_map \<times> Field_Id"

definition table_schema :: "Table \<Rightarrow> Table_Schema" where
  "table_schema t = (map_values field_type (table_fields t), field_names t, current_field_id t)"

definition schema_of :: "Database \<Rightarrow> (Table_Id, string) std_map \<times> Table_Id \<times> (Table_Id, Table_Schema) std_map" where
  "schema_of db = (table_names db, current_table_id db, map_values table_schema (tables db))"

section \<open>Events that are not about the schema\<close>

fun schema_event :: "event \<Rightarrow> bool" where
  "schema_event (Create_Table name) = True"
| "schema_event (Drop_Table i) = True"
| "schema_event (Rename_Table i name) = True"
| "schema_event (Add_Field i name ty) = True"
| "schema_event (Drop_Field i f) = True"
| "schema_event (Rename_Field i f name) = True"
| "schema_event _ = False"

lemma field_type_resize [simp]: "field_type (field_resize n x) = field_type x"
  by (simp add: field_resize_def)

lemma table_schema_resize: "map_values field_type (resize_fields n m) = map_values field_type m"
  by (induction m) (auto simp: map_values_def resize_fields_def)

lemma table_schema_simps [simp]:
  "table_schema (t\<lparr>freedom := k\<rparr>) = table_schema t"
  "table_schema (t\<lparr>table_fields := resize_fields n (table_fields t), freedom := k\<rparr>) = table_schema t"
  "table_schema (t\<lparr>freedom := k, table_fields := resize_fields n (table_fields t)\<rparr>) = table_schema t"
  "table_schema (t\<lparr>table_fields := resize_fields n (table_fields t)\<rparr>) = table_schema t"
  by (simp_all add: table_schema_def table_schema_resize)

lemma insert_record_schema: "table_insert_record r t = Inr t' \<Longrightarrow> table_schema t' = table_schema t"
  by (auto simp: table_insert_record_def split: if_splits)

lemma insert_loop_schema: "fold_result (\<lambda>i. table_insert_record (r + int i)) xs t = Inr t' \<Longrightarrow> table_schema t' = table_schema t"
  by (induction xs arbitrary: t) (auto dest: insert_record_schema)

lemma insert_vector_schema: "table_insert_vector r n t = Inr t' \<Longrightarrow> table_schema t' = table_schema t"
  by (auto simp: table_insert_vector_def Let_def split: if_splits dest: insert_loop_schema)

lemma delete_schema:
  "table_delete_record r t = Inr t' \<Longrightarrow> table_schema t' = table_schema t"
  "table_delete_vector r n t = Inr t' \<Longrightarrow> table_schema t' = table_schema t"
  by (auto simp: table_delete_record_def table_delete_vector_def)

lemma assign_field_schema:
  "table_ok t \<Longrightarrow> map_of (table_fields t) f = Some x \<Longrightarrow> field_type x' = field_type x \<Longrightarrow>
     table_schema (t\<lparr>table_fields := map_assign f x' (table_fields t)\<rparr>) = table_schema t"
  by (simp add: table_schema_def map_values_same [of "table_fields t" f x] table_ok_def schema_ok_def)

lemma update_schema: "table_ok t \<Longrightarrow> table_update r f v t = Inr t' \<Longrightarrow> table_schema t' = table_schema t"
  by (erule table_update_Inr) (simp add: assign_field_schema)

lemma update_vector_schema: "table_ok t \<Longrightarrow> table_update_vector r f ty vs t = Inr t' \<Longrightarrow> table_schema t' = table_schema t"
  by (auto simp: table_update_vector_def find_field_from_id_def field_set_vector_def split: option.splits if_splits
      intro!: assign_field_schema)

lemma on_table_schema:
  assumes "db_ok db" and "on_table i g db = Inr db'"
    and "\<And>t t'. table_ok t \<Longrightarrow> g t = Inr t' \<Longrightarrow> table_schema t' = table_schema t"
  shows "schema_of db' = schema_of db"
  using assms(2)
proof (rule on_table_Inr)
  fix t t'
  assume t: "map_of (tables db) i = Some t" "g t = Inr t'" "db' = db\<lparr>tables := map_assign i t' (tables db)\<rparr>"
  then have "table_schema t' = table_schema t" using assms(3) db_okD [OF assms(1)] by blast
  then show ?thesis using t assms(1) by (simp add: schema_of_def map_values_same [of "tables db" i t] db_ok_def schema_ok_def)
qed

lemma data_event_schema:
  assumes "db_ok db" and "\<not> schema_event e" and "db_handle e db = Inr db'"
  shows "schema_of db' = schema_of db"
  using assms
  by (cases e) (auto simp: insert_into_def insert_vector_def delete_from_def delete_vector_def db_update_def db_update_vector_def
      split: if_splits intro: on_table_schema insert_record_schema insert_vector_schema delete_schema update_schema update_vector_schema)

section \<open>Events of the schema\<close>

lemma schema_of_tables: "schema_of d = schema_of db \<Longrightarrow> map_of (tables db) i = Some t \<Longrightarrow>
    \<exists>u. map_of (tables d) i = Some u \<and> table_schema u = table_schema t"
proof -
  assume "schema_of d = schema_of db" "map_of (tables db) i = Some t"
  then have "map_option table_schema (map_of (tables d) i) = Some (table_schema t)"
    using map_of_map_values [of table_schema "tables d" i] map_of_map_values [of table_schema "tables db" i] by (simp add: schema_of_def)
  then show ?thesis by auto
qed

text \<open>An operation on a table that acts on its schema alone.\<close>

lemma on_table_follows:
  assumes "schema_of d = schema_of db" and "on_table i g db = Inr db'"
    and "\<And>t u t'. table_schema u = table_schema t \<Longrightarrow> g t = Inr t' \<Longrightarrow> \<exists>u'. g u = Inr u' \<and> table_schema u' = table_schema t'"
  shows "\<exists>d'. on_table i g d = Inr d' \<and> schema_of d' = schema_of db'"
  using assms(2)
proof (rule on_table_Inr)
  fix t t'
  assume t: "map_of (tables db) i = Some t" "g t = Inr t'" "db' = db\<lparr>tables := map_assign i t' (tables db)\<rparr>"
  obtain u where u: "map_of (tables d) i = Some u" "table_schema u = table_schema t" using schema_of_tables [OF assms(1) t(1)] by blast
  then obtain u' where u': "g u = Inr u'" "table_schema u' = table_schema t'" using assms(3) t(2) by blast
  have "on_table i g d = Inr (d\<lparr>tables := map_assign i u' (tables d)\<rparr>)" using u(1) u'(1) by (simp add: on_table_def get_table_def)
  moreover have "schema_of (d\<lparr>tables := map_assign i u' (tables d)\<rparr>) = schema_of db'"
    using assms(1) t(3) u'(2) by (simp add: schema_of_def map_values_assign)
  ultimately show ?thesis by blast
qed

lemma table_schemaD:
  assumes "table_schema u = table_schema t"
  shows "field_names u = field_names t" and "current_field_id u = current_field_id t"
    and "map_values field_type (table_fields u) = map_values field_type (table_fields t)"
    and "map_of (table_fields u) f = None \<longleftrightarrow> map_of (table_fields t) f = None"
proof -
  show *: "field_names u = field_names t" "current_field_id u = current_field_id t"
    "map_values field_type (table_fields u) = map_values field_type (table_fields t)"
    using assms by (simp_all add: table_schema_def)
  show "map_of (table_fields u) f = None \<longleftrightarrow> map_of (table_fields t) f = None"
    using map_of_map_values [of field_type "table_fields u" f] map_of_map_values [of field_type "table_fields t" f] *(3)
    by (cases "map_of (table_fields u) f"; cases "map_of (table_fields t) f") auto
qed

lemma table_add_field_follows:
  assumes "table_schema u = table_schema t" and "table_add_field name ty t = Inr t'"
  shows "\<exists>u'. table_add_field name ty u = Inr u' \<and> table_schema u' = table_schema t'"
  using assms table_schemaD [OF assms(1)]
  by (auto simp: table_add_field_def table_find_field_def Let_def table_schema_def map_values_emplace field_new_def split: if_splits)

lemma table_drop_field_follows:
  assumes "table_schema u = table_schema t" and "table_drop_field f t = Inr t'"
  shows "\<exists>u'. table_drop_field f u = Inr u' \<and> table_schema u' = table_schema t'"
  using assms(2) table_schemaD [OF assms(1)]
  by (auto simp: table_drop_field_def table_schema_def map_values_erase split: option.splits)

lemma schema_event_follows:
  assumes "schema_of d = schema_of db" and "schema_event e" and "db_handle e db = Inr db'"
  shows "\<exists>d'. schema_handle e d = Inr d' \<and> schema_of d' = schema_of db'"
proof (cases e)
  case (Create_Table name)
  then show ?thesis using assms
    by (auto simp: create_table_def find_table_def schema_of_def Let_def map_values_emplace split: if_splits)
next
  case (Drop_Table i)
  then obtain t where t: "map_of (tables db) i = Some t" using assms(3) by (auto simp: drop_table_def split: option.splits)
  obtain u where "map_of (tables d) i = Some u" using schema_of_tables [OF assms(1) t] by blast
  then show ?thesis using assms Drop_Table t by (auto simp: drop_table_def schema_of_def map_values_erase)
next
  case (Rename_Table i name)
  then obtain t where t: "map_of (tables db) i = Some t" "is_identifier name" "find_table db name = 0"
    "db' = db\<lparr>table_names := map_assign i name (table_names db)\<rparr>"
    using assms(3) by (auto simp: rename_table_def check_identifier_def get_table_def split: option.splits if_splits)
  obtain u where "map_of (tables d) i = Some u" using schema_of_tables [OF assms(1) t(1)] by blast
  then show ?thesis using assms(1) Rename_Table t
    by (auto simp: rename_table_def check_identifier_def get_table_def find_table_def schema_of_def)
next
  case (Add_Field i name ty)
  then have "is_identifier name" "on_table i (table_add_field name ty) db = Inr db'"
    using assms(3) by (auto simp: add_field_def check_identifier_def)
  then show ?thesis using Add_Field on_table_follows [OF assms(1) _ table_add_field_follows]
    by (simp add: add_field_def check_identifier_def)
next
  case (Drop_Field i f)
  then have "on_table i (table_drop_field f) db = Inr db'" using assms(3) by (simp add: drop_field_def)
  then show ?thesis using Drop_Field on_table_follows [OF assms(1) _ table_drop_field_follows] by (simp add: drop_field_def)
next
  case (Rename_Field i f name)
  let ?g = "\<lambda>t. case map_of (field_names t) f of None \<Rightarrow> Inl (Exception ''rename_field: invalid field_id'')
      | Some _ \<Rightarrow> if table_find_field t name \<noteq> 0 then Inl (Exception (''rename_field: name already used: '' @ name))
        else Inr (t\<lparr>field_names := map_assign f name (field_names t)\<rparr>)"
  have g: "\<exists>u'. ?g u = Inr u' \<and> table_schema u' = table_schema t'" if "table_schema u = table_schema t" "?g t = Inr t'" for t u t'
    using that(2) table_schemaD [OF that(1)] by (auto simp: table_find_field_def table_schema_def split: option.splits if_splits)
  from Rename_Field have "is_identifier name" "on_table i ?g db = Inr db'"
    using assms(3) by (auto simp: rename_field_def check_identifier_def)
  then show ?thesis using Rename_Field on_table_follows [OF assms(1) _ g] by (simp add: rename_field_def check_identifier_def)
qed (use assms in auto)

lemma schema_event_database: "schema_event e \<Longrightarrow> db_handle e db = schema_handle e db"
  by (cases e) auto

lemma schema_ignores: "\<not> schema_event e \<Longrightarrow> schema_handle e d = Inr d"
  by (cases e) auto

text \<open>A schema follows a database through any event.\<close>

lemma schema_follows:
  assumes "db_ok db" and "schema_of d = schema_of db" and "db_handle e db = Inr db'"
  shows "\<exists>d'. schema_handle e d = Inr d' \<and> schema_of d' = schema_of db'"
  using schema_event_follows [OF assms(2) _ assms(3)] data_event_schema [OF assms(1) _ assms(3)] assms(2)
  by (cases "schema_event e") (auto simp: schema_ignores)

section \<open>Questions about the schema\<close>

lemma schema_of_names:
  assumes "schema_of d = schema_of db"
  shows "get_table_name d i = get_table_name db i" and "find_table d name = find_table db name"
    and "get_field_name d i f = get_field_name db i f" and "find_field d i name = find_field db i name"
    and "get_field_type i f d = get_field_type i f db"
proof -
  show "get_table_name d i = get_table_name db i" "find_table d name = find_table db name"
    using assms by (simp_all add: schema_of_def get_table_name_def find_table_def)
  have t: "map_option table_schema (map_of (tables d) i) = map_option table_schema (map_of (tables db) i)"
    using assms map_of_map_values [of table_schema "tables d" i] map_of_map_values [of table_schema "tables db" i] by (simp add: schema_of_def)
  then have "map_option field_names (map_of (tables d) i) = map_option field_names (map_of (tables db) i)"
    by (cases "map_of (tables d) i"; cases "map_of (tables db) i") (simp_all add: table_schema_def)
  then show "get_field_name d i f = get_field_name db i f" "find_field d i name = find_field db i name"
    by (cases "map_of (tables d) i"; cases "map_of (tables db) i"; simp add: get_field_name_def find_field_def get_fields_def get_table_def)+
  show "get_field_type i f d = get_field_type i f db"
  proof (cases "map_of (tables db) i")
    case (Some u)
    then obtain v where v: "map_of (tables d) i = Some v" "table_schema v = table_schema u" using t by auto
    then have "map_option field_type (map_of (table_fields v) f) = map_option field_type (map_of (table_fields u) f)"
      using map_of_map_values [of field_type "table_fields u" f] map_of_map_values [of field_type "table_fields v" f] table_schemaD(3) by metis
    then show ?thesis using Some v(1)
      by (cases "map_of (table_fields v) f"; cases "map_of (table_fields u) f") (simp_all add: get_field_type_def)
  qed (use t in \<open>auto simp: get_field_type_def\<close>)
qed

lemma schema_of_new: "schema_of (db_new m) = schema_of schema_new"
  by (simp add: schema_of_def db_new_def schema_new_def)

text \<open>A name finds the table or the field that has it.\<close>

lemma find_key_of_name:
  assumes "schema_ok m names c" and "map_of names k = Some s"
  shows "find_key names s = k" and "k \<noteq> 0" and "is_identifier s"
proof -
  have k: "k \<in> dom (map_of m)" using assms by (auto simp: schema_ok_def)
  then show "k \<noteq> 0" using assms(1) by (auto simp: schema_ok_def)
  have "find_key names s \<noteq> 0" using find_key_fresh [OF assms(1), of s] assms(2) by (auto simp: ran_def)
  then have "map_of names (find_key names s) = Some s"
    using assms(1) by (intro find_key_lookup map_ok_distinct) (auto simp: schema_ok_def)
  then show "find_key names s = k" using assms unfolding schema_ok_def by (metis domI inj_onD)
  show "is_identifier s" using assms by (auto simp: schema_ok_def ran_def)
qed

lemma table_name_found:
  assumes "db_ok db" and "map_of (tables db) i = Some t"
  shows "find_table db (get_table_name db i) = i" and "i \<noteq> 0" and "is_identifier (get_table_name db i)"
proof -
  have ok: "schema_ok (tables db) (table_names db) (current_table_id db)" using assms(1) by (simp add: db_ok_def)
  then have "i \<in> dom (map_of (table_names db))" using assms(2) domI [of "map_of (tables db)" i t] unfolding schema_ok_def by metis
  then obtain s where "map_of (table_names db) i = Some s" by auto
  then show "find_table db (get_table_name db i) = i" "i \<noteq> 0" "is_identifier (get_table_name db i)"
    using find_key_of_name [OF ok] by (simp_all add: find_table_def get_table_name_def)
qed

lemma field_name_found:
  assumes "db_ok db" and "map_of (tables db) i = Some t" and "map_of (field_names t) f \<noteq> None"
  shows "find_field db i (get_field_name db i f) = f" and "f \<noteq> 0" and "is_identifier (get_field_name db i f)"
proof -
  have ok: "schema_ok (table_fields t) (field_names t) (current_field_id t)"
    using table_okD(2) [OF db_okD [OF assms(1,2)]] .
  obtain s where "map_of (field_names t) f = Some s" using assms(3) by auto
  then show "find_field db i (get_field_name db i f) = f" "f \<noteq> 0" "is_identifier (get_field_name db i f)"
    using find_key_of_name [OF ok] assms(2) by (simp_all add: find_field_def get_field_name_def get_fields_def get_table_def)
qed

lemma field_named:
  assumes "db_ok db" and "map_of (tables db) i = Some t" and "map_of (table_fields t) f = Some x"
  shows "map_of (field_names t) f \<noteq> None"
  using table_okD(2) [OF db_okD [OF assms(1,2)]] assms(3) by (auto simp: schema_ok_def)

end
