(* ===== verification/Interpreter_Proofs.thy ===== *)
theory Interpreter_Proofs
  imports Value_Proofs Schema_Proofs
begin

text \<open>
  What the command interpreter does with the lines that \<open>Interpreter_Dump_Writable\<close> prints: each makes the
  call of the writable that it was printed for.
\<close>

section \<open>Running commands\<close>

lemma bind_run_pure [simp]: "bind_run (pure (Inr x)) f = f x" "bind_run (pure (Inl e)) f = pure (Inl e)"
  by (simp_all add: fun_eq_iff bind_run_def pure_def)

lemma bind_run_Inr: "m i = (Inr x, i') \<Longrightarrow> bind_run m f i = f x i'"
  by (simp add: bind_run_def)

lemma bind_run_Pair [simp]: "bind_run (Pair (Inr x)) f = f x"
  by (simp add: fun_eq_iff bind_run_def)

lemma put_nothing [simp]: "put [] = pure (Inr ())"
  by (simp add: fun_eq_iff put_def pure_def print_def)

lemma pure_apply [simp]: "pure r i = (r, i)"
  by (simp add: pure_def)

lemma and_done_Inr: "m i = (Inr (), i') \<Longrightarrow> and_done m i = (Inr Status_Done, i')"
  by (simp add: and_done_def bind_run_Inr)

text \<open>A database as target.\<close>

lemma content_of_database [simp]: "content_of database_target i = target i"
  by (simp add: content_of_def database_target_def)

lemma call_database: "db_handle e (target i) = Inr db \<Longrightarrow> call_target database_target e i = (Inr (), i\<lparr>target := db\<rparr>)"
  by (simp add: call_target_def database_target_def database_writable_def)

section \<open>Names\<close>

lemma identifier_char:
  assumes "c = CHR ''_'' \<or> is_letter c \<or> is_number c"
  shows "\<not> is_space (word_of_nat (of_char c))"
proof -
  have "of_char c < (256 :: nat)" by simp
  then have u: "unat (word_of_nat (of_char c) :: byte) = of_char c" by (simp add: unat_of_nat)
  have "(of_char c :: nat) > 32" using assms by (auto simp: is_letter_def is_number_def less_eq_char_def)
  then show ?thesis using u by (auto simp: is_space_def word_le_nat_alt)
qed

lemma identifier_loop_chars: "identifier_loop p s \<Longrightarrow> list_all (\<lambda>c. c = CHR ''_'' \<or> is_letter c \<or> is_number c) s"
  by (induction p s rule: identifier_loop.induct) (auto split: if_splits)

lemma identifier_plain:
  assumes "is_identifier s"
  shows "plain_word s"
proof -
  from assms obtain p where "s \<noteq> []" "identifier_loop p s" by (cases s) (auto simp: is_identifier_def split: if_splits)
  have "list_all (\<lambda>c. \<not> is_space (word_of_nat (of_char c))) s"
    by (rule list.pred_mono_strong [OF identifier_loop_chars [OF \<open>identifier_loop p s\<close>] identifier_char])
  then show ?thesis using \<open>s \<noteq> []\<close> by (simp only: plain_word_def bytes_of_def list.pred_map o_def simp_thms)
qed

section \<open>From a line to a processor\<close>

lemma run_command_word:
  assumes "plain_word w" and "w \<noteq> ''?''" and "ends_word rest"
  shows "run_command ps (bytes_of w @ rest) = bind_run (processor_loop ps w (after rest) False)
    (\<lambda>(found, st). if found then pure (Inr st) else pure (Inl (unknown_command w)))"
proof -
  have "bytes_of w @ rest \<noteq> []" using assms(1) by (simp add: plain_word_def)
  then have "read_word (stream (bytes_of w @ rest)) = (w, after rest)"
    using read_word_law [OF assms(1,3)] by (simp add: stream_after)
  then show ?thesis using assms(2) by (simp add: run_command_def)
qed

text \<open>The words that the first two processors know.\<close>

definition general_word :: "string \<Rightarrow> bool" where
  "general_word w \<longleftrightarrow> hd w = CHR ''#'' \<or> w \<in> set [''?'', ''about'', ''echo'', ''prompt'', ''help'', ''include'', ''quit'', ''abort'']"

definition journal_word :: "string \<Rightarrow> bool" where
  "journal_word w \<longleftrightarrow> w \<in> set [''comment'', ''timestamp'', ''valid_data'', ''flush'', ''soft_checkpoint'', ''checkpoint'', ''hard_checkpoint'', ''write_blob'']"

text \<open>A line that takes a database to another one, and may print.\<close>

definition line_runs :: "Shell_Env \<Rightarrow> Record_Id \<Rightarrow> byte list \<Rightarrow> Database \<Rightarrow> Database \<Rightarrow> bool" where
  "line_runs E limit l db db' \<longleftrightarrow> (l = [] \<or> line_text l) \<and>
     (\<forall>incl i. target i = db \<longrightarrow>
        (\<exists>t. run_command (interpreter_processors E database_target limit incl) l i = (Inr Status_Done, print t (i\<lparr>target := db'\<rparr>))))"

lemma print_nothing [simp]: "print [] i = i"
  by (simp add: print_def)

lemma general_not_found: "plain_word w \<Longrightarrow> \<not> general_word w \<Longrightarrow> general_command E incl w s = pure (Inr Status_Not_Found)"
  by (auto simp: general_command_def general_word_def plain_word_def)

lemma writable_not_found: "\<not> general_word w \<Longrightarrow> \<not> journal_word w \<Longrightarrow> writable_command E T w s = pure (Inr Status_Not_Found)"
  by (auto simp: writable_command_def general_word_def journal_word_def)

lemma bytes_of_line: "plain_word w \<Longrightarrow> rest = [] \<or> line_text rest \<Longrightarrow> line_text (bytes_of w @ rest)"
  using line_text_append [of "bytes_of w" rest] plain_word_line_text line_text_newline by auto

lemma journal_line:
  assumes "plain_word w" and "\<not> general_word w" and "rest = [] \<or> line_text rest" and "ends_word rest"
    and "\<And>i. target i = db \<Longrightarrow> \<exists>t. writable_command E database_target w (after rest) i = (Inr Status_Done, print t (i\<lparr>target := db'\<rparr>))"
  shows "line_runs E limit (bytes_of w @ rest) db db'"
proof -
  have "w \<noteq> ''?''" using assms(2) by (auto simp: general_word_def)
  note run = run_command_word [OF assms(1) this assms(4)]
  have "\<exists>t. run_command (interpreter_processors E database_target limit incl) (bytes_of w @ rest) i = (Inr Status_Done, print t (i\<lparr>target := db'\<rparr>))"
    if "target i = db" for incl i
    using assms(5) [OF that]
    by (auto simp: run interpreter_processors_def bind_run_Inr general_not_found [OF assms(1,2)])
  then show ?thesis using bytes_of_line [OF assms(1,3)] by (simp add: line_runs_def)
qed

lemma definition_line:
  assumes "plain_word w" and "\<not> general_word w" and "\<not> journal_word w" and "line_text rest"
    and "\<And>i. target i = db \<Longrightarrow> definition_command E database_target limit w (after (32 # rest)) i = (Inr Status_Done, i\<lparr>target := db'\<rparr>)"
  shows "line_runs E limit (bytes_of w @ 32 # rest) db db'"
proof -
  have "w \<noteq> ''?''" using assms(2) by (auto simp: general_word_def)
  then have run: "run_command ps (bytes_of w @ 32 # rest) = bind_run (processor_loop ps w (after (32 # rest)) False)
    (\<lambda>(found, st). if found then pure (Inr st) else pure (Inl (unknown_command w)))" for ps :: "(string \<Rightarrow> Istream \<Rightarrow> (Status, 'x) run) list"
    using run_command_word [OF assms(1), of "32 # rest"] by simp
  have "run_command (interpreter_processors E database_target limit incl) (bytes_of w @ 32 # rest) i = (Inr Status_Done, print [] (i\<lparr>target := db'\<rparr>))"
    if "target i = db" for incl i
    using assms(5) [OF that]
    by (simp add: run interpreter_processors_def bind_run_Inr general_not_found [OF assms(1,2)] writable_not_found [OF assms(2,3)])
  then show ?thesis using bytes_of_line [OF assms(1)] line_text_space [OF assms(4)] unfolding line_runs_def by blast
qed

text \<open>Lines that do nothing: the end of a transaction, and the ones that start with \<open>#\<close>.\<close>

lemma empty_line: "line_runs E limit [] db db"
proof -
  have "read_word (stream []) = ([], \<lparr>in_chars = [], in_eof = True, in_fail = True\<rparr>)"
    by (simp add: read_word_def sentry_def stream_good_def)
  then have "run_command (interpreter_processors E database_target limit incl) [] i = (Inr Status_Done, print [] (i\<lparr>target := target i\<rparr>))" for incl i
    by (simp add: run_command_def interpreter_processors_def general_command_def)
  then show ?thesis unfolding line_runs_def by blast
qed

lemma hash_line: "line_text rest \<Longrightarrow> line_runs E limit (bytes_of ''#'' @ 32 # rest) db db"
proof -
  assume rest: "line_text rest"
  have w: "plain_word ''#''" by (simp add: plain_word_def bytes_of_def is_space_def)
  then have "run_command (interpreter_processors E database_target limit incl) (bytes_of ''#'' @ 32 # rest) i = (Inr Status_Done, print [] (i\<lparr>target := target i\<rparr>))" for incl i
    by (simp add: run_command_word interpreter_processors_def general_command_def)
  then show ?thesis using bytes_of_line [OF w] line_text_space [OF rest] unfolding line_runs_def by blast
qed

section \<open>Names in a command\<close>

lemma parse_table_law:
  assumes "db_ok db" and "map_of (tables db) i = Some t" and "ends_word rest"
  shows "parse_table (after (32 # bytes_of (get_table_name db i) @ rest)) db = Inr (i, after rest)"
  using read_word_law [OF identifier_plain [OF table_name_found(3) [OF assms(1,2)]] assms(3), of "32 # bytes_of (get_table_name db i) @ rest"]
    table_name_found(1,2) [OF assms(1,2)]
  by (simp add: parse_table_def)

lemma table_name_line: "db_ok db \<Longrightarrow> map_of (tables db) i = Some t \<Longrightarrow> line_text (bytes_of (get_table_name db i))"
  by (intro plain_word_line_text identifier_plain table_name_found(3))

lemma field_name_read:
  assumes "db_ok db" and "map_of (tables db) i = Some t" and "map_of (field_names t) f \<noteq> None" and "ends_word rest"
  shows "read_word (after (32 # bytes_of (get_field_name db i f) @ rest)) = (get_field_name db i f, after rest)"
  using read_word_law [OF identifier_plain [OF field_name_found(3) [OF assms(1-3)]] assms(4)] by simp

lemma field_name_line:
  "db_ok db \<Longrightarrow> map_of (tables db) i = Some t \<Longrightarrow> map_of (field_names t) f \<noteq> None \<Longrightarrow> line_text (bytes_of (get_field_name db i f))"
  by (intro plain_word_line_text identifier_plain field_name_found(3))

end
