(* ===== verification/Interpreter_Properties.thy ===== *)
theory Interpreter_Properties
  imports Interpreter_Proofs
begin

text \<open>
  The text that \<open>Interpreter_Dump_Writable\<close> prints for the events of a database is a program for the command
  interpreter: running it on an empty database gives the same database.
\<close>

section \<open>The events that have a text\<close>

text \<open>
  What the text of an event needs to be read as the same event. A number is in the range of its type; a value
  is legible; the type of a field is one that has a name, and a table that it refers to still exists;
  a vector is not longer than what the interpreter accepts.
\<close>

fun legible_event :: "Float_Text \<Rightarrow> Record_Id \<Rightarrow> Database \<Rightarrow> event \<Rightarrow> bool" where
  "legible_event F limit db (Add_Field i name ty) =
     (if type_id ty = Reference_Type then map_of (tables db) (type_table_id ty) \<noteq> None
      else macro_type (type_id ty) \<and> type_table_id ty = 0)"
| "legible_event F limit db (Custom name) = plain_word name"
| "legible_event F limit db (Insert_Into i r) = int64 r"
| "legible_event F limit db (Delete_From i r) = int64 r"
| "legible_event F limit db (Insert_Vector i r n) = (int64 r \<and> n < 2 ^ 64)"
| "legible_event F limit db (Delete_Vector i r n) = (int64 r \<and> n < 2 ^ 64)"
| "legible_event F limit db (Update i r f v) = (int64 r \<and> legible F v)"
| "legible_event F limit db (Update_Vector i r f ty vs) =
     (int64 r \<and> length vs < 2 ^ 64 \<and> (limit < 0 \<or> int (length vs) < limit)
      \<and> list_all (\<lambda>v. legible F v \<and> type_of_value v = ty) vs)"
| "legible_event F limit db _ = True"

fun legible_history :: "Float_Text \<Rightarrow> Record_Id \<Rightarrow> Database \<Rightarrow> event list \<Rightarrow> bool" where
  "legible_history F limit db [] = True"
| "legible_history F limit db (e # es) =
     (legible_event F limit db e \<and> (case db_handle e db of Inl x \<Rightarrow> True | Inr db' \<Rightarrow> legible_history F limit db' es))"

lemma text_follows_schema:
  assumes "schema_of d = schema_of db"
  shows "interpreter_text F d e = interpreter_text F db e"
  by (cases e) (simp_all add: interpreter_update_def interpreter_update_vector_def write_update_def interpreter_type_text_def
      schema_of_names [OF assms])

section \<open>The schema\<close>

lemma command_words:
  "plain_word ''create_table''" "plain_word ''drop_table''" "plain_word ''rename_table''" "plain_word ''add_field''"
  "plain_word ''drop_field''" "plain_word ''rename_field''" "plain_word ''custom''" "plain_word ''insert_into''"
  "plain_word ''delete_from''" "plain_word ''insert_vector''" "plain_word ''delete_vector''" "plain_word ''update''"
  "plain_word ''update_vector''" "plain_word ''comment''" "plain_word ''timestamp''" "plain_word ''valid_data''" "plain_word ''write_blob''"
  by (simp_all add: plain_word_def bytes_of_def is_space_def)

definition schema_word :: "string \<Rightarrow> bool" where
  "schema_word w \<longleftrightarrow> w \<in> set [''create_table'', ''drop_table'', ''rename_table'', ''add_field'', ''drop_field'', ''rename_field'', ''custom'']"

definition data_word :: "string \<Rightarrow> bool" where
  "data_word w \<longleftrightarrow> w \<in> set [''insert_into'', ''delete_from'', ''insert_vector'', ''delete_vector'', ''update'', ''update_vector'']"

lemma word_kinds: "schema_word w \<or> data_word w \<Longrightarrow> plain_word w \<and> \<not> general_word w \<and> \<not> journal_word w"
  by (auto simp: schema_word_def data_word_def general_word_def journal_word_def command_words)

lemma readable_not_found: "schema_word w \<or> data_word w \<Longrightarrow> readable_command E db w s = Inr (Status_Not_Found, [])"
  by (auto simp: schema_word_def data_word_def readable_command_def)

lemma manipulation_not_found: "schema_word w \<Longrightarrow> manipulation_command E T limit w s = pure (Inr Status_Not_Found)"
proof (rule ext)
  fix i
  assume w: "schema_word w"
  then have "w \<notin> set [''help'', ''append_into'', ''insert_into'', ''delete_from'', ''insert_vector'', ''delete_vector'', ''update'', ''update_vector'']"
    by (auto simp: schema_word_def)
  then show "manipulation_command E T limit w s i = pure (Inr Status_Not_Found) i"
    using w by (simp add: manipulation_command_def readable_not_found)
qed

lemma manipulation_first: "manipulation_command E T limit w s i = (Inr Status_Done, i') \<Longrightarrow> definition_command E T limit w s i = (Inr Status_Done, i')"
  by (simp add: definition_command_def bind_run_Inr)

text \<open>The line of a command of the third processor.\<close>

lemma schema_line:
  assumes "schema_word w" and "line_text rest"
    and "\<And>i. target i = db \<Longrightarrow> definition_command E database_target limit w (after (32 # rest)) i = (Inr Status_Done, i\<lparr>target := db'\<rparr>)"
  shows "line_runs E limit (bytes_of w @ 32 # rest) db db'"
  by (rule definition_line) (use assms word_kinds in blast)+

lemma data_line:
  assumes "data_word w" and "line_text rest"
    and "\<And>i. target i = db \<Longrightarrow> manipulation_command E database_target limit w (after (32 # rest)) i = (Inr Status_Done, i\<lparr>target := db'\<rparr>)"
  shows "line_runs E limit (bytes_of w @ 32 # rest) db db'"
  by (rule definition_line) (use assms word_kinds manipulation_first in blast)+

lemma bytes_of_command:
  "bytes_of ''create_table '' = bytes_of ''create_table'' @ [32]"
  "bytes_of ''drop_table '' = bytes_of ''drop_table'' @ [32]"
  "bytes_of ''rename_table '' = bytes_of ''rename_table'' @ [32]"
  "bytes_of ''add_field '' = bytes_of ''add_field'' @ [32]"
  "bytes_of ''drop_field '' = bytes_of ''drop_field'' @ [32]"
  "bytes_of ''rename_field '' = bytes_of ''rename_field'' @ [32]"
  "bytes_of ''custom '' = bytes_of ''custom'' @ [32]"
  "bytes_of ''insert_into '' = bytes_of ''insert_into'' @ [32]"
  "bytes_of ''delete_from '' = bytes_of ''delete_from'' @ [32]"
  "bytes_of ''insert_vector '' = bytes_of ''insert_vector'' @ [32]"
  "bytes_of ''delete_vector '' = bytes_of ''delete_vector'' @ [32]"
  "bytes_of ''update '' = bytes_of ''update'' @ [32]"
  "bytes_of ''update_vector '' = bytes_of ''update_vector'' @ [32]"
  "bytes_of ''references '' = bytes_of ''references'' @ [32]"
  "bytes_of ''comment '' = bytes_of ''comment'' @ [32]"
  "bytes_of ''timestamp '' = bytes_of ''timestamp'' @ [32]"
  "bytes_of ''write_blob '' = bytes_of ''write_blob'' @ [32]"
  "bytes_of '' '' = [32]"
  by (simp_all add: bytes_of_def)

lemmas text_of_event = interpreter_text.simps interpreter_schema_text.simps interpreter_record_text.simps
  bytes_of_simps(2) bytes_of_command

lemmas definition_run = schema_word_def definition_command_def manipulation_not_found and_done_Inr call_database

lemmas manipulation_run = data_word_def manipulation_command_def readable_not_found and_done_Inr call_database

text \<open>The text of an event, its line, and the run of its line.\<close>

definition event_runs :: "Shell_Env \<Rightarrow> Record_Id \<Rightarrow> Database \<Rightarrow> event \<Rightarrow> Database \<Rightarrow> bool" where
  "event_runs E limit db e db' \<longleftrightarrow> (\<exists>l. interpreter_text (env_floats E) db e = Inr (l @ newline) \<and> line_runs E limit l db db')"

lemma event_runsI:
  assumes "interpreter_text (env_floats E) db e = Inr (l @ newline)" and "line_runs E limit l db db'"
  shows "event_runs E limit db e db'"
  using assms by (auto simp: event_runs_def)

lemma create_table_runs:
  assumes "db_handle (Create_Table name) db = Inr db'"
  shows "event_runs E limit db (Create_Table name) db'"
proof (rule event_runsI)
  have name: "is_identifier name" using assms by (auto simp: create_table_def check_identifier_def)
  note read = read_word_law [OF identifier_plain [OF name], of "[]", simplified]
  show "interpreter_text (env_floats E) db (Create_Table name) = Inr ((bytes_of ''create_table'' @ 32 # bytes_of name) @ newline)"
    unfolding text_of_event by simp
  show "line_runs E limit (bytes_of ''create_table'' @ 32 # bytes_of name) db db'"
    by (rule schema_line) (use assms plain_word_line_text identifier_plain [OF name] in \<open>simp_all add: definition_run read\<close>)
qed

lemma table_exists:
  assumes "on_table i g db = Inr db'"
  obtains t where "map_of (tables db) i = Some t"
  using assms by (auto elim: on_table_Inr)

lemma drop_table_runs:
  assumes "db_ok db" and "db_handle (Drop_Table i) db = Inr db'"
  shows "event_runs E limit db (Drop_Table i) db'"
proof (rule event_runsI)
  obtain t where t: "map_of (tables db) i = Some t" using assms(2) by (auto simp: drop_table_def split: option.splits)
  note table = parse_table_law [OF assms(1) t, of "[]", simplified] table_name_line [OF assms(1) t]
  show "interpreter_text (env_floats E) db (Drop_Table i) = Inr ((bytes_of ''drop_table'' @ 32 # bytes_of (get_table_name db i)) @ newline)"
    unfolding text_of_event by simp
  show "line_runs E limit (bytes_of ''drop_table'' @ 32 # bytes_of (get_table_name db i)) db db'"
    by (rule schema_line) (use assms(2) in \<open>simp_all add: definition_run drop_table_command_def table\<close>)
qed

lemma rename_table_runs:
  assumes "db_ok db" and "db_handle (Rename_Table i name) db = Inr db'"
  shows "event_runs E limit db (Rename_Table i name) db'"
proof (rule event_runsI)
  obtain t where t: "map_of (tables db) i = Some t" and name: "is_identifier name"
    using assms(2) by (auto simp: rename_table_def get_table_def check_identifier_def split: option.splits if_splits)
  note read = read_word_law [OF identifier_plain [OF name], of "[]", simplified]
  note table = parse_table_law [OF assms(1) t, of "32 # bytes_of name", simplified]
  let ?l = "bytes_of (get_table_name db i) @ 32 # bytes_of name"
  show "interpreter_text (env_floats E) db (Rename_Table i name) = Inr ((bytes_of ''rename_table'' @ 32 # ?l) @ newline)"
    unfolding text_of_event by simp
  have "line_text ?l" using plain_word_line_text [OF identifier_plain [OF name]]
    by (intro line_text_append line_text_newline [OF table_name_line [OF assms(1) t]] line_text_space)
  then show "line_runs E limit (bytes_of ''rename_table'' @ 32 # ?l) db db'"
    by (intro schema_line) (use assms(2) in \<open>simp_all add: definition_run rename_table_command_def table read\<close>)
qed

text \<open>The type of a field, when it has a text.\<close>

definition named_types :: "Type_Id list" where
  "named_types = [String_Type, Int32_Type, Int64_Type, Boolean_Type, Float32_Type, Float64_Type, Int8_Type, Int16_Type, Blob_Type]"

lemma named_types_names:
  "list_all (\<lambda>t. macro_type_of_name (type_name t) = Some t) named_types"
  "list_all (\<lambda>t. type_name t \<noteq> ''references'') named_types"
  "list_all (\<lambda>t. plain_word (type_name t)) named_types"
  by code_simp+

lemma macro_type_named:
  assumes "macro_type t" and "t \<noteq> Reference_Type"
  shows "macro_type_of_name (type_name t) = Some t" and "plain_word (type_name t)" and "type_name t \<noteq> ''references''"
proof -
  have "t \<in> set named_types" using assms by (auto simp: macro_type_def type_ids_def named_types_def)
  then show "macro_type_of_name (type_name t) = Some t" "plain_word (type_name t)" "type_name t \<noteq> ''references''"
    using named_types_names by (simp_all add: list_all_iff)
qed

lemma references_word: "plain_word ''references''"
  by (simp add: plain_word_def bytes_of_def is_space_def)

lemma parse_type_law:
  assumes "db_ok db" and "legible_event F limit db (Add_Field i name ty)"
  shows "parse_type (after (32 # bytes_of (interpreter_type_text db ty))) db = Inr (ty, after [])"
    and "line_text (bytes_of (interpreter_type_text db ty))"
proof -
  consider (reference) u where "type_id ty = Reference_Type" "map_of (tables db) (type_table_id ty) = Some u"
    | (simple) "type_id ty \<noteq> Reference_Type" "macro_type (type_id ty)" "type_table_id ty = 0"
    using assms(2) by (auto split: if_splits)
  then have "parse_type (after (32 # bytes_of (interpreter_type_text db ty))) db = Inr (ty, after []) \<and> line_text (bytes_of (interpreter_type_text db ty))"
  proof cases
    case reference
    let ?n = "get_table_name db (type_table_id ty)"
    note named = table_name_found [OF assms(1) reference(2)] table_name_line [OF assms(1) reference(2)]
    have t: "bytes_of (interpreter_type_text db ty) = bytes_of ''references'' @ 32 # bytes_of ?n"
      using reference(1) unfolding interpreter_type_text_def by (simp add: bytes_of_def)
    have "read_word (after (32 # bytes_of ''references'' @ 32 # bytes_of ?n)) = (''references'', after (32 # bytes_of ?n))"
      using read_word_law [OF references_word, of "32 # bytes_of ?n"] by simp
    moreover have "read_word (after (32 # bytes_of ?n)) = (?n, after [])"
      using read_word_law [OF identifier_plain [OF named(3)], of "[]"] by simp
    moreover have "reference_type (type_table_id ty) = ty" using reference(1) by (simp add: reference_type_def)
    ultimately show ?thesis
      unfolding t using named line_text_append [of "bytes_of ''references''"] line_text_newline [OF plain_word_line_text [OF references_word]]
      by (simp add: parse_type_def line_text_space)
  next
    case simple
    then have t: "interpreter_type_text db ty = type_name (type_id ty)" by (simp add: interpreter_type_text_def)
    have "simple_type (type_id ty) = ty" using simple(3) by (simp add: simple_type_def)
    then show ?thesis
      using macro_type_named [OF simple(2,1)] read_word_law [of "type_name (type_id ty)" "[]"] unfolding t
      by (simp add: parse_type_def plain_word_line_text)
  qed
  then show "parse_type (after (32 # bytes_of (interpreter_type_text db ty))) db = Inr (ty, after [])"
    "line_text (bytes_of (interpreter_type_text db ty))" by simp_all
qed

lemma add_field_runs:
  assumes "db_ok db" and "db_handle (Add_Field i name ty) db = Inr db'" and "legible_event F limit db (Add_Field i name ty)"
  shows "event_runs E limit db (Add_Field i name ty) db'"
proof (rule event_runsI)
  have name: "is_identifier name" and on: "on_table i (table_add_field name ty) db = Inr db'"
    using assms(2) by (auto simp: add_field_def check_identifier_def)
  obtain t where t: "map_of (tables db) i = Some t" using on by (rule table_exists)
  let ?ty = "32 # bytes_of (interpreter_type_text db ty)"
  let ?l = "bytes_of (get_table_name db i) @ 32 # bytes_of name @ ?ty"
  note type = parse_type_law [OF assms(1,3)]
  note read = read_word_law [OF identifier_plain [OF name], of "?ty", simplified]
  note table = parse_table_law [OF assms(1) t, of "32 # bytes_of name @ ?ty", simplified]
  show "interpreter_text (env_floats E) db (Add_Field i name ty) = Inr ((bytes_of ''add_field'' @ 32 # ?l) @ newline)"
    unfolding text_of_event by simp
  have "line_text ?l"
    using line_text_newline [OF plain_word_line_text [OF identifier_plain [OF name]]] type(2)
    by (intro line_text_append line_text_newline [OF table_name_line [OF assms(1) t]] line_text_space)
  then show "line_runs E limit (bytes_of ''add_field'' @ 32 # ?l) db db'"
    by (intro schema_line) (use assms(2) in \<open>simp_all add: definition_run add_field_command_def table read type(1) read_word_end bind_run_Inr\<close>)
qed

text \<open>A field of a table.\<close>

lemma field_exists:
  assumes "db_ok db" and "on_table i g db = Inr db'" and "\<And>t t'. table_ok t \<Longrightarrow> g t = Inr t' \<Longrightarrow> map_of (field_names t) f \<noteq> None"
  obtains t where "map_of (tables db) i = Some t" and "map_of (field_names t) f \<noteq> None"
  using assms(2) by (elim on_table_Inr) (use assms(1,3) db_okD that in blast)

lemma drop_field_runs:
  assumes "db_ok db" and "db_handle (Drop_Field i f) db = Inr db'"
  shows "event_runs E limit db (Drop_Field i f) db'"
proof (rule event_runsI)
  obtain t where t: "map_of (tables db) i = Some t" "map_of (field_names t) f \<noteq> None"
    by (rule field_exists [OF assms(1), where g = "table_drop_field f" and i = i and f = f and db' = db'])
      (use assms(2) in \<open>auto simp: drop_field_def table_drop_field_def table_ok_def schema_ok_def split: option.splits\<close>)
  let ?f = "bytes_of (get_field_name db i f)"
  note field = field_name_read [OF assms(1) t, of "[]", simplified] field_name_found(1) [OF assms(1) t]
  note table = parse_table_law [OF assms(1) t(1), of "32 # ?f", simplified]
  let ?l = "bytes_of (get_table_name db i) @ 32 # ?f"
  show "interpreter_text (env_floats E) db (Drop_Field i f) = Inr ((bytes_of ''drop_field'' @ 32 # ?l) @ newline)"
    unfolding text_of_event by simp
  have "line_text ?l" using field_name_line [OF assms(1) t]
    by (intro line_text_append line_text_newline [OF table_name_line [OF assms(1) t(1)]] line_text_space)
  then show "line_runs E limit (bytes_of ''drop_field'' @ 32 # ?l) db db'"
    by (intro schema_line) (use assms(2) in \<open>simp_all add: definition_run drop_field_command_def table field\<close>)
qed

lemma rename_field_runs:
  assumes "db_ok db" and "db_handle (Rename_Field i f name) db = Inr db'"
  shows "event_runs E limit db (Rename_Field i f name) db'"
proof (rule event_runsI)
  have name: "is_identifier name" using assms(2) by (auto simp: rename_field_def check_identifier_def)
  obtain t where t: "map_of (tables db) i = Some t" "map_of (field_names t) f \<noteq> None"
    using assms(2) by (auto simp: rename_field_def check_identifier_def elim!: on_table_Inr split: option.splits if_splits)
  let ?f = "bytes_of (get_field_name db i f)"
  note read = read_word_law [OF identifier_plain [OF name], of "[]", simplified]
  note field = field_name_read [OF assms(1) t, of "32 # bytes_of name", simplified] field_name_found(1) [OF assms(1) t]
  note table = parse_table_law [OF assms(1) t(1), of "32 # ?f @ 32 # bytes_of name", simplified]
  let ?l = "bytes_of (get_table_name db i) @ 32 # ?f @ 32 # bytes_of name"
  show "interpreter_text (env_floats E) db (Rename_Field i f name) = Inr ((bytes_of ''rename_field'' @ 32 # ?l) @ newline)"
    unfolding text_of_event by simp
  have "line_text ?l" using line_text_newline [OF field_name_line [OF assms(1) t]] plain_word_line_text [OF identifier_plain [OF name]]
    by (intro line_text_append line_text_newline [OF table_name_line [OF assms(1) t(1)]] line_text_space)
  then show "line_runs E limit (bytes_of ''rename_field'' @ 32 # ?l) db db'"
    by (intro schema_line) (use assms(2) in \<open>simp_all add: definition_run rename_field_command_def table field read\<close>)
qed

lemma custom_runs:
  assumes "plain_word name"
  shows "event_runs E limit db (Custom name) db"
proof (rule event_runsI)
  note read = read_word_law [OF assms, of "[]", simplified]
  show "interpreter_text (env_floats E) db (Custom name) = Inr ((bytes_of ''custom'' @ 32 # bytes_of name) @ newline)"
    unfolding text_of_event by simp
  show "line_runs E limit (bytes_of ''custom'' @ 32 # bytes_of name) db db"
    by (rule schema_line) (use plain_word_line_text [OF assms] in \<open>simp_all add: definition_run read\<close>)
qed

section \<open>Records\<close>

text \<open>A command with a table, and the rest of its line.\<close>

lemma table_line:
  assumes "db_ok db" and "map_of (tables db) i = Some t" and "line_text rest"
  shows "line_text (bytes_of (get_table_name db i) @ 32 # rest)"
  by (intro line_text_append line_text_newline [OF table_name_line [OF assms(1,2)]] line_text_space assms(3))

lemma record_id_read:
  "int64 r \<Longrightarrow> ends_word rest \<Longrightarrow> read_record_id null_record (after (32 # show_int r @ rest)) = (r, after rest)"
  using read_record_id_law [of r rest "32 # show_int r @ rest" null_record] by simp

lemmas record_id_read_last = record_id_read [of _ "[]", simplified]

lemma on_table_record:
  assumes "db_handle e db = Inr db'" and "e = Insert_Into i r \<or> e = Delete_From i r \<or> e = Insert_Vector i r n \<or> e = Delete_Vector i r n"
  obtains t where "map_of (tables db) i = Some t" and "e = Insert_Into i r \<Longrightarrow> 0 \<le> r"
  using assms
  by (auto simp: insert_into_def delete_from_def insert_vector_def delete_vector_def elim!: on_table_Inr split: if_splits)

lemma insert_into_runs:
  assumes "db_ok db" and "db_handle (Insert_Into i r) db = Inr db'" and "int64 r"
  shows "event_runs E limit db (Insert_Into i r) db'"
proof (rule event_runsI)
  obtain t where t: "map_of (tables db) i = Some t" "0 \<le> r" using on_table_record [OF assms(2)] by auto
  let ?l = "bytes_of (get_table_name db i) @ 32 # show_int r"
  note table = parse_table_law [OF assms(1) t(1), of "32 # show_int r", simplified]
  show "interpreter_text (env_floats E) db (Insert_Into i r) = Inr ((bytes_of ''insert_into'' @ 32 # ?l) @ newline)"
    unfolding text_of_event by simp
  show "line_runs E limit (bytes_of ''insert_into'' @ 32 # ?l) db db'"
    by (rule data_line)
      (use assms(2,3) t table_line [OF assms(1) t(1) show_int_line_text] in
        \<open>simp_all add: manipulation_run insert_command_def table record_id_read_last stream_good_def bind_run_Inr\<close>)
qed

lemma delete_from_runs:
  assumes "db_ok db" and "db_handle (Delete_From i r) db = Inr db'" and "int64 r"
  shows "event_runs E limit db (Delete_From i r) db'"
proof (rule event_runsI)
  obtain t where t: "map_of (tables db) i = Some t" using on_table_record [OF assms(2)] by auto
  let ?l = "bytes_of (get_table_name db i) @ 32 # show_int r"
  note table = parse_table_law [OF assms(1) t, of "32 # show_int r", simplified]
  show "interpreter_text (env_floats E) db (Delete_From i r) = Inr ((bytes_of ''delete_from'' @ 32 # ?l) @ newline)"
    unfolding text_of_event by simp
  show "line_runs E limit (bytes_of ''delete_from'' @ 32 # ?l) db db'"
    by (rule data_line)
      (use assms(2,3) table_line [OF assms(1) t show_int_line_text] in
        \<open>simp_all add: manipulation_run delete_command_def table record_id_read_last\<close>)
qed

lemma size_read: "n < 2 ^ 64 \<Longrightarrow> ends_word rest \<Longrightarrow> read_unsigned 64 (after (32 # show_nat n @ rest)) = (n, after rest)"
  using read_unsigned_law [of n 64 rest "32 # show_nat n @ rest"] by (simp add: zless_nat_eq_int_zless [symmetric])

lemma vector_runs:
  assumes "db_ok db" and "db_handle e db = Inr db'" and "int64 r" and "n < 2 ^ 64" and "e = Insert_Vector i r n \<or> e = Delete_Vector i r n"
  shows "event_runs E limit db e db'"
proof -
  obtain t where t: "map_of (tables db) i = Some t" using on_table_record [OF assms(2), of i r n] assms(5) by auto
  let ?s = "show_int r @ 32 # show_nat n"
  let ?l = "bytes_of (get_table_name db i) @ 32 # ?s"
  note table = parse_table_law [OF assms(1) t, of "32 # ?s", simplified]
  note read = record_id_read [OF assms(3), of "32 # show_nat n", simplified] size_read [OF assms(4), of "[]", simplified]
  have "line_text ?s" by (intro line_text_append line_text_newline [OF show_int_line_text] line_text_space show_nat_line_text)
  note line = table_line [OF assms(1) t this]
  from assms(5) show ?thesis
  proof
    assume e: "e = Insert_Vector i r n"
    show ?thesis unfolding e
    proof (rule event_runsI)
      show "interpreter_text (env_floats E) db (Insert_Vector i r n) = Inr ((bytes_of ''insert_vector'' @ 32 # ?l) @ newline)"
        unfolding text_of_event by simp
      show "line_runs E limit (bytes_of ''insert_vector'' @ 32 # ?l) db db'"
        by (rule data_line) (use assms(2) e line in \<open>simp_all add: manipulation_run vector_command_def table read\<close>)
    qed
  next
    assume e: "e = Delete_Vector i r n"
    show ?thesis unfolding e
    proof (rule event_runsI)
      show "interpreter_text (env_floats E) db (Delete_Vector i r n) = Inr ((bytes_of ''delete_vector'' @ 32 # ?l) @ newline)"
        unfolding text_of_event by simp
      show "line_runs E limit (bytes_of ''delete_vector'' @ 32 # ?l) db db'"
        by (rule data_line) (use assms(2) e line in \<open>simp_all add: manipulation_run vector_command_def table read\<close>)
    qed
  qed
qed

section \<open>Values\<close>

text \<open>A record and a field of a table, and the rest of the line.\<close>

lemma parse_cell_law:
  assumes "db_ok db" and "map_of (tables db) i = Some t" and "map_of (table_fields t) f = Some x" and "int64 r"
  shows "parse_cell (after (32 # bytes_of (get_table_name db i) @ 32 # show_int r @ 32 # bytes_of (get_field_name db i f) @ 32 # rest)) db
    = Inr (i, r, f, after (32 # rest))"
    and "line_text rest \<Longrightarrow> line_text (bytes_of (get_table_name db i) @ 32 # show_int r @ 32 # bytes_of (get_field_name db i f) @ 32 # rest)"
proof -
  note named = field_named [OF assms(1-3)]
  let ?f = "32 # bytes_of (get_field_name db i f) @ 32 # rest"
  note read = parse_table_law [OF assms(1,2), of "32 # show_int r @ ?f", simplified] record_id_read [OF assms(4), of ?f, simplified]
    field_name_read [OF assms(1,2) named, of "32 # rest", simplified] field_name_found(1) [OF assms(1,2) named]
  show "parse_cell (after (32 # bytes_of (get_table_name db i) @ 32 # show_int r @ ?f)) db = Inr (i, r, f, after (32 # rest))"
    by (simp add: parse_cell_def read)
  assume "line_text rest"
  then show "line_text (bytes_of (get_table_name db i) @ 32 # show_int r @ ?f)"
    by (intro table_line [OF assms(1,2)] line_text_append line_text_newline [OF show_int_line_text]
        line_text_newline [OF field_name_line [OF assms(1,2) named]] line_text_space)
qed

lemma type_of_field: "map_of (tables db) i = Some t \<Longrightarrow> map_of (table_fields t) f = Some x \<Longrightarrow> get_field_type i f db = field_type x"
  by (simp add: get_field_type_def)

lemma macro_not_null: "macro_type ty \<Longrightarrow> ty \<noteq> Null_Type"
  by (auto simp: macro_type_def type_ids_def)

lemma update_runs:
  assumes "db_ok db" and "db_handle (Update i r f v) db = Inr db'" and "int64 r" and "legible (env_floats E) v"
  shows "event_runs E limit db (Update i r f v) db'"
proof -
  obtain t x where t: "map_of (tables db) i = Some t" "map_of (table_fields t) f = Some x" "type_id (field_type x) = type_of_value v"
    using assms(2) by (auto simp: db_update_def elim!: on_table_Inr table_update_Inr)
  obtain u where u: "value_text (env_floats E) v = Inr u" by (rule value_text_total)
  obtain s where s: "read_value_text (env_floats E) (type_of_value v) (after (32 # u)) = (v, s)" "\<not> in_fail s" "line_text u"
    using value_text_reads [OF u assms(4), of "[]"] by auto
  let ?l = "bytes_of (get_table_name db i) @ 32 # show_int r @ 32 # bytes_of (get_field_name db i f) @ 32 # u"
  note cell = parse_cell_law [OF assms(1) t(1,2) assms(3), of u]
  have "interpreter_text (env_floats E) db (Update i r f v) = Inr ((bytes_of ''update'' @ 32 # ?l) @ newline)"
    unfolding text_of_event interpreter_update_def write_update_def u by simp
  moreover have "line_runs E limit (bytes_of ''update'' @ 32 # ?l) db db'"
    by (rule data_line)
      (use assms(2) cell(2) s(3) in \<open>simp_all add: manipulation_run update_command_def update_value_def cell(1) s(1,2) safe_read_def
        type_of_field [OF t(1,2)] t(3) macro_not_null bind_run_Inr\<close>)
  ultimately show ?thesis by (rule event_runsI)
qed

text \<open>An empty vector is printed, and the interpreter makes no call for it: the database ignores it too.\<close>

lemma update_vector_nothing:
  assumes "db_ok db" and "db_update_vector i r f ty [] db = Inr db'"
  shows "db' = db"
proof -
  obtain t where "map_of (tables db) i = Some t" "db' = db\<lparr>tables := map_assign i t (tables db)\<rparr>"
    using assms(2) by (auto simp: db_update_vector_def table_update_vector_def elim!: on_table_Inr)
  then show ?thesis using assms(1) map_assign_same [of "tables db" i t] by (simp add: db_ok_def schema_ok_def map_ok_def)
qed

lemma update_vector_Inr:
  assumes "db_update_vector i r f ty vs db = Inr db'"
  obtains t x where "map_of (tables db) i = Some t" and "map_of (table_fields t) f = Some x" and "vs = [] \<or> type_id (field_type x) = ty"
  using assms
  by (auto simp: db_update_vector_def table_update_vector_def find_field_from_id_def field_set_vector_def std_get_def
      elim!: on_table_Inr split: option.splits if_splits)

lemma update_vector_runs:
  assumes "db_ok db" and "db_handle (Update_Vector i r f ty vs) db = Inr db'"
    and "legible_event (env_floats E) limit db (Update_Vector i r f ty vs)"
  shows "event_runs E limit db (Update_Vector i r f ty vs) db'"
proof -
  have legible: "int64 r" "length vs < 2 ^ 64" "limit < 0 \<or> int (length vs) < limit"
    "list_all (\<lambda>v. legible (env_floats E) v \<and> type_of_value v = ty) vs" using assms(3) by auto
  have ok: "db_update_vector i r f ty vs db = Inr db'" using assms(2) by simp
  then obtain t x where t: "map_of (tables db) i = Some t" "map_of (table_fields t) f = Some x" "vs = [] \<or> type_id (field_type x) = ty"
    by (rule update_vector_Inr)
  obtain ts where ts: "vector_text (env_floats E) vs = Inr ts" using vector_text_total by blast
  note vector = vector_text_reads [OF ts legible(4)]
  let ?n = "show_nat (length vs) @ ts"
  let ?l = "bytes_of (get_table_name db i) @ 32 # show_int r @ 32 # bytes_of (get_field_name db i f) @ 32 # ?n"
  note cell = parse_cell_law [OF assms(1) t(1,2) legible(1), of ?n]
  have size: "read_unsigned 64 (after (32 # ?n)) = (length vs, after ts)" by (rule size_read [OF legible(2)]) (use vector in simp)
  have printed: "interpreter_text (env_floats E) db (Update_Vector i r f ty vs) = Inr ((bytes_of ''update_vector'' @ 32 # ?l) @ newline)"
    unfolding text_of_event interpreter_update_vector_def write_update_def ts by simp
  have line: "line_text ?n"
    using vector ts show_nat_line_text [of "length vs"] by (cases vs) (auto intro: line_text_append dest: line_text_newline)
  have run: "update_vector_command (env_floats E) database_target limit (after (32 # ?l)) j = (Inr (), j\<lparr>target := db'\<rparr>)"
    if "target j = db" for j
  proof (cases vs)
    case Nil
    then have "db' = db" using update_vector_nothing [OF assms(1)] ok by simp
    then show ?thesis using Nil that legible(3) size cell(1) by (auto simp: update_vector_command_def)
  next
    case (Cons v ws)
    then have "type_id (get_field_type i f db) = ty" "macro_type ty" using t type_of_field [OF t(1,2)] legible(4) macro_type_of_value [of v] by auto
    then show ?thesis using Cons that legible(3) size cell(1) vector assms(2)
      by (auto simp: update_vector_command_def macro_not_null call_database)
  qed
  have "line_runs E limit (bytes_of ''update_vector'' @ 32 # ?l) db db'"
    by (rule data_line) (use cell(2) [OF line] run in \<open>simp_all add: manipulation_run\<close>)
  then show ?thesis by (rule event_runsI [OF printed])
qed

section \<open>The other events\<close>

lemma text_runs:
  assumes "plain_word w" and "\<not> general_word w"
    and "\<And>i u s. read_text s = (bytes_of x, u) \<Longrightarrow> target i = db \<Longrightarrow>
      \<exists>t. writable_command E database_target w s i = (Inr Status_Done, print t (i\<lparr>target := db\<rparr>))"
    and "\<And>u. write_text (bytes_of x) False = Inr u \<Longrightarrow> interpreter_text (env_floats E) db e = Inr ((bytes_of w @ 32 # u) @ newline)"
  shows "event_runs E limit db e db"
proof -
  obtain u where u: "write_text (bytes_of x) False = Inr u" "u \<noteq> []" "10 \<notin> set u" "last u = 34"
    "\<And>n rest. read_text (stream (replicate n 32 @ u @ rest)) = (bytes_of x, stream rest)"
    by (rule write_text_law [of "bytes_of x"]) (rule that)
  have "read_text (after (32 # u)) = (bytes_of x, stream [])" using u(5) [of 1 "[]"] by (simp add: after_def)
  note run = assms(3) [OF this]
  have "line_text (32 # u)" using u(2-4) by (auto simp: line_text_def is_space_def)
  then have "line_runs E limit (bytes_of w @ 32 # u) db db" by (intro journal_line assms(1,2)) (use run in auto)
  then show ?thesis by (rule event_runsI [OF assms(4) [OF u(1)]])
qed

lemma comment_runs: "event_runs E limit db (Comment x) db"
proof (rule text_runs [of "''comment''" x])
  show "\<exists>t. writable_command E database_target ''comment'' s i = (Inr Status_Done, print t (i\<lparr>target := db\<rparr>))"
    if "read_text s = (bytes_of x, u)" "target i = db" for i u s
    using that by (intro exI [of _ "[]"]) (simp add: writable_command_def and_done_Inr call_database)
  show "interpreter_text (env_floats E) db (Comment x) = Inr ((bytes_of ''comment'' @ 32 # u) @ newline)"
    if "write_text (bytes_of x) False = Inr u" for u unfolding text_of_event that by simp
qed (simp_all add: command_words general_word_def)

lemma write_blob_runs: "event_runs E limit db (Write_Blob x) db"
proof (rule text_runs [of "''write_blob''" x])
  show "\<exists>t. writable_command E database_target ''write_blob'' s i = (Inr Status_Done, print t (i\<lparr>target := db\<rparr>))"
    if "read_text s = (bytes_of x, u)" "target i = db" for i u s
    using that by (auto simp: writable_command_def and_done_def write_blob_command_def call_database put_def bind_run_def)
  show "interpreter_text (env_floats E) db (Write_Blob x) = Inr ((bytes_of ''write_blob'' @ 32 # u) @ newline)"
    if "write_text (bytes_of x) False = Inr u" for u unfolding text_of_event that by simp
qed (simp_all add: command_words general_word_def)

lemma digits_in_line: "10 \<notin> set (bytes_of (to_string n))"
  using digits_of_string [of n] digit_not_space by (fastforce simp: list_all_iff is_space_def)

lemma two_digits_in_line: "10 \<notin> set (bytes_of (two_digits v))"
  using digits_in_line by (auto simp: two_digits_def bytes_of_def)

lemma time_string_line: "line_text (get_time_string t)"
proof -
  have g: "line_text (bytes_of '' GMT'')" "line_text (bytes_of ''bad timestamp'')" "10 \<notin> set (bytes_of ''-'')" "10 \<notin> set (bytes_of '' '')" "10 \<notin> set (bytes_of '':'')"
    by (simp_all add: line_text_def bytes_of_def is_space_def)
  then show ?thesis
    unfolding get_time_string_def Let_def bytes_of_simps(2)
    by (auto split: prod.splits intro!: line_text_append line_text_newline [OF show_int_line_text] two_digits_in_line)
qed

lemma timestamp_runs: "event_runs E limit db (Timestamp w) db"
proof (rule event_runsI)
  let ?l = "show_int (sint w) @ 32 # get_time_string (sint w)"
  have "line_text (32 # ?l)" using time_string_line by (intro line_text_space line_text_append line_text_newline [OF show_int_line_text])
  moreover have "read_signed 64 (after (32 # ?l)) = (sint w, after (32 # get_time_string (sint w)))"
    by (rule read_signed_law) (use sint_bounds [of w] in simp_all)
  ultimately show "line_runs E limit (bytes_of ''timestamp'' @ 32 # ?l) db db"
    by (intro journal_line) (auto simp: command_words general_word_def writable_command_def timestamp_command_def and_done_Inr call_database
        intro!: exI [of _ "[]"])
  show "interpreter_text (env_floats E) db (Timestamp w) = Inr ((bytes_of ''timestamp'' @ 32 # ?l) @ newline)"
    unfolding text_of_event by simp
qed

lemma valid_data_runs: "event_runs E limit db Valid_Data db"
proof (rule event_runsI)
  show "line_runs E limit (bytes_of ''valid_data'' @ []) db db"
    by (intro journal_line) (auto simp: command_words general_word_def writable_command_def and_done_Inr call_database intro!: exI [of _ "[]"])
  show "interpreter_text (env_floats E) db Valid_Data = Inr ((bytes_of ''valid_data'' @ []) @ newline)" by simp
qed

lemma blob_runs: "event_runs E limit db (On_Blob b) db"
proof (rule event_runsI)
  have "line_text (write_blob_text b)"
    using show_int_line_text line_text_newline unfolding write_blob_text_def by (intro line_text_append) auto
  then have "line_text (bytes_of ''Blob: '' @ write_blob_text b)" by (intro line_text_append) (simp_all add: bytes_of_def)
  then show "line_runs E limit (bytes_of ''#'' @ 32 # bytes_of ''Blob: '' @ write_blob_text b) db db" by (rule hash_line)
  show "interpreter_text (env_floats E) db (On_Blob b) = Inr ((bytes_of ''#'' @ 32 # bytes_of ''Blob: '' @ write_blob_text b) @ newline)"
    by (simp add: bytes_of_def)
qed

lemma event_played:
  assumes "db_ok db" and "legible_event (env_floats E) limit db e" and "db_handle e db = Inr db'"
  shows "event_runs E limit db e db' \<or> interpreter_text (env_floats E) db e = Inr [] \<and> db' = db"
proof (cases e)
  case Soft_Checkpoint
  then show ?thesis using assms(3) empty_line by (auto simp: event_runs_def)
next
  case Hard_Checkpoint
  then show ?thesis using assms(3) empty_line by (auto simp: event_runs_def)
qed (use assms create_table_runs drop_table_runs rename_table_runs add_field_runs drop_field_runs rename_field_runs custom_runs
    insert_into_runs delete_from_runs vector_runs update_runs update_vector_runs comment_runs timestamp_runs valid_data_runs
    blob_runs write_blob_runs in auto)

section \<open>The whole text\<close>

text \<open>A text that the main loop reads, from one content of the database to another.\<close>

definition text_runs_to :: "Shell_Env \<Rightarrow> Record_Id \<Rightarrow> byte list \<Rightarrow> Database \<Rightarrow> Database \<Rightarrow> bool" where
  "text_runs_to E limit out db db' \<longleftrightarrow> (\<forall>incl n rest i. target i = db \<longrightarrow>
     (\<exists>n' i'. target i' = db' \<and>
        line_loop (interpreter_processors E database_target limit incl) n (stream (out @ rest)) i
          = line_loop (interpreter_processors E database_target limit incl) n' (stream rest) i'))"

lemma text_runs_nothing: "text_runs_to E limit [] db db"
  by (auto simp: text_runs_to_def)

lemma text_runs_append:
  assumes "text_runs_to E limit s db db'" and "text_runs_to E limit t db' db''"
  shows "text_runs_to E limit (s @ t) db db''"
  unfolding text_runs_to_def
proof (intro allI impI)
  fix incl n rest and i :: "Database Interp"
  let ?loop = "line_loop (interpreter_processors E database_target limit incl)"
  assume "target i = db"
  then obtain n' i' where 1: "target i' = db'" "?loop n (stream (s @ t @ rest)) i = ?loop n' (stream (t @ rest)) i'"
    using assms(1) unfolding text_runs_to_def by blast
  then obtain n'' i'' where "target i'' = db''" "?loop n' (stream (t @ rest)) i' = ?loop n'' (stream rest) i''"
    using assms(2) unfolding text_runs_to_def by blast
  then show "\<exists>n' i'. target i' = db'' \<and> ?loop n (stream ((s @ t) @ rest)) i = ?loop n' (stream rest) i'"
    using 1(2) by auto
qed

lemma text_runs_line:
  assumes "line_runs E limit l db db'"
  shows "text_runs_to E limit (l @ newline) db db'"
  unfolding text_runs_to_def
proof (intro allI impI)
  fix incl n rest and i :: "Database Interp"
  let ?ps = "interpreter_processors E database_target limit incl"
  assume i: "target i = db"
  define i1 where "i1 = (if prompt i then print (write_whole_prompt i) i else i)\<lparr>last_line_empty := l = []\<rparr>"
  have "target i1 = db" using i by (simp add: i1_def print_def)
  then obtain t where run: "run_command ?ps l i1 = (Inr Status_Done, print t (i1\<lparr>target := db'\<rparr>))"
    using assms unfolding line_runs_def by blast
  have l: "l = [] \<or> line_text l" "10 \<notin> set l" using assms line_text_newline by (auto simp: line_runs_def)
  have strip: "strip l = l" by (rule strip_law [OF l(1)])
  let ?i2 = "print t (i1\<lparr>target := db'\<rparr>)"
  let ?i3 = "if echo ?i2 then print (bytes_of ''OK: '' @ l @ newline) ?i2 else ?i2"
  have "line_loop ?ps n (stream ((l @ newline) @ rest)) i = line_loop ?ps (n + 1) (stream rest) ?i3"
    using read_line_law [OF l(2), of rest] run strip by (subst line_loop.simps) (simp add: Let_def i1_def)
  moreover have "target ?i3 = db'" by (simp add: print_def)
  ultimately show "\<exists>n' i'. target i' = db' \<and> line_loop ?ps n (stream ((l @ newline) @ rest)) i = line_loop ?ps n' (stream rest) i'"
    by blast
qed

lemma text_of_event_runs:
  assumes "db_ok db" and "legible_event (env_floats E) limit db e" and "db_handle e db = Inr db'" and "schema_of d = schema_of db"
  obtains out where "interpreter_text (env_floats E) d e = Inr out" and "text_runs_to E limit out db db'"
  using event_played [OF assms(1-3)] text_runs_line text_runs_nothing
  by (auto simp: event_runs_def text_follows_schema [OF assms(4)])

lemma legible_typed: "legible_event F limit db e \<Longrightarrow> event_typed e"
  by (cases e) (auto simp: list_all_iff)

text \<open>One event behind the multiplexer.\<close>

lemma dump_event:
  assumes "db_ok db" and "legible_event (env_floats E) limit db e" and "db_handle e db = Inr db'" and "schema_of (dump_schema d) = schema_of db"
  obtains d' out where "text_dump_handle (interpreter_text (env_floats E)) bw e d = Inr d'" and "dump_out d' = dump_out d @ out"
    and "text_runs_to E limit out db db'" and "schema_of (dump_schema d') = schema_of db'"
proof -
  obtain u where u: "interpreter_text (env_floats E) (dump_schema d) e = Inr u" "text_runs_to E limit u db db'"
    by (rule text_of_event_runs [OF assms])
  obtain s where s: "schema_handle e (dump_schema d) = Inr s" "schema_of s = schema_of db'"
    using schema_follows [OF assms(1,4,3)] by blast
  let ?t = "if is_write_blob e \<and> \<not> bw then [] else u"
  have "text_runs_to E limit ?t db db'" using u(2) assms(3) text_runs_nothing by (cases e) auto
  then show thesis using u(1) s by (intro that [of "\<lparr>dump_schema = s, dump_out = dump_out d @ ?t\<rparr>" ?t]) (simp_all add: text_dump_handle_def)
qed

lemma dump_history:
  assumes "db_ok db" and "legible_history (env_floats E) limit db es" and "fold_result db_handle es db = Inr db'"
    and "schema_of (dump_schema d) = schema_of db"
  shows "\<exists>d' out. fold_result (text_dump_handle (interpreter_text (env_floats E)) bw) es d = Inr d' \<and> dump_out d' = dump_out d @ out
    \<and> text_runs_to E limit out db db'"
  using assms
proof (induction es arbitrary: db d)
  case Nil
  then show ?case using text_runs_nothing by auto
next
  case (Cons e es)
  from Cons.prems(3) obtain db1 where e: "db_handle e db = Inr db1" "fold_result db_handle es db1 = Inr db'"
    by (auto split: sum.splits elim: bind_result_InrE)
  have legible: "legible_event (env_floats E) limit db e" "legible_history (env_floats E) limit db1 es" using Cons.prems(2) e(1) by simp_all
  have ok: "db_ok db1" using safe_db_handle [OF Cons.prems(1) legible_typed [OF legible(1)]] e(1) by simp
  obtain d1 t1 where d1: "text_dump_handle (interpreter_text (env_floats E)) bw e d = Inr d1" "dump_out d1 = dump_out d @ t1"
    "text_runs_to E limit t1 db db1" "schema_of (dump_schema d1) = schema_of db1"
    by (rule dump_event [OF Cons.prems(1) legible(1) e(1) Cons.prems(4)])
  obtain d2 t2 where d2: "fold_result (text_dump_handle (interpreter_text (env_floats E)) bw) es d1 = Inr d2" "dump_out d2 = dump_out d1 @ t2"
    "text_runs_to E limit t2 db1 db'"
    using Cons.IH [OF ok legible(2) e(2) d1(4)] by blast
  then show ?case using d1 text_runs_append [OF d1(3) d2(3)] by auto
qed

text \<open>
  C16. A dump is a program that rebuilds the database. The events of a legible history, sent to an
  \<open>Interpreter_Dump_Writable\<close>, print a text without an exception, and the command interpreter runs that text on an
  empty database to its end, in any state of its flags, and leaves the database that the events themselves lead
  to: the same tables and fields with the same identifiers, the same free lists and the same values.
\<close>

theorem dump_interpreted:
  assumes "legible_history (env_floats E) limit (db_new m) es" and "fold_result db_handle es (db_new m) = Inr db" and "target i = db_new m"
  shows "\<exists>d i'. fold_result (handle (interpreter_dump_writable (env_floats E) bw)) es text_dump_new = Inr d
    \<and> main_loop E database_target limit (dump_out d) i = (Inr (), i') \<and> target i' = db"
proof -
  obtain d where d: "fold_result (text_dump_handle (interpreter_text (env_floats E)) bw) es text_dump_new = Inr d"
    "text_runs_to E limit (dump_out d) (db_new m) db"
    using dump_history [OF db_ok_new assms(1,2), of text_dump_new bw] by (auto simp: text_dump_new_def schema_of_new)
  let ?loop = "line_loop (interpreter_processors E database_target limit (include_loop E database_target limit 42))"
  obtain n i1 where i1: "target i1 = db" "?loop 0 (stream (dump_out d @ [])) i = ?loop n (stream []) i1"
    using d(2) assms(3) unfolding text_runs_to_def by blast
  have "?loop n (stream []) i1 = (Inr (), if prompt i1 then print (write_whole_prompt i1) i1 else i1)"
    by (subst line_loop.simps) (simp add: read_line_def stream_good_def Let_def)
  then show ?thesis
    using d(1) i1 by (auto simp: main_loop_def interpreter_dump_writable_def text_dump_writable_def print_def)
qed

text \<open>An instance: floating-point numbers are written as the decimal number of their bits.\<close>

definition bits_text :: Float_Text where
  "bits_text = \<lparr>write_float = (\<lambda>w. show_nat (unat w)), write_double = (\<lambda>w. show_nat (unat w)),
     read_float = (\<lambda>s. case read_unsigned 32 s of (n, s1) \<Rightarrow> (word_of_nat n, s1)),
     read_double = (\<lambda>s. case read_unsigned 64 s of (n, s1) \<Rightarrow> (word_of_nat n, s1))\<rparr>"

definition bits_env :: Shell_Env where
  "bits_env = \<lparr>env_floats = bits_text, env_width = (\<lambda>c. 1), env_files = (\<lambda>n. None), env_about = [], env_clock = (\<lambda>n. 0)\<rparr>"

lemma bits_legible: "legible bits_text (Float32_Value w)"
proof -
  have "read_unsigned 32 (after (32 # show_nat (unat w) @ rest)) = (unat w, after rest)" if "ends_word rest" for rest
    using read_unsigned_law [of "unat w" 32 rest "32 # show_nat (unat w) @ rest"] that uint_lt2p [of w] by simp
  moreover have "list_all (\<lambda>c. \<not> is_space c) (show_nat (unat w))"
    using digits_of_string digit_not_space by (auto simp: show_nat_def list_all_iff)
  ultimately show ?thesis using show_nat_line_text [of "unat w"] by (simp add: bits_text_def text_reads_def line_text_def)
qed

definition dumped_schema :: "event list" where
  "dumped_schema = [Create_Table ''city'', Add_Field 1 ''name'' (simple_type String_Type), Create_Table ''person'',
     Add_Field 2 ''height'' (simple_type Float32_Type)]"

definition dumped_events :: "event list" where
  "dumped_events = dumped_schema @ Add_Field 2 ''home'' (reference_type 1) # [Timestamp 1700000000,
     Insert_Vector 1 0 3, Update_Vector 1 0 1 String_Type [String_Value ''Paris'', String_Value [CHR 0x0a, CHR 0x22], String_Value []],
     Rename_Field 1 1 ''city_name'', Delete_From 1 1, Insert_Into 2 0, Update 2 0 2 (Reference_Value 2), Comment ''height'',
     Update 2 0 1 (Float32_Value 0x3f800000), Soft_Checkpoint]"

lemma legible_append:
  "legible_history F limit db es \<Longrightarrow> fold_result db_handle es db = Inr db' \<Longrightarrow> legible_history F limit db' es' \<Longrightarrow>
     legible_history F limit db (es @ es')"
  by (induction es arbitrary: db) (auto split: sum.splits elim: bind_result_InrE)

lemma legible_anywhere: "(\<And>e db. e \<in> set es \<Longrightarrow> legible_event F limit db e) \<Longrightarrow> legible_history F limit db es"
  by (induction es arbitrary: db) (auto split: sum.splits)

lemma legible_Cons: "legible_event F limit db e \<Longrightarrow> (\<And>db'. legible_history F limit db' es) \<Longrightarrow> legible_history F limit db (e # es)"
  by (auto split: sum.split)

lemma dumped_legible: "legible_history bits_text null_record (db_new null_record) dumped_events"
proof -
  have "case fold_result db_handle dumped_schema (db_new null_record) of Inr db \<Rightarrow> map_of (tables db) 1 \<noteq> None | Inl x \<Rightarrow> False"
    by code_simp
  then obtain db where db: "fold_result db_handle dumped_schema (db_new null_record) = Inr db" "map_of (tables db) 1 \<noteq> None"
    by (auto split: sum.splits)
  have "legible_history bits_text null_record (db_new null_record) dumped_schema"
    by (rule legible_anywhere) (auto simp: dumped_schema_def simple_type_def macro_type_def type_ids_def)
  then show ?thesis unfolding dumped_events_def
  proof (rule legible_append [OF _ db(1)])
    have rest: "legible_history bits_text null_record db' [Timestamp 1700000000,
     Insert_Vector 1 0 3, Update_Vector 1 0 1 String_Type [String_Value ''Paris'', String_Value [CHR 0x0a, CHR 0x22], String_Value []],
     Rename_Field 1 1 ''city_name'', Delete_From 1 1, Insert_Into 2 0, Update 2 0 2 (Reference_Value 2), Comment ''height'',
     Update 2 0 1 (Float32_Value 0x3f800000), Soft_Checkpoint]" for db'
      by (rule legible_anywhere) (use bits_legible [of "0x3f800000"] in \<open>auto simp: int64_def\<close>)
    show "legible_history bits_text null_record db (Add_Field 2 ''home'' (reference_type 1) # [Timestamp 1700000000,
     Insert_Vector 1 0 3, Update_Vector 1 0 1 String_Type [String_Value ''Paris'', String_Value [CHR 0x0a, CHR 0x22], String_Value []],
     Rename_Field 1 1 ''city_name'', Delete_From 1 1, Insert_Into 2 0, Update 2 0 2 (Reference_Value 2), Comment ''height'',
     Update 2 0 1 (Float32_Value 0x3f800000), Soft_Checkpoint])"
      by (rule legible_Cons [OF _ rest]) (use db(2) in \<open>simp add: reference_type_def\<close>)
  qed
qed

theorem dump_interpreted_witness:
  "\<exists>db d i'. fold_result db_handle dumped_events (db_new null_record) = Inr db
    \<and> db_get Float32_Type 2 0 1 db = Inr (Float32_Value 0x3f800000)
    \<and> fold_result (handle (interpreter_dump_writable bits_text True)) dumped_events text_dump_new = Inr d
    \<and> main_loop bits_env database_target null_record (dump_out d) (interp_new (db_new null_record)) = (Inr (), i') \<and> target i' = db"
proof -
  have "case fold_result db_handle dumped_events (db_new null_record) of
      Inr db \<Rightarrow> db_get Float32_Type 2 0 1 db = Inr (Float32_Value 0x3f800000) | Inl x \<Rightarrow> False" by code_simp
  then obtain db where "fold_result db_handle dumped_events (db_new null_record) = Inr db"
    "db_get Float32_Type 2 0 1 db = Inr (Float32_Value 0x3f800000)" by (auto split: sum.splits)
  moreover have "target (interp_new (db_new null_record)) = db_new null_record" by (simp add: interp_new_def)
  ultimately show ?thesis
    using dump_interpreted [of bits_env null_record null_record dumped_events db "interp_new (db_new null_record)" True] dumped_legible
    by (simp add: bits_env_def)
qed

section \<open>References to dropped tables\<close>

text \<open>
  The event history of a database can be legible when the database is not: a field can refer to a table that
  was dropped later. \<open>dump\<close> then prints a type that the interpreter refuses, whatever its database.
\<close>

definition dropped_reference :: "event list" where
  "dropped_reference = [Create_Table ''a'', Create_Table ''b'', Add_Field 2 ''c'' (reference_type 1), Drop_Table 1]"

lemma dropped_reference_dump:
  "case fold_result db_handle dropped_reference (db_new null_record) of
     Inr db \<Rightarrow>
       (case dump db (interpreter_dump_writable bits_text True) False text_dump_new of
          Inr d \<Rightarrow> dump_out d = bytes_of ''create_table b'' @ newline @ bytes_of ''add_field b c references __unknown_table__'' @ newline
        | Inl x \<Rightarrow> False)
   | Inl x \<Rightarrow> False"
  by code_simp

lemma unknown_table_refused:
  assumes "db_ok db"
  shows "parse_type (after (32 # bytes_of ''references'' @ 32 # bytes_of ''__unknown_table__'')) db = Inl (Exception ''unknown type'')"
proof -
  let ?u = "''__unknown_table__''"
  have u: "plain_word ?u" "\<not> is_identifier ?u" by code_simp+
  have ok: "schema_ok (tables db) (table_names db) (current_table_id db)" using assms by (simp add: db_ok_def)
  have "find_table db ?u = 0"
  proof (rule ccontr)
    assume "find_table db ?u \<noteq> 0"
    then have "map_of (table_names db) (find_table db ?u) = Some ?u"
      using ok unfolding find_table_def by (intro find_key_lookup map_ok_distinct) (simp_all add: schema_ok_def)
    then show False using u(2) find_key_of_name(3) [OF ok] by blast
  qed
  moreover have "read_word (after (32 # bytes_of ''references'' @ 32 # bytes_of ?u)) = (''references'', after (32 # bytes_of ?u))"
    by (rule read_word_law [OF references_word]) simp_all
  moreover have "read_word (after (32 # bytes_of ?u)) = (?u, after [])"
    by (rule read_word_law [OF u(1)]) simp_all
  moreover have "macro_type_of_name ''references'' = None" by code_simp
  ultimately show ?thesis by (simp add: parse_type_def)
qed

end
